(* ===== verification/Prelude.thy ===== *)
theory Prelude
  imports Main "HOL-Library.Sublist"
begin

text \<open>
  Shared vocabulary of the development: Rust's \<open>Result\<close> as a sum with its \<open>?\<close> operator, the
  ASCII classifiers and the string operations of \<open>core::str\<close> the components call, and the
  generic lemmas about them. A Rust \<open>String\<close> is its UTF-8 byte sequence, a HOL \<open>string\<close>.
\<close>

named_theorems result_simps \<open>equations of the error monad\<close>
named_theorems ascii_simps \<open>definitions of the ASCII classifiers\<close>

subsection \<open>Results\<close>

type_synonym ('e, 'a) result = "'e + 'a"

abbreviation Ok :: "'a \<Rightarrow> ('e, 'a) result" where "Ok \<equiv> Inr"
abbreviation Err :: "'e \<Rightarrow> ('e, 'a) result" where "Err \<equiv> Inl"

text \<open>The \<open>?\<close> operator: continue with the value or return the error.\<close>

fun rbind :: "('e, 'a) result \<Rightarrow> ('a \<Rightarrow> ('e, 'b) result) \<Rightarrow> ('e, 'b) result" where
  "rbind (Inl e) f = Inl e"
| "rbind (Inr a) f = f a"

declare rbind.simps [result_simps]

fun is_ok :: "('e, 'a) result \<Rightarrow> bool" where
  "is_ok (Inl _) = False"
| "is_ok (Inr _) = True"

lemma rbind_eq_Ok: "rbind r f = Inr b \<longleftrightarrow> (\<exists>a. r = Inr a \<and> f a = Inr b)"
  by (cases r) auto

lemma rbind_eq_Err: "rbind r f = Inl e \<longleftrightarrow> r = Inl e \<or> (\<exists>a. r = Inr a \<and> f a = Inl e)"
  by (cases r) auto

lemma rbind_cong [fundef_cong]:
  "r = r' \<Longrightarrow> (\<And>a. r' = Inr a \<Longrightarrow> f a = g a) \<Longrightarrow> rbind r f = rbind r' g"
  by (cases r') auto

lemma rbind_assoc: "rbind (rbind r f) g = rbind r (\<lambda>a. rbind (f a) g)"
  by (cases r) auto

fun ok_or :: "'e \<Rightarrow> 'a option \<Rightarrow> ('e, 'a) result" where
  "ok_or e None = Inl e"
| "ok_or e (Some a) = Inr a"

subsection \<open>ASCII\<close>

abbreviation ord :: "char \<Rightarrow> nat" where "ord c \<equiv> of_char c"

definition is_ascii_digit :: "char \<Rightarrow> bool" where
  [ascii_simps]: "is_ascii_digit c \<longleftrightarrow> 48 \<le> ord c \<and> ord c \<le> 57"

definition is_ascii_uppercase :: "char \<Rightarrow> bool" where
  [ascii_simps]: "is_ascii_uppercase c \<longleftrightarrow> 65 \<le> ord c \<and> ord c \<le> 90"

definition is_ascii_lowercase :: "char \<Rightarrow> bool" where
  [ascii_simps]: "is_ascii_lowercase c \<longleftrightarrow> 97 \<le> ord c \<and> ord c \<le> 122"

definition is_ascii_alphabetic :: "char \<Rightarrow> bool" where
  [ascii_simps]: "is_ascii_alphabetic c \<longleftrightarrow> is_ascii_uppercase c \<or> is_ascii_lowercase c"

definition is_ascii_alphanumeric :: "char \<Rightarrow> bool" where
  [ascii_simps]: "is_ascii_alphanumeric c \<longleftrightarrow> is_ascii_alphabetic c \<or> is_ascii_digit c"

text \<open>\<open>u8::is_ascii_whitespace\<close>: space, tab, line feed, form feed, carriage return.\<close>

definition is_ascii_whitespace :: "char \<Rightarrow> bool" where
  [ascii_simps]: "is_ascii_whitespace c \<longleftrightarrow> ord c \<in> {9, 10, 12, 13, 32}"

definition to_ascii_lower :: "char \<Rightarrow> char" where
  [ascii_simps]: "to_ascii_lower c = (if is_ascii_uppercase c then char_of (ord c + 32) else c)"

definition to_ascii_lowercase :: "string \<Rightarrow> string" where
  "to_ascii_lowercase s = map to_ascii_lower s"

definition eq_ignore_ascii_case :: "string \<Rightarrow> string \<Rightarrow> bool" where
  "eq_ignore_ascii_case a b \<longleftrightarrow> to_ascii_lowercase a = to_ascii_lowercase b"

lemma eq_ignore_ascii_case_refl [simp]: "eq_ignore_ascii_case a a"
  by (simp add: eq_ignore_ascii_case_def)

lemma eq_ignore_ascii_case_sym: "eq_ignore_ascii_case a b \<longleftrightarrow> eq_ignore_ascii_case b a"
  by (auto simp: eq_ignore_ascii_case_def)

lemma eq_ignore_ascii_case_trans:
  "eq_ignore_ascii_case a b \<Longrightarrow> eq_ignore_ascii_case b c \<Longrightarrow> eq_ignore_ascii_case a c"
  by (simp add: eq_ignore_ascii_case_def)

lemma ord_less_256: "ord c < 256"
  by simp

lemma to_ascii_lower_idem [simp]: "to_ascii_lower (to_ascii_lower c) = to_ascii_lower c"
  by (auto simp: ascii_simps of_char_of)

lemma to_ascii_lowercase_idem [simp]:
  "to_ascii_lowercase (to_ascii_lowercase s) = to_ascii_lowercase s"
  by (simp add: to_ascii_lowercase_def)

lemma to_ascii_lowercase_length [simp]: "length (to_ascii_lowercase s) = length s"
  by (simp add: to_ascii_lowercase_def)

subsection \<open>String operations\<close>

definition strip_prefix_str :: "string \<Rightarrow> string \<Rightarrow> string option" where
  "strip_prefix_str p s = (if take (length p) s = p then Some (drop (length p) s) else None)"

lemma strip_prefix_str_Some: "strip_prefix_str p s = Some r \<longleftrightarrow> s = p @ r"
  by (auto simp: strip_prefix_str_def) (metis append_take_drop_id)

definition starts_with :: "'a list \<Rightarrow> 'a list \<Rightarrow> bool" where
  "starts_with s p \<longleftrightarrow> take (length p) s = p"

lemma starts_with_prefix: "starts_with s p \<longleftrightarrow> prefix p s"
  by (metis append_eq_conv_conj prefix_def starts_with_def)

definition ends_with :: "'a list \<Rightarrow> 'a list \<Rightarrow> bool" where
  "ends_with s p \<longleftrightarrow> starts_with (rev s) (rev p)"

lemma ends_with_suffix: "ends_with s p \<longleftrightarrow> suffix p s"
  by (simp add: ends_with_def starts_with_prefix suffix_to_prefix)

text \<open>\<open>str::find\<close>: the byte offset of the first occurrence of a non-empty needle.\<close>

fun find_str :: "'a list \<Rightarrow> 'a list \<Rightarrow> nat option" where
  "find_str p [] = (if p = [] then Some 0 else None)"
| "find_str p (c # s) =
     (if starts_with (c # s) p then Some 0 else map_option Suc (find_str p s))"

lemma find_str_Some: "find_str p s = Some i \<Longrightarrow> i + length p \<le> length s \<and> take (length p) (drop i s) = p"
proof (induction p s arbitrary: i rule: find_str.induct)
  case (1 p)
  then show ?case by (simp split: if_splits)
next
  case (2 p c s)
  show ?case
  proof (cases "starts_with (c # s) p")
    case True
    with "2.prems" have "i = 0" by simp
    with True show ?thesis by (metis drop0 length_take min.cobounded1 starts_with_def add_0 nat_le_linear take_all)
  next
    case False
    with "2.prems" obtain j where j: "find_str p s = Some j" and i: "i = Suc j" by auto
    from "2.IH"[OF False j] i show ?thesis by simp
  qed
qed

lemma find_str_least: "find_str p s = Some i \<Longrightarrow> j < i \<Longrightarrow> take (length p) (drop j s) \<noteq> p"
proof (induction p s arbitrary: i j rule: find_str.induct)
  case (2 p c s)
  then show ?case
    by (cases j) (auto simp: starts_with_def split: if_splits)
qed (auto split: if_splits)

lemma find_str_None:
  "find_str p s = None \<Longrightarrow> j \<le> length s \<Longrightarrow> take (length p) (drop j s) \<noteq> p"
proof (induction p s arbitrary: j rule: find_str.induct)
  case (2 p c s)
  then show ?case
    by (cases j) (auto simp: starts_with_def split: if_splits)
qed (auto split: if_splits)

text \<open>\<open>[T]::contains\<close> of a contiguous block, as \<open>windows(n).any(..)\<close> and \<open>str::contains\<close> decide it.\<close>

definition contains_block :: "'a list \<Rightarrow> 'a list \<Rightarrow> bool" where
  "contains_block s p \<longleftrightarrow> find_str p s \<noteq> None"

lemma contains_block_sublist: "contains_block s p \<longleftrightarrow> sublist p s"
proof
  assume "contains_block s p"
  then obtain i where "find_str p s = Some i" by (auto simp: contains_block_def)
  then have "take (length p) (drop i s) = p" by (simp add: find_str_Some)
  then show "sublist p s"
    by (metis append_take_drop_id sublist_def)
next
  assume "sublist p s"
  then obtain us vs where s: "s = us @ p @ vs" by (auto simp: sublist_def)
  then have "length us \<le> length s" and "take (length p) (drop (length us) s) = p" by auto
  then show "contains_block s p"
    using find_str_None contains_block_def by blast
qed

text \<open>
  \<open>str::trim\<close> strips Unicode \<open>White_Space\<close>. The scalars are U+0009..U+000D, U+0020, U+0085, U+00A0,
  U+1680, U+2000..U+200A, U+2028, U+2029, U+202F, U+205F and U+3000; \<open>ws_width\<close> is the number of
  UTF-8 bytes of a white-space scalar at the head of a string, 0 when there is none.
\<close>

fun ws_width :: "string \<Rightarrow> nat" where
  "ws_width s = (case map of_char (take 3 s) of
     (b0::nat) # r \<Rightarrow>
       (if 9 \<le> b0 \<and> b0 \<le> 13 \<or> b0 = 32 then 1
        else case r of
          b1 # r' \<Rightarrow>
            (if b0 = 194 \<and> (b1 = 133 \<or> b1 = 160) then 2
             else case r' of
               b2 # _ \<Rightarrow>
                 (if b0 = 225 \<and> b1 = 154 \<and> b2 = 128 then 3
                  else if b0 = 226 \<and> b1 = 128 \<and>
                          (128 \<le> b2 \<and> b2 \<le> 138 \<or> b2 = 168 \<or> b2 = 169 \<or> b2 = 175) then 3
                  else if b0 = 226 \<and> b1 = 129 \<and> b2 = 159 then 3
                  else if b0 = 227 \<and> b1 = 128 \<and> b2 = 128 then 3
                  else 0)
             | [] \<Rightarrow> 0)
        | [] \<Rightarrow> 0)
   | [] \<Rightarrow> 0)"

declare ws_width.simps [simp del]

text \<open>The same scalar at the end of a string, read from its last bytes.\<close>

definition ws_width_end :: "string \<Rightarrow> nat" where
  "ws_width_end s =
     (if ws_width (drop (length s - 1) s) = 1 then 1
      else if 2 \<le> length s \<and> ws_width (drop (length s - 2) s) = 2 then 2
      else if 3 \<le> length s \<and> ws_width (drop (length s - 3) s) = 3 then 3
      else 0)"

function trim_start :: "string \<Rightarrow> string" where
  "trim_start s = (if s \<noteq> [] \<and> ws_width s \<noteq> 0 then trim_start (drop (ws_width s) s) else s)"
  by pat_completeness auto
termination by (relation "measure length") auto

function trim_end :: "string \<Rightarrow> string" where
  "trim_end s =
     (if s \<noteq> [] \<and> ws_width_end s \<noteq> 0 then trim_end (take (length s - ws_width_end s) s) else s)"
  by pat_completeness auto
termination by (relation "measure length") auto

declare trim_start.simps [simp del]
declare trim_end.simps [simp del]

definition trim :: "string \<Rightarrow> string" where
  "trim s = trim_end (trim_start s)"

lemma trim_start_suffix: "suffix (trim_start s) s"
proof (induction s rule: trim_start.induct)
  case (1 s)
  then show ?case
    by (subst trim_start.simps) (auto intro: suffix_order.trans suffix_drop)
qed

lemma trim_end_prefix: "prefix (trim_end s) s"
proof (induction s rule: trim_end.induct)
  case (1 s)
  then show ?case
    by (subst trim_end.simps) (auto intro: prefix_order.trans take_is_prefix)
qed

lemma trim_length_le: "length (trim s) \<le> length s"
  unfolding trim_def
  by (meson le_trans prefix_length_le suffix_length_le trim_end_prefix trim_start_suffix)

lemma trim_Nil [simp]: "trim [] = []"
  by (simp add: trim_def trim_start.simps trim_end.simps)

lemma trim_id: "ws_width s = 0 \<Longrightarrow> ws_width_end s = 0 \<Longrightarrow> trim s = s"
  by (simp add: trim_def trim_start.simps trim_end.simps)

text \<open>\<open>trim_end_matches(c)\<close>, \<open>str::repeat\<close>, \<open>str::replace\<close> of one character, \<open>slice::join\<close>.\<close>

definition trim_end_char :: "char \<Rightarrow> string \<Rightarrow> string" where
  "trim_end_char c s = rev (dropWhile (\<lambda>x. x = c) (rev s))"

fun join_str :: "string \<Rightarrow> string list \<Rightarrow> string" where
  "join_str sep [] = []"
| "join_str sep [x] = x"
| "join_str sep (x # y # xs) = x @ sep @ join_str sep (y # xs)"

text \<open>\<open>str::split_once\<close> and \<open>str::split\<close> at one character.\<close>

fun split_once_char :: "char \<Rightarrow> string \<Rightarrow> (string \<times> string) option" where
  "split_once_char c [] = None"
| "split_once_char c (x # xs) =
     (if x = c then Some ([], xs)
      else case split_once_char c xs of None \<Rightarrow> None | Some (a, b) \<Rightarrow> Some (x # a, b))"

fun split_char :: "char \<Rightarrow> string \<Rightarrow> string list" where
  "split_char c [] = [[]]"
| "split_char c (x # xs) =
     (if x = c then [] # split_char c xs
      else case split_char c xs of [] \<Rightarrow> [[x]] | s # ss \<Rightarrow> (x # s) # ss)"

lemma split_once_char_Some:
  "split_once_char c s = Some (a, b) \<longleftrightarrow> s = a @ c # b \<and> c \<notin> set a"
proof (induction s arbitrary: a)
  case (Cons x xs)
  show ?case
  proof (cases "x = c")
    case True
    then show ?thesis by (cases a) auto
  next
    case False
    then have "split_once_char c (x # xs) = Some (a, b) \<longleftrightarrow>
        (\<exists>a'. a = x # a' \<and> split_once_char c xs = Some (a', b))"
      by (auto split: option.splits)
    with Cons.IH False show ?thesis by (cases a) auto
  qed
qed simp

lemma split_once_char_None: "split_once_char c s = None \<longleftrightarrow> c \<notin> set s"
  by (induction s) (auto split: option.splits)

lemma split_char_not_Nil [simp]: "split_char c s \<noteq> []"
  by (cases s) (auto split: list.splits)

lemma split_char_no_sep: "x \<in> set (split_char c s) \<Longrightarrow> c \<notin> set x"
proof (induction s arbitrary: x)
  case (Cons y ys)
  then show ?case
    by (cases "split_char c ys") (auto split: if_splits)
qed simp

lemma join_split_char: "join_str [c] (split_char c s) = s"
proof (induction s)
  case (Cons x xs)
  show ?case
  proof (cases "split_char c xs")
    case Nil
    then show ?thesis by simp
  next
    case (Cons y ys)
    with Cons.IH show ?thesis by (cases ys) auto
  qed
qed simp

subsection \<open>Decimal numerals\<close>

definition digit_char :: "nat \<Rightarrow> char" where
  "digit_char d = char_of (48 + d)"

fun show_nat :: "nat \<Rightarrow> string" where
  "show_nat n = (if n < 10 then [digit_char n] else show_nat (n div 10) @ [digit_char (n mod 10)])"

declare show_nat.simps [simp del]

fun digits_val :: "nat \<Rightarrow> string \<Rightarrow> nat" where
  "digits_val acc [] = acc"
| "digits_val acc (c # s) = digits_val (10 * acc + (ord c - 48)) s"

lemma ord_digit_char [simp]: "d < 10 \<Longrightarrow> ord (digit_char d) = 48 + d"
  by (simp add: digit_char_def of_char_of)

lemma is_ascii_digit_digit_char [simp]: "d < 10 \<Longrightarrow> is_ascii_digit (digit_char d)"
  by (simp add: is_ascii_digit_def)

lemma digits_val_append: "digits_val acc (s @ t) = digits_val (digits_val acc s) t"
  by (induction s arbitrary: acc) auto

lemma digits_val_show_nat [simp]: "digits_val 0 (show_nat n) = n"
proof (induction n rule: show_nat.induct)
  case (1 n)
  then show ?case
    by (subst show_nat.simps) (auto simp: digits_val_append)
qed

lemma show_nat_digits: "\<forall>c \<in> set (show_nat n). is_ascii_digit c"
proof (induction n rule: show_nat.induct)
  case (1 n)
  then show ?case
    by (subst show_nat.simps) auto
qed

lemma show_nat_not_Nil [simp]: "show_nat n \<noteq> []"
  by (subst show_nat.simps) simp

lemma show_nat_inject: "show_nat m = show_nat n \<longleftrightarrow> m = n"
  by (metis digits_val_show_nat)

subsection \<open>Insertion-ordered maps\<close>

text \<open>\<open>IndexMap::insert\<close>: an existing key keeps its position, a new key goes to the end.\<close>

fun index_insert :: "'k \<Rightarrow> 'v \<Rightarrow> ('k \<times> 'v) list \<Rightarrow> ('k \<times> 'v) list" where
  "index_insert k v [] = [(k, v)]"
| "index_insert k v ((k', v') # m) = (if k' = k then (k, v) # m else (k', v') # index_insert k v m)"

definition index_collect :: "('k \<times> 'v) list \<Rightarrow> ('k \<times> 'v) list" where
  "index_collect kvs = fold (\<lambda>(k, v) m. index_insert k v m) kvs []"

lemma map_of_index_insert [simp]: "map_of (index_insert k v m) = (map_of m)(k \<mapsto> v)"
  by (induction m) auto

lemma fst_index_insert:
  "map fst (index_insert k v m) = (if k \<in> set (map fst m) then map fst m else map fst m @ [k])"
  by (induction m) (auto simp: image_iff split: if_splits)

lemma distinct_index_insert: "distinct (map fst m) \<Longrightarrow> distinct (map fst (index_insert k v m))"
  by (simp only: fst_index_insert) auto

lemma distinct_index_collect: "distinct (map fst (index_collect kvs))"
proof -
  have "distinct (map fst m) \<Longrightarrow> distinct (map fst (fold (\<lambda>(k, v) m. index_insert k v m) kvs m))" for m
    by (induction kvs arbitrary: m) (auto simp: distinct_index_insert)
  then show ?thesis by (simp add: index_collect_def)
qed

end
