(* ===== verification/Number.thy ===== *)
theory Number
  imports Complex_Main Prelude
begin

text \<open>
  IEEE-754 binary64 as the expression language uses it (Rust's \<open>f64\<close>: correctly rounded parsing,
  \<open>partial_cmp\<close>, exact scientific formatting) and the two conversions of
  \<open>crates/expressions/src/number.rs\<close>: \<open>parse_number\<close> and the fifteen-digit \<open>format_number\<close>.
  A finite value is its sign, its integer significand and its binary exponent.
\<close>

subsection \<open>Binary64 values\<close>

datatype f64 = F_NaN | F_Inf bool | F_Fin bool nat int

fun wf_f64 :: "f64 \<Rightarrow> bool" where
  "wf_f64 (F_Fin s m e) \<longleftrightarrow>
     m < 2 ^ 53 \<and> -1074 \<le> e \<and> e \<le> 971 \<and> (2 ^ 52 \<le> m \<or> e = -1074)"
| "wf_f64 _ \<longleftrightarrow> True"

fun is_nan :: "f64 \<Rightarrow> bool" where
  "is_nan F_NaN = True"
| "is_nan _ = False"

fun is_finite_f64 :: "f64 \<Rightarrow> bool" where
  "is_finite_f64 (F_Fin _ _ _) = True"
| "is_finite_f64 _ = False"

definition f64_zero :: f64 where
  "f64_zero = F_Fin False 0 (-1074)"

text \<open>The signed significand of a finite value at a common exponent, and the rational it denotes.\<close>

definition signed :: "bool \<Rightarrow> nat \<Rightarrow> int" where
  "signed s m = (if s then - int m else int m)"

fun f64_rat :: "f64 \<Rightarrow> rat" where
  "f64_rat (F_Fin s m e) = of_int (signed s m) * 2 powi e"
| "f64_rat _ = 0"

datatype ordering = Less | Equal | Greater

definition int_cmp :: "int \<Rightarrow> int \<Rightarrow> ordering" where
  "int_cmp a b = (if a < b then Less else if a = b then Equal else Greater)"

text \<open>\<open>f64::partial_cmp\<close>.\<close>

fun partial_cmp :: "f64 \<Rightarrow> f64 \<Rightarrow> ordering option" where
  "partial_cmp F_NaN _ = None"
| "partial_cmp _ F_NaN = None"
| "partial_cmp (F_Inf s) (F_Inf t) =
     Some (if s = t then Equal else if s then Less else Greater)"
| "partial_cmp (F_Inf s) (F_Fin _ _ _) = Some (if s then Less else Greater)"
| "partial_cmp (F_Fin _ _ _) (F_Inf t) = Some (if t then Greater else Less)"
| "partial_cmp (F_Fin s m e) (F_Fin t n f) =
     (let g = min e f in
      Some (int_cmp (signed s m * 2 ^ nat (e - g)) (signed t n * 2 ^ nat (f - g))))"

lemma powi_shift: "g \<le> e \<Longrightarrow> (2::rat) powi e = 2 ^ nat (e - g) * 2 powi g"
proof -
  assume "g \<le> e"
  then have "e = int (nat (e - g)) + g" by simp
  then show ?thesis by (metis power_int_add power_int_of_nat zero_neq_numeral)
qed

lemma partial_cmp_finite:
  "partial_cmp (F_Fin s m e) (F_Fin t n f) =
     Some (let a = f64_rat (F_Fin s m e); b = f64_rat (F_Fin t n f)
           in if a < b then Less else if a = b then Equal else Greater)"
proof -
  define g where "g = min e f"
  define x where "x = signed s m * 2 ^ nat (e - g)"
  define y where "y = signed t n * 2 ^ nat (f - g)"
  have a: "f64_rat (F_Fin s m e) = of_int x * 2 powi g"
    using powi_shift [of g e] by (simp add: x_def g_def)
  have b: "f64_rat (F_Fin t n f) = of_int y * 2 powi g"
    using powi_shift [of g f] by (simp add: y_def g_def)
  have pos: "(0::rat) < 2 powi g" by simp
  have "of_int x * (2::rat) powi g < of_int y * 2 powi g \<longleftrightarrow> x < y"
    using pos by (simp add: mult_less_cancel_right_pos)
  moreover have "of_int x * (2::rat) powi g = of_int y * 2 powi g \<longleftrightarrow> x = y"
    using pos by simp
  ultimately show ?thesis
    by (simp add: a b Let_def int_cmp_def flip: x_def y_def g_def del: f64_rat.simps)
qed

subsection \<open>Correct rounding\<close>

fun bitlen :: "nat \<Rightarrow> nat" where
  "bitlen n = (if n = 0 then 0 else Suc (bitlen (n div 2)))"

declare bitlen.simps [simp del]

text \<open>Round a quotient to the nearest integer, ties to even.\<close>

definition div_round_even :: "nat \<Rightarrow> nat \<Rightarrow> nat" where
  "div_round_even a b =
     (let q = a div b; r = a mod b
      in if 2 * r < b then q else if b < 2 * r then Suc q else if even q then q else Suc q)"

definition scale2 :: "nat \<Rightarrow> nat \<Rightarrow> int \<Rightarrow> nat \<times> nat" where
  "scale2 p q e = (if 0 \<le> e then (p, q * 2 ^ nat e) else (p * 2 ^ nat (- e), q))"

definition f64_exponent :: "nat \<Rightarrow> nat \<Rightarrow> int" where
  "f64_exponent p q =
     (let e1 = int (bitlen p) - int (bitlen q) - 53;
          (a, b) = scale2 p q e1
      in max (-1074) (if 2 ^ 53 \<le> a div b then e1 + 1 else e1))"

definition f64_pack :: "bool \<Rightarrow> nat \<Rightarrow> int \<Rightarrow> f64" where
  "f64_pack s m e = (if 971 < e then F_Inf s else F_Fin s m e)"

text \<open>The binary64 value nearest to \<open>p / q\<close>, ties to even, overflowing to infinity.\<close>

definition f64_round :: "bool \<Rightarrow> nat \<Rightarrow> nat \<Rightarrow> f64" where
  "f64_round s p q =
     (if p = 0 then F_Fin s 0 (-1074)
      else let e = f64_exponent p q; (a, b) = scale2 p q e; m = div_round_even a b
           in if m = 2 ^ 53 then f64_pack s (2 ^ 52) (e + 1) else f64_pack s m e)"

definition f64_of_int :: "int \<Rightarrow> f64" where
  "f64_of_int i = f64_round (i < 0) (nat \<bar>i\<bar>) 1"

lemma bitlen_bounds: "0 < n \<Longrightarrow> 2 ^ (bitlen n - 1) \<le> n \<and> n < 2 ^ bitlen n \<and> 0 < bitlen n"
proof (induction n rule: bitlen.induct)
  case (1 n)
  show ?case
  proof (cases "n div 2 = 0")
    case True
    with "1.prems" have "n = 1" by auto
    then show ?thesis by (simp add: bitlen.simps)
  next
    case False
    with "1" have IH: "2 ^ (bitlen (n div 2) - 1) \<le> n div 2" "n div 2 < 2 ^ bitlen (n div 2)"
      "0 < bitlen (n div 2)" by auto
    have "2 ^ bitlen (n div 2) = 2 * (2::nat) ^ (bitlen (n div 2) - 1)"
      using IH(3) by (cases "bitlen (n div 2)") auto
    with IH have "2 ^ bitlen (n div 2) \<le> n" "n < 2 * 2 ^ bitlen (n div 2)" by linarith+
    with "1.prems" show ?thesis by (simp add: bitlen.simps [of n])
  qed
qed

lemma scale2_pos: "0 < q \<Longrightarrow> scale2 p q e = (a, b) \<Longrightarrow> 0 < b"
  by (auto simp: scale2_def split: if_splits)

lemma scale2_real:
  "0 < q \<Longrightarrow> scale2 p q e = (a, b) \<Longrightarrow> real a / real b = real p / real q * 2 powi (- e)"
  by (auto simp: scale2_def power_int_minus power_int_def divide_simps split: if_splits)

lemma div_less_iff_real: "0 < b \<Longrightarrow> a div b < n \<longleftrightarrow> real a / real b < real n"
  by (simp add: div_less_iff_less_mult pos_divide_less_eq) (metis of_nat_less_iff of_nat_mult)

lemma le_div_iff_real: "0 < b \<Longrightarrow> n \<le> a div b \<longleftrightarrow> real n \<le> real a / real b"
  using div_less_iff_real [of b a n] by linarith

lemma powi_bitlen: "(2::real) powi int n = real (2 ^ n)"
  by simp

lemma powi_bitlen_pred: "0 < n \<Longrightarrow> (2::real) powi (int n - 1) = real (2 ^ (n - 1))"
  by (simp add: power_int_def nat_diff_distrib')

lemma ratio_bounds:
  assumes "0 < p" "0 < q"
  shows "2 powi (int (bitlen p) - int (bitlen q) - 1) < real p / real q"
    and "real p / real q < 2 powi (int (bitlen p) - int (bitlen q) + 1)"
proof -
  let ?bp = "int (bitlen p)" and ?bq = "int (bitlen q)"
  have p: "2 powi (?bp - 1) \<le> real p" "real p < 2 powi ?bp"
    using bitlen_bounds [OF assms(1)] unfolding powi_bitlen
    by (auto simp only: powi_bitlen_pred of_nat_le_iff of_nat_less_iff)
  have q: "2 powi (?bq - 1) \<le> real q" "real q < 2 powi ?bq"
    using bitlen_bounds [OF assms(2)] unfolding powi_bitlen
    by (auto simp only: powi_bitlen_pred of_nat_le_iff of_nat_less_iff)
  have "2 powi (?bp - ?bq - 1) * real q < 2 powi (?bp - ?bq - 1) * 2 powi ?bq"
    using q(2) by simp
  also have "\<dots> = 2 powi (?bp - 1)" by (simp flip: power_int_add del: power_int_of_nat)
  also have "\<dots> \<le> real p" by (rule p)
  finally show "2 powi (?bp - ?bq - 1) < real p / real q"
    using assms(2) by (simp add: pos_less_divide_eq)
  have "real p < 2 powi ?bp" by (rule p)
  also have "\<dots> = 2 powi (?bp - ?bq + 1) * 2 powi (?bq - 1)"
    by (simp flip: power_int_add del: power_int_of_nat)
  also have "\<dots> \<le> 2 powi (?bp - ?bq + 1) * real q" using q(1) by simp
  finally show "real p / real q < 2 powi (?bp - ?bq + 1)"
    using assms(2) by (simp add: pos_divide_less_eq)
qed

lemma div_round_even_bounds: "a div b \<le> div_round_even a b \<and> div_round_even a b \<le> Suc (a div b)"
  by (simp add: div_round_even_def Let_def)

lemma div_round_even_exact: "0 < b \<Longrightarrow> div_round_even (n * b) b = n"
  by (simp add: div_round_even_def)

text \<open>At the chosen exponent the quotient has 53 bits, or fewer at the subnormal exponent.\<close>

lemma f64_exponent_quotient:
  assumes "0 < p" "0 < q" and e: "f64_exponent p q = e" and ab: "scale2 p q e = (a, b)"
  shows "a div b < 2 ^ 53" and "2 ^ 52 \<le> a div b \<or> e = -1074" and "-1074 \<le> e"
proof -
  define e1 where "e1 = int (bitlen p) - int (bitlen q) - 53"
  obtain a1 b1 where s1: "scale2 p q e1 = (a1, b1)" by force
  define v where "v = real p / real q"
  have b1: "0 < b1" and b: "0 < b" using scale2_pos assms(2) s1 ab by blast+
  have v1: "real a1 / real b1 = v * 2 powi (- e1)" using scale2_real [OF assms(2) s1] v_def by simp
  have v': "real a / real b = v * 2 powi (- e)" using scale2_real [OF assms(2) ab] v_def by simp
  have lo: "2 powi (e1 + 52) < v" and hi: "v < 2 powi (e1 + 54)"
    using ratio_bounds [OF assms(1,2)] by (simp_all add: e1_def v_def add.commute)
  have scale: "v * 2 powi (- k) < 2 powi l \<longleftrightarrow> v < 2 powi (k + l)"
              "2 powi l \<le> v * 2 powi (- k) \<longleftrightarrow> 2 powi (k + l) \<le> v" for k l
    by (simp_all add: power_int_minus power_int_add divide_simps mult.commute)
  have p53: "real (2 ^ 53) = 2 powi 53" "real (2 ^ 52) = 2 powi 52" by simp_all
  have c: "2 ^ 53 \<le> a1 div b1 \<longleftrightarrow> 2 powi (e1 + 53) \<le> v"
    unfolding le_div_iff_real [OF b1] v1 p53 by (rule scale)
  define e2 where "e2 = (if 2 ^ 53 \<le> a1 div b1 then e1 + 1 else e1)"
  have e': "e = max (-1074) e2" using e by (simp add: f64_exponent_def e2_def s1 flip: e1_def)
  have v2: "2 powi (e2 + 52) \<le> v" "v < 2 powi (e2 + 53)"
    using lo hi c by (auto simp: e2_def add.commute)
  have "(2::real) powi (e2 + 53) \<le> 2 powi (e + 53)" using e' by (intro power_int_increasing) auto
  with v2 have "v < 2 powi (e + 53)" by simp
  then show "a div b < 2 ^ 53"
    unfolding div_less_iff_real [OF b] v' p53 by (simp only: scale)
  show "2 ^ 52 \<le> a div b \<or> e = -1074"
  proof (cases "e = e2")
    case True
    with v2(1) show ?thesis
      unfolding le_div_iff_real [OF b] v' p53 by (simp only: scale True simp_thms)
  qed (use e' in auto)
  show "-1074 \<le> e" using e' by simp
qed

theorem f64_round_wf: "0 < q \<Longrightarrow> wf_f64 (f64_round s p q)"
proof (cases "p = 0")
  case False
  assume q: "0 < q"
  define e where "e = f64_exponent p q"
  obtain a b where ab: "scale2 p q e = (a, b)" by force
  note f = f64_exponent_quotient [OF _ q e_def [symmetric] ab]
  have m: "div_round_even a b \<le> 2 ^ 53" "a div b \<le> div_round_even a b"
    using f(1) False div_round_even_bounds [of a b] by auto
  show ?thesis
    using False f(2,3) m
    by (auto simp: f64_round_def ab f64_pack_def Let_def simp flip: e_def)
qed (simp add: f64_round_def)

text \<open>Integers of at most 53 bits are represented exactly.\<close>

lemma f64_round_int_exact:
  assumes "0 < n" "n < 2 ^ 53"
  shows "\<exists>m e. f64_round s n 1 = F_Fin s m e \<and> wf_f64 (F_Fin s m e) \<and> e \<le> 0 \<and> m = n * 2 ^ nat (- e)"
proof -
  define e where "e = f64_exponent n 1"
  obtain a b where ab: "scale2 n 1 e = (a, b)" by force
  note f = f64_exponent_quotient [OF assms(1) zero_less_one e_def [symmetric] ab]
  have e0: "e \<le> 0"
  proof (rule ccontr)
    assume "\<not> e \<le> 0"
    then obtain k where k: "e = int (Suc k)" by (metis not_le gr0_implies_Suc zero_less_imp_eq_int)
    then have "nat e = Suc k" by (simp add: nat_plus_as_int)
    with ab k have "a = n" "b = 2 ^ Suc k" by (auto simp: scale2_def)
    with f(2) k have "2 ^ 52 \<le> n div 2 ^ Suc k" by auto
    also have "\<dots> \<le> n div 2" by (simp add: div_le_mono2)
    finally show False using assms(2) by simp
  qed
  then have a: "a = n * 2 ^ nat (- e)" "b = 1" using ab by (auto simp: scale2_def split: if_splits)
  then have m: "div_round_even a b = a" using div_round_even_exact [of 1 a] by simp
  from f(1) a have lt: "a < 2 ^ 53" by simp
  have "f64_round s n 1 = F_Fin s a e"
    using assms(1) m lt e0 ab [unfolded e_def]
    by (auto simp: f64_round_def f64_pack_def e_def)
  moreover have "wf_f64 (f64_round s n 1)" by (rule f64_round_wf) simp
  ultimately show ?thesis using e0 a(1) by auto
qed

lemma f64_of_int_exact:
  assumes "\<bar>i\<bar> < 2 ^ 53"
  shows "is_finite_f64 (f64_of_int i)" and "f64_rat (f64_of_int i) = of_int i"
proof -
  have "is_finite_f64 (f64_of_int i) \<and> f64_rat (f64_of_int i) = of_int i"
  proof (cases "i = 0")
    case False
    then have "0 < nat \<bar>i\<bar>" "nat \<bar>i\<bar> < 2 ^ 53" using assms by auto
    from f64_round_int_exact [OF this, of "i < 0"] obtain m e where
      r: "f64_of_int i = F_Fin (i < 0) m e" and e: "e \<le> 0" and m: "m = nat \<bar>i\<bar> * 2 ^ nat (- e)"
      by (auto simp: f64_of_int_def)
    have "(2::rat) ^ nat (- e) * 2 powi e = 1"
      using e by (simp add: power_int_def field_simps)
    with m show ?thesis by (simp add: r signed_def mult.assoc)
  qed (simp add: f64_of_int_def f64_round_def signed_def)
  then show "is_finite_f64 (f64_of_int i)" "f64_rat (f64_of_int i) = of_int i" by auto
qed

subsection \<open>Parsing\<close>

text \<open>The reasons \<open>parse_number_checked\<close> reports.\<close>

datatype num_error = Invalid_numeric_syntax | Invalid_radix_digits | Radix_overflow | Invalid_float

text \<open>
  \<open>str::parse::<f64>\<close> on text over digits, signs, the point and the exponent marker: an optional
  sign, digits with an optional point and at least one digit, an optional exponent with at least
  one digit, and nothing else. The decimal is rounded correctly.
\<close>

definition strip_sign :: "string \<Rightarrow> bool \<times> string" where
  "strip_sign s = (case s of
     c # r \<Rightarrow> (if c = CHR ''-'' then (True, r) else if c = CHR ''+'' then (False, r) else (False, s))
   | [] \<Rightarrow> (False, s))"

definition f64_of_decimal :: "bool \<Rightarrow> nat \<Rightarrow> int \<Rightarrow> f64" where
  "f64_of_decimal neg d x =
     (if 0 \<le> x then f64_round neg (d * 10 ^ nat x) 1 else f64_round neg d (10 ^ nat (- x)))"

definition parse_f64 :: "string \<Rightarrow> f64 option" where
  "parse_f64 text =
     (let (neg, body) = strip_sign text;
          ip = takeWhile is_ascii_digit body;
          r1 = dropWhile is_ascii_digit body;
          (fp, r2) = (case r1 of
             c # r \<Rightarrow> (if c = CHR ''.'' then (takeWhile is_ascii_digit r, dropWhile is_ascii_digit r)
                       else ([], r1))
           | [] \<Rightarrow> ([], []))
      in if ip @ fp = [] then None
         else let d = digits_val 0 (ip @ fp); shift = - int (length fp)
              in (case r2 of
                    [] \<Rightarrow> Some (f64_of_decimal neg d shift)
                  | c # r \<Rightarrow>
                      (if c = CHR ''e'' \<or> c = CHR ''E''
                       then let (xneg, xs) = strip_sign r
                            in if xs \<noteq> [] \<and> list_all is_ascii_digit xs
                               then Some (f64_of_decimal neg d
                                      ((if xneg then - 1 else 1) * int (digits_val 0 xs) + shift))
                               else None
                       else None)))"

fun radix_digit :: "nat \<Rightarrow> char \<Rightarrow> nat option" where
  "radix_digit radix c =
     (let d = (if is_ascii_digit c then ord c - 48
               else if 97 \<le> ord c \<and> ord c \<le> 122 then ord c - 87
               else if 65 \<le> ord c \<and> ord c \<le> 90 then ord c - 55
               else radix)
      in if d < radix then Some d else None)"

fun radix_val :: "nat \<Rightarrow> nat \<Rightarrow> string \<Rightarrow> nat" where
  "radix_val radix acc [] = acc"
| "radix_val radix acc (c # s) =
     radix_val radix (acc * radix + (case radix_digit radix c of Some d \<Rightarrow> d | None \<Rightarrow> 0)) s"

text \<open>\<open>i32::from_ne_bytes(n.to_ne_bytes())\<close>: the 32-bit pattern read as two's complement.\<close>

definition u32_as_i32 :: "nat \<Rightarrow> int" where
  "u32_as_i32 n = (if n < 2 ^ 31 then int n else int n - 2 ^ 32)"

definition parse_radix :: "string \<Rightarrow> nat \<Rightarrow> (num_error, f64) result" where
  "parse_radix digits radix =
     (if digits = [] \<or> \<not> list_all (\<lambda>c. radix_digit radix c \<noteq> None) digits
      then Err Invalid_radix_digits
      else let n = radix_val radix 0 digits
           in if n < 2 ^ 32 then Ok (f64_of_int (u32_as_i32 n)) else Err Radix_overflow)"

definition parse_number_checked :: "string \<Rightarrow> (num_error, f64) result" where
  "parse_number_checked input =
     (let text = trim input
      in if text = [] then Ok f64_zero
         else case strip_prefix_str ''0x'' text of
           Some digits \<Rightarrow> parse_radix digits 16
         | None \<Rightarrow>
        (case strip_prefix_str ''0o'' text of
           Some digits \<Rightarrow> parse_radix digits 8
         | None \<Rightarrow>
           (if eq_ignore_ascii_case text ''infinity'' \<or> eq_ignore_ascii_case text ''+infinity''
            then Ok (F_Inf False)
            else if eq_ignore_ascii_case text ''-infinity'' then Ok (F_Inf True)
            else if list_ex (\<lambda>c. \<not> is_ascii_digit c \<and> c \<notin> set ''+-.eE'') text
            then Err Invalid_numeric_syntax
            else case parse_f64 text of Some n \<Rightarrow> Ok n | None \<Rightarrow> Err Invalid_float)))"

definition parse_number :: "string \<Rightarrow> f64" where
  "parse_number input = (case parse_number_checked input of Inr n \<Rightarrow> n | Inl _ \<Rightarrow> F_NaN)"

subsection \<open>Formatting\<close>

text \<open>
  The fifteen significant digits and the decimal exponent that Rust's exact \<open>{:.14e}\<close> prints for a
  positive finite value \<open>a / b\<close> (ties to even).
\<close>

definition dec_exponent :: "nat \<Rightarrow> nat \<Rightarrow> int" where
  "dec_exponent a b =
     (let k = int (length (show_nat a)) - int (length (show_nat b))
      in if 0 \<le> k then (if b * 10 ^ nat k \<le> a then k else k - 1)
         else (if b \<le> a * 10 ^ nat (- k) then k else k - 1))"

definition scientific_digits :: "nat \<Rightarrow> nat \<Rightarrow> nat \<times> int" where
  "scientific_digits a b =
     (if a = 0 then (0, 0)
      else let k = dec_exponent a b; x = 14 - k;
               d = (if 0 \<le> x then div_round_even (a * 10 ^ nat x) b
                    else div_round_even a (b * 10 ^ nat (- x)))
           in if d = 10 ^ 15 then (10 ^ 14, k + 1) else (d, k))"

definition pad_left :: "nat \<Rightarrow> string \<Rightarrow> string" where
  "pad_left w s = replicate (w - length s) (CHR ''0'') @ s"

text \<open>The two halves of \<open>format!("{number:.14e}")\<close> around the \<open>e\<close>: mantissa text and exponent.\<close>

definition scientific :: "bool \<Rightarrow> nat \<Rightarrow> int \<Rightarrow> string \<times> int" where
  "scientific s m e =
     (let (a, b) = (if 0 \<le> e then (m * 2 ^ nat e, 1) else (m, 2 ^ nat (- e)));
          (d, k) = scientific_digits a b;
          ds = pad_left 15 (show_nat d)
      in ((if s then ''-'' else []) @ take 1 ds @ ''.'' @ drop 1 ds, k))"

text \<open>\<open>{exponent:+03}\<close>: explicit sign, zero-padded to three characters.\<close>

definition show_exponent :: "int \<Rightarrow> string" where
  "show_exponent k = (if k < 0 then ''-'' else ''+'') @ pad_left 2 (show_nat (nat \<bar>k\<bar>))"

text \<open>The general (G15) rendering of a trimmed mantissa at its decimal exponent.\<close>

definition render_general :: "string \<Rightarrow> int \<Rightarrow> string" where
  "render_general mantissa exponent =
     (if \<not> (- 4 \<le> exponent \<and> exponent < 15) then mantissa @ ''E'' @ show_exponent exponent
      else let (sign, unsigned) =
                 (case strip_prefix_str ''-'' mantissa of Some r \<Rightarrow> (''-'', r) | None \<Rightarrow> ([], mantissa));
               digits = filter (\<lambda>c. c \<noteq> CHR ''.'') unsigned;
               point = exponent + 1
           in if point \<le> 0
              then sign @ ''0.'' @ replicate (nat (- point)) (CHR ''0'') @ digits
              else if length digits \<le> nat point
              then sign @ digits @ replicate (nat point - length digits) (CHR ''0'')
              else sign @ take (nat point) digits @ ''.'' @ drop (nat point) digits)"

fun format_number :: "f64 \<Rightarrow> string" where
  "format_number F_NaN = ''NaN''"
| "format_number (F_Inf s) = (if s then ''-Infinity'' else ''Infinity'')"
| "format_number (F_Fin s m e) =
     (let (mantissa, exponent) = scientific s m e
      in render_general (trim_end_char (CHR ''.'') (trim_end_char (CHR ''0'') mantissa)) exponent)"

subsection \<open>Integers survive formatting and parsing\<close>

definition show_int :: "int \<Rightarrow> string" where
  "show_int i = (if i < 0 then ''-'' else []) @ show_nat (nat \<bar>i\<bar>)"

lemma show_nat_length: "0 < n \<Longrightarrow> 10 ^ (length (show_nat n) - 1) \<le> n \<and> n < 10 ^ length (show_nat n)"
proof (induction n rule: show_nat.induct)
  case (1 n)
  show ?case
  proof (cases "n < 10")
    case False
    then have "0 < n div 10" by (simp add: div_greater_zero_iff)
    with "1.IH" False have IH: "10 ^ (length (show_nat (n div 10)) - 1) \<le> n div 10"
      "n div 10 < 10 ^ length (show_nat (n div 10))" by auto
    have len: "length (show_nat n) = Suc (length (show_nat (n div 10)))"
      using False by (subst show_nat.simps) simp
    have "10 ^ length (show_nat (n div 10)) = 10 * (10::nat) ^ (length (show_nat (n div 10)) - 1)"
      by (cases "show_nat (n div 10)") auto
    with IH have "10 ^ length (show_nat (n div 10)) \<le> n"
      "n < 10 * 10 ^ length (show_nat (n div 10))" by linarith+
    with len show ?thesis by simp
  qed (use "1.prems" in \<open>simp add: show_nat.simps\<close>)
qed

lemma show_nat_length_unique:
  "10 ^ k \<le> n \<Longrightarrow> n < 10 ^ Suc k \<Longrightarrow> length (show_nat n) = Suc k"
proof -
  assume k: "(10::nat) ^ k \<le> n" "n < 10 ^ Suc k"
  then have n: "0 < n" by (metis less_le_trans zero_less_numeral zero_less_power)
  note b = show_nat_length [OF n]
  from b k have "(10::nat) ^ (length (show_nat n) - 1) < 10 ^ Suc k" "(10::nat) ^ k < 10 ^ length (show_nat n)"
    by linarith+
  then have "length (show_nat n) - 1 < Suc k" "k < length (show_nat n)"
    by (simp_all only: power_strict_increasing_iff)
  then show ?thesis by simp
qed

lemma digit_char_0: "digit_char 0 = CHR ''0''"
  by code_simp

lemma show_nat_0: "show_nat 0 = ''0''"
  by (subst show_nat.simps) (simp add: digit_char_0)

lemma show_nat_times_10: "0 < n \<Longrightarrow> show_nat (n * 10 ^ x) = show_nat n @ replicate x (CHR ''0'')"
proof (induction x)
  case (Suc x)
  have "show_nat (n * 10 ^ Suc x) = show_nat (n * 10 ^ x) @ [digit_char 0]"
    using Suc.prems by (subst show_nat.simps) simp
  with Suc show ?case by (simp add: digit_char_0 replicate_append_same)
qed simp

lemma show_nat_hd: "0 < n \<Longrightarrow> hd (show_nat n) \<noteq> CHR ''0''"
proof (induction n rule: show_nat.induct)
  case (1 n)
  show ?case
  proof (cases "n < 10")
    case True
    with "1.prems" have "digit_char n \<noteq> CHR ''0''"
      using ord_digit_char [of n] by (auto simp del: ord_digit_char)
    with True show ?thesis by (subst show_nat.simps) auto
  next
    case False
    with "1.IH" have "hd (show_nat (n div 10)) \<noteq> CHR ''0''" by (simp add: div_greater_zero_iff)
    with False show ?thesis by (subst show_nat.simps) simp
  qed
qed

lemma dec_exponent_multiple:
  assumes "0 < n" "0 < b"
  shows "dec_exponent (n * b) b = int (length (show_nat n)) - 1"
proof -
  define K where "K = length (show_nat (n * b)) - length (show_nat b)"
  note B = show_nat_length [OF assms(2)] and A = show_nat_length [of "n * b"]
  have ab: "b \<le> n * b" "0 < n * b" using assms by auto
  have le: "length (show_nat b) \<le> length (show_nat (n * b))"
  proof (rule ccontr)
    assume "\<not> length (show_nat b) \<le> length (show_nat (n * b))"
    then have "(10::nat) ^ length (show_nat (n * b)) \<le> 10 ^ (length (show_nat b) - 1)"
      by (intro power_increasing) auto
    with A B ab show False by linarith
  qed
  have lens: "0 < length (show_nat b)" "0 < length (show_nat (n * b))" by simp_all
  have up: "n * b < b * 10 ^ Suc K"
  proof -
    have "length (show_nat (n * b)) = length (show_nat b) - 1 + Suc K"
      using le lens unfolding K_def by linarith
    with A ab(2) have "n * b < 10 ^ (length (show_nat b) - 1 + Suc K)" by metis
    also have "\<dots> \<le> b * 10 ^ Suc K" using B by (simp add: power_add)
    finally show ?thesis .
  qed
  have key: "length (show_nat n) = Suc k" if "b * 10 ^ k \<le> n * b" "n * b < b * 10 ^ Suc k" for k
    using that assms(2) by (intro show_nat_length_unique) (auto simp: mult.commute)
  show ?thesis
  proof (cases "b * 10 ^ K \<le> n * b")
    case True
    with key [OF True up] le show ?thesis
      by (simp add: dec_exponent_def K_def nat_diff_distrib')
  next
    case False
    then have K: "0 < K" using ab(1) by (cases K) auto
    have "b * 10 ^ (K - 1) \<le> 10 ^ length (show_nat b) * 10 ^ (K - 1)" using B by simp
    also have "\<dots> = 10 ^ (length (show_nat (n * b)) - 1)"
      using K le by (simp add: K_def flip: power_add)
    also have "\<dots> \<le> n * b" using A ab(2) by simp
    finally have "length (show_nat n) = Suc (K - 1)"
      using False K by (intro key) auto
    with False K le show ?thesis
      by (simp add: dec_exponent_def K_def nat_diff_distrib')
  qed
qed

lemma scientific_digits_int:
  assumes "0 < n" "n < 10 ^ 15" "0 < b"
  shows "scientific_digits (n * b) b =
           (n * 10 ^ (15 - length (show_nat n)), int (length (show_nat n)) - 1)"
proof -
  define L where "L = length (show_nat n)"
  have L: "0 < L" "n < 10 ^ L" "10 ^ (L - 1) \<le> n"
    using show_nat_length [OF assms(1)] by (simp_all add: L_def)
  have "L \<le> 15"
  proof (rule ccontr)
    assume "\<not> L \<le> 15"
    then have "(10::nat) ^ 15 \<le> 10 ^ (L - 1)" by (intro power_increasing) auto
    with L assms(2) show False by simp
  qed
  then have x: "nat (14 - (int L - 1)) = 15 - L" "0 \<le> 14 - (int L - 1)" by auto
  have "n * 10 ^ (15 - L) < 10 ^ L * 10 ^ (15 - L)" using L(2) by simp
  also have "\<dots> = 10 ^ 15" using \<open>L \<le> 15\<close> by (simp flip: power_add)
  finally have lt: "n * 10 ^ (15 - L) < 10 ^ 15" .
  have "div_round_even (n * b * 10 ^ (15 - L)) b = n * 10 ^ (15 - L)"
    using div_round_even_exact [OF assms(3), of "n * 10 ^ (15 - L)"] by (simp add: ac_simps)
  with assms lt x show ?thesis
    by (simp add: scientific_digits_def dec_exponent_multiple Let_def flip: L_def)
qed

lemma trim_end_char_Nil [simp]: "trim_end_char c [] = []"
  by (simp add: trim_end_char_def)

lemma trim_end_char_snoc: "trim_end_char c (s @ [x]) = (if x = c then trim_end_char c s else s @ [x])"
  by (simp add: trim_end_char_def)

lemma trim_end_char_decomp: "\<exists>k. s = trim_end_char c s @ replicate k c"
proof (induction s rule: rev_induct)
  case (snoc x xs)
  then obtain k where k: "xs = trim_end_char c xs @ replicate k c" by blast
  show ?case
  proof (cases "x = c")
    case True
    have "xs @ [c] = trim_end_char c xs @ replicate (Suc k) c"
      by (subst k) (simp add: replicate_append_same)
    with True show ?thesis by (metis trim_end_char_snoc)
  qed (auto simp: trim_end_char_snoc)
qed (simp add: trim_end_char_def)

lemma trim_end_char_append_replicate: "trim_end_char c (s @ replicate k c) = trim_end_char c s"
proof (induction k arbitrary: s)
  case (Suc k)
  from Suc [of "s @ [c]"] show ?case by (simp add: trim_end_char_snoc)
qed simp

lemma trim_end_char_stop: "x \<noteq> c \<Longrightarrow> trim_end_char c (s @ x # t) = s @ x # trim_end_char c t"
proof (induction t rule: rev_induct)
  case Nil
  then show ?case using trim_end_char_snoc [of c s x] by (simp add: trim_end_char_def)
next
  case (snoc y t)
  then show ?case using trim_end_char_snoc [of c "s @ x # t" y] by (simp add: trim_end_char_snoc)
qed

lemma set_trim_end_char: "set (trim_end_char c s) \<subseteq> set s"
  by (induction s rule: rev_induct) (auto simp: trim_end_char_snoc split: if_splits)

lemma trim_end_char_id: "s = [] \<or> last s \<noteq> c \<Longrightarrow> trim_end_char c s = s"
  by (cases s rule: rev_cases) (simp_all add: trim_end_char_def)

text \<open>The mantissa text \<open>c.t00..\<close> loses its trailing zeros, and the point with them.\<close>

lemma mantissa_trim:
  assumes "c \<noteq> CHR ''.''" "CHR ''.'' \<notin> set t"
  shows "trim_end_char (CHR ''.'') (trim_end_char (CHR ''0'')
           (sg @ c # CHR ''.'' # t @ replicate x (CHR ''0''))) =
         (if trim_end_char (CHR ''0'') t = [] then sg @ [c]
          else sg @ c # CHR ''.'' # trim_end_char (CHR ''0'') t)"
proof -
  let ?u = "trim_end_char (CHR ''0'') t"
  have "trim_end_char (CHR ''0'') (sg @ c # CHR ''.'' # t @ replicate x (CHR ''0'')) =
        sg @ c # CHR ''.'' # ?u"
    using trim_end_char_stop [of "CHR ''.''" "CHR ''0''" "sg @ [c]" "t @ replicate x (CHR ''0'')"]
    by (simp add: trim_end_char_append_replicate)
  moreover have "trim_end_char (CHR ''.'') (sg @ c # CHR ''.'' # ?u) =
        (if ?u = [] then sg @ [c] else sg @ c # CHR ''.'' # ?u)"
  proof (cases "?u = []")
    case True
    with assms(1) trim_end_char_append_replicate [of "CHR ''.''" "sg @ [c]" 1] show ?thesis
      by (simp add: trim_end_char_id)
  next
    case False
    have "last ?u \<in> set ?u" using False by simp
    then have "last ?u \<in> set t" by (rule set_mp [OF set_trim_end_char])
    with assms(2) have "last ?u \<noteq> CHR ''.''" by metis
    with False show ?thesis by (simp add: trim_end_char_id)
  qed
  ultimately show ?thesis by simp
qed

lemma is_ascii_digit_neq:
  "is_ascii_digit c \<Longrightarrow> c \<noteq> CHR ''.'' \<and> c \<noteq> CHR ''-'' \<and> c \<noteq> CHR ''+'' \<and> c \<noteq> CHR ''x'' \<and> c \<noteq> CHR ''o''"
  by (auto simp: is_ascii_digit_def)

lemma format_number_int:
  assumes n: "0 < n" "n < 10 ^ 15" and e: "e \<le> 0" and m: "m = n * 2 ^ nat (- e)"
  shows "format_number (F_Fin s m e) = (if s then ''-'' else []) @ show_nat n"
proof -
  define L where "L = length (show_nat n)"
  define sg where "sg = (if s then ''-'' else [])"
  obtain c t where ct: "show_nat n = c # t" by (cases "show_nat n") auto
  have dig: "is_ascii_digit c" "\<forall>d \<in> set t. is_ascii_digit d"
    using show_nat_digits [of n] ct by auto
  have len: "L = Suc (length t)" "L \<le> 15"
  proof -
    show "L = Suc (length t)" using ct by (simp add: L_def)
    show "L \<le> 15"
    proof (rule ccontr)
      assume "\<not> L \<le> 15"
      then have "(10::nat) ^ 15 \<le> 10 ^ (L - 1)" by (intro power_increasing) auto
      with show_nat_length [OF n(1)] n(2) show False by (simp add: L_def)
    qed
  qed
  have ds: "show_nat (n * 10 ^ (15 - L)) = c # t @ replicate (15 - L) (CHR ''0'')"
    using show_nat_times_10 [OF n(1)] ct by simp
  have sc: "scientific s m e = (sg @ c # CHR ''.'' # t @ replicate (15 - L) (CHR ''0''), int L - 1)"
    using scientific_digits_int [OF n, of "2 ^ nat (- e)"] scientific_digits_int [OF n, of 1] e ds len
    by (auto simp: scientific_def m sg_def pad_left_def L_def [symmetric])
  obtain k where k: "t = trim_end_char (CHR ''0'') t @ replicate k (CHR ''0'')"
    using trim_end_char_decomp by blast
  define u where "u = trim_end_char (CHR ''0'') t"
  have u: "\<forall>d \<in> set u. d \<noteq> CHR ''.''" "length t = length u + k"
    using k dig(2) is_ascii_digit_neq unfolding u_def [symmetric] by (auto simp: in_set_conv_decomp)
  have c: "c \<noteq> CHR ''.''" "c \<noteq> CHR ''-''" and t: "CHR ''.'' \<notin> set t"
    using dig is_ascii_digit_neq by blast+
  have filt: "filter (\<lambda>d. d \<noteq> CHR ''.'') u = u" using u(1) by (simp add: filter_id_conv)
  define r where "r = (if u = [] then [] else CHR ''.'' # u)"
  have r: "filter (\<lambda>d. d \<noteq> CHR ''.'') (c # r) = c # u" using filt c(1) by (simp add: r_def)
  have strip: "(case strip_prefix_str ''-'' (sg @ c # r) of
      Some r' \<Rightarrow> (''-'', r') | None \<Rightarrow> ([], sg @ c # r)) = (sg, c # r)"
    using c(2) by (auto simp: sg_def strip_prefix_str_def)
  have mant: "trim_end_char (CHR ''.'') (trim_end_char (CHR ''0'')
      (sg @ c # CHR ''.'' # t @ replicate (15 - L) (CHR ''0''))) = sg @ c # r"
    using mantissa_trim [OF c(1) t, of sg "15 - L"] by (simp add: r_def u_def)
  have "render_general (sg @ c # r) (int L - 1) = sg @ (c # u) @ replicate (L - Suc (length u)) (CHR ''0'')"
    using len u(2) by (simp add: render_general_def strip r Let_def nat_add_distrib del: filter.simps)
  also have "\<dots> = sg @ show_nat n"
    using k u(2) len(1) by (simp add: ct u_def)
  finally show ?thesis
    using sc mant by (simp flip: sg_def)
qed

text \<open>White space is absent from digit strings, so \<open>trim\<close> keeps them.\<close>

lemma ws_width_graphic: "33 \<le> ord c \<Longrightarrow> ord c < 128 \<Longrightarrow> ws_width (c # s) = 0"
  by (cases s; cases "tl s") (auto simp: ws_width.simps numeral_3_eq_3)

lemma ws_width_2: "ord c < 128 \<Longrightarrow> ws_width [d, c] \<noteq> 2"
  by (auto simp: ws_width.simps)

lemma ws_width_3: "ord c < 128 \<Longrightarrow> ws_width [x, d, c] \<noteq> 3"
  by (auto simp: ws_width.simps)

lemma ws_width_end_graphic:
  assumes "33 \<le> ord c" "ord c < 128"
  shows "ws_width_end (s @ [c]) = 0"
proof (cases s rule: rev_cases)
  case Nil
  with assms show ?thesis by (simp add: ws_width_end_def ws_width_graphic)
next
  case (snoc t d)
  with assms show ?thesis
    by (cases t rule: rev_cases)
      (auto simp: ws_width_end_def ws_width_graphic ws_width_2 ws_width_3)
qed

lemma trim_graphic:
  assumes "s = [] \<or> 33 \<le> ord (hd s) \<and> ord (hd s) < 128 \<and> 33 \<le> ord (last s) \<and> ord (last s) < 128"
  shows "trim s = s"
proof (cases "s = []")
  case False
  with assms have "ws_width s = 0" by (metis list.collapse ws_width_graphic)
  moreover from False assms have "ws_width_end s = 0"
    by (metis append_butlast_last_id ws_width_end_graphic)
  ultimately show ?thesis by (rule trim_id)
qed simp

lemma parse_f64_digits:
  assumes "ds \<noteq> []" "\<forall>c \<in> set ds. is_ascii_digit c"
  shows "parse_f64 ((if s then ''-'' else []) @ ds) = Some (f64_round s (digits_val 0 ds) 1)"
proof -
  have "hd ds \<noteq> CHR ''-''" "hd ds \<noteq> CHR ''+''"
    using assms is_ascii_digit_neq hd_in_set by blast+
  then have "strip_sign ((if s then ''-'' else []) @ ds) = (s, ds)"
    by (cases ds) (auto simp: strip_sign_def)
  moreover have tk: "takeWhile is_ascii_digit ds = ds" "dropWhile is_ascii_digit ds = []"
    using assms(2) by (simp_all add: takeWhile_eq_all_conv dropWhile_eq_Nil_conv)
  ultimately show ?thesis
    using assms(1) unfolding parse_f64_def f64_of_decimal_def Let_def by (simp add: tk)
qed

lemma parse_number_checked_digits:
  assumes "ds \<noteq> []" "\<forall>c \<in> set ds. is_ascii_digit c"
  shows "parse_number_checked ((if s then ''-'' else []) @ ds) = Ok (f64_round s (digits_val 0 ds) 1)"
proof -
  define tx where "tx = (if s then ''-'' else []) @ ds"
  have mem: "is_ascii_digit c \<or> c = CHR ''-''" if "c \<in> set tx" for c
    using that assms(2) by (auto simp: tx_def split: if_splits)
  have ne: "tx \<noteq> []" using assms(1) by (simp add: tx_def)
  have gr: "33 \<le> ord c \<and> ord c < 128" if "c \<in> set tx" for c
    using mem [OF that] by (auto simp: is_ascii_digit_def)
  have tr: "trim tx = tx"
    using ne gr [OF hd_in_set [OF ne]] gr [OF last_in_set [OF ne]] by (intro trim_graphic) simp
  have notin: "c \<notin> set tx" if "\<not> is_ascii_digit c" "c \<noteq> CHR ''-''" for c
    using mem that by blast
  have pre: "strip_prefix_str ''0x'' tx = None" "strip_prefix_str ''0o'' tx = None"
    using notin [of "CHR ''x''"] notin [of "CHR ''o''"]
    by (auto simp: strip_prefix_str_Some is_ascii_digit_def simp flip: not_Some_eq)
  have low: "to_ascii_lower c \<noteq> CHR ''y''" if "c \<in> set tx" for c
    using mem [OF that] by (auto simp: ascii_simps)
  have inf: "\<not> eq_ignore_ascii_case tx w" if "CHR ''y'' \<in> set (to_ascii_lowercase w)" for w
  proof
    assume "eq_ignore_ascii_case tx w"
    with that have "CHR ''y'' \<in> set (to_ascii_lowercase tx)" by (simp add: eq_ignore_ascii_case_def)
    then obtain x where "x \<in> set tx" "to_ascii_lower x = CHR ''y''"
      by (auto simp: to_ascii_lowercase_def)
    with low show False by blast
  qed
  have "\<not> list_ex (\<lambda>c. \<not> is_ascii_digit c \<and> c \<notin> set ''+-.eE'') tx"
    using mem by (auto simp: list_ex_iff)
  then have "parse_number_checked tx = Ok (f64_round s (digits_val 0 ds) 1)"
    using ne tr pre inf parse_f64_digits [OF assms, of s]
    by (simp add: parse_number_checked_def tx_def [symmetric] to_ascii_lowercase_def ascii_simps)
  then show ?thesis by (simp add: tx_def)
qed

lemma parse_show_int: "parse_number_checked (show_int i) = Ok (f64_of_int i)"
  using parse_number_checked_digits [OF show_nat_not_Nil show_nat_digits]
  by (simp add: show_int_def f64_of_int_def)

lemma format_f64_of_int:
  assumes "\<bar>i\<bar> < 10 ^ 15"
  shows "format_number (f64_of_int i) = show_int i"
proof (cases "i = 0")
  case True
  have "replicate 14 (CHR ''0'') = CHR ''0'' # replicate 13 (CHR ''0'')"
    by (simp add: numeral_eq_Suc)
  then have "scientific False 0 (- 1074) = (''0.'' @ replicate 14 (CHR ''0''), 0)"
    by (simp add: scientific_def scientific_digits_def pad_left_def show_nat_0 replicate_append_same)
  moreover have "trim_end_char (CHR ''0'') (''0.'' @ replicate 14 (CHR ''0'')) = ''0.''"
    by (simp only: trim_end_char_append_replicate) (simp add: trim_end_char_def)
  ultimately show ?thesis
    using True by (simp add: f64_of_int_def f64_round_def show_int_def show_nat_0
        trim_end_char_def render_general_def strip_prefix_str_def)
next
  case False
  then have n: "0 < nat \<bar>i\<bar>" "nat \<bar>i\<bar> < 10 ^ 15" "nat \<bar>i\<bar> < 2 ^ 53" using assms by auto
  from f64_round_int_exact [OF n(1,3), of "i < 0"] show ?thesis
    using format_number_int [OF n(1,2)] by (auto simp: f64_of_int_def show_int_def)
qed

text \<open>
  Every integer of at most fifteen decimal digits is formatted as its plain decimal numeral,
  and that numeral parses back to the same binary64 value.
\<close>

theorem number_integer_roundtrip:
  assumes "\<bar>i\<bar> < 10 ^ 15"
  shows "format_number (f64_of_int i) = show_int i \<and> parse_number (show_int i) = f64_of_int i
       \<and> f64_rat (f64_of_int i) = of_int i"
  using assms format_f64_of_int [OF assms] f64_of_int_exact [of i]
  by (simp add: parse_number_def parse_show_int)

theorem number_integer_roundtrip_witness:
  "\<bar>- 42 :: int\<bar> < 10 ^ 15 \<and> format_number (f64_of_int (- 42)) = ''-42''
   \<and> parse_number ''-42'' = f64_of_int (- 42)"
proof -
  have "show_int (- 42) = ''-42''" by code_simp
  then show ?thesis using number_integer_roundtrip [of "- 42"] by simp
qed

end
