(* ===== verification/Utf8.thy ===== *)
theory Utf8
  imports Prelude
begin

text \<open>
  The byte level of Rust's \<open>str\<close>: strict UTF-8 decoding, character boundaries and the checked
  slice \<open>str::get(a..b)\<close>. UTF-8 is self-synchronising: an occurrence of one valid string inside
  another always starts and ends at a character boundary, which is what byte-offset code in the
  components relies on.
\<close>

subsection \<open>Decoding\<close>

definition utf8_cont :: "nat \<Rightarrow> bool" where
  "utf8_cont b \<longleftrightarrow> 128 \<le> b \<and> b \<le> 191"

text \<open>Strict UTF-8 decoding to Unicode scalars, \<open>None\<close> exactly where \<open>str::from_utf8\<close> fails.\<close>

fun utf8_decode_bytes :: "nat list \<Rightarrow> nat list option" where
  "utf8_decode_bytes [] = Some []"
| "utf8_decode_bytes (b0 # r0) =
     (if b0 < 128 then map_option ((#) b0) (utf8_decode_bytes r0)
      else case r0 of [] \<Rightarrow> None | b1 # r1 \<Rightarrow>
        (if \<not> utf8_cont b1 then None
         else if 194 \<le> b0 \<and> b0 \<le> 223
         then map_option ((#) ((b0 - 192) * 64 + (b1 - 128))) (utf8_decode_bytes r1)
         else case r1 of [] \<Rightarrow> None | b2 # r2 \<Rightarrow>
           (if \<not> utf8_cont b2 then None
            else if 224 \<le> b0 \<and> b0 \<le> 239
            then (if b0 = 224 \<and> b1 < 160 \<or> b0 = 237 \<and> 159 < b1 then None
                  else map_option ((#) ((b0 - 224) * 4096 + (b1 - 128) * 64 + (b2 - 128)))
                         (utf8_decode_bytes r2))
            else case r2 of [] \<Rightarrow> None | b3 # r3 \<Rightarrow>
              (if \<not> utf8_cont b3 \<or> \<not> (240 \<le> b0 \<and> b0 \<le> 244)
                  \<or> b0 = 240 \<and> b1 < 144 \<or> b0 = 244 \<and> 143 < b1 then None
               else map_option
                      ((#) ((b0 - 240) * 262144 + (b1 - 128) * 4096 + (b2 - 128) * 64 + (b3 - 128)))
                      (utf8_decode_bytes r3)))))"

definition utf8_decode :: "string \<Rightarrow> nat list option" where
  "utf8_decode s = utf8_decode_bytes (map of_char s)"

definition valid_utf8 :: "string \<Rightarrow> bool" where
  "valid_utf8 s \<longleftrightarrow> utf8_decode s \<noteq> None"

text \<open>The scalars of a Rust string, whose bytes are valid by construction.\<close>

definition str_chars :: "string \<Rightarrow> nat list" where
  "str_chars s = (case utf8_decode s of Some cs \<Rightarrow> cs | None \<Rightarrow> [])"

lemma utf8_decode_ascii: "\<forall>c \<in> set s. ord c < 128 \<Longrightarrow> utf8_decode s = Some (map of_char s)"
  unfolding utf8_decode_def by (induction s) auto

lemma valid_utf8_ascii: "\<forall>c \<in> set s. ord c < 128 \<Longrightarrow> valid_utf8 s"
  by (simp add: valid_utf8_def utf8_decode_ascii)

text \<open>\<open>str::is_char_boundary\<close> and \<open>str::get\<close> of a range.\<close>

definition is_char_boundary :: "string \<Rightarrow> nat \<Rightarrow> bool" where
  "is_char_boundary s i \<longleftrightarrow> i = 0 \<or> i = length s \<or> i < length s \<and> \<not> utf8_cont (ord (s ! i))"

definition str_get :: "string \<Rightarrow> nat \<Rightarrow> nat \<Rightarrow> string option" where
  "str_get s a b =
     (if a \<le> b \<and> b \<le> length s \<and> is_char_boundary s a \<and> is_char_boundary s b
      then Some (take (b - a) (drop a s)) else None)"

subsection \<open>Self-synchronisation\<close>

definition utf8_ok :: "nat list \<Rightarrow> bool" where
  "utf8_ok s \<longleftrightarrow> utf8_decode_bytes s \<noteq> None"

declare utf8_decode_bytes.simps(2) [simp del]

lemma utf8_decode_bytes_append:
  "utf8_decode_bytes a = Some da \<Longrightarrow>
   utf8_decode_bytes (a @ b) = map_option ((@) da) (utf8_decode_bytes b)"
proof (induction a arbitrary: da rule: utf8_decode_bytes.induct)
  case 1
  then show ?case by (simp add: option.map_ident)
next
  case (2 b0 r0)
  note step = utf8_decode_bytes.simps(2) [of b0]
  have "(@) (x # z) = (\<lambda>y. x # z @ y)" for x :: nat and z by auto
  note glue = option.map_comp comp_def this
  show ?case
  proof (cases "b0 < 128")
    case True
    with 2 show ?thesis by (auto simp: step glue)
  next
    case ge: False
    then obtain b1 r1 where r0: "r0 = b1 # r1" "utf8_cont b1"
      using "2.prems" by (auto simp: step split: list.splits if_splits)
    show ?thesis
    proof (cases "194 \<le> b0 \<and> b0 \<le> 223")
      case True
      with 2 ge r0 show ?thesis by (auto simp: step glue)
    next
      case no2: False
      then obtain b2 r2 where r1: "r1 = b2 # r2" "utf8_cont b2"
        using "2.prems" ge r0 by (auto simp: step split: list.splits if_splits)
      show ?thesis
      proof (cases "224 \<le> b0 \<and> b0 \<le> 239")
        case True
        with "2.IH"(3) [OF ge r0(1) _ no2 r1(1) _ True] "2.prems" ge r0 no2 r1 show ?thesis
          by (auto simp: step glue split: if_splits)
      next
        case no3: False
        then obtain b3 r3 where "r2 = b3 # r3" "utf8_cont b3"
          using "2.prems" ge r0 no2 r1 by (auto simp: step split: list.splits if_splits)
        with "2.IH"(4) [OF ge r0(1) _ no2 r1(1) _ no3] "2.prems" ge r0 no2 r1 no3 show ?thesis
          by (auto simp: step glue split: if_splits)
      qed
    qed
  qed
qed

lemma utf8_ok_append: "utf8_ok a \<Longrightarrow> utf8_ok (a @ b) \<longleftrightarrow> utf8_ok b"
  by (auto simp: utf8_ok_def utf8_decode_bytes_append)

lemma utf8_ok_Cons:
  "utf8_ok (b0 # r0) \<Longrightarrow>
     b0 < 128 \<and> utf8_ok r0 \<or>
     (\<exists>b1 r1. r0 = b1 # r1 \<and> 194 \<le> b0 \<and> utf8_cont b1 \<and> utf8_ok [b0, b1] \<and> utf8_ok r1) \<or>
     (\<exists>b1 b2 r2. r0 = b1 # b2 # r2 \<and> 194 \<le> b0 \<and> utf8_cont b1 \<and> utf8_cont b2 \<and> utf8_ok [b0, b1, b2] \<and> utf8_ok r2) \<or>
     (\<exists>b1 b2 b3 r3. r0 = b1 # b2 # b3 # r3 \<and> 194 \<le> b0 \<and> utf8_cont b1 \<and> utf8_cont b2 \<and> utf8_cont b3
        \<and> utf8_ok [b0, b1, b2, b3] \<and> utf8_ok r3)"
  using utf8_decode_bytes.simps(2) [of b0 r0] utf8_decode_bytes.simps(2) [of b0]
  by (auto simp: utf8_ok_def split: if_splits list.splits)

lemma utf8_ok_first:
  assumes "utf8_ok s" "s \<noteq> []"
  shows "\<exists>c r. s = c @ r \<and> utf8_ok c \<and> utf8_ok r \<and> c \<noteq> [] \<and> \<not> utf8_cont (hd c) \<and> (\<forall>x \<in> set (tl c). utf8_cont x)"
proof -
  obtain b0 r0 where s: "s = b0 # r0" using assms by (cases s) auto
  have lead: "194 \<le> b0 \<Longrightarrow> \<not> utf8_cont b0" "b0 < 128 \<Longrightarrow> \<not> utf8_cont b0 \<and> utf8_ok [b0]"
    by (auto simp: utf8_cont_def utf8_ok_def utf8_decode_bytes.simps)
  from utf8_ok_Cons [OF assms(1) [unfolded s]] consider
      "b0 < 128" "utf8_ok r0"
    | b1 r1 where "r0 = [b1] @ r1" "194 \<le> b0" "utf8_cont b1" "utf8_ok [b0, b1]" "utf8_ok r1"
    | b1 b2 r2 where "r0 = [b1, b2] @ r2" "194 \<le> b0" "utf8_cont b1" "utf8_cont b2" "utf8_ok [b0, b1, b2]" "utf8_ok r2"
    | b1 b2 b3 r3 where "r0 = [b1, b2, b3] @ r3" "194 \<le> b0" "utf8_cont b1" "utf8_cont b2" "utf8_cont b3"
        "utf8_ok [b0, b1, b2, b3]" "utf8_ok r3"
    by fastforce
  then show ?thesis
  proof cases
    case 1
    with lead show ?thesis by (intro exI [of _ "[b0]"] exI [of _ r0]) (simp add: s)
  next
    case (2 b1 r1)
    with lead show ?thesis by (intro exI [of _ "[b0, b1]"] exI [of _ r1]) (simp add: s)
  next
    case (3 b1 b2 r2)
    with lead show ?thesis by (intro exI [of _ "[b0, b1, b2]"] exI [of _ r2]) (simp add: s)
  next
    case (4 b1 b2 b3 r3)
    with lead show ?thesis by (intro exI [of _ "[b0, b1, b2, b3]"] exI [of _ r3]) (simp add: s)
  qed
qed

lemma utf8_ok_hd: "utf8_ok s \<Longrightarrow> s \<noteq> [] \<Longrightarrow> \<not> utf8_cont (hd s)"
  using utf8_ok_first [of s] by (auto simp: hd_append)

lemma utf8_ok_before:
  assumes "utf8_ok (a @ p @ b)" "utf8_ok p" "p \<noteq> []"
  shows "utf8_ok a"
  using assms(1)
proof (induction a rule: length_induct)
  case (1 a)
  show ?case
  proof (cases "a = []")
    case True
    then show ?thesis by (simp add: utf8_ok_def)
  next
    case False
    then obtain c r where c: "a @ p @ b = c @ r" "utf8_ok c" "utf8_ok r" "c \<noteq> []"
      "\<forall>x \<in> set (tl c). utf8_cont x"
      using utf8_ok_first [OF "1.prems"] by auto
    from c(1) consider us where "a = c @ us" "us @ p @ b = r" | us where "c = a @ us" "p @ b = us @ r" "us \<noteq> []"
      by (metis append_eq_append_conv2 append_Nil2 append.assoc append_Nil)
    then show ?thesis
    proof cases
      case (1 us)
      then have "length us < length a" using c(4) by simp
      with 1 "1.IH" c show ?thesis by (metis utf8_ok_append)
    next
      case (2 us)
      from 2 have "hd p = hd us" using assms(3) by (metis hd_append2)
      moreover have "hd us \<in> set (tl c)" using 2 False by (cases a) auto
      ultimately have "utf8_cont (hd p)" using c(5) by simp
      with utf8_ok_hd [OF assms(2,3)] show ?thesis by simp
    qed
  qed
qed

lemma valid_utf8_iff: "valid_utf8 s \<longleftrightarrow> utf8_ok (map of_char s)"
  by (simp add: valid_utf8_def utf8_decode_def utf8_ok_def)

lemma valid_utf8_Nil [simp]: "valid_utf8 []"
  by (simp add: valid_utf8_def utf8_decode_def)

lemma valid_utf8_append: "valid_utf8 a \<Longrightarrow> valid_utf8 (a @ b) \<longleftrightarrow> valid_utf8 b"
  by (simp add: valid_utf8_iff utf8_ok_append)

lemma valid_utf8_hd: "valid_utf8 s \<Longrightarrow> s \<noteq> [] \<Longrightarrow> \<not> utf8_cont (ord (hd s))"
  using utf8_ok_hd [of "map of_char s"] by (simp add: valid_utf8_iff hd_map)

text \<open>A valid non-empty block inside a valid string leaves valid strings on both sides.\<close>

lemma valid_utf8_around:
  assumes "valid_utf8 (a @ p @ b)" "valid_utf8 p" "p \<noteq> []"
  shows "valid_utf8 a" "valid_utf8 b"
proof -
  show a: "valid_utf8 a"
    using assms utf8_ok_before [of "map of_char a" "map of_char p" "map of_char b"]
    by (simp add: valid_utf8_iff)
  show "valid_utf8 b" using assms(1,2) a by (simp add: valid_utf8_append)
qed

lemma valid_utf8_boundary:
  assumes "valid_utf8 (a @ b)" "valid_utf8 b"
  shows "is_char_boundary (a @ b) (length a)"
  using valid_utf8_hd [OF assms(2)] by (cases b) (auto simp: is_char_boundary_def)

lemma valid_utf8_split: "valid_utf8 (a @ c # b) \<Longrightarrow> ord c < 128 \<Longrightarrow> valid_utf8 a \<and> valid_utf8 b"
  using valid_utf8_around [of a "[c]" b] valid_utf8_ascii [of "[c]"] by simp

lemma ws_width_cases:
  assumes "ws_width s \<noteq> 0"
  obtains a r where "s = a # r" "ord a < 128" "ws_width s = 1"
    | a b r where "s = a # b # r" "ord a = 194" "utf8_cont (ord b)" "ws_width s = 2"
    | a b c r where "s = a # b # c # r" "ord a \<in> {225, 226, 227}" "utf8_cont (ord b)" "utf8_cont (ord c)" "ws_width s = 3"
proof -
  from assms obtain a r where s: "s = a # r" by (cases s) (auto simp: ws_width.simps)
  show ?thesis
  proof (cases "9 \<le> ord a \<and> ord a \<le> 13 \<or> ord a = 32")
    case True
    with s that(1) show ?thesis by (auto simp: ws_width.simps)
  next
    case no1: False
    with assms s obtain b r' where r: "r = b # r'" by (cases r) (auto simp: ws_width.simps)
    show ?thesis
    proof (cases "ord a = 194 \<and> (ord b = 133 \<or> ord b = 160)")
      case True
      with s r that(2) show ?thesis by (auto simp: ws_width.simps utf8_cont_def)
    next
      case no2: False
      with assms s r no1 obtain c r'' where r': "r' = c # r''" by (cases r') (auto simp: ws_width.simps)
      have "ws_width s = 3" "ord a \<in> {225, 226, 227}" "utf8_cont (ord b)" "utf8_cont (ord c)"
        using assms no1 no2 unfolding s r r' ws_width.simps by (auto simp: utf8_cont_def split: if_splits)
      with s r r' that(3) show ?thesis by blast
    qed
  qed
qed

lemma utf8_ok_scalar1: "a < 128 \<Longrightarrow> utf8_ok [a]"
  by (simp add: utf8_ok_def utf8_decode_bytes.simps)

lemma utf8_ok_scalar2: "utf8_cont b \<Longrightarrow> utf8_ok [194, b]"
  by (simp add: utf8_ok_def utf8_decode_bytes.simps)

lemma utf8_ok_scalar3: "a \<in> {225, 226, 227} \<Longrightarrow> utf8_cont b \<Longrightarrow> utf8_cont c \<Longrightarrow> utf8_ok [a, b, c]"
  by (auto simp: utf8_ok_def utf8_decode_bytes.simps)

lemma ws_prefix_valid:
  assumes "ws_width s \<noteq> 0"
  shows "valid_utf8 (take (ws_width s) s) \<and> take (ws_width s) s \<noteq> [] \<and> ws_width s \<le> length s"
  using assms
  by (cases rule: ws_width_cases)
     (auto intro: utf8_ok_scalar1 utf8_ok_scalar2 utf8_ok_scalar3 simp: valid_utf8_iff numeral_2_eq_2 numeral_3_eq_3)

lemma valid_utf8_trim_start: "valid_utf8 s \<Longrightarrow> valid_utf8 (trim_start s)"
proof (induction s rule: trim_start.induct)
  case (1 s)
  have "valid_utf8 (drop (ws_width s) s)" if "ws_width s \<noteq> 0"
    using ws_prefix_valid [OF that] "1.prems" valid_utf8_append [of "take (ws_width s) s" "drop (ws_width s) s"] by simp
  with 1 show ?case by (subst trim_start.simps) auto
qed

lemma ws_suffix_valid:
  assumes "ws_width_end s \<noteq> 0"
  defines "k \<equiv> length s - ws_width_end s"
  shows "valid_utf8 (drop k s) \<and> drop k s \<noteq> []"
proof -
  have "ws_width (drop k s) = ws_width_end s"
    using assms by (auto simp: ws_width_end_def k_def split: if_splits)
  with assms ws_prefix_valid [of "drop k s"] show ?thesis
    by (metis dual_order.antisym length_drop length_greater_0_conv take_all diff_diff_cancel diff_le_self
        le_cases diff_is_0_eq)
qed

lemma valid_utf8_trim: "valid_utf8 s \<Longrightarrow> valid_utf8 (trim s)"
proof -
  have "valid_utf8 s \<Longrightarrow> valid_utf8 (trim_end s)" for s
  proof (induction s rule: trim_end.induct)
    case (1 s)
    let ?k = "length s - ws_width_end s"
    have "valid_utf8 (take ?k s)" if "ws_width_end s \<noteq> 0"
      using ws_suffix_valid [OF that] "1.prems" valid_utf8_around(1) [of "take ?k s" "drop ?k s" "[]"] by simp
    with 1 show ?case by (subst trim_end.simps) auto
  qed
  then show "valid_utf8 s \<Longrightarrow> valid_utf8 (trim s)" by (simp add: trim_def valid_utf8_trim_start)
qed

end
