(* ===== verification/Expr_Values.thy ===== *)
theory Expr_Values
  imports Number Utf8
begin

text \<open>
  Runtime values of the expression language: \<open>types.rs\<close> (coercions, loose equality, ordinal
  comparison), \<open>array.rs\<close> and \<open>object.rs\<close> (shared storage with identity) and \<open>access.rs\<close>
  (indexing and wildcard projection).

  An array or object carries the identity of its \<open>Arc\<close> allocation as a natural number: cloning
  keeps it, building a new array takes the next one from a counter that the operations thread.
  The Unicode upper-case table behind \<open>char::to_uppercase\<close> is the parameter \<open>uc\<close>.
\<close>

subsection \<open>UTF-16\<close>

definition encode_utf16 :: "nat \<Rightarrow> nat list" where
  "encode_utf16 c =
     (if c < 65536 then [c]
      else [55296 + (c - 65536) div 1024, 56320 + (c - 65536) mod 1024])"

subsection \<open>Values\<close>

datatype expr_value =
    Null
  | Bool bool
  | Num f64
  | Str string
  | Array nat bool "expr_value list"
  | Object nat "(string \<times> expr_value) list"

fun is_primitive :: "expr_value \<Rightarrow> bool" where
  "is_primitive (Array _ _ _) = False"
| "is_primitive (Object _ _) = False"
| "is_primitive _ = True"

fun is_truthy :: "expr_value \<Rightarrow> bool" where
  "is_truthy Null = False"
| "is_truthy (Bool b) = b"
| "is_truthy (Num n) = (partial_cmp n f64_zero \<noteq> Some Equal \<and> \<not> is_nan n)"
| "is_truthy (Str s) = (s \<noteq> [])"
| "is_truthy (Array _ _ _) = True"
| "is_truthy (Object _ _) = True"

fun coerce_to_string :: "expr_value \<Rightarrow> string" where
  "coerce_to_string (Bool b) = (if b then ''true'' else ''false'')"
| "coerce_to_string (Num n) = format_number n"
| "coerce_to_string (Str s) = s"
| "coerce_to_string Null = []"
| "coerce_to_string (Array _ _ _) = ''Array''"
| "coerce_to_string (Object _ _) = ''Object''"

fun coerce_to_number :: "expr_value \<Rightarrow> f64" where
  "coerce_to_number Null = f64_zero"
| "coerce_to_number (Bool b) = (if b then f64_of_int 1 else f64_zero)"
| "coerce_to_number (Num n) = n"
| "coerce_to_number (Str s) = parse_number s"
| "coerce_to_number (Array _ _ _) = F_NaN"
| "coerce_to_number (Object _ _) = F_NaN"

fun type_name :: "expr_value \<Rightarrow> string" where
  "type_name Null = ''null''"
| "type_name (Bool _) = ''bool''"
| "type_name (Num _) = ''number''"
| "type_name (Str _) = ''string''"
| "type_name (Array _ _ _) = ''array''"
| "type_name (Object _ _) = ''object''"

subsection \<open>Ordinal comparison\<close>

text \<open>One scalar upper-cased: only single-scalar mappings apply, and two scalars are excluded.\<close>

definition ordinal_upper_char :: "(nat \<Rightarrow> nat list) \<Rightarrow> nat \<Rightarrow> nat" where
  "ordinal_upper_char uc ch =
     (if ch = 305 \<or> ch = 383 then ch else case uc ch of [upper] \<Rightarrow> upper | _ \<Rightarrow> ch)"

definition ordinal_upper :: "(nat \<Rightarrow> nat list) \<Rightarrow> string \<Rightarrow> nat list" where
  "ordinal_upper uc s = concat (map encode_utf16 (map (ordinal_upper_char uc) (str_chars s)))"

text \<open>\<open>Ord for [u16]\<close>: lexicographic.\<close>

fun slice_cmp :: "nat list \<Rightarrow> nat list \<Rightarrow> ordering" where
  "slice_cmp [] [] = Equal"
| "slice_cmp [] (_ # _) = Less"
| "slice_cmp (_ # _) [] = Greater"
| "slice_cmp (x # xs) (y # ys) =
     (if x < y then Less else if y < x then Greater else slice_cmp xs ys)"

definition ordinal_compare :: "(nat \<Rightarrow> nat list) \<Rightarrow> string \<Rightarrow> string \<Rightarrow> ordering" where
  "ordinal_compare uc a b = slice_cmp (ordinal_upper uc a) (ordinal_upper uc b)"

lemma slice_cmp_Equal [simp]: "slice_cmp xs ys = Equal \<longleftrightarrow> xs = ys"
  by (induction xs ys rule: slice_cmp.induct) auto

lemma slice_cmp_flip: "slice_cmp xs ys = Less \<longleftrightarrow> slice_cmp ys xs = Greater"
  by (induction xs ys rule: slice_cmp.induct) auto

lemma slice_cmp_Less_Cons:
  "slice_cmp (x # xs) (y # ys) = Less \<longleftrightarrow> x < y \<or> x = y \<and> slice_cmp xs ys = Less"
  by auto

lemma slice_cmp_trans:
  "slice_cmp xs ys = Less \<Longrightarrow> slice_cmp ys zs = Less \<Longrightarrow> slice_cmp xs zs = Less"
proof (induction xs arbitrary: ys zs)
  case Nil
  then show ?case by (cases ys; cases zs) auto
next
  case (Cons x xs)
  from Cons.prems(1) obtain y ys' where ys: "ys = y # ys'" by (cases ys) auto
  with Cons.prems(2) obtain z zs' where zs: "zs = z # zs'" by (cases zs) auto
  from Cons.prems Cons.IH [of ys' zs'] show ?case
    unfolding ys zs slice_cmp_Less_Cons by (metis order.strict_trans)
qed

subsection \<open>Loose equality\<close>

definition float_eq :: "f64 \<Rightarrow> f64 \<Rightarrow> bool" where
  "float_eq a b \<longleftrightarrow> partial_cmp a b = Some Equal"

fun loose_eq :: "(nat \<Rightarrow> nat list) \<Rightarrow> expr_value \<Rightarrow> expr_value \<Rightarrow> bool" where
  "loose_eq uc Null Null = True"
| "loose_eq uc (Bool a) (Bool b) = (a = b)"
| "loose_eq uc (Num a) (Num b) = float_eq a b"
| "loose_eq uc (Str a) (Str b) = (ordinal_compare uc a b = Equal)"
| "loose_eq uc (Array i _ _) (Array j _ _) = (i = j)"
| "loose_eq uc (Object i _) (Object j _) = (i = j)"
| "loose_eq uc v w = float_eq (coerce_to_number v) (coerce_to_number w)"

lemma partial_cmp_NaN [simp]: "partial_cmp a F_NaN = None"
  by (cases a) auto

lemma int_cmp_flip: "int_cmp a b = Less \<longleftrightarrow> int_cmp b a = Greater"
  by (auto simp: int_cmp_def)

lemma int_cmp_Equal: "int_cmp a b = Equal \<longleftrightarrow> a = b"
  by (auto simp: int_cmp_def)

lemma partial_cmp_flip: "partial_cmp a b = Some Less \<longleftrightarrow> partial_cmp b a = Some Greater"
  by (cases a; cases b) (auto simp: Let_def int_cmp_flip min.commute)

lemma partial_cmp_eq_sym: "partial_cmp a b = Some Equal \<longleftrightarrow> partial_cmp b a = Some Equal"
  by (cases a; cases b) (auto simp: Let_def int_cmp_Equal min.commute)

lemma partial_cmp_refl: "partial_cmp a a = (if is_nan a then None else Some Equal)"
  by (cases a) (auto simp: Let_def int_cmp_Equal)

lemma float_eq_sym: "float_eq a b \<longleftrightarrow> float_eq b a"
  by (simp add: float_eq_def partial_cmp_eq_sym)

lemma loose_eq_sym: "loose_eq uc v w \<longleftrightarrow> loose_eq uc w v"
  by (cases v; cases w) (auto simp: float_eq_sym ordinal_compare_def)

text \<open>The \<open>ordered\<close> helper of \<open>evaluator.rs\<close>: the order of two values, if it is \<open>order\<close>.\<close>

fun ordered :: "(nat \<Rightarrow> nat list) \<Rightarrow> expr_value \<Rightarrow> expr_value \<Rightarrow> ordering \<Rightarrow> bool" where
  "ordered uc (Str a) (Str b) order = (ordinal_compare uc a b = order)"
| "ordered uc Null Null order = False"
| "ordered uc left right order =
     (partial_cmp (coerce_to_number left) (coerce_to_number right) = Some order)"

lemma ordered_flip: "ordered uc v w Less \<longleftrightarrow> ordered uc w v Greater"
  by (cases v; cases w) (auto simp: partial_cmp_flip ordinal_compare_def slice_cmp_flip)

lemma ordered_exclusive: "ordered uc v w Less \<Longrightarrow> \<not> ordered uc v w Greater"
  by (cases v; cases w) auto

lemma loose_eq_not_ordered: "loose_eq uc v w \<Longrightarrow> \<not> ordered uc v w Less \<and> \<not> ordered uc v w Greater"
  by (cases v; cases w) (auto simp: float_eq_def partial_cmp_refl)

subsection \<open>Indexing\<close>

definition i32_max :: int where
  "i32_max = 2147483647"

text \<open>\<open>number.floor()\<close> of a finite value as an integer.\<close>

definition fin_floor :: "bool \<Rightarrow> nat \<Rightarrow> int \<Rightarrow> int" where
  "fin_floor s m e =
     (if 0 \<le> e then signed s m * 2 ^ nat e else signed s m div 2 ^ nat (- e))"

fun lookup :: "(nat \<Rightarrow> nat list) \<Rightarrow> expr_value \<Rightarrow> expr_value \<Rightarrow> expr_value option" where
  "lookup uc (Object _ kvs) index =
     (if is_primitive index
      then map_option snd
             (find (\<lambda>(k, _). ordinal_compare uc k (coerce_to_string index) = Equal) kvs)
      else None)"
| "lookup uc (Array _ _ vs) index =
     (case coerce_to_number index of
        F_Fin s m e \<Rightarrow>
          (if partial_cmp (F_Fin s m e) f64_zero = Some Less \<or> i32_max < fin_floor s m e then None
           else let i = nat (fin_floor s m e)
                in if i < length vs then Some (vs ! i) else None)
      | _ \<Rightarrow> None)"
| "lookup uc _ index = None"

fun append_values :: "expr_value \<Rightarrow> expr_value list" where
  "append_values (Array _ _ vs) = vs"
| "append_values (Object _ kvs) = map snd kvs"
| "append_values _ = []"

text \<open>
  \<open>access\<close> returns the value and the next free identity: a projection allocates one new array.
\<close>

definition access ::
  "(nat \<Rightarrow> nat list) \<Rightarrow> expr_value \<Rightarrow> expr_value option \<Rightarrow> nat \<Rightarrow> expr_value \<times> nat" where
  "access uc value index nxt =
     (case value of
        Array i True items \<Rightarrow>
          (case index of
             Some ix \<Rightarrow> (Array nxt True (List.map_filter (\<lambda>item. lookup uc item ix) items), Suc nxt)
           | None \<Rightarrow> (Array nxt True (concat (map append_values items)), Suc nxt))
      | _ \<Rightarrow>
          (case index of
             Some ix \<Rightarrow> (case lookup uc value ix of Some v \<Rightarrow> (v, nxt) | None \<Rightarrow> (Null, nxt))
           | None \<Rightarrow> (Array nxt True (append_values value), Suc nxt)))"

end
