(* ===== verification/Expr_Lexer.thy ===== *)
theory Expr_Lexer
  imports Expr_Values
begin

text \<open>
  Tokenization of expression text, \<open>crates/expressions/src/lexer.rs\<close>. The byte index \<open>i\<close> of the
  code is the list of bytes still to read, and the token vector is built from its last element
  (\<open>prev\<close>), the only part of it the lexer looks at.
\<close>

text \<open>The errors of the expression engine, one constructor per message of the code.\<close>

datatype expr_error =
    Unexpected_end_of_input
  | Unexpected_character char
  | Unterminated_string
  | Invalid_utf8_string
  | Invalid_number num_error
  | Invalid_utf8_number
  | Unexpected_token
  | Expected_token
  | Expected_property
  | Literal_indexed
  | Trailing_tokens
  | Unknown_named_value string
  | Unknown_function string
  | Wrong_arity string nat nat nat
  | Case_even_arguments
  | Case_predicate_not_boolean
  | Missing_argument
  | Format_error
  | Empty_json
  | Json_error
  | No_workspace
  | Hash_invalid_option string
  | Hash_relative_segment string
  | Hash_invalid_pattern string
  | Hash_io string
  | Unclosed_expression
  | Unexpected_logical_operator
  | Out_of_fuel
  | Diverges

datatype token =
    T_Ident string
  | T_StringLit string
  | T_NumberLit f64
  | T_BoolLit bool
  | T_Null
  | T_Dot
  | T_LBracket
  | T_RBracket
  | T_LParen
  | T_RParen
  | T_Comma
  | T_Star
  | T_Eq
  | T_Neq
  | T_Lt
  | T_Le
  | T_Gt
  | T_Ge
  | T_And
  | T_Or
  | T_Not

text \<open>\<open>lex_operator\<close>: two-character operators first, then single characters.\<close>

fun lex_operator :: "string \<Rightarrow> (expr_error, token \<times> string) result" where
  "lex_operator [] = Err Unexpected_end_of_input"
| "lex_operator (ch # r) =
     (let nxt = (case r of [] \<Rightarrow> None | c # _ \<Rightarrow> Some c)
      in if ch = CHR ''='' \<and> nxt = Some (CHR ''='') then Ok (T_Eq, tl r)
         else if ch = CHR ''!'' \<and> nxt = Some (CHR ''='') then Ok (T_Neq, tl r)
         else if ch = CHR ''<'' \<and> nxt = Some (CHR ''='') then Ok (T_Le, tl r)
         else if ch = CHR ''>'' \<and> nxt = Some (CHR ''='') then Ok (T_Ge, tl r)
         else if ch = CHR ''&'' \<and> nxt = Some (CHR ''&'') then Ok (T_And, tl r)
         else if ch = CHR ''|'' \<and> nxt = Some (CHR ''|'') then Ok (T_Or, tl r)
         else if ch = CHR ''!'' then Ok (T_Not, r)
         else if ch = CHR ''<'' then Ok (T_Lt, r)
         else if ch = CHR ''>'' then Ok (T_Gt, r)
         else if ch = CHR ''.'' then Ok (T_Dot, r)
         else if ch = CHR ''('' then Ok (T_LParen, r)
         else if ch = CHR '')'' then Ok (T_RParen, r)
         else if ch = CHR ''['' then Ok (T_LBracket, r)
         else if ch = CHR '']'' then Ok (T_RBracket, r)
         else if ch = CHR '','' then Ok (T_Comma, r)
         else if ch = CHR ''*'' then Ok (T_Star, r)
         else Err (Unexpected_character ch))"

definition keyword_or_ident :: "string \<Rightarrow> token" where
  "keyword_or_ident word =
     (if word = ''true'' then T_BoolLit True
      else if word = ''false'' then T_BoolLit False
      else if word = ''null'' then T_Null
      else if word = ''NaN'' then T_NumberLit F_NaN
      else if word = ''Infinity'' then T_NumberLit (F_Inf False)
      else T_Ident word)"

definition is_ident_start :: "char \<Rightarrow> bool" where
  "is_ident_start ch \<longleftrightarrow> is_ascii_alphabetic ch \<or> ch = CHR ''_''"

definition is_ident_continue :: "char \<Rightarrow> bool" where
  "is_ident_continue ch \<longleftrightarrow> is_ascii_alphanumeric ch \<or> ch = CHR ''_'' \<or> ch = CHR ''-''"

definition is_number_start :: "char \<Rightarrow> token option \<Rightarrow> bool" where
  "is_number_start ch previous \<longleftrightarrow>
     is_ascii_digit ch \<or> ch = CHR ''+'' \<or> ch = CHR ''-'' \<or>
     ch = CHR ''.'' \<and>
       previous \<in> {None, Some T_Comma, Some T_LParen, Some T_LBracket, Some T_Eq, Some T_Neq,
                    Some T_Lt, Some T_Le, Some T_Gt, Some T_Ge, Some T_And, Some T_Or, Some T_Not}"

text \<open>
  \<open>lex_string\<close> runs from the byte after the opening quote to the closing one, \<open>''\<close> standing for a
  quote; it returns the bytes of the literal and the rest of the input.
\<close>

fun lex_string_bytes :: "string \<Rightarrow> (expr_error, string \<times> string) result" where
  "lex_string_bytes [] = Err Unterminated_string"
| "lex_string_bytes (ch # r) =
     (if ch = CHR 0x27
      then (case r of
              c # r' \<Rightarrow>
                (if c = CHR 0x27
                 then rbind (lex_string_bytes r') (\<lambda>(s, rest). Ok (CHR 0x27 # s, rest))
                 else Ok ([], r))
            | [] \<Rightarrow> Ok ([], r))
      else rbind (lex_string_bytes r) (\<lambda>(s, rest). Ok (ch # s, rest)))"

definition lex_string :: "string \<Rightarrow> (expr_error, string \<times> string) result" where
  "lex_string r =
     rbind (lex_string_bytes r)
       (\<lambda>(s, rest). if valid_utf8 s then Ok (s, rest) else Err Invalid_utf8_string)"

definition is_number_stop :: "char \<Rightarrow> bool" where
  "is_number_stop ch \<longleftrightarrow> is_ascii_whitespace ch \<or> ch \<in> set ''[](),!<>=&|''"

definition lex_number :: "string \<Rightarrow> (expr_error, f64 \<times> string) result" where
  "lex_number r =
     (let txt = takeWhile (\<lambda>c. \<not> is_number_stop c) r;
          rest = dropWhile (\<lambda>c. \<not> is_number_stop c) r
      in if \<not> valid_utf8 txt then Err Invalid_utf8_number
         else case parse_number_checked txt of
                Inr n \<Rightarrow> Ok (n, rest)
              | Inl reason \<Rightarrow> Err (Invalid_number reason))"

definition lex_ident :: "string \<Rightarrow> string \<times> string" where
  "lex_ident r = (takeWhile is_ident_continue r, dropWhile is_ident_continue r)"

lemma lex_operator_shrinks: "lex_operator s = Ok (t, r) \<Longrightarrow> length r < length s"
  by (cases s; cases "tl s") (auto simp: Let_def split: if_splits)

lemma lex_string_bytes_shrinks: "lex_string_bytes s = Ok (t, r) \<Longrightarrow> length r < length s"
  by (induction s arbitrary: t r rule: lex_string_bytes.induct)
     (auto simp: rbind_eq_Ok split: if_splits list.splits dest: less_SucI, fastforce+)

lemma lex_string_shrinks: "lex_string s = Ok (t, r) \<Longrightarrow> length r < length s"
  by (auto simp: lex_string_def rbind_eq_Ok split: if_splits dest: lex_string_bytes_shrinks)

lemma number_start_not_stop: "is_number_start c p \<Longrightarrow> \<not> is_number_stop c"
  by (auto simp: is_number_start_def is_number_stop_def ascii_simps)

lemma lex_number_shrinks:
  "lex_number (c # s) = Ok (n, r) \<Longrightarrow> is_number_start c p \<Longrightarrow> length r < length (c # s)"
  by (auto simp: lex_number_def Let_def number_start_not_stop split: if_splits sum.splits
      intro: le_imp_less_Suc length_dropWhile_le)

lemma ident_start_continue: "is_ident_start c \<Longrightarrow> is_ident_continue c"
  by (auto simp: is_ident_start_def is_ident_continue_def ascii_simps)

text \<open>The main loop. \<open>prev\<close> is \<open>tokens.last()\<close>; the result is the list of tokens still produced.\<close>

function lex_from :: "token option \<Rightarrow> string \<Rightarrow> (expr_error, token list) result" where
  "lex_from prev [] = Ok []"
| "lex_from prev (ch # r) =
     (if is_ascii_whitespace ch then lex_from prev r
      else if ch = CHR 0x27
      then (case lex_string r of
              Inl e \<Rightarrow> Err e
            | Inr (s, rest) \<Rightarrow>
                rbind (lex_from (Some (T_StringLit s)) rest) (\<lambda>ts. Ok (T_StringLit s # ts)))
      else if is_number_start ch prev
      then (case lex_number (ch # r) of
              Inl e \<Rightarrow> Err e
            | Inr (n, rest) \<Rightarrow>
                rbind (lex_from (Some (T_NumberLit n)) rest) (\<lambda>ts. Ok (T_NumberLit n # ts)))
      else if is_ident_start ch
      then (let (word, rest) = lex_ident (ch # r);
                tok = (if prev = Some T_Dot then T_Ident word else keyword_or_ident word)
            in rbind (lex_from (Some tok) rest) (\<lambda>ts. Ok (tok # ts)))
      else (case lex_operator (ch # r) of
              Inl e \<Rightarrow> Err e
            | Inr (tok, rest) \<Rightarrow> rbind (lex_from (Some tok) rest) (\<lambda>ts. Ok (tok # ts))))"
  by pat_completeness auto
termination
proof (relation "measure (\<lambda>(p, s). length s)", goal_cases)
  case (3 prev ch r x s rest)
  then show ?case by (auto dest: lex_string_shrinks)
next
  case (4 prev ch r x n rest)
  then show ?case using lex_number_shrinks by fastforce
next
  case (5 prev ch r x word rest tok)
  then show ?case
    by (auto simp: lex_ident_def ident_start_continue intro: le_imp_less_Suc length_dropWhile_le)
next
  case (6 prev ch r x tok rest)
  then show ?case using lex_operator_shrinks by fastforce
qed auto

definition lex :: "string \<Rightarrow> (expr_error, token list) result" where
  "lex input = lex_from None input"

declare lex_from.simps(2) [simp del]

end
