(* ===== verification/Expr_Parser.thy ===== *)
theory Expr_Parser
  imports Expr_Lexer
begin

text \<open>
  The recursive-descent parser of \<open>crates/expressions/src/parser/\<close>. The parser state (token vector
  and position) is the list of tokens not yet consumed, so \<open>peek\<close> is its head and \<open>advance\<close> its
  tail. Every parsing function that can reach \<open>parse_or\<close> again takes it as the argument \<open>por\<close>;
  \<open>parse_or_fuel\<close> ties the knot with the nesting depth as fuel and \<open>parse\<close> starts it with one more
  than the number of tokens. The locale \<open>sub_parser\<close> is the contract between the levels (what is
  returned is shorter than what was given, and the fuel lasts); it shows that the fuel is enough.
\<close>

subsection \<open>Syntax trees\<close>

datatype unary_operator = Not_op

datatype binary_operator = Or_op | And_op | Eq_op | Neq_op | Lt_op | Le_op | Gt_op | Ge_op

datatype expr =
    Literal expr_value
  | Context string
  | PropertyAccess expr string
  | IndexAccess expr expr
  | WildcardAccess expr
  | FunctionCall string "expr list"
  | UnaryOp unary_operator expr
  | BinaryOp binary_operator expr expr

type_synonym 'a parser = "token list \<Rightarrow> (expr_error, 'a \<times> token list) result"

subsection \<open>Token helpers\<close>

definition expect_token :: "token \<Rightarrow> token list \<Rightarrow> (expr_error, token list) result" where
  "expect_token expected ts =
     (case ts of tok # r \<Rightarrow> (if tok = expected then Ok r else Err Expected_token)
               | [] \<Rightarrow> Err Expected_token)"

fun peek_equality_op :: "token \<Rightarrow> binary_operator option" where
  "peek_equality_op T_Eq = Some Eq_op"
| "peek_equality_op T_Neq = Some Neq_op"
| "peek_equality_op _ = None"

fun peek_comparison_op :: "token \<Rightarrow> binary_operator option" where
  "peek_comparison_op T_Lt = Some Lt_op"
| "peek_comparison_op T_Le = Some Le_op"
| "peek_comparison_op T_Gt = Some Gt_op"
| "peek_comparison_op T_Ge = Some Ge_op"
| "peek_comparison_op _ = None"

definition peek_or_op :: "token \<Rightarrow> binary_operator option" where
  "peek_or_op t = (if t = T_Or then Some Or_op else None)"

definition peek_and_op :: "token \<Rightarrow> binary_operator option" where
  "peek_and_op t = (if t = T_And then Some And_op else None)"

subsection \<open>Primary expressions\<close>

fun parse_args_loop :: "nat \<Rightarrow> expr parser \<Rightarrow> expr list \<Rightarrow> expr list parser" where
  "parse_args_loop 0 por args ts = Err Out_of_fuel"
| "parse_args_loop (Suc k) por args ts =
     (case ts of
        t # r \<Rightarrow>
          (if t = T_Comma
           then rbind (por r) (\<lambda>(a, r'). parse_args_loop k por (args @ [a]) r')
           else Ok (args, ts))
      | [] \<Rightarrow> Ok (args, ts))"

definition parse_args :: "expr parser \<Rightarrow> expr list parser" where
  "parse_args por ts =
     (if ts \<noteq> [] \<and> hd ts = T_RParen then Ok ([], ts)
      else rbind (por ts) (\<lambda>(a, r). parse_args_loop (Suc (length r)) por [a] r))"

definition parse_ident_expr :: "expr parser \<Rightarrow> string \<Rightarrow> expr parser" where
  "parse_ident_expr por name ts =
     (case ts of
        t # r \<Rightarrow>
          (if t = T_LParen
           then rbind (parse_args por r) (\<lambda>(args, r').
                rbind (expect_token T_RParen r') (\<lambda>r''. Ok (FunctionCall name args, r'')))
           else Ok (Context name, ts))
      | [] \<Rightarrow> Ok (Context name, ts))"

definition parse_primary :: "expr parser \<Rightarrow> expr parser" where
  "parse_primary por ts =
     (case ts of
        [] \<Rightarrow> Err Unexpected_token
      | t # r \<Rightarrow>
          (case t of
             T_StringLit s \<Rightarrow> Ok (Literal (Str s), r)
           | T_NumberLit n \<Rightarrow> Ok (Literal (Num n), r)
           | T_BoolLit b \<Rightarrow> Ok (Literal (Bool b), r)
           | T_Null \<Rightarrow> Ok (Literal Null, r)
           | T_LParen \<Rightarrow>
               rbind (por r) (\<lambda>(inner, r').
               rbind (expect_token T_RParen r') (\<lambda>r''. Ok (inner, r'')))
           | T_Ident name \<Rightarrow> parse_ident_expr por name r
           | _ \<Rightarrow> Err Unexpected_token))"

subsection \<open>Postfix and unary expressions\<close>

definition parse_dot_access :: "expr \<Rightarrow> expr parser" where
  "parse_dot_access obj ts =
     (case ts of
        T_Star # r \<Rightarrow> Ok (WildcardAccess obj, r)
      | T_Ident n # r \<Rightarrow> Ok (PropertyAccess obj n, r)
      | _ \<Rightarrow> Err Expected_property)"

definition parse_bracket_access :: "expr parser \<Rightarrow> expr \<Rightarrow> expr parser" where
  "parse_bracket_access por obj ts =
     (if ts \<noteq> [] \<and> hd ts = T_Star
      then rbind (expect_token T_RBracket (tl ts)) (\<lambda>r. Ok (WildcardAccess obj, r))
      else rbind (por ts) (\<lambda>(index, r).
           rbind (expect_token T_RBracket r) (\<lambda>r'. Ok (IndexAccess obj index, r'))))"

fun postfix_loop :: "nat \<Rightarrow> expr parser \<Rightarrow> expr \<Rightarrow> expr parser" where
  "postfix_loop 0 por e ts = Err Out_of_fuel"
| "postfix_loop (Suc k) por e ts =
     (case ts of
        [] \<Rightarrow> Ok (e, ts)
      | t # r \<Rightarrow>
          (if t = T_Dot then rbind (parse_dot_access e r) (\<lambda>(e', r'). postfix_loop k por e' r')
           else if t = T_LBracket
           then rbind (parse_bracket_access por e r) (\<lambda>(e', r'). postfix_loop k por e' r')
           else Ok (e, ts)))"

fun is_literal_token :: "token \<Rightarrow> bool" where
  "is_literal_token T_Null = True"
| "is_literal_token (T_BoolLit _) = True"
| "is_literal_token (T_NumberLit _) = True"
| "is_literal_token (T_StringLit _) = True"
| "is_literal_token _ = False"

definition parse_postfix :: "expr parser \<Rightarrow> expr parser" where
  "parse_postfix por ts =
     (let literal = (ts \<noteq> [] \<and> is_literal_token (hd ts))
      in rbind (parse_primary por ts) (\<lambda>(e, r).
           if literal \<and> r \<noteq> [] \<and> hd r \<in> {T_Dot, T_LBracket} then Err Literal_indexed
           else postfix_loop (Suc (length r)) por e r))"

fun parse_unary :: "expr parser \<Rightarrow> expr parser" where
  "parse_unary por [] = parse_postfix por []"
| "parse_unary por (t # r) =
     (if t = T_Not
      then rbind (parse_unary por r) (\<lambda>(operand, r'). Ok (UnaryOp Not_op operand, r'))
      else parse_postfix por (t # r))"

subsection \<open>Binary levels\<close>

text \<open>The \<open>while let Some(op) = peek_op()\<close> loop the four binary levels share.\<close>

fun binary_loop ::
  "nat \<Rightarrow> (token \<Rightarrow> binary_operator option) \<Rightarrow> expr parser \<Rightarrow> expr \<Rightarrow> expr parser" where
  "binary_loop 0 peek_op next left ts = Err Out_of_fuel"
| "binary_loop (Suc k) peek_op next left ts =
     (case ts of
        [] \<Rightarrow> Ok (left, ts)
      | t # r \<Rightarrow>
          (case peek_op t of
             None \<Rightarrow> Ok (left, ts)
           | Some op \<Rightarrow>
               rbind (next r) (\<lambda>(right, r'). binary_loop k peek_op next (BinaryOp op left right) r')))"

definition binary_level ::
  "(token \<Rightarrow> binary_operator option) \<Rightarrow> expr parser \<Rightarrow> expr parser" where
  "binary_level peek_op next ts =
     rbind (next ts) (\<lambda>(left, r). binary_loop (Suc (length r)) peek_op next left r)"

definition parse_comparison :: "expr parser \<Rightarrow> expr parser" where
  "parse_comparison por = binary_level peek_comparison_op (parse_unary por)"

definition parse_equality :: "expr parser \<Rightarrow> expr parser" where
  "parse_equality por = binary_level peek_equality_op (parse_comparison por)"

definition parse_and :: "expr parser \<Rightarrow> expr parser" where
  "parse_and por = binary_level peek_and_op (parse_equality por)"

definition parse_or :: "expr parser \<Rightarrow> expr parser" where
  "parse_or por = binary_level peek_or_op (parse_and por)"

fun parse_or_fuel :: "nat \<Rightarrow> expr parser" where
  "parse_or_fuel 0 ts = Err Out_of_fuel"
| "parse_or_fuel (Suc n) ts = parse_or (parse_or_fuel n) ts"

definition parse_tokens :: "token list \<Rightarrow> (expr_error, expr) result" where
  "parse_tokens tokens =
     rbind (parse_or_fuel (Suc (length tokens)) tokens)
       (\<lambda>(e, rest). if rest \<noteq> [] then Err Trailing_tokens else Ok e)"

definition parse :: "string \<Rightarrow> (expr_error, expr) result" where
  "parse input = rbind (lex input) parse_tokens"

subsection \<open>The contract between the levels\<close>

text \<open>
  A parser result \<open>consumes m\<close> when it is not a fuel error and what remains has fewer than \<open>m\<close>
  tokens; the rules follow the structure of the parsing functions.
\<close>

definition consumes :: "nat \<Rightarrow> (expr_error, 'a \<times> token list) result \<Rightarrow> bool" where
  "consumes m res \<longleftrightarrow> res \<noteq> Err Out_of_fuel \<and> (\<forall>x r. res = Ok (x, r) \<longrightarrow> length r < m)"

lemma consumes_Ok [simp]: "consumes m (Ok (x, r)) \<longleftrightarrow> length r < m"
  by (simp add: consumes_def)

lemma consumes_Err [simp]: "consumes m (Err e) \<longleftrightarrow> e \<noteq> Out_of_fuel"
  by (simp add: consumes_def)

lemma consumes_bind:
  "consumes m res \<Longrightarrow> (\<And>x r. length r < m \<Longrightarrow> consumes m' (f (x, r))) \<Longrightarrow> consumes m' (rbind res f)"
  by (cases res) (auto simp: consumes_def)

lemma consumes_mono: "consumes m res \<Longrightarrow> m \<le> m' \<Longrightarrow> consumes m' res"
  by (auto simp: consumes_def)

lemma expect_token_Ok: "expect_token t ts = Ok r \<longleftrightarrow> ts = t # r"
  by (auto simp: expect_token_def split: list.splits)

lemma consumes_expect:
  "(\<And>r. length r < length ts \<Longrightarrow> consumes m (f r)) \<Longrightarrow> consumes m (rbind (expect_token t ts) f)"
  by (auto simp: expect_token_def split: list.splits)

text \<open>
  The contract of a parser at fuel \<open>n\<close>: on inputs of fewer than \<open>n\<close> tokens it consumes a token or
  fails with a real error.
\<close>

locale sub_parser =
  fixes p :: "expr parser" and n :: nat
  assumes call: "length ts < n \<Longrightarrow> consumes (length ts) (p ts)"
begin

lemma args_loop_good:
  "length ts < k \<Longrightarrow> length ts \<le> n \<Longrightarrow> consumes (Suc (length ts)) (parse_args_loop k p args ts)"
proof (induction k arbitrary: args ts)
  case (Suc k)
  then show ?case
    by (cases ts) (auto intro!: consumes_bind [OF call] intro: consumes_mono [OF Suc.IH])
qed simp

lemma args_good: "length ts < n \<Longrightarrow> consumes (Suc (length ts)) (parse_args p ts)"
  unfolding parse_args_def
  by (auto simp del: parse_args_loop.simps intro!: consumes_bind [OF call]
      intro: consumes_mono [OF args_loop_good])

lemma ident_expr_good: "length ts < n \<Longrightarrow> consumes (Suc (length ts)) (parse_ident_expr p name ts)"
  by (cases ts) (auto simp: parse_ident_expr_def intro!: consumes_bind [OF args_good] consumes_expect)

lemma primary_good: "length ts \<le> n \<Longrightarrow> consumes (length ts) (parse_primary p ts)"
  by (cases ts)
     (auto simp: parse_primary_def split: token.splits
       intro!: ident_expr_good consumes_bind [OF call] consumes_expect)

lemma bracket_good: "length ts < n \<Longrightarrow> consumes (length ts) (parse_bracket_access p e ts)"
  by (cases ts)
     (auto simp: parse_bracket_access_def intro!: consumes_bind [OF call] consumes_expect)

lemma dot_good: "consumes (length ts) (parse_dot_access e ts)"
  by (auto simp: parse_dot_access_def split: list.splits token.splits)

lemma postfix_loop_good:
  "length ts < k \<Longrightarrow> length ts \<le> n \<Longrightarrow> consumes (Suc (length ts)) (postfix_loop k p e ts)"
proof (induction k arbitrary: e ts)
  case (Suc k)
  then show ?case
    by (cases ts)
       (auto intro!: consumes_bind [OF dot_good] consumes_bind [OF bracket_good]
         intro: consumes_mono [OF Suc.IH])
qed simp

lemma postfix_loop_start:
  "length r < m \<Longrightarrow> length r \<le> n \<Longrightarrow> consumes m (postfix_loop (Suc (length r)) p e r)"
  by (rule consumes_mono [OF postfix_loop_good]) auto

lemma postfix_good: "length ts \<le> n \<Longrightarrow> consumes (length ts) (parse_postfix p ts)"
  unfolding parse_postfix_def Let_def
  by (auto simp del: postfix_loop.simps intro!: consumes_bind [OF primary_good] postfix_loop_start
      postfix_loop_start [of "[]", simplified list.size])

lemma unary_good: "length ts \<le> n \<Longrightarrow> consumes (length ts) (parse_unary p ts)"
proof (induction ts)
  case Nil
  then show ?case using postfix_good [of "[]"] by simp
next
  case (Cons t r)
  then show ?case
    using postfix_good [of "t # r"] by (auto intro!: consumes_bind [OF Cons.IH])
qed

lemma sub_unary: "sub_parser (parse_unary p) (Suc n)"
  by unfold_locales (simp add: unary_good)

lemma binary_loop_good:
  "length ts < k \<Longrightarrow> length ts \<le> n \<Longrightarrow> consumes (Suc (length ts)) (binary_loop k peek_op p left ts)"
proof (induction k arbitrary: left ts)
  case (Suc k)
  then show ?case
    by (cases ts)
       (auto split: option.splits intro!: consumes_bind [OF call] intro: consumes_mono [OF Suc.IH])
qed simp

lemma sub_binary_level: "sub_parser (binary_level peek_op p) n"
  by unfold_locales
     (auto simp: binary_level_def simp del: binary_loop.simps intro!: consumes_bind [OF call]
       intro: consumes_mono [OF binary_loop_good])

end

lemma sub_parser_or: "sub_parser por n \<Longrightarrow> sub_parser (parse_or por) (Suc n)"
  unfolding parse_or_def parse_and_def parse_equality_def parse_comparison_def
  by (intro sub_parser.sub_binary_level sub_parser.sub_unary)

lemma sub_parser_or_fuel: "sub_parser (parse_or_fuel n) n"
proof (induction n)
  case 0
  show ?case by unfold_locales auto
next
  case (Suc n)
  then have "sub_parser (parse_or (parse_or_fuel n)) (Suc n)" by (rule sub_parser_or)
  moreover have "parse_or_fuel (Suc n) = parse_or (parse_or_fuel n)" by (rule ext) simp
  ultimately show ?case by simp
qed

interpretation parse_or_level: sub_parser "parse_or_fuel n" n for n
  by (rule sub_parser_or_fuel)

lemma parse_tokens_total: "parse_tokens ts \<noteq> Err Out_of_fuel"
  using parse_or_level.call [of ts "Suc (length ts)"]
  by (auto simp: parse_tokens_def consumes_def rbind_eq_Err simp del: parse_or_fuel.simps split: if_splits)

end
