(* ===== verification/Expr_Format.thy ===== *)
theory Expr_Format
  imports Expr_Lexer
begin

text \<open>
  The \<open>format()\<close> placeholder language, \<open>crates/expressions/src/functions/format.rs\<close>. Arguments are
  evaluated through a callback, so \<open>render\<close> threads the identity counter of \<open>Expr_Values\<close>
  through the calls it makes and keeps the code's per-argument cache.
\<close>

datatype segment = Text string | Argument nat bool

text \<open>The inner loop over a format specifier: \<open>}}\<close> is a literal brace, a single \<open>}\<close> ends it.\<close>

fun skip_specifier :: "bool \<Rightarrow> string \<Rightarrow> (bool \<times> string) option" where
  "skip_specifier nonempty [] = None"
| "skip_specifier nonempty (c # r) =
     (if c = CHR ''}''
      then (case r of
              d # r' \<Rightarrow> (if d = CHR ''}'' then skip_specifier True r' else Some (nonempty, r))
            | [] \<Rightarrow> Some (nonempty, r))
      else skip_specifier True r)"

lemma skip_specifier_shrinks: "skip_specifier b s = Some (b', r) \<Longrightarrow> length r < length s"
  by (induction b s arbitrary: b' r rule: skip_specifier.induct)
     (fastforce split: if_splits list.splits)+

text \<open>\<open>str::parse::<u8>\<close> of a digit string.\<close>

definition parse_u8 :: "string \<Rightarrow> nat option" where
  "parse_u8 digits =
     (if digits = [] \<or> 255 < digits_val 0 digits then None else Some (digits_val 0 digits))"

definition parse_placeholder :: "nat \<Rightarrow> string \<Rightarrow> (expr_error, segment \<times> string) result" where
  "parse_placeholder count s =
     (let digits = takeWhile is_ascii_digit s; rest = dropWhile is_ascii_digit s
      in case parse_u8 digits of
           None \<Rightarrow> Err Format_error
         | Some index \<Rightarrow>
             (if count \<le> index then Err Format_error
              else case rest of
                [] \<Rightarrow> Err Format_error
              | c # r \<Rightarrow>
                  (if c = CHR ''}'' then Ok (Argument index False, r)
                   else if c = CHR '':''
                   then (case skip_specifier False r of
                           Some (nonempty, r') \<Rightarrow> Ok (Argument index nonempty, r')
                         | None \<Rightarrow> Err Format_error)
                   else Err Format_error)))"

lemma parse_placeholder_shrinks: "parse_placeholder count s = Ok (seg, r) \<Longrightarrow> length r < length s"
proof -
  assume a: "parse_placeholder count s = Ok (seg, r)"
  have "length (dropWhile is_ascii_digit s) \<le> length s" by (rule length_dropWhile_le)
  with a show ?thesis
    by (auto simp: parse_placeholder_def Let_def split: option.splits if_splits list.splits
        dest!: skip_specifier_shrinks)
qed

function format_parse :: "nat \<Rightarrow> string \<Rightarrow> string \<Rightarrow> (expr_error, segment list) result" where
  "format_parse count buf [] = Ok [Text buf]"
| "format_parse count buf (ch # r) =
     (if ch \<noteq> CHR ''{'' \<and> ch \<noteq> CHR ''}'' then format_parse count (buf @ [ch]) r
      else if r \<noteq> [] \<and> hd r = ch then format_parse count (buf @ [ch]) (tl r)
      else if ch = CHR ''}'' then Err Format_error
      else case parse_placeholder count r of
             Inl e \<Rightarrow> Err e
           | Inr (seg, rest) \<Rightarrow>
               rbind (format_parse count [] rest) (\<lambda>segs. Ok (Text buf # seg # segs)))"
  by pat_completeness auto
termination
  by (relation "measure (\<lambda>(n, t, s). length s)") (auto dest: parse_placeholder_shrinks simp: le_imp_less_Suc)

fun render_segments ::
  "(nat \<Rightarrow> nat \<Rightarrow> (expr_error, expr_value \<times> nat) result) \<Rightarrow> string option list \<Rightarrow> string \<Rightarrow> nat
   \<Rightarrow> segment list \<Rightarrow> (expr_error, string \<times> nat) result" where
  "render_segments argument cache out nxt [] = Ok (out, nxt)"
| "render_segments argument cache out nxt (Text t # segs) =
     render_segments argument cache (out @ t) nxt segs"
| "render_segments argument cache out nxt (Argument index invalid_specifier # segs) =
     (if length cache \<le> index then Err Format_error
      else case cache ! index of
             Some value \<Rightarrow>
               (if invalid_specifier then Err Format_error
                else render_segments argument cache (out @ value) nxt segs)
           | None \<Rightarrow>
               rbind (argument index nxt) (\<lambda>(v, nxt').
                 if invalid_specifier then Err Format_error
                 else render_segments argument (cache[index := Some (coerce_to_string v)])
                        (out @ coerce_to_string v) nxt' segs))"

definition render ::
  "string \<Rightarrow> nat \<Rightarrow> (nat \<Rightarrow> nat \<Rightarrow> (expr_error, expr_value \<times> nat) result) \<Rightarrow> nat
   \<Rightarrow> (expr_error, expr_value \<times> nat) result" where
  "render template count argument nxt =
     rbind (format_parse count [] template) (\<lambda>segs.
     rbind (render_segments argument (replicate count None) [] nxt segs) (\<lambda>(out, nxt').
     Ok (Str out, nxt')))"

subsection \<open>Escaping\<close>

text \<open>Doubling the braces of a text makes it a format string that renders to itself.\<close>

definition escape_braces :: "string \<Rightarrow> string" where
  "escape_braces s = concat (map (\<lambda>c. if c = CHR ''{'' \<or> c = CHR ''}'' then [c, c] else [c]) s)"

lemma format_parse_escaped:
  "format_parse count buf (escape_braces s @ t) = format_parse count (buf @ s) t"
  by (induction s arbitrary: buf) (auto simp: escape_braces_def)

lemma render_escaped: "render (escape_braces s) count argument nxt = Ok (Str s, nxt)"
  using format_parse_escaped [of count "[]" s "[]"] by (simp add: render_def)

subsection \<open>Rendering against strictly evaluated arguments\<close>

text \<open>The callback of the value-level \<open>fn_format\<close>: argument \<open>i\<close> is the given value.\<close>

definition value_argument :: "expr_value list \<Rightarrow> nat \<Rightarrow> nat \<Rightarrow> (expr_error, expr_value \<times> nat) result" where
  "value_argument vs index nxt = (if index < length vs then Ok (vs ! index, nxt) else Err Format_error)"

lemma format_parse_index:
  "format_parse count buf s = Ok segs \<Longrightarrow> Argument i b \<in> set segs \<Longrightarrow> i < count"
proof (induction count buf s arbitrary: segs rule: format_parse.induct)
  case (2 count buf ch r)
  show ?case
  proof (cases "(ch \<noteq> CHR ''{'' \<and> ch \<noteq> CHR ''}'') \<or> (r \<noteq> [] \<and> hd r = ch)")
    case True
    with "2.prems" "2.IH"(1,2) show ?thesis by (auto split: if_splits)
  next
    case False
    with "2.prems"(1) obtain seg rest segs' where ch: "ch \<noteq> CHR ''}''" and
      ph: "parse_placeholder count r = Ok (seg, rest)" and
      rec: "format_parse count [] rest = Ok segs'" and segs: "segs = Text buf # seg # segs'"
      by (auto simp: rbind_eq_Ok split: if_splits sum.splits)
    from ph have "seg = Argument j c \<Longrightarrow> j < count" for j c
      by (auto simp: parse_placeholder_def Let_def split: option.splits if_splits list.splits)
    moreover have "Argument i b \<in> set segs' \<Longrightarrow> i < count"
      using "2.IH"(3) [of "(seg, rest)" seg rest] False ch ph rec by (auto split: if_splits)
    ultimately show ?thesis using "2.prems"(2) segs by auto
  qed
qed auto

end
