(* ===== verification/Expr_Display.thy ===== *)
theory Expr_Display
  imports Expr_Parser Expr_Format
begin

text \<open>
  Display names of expression tokens, \<open>crates/expressions/src/display.rs\<close>: printing a syntax tree
  back to text, unrolling \<open>format()\<close> calls and collecting the referenced names. The main result is
  that printing a tree and parsing the text gives the tree back.
\<close>

subsection \<open>The code\<close>

record references =
  ref_contexts :: "string list"
  ref_functions :: "string list"

fun collect :: "expr \<Rightarrow> references \<Rightarrow> references" where
  "collect (Literal _) found = found"
| "collect (Context name) found = found\<lparr>ref_contexts := ref_contexts found @ [name]\<rparr>"
| "collect (PropertyAccess obj _) found = collect obj found"
| "collect (WildcardAccess obj) found = collect obj found"
| "collect (IndexAccess obj index) found = collect index (collect obj found)"
| "collect (FunctionCall name args) found =
     fold collect args (found\<lparr>ref_functions := ref_functions found @ [name]\<rparr>)"
| "collect (UnaryOp _ operand) found = collect operand found"
| "collect (BinaryOp _ left right) found = collect right (collect left found)"

definition references_of :: "string \<Rightarrow> (expr_error, references) result" where
  "references_of expression =
     rbind (parse expression) (\<lambda>e. Ok (collect e \<lparr>ref_contexts = [], ref_functions = []\<rparr>))"

definition first_line :: "string \<Rightarrow> string" where
  "first_line s =
     takeWhile (\<lambda>c. c \<noteq> CHR 0x0D \<and> c \<noteq> CHR 0x0A)
       (dropWhile (\<lambda>c. c \<in> {CHR '' '', CHR 0x09, CHR 0x0D, CHR 0x0A}) s)"

definition quote_string :: "string \<Rightarrow> string" where
  "quote_string s = concat (map (\<lambda>c. if c = CHR 0x27 then [c, c] else [c]) s)"

fun literal :: "expr_value \<Rightarrow> string" where
  "literal (Str s) = [CHR 0x27] @ quote_string s @ [CHR 0x27]"
| "literal Null = ''null''"
| "literal v = coerce_to_string v"

fun operator :: "binary_operator \<Rightarrow> string" where
  "operator Or_op = ''||''"
| "operator And_op = ''&&''"
| "operator Eq_op = ''==''"
| "operator Neq_op = ''!=''"
| "operator Lt_op = ''<''"
| "operator Le_op = ''<=''"
| "operator Gt_op = ''>''"
| "operator Ge_op = ''>=''"

definition is_keyword :: "string \<Rightarrow> bool" where
  "is_keyword s \<longleftrightarrow>
     (case s of
        [] \<Rightarrow> False
      | c # r \<Rightarrow> (is_ascii_alphabetic c \<or> c = CHR ''_'')
          \<and> list_all (\<lambda>c. is_ascii_alphanumeric c \<or> c = CHR ''_'' \<or> c = CHR ''-'') r)"

definition keyword_index :: "expr \<Rightarrow> string option" where
  "keyword_index i = (case i of Literal (Str key) \<Rightarrow> (if is_keyword key then Some key else None) | _ \<Rightarrow> None)"

fun to_expression :: "expr \<Rightarrow> string" where
  "to_expression (Literal value) = literal value"
| "to_expression (Context name) = name"
| "to_expression (PropertyAccess obj property) = to_expression obj @ ''.'' @ property"
| "to_expression (IndexAccess obj index) =
     (case keyword_index index of
        Some key \<Rightarrow> to_expression obj @ ''.'' @ key
      | None \<Rightarrow> to_expression obj @ ''['' @ to_expression index @ '']'')"
| "to_expression (WildcardAccess obj) = to_expression obj @ ''.*''"
| "to_expression (FunctionCall name args) =
     name @ ''('' @ join_str '', '' (map to_expression args) @ '')''"
| "to_expression (UnaryOp _ operand) = ''!'' @ to_expression operand"
| "to_expression (BinaryOp op left right) =
     ''('' @ to_expression left @ '' '' @ operator op @ '' '' @ to_expression right @ '')''"

definition strip_group :: "string \<Rightarrow> string option" where
  "strip_group s =
     (case s of
        c # r \<Rightarrow>
          (if c = CHR ''('' \<and> r \<noteq> [] \<and> last r = CHR '')''
              \<and> butlast r \<noteq> [] \<and> \<not> list_ex (\<lambda>d. d = CHR ''('' \<or> d = CHR '')'') (butlast r)
           then Some (butlast r) else None)
      | [] \<Rightarrow> None)"

definition placeholder_text :: "string \<Rightarrow> string" where
  "placeholder_text s = ''${{ '' @ s @ '' }}''"

definition format_parameter :: "expr \<Rightarrow> string" where
  "format_parameter node =
     (let t = to_expression node
      in placeholder_text (case strip_group t of Some g \<Rightarrow> g | None \<Rightarrow> t))"

definition unrolled_format :: "string \<Rightarrow> string option" where
  "unrolled_format expression =
     (case parse expression of
        Inr (FunctionCall name (Literal (Str template) # parameters)) \<Rightarrow>
          (if \<not> eq_ignore_ascii_case name ''format'' \<or> parameters = [] then None
           else let shown = map format_parameter parameters
                in case render template (length shown)
                          (\<lambda>i n. Ok (Str (if i < length shown then shown ! i else []), n)) 0 of
                     Inr (v, _) \<Rightarrow>
                       (if coerce_to_string v = [] then None else Some (first_line (coerce_to_string v)))
                   | Inl _ \<Rightarrow> None)
      | _ \<Rightarrow> None)"

definition display_string :: "string \<Rightarrow> string" where
  "display_string expression =
     (case unrolled_format expression of
        Some s \<Rightarrow> s
      | None \<Rightarrow> first_line (placeholder_text expression))"

subsection \<open>The tokens of a printed tree\<close>

definition ident :: "string \<Rightarrow> bool" where
  "ident s \<longleftrightarrow> s \<noteq> [] \<and> is_ident_start (hd s) \<and> list_all is_ident_continue s"

definition plain_ident :: "string \<Rightarrow> bool" where
  "plain_ident s \<longleftrightarrow> ident s \<and> keyword_or_ident s = T_Ident s"

text \<open>A number whose fifteen-digit text reads back as the number itself.\<close>

definition exact_number :: "f64 \<Rightarrow> bool" where
  "exact_number n \<longleftrightarrow>
     (let t = format_number n
      in t \<noteq> [] \<and> (is_ascii_digit (hd t) \<or> hd t = CHR ''-'')
         \<and> list_all (\<lambda>c. \<not> is_number_stop c \<and> ord c < 128) t
         \<and> parse_number_checked t = Ok n)"

fun printable_literal :: "expr_value \<Rightarrow> bool" where
  "printable_literal Null = True"
| "printable_literal (Bool _) = True"
| "printable_literal (Str s) = valid_utf8 s"
| "printable_literal (Num n) = exact_number n"
| "printable_literal _ = False"

fun indexable :: "expr \<Rightarrow> bool" where
  "indexable (Literal _) = False"
| "indexable (UnaryOp _ _) = False"
| "indexable _ = True"

text \<open>
  The trees that print unambiguously: names are identifiers, literals have exact text, an index
  that would print as a property is a property, and what is indexed is neither a literal nor a
  negation (the printer puts no parentheses around those).
\<close>

fun printable :: "expr \<Rightarrow> bool" where
  "printable (Literal v) = printable_literal v"
| "printable (Context name) = plain_ident name"
| "printable (PropertyAccess obj p) = (printable obj \<and> indexable obj \<and> ident p)"
| "printable (IndexAccess obj i) =
     (printable obj \<and> indexable obj \<and> printable i \<and> keyword_index i = None)"
| "printable (WildcardAccess obj) = (printable obj \<and> indexable obj)"
| "printable (FunctionCall name args) = (plain_ident name \<and> list_all printable args)"
| "printable (UnaryOp _ e) = printable e"
| "printable (BinaryOp _ l r) = (printable l \<and> printable r)"

fun literal_token :: "expr_value \<Rightarrow> token" where
  "literal_token (Str s) = T_StringLit s"
| "literal_token (Num n) = T_NumberLit n"
| "literal_token (Bool b) = T_BoolLit b"
| "literal_token _ = T_Null"

fun op_token :: "binary_operator \<Rightarrow> token" where
  "op_token Or_op = T_Or"
| "op_token And_op = T_And"
| "op_token Eq_op = T_Eq"
| "op_token Neq_op = T_Neq"
| "op_token Lt_op = T_Lt"
| "op_token Le_op = T_Le"
| "op_token Gt_op = T_Gt"
| "op_token Ge_op = T_Ge"

fun join_tokens :: "token list list \<Rightarrow> token list" where
  "join_tokens [] = []"
| "join_tokens [x] = x"
| "join_tokens (x # y # xs) = x @ T_Comma # join_tokens (y # xs)"

fun toks :: "expr \<Rightarrow> token list" where
  "toks (Literal v) = [literal_token v]"
| "toks (Context name) = [T_Ident name]"
| "toks (PropertyAccess obj p) = toks obj @ [T_Dot, T_Ident p]"
| "toks (IndexAccess obj i) = toks obj @ [T_LBracket] @ toks i @ [T_RBracket]"
| "toks (WildcardAccess obj) = toks obj @ [T_Dot, T_Star]"
| "toks (FunctionCall name args) = T_Ident name # T_LParen # join_tokens (map toks args) @ [T_RParen]"
| "toks (UnaryOp _ e) = T_Not # toks e"
| "toks (BinaryOp op l r) = T_LParen # toks l @ [op_token op] @ toks r @ [T_RParen]"

subsection \<open>Parsing the printed tokens\<close>

lemma binary_level_pass:
  "next ts = Ok (e, r) \<Longrightarrow> r = [] \<or> peek (hd r) = None \<Longrightarrow> binary_level peek next ts = Ok (e, r)"
  by (cases r) (auto simp: binary_level_def)

lemma binary_level_hit:
  assumes "next ts = Ok (l, t # r)" "peek t = Some op" "next r = Ok (e, r')"
    and "r' = [] \<or> peek (hd r') = None" and "length r' < length r"
  shows "binary_level peek next ts = Ok (BinaryOp op l e, r')"
proof -
  obtain k where k: "length r = Suc k" using assms(5) by (cases "length r") auto
  show ?thesis
    using assms(1-4) by (cases r') (auto simp: binary_level_def k)
qed

text \<open>What may follow a complete operand.\<close>

definition closes :: "token list \<Rightarrow> bool" where
  "closes r \<longleftrightarrow> r = [] \<or> hd r \<in> {T_RBracket, T_RParen, T_Comma}"

definition stops :: "token list \<Rightarrow> bool" where
  "stops r \<longleftrightarrow> r = [] \<or> hd r \<notin> {T_Dot, T_LBracket, T_LParen}"

lemma closes_stops: "closes r \<Longrightarrow> stops r"
  by (auto simp: closes_def stops_def)

lemma parse_or_of_unary:
  assumes "parse_unary por ts = Ok (e, r)" "closes r"
  shows "parse_or por ts = Ok (e, r)"
  using assms unfolding parse_or_def parse_and_def parse_equality_def parse_comparison_def closes_def
  by (auto intro!: binary_level_pass simp: peek_or_op_def peek_and_op_def)

lemma parse_or_of_binary:
  assumes l: "parse_unary por ts = Ok (l, op_token op # r)"
    and r: "parse_unary por r = Ok (e, r')" "closes r'" "length r' < length r"
  shows "parse_or por ts = Ok (BinaryOp op l e, r')"
proof -
  have c: "r' = [] \<or> peek_comparison_op (hd r') = None" "r' = [] \<or> peek_equality_op (hd r') = None"
    "r' = [] \<or> peek_and_op (hd r') = None" "r' = [] \<or> peek_or_op (hd r') = None"
    using r(2) by (auto simp: closes_def peek_and_op_def peek_or_op_def)
  have pass: "peek_comparison_op (op_token op) = None \<Longrightarrow>
      parse_comparison por ts = Ok (l, op_token op # r) \<and> parse_comparison por r = Ok (e, r')"
    using l r(1) c unfolding parse_comparison_def by (simp add: binary_level_pass)
  have pass2: "peek_comparison_op (op_token op) = None \<Longrightarrow> peek_equality_op (op_token op) = None \<Longrightarrow>
      parse_equality por ts = Ok (l, op_token op # r) \<and> parse_equality por r = Ok (e, r')"
    using pass c unfolding parse_equality_def by (simp add: binary_level_pass)
  have pass3: "op = Or_op \<Longrightarrow> parse_and por ts = Ok (l, op_token op # r) \<and> parse_and por r = Ok (e, r')"
    using pass2 c unfolding parse_and_def by (simp add: binary_level_pass peek_and_op_def)
  have cmp: "peek_comparison_op (op_token op) = Some op \<Longrightarrow> parse_comparison por ts = Ok (BinaryOp op l e, r')"
    unfolding parse_comparison_def by (auto intro!: binary_level_hit l r c)
  have eq: "parse_equality por ts = Ok (BinaryOp op l e, r')" if "op \<in> {Eq_op, Neq_op}"
    using that pass unfolding parse_equality_def by (auto intro!: binary_level_hit r c)
  have an: "parse_and por ts = Ok (BinaryOp op l e, r')" if "op = And_op"
    using that pass2 unfolding parse_and_def by (auto intro!: binary_level_hit r c simp: peek_and_op_def)
  have lift: "parse_equality por ts = Ok x \<Longrightarrow> snd x = r' \<Longrightarrow> parse_or por ts = Ok x" for x
    unfolding parse_or_def parse_and_def using c by (cases x) (auto intro!: binary_level_pass)
  show ?thesis
  proof (cases op)
    case Or_op
    with pass3 show ?thesis
      unfolding parse_or_def
      by (auto intro!: binary_level_hit r c simp: peek_or_op_def)
  next
    case And_op
    with an show ?thesis unfolding parse_or_def using c by (auto intro!: binary_level_pass)
  qed (use lift eq cmp c in \<open>auto simp: parse_equality_def binary_level_pass\<close>)
qed

fun depth :: "expr \<Rightarrow> nat" where
  "depth (PropertyAccess obj _) = depth obj"
| "depth (IndexAccess obj i) = max (depth obj) (Suc (depth i))"
| "depth (WildcardAccess obj) = depth obj"
| "depth (FunctionCall _ args) = Suc (fold max (map depth args) 0)"
| "depth (UnaryOp _ e) = depth e"
| "depth (BinaryOp _ l r) = Suc (max (depth l) (depth r))"
| "depth _ = 0"

lemma fold_max_ge: "x \<in> set xs \<Longrightarrow> x \<le> fold max xs (a::nat)"
proof (induction xs arbitrary: a)
  case (Cons y xs)
  have "b \<le> fold max xs b" for b :: nat
    by (induction xs arbitrary: b) (auto, meson max.cobounded2 order_trans)
  then have "y \<le> fold max xs (max y a)" by (meson max.bounded_iff)
  with Cons show ?case by auto
qed simp

lemma toks_not_Nil [simp]: "toks e \<noteq> []"
  by (induction e) auto

text \<open>A printed operand of the unary level, and the state of the postfix loop after an indexable one.\<close>

definition unary_ok :: "nat \<Rightarrow> expr \<Rightarrow> bool" where
  "unary_ok n e \<longleftrightarrow> (\<forall>rest. stops rest \<longrightarrow>
     parse_unary (parse_or_fuel n) (toks e @ rest) = Ok (e, rest))"

definition postfix_ok :: "nat \<Rightarrow> expr \<Rightarrow> bool" where
  "postfix_ok n e \<longleftrightarrow> (\<forall>rest. (rest = [] \<or> hd rest \<noteq> T_LParen) \<longrightarrow>
     hd (toks e) \<noteq> T_Not \<and>
     (\<exists>k. parse_postfix (parse_or_fuel n) (toks e @ rest) = postfix_loop (Suc (length rest + k)) (parse_or_fuel n) e rest))"

lemma unary_of_postfix: "postfix_ok n e \<Longrightarrow> unary_ok n e"
  unfolding unary_ok_def
proof (intro allI impI)
  fix rest
  assume p: "postfix_ok n e" and s: "stops rest"
  then have "rest = [] \<or> hd rest \<noteq> T_LParen" by (auto simp: stops_def)
  with p obtain k where k: "hd (toks e) \<noteq> T_Not" "parse_postfix (parse_or_fuel n) (toks e @ rest) =
      postfix_loop (Suc (length rest + k)) (parse_or_fuel n) e rest"
    unfolding postfix_ok_def by blast
  obtain t r where t: "toks e = t # r" by (cases "toks e") auto
  have "postfix_loop (Suc (length rest + k)) (parse_or_fuel n) e rest = Ok (e, rest)"
    using s by (cases rest) (auto simp: stops_def)
  with k t show "parse_unary (parse_or_fuel n) (toks e @ rest) = Ok (e, rest)" by simp
qed

lemma or_of_unary: "unary_ok n e \<Longrightarrow> closes rest \<Longrightarrow> parse_or_fuel (Suc n) (toks e @ rest) = Ok (e, rest)"
  using closes_stops by (auto simp: unary_ok_def intro: parse_or_of_unary)

lemma or_of_binary:
  "unary_ok n l \<Longrightarrow> unary_ok n r \<Longrightarrow> closes rest \<Longrightarrow>
   parse_or_fuel (Suc n) (toks l @ op_token op # toks r @ rest) = Ok (BinaryOp op l r, rest)"
proof -
  assume a: "unary_ok n l" "unary_ok n r" "closes rest"
  have "stops (op_token op # toks r @ rest)" by (cases op) (auto simp: stops_def)
  with a have "parse_unary (parse_or_fuel n) (toks l @ op_token op # toks r @ rest) =
      Ok (l, op_token op # toks r @ rest)"
    by (auto simp: unary_ok_def)
  moreover have "parse_unary (parse_or_fuel n) (toks r @ rest) = Ok (r, rest)"
    using a closes_stops by (auto simp: unary_ok_def)
  moreover have "length rest < length (toks r @ rest)" by simp
  ultimately show ?thesis using a(3) by (auto intro: parse_or_of_binary)
qed

lemma parse_args_loop_tokens:
  assumes "\<And>e. e \<in> set es \<Longrightarrow> unary_ok n e" and "length es < k"
  shows "parse_args_loop k (parse_or_fuel (Suc n)) acc
           (concat (map (\<lambda>e. T_Comma # toks e) es) @ T_RParen # rest) = Ok (acc @ es, T_RParen # rest)"
  using assms
proof (induction es arbitrary: k acc)
  case Nil
  then show ?case by (cases k) auto
next
  case (Cons e es)
  then obtain k' where k: "k = Suc k'" by (cases k) auto
  let ?rest = "concat (map (\<lambda>e. T_Comma # toks e) es) @ T_RParen # rest"
  have "closes ?rest" by (cases es) (auto simp: closes_def)
  then have "parse_or_fuel (Suc n) (toks e @ ?rest) = Ok (e, ?rest)"
    using Cons.prems(1) [of e] or_of_unary [of n e ?rest] by (simp del: parse_or_fuel.simps)
  with Cons show ?case by (simp add: k del: parse_or_fuel.simps)
qed

lemma join_tokens_concat: "join_tokens (x # xs) = x @ concat (map ((#) T_Comma) xs)"
  by (induction xs arbitrary: x) auto

lemma parse_args_tokens:
  assumes "\<And>e. e \<in> set es \<Longrightarrow> unary_ok n e"
  shows "parse_args (parse_or_fuel (Suc n)) (join_tokens (map toks es) @ T_RParen # rest) =
           Ok (es, T_RParen # rest)"
proof (cases es)
  case Nil
  then show ?thesis by (simp add: parse_args_def)
next
  case (Cons e es')
  let ?r = "concat (map (\<lambda>e. T_Comma # toks e) es') @ T_RParen # rest"
  have eq: "join_tokens (map toks es) @ T_RParen # rest = toks e @ ?r"
    by (simp add: Cons join_tokens_concat comp_def)
  have "closes ?r" by (cases es') (auto simp: closes_def)
  then have p: "parse_or_fuel (Suc n) (toks e @ ?r) = Ok (e, ?r)"
    using assms [of e] Cons or_of_unary [of n e ?r] by (simp del: parse_or_fuel.simps)
  have first: "hd (toks e @ ?r) \<noteq> T_RParen"
  proof
    assume "hd (toks e @ ?r) = T_RParen"
    then obtain ts where "toks e @ ?r = T_RParen # ts" by (cases "toks e") auto
    with p have "parse_or_fuel (Suc n) (T_RParen # ts) = Ok (e, ?r)" by simp
    then show False
      by (simp add: parse_or_def parse_and_def parse_equality_def parse_comparison_def
          binary_level_def parse_postfix_def parse_primary_def)
  qed
  have "length es' \<le> length ?r" by (induction es') auto
  then show ?thesis
    unfolding eq parse_args_def
    using p first assms Cons
      parse_args_loop_tokens [of es' n "Suc (length ?r)" "[e]" rest]
    by (simp del: parse_or_fuel.simps parse_args_loop.simps)
qed

lemma unary_ok_literal: "printable_literal v \<Longrightarrow> unary_ok n (Literal v)"
  unfolding unary_ok_def
proof (intro allI impI)
  fix rest
  assume "printable_literal v" "stops rest"
  then show "parse_unary (parse_or_fuel n) (toks (Literal v) @ rest) = Ok (Literal v, rest)"
    by (cases v; cases rest) (auto simp: parse_postfix_def parse_primary_def stops_def)
qed

text \<open>A phrase that is a complete primary expression.\<close>

lemma postfix_ok_primary:
  assumes "\<And>rest. rest = [] \<or> hd rest \<noteq> T_LParen \<Longrightarrow>
      parse_primary (parse_or_fuel n) (toks e @ rest) = Ok (e, rest)"
    and "hd (toks e) \<noteq> T_Not" "\<not> is_literal_token (hd (toks e))"
  shows "postfix_ok n e"
  unfolding postfix_ok_def
  using assms by (auto simp: parse_postfix_def simp del: postfix_loop.simps intro!: exI [of _ 0])

text \<open>A postfix phrase extended by one more access.\<close>

lemma postfix_ok_extend:
  assumes obj: "postfix_ok n obj" and toks: "toks e = toks obj @ suf"
    and suf: "suf = t # ts" "t \<noteq> T_LParen"
    and step: "\<And>k rest. postfix_loop (Suc k) (parse_or_fuel n) obj (suf @ rest) = postfix_loop k (parse_or_fuel n) e rest"
  shows "postfix_ok n e"
  unfolding postfix_ok_def
proof (intro allI impI conjI)
  fix rest :: "token list"
  show "hd (toks e) \<noteq> T_Not"
    using obj [unfolded postfix_ok_def, rule_format, of "[]"] by (simp add: toks)
  from obj [unfolded postfix_ok_def, rule_format, of "suf @ rest"] suf obtain k where
    "parse_postfix (parse_or_fuel n) (toks obj @ suf @ rest) =
     postfix_loop (Suc (length (suf @ rest) + k)) (parse_or_fuel n) obj (suf @ rest)"
    by auto
  then show "\<exists>k. parse_postfix (parse_or_fuel n) (toks e @ rest) =
      postfix_loop (Suc (length rest + k)) (parse_or_fuel n) e rest"
    unfolding step by (intro exI [of _ "length ts + k"]) (simp add: toks suf ac_simps del: postfix_loop.simps)
qed

lemma postfix_ok_property: "postfix_ok n obj \<Longrightarrow> postfix_ok n (PropertyAccess obj p)"
  by (rule postfix_ok_extend [of n obj _ "[T_Dot, T_Ident p]"]) (auto simp: parse_dot_access_def)

lemma postfix_ok_wildcard: "postfix_ok n obj \<Longrightarrow> postfix_ok n (WildcardAccess obj)"
  by (rule postfix_ok_extend [of n obj _ "[T_Dot, T_Star]"]) (auto simp: parse_dot_access_def)

lemma postfix_ok_index:
  assumes "postfix_ok (Suc m) obj" and i: "unary_ok m i"
  shows "postfix_ok (Suc m) (IndexAccess obj i)"
proof (rule postfix_ok_extend [of "Suc m" obj _ "T_LBracket # toks i @ [T_RBracket]"])
  have star: "hd (toks i) \<noteq> T_Star"
  proof
    assume "hd (toks i) = T_Star"
    then obtain ts where "toks i = T_Star # ts" by (cases "toks i") auto
    with i [unfolded unary_ok_def, rule_format, of "[]"] show False
      by (simp add: stops_def parse_postfix_def parse_primary_def)
  qed
  fix k rest
  have "parse_or_fuel (Suc m) (toks i @ T_RBracket # rest) = Ok (i, T_RBracket # rest)"
    using or_of_unary [OF i, of "T_RBracket # rest"] by (simp add: closes_def del: parse_or_fuel.simps)
  then have "parse_bracket_access (parse_or_fuel (Suc m)) obj (toks i @ T_RBracket # rest) =
      Ok (IndexAccess obj i, rest)"
    using star by (simp add: parse_bracket_access_def expect_token_def)
  then show "postfix_loop (Suc k) (parse_or_fuel (Suc m)) obj ((T_LBracket # toks i @ [T_RBracket]) @ rest) =
      postfix_loop k (parse_or_fuel (Suc m)) (IndexAccess obj i) rest"
    by (simp del: parse_or_fuel.simps)
qed (use assms in auto)

lemma postfix_ok_call:
  "(\<And>e. e \<in> set args \<Longrightarrow> unary_ok m e) \<Longrightarrow> postfix_ok (Suc m) (FunctionCall name args)"
  using parse_args_tokens [of args m]
  by (intro postfix_ok_primary)
     (simp_all add: parse_primary_def parse_ident_expr_def expect_token_def del: parse_or_fuel.simps)

lemma postfix_ok_group:
  "unary_ok m l \<Longrightarrow> unary_ok m r \<Longrightarrow> postfix_ok (Suc m) (BinaryOp op l r)"
proof (rule postfix_ok_primary)
  fix rest
  assume "unary_ok m l" "unary_ok m r"
  then show "parse_primary (parse_or_fuel (Suc m)) (toks (BinaryOp op l r) @ rest) = Ok (BinaryOp op l r, rest)"
    using or_of_binary [of m l r "T_RParen # rest"]
    by (simp add: parse_primary_def closes_def expect_token_def del: parse_or_fuel.simps)
qed auto

lemma postfix_ok_context: "postfix_ok n (Context name)"
  by (rule postfix_ok_primary) (auto simp: parse_primary_def parse_ident_expr_def split: list.splits)

lemma parse_tokens_printed:
  "printable e \<Longrightarrow> depth e \<le> n \<Longrightarrow> if indexable e then postfix_ok n e else unary_ok n e"
proof (induction e arbitrary: n)
  case (IndexAccess obj i)
  then obtain m where m: "n = Suc m" "depth i \<le> m" by (cases n) auto
  with IndexAccess.IH(2) [of m] IndexAccess.prems have "unary_ok m i"
    by (auto intro: unary_of_postfix split: if_splits)
  with IndexAccess m show ?case by (auto intro: postfix_ok_index)
next
  case (FunctionCall name args)
  then obtain m where m: "n = Suc m" by (cases n) auto
  have "unary_ok m e" if "e \<in> set args" for e
  proof -
    have "depth e \<le> fold max (map depth args) 0" using that by (intro fold_max_ge) auto
    then show ?thesis
      using FunctionCall.IH [OF that, of m] FunctionCall.prems that m
      by (auto simp: list_all_iff intro: unary_of_postfix split: if_splits)
  qed
  with m show ?case by (auto intro: postfix_ok_call)
next
  case (UnaryOp op e)
  with UnaryOp.IH [of n] have "unary_ok n e" by (auto intro: unary_of_postfix split: if_splits)
  then show ?case by (cases op) (auto simp: unary_ok_def)
next
  case (BinaryOp op l r)
  then obtain m where m: "n = Suc m" "depth l \<le> m" "depth r \<le> m" by (cases n) auto
  with BinaryOp.IH(1) [of m] BinaryOp.IH(2) [of m] BinaryOp.prems have "unary_ok m l" "unary_ok m r"
    by (auto intro: unary_of_postfix split: if_splits)
  with m show ?case by (auto intro: postfix_ok_group)
qed (auto intro: unary_ok_literal postfix_ok_context postfix_ok_property postfix_ok_wildcard)

lemma length_join_tokens_ge: "x \<in> set xs \<Longrightarrow> length x \<le> length (join_tokens xs)"
  by (induction xs rule: join_tokens.induct) auto

lemma fold_max_le: "(\<And>x. x \<in> set xs \<Longrightarrow> x \<le> b) \<Longrightarrow> a \<le> b \<Longrightarrow> fold max xs a \<le> (b::nat)"
  by (induction xs arbitrary: a) auto

lemma depth_le_tokens: "depth e \<le> length (toks e)"
proof (induction e)
  case (FunctionCall name args)
  have "depth a \<le> length (join_tokens (map toks args))" if "a \<in> set args" for a
    using FunctionCall.IH [OF that] length_join_tokens_ge [of "toks a" "map toks args"] that by simp
  then have "fold max (map depth args) 0 \<le> length (join_tokens (map toks args))"
    by (intro fold_max_le) auto
  then show ?case by simp
qed auto

theorem parse_printed_tokens: "printable e \<Longrightarrow> parse_tokens (toks e) = Ok e"
proof -
  assume "printable e"
  with parse_tokens_printed [OF this depth_le_tokens] have "unary_ok (length (toks e)) e"
    by (auto intro: unary_of_postfix split: if_splits)
  from or_of_unary [OF this, of "[]"] show ?thesis
    by (simp add: parse_tokens_def closes_def del: parse_or_fuel.simps)
qed

subsection \<open>Lexing the printed text\<close>

text \<open>\<open>emits s ts prev r\<close>: in front of \<open>r\<close>, the text \<open>s\<close> lexes to exactly the tokens \<open>ts\<close>.\<close>

definition emits :: "token option \<Rightarrow> string \<Rightarrow> token list \<Rightarrow> string \<Rightarrow> bool" where
  "emits prev s ts r \<longleftrightarrow>
     lex_from prev (s @ r) =
       rbind (lex_from (if ts = [] then prev else Some (last ts)) r) (\<lambda>us. Ok (ts @ us))"

lemma emits_append:
  assumes "emits prev s ts (s' @ r)" "emits (if ts = [] then prev else Some (last ts)) s' ts' r"
  shows "emits prev (s @ s') (ts @ ts') r"
  using assms by (auto simp: emits_def rbind_assoc)

lemma emits_space: "emits prev '' '' [] r"
  by (cases "lex_from prev r") (auto simp: emits_def lex_from.simps(2) is_ascii_whitespace_def)

lemma emits_append2:
  "emits prev s ts (s' @ r) \<Longrightarrow> ts \<noteq> [] \<Longrightarrow> emits (Some (last ts)) s' ts' r \<Longrightarrow> emits prev (s @ s') (ts @ ts') r"
  using emits_append [of prev s ts s' r ts'] by simp

lemma emits_skip: "emits prev s ts r \<Longrightarrow> emits prev ('' '' @ s) ts r"
  using emits_append [of prev "'' ''" "[]" s r ts] emits_space by simp

lemma emits_operator:
  assumes "c \<noteq> CHR 0x27" "\<not> is_ascii_whitespace c" "\<not> is_number_start c prev" "\<not> is_ident_start c"
    and "lex_operator (c # s @ r) = Ok (t, r)"
  shows "emits prev (c # s) [t] r"
  using assms by (auto simp: emits_def lex_from.simps(2))

lemma emits_punct:
  "emits prev ''('' [T_LParen] r" "emits prev '')'' [T_RParen] r"
  "emits prev ''['' [T_LBracket] r" "emits prev '']'' [T_RBracket] r"
  "emits prev '','' [T_Comma] r" "emits prev ''*'' [T_Star] r"
  by (rule emits_operator; simp add: ascii_simps is_number_start_def is_ident_start_def)+

lemma emits_dot:
  "prev \<in> Some ` {T_RParen, T_RBracket, T_Star} \<or> (\<exists>s. prev = Some (T_Ident s)) \<Longrightarrow> emits prev ''.'' [T_Dot] r"
  by (rule emits_operator; auto simp: ascii_simps is_number_start_def is_ident_start_def)

lemma emits_not: "r = [] \<or> hd r \<noteq> CHR ''='' \<Longrightarrow> emits prev ''!'' [T_Not] r"
  by (rule emits_operator; cases r; simp add: ascii_simps is_number_start_def is_ident_start_def)

lemma emits_binary: "emits prev (operator op) [op_token op] (CHR '' '' # r)"
  by (cases op)
     (auto intro!: emits_operator simp: ascii_simps is_number_start_def is_ident_start_def)

lemma ident_start_facts:
  "is_ident_start c \<Longrightarrow> c \<noteq> CHR 0x27 \<and> \<not> is_ascii_whitespace c \<and> \<not> is_number_start c prev"
  by (auto simp: is_ident_start_def is_number_start_def ascii_simps)

lemma emits_ident:
  assumes "ident s" "r = [] \<or> \<not> is_ident_continue (hd r)"
  shows "emits prev s [if prev = Some T_Dot then T_Ident s else keyword_or_ident s] r"
proof -
  obtain c s' where s: "s = c # s'" "is_ident_start c" using assms(1) by (cases s) (auto simp: ident_def)
  have "takeWhile is_ident_continue (s @ r) = s" "dropWhile is_ident_continue (s @ r) = r"
    using assms by (auto simp: ident_def list_all_iff takeWhile_append2 dropWhile_append2)
      (cases r; simp)+
  then have "lex_ident (c # s' @ r) = (s, r)" by (simp add: lex_ident_def s)
  then show ?thesis
    using ident_start_facts [OF s(2), of prev] s
    by (simp add: emits_def lex_from.simps(2) Let_def)
qed

lemma lex_string_bytes_quoted:
  "r = [] \<or> hd r \<noteq> CHR 0x27 \<Longrightarrow> lex_string_bytes (quote_string s @ CHR 0x27 # r) = Ok (s, r)"
proof (induction s)
  case Nil
  then show ?case by (cases r) (auto simp: quote_string_def)
next
  case (Cons c s)
  then show ?case by (auto simp: quote_string_def)
qed

lemma emits_string:
  assumes "valid_utf8 s" "r = [] \<or> hd r \<noteq> CHR 0x27"
  shows "emits prev (literal (Str s)) [T_StringLit s] r"
  using assms lex_string_bytes_quoted [of r s]
  by (simp add: emits_def lex_from.simps(2) lex_string_def is_ascii_whitespace_def)

lemma emits_number:
  assumes "exact_number n" "r = [] \<or> is_number_stop (hd r)"
  shows "emits prev (format_number n) [T_NumberLit n] r"
proof -
  let ?t = "format_number n"
  obtain c t where t: "?t = c # t" "is_ascii_digit c \<or> c = CHR ''-''"
    using assms(1) by (cases ?t) (auto simp: exact_number_def Let_def)
  have all: "\<forall>c \<in> set ?t. \<not> is_number_stop c \<and> ord c < 128" and p: "parse_number_checked ?t = Ok n"
    using assms(1) by (auto simp: exact_number_def Let_def list_all_iff)
  have "takeWhile (\<lambda>c. \<not> is_number_stop c) (?t @ r) = ?t" "dropWhile (\<lambda>c. \<not> is_number_stop c) (?t @ r) = r"
    using all assms(2) by (auto simp: takeWhile_append2 dropWhile_append2) (cases r; simp)+
  then have "lex_number (?t @ r) = Ok (n, r)"
    using valid_utf8_ascii [of ?t] all p by (simp add: lex_number_def)
  moreover have "c \<noteq> CHR 0x27" "\<not> is_ascii_whitespace c" "is_number_start c prev"
    using t(2) by (auto simp: ascii_simps is_number_start_def)
  ultimately show ?thesis by (simp add: emits_def lex_from.simps(2) t(1))
qed

lemma emits_keyword:
  assumes "ident s" "keyword_or_ident s = t" "prev \<noteq> Some T_Dot" "r = [] \<or> \<not> is_ident_continue (hd r)"
  shows "emits prev s [t] r"
  using emits_ident [OF assms(1,4), of prev] assms(2,3) by simp

text \<open>What follows an operand in printed text.\<close>

definition follows :: "expr \<Rightarrow> string \<Rightarrow> bool" where
  "follows e r \<longleftrightarrow> r = [] \<or> hd r \<in> {CHR '']'', CHR '')'', CHR '','', CHR '' ''}
     \<or> indexable e \<and> hd r \<in> {CHR ''.'', CHR ''[''}"

lemma follows_facts:
  assumes "follows e r"
  shows "r = [] \<or> \<not> is_ident_continue (hd r)" "r = [] \<or> hd r \<noteq> CHR 0x27"
    and "indexable e \<or> r = [] \<or> is_number_stop (hd r)"
  using assms by (auto simp: follows_def is_ident_continue_def is_number_stop_def ascii_simps)

lemma last_token:
  "indexable e \<Longrightarrow> last (toks e) \<in> {T_RParen, T_RBracket, T_Star} \<or> (\<exists>s. last (toks e) = T_Ident s)"
  by (cases e) auto

lemma literal_first: "printable_literal v \<Longrightarrow> literal v \<noteq> [] \<and> hd (literal v) \<noteq> CHR ''=''"
  by (cases v) (auto simp: exact_number_def Let_def ascii_simps)

lemma ident_first: "ident s \<Longrightarrow> s \<noteq> [] \<and> hd s \<noteq> CHR ''=''"
  by (cases s) (auto simp: ident_def is_ident_start_def ascii_simps)

lemma expression_first: "printable e \<Longrightarrow> to_expression e \<noteq> [] \<and> hd (to_expression e) \<noteq> CHR ''=''"
  by (induction e) (auto simp: literal_first plain_ident_def ident_first split: option.splits)

lemma emits_literal:
  assumes "printable_literal v" "prev \<noteq> Some T_Dot" "follows (Literal v) r"
  shows "emits prev (literal v) [literal_token v] r"
proof (cases v)
  case Null
  then show ?thesis
    using assms follows_facts(1) [OF assms(3)]
    by (auto intro!: emits_keyword simp: ident_def is_ident_start_def is_ident_continue_def ascii_simps
        keyword_or_ident_def)
next
  case (Bool b)
  then show ?thesis
    using assms follows_facts(1) [OF assms(3)]
    by (cases b) (auto intro!: emits_keyword simp: ident_def is_ident_start_def is_ident_continue_def
        ascii_simps keyword_or_ident_def)
next
  case (Num n)
  then show ?thesis
    using assms follows_facts(3) [OF assms(3)] by (auto intro: emits_number)
next
  case (Str s)
  then show ?thesis
    using assms follows_facts(2) [OF assms(3)] emits_string [of s r prev] by simp
qed (use assms(1) in auto)

lemma emits_args:
  assumes "\<And>e prev r. e \<in> set (a # es) \<Longrightarrow> prev \<noteq> Some T_Dot \<Longrightarrow> follows e r \<Longrightarrow>
      emits prev (to_expression e) (toks e) r"
    and "prev \<noteq> Some T_Dot"
  shows "emits prev (join_str '', '' (map to_expression (a # es))) (join_tokens (map toks (a # es))) (CHR '')'' # r)"
  using assms
proof (induction es arbitrary: a prev)
  case Nil
  then show ?case by (simp add: follows_def)
next
  case (Cons b es)
  let ?s = "join_str '', '' (map to_expression (b # es))"
  have "emits (Some T_Comma) ?s (join_tokens (map toks (b # es))) (CHR '')'' # r)"
    using Cons.IH [of b "Some T_Comma"] Cons.prems(1) by simp
  then have "emits (Some T_Comma) ('' '' @ ?s) (join_tokens (map toks (b # es))) (CHR '')'' # r)"
    by (rule emits_skip)
  then have "emits (Some (last (toks a))) ('','' @ '' '' @ ?s)
      ([T_Comma] @ join_tokens (map toks (b # es))) (CHR '')'' # r)"
    by - (rule emits_append2, rule emits_punct, simp, simp)
  moreover have "emits prev (to_expression a) (toks a) (('','' @ '' '' @ ?s) @ CHR '')'' # r)"
    using Cons.prems by (auto simp: follows_def)
  ultimately have "emits prev (to_expression a @ '','' @ '' '' @ ?s)
      (toks a @ [T_Comma] @ join_tokens (map toks (b # es))) (CHR '')'' # r)"
    by - (rule emits_append2, assumption, simp, simp)
  then show ?case by simp
qed

lemma emits_expr:
  "printable e \<Longrightarrow> prev \<noteq> Some T_Dot \<Longrightarrow> follows e r \<Longrightarrow> emits prev (to_expression e) (toks e) r"
proof (induction e arbitrary: prev r)
  case (Literal v)
  then show ?case by (simp add: emits_literal)
next
  case (Context name)
  then show ?case
    using follows_facts(1) [OF Context.prems(3)] by (auto intro!: emits_keyword simp: plain_ident_def)
next
  case (PropertyAccess obj p)
  have "emits (Some T_Dot) p [T_Ident p] r"
    using emits_ident [of p r "Some T_Dot"] follows_facts(1) [OF PropertyAccess.prems(3)] PropertyAccess.prems
    by simp
  then have "emits (Some (last (toks obj))) (''.'' @ p) ([T_Dot] @ [T_Ident p]) r"
    using last_token [of obj] PropertyAccess.prems
    by - (rule emits_append2, rule emits_dot, auto)
  moreover have "emits prev (to_expression obj) (toks obj) ((''.'' @ p) @ r)"
    using PropertyAccess by (auto simp: follows_def)
  ultimately have "emits prev (to_expression obj @ ''.'' @ p) (toks obj @ [T_Dot] @ [T_Ident p]) r"
    by - (rule emits_append2, assumption, simp, simp)
  then show ?case by simp
next
  case (WildcardAccess obj)
  have "emits (Some (last (toks obj))) (''.'' @ ''*'') ([T_Dot] @ [T_Star]) r"
    using last_token [of obj] WildcardAccess.prems by - (rule emits_append2, rule emits_dot, auto intro: emits_punct)
  moreover have "emits prev (to_expression obj) (toks obj) ((''.'' @ ''*'') @ r)"
    using WildcardAccess by (auto simp: follows_def)
  ultimately have "emits prev (to_expression obj @ ''.'' @ ''*'') (toks obj @ [T_Dot] @ [T_Star]) r"
    by - (rule emits_append2, assumption, simp, simp)
  then show ?case by simp
next
  case (IndexAccess obj i)
  have "emits (Some T_LBracket) (to_expression i @ '']'') (toks i @ [T_RBracket]) r"
    using IndexAccess by - (rule emits_append2, auto simp: follows_def intro: emits_punct)
  then have "emits (Some (last (toks obj))) (''['' @ to_expression i @ '']'') ([T_LBracket] @ toks i @ [T_RBracket]) r"
    by - (rule emits_append2, rule emits_punct, simp, simp)
  moreover have "emits prev (to_expression obj) (toks obj) ((''['' @ to_expression i @ '']'') @ r)"
    using IndexAccess by (auto simp: follows_def)
  ultimately have "emits prev (to_expression obj @ ''['' @ to_expression i @ '']'')
      (toks obj @ [T_LBracket] @ toks i @ [T_RBracket]) r"
    by - (rule emits_append2, assumption, simp, simp)
  with IndexAccess.prems show ?case by simp
next
  case (FunctionCall name args)
  let ?s = "join_str '', '' (map to_expression args)" and ?ts = "join_tokens (map toks args)"
  have "emits (Some T_LParen) (?s @ '')'') (?ts @ [T_RParen]) r"
  proof (cases args)
    case Nil
    then show ?thesis using emits_punct(2) by simp
  next
    case (Cons a es)
    then show ?thesis
      using emits_args [of a es "Some T_LParen" r] FunctionCall
      by - (rule emits_append2, auto simp: list_all_iff join_tokens_concat intro: emits_punct)
  qed
  then have "emits (Some (T_Ident name)) (''('' @ ?s @ '')'') ([T_LParen] @ ?ts @ [T_RParen]) r"
    by - (rule emits_append2, rule emits_punct, simp, simp)
  moreover have "emits prev name [T_Ident name] ((''('' @ ?s @ '')'') @ r)"
    using FunctionCall.prems
    by (intro emits_keyword) (auto simp: plain_ident_def is_ident_continue_def ascii_simps)
  ultimately have "emits prev (name @ ''('' @ ?s @ '')'') ([T_Ident name] @ [T_LParen] @ ?ts @ [T_RParen]) r"
    by - (rule emits_append2, assumption, simp, simp)
  then show ?case by simp
next
  case (UnaryOp op e)
  have "emits (Some T_Not) (to_expression e) (toks e) r"
    using UnaryOp by (auto simp: follows_def)
  then have "emits prev (''!'' @ to_expression e) ([T_Not] @ toks e) r"
    using expression_first [of e] UnaryOp.prems
    by - (rule emits_append2, rule emits_not, auto simp: hd_append)
  then show ?case by simp
next
  case (BinaryOp op l x)
  have "emits (Some (op_token op)) (to_expression x @ '')'') (toks x @ [T_RParen]) r"
    using BinaryOp by - (rule emits_append2, cases op, auto simp: follows_def intro: emits_punct)
  then have "emits (Some (op_token op)) ('' '' @ to_expression x @ '')'') (toks x @ [T_RParen]) r"
    by (rule emits_skip)
  then have "emits (Some (last (toks l))) (operator op @ '' '' @ to_expression x @ '')'')
      ([op_token op] @ toks x @ [T_RParen]) r"
    by - (rule emits_append2, auto intro: emits_binary)
  then have "emits (Some (last (toks l))) ('' '' @ operator op @ '' '' @ to_expression x @ '')'')
      ([op_token op] @ toks x @ [T_RParen]) r"
    by (rule emits_skip)
  moreover have "emits (Some T_LParen) (to_expression l) (toks l)
      (('' '' @ operator op @ '' '' @ to_expression x @ '')'') @ r)"
    using BinaryOp by (auto simp: follows_def)
  ultimately have "emits (Some T_LParen) (to_expression l @ '' '' @ operator op @ '' '' @ to_expression x @ '')'')
      (toks l @ [op_token op] @ toks x @ [T_RParen]) r"
    by - (rule emits_append2, assumption, simp, simp)
  then have "emits prev (''('' @ to_expression l @ '' '' @ operator op @ '' '' @ to_expression x @ '')'')
      ([T_LParen] @ toks l @ [op_token op] @ toks x @ [T_RParen]) r"
    by - (rule emits_append2, rule emits_punct, simp, simp)
  then show ?case by simp
qed

lemma lex_printed: "printable e \<Longrightarrow> lex (to_expression e) = Ok (toks e)"
  using emits_expr [of e None "[]"] by (simp add: emits_def lex_def follows_def)

lemma exact_number_int: "\<bar>i\<bar> < 10 ^ 15 \<Longrightarrow> exact_number (f64_of_int i)"
proof -
  assume "\<bar>i\<bar> < 10 ^ 15"
  then have f: "format_number (f64_of_int i) = show_int i" by (rule format_f64_of_int)
  have "is_ascii_digit c \<or> c = CHR ''-''" if "c \<in> set (show_int i)" for c
    using that show_nat_digits by (auto simp: show_int_def split: if_splits)
  moreover have "show_int i \<noteq> []" by (simp add: show_int_def)
  ultimately have "is_ascii_digit (hd (show_int i)) \<or> hd (show_int i) = CHR ''-''"
    "list_all (\<lambda>c. \<not> is_number_stop c \<and> ord c < 128) (show_int i)"
    by (auto simp: list_all_iff is_number_stop_def ascii_simps) fastforce+
  then show ?thesis
    using \<open>show_int i \<noteq> []\<close> by (simp add: exact_number_def f parse_show_int Let_def)
qed



end
