(* ===== verification/Hash_Files.thy ===== *)
theory Hash_Files
  imports Expr_Lexer "HOL-Library.List_Lexorder" "HOL-Library.Char_ord"
begin

text \<open>
  The \<open>hashFiles()\<close> function: pattern parsing, search roots, traversal and digest folding of
  \<open>functions/hash.rs\<close> and \<open>functions/glob_walk.rs\<close>. A Unix path is the list of its components,
  the root directory being the component \<open>"/"\<close>. The file system, the \<open>glob\<close> crate's matcher and
  SHA-256 are the fields of the record \<open>hash_env\<close>. The traversal may follow a cycle of symbolic
  links for ever, so \<open>walk\<close> is a partial function and returns no value in that case.
\<close>

type_synonym path = "string list"

datatype file_kind = Directory | Other_file

record hash_env =
  lstat :: "path \<Rightarrow> file_kind option"
  stat :: "path \<Rightarrow> file_kind option"
  read_dir :: "path \<Rightarrow> string list option"
  read_file :: "path \<Rightarrow> string option"
  glob_valid :: "string \<Rightarrow> bool"
  glob_match :: "string \<Rightarrow> path \<Rightarrow> bool"
  sha256 :: "string \<Rightarrow> string"
  to_hex :: "string \<Rightarrow> string"

subsection \<open>Paths\<close>

text \<open>\<open>Path::components\<close>: repeated separators and inner \<open>.\<close> components disappear.\<close>

definition components :: "string \<Rightarrow> path" where
  "components s =
     (let parts = split_char (CHR ''/'') s;
          abs = starts_with s ''/'';
          keep = filter (\<lambda>c. c \<noteq> [] \<and> c \<noteq> ''.'') parts
      in if abs then ''/'' # keep
         else if hd parts = ''.'' then ''.'' # keep else keep)"

definition join_path :: "string \<Rightarrow> string \<Rightarrow> string" where
  "join_path base rel = (if ends_with base ''/'' \<or> base = [] then base @ rel else base @ ''/'' @ rel)"

text \<open>\<open>Path::file_name\<close>: the last component when it is a normal one.\<close>

definition file_name :: "path \<Rightarrow> string option" where
  "file_name p =
     (if p = [] \<or> last p \<in> {''/'', ''.'', ''..''} then None else Some (last p))"

subsection \<open>Patterns\<close>

record hash_pattern =
  glob_text :: string
  negate :: bool
  search_root :: path

definition glob_meta :: "char \<Rightarrow> bool" where
  "glob_meta c \<longleftrightarrow> c \<in> {CHR ''*'', CHR ''?'', CHR ''[''}"

definition literal_prefix :: "path \<Rightarrow> path" where
  "literal_prefix p = takeWhile (\<lambda>c. \<not> list_ex glob_meta c) p"

definition new_pattern :: "hash_env \<Rightarrow> string \<Rightarrow> bool \<Rightarrow> (expr_error, hash_pattern) result" where
  "new_pattern env t neg =
     (if glob_valid env t
      then Ok \<lparr>glob_text = t, negate = neg, search_root = literal_prefix (components t)\<rparr>
      else Err (Hash_invalid_pattern t))"

definition follow_flag :: string where
  "follow_flag = ''--follow-symbolic-links''"

fun split_options :: "string list \<Rightarrow> (expr_error, bool \<times> string list) result" where
  "split_options [] = Ok (False, [])"
| "split_options (first # rest) =
     (if \<not> starts_with first ''--'' then Ok (False, first # rest)
      else if eq_ignore_ascii_case first follow_flag then Ok (True, rest)
      else Err (Hash_invalid_option first))"

function strip_negation_loop :: "bool \<Rightarrow> string \<Rightarrow> bool \<times> string" where
  "strip_negation_loop neg line =
     (case strip_prefix_str ''!'' line of
        Some stripped \<Rightarrow> strip_negation_loop (\<not> neg) (trim stripped)
      | None \<Rightarrow> (neg, line))"
  by pat_completeness auto
termination
proof (relation "measure (\<lambda>(n, l). length l)", goal_cases)
  case (2 neg line stripped)
  then show ?case using trim_length_le [of stripped] by (simp add: strip_prefix_str_Some)
qed simp

declare strip_negation_loop.simps [simp del]

definition strip_negation :: "string \<Rightarrow> bool \<times> string" where
  "strip_negation line = strip_negation_loop False line"

definition reject_relative_segments :: "string \<Rightarrow> (expr_error, unit) result" where
  "reject_relative_segments pattern =
     (let segs = split_char (CHR ''/'') pattern
      in if ''..'' \<in> set segs \<or> ''.'' \<in> set (tl segs) then Err (Hash_relative_segment pattern)
         else Ok ())"

text \<open>\<open>arg.replace("\r\n", "\n").replace('\r', "\n")\<close>.\<close>

fun normalize_newlines :: "string \<Rightarrow> string" where
  "normalize_newlines [] = []"
| "normalize_newlines (c # s) =
     (if c = CHR 0x0D
      then (case s of
              d # s' \<Rightarrow> (if d = CHR 0x0A then CHR 0x0A # normalize_newlines s'
                         else CHR 0x0A # normalize_newlines s)
            | [] \<Rightarrow> [CHR 0x0A])
      else c # normalize_newlines s)"

definition parse_line :: "hash_env \<Rightarrow> string \<Rightarrow> string \<Rightarrow> (expr_error, hash_pattern list) result" where
  "parse_line env workspace line =
     (let (neg, body) = strip_negation (trim line)
      in if body = [] \<or> hd body = CHR ''#'' then Ok []
         else rbind (reject_relative_segments body) (\<lambda>_.
           let absolute = (if hd body = CHR ''/'' then body else join_path workspace body)
           in rbind (new_pattern env absolute neg) (\<lambda>p.
                if file_name (components absolute) = Some ''**'' then Ok [p]
                else rbind (new_pattern env (join_path absolute ''**'') neg) (\<lambda>q. Ok [p, q]))))"

fun collect_results :: "('a \<Rightarrow> (expr_error, 'b list) result) \<Rightarrow> 'a list \<Rightarrow> (expr_error, 'b list) result" where
  "collect_results f [] = Ok []"
| "collect_results f (x # xs) =
     rbind (f x) (\<lambda>ys. rbind (collect_results f xs) (\<lambda>zs. Ok (ys @ zs)))"

definition parse_patterns :: "hash_env \<Rightarrow> string \<Rightarrow> string list \<Rightarrow> (expr_error, hash_pattern list) result" where
  "parse_patterns env workspace args =
     collect_results (parse_line env workspace)
       (concat (map (\<lambda>arg. split_char (CHR 0x0A) (normalize_newlines arg)) args))"

text \<open>A positive match sets the hit, a negated one clears it; the last matching pattern decides.\<close>

definition matches_patterns :: "hash_env \<Rightarrow> hash_pattern list \<Rightarrow> path \<Rightarrow> bool" where
  "matches_patterns env ps path =
     fold (\<lambda>p hit. if glob_match env (glob_text p) path then \<not> negate p else hit) ps False"

subsection \<open>Search roots and traversal\<close>

fun dedup_keep_first :: "path list \<Rightarrow> path list \<Rightarrow> path list" where
  "dedup_keep_first unique [] = unique"
| "dedup_keep_first unique (r # rs) =
     dedup_keep_first (if r \<in> set unique then unique else unique @ [r]) rs"

definition search_roots :: "path list \<Rightarrow> path list" where
  "search_roots roots =
     (let unique = dedup_keep_first [] roots
      in filter (\<lambda>rt. \<not> list_ex (\<lambda>other. other \<noteq> rt \<and> starts_with rt other) unique) unique)"

text \<open>
  The visit closure of \<open>fold_digests\<close>: the digests folded so far, in order, extended by a matched
  regular file's.
\<close>

definition visit :: "hash_env \<Rightarrow> path \<Rightarrow> hash_pattern list \<Rightarrow> path \<Rightarrow> string list
   \<Rightarrow> (expr_error, string list) result" where
  "visit env workspace ps path digests =
     (if \<not> starts_with path workspace \<or> \<not> matches_patterns env ps path then Ok digests
      else case stat env path of
             None \<Rightarrow> Err (Hash_io ''stat'')
           | Some Directory \<Rightarrow> Ok digests
           | Some Other_file \<Rightarrow>
               (case read_file env path of
                  None \<Rightarrow> Err (Hash_io ''read'')
                | Some content \<Rightarrow> Ok (digests @ [sha256 env content])))"

definition metadata :: "hash_env \<Rightarrow> bool \<Rightarrow> path \<Rightarrow> file_kind option" where
  "metadata env follow item = (if follow then stat env item else lstat env item)"

text \<open>
  The depth-first loop; the head of the list is the top of the code's stack, so the sorted
  children go in front.
\<close>

partial_function (option) walk ::
  "hash_env \<Rightarrow> bool \<Rightarrow> (path \<Rightarrow> 's \<Rightarrow> (expr_error, 's) result) \<Rightarrow> path list \<Rightarrow> 's
   \<Rightarrow> (expr_error, 's) result option" where
  "walk env follow visitf stack st =
     (case stack of
        [] \<Rightarrow> Some (Ok st)
      | item # rest \<Rightarrow>
          (case metadata env follow item of
             None \<Rightarrow> walk env follow visitf rest st
           | Some Other_file \<Rightarrow>
               (case visitf item st of
                  Inl e \<Rightarrow> Some (Err e)
                | Inr st' \<Rightarrow> walk env follow visitf rest st')
           | Some Directory \<Rightarrow>
               (case read_dir env item of
                  None \<Rightarrow> Some (Err (Hash_io ''read_dir''))
                | Some names \<Rightarrow>
                    walk env follow visitf (map (\<lambda>name. item @ [name]) (sort names) @ rest) st)))"

fun walk_roots ::
  "hash_env \<Rightarrow> bool \<Rightarrow> (path \<Rightarrow> 's \<Rightarrow> (expr_error, 's) result) \<Rightarrow> path list \<Rightarrow> 's
   \<Rightarrow> (expr_error, 's) result option" where
  "walk_roots env follow visitf [] st = Some (Ok st)"
| "walk_roots env follow visitf (rt # roots) st =
     (case walk env follow visitf [rt] st of
        None \<Rightarrow> None
      | Some (Inl e) \<Rightarrow> Some (Err e)
      | Some (Inr st') \<Rightarrow> walk_roots env follow visitf roots st')"

definition fold_digests ::
  "hash_env \<Rightarrow> string \<Rightarrow> hash_pattern list \<Rightarrow> path list \<Rightarrow> bool \<Rightarrow> (expr_error, string) result option" where
  "fold_digests env workspace ps roots follow =
     map_option (\<lambda>res. rbind res (\<lambda>digests.
         if digests = [] then Ok [] else Ok (to_hex env (sha256 env (concat digests)))))
       (walk_roots env follow (visit env (components workspace) ps) roots [])"

definition hash_files :: "hash_env \<Rightarrow> string \<Rightarrow> string list \<Rightarrow> (expr_error, string) result option" where
  "hash_files env workspace args =
     (case split_options args of
        Inl e \<Rightarrow> Some (Err e)
      | Inr (follow, raw) \<Rightarrow>
          (case parse_patterns env workspace raw of
             Inl e \<Rightarrow> Some (Err e)
           | Inr [] \<Rightarrow> Some (Ok [])
           | Inr ps \<Rightarrow>
               fold_digests env workspace ps
                 (search_roots (map search_root (filter (\<lambda>p. \<not> negate p) ps))) follow))"

end
