(* ===== verification/Expr_Functions.thy ===== *)
theory Expr_Functions
  imports Expr_Format Hash_Files
begin

text \<open>
  The built-in functions of the expression language: \<open>validation.rs\<close> (arity table),
  \<open>functions/builtins.rs\<close> and \<open>functions/json_convert.rs\<close>. The record \<open>externs\<close> holds what the
  functions take from outside the repository: the Unicode table, \<open>serde_json\<close>'s string quoting
  and parser, and the environment of \<open>hashFiles\<close>.
\<close>

subsection \<open>External operations and context\<close>

text \<open>A parsed JSON document; a number carries what \<open>Number::as_f64\<close> returns.\<close>

datatype json =
    J_Null
  | J_Bool bool
  | J_Number "f64 option"
  | J_String string
  | J_Array "json list"
  | J_Object "(string \<times> json) list"

record externs =
  to_uppercase :: "nat \<Rightarrow> nat list"
  json_quote :: "string \<Rightarrow> string"
  json_from_str :: "string \<Rightarrow> json option"
  hash_environment :: hash_env

datatype job_status = Success | Failure | Cancelled

record eval_context =
  contexts :: "(string \<times> expr_value) list"
  job_status :: job_status
  workspace :: "string option"

subsection \<open>Arity\<close>

definition arity :: "string \<Rightarrow> (nat \<times> nat) option" where
  "arity name =
     (let n = to_ascii_lowercase name
      in if n = ''case'' then Some (3, 255)
         else if n \<in> {''contains'', ''startswith'', ''endswith''} then Some (2, 2)
         else if n \<in> {''format'', ''hashfiles''} then Some (1, 255)
         else if n = ''join'' then Some (1, 2)
         else if n \<in> {''tojson'', ''fromjson''} then Some (1, 1)
         else if n \<in> {''success'', ''failure'', ''cancelled'', ''always''} then Some (0, 0)
         else None)"

definition validate_arity :: "string \<Rightarrow> nat \<Rightarrow> (expr_error, unit) result" where
  "validate_arity name count =
     (case arity name of
        None \<Rightarrow> Err (Unknown_function name)
      | Some (mn, mx) \<Rightarrow>
          (if \<not> (mn \<le> count \<and> count \<le> mx) then Err (Wrong_arity name mn mx count)
           else if eq_ignore_ascii_case name ''case'' \<and> even count then Err Case_even_arguments
           else Ok ()))"

subsection \<open>JSON\<close>

definition json_newline :: "nat \<Rightarrow> bool \<Rightarrow> string" where
  "json_newline depth comma =
     (if comma then '','' else []) @ [CHR 0x0A] @ replicate (2 * depth) (CHR '' '')"

fun write_json :: "externs \<Rightarrow> expr_value \<Rightarrow> nat \<Rightarrow> string"
and write_items :: "externs \<Rightarrow> bool \<Rightarrow> expr_value list \<Rightarrow> nat \<Rightarrow> string"
and write_fields :: "externs \<Rightarrow> bool \<Rightarrow> (string \<times> expr_value) list \<Rightarrow> nat \<Rightarrow> string" where
  "write_json X Null depth = ''null''"
| "write_json X (Bool b) depth = coerce_to_string (Bool b)"
| "write_json X (Num n) depth = coerce_to_string (Num n)"
| "write_json X (Str s) depth = json_quote X s"
| "write_json X (Array _ _ vs) depth =
     ''['' @ write_items X False vs depth @ (if vs \<noteq> [] then json_newline depth False else []) @ '']''"
| "write_json X (Object _ kvs) depth =
     ''{'' @ write_fields X False kvs depth @ (if kvs \<noteq> [] then json_newline depth False else []) @ ''}''"
| "write_items X later [] depth = []"
| "write_items X later (v # vs) depth =
     json_newline (depth + 1) later @ write_json X v (depth + 1) @ write_items X True vs depth"
| "write_fields X later [] depth = []"
| "write_fields X later ((k, v) # kvs) depth =
     json_newline (depth + 1) later @ json_quote X k @ '': '' @ write_json X v (depth + 1)
       @ write_fields X True kvs depth"

text \<open>Conversion of a JSON document allocates one identity per array and object, inner ones first.\<close>

fun json_to_expr_value :: "json \<Rightarrow> nat \<Rightarrow> expr_value \<times> nat"
and json_to_values :: "json list \<Rightarrow> nat \<Rightarrow> expr_value list \<times> nat"
and json_to_fields :: "(string \<times> json) list \<Rightarrow> nat \<Rightarrow> (string \<times> expr_value) list \<times> nat" where
  "json_to_expr_value J_Null nxt = (Null, nxt)"
| "json_to_expr_value (J_Bool b) nxt = (Bool b, nxt)"
| "json_to_expr_value (J_Number n) nxt = (Num (case n of Some x \<Rightarrow> x | None \<Rightarrow> f64_zero), nxt)"
| "json_to_expr_value (J_String s) nxt = (Str s, nxt)"
| "json_to_expr_value (J_Array js) nxt =
     (let (vs, nxt') = json_to_values js nxt in (Array nxt' False vs, Suc nxt'))"
| "json_to_expr_value (J_Object kjs) nxt =
     (let (kvs, nxt') = json_to_fields kjs nxt in (Object nxt' (index_collect kvs), Suc nxt'))"
| "json_to_values [] nxt = ([], nxt)"
| "json_to_values (j # js) nxt =
     (let (v, nxt') = json_to_expr_value j nxt; (vs, nxt'') = json_to_values js nxt'
      in (v # vs, nxt''))"
| "json_to_fields [] nxt = ([], nxt)"
| "json_to_fields ((k, j) # kjs) nxt =
     (let (v, nxt') = json_to_expr_value j nxt; (kvs, nxt'') = json_to_fields kjs nxt'
      in ((k, v) # kvs, nxt''))"

definition fn_to_json :: "externs \<Rightarrow> expr_value list \<Rightarrow> (expr_error, expr_value) result" where
  "fn_to_json X args =
     (case args of [v] \<Rightarrow> Ok (Str (write_json X v 0)) | _ \<Rightarrow> Err Missing_argument)"

definition fn_from_json :: "externs \<Rightarrow> expr_value list \<Rightarrow> nat \<Rightarrow> (expr_error, expr_value \<times> nat) result" where
  "fn_from_json X args nxt =
     (case args of
        [v] \<Rightarrow>
          (let s = coerce_to_string v
           in if s = [] then Err Empty_json
              else case json_from_str X s of
                     None \<Rightarrow> Err Json_error
                   | Some j \<Rightarrow> Ok (json_to_expr_value j nxt))
      | _ \<Rightarrow> Err Missing_argument)"

subsection \<open>Built-ins\<close>

definition arg2 :: "expr_value list \<Rightarrow> (expr_error, expr_value \<times> expr_value) result" where
  "arg2 args = (case args of [a, b] \<Rightarrow> Ok (a, b) | _ \<Rightarrow> Err Missing_argument)"

definition fn_contains :: "externs \<Rightarrow> expr_value list \<Rightarrow> (expr_error, expr_value) result" where
  "fn_contains X args =
     rbind (arg2 args) (\<lambda>(search, item).
       case search of
         Array _ _ arr \<Rightarrow> Ok (Bool (list_ex (\<lambda>el. loose_eq (to_uppercase X) el item) arr))
       | Object _ _ \<Rightarrow> Ok (Bool False)
       | _ \<Rightarrow>
           (if \<not> is_primitive item then Ok (Bool False)
            else let haystack = ordinal_upper (to_uppercase X) (coerce_to_string search);
                     needle = ordinal_upper (to_uppercase X) (coerce_to_string item)
                 in Ok (Bool (needle = [] \<or> contains_block haystack needle))))"

definition fn_starts_with :: "externs \<Rightarrow> expr_value list \<Rightarrow> (expr_error, expr_value) result" where
  "fn_starts_with X args =
     rbind (arg2 args) (\<lambda>(a, b).
       if \<not> is_primitive a \<or> \<not> is_primitive b then Ok (Bool False)
       else Ok (Bool (starts_with (ordinal_upper (to_uppercase X) (coerce_to_string a))
                        (ordinal_upper (to_uppercase X) (coerce_to_string b)))))"

definition fn_ends_with :: "externs \<Rightarrow> expr_value list \<Rightarrow> (expr_error, expr_value) result" where
  "fn_ends_with X args =
     rbind (arg2 args) (\<lambda>(a, b).
       if \<not> is_primitive a \<or> \<not> is_primitive b then Ok (Bool False)
       else Ok (Bool (ends_with (ordinal_upper (to_uppercase X) (coerce_to_string a))
                        (ordinal_upper (to_uppercase X) (coerce_to_string b)))))"

definition fn_format :: "expr_value list \<Rightarrow> nat \<Rightarrow> (expr_error, expr_value \<times> nat) result" where
  "fn_format args nxt =
     (case args of
        [] \<Rightarrow> Err Missing_argument
      | t # vs \<Rightarrow> render (coerce_to_string t) (length vs) (value_argument vs) nxt)"

text \<open>\<open>chunks_exact(2)\<close> over predicate/result pairs; the last argument is the default.\<close>

fun case_pairs :: "expr_value list \<Rightarrow> (expr_error, expr_value option) result" where
  "case_pairs (p # r # rest) =
     (case p of
        Bool b \<Rightarrow> (if b then Ok (Some r) else case_pairs rest)
      | _ \<Rightarrow> Err Case_predicate_not_boolean)"
| "case_pairs _ = Ok None"

definition fn_case :: "expr_value list \<Rightarrow> (expr_error, expr_value) result" where
  "fn_case args =
     rbind (case_pairs args) (\<lambda>found.
       case found of
         Some r \<Rightarrow> Ok r
       | None \<Rightarrow> (if args = [] then Err Missing_argument else Ok (last args)))"

definition fn_join :: "expr_value list \<Rightarrow> (expr_error, expr_value) result" where
  "fn_join args =
     (if args = [] \<or> 2 < length args then Err Missing_argument
      else let separator = (if 1 < length args \<and> is_primitive (args ! 1)
                            then coerce_to_string (args ! 1) else '','')
           in case hd args of
                Array _ _ arr \<Rightarrow> Ok (Str (join_str separator (map coerce_to_string arr)))
              | Object _ _ \<Rightarrow> Ok (Str [])
              | v \<Rightarrow> Ok (Str (coerce_to_string v)))"

definition fn_hash_files :: "externs \<Rightarrow> expr_value list \<Rightarrow> eval_context \<Rightarrow> (expr_error, expr_value) result" where
  "fn_hash_files X args ctx =
     (if args = [] then Err Missing_argument
      else case workspace ctx of
             None \<Rightarrow> Err No_workspace
           | Some ws \<Rightarrow>
               (case hash_files (hash_environment X) ws (map coerce_to_string args) of
                  None \<Rightarrow> Err Diverges
                | Some res \<Rightarrow> rbind res (\<lambda>s. Ok (Str s))))"

text \<open>A result that allocates nothing.\<close>

definition pure_result :: "nat \<Rightarrow> (expr_error, expr_value) result \<Rightarrow> (expr_error, expr_value \<times> nat) result" where
  "pure_result nxt res = rbind res (\<lambda>v. Ok (v, nxt))"

definition call_function ::
  "externs \<Rightarrow> string \<Rightarrow> expr_value list \<Rightarrow> eval_context \<Rightarrow> nat \<Rightarrow> (expr_error, expr_value \<times> nat) result" where
  "call_function X name args ctx nxt =
     rbind (validate_arity name (length args)) (\<lambda>_.
       let n = to_ascii_lowercase name
       in if n = ''success'' then Ok (Bool (job_status ctx = Success), nxt)
          else if n = ''failure'' then Ok (Bool (job_status ctx = Failure), nxt)
          else if n = ''always'' then Ok (Bool True, nxt)
          else if n = ''cancelled'' then Ok (Bool (job_status ctx = Cancelled), nxt)
          else if n = ''contains'' then pure_result nxt (fn_contains X args)
          else if n = ''startswith'' then pure_result nxt (fn_starts_with X args)
          else if n = ''endswith'' then pure_result nxt (fn_ends_with X args)
          else if n = ''format'' then fn_format args nxt
          else if n = ''case'' then pure_result nxt (fn_case args)
          else if n = ''join'' then pure_result nxt (fn_join args)
          else if n = ''tojson'' then pure_result nxt (fn_to_json X args)
          else if n = ''fromjson'' then fn_from_json X args nxt
          else if n = ''hashfiles'' then pure_result nxt (fn_hash_files X args ctx)
          else Err (Unknown_function name))"

subsection \<open>A concrete environment\<close>

text \<open>
  An instance of the parameters for concrete runs: ASCII uppercasing, a quoting function without
  escapes, a JSON reader for the three constants, and an empty file system.
\<close>

definition empty_hash_env :: hash_env where
  "empty_hash_env = \<lparr>lstat = (\<lambda>_. None), stat = (\<lambda>_. None), read_dir = (\<lambda>_. None),
     read_file = (\<lambda>_. None), glob_valid = (\<lambda>_. True), glob_match = (\<lambda>_ _. False), sha256 = id, to_hex = id\<rparr>"

definition plain_externs :: externs where
  "plain_externs = \<lparr>to_uppercase = (\<lambda>c. [if 97 \<le> c \<and> c \<le> 122 then c - 32 else c]),
     json_quote = (\<lambda>s. [CHR 0x22] @ s @ [CHR 0x22]),
     json_from_str = (\<lambda>s. if s = ''null'' then Some J_Null else if s = ''true'' then Some (J_Bool True)
       else if s = ''false'' then Some (J_Bool False) else None),
     hash_environment = empty_hash_env\<rparr>"

definition plain_context :: eval_context where
  "plain_context = \<lparr>contexts = [], job_status = Success, workspace = None\<rparr>"

end
