(* ===== verification/Expr_Evaluator.thy ===== *)
theory Expr_Evaluator
  imports Expr_Parser Expr_Functions
begin

text \<open>
  Validation, evaluation and template interpolation: \<open>validation.rs\<close>, \<open>evaluator.rs\<close> and
  \<open>template.rs\<close>. Evaluation threads the counter of array and object identities.
\<close>

subsection \<open>Validation\<close>

fun validate :: "eval_context \<Rightarrow> expr \<Rightarrow> (expr_error, unit) result"
and validate_all :: "eval_context \<Rightarrow> expr list \<Rightarrow> (expr_error, unit) result" where
  "validate ctx (Literal _) = Ok ()"
| "validate ctx (Context name) =
     (if list_ex (\<lambda>(key, _). eq_ignore_ascii_case key name) (contexts ctx) then Ok ()
      else Err (Unknown_named_value name))"
| "validate ctx (PropertyAccess obj _) = validate ctx obj"
| "validate ctx (WildcardAccess obj) = validate ctx obj"
| "validate ctx (IndexAccess obj index) = rbind (validate ctx obj) (\<lambda>_. validate ctx index)"
| "validate ctx (FunctionCall name args) =
     rbind (validate_arity name (length args)) (\<lambda>_. validate_all ctx args)"
| "validate ctx (UnaryOp _ operand) = validate ctx operand"
| "validate ctx (BinaryOp _ left right) = rbind (validate ctx left) (\<lambda>_. validate ctx right)"
| "validate_all ctx [] = Ok ()"
| "validate_all ctx (a # as) = rbind (validate ctx a) (\<lambda>_. validate_all ctx as)"

subsection \<open>Evaluation\<close>

definition resolve_context :: "eval_context \<Rightarrow> string \<Rightarrow> expr_value" where
  "resolve_context ctx name =
     (case find (\<lambda>(k, _). to_ascii_lowercase k = to_ascii_lowercase name) (contexts ctx) of
        Some (_, v) \<Rightarrow> v
      | None \<Rightarrow> Null)"

definition unused_second :: "string \<Rightarrow> expr_value \<Rightarrow> bool" where
  "unused_second name first =
     (let n = to_ascii_lowercase name
      in if n = ''contains''
         then \<not> is_primitive first \<and> \<not> (case first of Array _ _ items \<Rightarrow> items \<noteq> [] | _ \<Rightarrow> False)
         else if n = ''startswith'' \<or> n = ''endswith'' then \<not> is_primitive first
         else if n = ''join''
         then \<not> (case first of Array _ _ items \<Rightarrow> 1 < length items | _ \<Rightarrow> False)
         else False)"

fun eval_comparison :: "externs \<Rightarrow> binary_operator \<Rightarrow> expr_value \<Rightarrow> expr_value \<Rightarrow> (expr_error, expr_value) result" where
  "eval_comparison X Eq_op l r = Ok (Bool (loose_eq (to_uppercase X) l r))"
| "eval_comparison X Neq_op l r = Ok (Bool (\<not> loose_eq (to_uppercase X) l r))"
| "eval_comparison X Lt_op l r = Ok (Bool (ordered (to_uppercase X) l r Less))"
| "eval_comparison X Le_op l r =
     Ok (Bool (loose_eq (to_uppercase X) l r \<or> ordered (to_uppercase X) l r Less))"
| "eval_comparison X Gt_op l r = Ok (Bool (ordered (to_uppercase X) l r Greater))"
| "eval_comparison X Ge_op l r =
     Ok (Bool (loose_eq (to_uppercase X) l r \<or> ordered (to_uppercase X) l r Greater))"
| "eval_comparison X _ l r = Err Unexpected_logical_operator"

text \<open>The part of \<open>eval_binary\<close> after its left operand; \<open>right\<close> evaluates the other one on demand.\<close>

definition eval_binary ::
  "externs \<Rightarrow> binary_operator \<Rightarrow> expr_value \<Rightarrow> (nat \<Rightarrow> (expr_error, expr_value \<times> nat) result) \<Rightarrow> nat
   \<Rightarrow> (expr_error, expr_value \<times> nat) result" where
  "eval_binary X op left_val right nxt =
     (case op of
        And_op \<Rightarrow> (if \<not> is_truthy left_val then Ok (left_val, nxt) else right nxt)
      | Or_op \<Rightarrow> (if is_truthy left_val then Ok (left_val, nxt) else right nxt)
      | _ \<Rightarrow> rbind (right nxt) (\<lambda>(right_val, nxt'). pure_result nxt' (eval_comparison X op left_val right_val)))"

definition eval_unary :: "unary_operator \<Rightarrow> expr_value \<Rightarrow> expr_value" where
  "eval_unary op val = (case op of Not_op \<Rightarrow> Bool (\<not> is_truthy val))"

lemma size_nth_less: "i < length (xs :: expr list) \<Longrightarrow> size (xs ! i) < size_list size xs"
  by (induction xs arbitrary: i) (auto simp: nth_Cons' less_SucI trans_less_add2)

function (sequential) eval_expr ::
  "externs \<Rightarrow> eval_context \<Rightarrow> expr \<Rightarrow> nat \<Rightarrow> (expr_error, expr_value \<times> nat) result"
and eval_args ::
  "externs \<Rightarrow> eval_context \<Rightarrow> string \<Rightarrow> expr_value list \<Rightarrow> expr list \<Rightarrow> nat
   \<Rightarrow> (expr_error, expr_value list \<times> nat) result"
and eval_case_pairs ::
  "externs \<Rightarrow> eval_context \<Rightarrow> expr list \<Rightarrow> nat \<Rightarrow> (expr_error, expr_value \<times> nat) result"
and eval_format ::
  "externs \<Rightarrow> eval_context \<Rightarrow> expr list \<Rightarrow> nat \<Rightarrow> (expr_error, expr_value \<times> nat) result"
where
  "eval_expr X ctx (Literal value) nxt = Ok (value, nxt)"
| "eval_expr X ctx (Context name) nxt = Ok (resolve_context ctx name, nxt)"
| "eval_expr X ctx (PropertyAccess obj property) nxt =
     rbind (eval_expr X ctx obj nxt) (\<lambda>(v, nxt').
       Ok (access (to_uppercase X) v (Some (Str property)) nxt'))"
| "eval_expr X ctx (IndexAccess obj index) nxt =
     rbind (eval_expr X ctx obj nxt) (\<lambda>(v, nxt').
       if is_primitive v then Ok (Null, nxt')
       else rbind (eval_expr X ctx index nxt') (\<lambda>(idx, nxt'').
         Ok (access (to_uppercase X) v (Some idx) nxt'')))"
| "eval_expr X ctx (WildcardAccess obj) nxt =
     rbind (eval_expr X ctx obj nxt) (\<lambda>(v, nxt'). Ok (access (to_uppercase X) v None nxt'))"
| "eval_expr X ctx (FunctionCall name args) nxt =
     (if eq_ignore_ascii_case name ''case'' then
        (if even (length args) then Err Case_even_arguments else eval_case_pairs X ctx args nxt)
      else if eq_ignore_ascii_case name ''format'' then eval_format X ctx args nxt
      else rbind (eval_args X ctx name [] args nxt) (\<lambda>(evaluated, nxt').
             call_function X name evaluated ctx nxt'))"
| "eval_expr X ctx (UnaryOp op operand) nxt =
     rbind (eval_expr X ctx operand nxt) (\<lambda>(v, nxt'). Ok (eval_unary op v, nxt'))"
| "eval_expr X ctx (BinaryOp op left right) nxt =
     rbind (eval_expr X ctx left nxt) (\<lambda>(v, nxt').
       eval_binary X op v (\<lambda>n. eval_expr X ctx right n) nxt')"
| "eval_args X ctx name evaluated [] nxt = Ok (evaluated, nxt)"
| "eval_args X ctx name evaluated (a # as) nxt =
     (if length evaluated = 1 \<and> unused_second name (hd evaluated)
      then eval_args X ctx name (evaluated @ [Null]) as nxt
      else rbind (eval_expr X ctx a nxt) (\<lambda>(v, nxt').
             eval_args X ctx name (evaluated @ [v]) as nxt'))"
| "eval_case_pairs X ctx [] nxt = Err Missing_argument"
| "eval_case_pairs X ctx [d] nxt = eval_expr X ctx d nxt"
| "eval_case_pairs X ctx (p # r # rest) nxt =
     rbind (eval_expr X ctx p nxt) (\<lambda>(v, nxt').
       case v of
         Bool b \<Rightarrow> (if b then eval_expr X ctx r nxt' else eval_case_pairs X ctx rest nxt')
       | _ \<Rightarrow> Err Case_predicate_not_boolean)"
| "eval_format X ctx [] nxt = Err Missing_argument"
| "eval_format X ctx (t # ps) nxt =
     rbind (eval_expr X ctx t nxt) (\<lambda>(template, nxt').
       render (coerce_to_string template) (length ps)
         (\<lambda>i n. if i < length ps then eval_expr X ctx (ps ! i) n else Err Missing_argument) nxt')"
  by pat_completeness auto

termination
proof (relation "measure (\<lambda>x. case x of
    Inl (Inl (X, ctx, e, n)) \<Rightarrow> 2 * size e
  | Inl (Inr (X, ctx, name, ev, as, n)) \<Rightarrow> 2 * size_list size as + 1
  | Inr (Inl (X, ctx, as, n)) \<Rightarrow> 2 * size_list size as + 1
  | Inr (Inr (X, ctx, as, n)) \<Rightarrow> 2 * size_list size as + 1)")
qed (auto dest!: size_nth_less)

definition evaluate :: "externs \<Rightarrow> eval_context \<Rightarrow> string \<Rightarrow> nat \<Rightarrow> (expr_error, expr_value \<times> nat) result" where
  "evaluate X ctx input nxt =
     rbind (parse input) (\<lambda>e. rbind (validate ctx e) (\<lambda>_. eval_expr X ctx e nxt))"

subsection \<open>Templates\<close>

fun expression_end_from :: "bool \<Rightarrow> nat \<Rightarrow> string \<Rightarrow> nat option" where
  "expression_end_from quoted i [] = None"
| "expression_end_from quoted i (b # r) =
     (if b = CHR 0x27
      then (if quoted \<and> r \<noteq> [] \<and> hd r = CHR 0x27
            then expression_end_from quoted (i + 2) (tl r)
            else expression_end_from (\<not> quoted) (i + 1) r)
      else if \<not> quoted \<and> b = CHR ''}'' \<and> r \<noteq> [] \<and> hd r = CHR ''}'' then Some i
      else expression_end_from quoted (i + 1) r)"

definition expression_end :: "string \<Rightarrow> nat option" where
  "expression_end input = expression_end_from False 0 input"

function interpolate_from ::
  "externs \<Rightarrow> eval_context \<Rightarrow> string \<Rightarrow> string \<Rightarrow> nat \<Rightarrow> (expr_error, string \<times> nat) result" where
  "interpolate_from X ctx out rest nxt =
     (case find_str ''${{'' rest of
        None \<Rightarrow> Ok (out @ rest, nxt)
      | Some start \<Rightarrow>
          (let after_open = drop (start + 3) rest
           in case expression_end after_open of
                None \<Rightarrow> Err Unclosed_expression
              | Some e \<Rightarrow>
                  (case evaluate X ctx (trim (take e after_open)) nxt of
                     Inl err \<Rightarrow> Err err
                   | Inr (v, nxt') \<Rightarrow>
                       interpolate_from X ctx (out @ take start rest @ coerce_to_string v)
                         (drop (e + 2) after_open) nxt')))"
  by pat_completeness auto
termination
proof (relation "measure (\<lambda>(X, ctx, out, rest, n). length rest)", goal_cases)
  case (2 X ctx out rest nxt start after_open e x v nxt')
  from find_str_Some [OF 2(1)] have "0 < length rest" by auto
  with 2(2) show ?case by auto
qed simp

declare interpolate_from.simps [simp del]

definition interpolate :: "externs \<Rightarrow> eval_context \<Rightarrow> string \<Rightarrow> nat \<Rightarrow> (expr_error, string \<times> nat) result" where
  "interpolate X ctx input nxt = interpolate_from X ctx [] input nxt"

subsection \<open>Comparison operators\<close>

text \<open>
  The comparison operators are consistent with each other on every pair of values: \<open>!=\<close> is the
  negation of \<open>==\<close>, \<open><=\<close> and \<open>>=\<close> are the strict order or equality, the operators commute with
  swapping the operands, and no pair is ordered both ways or ordered and equal.
\<close>

theorem comparison_operators_consistent:
  "\<exists>eq lt gt.
     eval_comparison X Eq_op l r = Ok (Bool eq) \<and> eval_comparison X Eq_op r l = Ok (Bool eq)
   \<and> eval_comparison X Neq_op l r = Ok (Bool (\<not> eq))
   \<and> eval_comparison X Lt_op l r = Ok (Bool lt) \<and> eval_comparison X Gt_op r l = Ok (Bool lt)
   \<and> eval_comparison X Gt_op l r = Ok (Bool gt) \<and> eval_comparison X Lt_op r l = Ok (Bool gt)
   \<and> eval_comparison X Le_op l r = Ok (Bool (eq \<or> lt))
   \<and> eval_comparison X Ge_op l r = Ok (Bool (eq \<or> gt))
   \<and> \<not> (lt \<and> gt) \<and> \<not> (eq \<and> lt) \<and> \<not> (eq \<and> gt)"
proof -
  let ?u = "to_uppercase X"
  have "\<not> (ordered ?u l r Less \<and> ordered ?u l r Greater)"
    "\<not> (loose_eq ?u l r \<and> ordered ?u l r Less)" "\<not> (loose_eq ?u l r \<and> ordered ?u l r Greater)"
    using ordered_exclusive loose_eq_not_ordered by blast+
  then show ?thesis
    using loose_eq_sym [of ?u l r] ordered_flip [of ?u l r] ordered_flip [of ?u r l] by auto
qed

subsection \<open>Lazy arguments\<close>

text \<open>
  When the evaluator skips the second argument of \<open>contains\<close>, \<open>startsWith\<close>, \<open>endsWith\<close> or
  \<open>join\<close>, the call's result is the same for every value that argument could have had.
\<close>

theorem skipped_argument_is_irrelevant:
  assumes "unused_second name first"
  shows "call_function X name [first, second] ctx nxt = call_function X name [first, second'] ctx nxt"
proof -
  have n: "to_ascii_lowercase name \<in> {''contains'', ''startswith'', ''endswith'', ''join''}"
    using assms by (auto simp: unused_second_def Let_def split: if_splits)
  have "pure_result nxt (fn_contains X [first, second]) = pure_result nxt (fn_contains X [first, second'])"
    if "to_ascii_lowercase name = ''contains''"
    using that assms by (cases first) (auto simp: unused_second_def fn_contains_def arg2_def)
  moreover have "fn_starts_with X [first, second] = fn_starts_with X [first, second']"
    "fn_ends_with X [first, second] = fn_ends_with X [first, second']"
    if "to_ascii_lowercase name \<in> {''startswith'', ''endswith''}"
    using that assms
    by (auto simp: unused_second_def Let_def fn_starts_with_def fn_ends_with_def arg2_def split: if_splits)
  moreover have "fn_join [first, second] = fn_join [first, second']"
    if "to_ascii_lowercase name = ''join''"
  proof (cases first)
    case (Array i b vs)
    then have "length vs \<le> 1" using that assms by (auto simp: unused_second_def)
    then show ?thesis by (cases vs) (auto simp: Array fn_join_def)
  qed (auto simp: fn_join_def)
  ultimately show ?thesis
    using n by (auto simp: call_function_def Let_def)
qed

theorem skipped_argument_is_irrelevant_witness:
  "unused_second ''join'' (Array 0 False [Str ''a'']) \<and>
   call_function plain_externs ''join'' [Array 0 False [Str ''a''], Str ''-''] plain_context 7 =
   call_function plain_externs ''join'' [Array 0 False [Str ''a''], Null] plain_context 7"
proof -
  have "unused_second ''join'' (Array 0 False [Str ''a''])" by code_simp
  with skipped_argument_is_irrelevant [OF this, of plain_externs "Str ''-''" plain_context 7 Null] show ?thesis by blast
qed

lemma eval_case_literals:
  "odd (length vs) \<Longrightarrow> eval_case_pairs X ctx (map Literal vs) nxt = pure_result nxt (fn_case vs)"
proof (induction "length vs" arbitrary: vs rule: less_induct)
  case less
  show ?case
  proof (cases vs)
    case (Cons p vs')
    show ?thesis
    proof (cases vs')
      case Nil
      with Cons show ?thesis by (simp add: fn_case_def pure_result_def)
    next
      case (Cons r rest)
      with \<open>vs = p # vs'\<close> less.prems have odd: "odd (length rest)" "rest \<noteq> []" by auto
      have "eval_case_pairs X ctx (map Literal rest) nxt = pure_result nxt (fn_case rest)"
        using less.hyps [of rest] odd Cons \<open>vs = p # vs'\<close> by simp
      with odd Cons \<open>vs = p # vs'\<close> show ?thesis
        by (cases p) (auto simp: fn_case_def pure_result_def)
    qed
  qed (use less.prems in simp)
qed

lemma render_segments_cong:
  assumes "\<And>i n. i < length cache \<Longrightarrow> f i n = g i n"
  shows "render_segments f cache out nxt segs = render_segments g cache out nxt segs"
  using assms
proof (induction f cache out nxt segs rule: render_segments.induct)
  case (3 argument cache out nxt index bad segs)
  then show ?case
    by (auto split: option.splits intro!: rbind_cong)
qed auto

text \<open>
  On already evaluated arguments the lazy evaluation of \<open>case\<close> and \<open>format\<close> calls returns
  exactly what the value-level functions return, errors included.
\<close>

theorem lazy_calls_agree_with_functions:
  "(odd (length vs) \<longrightarrow> 3 \<le> length vs \<longrightarrow> length vs \<le> 255 \<longrightarrow>
      eval_expr X ctx (FunctionCall ''case'' (map Literal vs)) nxt = call_function X ''case'' vs ctx nxt)
   \<and> (vs \<noteq> [] \<longrightarrow> length vs \<le> 255 \<longrightarrow>
      eval_expr X ctx (FunctionCall ''format'' (map Literal vs)) nxt = call_function X ''format'' vs ctx nxt)"
proof -
  have "render t (length us) (\<lambda>i n. if i < length us then eval_expr X ctx (map Literal us ! i) n
          else Err Missing_argument) n0 = render t (length us) (value_argument us) n0" for t us n0
    unfolding render_def
    by (intro arg_cong [where f = "rbind _"] ext rbind_cong render_segments_cong refl)
       (simp add: value_argument_def)
  then have fmt: "vs \<noteq> [] \<Longrightarrow> eval_format X ctx (map Literal vs) nxt = fn_format vs nxt"
    by (cases vs) (auto simp: fn_format_def)
  have names: "eq_ignore_ascii_case ''case'' ''case''" "\<not> eq_ignore_ascii_case ''format'' ''case''"
    "to_ascii_lowercase ''case'' = ''case''" "to_ascii_lowercase ''format'' = ''format''"
    by code_simp+
  show ?thesis
    using eval_case_literals [of vs X ctx nxt] fmt
    by (auto simp: call_function_def validate_arity_def arity_def names Suc_le_eq)
qed

theorem lazy_calls_agree_with_functions_witness:
  "eval_expr plain_externs plain_context (FunctionCall ''case'' (map Literal [Bool False, Str ''a'', Str ''b''])) 0 =
     call_function plain_externs ''case'' [Bool False, Str ''a'', Str ''b''] plain_context 0
   \<and> eval_expr plain_externs plain_context (FunctionCall ''format'' (map Literal [Str ''{0}!'', Str ''hi''])) 0 =
     call_function plain_externs ''format'' [Str ''{0}!'', Str ''hi''] plain_context 0"
  using lazy_calls_agree_with_functions [of "[Bool False, Str ''a'', Str ''b'']" plain_externs plain_context 0]
    lazy_calls_agree_with_functions [of "[Str ''{0}!'', Str ''hi'']" plain_externs plain_context 0] by simp

subsection \<open>Validated expressions\<close>

text \<open>The errors that validation rules out before evaluation starts.\<close>

fun name_error :: "expr_error \<Rightarrow> bool" where
  "name_error (Unknown_named_value _) = True"
| "name_error (Unknown_function _) = True"
| "name_error (Wrong_arity _ _ _ _) = True"
| "name_error Case_even_arguments = True"
| "name_error _ = False"

lemma format_parse_no_name_error: "format_parse count buf s = Err e \<Longrightarrow> \<not> name_error e"
proof (induction count buf s arbitrary: e rule: format_parse.induct)
  case (2 count buf ch r)
  show ?case
  proof (cases "parse_placeholder count r")
    case (Inl e')
    have "\<not> name_error e'" using Inl
      by (auto simp: parse_placeholder_def Let_def split: option.splits if_splits list.splits)
    with Inl "2.prems" "2.IH"(1,2) show ?thesis by (auto split: if_splits)
  next
    case (Inr x)
    with "2.prems" "2.IH" show ?thesis
      by (cases x) (auto simp: rbind_eq_Err split: if_splits)
  qed
qed simp

lemma render_segments_no_name_error:
  assumes "\<And>i n e. f i n = Err e \<Longrightarrow> \<not> name_error e"
  shows "render_segments f cache out nxt segs = Err e \<Longrightarrow> \<not> name_error e"
proof (induction segs arbitrary: cache out nxt)
  case (Cons seg segs)
  show ?case
  proof (cases seg)
    case (Text t)
    with Cons show ?thesis by auto
  next
    case (Argument index bad)
    with Cons assms show ?thesis
      by (auto simp: rbind_eq_Err split: if_splits option.splits)
  qed
qed simp

lemma render_no_name_error:
  "render t count f nxt = Err e \<Longrightarrow> (\<And>i n e. f i n = Err e \<Longrightarrow> \<not> name_error e) \<Longrightarrow> \<not> name_error e"
  using render_segments_no_name_error [of f]
  by (auto simp: render_def rbind_eq_Err dest: format_parse_no_name_error)

lemma walk_no_name_error:
  assumes vis: "\<forall>p s e. visitf p s = Err e \<longrightarrow> \<not> name_error e"
    and w: "walk env follow visitf stack st = Some res"
  shows "res = Err e \<Longrightarrow> \<not> name_error e"
proof -
  have "(\<forall>p s e. visitf p s = Err e \<longrightarrow> \<not> name_error e) \<longrightarrow> (\<forall>e. res = Err e \<longrightarrow> \<not> name_error e)"
  proof (rule walk.raw_induct [where P = "\<lambda>env follow visitf stack st res.
      (\<forall>p s e. visitf p s = Err e \<longrightarrow> \<not> name_error e) \<longrightarrow> (\<forall>e. res = Err e \<longrightarrow> \<not> name_error e)",
      OF _ w], goal_cases)
    case (1 wk env follow visitf stack st res)
    from 1(2) show ?case
      by (auto split: list.splits option.splits file_kind.splits sum.splits dest!: 1(1))
  qed
  with vis show "res = Err e \<Longrightarrow> \<not> name_error e" by blast
qed

lemma walk_roots_no_name_error:
  assumes "\<forall>p s e. visitf p s = Err e \<longrightarrow> \<not> name_error e"
  shows "walk_roots env follow visitf roots st = Some (Err e) \<Longrightarrow> \<not> name_error e"
proof (induction roots arbitrary: st)
  case (Cons r roots)
  then show ?case
    using walk_no_name_error [OF assms]
    by (auto split: option.splits sum.splits)
qed simp

lemma collect_results_no_name_error:
  assumes "\<forall>x e. f x = Err e \<longrightarrow> \<not> name_error e"
  shows "collect_results f xs = Err e \<Longrightarrow> \<not> name_error e"
  using assms by (induction xs) (auto simp: rbind_eq_Err)

lemma parse_line_no_name_error: "parse_line env ws line = Err e \<Longrightarrow> \<not> name_error e"
  by (auto simp: parse_line_def Let_def rbind_eq_Err reject_relative_segments_def new_pattern_def
      split: if_splits prod.splits)

lemma visit_no_name_error: "visit env ws ps p st = Err e \<Longrightarrow> \<not> name_error e"
  by (auto simp: visit_def split: if_splits option.splits file_kind.splits)

lemma hash_files_no_name_error: "hash_files env ws args = Some (Err e) \<Longrightarrow> \<not> name_error e"
proof -
  assume h: "hash_files env ws args = Some (Err e)"
  show ?thesis
  proof (cases "split_options args")
    case (Inl e')
    then have "\<not> name_error e'" by (cases args) (auto split: if_splits)
    with h Inl show ?thesis by (simp add: hash_files_def)
  next
    case (Inr x)
    obtain follow raw where x: "x = (follow, raw)" by (cases x)
    show ?thesis
    proof (cases "parse_patterns env ws raw")
      case (Inl e')
      then have "\<not> name_error e'"
        using collect_results_no_name_error [of "parse_line env ws"] parse_line_no_name_error
        by (auto simp: parse_patterns_def)
      with h Inr Inl x show ?thesis by (simp add: hash_files_def)
    next
      case (Inr ps)
      with h \<open>split_options args = Inr x\<close> x show ?thesis
        using walk_roots_no_name_error [of "visit env (components ws) ps"] visit_no_name_error
        by (auto simp: hash_files_def fold_digests_def rbind_eq_Err split: list.splits if_splits)
    qed
  qed
qed

lemma call_function_no_name_error:
  assumes "validate_arity name (length args) = Ok ()" and "call_function X name args ctx nxt = Err e"
  shows "\<not> name_error e"
proof -
  note defs = pure_result_def fn_contains_def fn_starts_with_def fn_ends_with_def fn_case_def
    fn_join_def fn_to_json_def fn_from_json_def fn_hash_files_def arg2_def Let_def rbind_eq_Err
  have arity: "arity name \<noteq> None"
    using assms(1) by (auto simp: validate_arity_def split: option.splits)
  have pairs: "case_pairs vs = Err e' \<Longrightarrow> \<not> name_error e'" for vs e'
    by (induction vs rule: case_pairs.induct) (auto split: expr_value.splits if_splits)
  have fmt: "fn_format args nxt = Err e' \<Longrightarrow> \<not> name_error e'" for e'
    by (cases args) (auto simp: fn_format_def value_argument_def
        dest!: render_no_name_error split: if_splits)
  show ?thesis
    using assms arity
    by (auto simp: call_function_def defs arity_def
        split: if_splits list.splits expr_value.splits option.splits
        dest: pairs fmt hash_files_no_name_error)
qed

lemma eval_args_length:
  "eval_args X ctx name evaluated as nxt = Ok (vs, nxt') \<Longrightarrow> length vs = length evaluated + length as"
  by (induction as arbitrary: evaluated nxt) (fastforce simp: rbind_eq_Ok split: if_splits)+

lemma validate_all_nth: "validate_all ctx as = Ok () \<Longrightarrow> i < length as \<Longrightarrow> validate ctx (as ! i) = Ok ()"
  by (induction as arbitrary: i) (auto simp: rbind_eq_Ok nth_Cons')

lemma eval_binary_Err:
  "eval_binary X op v right n = Err e \<Longrightarrow> right n = Err e \<or> \<not> name_error e"
  by (cases op) (auto simp: eval_binary_def pure_result_def rbind_eq_Err split: if_splits)

lemma eval_no_name_error:
  "validate ctx e = Ok () \<Longrightarrow> eval_expr X ctx e n1 = Err err \<Longrightarrow> \<not> name_error err"
  "validate_all ctx as = Ok () \<Longrightarrow> eval_args X ctx name evaluated as n2 = Err err \<Longrightarrow> \<not> name_error err"
  "validate_all ctx bs = Ok () \<Longrightarrow> eval_case_pairs X ctx bs n3 = Err err \<Longrightarrow> \<not> name_error err"
  "validate_all ctx cs = Ok () \<Longrightarrow> eval_format X ctx cs n4 = Err err \<Longrightarrow> \<not> name_error err"
proof (induction X ctx e n1 and X ctx name evaluated as n2 and X ctx bs n3 and X ctx cs n4
    arbitrary: err and err and err and err
    rule: eval_expr_eval_args_eval_case_pairs_eval_format.induct)
  case (6 X ctx name args nxt)
  from "6.prems"(1) have ar: "validate_arity name (length args) = Ok ()" "validate_all ctx args = Ok ()"
    by (auto simp: rbind_eq_Ok)
  have odd: "eq_ignore_ascii_case name ''case'' \<Longrightarrow> odd (length args)"
    using ar(1) by (auto simp: validate_arity_def split: option.splits if_splits)
  show ?case
  proof (cases "eq_ignore_ascii_case name ''case'' \<or> eq_ignore_ascii_case name ''format''")
    case True
    with "6.prems"(2) ar(2) odd "6.IH"(1,2) show ?thesis by (auto split: if_splits)
  next
    case False
    with "6.prems"(2) consider "eval_args X ctx name [] args nxt = Err err"
      | vs n where "eval_args X ctx name [] args nxt = Ok (vs, n)" "call_function X name vs ctx n = Err err"
      by (auto simp: rbind_eq_Err)
    then show ?thesis
    proof cases
      case 1
      with False ar(2) "6.IH"(3) show ?thesis by simp
    next
      case 2
      with ar(1) show ?thesis
        using eval_args_length [OF 2(1)] call_function_no_name_error [OF _ 2(2)] by simp
    qed
  qed
next
  case (8 X ctx op left right nxt)
  from "8.prems"(2) consider "eval_expr X ctx left nxt = Err err"
    | v n where "eval_expr X ctx left nxt = Ok (v, n)"
        "eval_binary X op v (\<lambda>n. eval_expr X ctx right n) n = Err err"
    by (auto simp: rbind_eq_Err)
  then show ?case
  proof cases
    case 1
    with "8.prems"(1) "8.IH"(1) show ?thesis by (auto simp: rbind_eq_Ok)
  next
    case 2
    have "eval_expr X ctx right n = Err err \<or> \<not> name_error err"
      using eval_binary_Err [OF 2(2)] .
    with 2(1) "8.prems"(1) "8.IH"(2) show ?thesis by (auto simp: rbind_eq_Ok)
  qed
next
  case (13 X ctx p r rest nxt)
  show ?case
  proof (cases "eval_expr X ctx p nxt")
    case (Inl e')
    with "13.prems" "13.IH"(1) show ?thesis by (auto simp: rbind_eq_Ok)
  next
    case (Inr x)
    obtain v n where x: "x = (v, n)" by (cases x)
    show ?thesis
    proof (cases v)
      case (Bool b)
      with Inr x "13.prems" "13.IH"(2,3) show ?thesis by (cases b) (auto simp: rbind_eq_Ok)
    qed (use Inr x "13.prems"(2) in auto)
  qed
next
  case (15 X ctx t ps nxt)
  then show ?case
    using validate_all_nth [of ctx ps]
    by (auto simp: rbind_eq_Err rbind_eq_Ok dest!: render_no_name_error split: if_splits)
qed (auto simp: rbind_eq_Err rbind_eq_Ok split: if_splits expr_value.splits)



end
