(* ===== verification/Secret_Masker.thy ===== *)
theory Secret_Masker
  imports Utf8 "HOL-Library.Product_Lexorder"
begin

text \<open>
  \<open>crates/shared/src/secret_masker.rs\<close>: registration of secrets with their encoded variants, and the
  two masking paths, one overlapping-match pass that merges spans and the longest-first replace
  loop used when the automaton could not be built.

  The Aho-Corasick automaton and base64 are third-party crates: \<open>aho_build\<close> is the builder (it may
  fail), whose result maps an input to the spans of its overlapping matches.
\<close>

subsection \<open>State\<close>

type_synonym span = "nat \<times> nat"
type_synonym matcher = "string \<Rightarrow> span list"

record secret_masker =
  patterns :: "string list"
  automaton :: "matcher option"

record masker_externs =
  aho_build :: "string list \<Rightarrow> matcher option"
  base64_standard :: "string \<Rightarrow> string"
  base64_no_pad :: "string \<Rightarrow> string"

definition MIN_SECRET_LEN :: nat where "MIN_SECRET_LEN = 4"

definition new_masker :: secret_masker where
  "new_masker = \<lparr>patterns = [], automaton = None\<rparr>"

subsection \<open>Encodings\<close>

definition hex_nibble :: "nat \<Rightarrow> bool \<Rightarrow> char" where
  "hex_nibble n upper =
     (if n < 10 then char_of (48 + n)
      else if n < 16 then char_of ((if upper then 65 else 97) + (n - 10))
      else CHR ''0'')"

definition hex_encode :: "string \<Rightarrow> bool \<Rightarrow> string" where
  "hex_encode s upper = concat (map (\<lambda>b. [hex_nibble (ord b div 16) upper, hex_nibble (ord b mod 16) upper]) s)"

definition percent_encode :: "string \<Rightarrow> bool \<Rightarrow> string" where
  "percent_encode s upper = concat (map (\<lambda>b.
     if is_ascii_alphanumeric b \<or> b \<in> {CHR ''-'', CHR ''.'', CHR ''_'', CHR ''~''} then [b]
     else [CHR ''%'', hex_nibble (ord b div 16) upper, hex_nibble (ord b mod 16) upper]) s)"

definition replace_char :: "char \<Rightarrow> string \<Rightarrow> string \<Rightarrow> string" where
  "replace_char c r s = concat (map (\<lambda>x. if x = c then r else [x]) s)"

definition json_escape :: "string \<Rightarrow> string" where
  "json_escape s =
     replace_char (CHR 0x09) [CHR 0x5C, CHR ''t''] (replace_char (CHR 0x0D) [CHR 0x5C, CHR ''r'']
       (replace_char (CHR 0x0A) [CHR 0x5C, CHR ''n''] (replace_char (CHR 0x22) [CHR 0x5C, CHR 0x22]
         (replace_char (CHR 0x5C) [CHR 0x5C, CHR 0x5C] s))))"

subsection \<open>Registration\<close>

text \<open>\<open>partition_point\<close> on the sorted vector: the length of the prefix of patterns at least as long.\<close>

definition insert_pattern :: "string \<Rightarrow> string list \<Rightarrow> string list" where
  "insert_pattern p ps =
     (if p \<in> set ps then ps
      else takeWhile (\<lambda>q. length p \<le> length q) ps @ p # dropWhile (\<lambda>q. length p \<le> length q) ps)"

definition insert_variant :: "string \<Rightarrow> string list \<Rightarrow> string list" where
  "insert_variant v ps = (if MIN_SECRET_LEN \<le> length v then insert_pattern v ps else ps)"

definition add_pattern :: "masker_externs \<Rightarrow> string \<Rightarrow> string list \<Rightarrow> string list" where
  "add_pattern X value ps =
     (let ps1 = insert_pattern value ps;
          escaped = json_escape value;
          ps2 = (if escaped \<noteq> value then insert_pattern escaped ps1 else ps1)
      in fold insert_variant
           [base64_standard X value, base64_no_pad X value, hex_encode value False, hex_encode value True,
            percent_encode value True, percent_encode value False] ps2)"

text \<open>\<open>str::split\<close> at carriage return and line feed.\<close>

fun split_lines :: "string \<Rightarrow> string list" where
  "split_lines [] = [[]]"
| "split_lines (x # xs) =
     (if x = CHR 0x0D \<or> x = CHR 0x0A then [] # split_lines xs
      else case split_lines xs of [] \<Rightarrow> [[x]] | s # ss \<Rightarrow> (x # s) # ss)"

definition insert_secret_patterns :: "masker_externs \<Rightarrow> string \<Rightarrow> string list \<Rightarrow> string list" where
  "insert_secret_patterns X value ps =
     (let trimmed = trim value
      in if length trimmed < MIN_SECRET_LEN then ps
         else fold (\<lambda>line ps. let l = trim line in if MIN_SECRET_LEN \<le> length l then add_pattern X l ps else ps)
                (split_lines trimmed) (add_pattern X trimmed ps))"

definition rebuild_automaton :: "masker_externs \<Rightarrow> secret_masker \<Rightarrow> secret_masker" where
  "rebuild_automaton X m = m\<lparr>automaton := aho_build X (patterns m)\<rparr>"

definition add_secret :: "masker_externs \<Rightarrow> string \<Rightarrow> secret_masker \<Rightarrow> secret_masker" where
  "add_secret X value m =
     rebuild_automaton X (m\<lparr>patterns := insert_secret_patterns X value (patterns m)\<rparr>)"

definition add_secrets :: "masker_externs \<Rightarrow> string list \<Rightarrow> secret_masker \<Rightarrow> secret_masker" where
  "add_secrets X values m =
     rebuild_automaton X (m\<lparr>patterns := fold (insert_secret_patterns X) values (patterns m)\<rparr>)"

definition add_mask :: "masker_externs \<Rightarrow> string \<Rightarrow> secret_masker \<Rightarrow> secret_masker" where
  "add_mask X value m =
     (if trim value = [] then m
      else rebuild_automaton X
             (m\<lparr>patterns := fold (\<lambda>line ps. if line \<noteq> [] then add_pattern X line ps else ps)
                               (map trim (split_lines value)) (add_pattern X value (patterns m))\<rparr>))"

subsection \<open>Masking\<close>

text \<open>\<open>str::replace\<close>: non-overlapping occurrences, left to right; the empty pattern never occurs here.\<close>

function replace_all :: "string \<Rightarrow> string \<Rightarrow> string \<Rightarrow> string" where
  "replace_all p r s =
     (case find_str p s of
        None \<Rightarrow> s
      | Some i \<Rightarrow> if p = [] then s else take i s @ r @ replace_all p r (drop (i + length p) s))"
  by pat_completeness auto
termination
proof (relation "measure (\<lambda>(p, r, s). length s)")
  fix p r s i
  assume "find_str p s = Some i" "p \<noteq> []"
  then show "((p, r, drop (i + length p) s), p, r, s) \<in> measure (\<lambda>(p, r, s). length s)"
    using find_str_Some [of p s i] by (cases p) auto
qed simp

declare replace_all.simps [simp del]

definition mask_with_replace_loop :: "string list \<Rightarrow> string \<Rightarrow> string" where
  "mask_with_replace_loop ps s = fold (\<lambda>p s. replace_all p ''***'' s) ps s"

text \<open>The merge loop: \<open>merged\<close> is kept with its last element first.\<close>

fun merge_step :: "span \<Rightarrow> span list \<Rightarrow> span list" where
  "merge_step (start, end') [] = [(start, end')]"
| "merge_step (start, end') ((s, last_end) # rest) =
     (if start \<le> last_end then (s, if last_end < end' then end' else last_end) # rest
      else (start, end') # (s, last_end) # rest)"

definition merge_spans :: "span list \<Rightarrow> span list" where
  "merge_spans spans = rev (fold merge_step spans [])"

text \<open>The copy loop with its cursor; an invalid slice is the empty string.\<close>

fun splice :: "string \<Rightarrow> nat \<Rightarrow> span list \<Rightarrow> string" where
  "splice input cursor [] = (case str_get input cursor (length input) of Some t \<Rightarrow> t | None \<Rightarrow> [])"
| "splice input cursor ((start, end') # spans) =
     (case str_get input cursor start of Some t \<Rightarrow> t | None \<Rightarrow> []) @ ''***'' @ splice input end' spans"

definition mask_with_automaton :: "matcher \<Rightarrow> string \<Rightarrow> string" where
  "mask_with_automaton ac input =
     (let spans = ac input
      in if spans = [] then input else splice input 0 (merge_spans (sort spans)))"

definition mask :: "secret_masker \<Rightarrow> string \<Rightarrow> string" where
  "mask m input =
     (if patterns m = [] then input
      else case automaton m of
             Some ac \<Rightarrow> mask_with_automaton ac input
           | None \<Rightarrow> mask_with_replace_loop (patterns m) input)"

subsection \<open>What masking promises\<close>

text \<open>
  The specification names positions: a position is covered when an occurrence of a registered
  pattern contains it. \<open>redact\<close> keeps the uncovered characters and puts one \<open>***\<close> for each maximal
  run of covered ones.
\<close>

definition occurs_at :: "string \<Rightarrow> string \<Rightarrow> nat \<Rightarrow> bool" where
  "occurs_at p s j \<longleftrightarrow> j + length p \<le> length s \<and> take (length p) (drop j s) = p"

definition covered :: "string list \<Rightarrow> string \<Rightarrow> nat \<Rightarrow> bool" where
  "covered ps s i \<longleftrightarrow> list_ex (\<lambda>p. list_ex (\<lambda>j. i < j + length p \<and> occurs_at p s j) [0..<Suc i]) ps"

fun collapse :: "(nat \<Rightarrow> bool) \<Rightarrow> nat \<Rightarrow> bool \<Rightarrow> string \<Rightarrow> string" where
  "collapse cov i prev [] = []"
| "collapse cov i prev (c # s) =
     (if cov i then (if prev then [] else ''***'') else [c]) @ collapse cov (Suc i) (cov i) s"

definition redact :: "string list \<Rightarrow> string \<Rightarrow> string" where
  "redact ps s = collapse (covered ps s) 0 False s"

lemma covered_iff:
  "covered ps s i \<longleftrightarrow> (\<exists>p \<in> set ps. \<exists>j. j \<le> i \<and> i < j + length p \<and> occurs_at p s j)"
  unfolding covered_def list_ex_iff set_upt Bex_def atLeastLessThan_iff less_Suc_eq_le by auto

lemma occurs_at_append: "occurs_at p s j \<longleftrightarrow> (\<exists>a b. s = a @ p @ b \<and> length a = j)"
proof
  assume "occurs_at p s j"
  then have "s = take j s @ p @ drop (j + length p) s" "length (take j s) = j"
    unfolding occurs_at_def by (metis add.commute append_take_drop_id drop_drop, simp)
  then show "\<exists>a b. s = a @ p @ b \<and> length a = j" by blast
qed (auto simp: occurs_at_def)

subsection \<open>Merging spans\<close>

definition in_spans :: "span list \<Rightarrow> nat \<Rightarrow> bool" where
  "in_spans spans i \<longleftrightarrow> (\<exists>(s, e) \<in> set spans. s \<le> i \<and> i < e)"

lemma in_spans_simps [simp]:
  "in_spans [] i \<longleftrightarrow> False"
  "in_spans ((s, e) # spans) i \<longleftrightarrow> s \<le> i \<and> i < e \<or> in_spans spans i"
  "in_spans (xs @ ys) i \<longleftrightarrow> in_spans xs i \<or> in_spans ys i"
  "in_spans (rev xs) i \<longleftrightarrow> in_spans xs i"
  by (auto simp: in_spans_def)

text \<open>Non-empty spans in increasing order with a gap between neighbours, latest first.\<close>

fun separated :: "span list \<Rightarrow> bool" where
  "separated [] \<longleftrightarrow> True"
| "separated [(s, e)] \<longleftrightarrow> s < e"
| "separated ((s, e) # (s', e') # rest) \<longleftrightarrow> s < e \<and> e' < s \<and> separated ((s', e') # rest)"

lemma merge_step_separated:
  "separated acc \<Longrightarrow> s < e \<Longrightarrow> (\<And>s' e' rest. acc = (s', e') # rest \<Longrightarrow> s' \<le> s) \<Longrightarrow> separated (merge_step (s, e) acc)"
proof (cases acc)
  case (Cons x rest)
  assume "separated acc" "s < e" "\<And>s' e' rest. acc = (s', e') # rest \<Longrightarrow> s' \<le> s"
  with Cons show ?thesis by (cases x; cases rest) auto
qed simp

lemma merge_step_in_spans:
  assumes "\<And>s' e' rest. acc = (s', e') # rest \<Longrightarrow> s' \<le> s \<and> s' < e'" "s < e"
  shows "in_spans (merge_step (s, e) acc) i \<longleftrightarrow> s \<le> i \<and> i < e \<or> in_spans acc i"
proof (cases acc)
  case (Cons x rest)
  then show ?thesis using assms by (cases x) auto
qed simp

lemma fold_merge_step:
  assumes "sorted spans" "\<forall>(s, e) \<in> set spans. s < e" "separated acc"
    "\<And>s e s' e' rest. (s, e) \<in> set spans \<Longrightarrow> acc = (s', e') # rest \<Longrightarrow> s' \<le> s"
  shows "separated (fold merge_step spans acc) \<and>
    (\<forall>i. in_spans (fold merge_step spans acc) i \<longleftrightarrow> in_spans spans i \<or> in_spans acc i)"
  using assms
proof (induction spans arbitrary: acc)
  case (Cons x spans)
  obtain s e where x: "x = (s, e)" by force
  have se: "s < e" and later: "\<And>s' e'. (s', e') \<in> set spans \<Longrightarrow> s \<le> s'"
    using Cons.prems x by (auto simp: less_eq_prod_def)
  have hd_le: "s' \<le> s \<and> s' < e'" if "acc = (s', e') # rest" for s' e' rest
    using Cons.prems(3,4) x that by (cases rest) auto
  have new_hd: "s' \<le> s" if "merge_step (s, e) acc = (s', e') # rest" for s' e' rest
    using that hd_le by (cases acc) (auto split: if_splits)
  have "separated (merge_step (s, e) acc)"
    using merge_step_separated [OF Cons.prems(3) se] hd_le by blast
  then have "separated (fold merge_step spans (merge_step (s, e) acc)) \<and>
    (\<forall>i. in_spans (fold merge_step spans (merge_step (s, e) acc)) i \<longleftrightarrow>
      in_spans spans i \<or> in_spans (merge_step (s, e) acc) i)"
    using Cons.prems later new_hd by (intro Cons.IH) (fastforce simp: x)+
  with merge_step_in_spans [OF hd_le se] show ?case by (auto simp: x)
qed simp

lemma fold_merge_step_ends:
  assumes "\<forall>(s, e) \<in> set spans. P s \<and> Q e" "\<forall>(s, e) \<in> set acc. P s \<and> Q e"
  shows "\<forall>(s, e) \<in> set (fold merge_step spans acc). P s \<and> Q e"
  using assms
proof (induction spans arbitrary: acc)
  case (Cons x spans)
  obtain s e where x: "x = (s, e)" by force
  have "\<forall>(s, e) \<in> set (merge_step x acc). P s \<and> Q e"
    using Cons.prems by (cases acc) (auto simp: x split: if_splits)
  with Cons show ?case by simp
qed simp

subsection \<open>Splicing\<close>

lemma collapse_uncovered:
  "(\<And>j. i \<le> j \<Longrightarrow> j < i + length xs \<Longrightarrow> \<not> cov j) \<Longrightarrow>
   collapse cov i prev (xs @ ys) = xs @ collapse cov (i + length xs) (prev \<and> xs = []) ys"
  by (induction xs arbitrary: i prev) auto

lemma collapse_covered:
  "(\<And>j. i \<le> j \<Longrightarrow> j < i + length xs \<Longrightarrow> cov j) \<Longrightarrow>
   collapse cov i prev (xs @ ys) =
     (if xs = [] \<or> prev then [] else ''***'') @ collapse cov (i + length xs) (prev \<or> xs \<noteq> []) ys"
  by (induction xs arbitrary: i prev) auto

lemma collapse_prev: "\<not> cov i \<Longrightarrow> collapse cov i prev s = collapse cov i False s"
  by (cases s) auto

lemma collapse_cong:
  "(\<And>j. i \<le> j \<Longrightarrow> j < i + length s \<Longrightarrow> cov j = cov' j) \<Longrightarrow> collapse cov i prev s = collapse cov' i prev s"
  by (induction s arbitrary: i prev) auto

fun apart :: "nat \<Rightarrow> span list \<Rightarrow> bool" where
  "apart c [] \<longleftrightarrow> True"
| "apart c ((s, e) # spans) \<longleftrightarrow> c \<le> s \<and> s < e \<and> apart (Suc e) spans"

lemma apart_mono: "apart c spans \<Longrightarrow> c' \<le> c \<Longrightarrow> apart c' spans"
  by (cases spans) auto

lemma apart_in_spans: "apart c spans \<Longrightarrow> in_spans spans i \<Longrightarrow> c \<le> i"
proof (induction c spans rule: apart.induct)
  case (2 c s e spans)
  then show ?case by fastforce
qed simp

lemma apart_snoc:
  "apart c (xs @ [(s, e)]) \<longleftrightarrow> apart c xs \<and> s < e \<and> (if xs = [] then c \<le> s else snd (last xs) < s)"
  by (induction c xs rule: apart.induct) auto

lemma separated_apart: "separated acc \<Longrightarrow> apart 0 (rev acc)"
proof (induction acc rule: separated.induct)
  case (3 s e s' e' rest)
  then show ?case using apart_snoc [of 0 "rev rest @ [(s', e')]" s e] by simp
qed auto

lemma splice_collapse:
  assumes "apart cursor spans" "cursor \<le> length input" "is_char_boundary input cursor"
    "\<forall>(s, e) \<in> set spans. e \<le> length input \<and> is_char_boundary input s \<and> is_char_boundary input e"
  shows "splice input cursor spans = collapse (in_spans spans) cursor False (drop cursor input)"
  using assms
proof (induction spans arbitrary: cursor)
  case Nil
  have "collapse (\<lambda>_. False) cursor False (drop cursor input) = drop cursor input"
    using collapse_uncovered [of cursor "drop cursor input" "\<lambda>_. False" False "[]"] by simp
  with Nil show ?case by (simp add: str_get_def is_char_boundary_def)
next
  case (Cons x spans)
  obtain s e where x: "x = (s, e)" by force
  have bounds: "cursor \<le> s" "s < e" "e \<le> length input" "apart (Suc e) spans"
    using Cons.prems x by auto
  let ?cov = "in_spans ((s, e) # spans)"
  have later: "Suc e \<le> j" if "in_spans spans j" for j
    using apart_in_spans [OF bounds(4) that] .
  let ?pre = "take (s - cursor) (drop cursor input)"
  let ?hit = "take (e - s) (drop s input)"
  have "drop cursor input = ?pre @ ?hit @ drop e input"
    using bounds by (metis append_take_drop_id drop_drop le_add_diff_inverse2 less_imp_le)
  then have "collapse ?cov cursor False (drop cursor input) = ?pre @ collapse ?cov s False (?hit @ drop e input)"
    using bounds later collapse_uncovered [of cursor ?pre ?cov False "?hit @ drop e input"] by fastforce
  also have "collapse ?cov s False (?hit @ drop e input) = ''***'' @ collapse ?cov e True (drop e input)"
    using bounds collapse_covered [of s ?hit ?cov False "drop e input"] by simp
  also have "collapse ?cov e True (drop e input) = collapse ?cov e False (drop e input)"
    using later [of e] by (intro collapse_prev) auto
  also have "\<dots> = collapse (in_spans spans) e False (drop e input)"
    by (rule collapse_cong) auto
  also have "\<dots> = splice input e spans"
    using Cons bounds x by (intro Cons.IH [symmetric]) (auto intro: apart_mono)
  finally show ?case
    using Cons.prems bounds by (simp add: x str_get_def)
qed

subsection \<open>Pattern lists\<close>

definition patterns_ok :: "string list \<Rightarrow> bool" where
  "patterns_ok ps \<longleftrightarrow> sorted_wrt (\<lambda>p q. length q \<le> length p) ps \<and> distinct ps \<and>
     (\<forall>p \<in> set ps. p \<noteq> [] \<and> valid_utf8 p)"

lemma set_insert_pattern [simp]: "set (insert_pattern p ps) = insert p (set ps)"
proof -
  have "set (takeWhile P ps) \<union> set (dropWhile P ps) = set ps" for P
    using set_append [of "takeWhile P ps" "dropWhile P ps"] by simp
  then show ?thesis by (auto simp: insert_pattern_def)
qed

lemma insert_pattern_sorted:
  assumes "sorted_wrt (\<lambda>p q. length q \<le> length p) ps"
  shows "sorted_wrt (\<lambda>p q. length q \<le> length p) (insert_pattern p ps)"
proof -
  let ?P = "\<lambda>q. length p \<le> length q"
  have "sorted_wrt (\<lambda>p q. length q \<le> length p) (takeWhile ?P ps @ dropWhile ?P ps)"
    using assms by simp
  then have parts: "sorted_wrt (\<lambda>p q. length q \<le> length p) (takeWhile ?P ps)"
    "sorted_wrt (\<lambda>p q. length q \<le> length p) (dropWhile ?P ps)"
    "\<forall>x \<in> set (takeWhile ?P ps). \<forall>y \<in> set (dropWhile ?P ps). length y \<le> length x"
    unfolding sorted_wrt_append by auto
  have short: "length q \<le> length p" if "q \<in> set (dropWhile ?P ps)" for q
  proof (cases "dropWhile ?P ps")
    case (Cons x xs)
    then have "\<not> ?P x" by (metis hd_dropWhile list.distinct(1) list.sel(1))
    with parts(2) Cons that show ?thesis by auto
  next
    case Nil
    with that show ?thesis by (simp only: list.set empty_iff)
  qed
  with parts show ?thesis
    using assms by (auto simp: insert_pattern_def sorted_wrt_append dest: set_takeWhileD)
qed

lemma insert_pattern_ok: "patterns_ok ps \<Longrightarrow> p \<noteq> [] \<Longrightarrow> valid_utf8 p \<Longrightarrow> patterns_ok (insert_pattern p ps)"
proof -
  assume ok: "patterns_ok ps" and p: "p \<noteq> []" "valid_utf8 p"
  have "distinct (insert_pattern p ps)"
  proof -
    have "distinct (takeWhile P ps @ dropWhile P ps)" for P using ok by (simp add: patterns_ok_def)
    then show ?thesis using ok unfolding distinct_append
      by (auto simp: insert_pattern_def patterns_ok_def dest: set_takeWhileD set_dropWhileD)
  qed
  with ok p show ?thesis by (auto simp: patterns_ok_def insert_pattern_sorted)
qed

lemma insert_variant_ok: "patterns_ok ps \<Longrightarrow> valid_utf8 v \<Longrightarrow> patterns_ok (insert_variant v ps)"
  by (cases v) (auto simp: insert_variant_def MIN_SECRET_LEN_def intro: insert_pattern_ok)

lemma set_insert_variant: "set ps \<subseteq> set (insert_variant v ps)"
  by (auto simp: insert_variant_def)

lemma ord_hex_nibble: "ord (hex_nibble n upper) < 128"
  by (simp add: hex_nibble_def of_char_of)

lemma hex_encode_ascii: "\<forall>c \<in> set (hex_encode s upper). ord c < 128"
  by (auto simp: hex_encode_def ord_hex_nibble)

lemma percent_encode_ascii: "\<forall>c \<in> set (percent_encode s upper). ord c < 128"
proof -
  have "is_ascii_alphanumeric c \<Longrightarrow> ord c < 128" for c
    by (simp add: ascii_simps) linarith
  then have "\<forall>c \<in> set (if is_ascii_alphanumeric b \<or> b \<in> {CHR ''-'', CHR ''.'', CHR ''_'', CHR ''~''} then [b]
      else [CHR ''%'', hex_nibble (ord b div 16) upper, hex_nibble (ord b mod 16) upper]). ord c < 128" for b
    by (cases "is_ascii_alphanumeric b") (auto simp: ord_hex_nibble)
  then show ?thesis unfolding percent_encode_def set_concat set_map by blast
qed

lemma replace_char_valid:
  assumes "ord c < 128" "valid_utf8 r" "valid_utf8 s"
  shows "valid_utf8 (replace_char c r s)"
  using assms(3)
proof (induction s rule: length_induct)
  case (1 s)
  show ?case
  proof (cases "c \<in> set s")
    case False
    then have "replace_char c r s = s"
      unfolding replace_char_def by (induction s) auto
    with 1 show ?thesis by simp
  next
    case True
    then obtain a b where s: "s = a @ c # b" and a: "c \<notin> set a" by (auto dest: split_list_first)
    from a have "concat (map (\<lambda>x. if x = c then r else [x]) a) = a" by (induction a) auto
    then have "replace_char c r s = a @ r @ replace_char c r b" by (simp add: s replace_char_def)
    with 1 s assms valid_utf8_split [of a c b] show ?thesis by (simp add: valid_utf8_append)
  qed
qed

lemma json_escape_valid: "valid_utf8 s \<Longrightarrow> valid_utf8 (json_escape s)"
  unfolding json_escape_def by (intro replace_char_valid valid_utf8_ascii [of "[_, _]"]) auto

lemma replace_char_not_Nil: "s \<noteq> [] \<Longrightarrow> r \<noteq> [] \<Longrightarrow> replace_char c r s \<noteq> []"
  by (cases s) (auto simp: replace_char_def)

lemma json_escape_not_Nil: "s \<noteq> [] \<Longrightarrow> json_escape s \<noteq> []"
  unfolding json_escape_def by (intro replace_char_not_Nil) auto

lemma split_lines_append:
  "\<forall>x \<in> set a. x \<noteq> CHR 0x0D \<and> x \<noteq> CHR 0x0A \<Longrightarrow> c = CHR 0x0D \<or> c = CHR 0x0A \<Longrightarrow>
   split_lines (a @ c # b) = a # split_lines b"
  by (induction a) auto

lemma split_lines_single: "\<forall>x \<in> set a. x \<noteq> CHR 0x0D \<and> x \<noteq> CHR 0x0A \<Longrightarrow> split_lines a = [a]"
  by (induction a) auto

lemma split_lines_valid: "valid_utf8 s \<Longrightarrow> \<forall>l \<in> set (split_lines s). valid_utf8 l"
proof (induction s rule: length_induct)
  case (1 s)
  let ?eol = "\<lambda>x. x = CHR 0x0D \<or> x = CHR 0x0A"
  show ?case
  proof (cases "\<exists>x \<in> set s. ?eol x")
    case True
    then obtain a c b where s: "s = a @ c # b" "?eol c" "\<forall>x \<in> set a. \<not> ?eol x"
      by (rule split_list_first_propE)
    from s(2) have "ord c < 128" by (elim disjE) simp_all
    then have parts: "valid_utf8 a" "valid_utf8 b"
      using "1.prems" valid_utf8_split [of a c b] unfolding s(1) by blast+
    have "split_lines s = a # split_lines b"
      unfolding s(1) using s(2,3) by (intro split_lines_append) blast+
    moreover have "length b < length s" by (simp add: s(1))
    ultimately show ?thesis using "1.IH" parts by simp
  next
    case False
    then have "split_lines s = [s]" by (intro split_lines_single) blast
    then show ?thesis using "1.prems" by simp
  qed
qed

text \<open>Registration calls, in the order the listener and the steps make them.\<close>

datatype masker_op = Add_secret string | Add_secrets "string list" | Add_mask string

fun apply_op :: "masker_externs \<Rightarrow> masker_op \<Rightarrow> secret_masker \<Rightarrow> secret_masker" where
  "apply_op X (Add_secret v) m = add_secret X v m"
| "apply_op X (Add_secrets vs) m = add_secrets X vs m"
| "apply_op X (Add_mask v) m = add_mask X v m"

definition register :: "masker_externs \<Rightarrow> masker_op list \<Rightarrow> secret_masker \<Rightarrow> secret_masker" where
  "register X ops m = fold (apply_op X) ops m"

fun op_values :: "masker_op \<Rightarrow> string list" where
  "op_values (Add_secret v) = [v]"
| "op_values (Add_secrets vs) = vs"
| "op_values (Add_mask v) = [v]"

definition masker_ok :: "masker_externs \<Rightarrow> secret_masker \<Rightarrow> bool" where
  "masker_ok X m \<longleftrightarrow> patterns_ok (patterns m) \<and>
     (patterns m \<noteq> [] \<longrightarrow> automaton m = aho_build X (patterns m))"

lemma add_pattern_mono: "insert v (set ps) \<subseteq> set (add_pattern X v ps)"
  by (auto simp: add_pattern_def Let_def insert_variant_def)

lemma fold_superset: "(\<And>x ps. set ps \<subseteq> set (f x ps)) \<Longrightarrow> set ps \<subseteq> set (fold f xs ps)"
  by (induction xs arbitrary: ps) (auto, blast)

lemma add_pattern_superset: "set ps \<subseteq> set (add_pattern X v ps)"
  using add_pattern_mono by blast

lemma fold_lines_superset:
  "set ps \<subseteq> set (fold (\<lambda>line ps. if P line then add_pattern X (g line) ps else ps) xs ps)"
  by (rule fold_superset) (simp add: add_pattern_superset)

lemma insert_secret_patterns_superset:
  "MIN_SECRET_LEN \<le> length (trim v) \<Longrightarrow> set (add_pattern X (trim v) ps) \<subseteq> set (insert_secret_patterns X v ps)"
  unfolding insert_secret_patterns_def Let_def
  using fold_lines_superset [of "add_pattern X (trim v) ps" "\<lambda>l. MIN_SECRET_LEN \<le> length (trim l)" X trim] by simp

lemma insert_secret_patterns_mono: "set ps \<subseteq> set (insert_secret_patterns X v ps)"
proof (cases "MIN_SECRET_LEN \<le> length (trim v)")
  case True
  then show ?thesis using insert_secret_patterns_superset add_pattern_superset by (meson subset_trans)
next
  case False
  then show ?thesis by (simp add: insert_secret_patterns_def Let_def)
qed

lemma add_mask_superset:
  "trim v \<noteq> [] \<Longrightarrow> set (add_pattern X v (patterns m)) \<subseteq> set (patterns (add_mask X v m))"
  unfolding add_mask_def rebuild_automaton_def using fold_lines_superset [of _ "\<lambda>l. l \<noteq> []" X "\<lambda>l. l"] by simp

lemma apply_op_mono: "set (patterns m) \<subseteq> set (patterns (apply_op X op m))"
proof (cases op)
  case (Add_secret v)
  then show ?thesis by (simp add: add_secret_def rebuild_automaton_def insert_secret_patterns_mono)
next
  case (Add_secrets vs)
  then show ?thesis
    using fold_superset [of "insert_secret_patterns X", OF insert_secret_patterns_mono]
    by (simp add: add_secrets_def rebuild_automaton_def)
next
  case (Add_mask v)
  then show ?thesis
  proof (cases "trim v = []")
    case False
    then show ?thesis using Add_mask add_mask_superset add_pattern_superset by fastforce
  qed (simp add: add_mask_def)
qed

lemma register_mono: "set (patterns m) \<subseteq> set (patterns (register X ops m))"
  unfolding register_def
  by (induction ops arbitrary: m) (use apply_op_mono in \<open>force+\<close>)

subsection \<open>The registered patterns\<close>

text \<open>
  What the matcher and the encoders promise: a built automaton reports exactly the occurrences of
  its patterns, and base64 output is ASCII.
\<close>

locale masker_env =
  fixes X :: masker_externs
  assumes overlapping: "aho_build X ps = Some ac \<Longrightarrow>
      set (ac s) = {(j, j + length p) | p j. p \<in> set ps \<and> occurs_at p s j}"
    and base64_ascii: "\<forall>c \<in> set (base64_standard X s). ord c < 128" "\<forall>c \<in> set (base64_no_pad X s). ord c < 128"
begin

lemma automaton_redacts:
  assumes build: "aho_build X ps = Some ac" and valid: "valid_utf8 input"
    and ps: "\<forall>p \<in> set ps. p \<noteq> [] \<and> valid_utf8 p"
  shows "mask_with_automaton ac input = redact ps input"
proof -
  let ?spans = "sort (ac input)"
  have spans: "set ?spans = {(j, j + length p) | p j. p \<in> set ps \<and> occurs_at p input j}"
    using overlapping [OF build] by simp
  have cov: "in_spans ?spans i \<longleftrightarrow> covered ps input i" for i
    unfolding in_spans_def covered_iff spans by auto
  have boundary: "e \<le> length input \<and> is_char_boundary input s \<and> is_char_boundary input e"
    if "(s, e) \<in> set ?spans" for s e
  proof -
    from that spans obtain p a b where p: "p \<in> set ps" "input = a @ p @ b" "s = length a" "e = length a + length p"
      by (auto simp: occurs_at_append)
    with ps valid valid_utf8_around [of a p b] have "valid_utf8 a" "valid_utf8 p" "valid_utf8 b" by auto
    then show ?thesis
      using p valid valid_utf8_boundary [of a "p @ b"] valid_utf8_boundary [of "a @ p" b]
      by (simp add: valid_utf8_append)
  qed
  have "\<forall>(s, e) \<in> set ?spans. s < e" using spans ps by auto
  then have merged: "separated (fold merge_step ?spans [])" "\<And>i. in_spans (fold merge_step ?spans []) i = in_spans ?spans i"
    using fold_merge_step [of ?spans "[]"] by auto
  have "\<forall>(s, e) \<in> set (merge_spans ?spans). e \<le> length input \<and> is_char_boundary input s \<and> is_char_boundary input e"
    using fold_merge_step_ends [of ?spans "is_char_boundary input" "\<lambda>e. e \<le> length input \<and> is_char_boundary input e" "[]"] boundary
    by (fastforce simp: merge_spans_def)
  then have "splice input 0 (merge_spans ?spans) = collapse (in_spans (merge_spans ?spans)) 0 False input"
    using splice_collapse [of 0 "merge_spans ?spans" input] separated_apart [OF merged(1)]
    by (simp add: merge_spans_def is_char_boundary_def)
  also have "\<dots> = redact ps input"
    unfolding redact_def by (rule collapse_cong) (simp add: merge_spans_def merged(2) cov)
  finally have spliced: "splice input 0 (merge_spans ?spans) = redact ps input" .
  moreover have "redact ps input = input" if "ac input = []"
    using collapse_uncovered [of 0 input "covered ps input" False "[]"] cov that by (simp add: redact_def)
  ultimately show ?thesis by (auto simp: mask_with_automaton_def Let_def)
qed

lemma add_pattern_ok: "patterns_ok ps \<Longrightarrow> v \<noteq> [] \<Longrightarrow> valid_utf8 v \<Longrightarrow> patterns_ok (add_pattern X v ps)"
  unfolding add_pattern_def Let_def
  using base64_ascii hex_encode_ascii percent_encode_ascii
  by (simp add: insert_variant_ok insert_pattern_ok json_escape_not_Nil json_escape_valid valid_utf8_ascii)

lemma fold_ok:
  "(\<And>x ps. x \<in> set xs \<Longrightarrow> patterns_ok ps \<Longrightarrow> patterns_ok (f x ps)) \<Longrightarrow> patterns_ok ps \<Longrightarrow> patterns_ok (fold f xs ps)"
  by (induction xs arbitrary: ps) auto

lemma insert_secret_patterns_ok:
  assumes "patterns_ok ps" "valid_utf8 v"
  shows "patterns_ok (insert_secret_patterns X v ps)"
proof -
  have "valid_utf8 (trim v)" "\<forall>l \<in> set (split_lines (trim v)). valid_utf8 (trim l)"
    using assms valid_utf8_trim split_lines_valid by blast+
  then show ?thesis
    using assms unfolding insert_secret_patterns_def Let_def
    by (auto intro!: fold_ok add_pattern_ok simp: MIN_SECRET_LEN_def)
qed

lemma apply_op_ok:
  assumes "masker_ok X m" "\<forall>v \<in> set (op_values op). valid_utf8 v"
  shows "masker_ok X (apply_op X op m)"
proof -
  have "patterns_ok (patterns m)" using assms by (simp add: masker_ok_def)
  then have "patterns_ok (patterns (apply_op X op m))"
    using assms valid_utf8_trim split_lines_valid
    by (cases op)
       (auto simp: add_secret_def add_secrets_def add_mask_def rebuild_automaton_def insert_secret_patterns_ok
         intro!: fold_ok add_pattern_ok split: if_splits)
  then show ?thesis
    using assms by (cases op) (auto simp: masker_ok_def add_secret_def add_secrets_def add_mask_def rebuild_automaton_def)
qed

lemma register_ok:
  "masker_ok X m \<Longrightarrow> \<forall>op \<in> set ops. \<forall>v \<in> set (op_values op). valid_utf8 v \<Longrightarrow> masker_ok X (register X ops m)"
  unfolding register_def by (induction ops arbitrary: m) (auto simp: apply_op_ok)

lemma mask_redact:
  assumes "masker_ok X m" "automaton m \<noteq> None" "valid_utf8 input"
  shows "mask m input = redact (patterns m) input"
proof (cases "patterns m = []")
  case True
  then show ?thesis
    using collapse_uncovered [of 0 input "covered [] input" False "[]"] by (simp add: mask_def redact_def covered_iff)
next
  case False
  with assms automaton_redacts [of "patterns m"] show ?thesis
    by (auto simp: mask_def masker_ok_def patterns_ok_def)
qed

end

subsection \<open>A concrete environment\<close>

text \<open>A matcher that tries every offset, and base64 as RFC 4648 defines it.\<close>

definition scan_matcher :: "string list \<Rightarrow> matcher" where
  "scan_matcher ps s =
     concat (map (\<lambda>p. map (\<lambda>j. (j, j + length p)) (filter (occurs_at p s) [0..<Suc (length s)])) ps)"

definition base64_digit :: "nat \<Rightarrow> char" where
  "base64_digit n = char_of (if n < 26 then 65 + n else if n < 52 then 71 + n else if n < 62 then n - 4
     else if n = 62 then 43 else 47)"

fun base64_encode :: "bool \<Rightarrow> string \<Rightarrow> string" where
  "base64_encode pad [] = []"
| "base64_encode pad [a] =
     [base64_digit (ord a div 4), base64_digit (ord a mod 4 * 16)] @ (if pad then ''=='' else [])"
| "base64_encode pad [a, b] =
     [base64_digit (ord a div 4), base64_digit (ord a mod 4 * 16 + ord b div 16), base64_digit (ord b mod 16 * 4)]
     @ (if pad then ''='' else [])"
| "base64_encode pad (a # b # c # s) =
     [base64_digit (ord a div 4), base64_digit (ord a mod 4 * 16 + ord b div 16),
      base64_digit (ord b mod 16 * 4 + ord c div 64), base64_digit (ord c mod 64)] @ base64_encode pad s"

definition plain_masker_externs :: masker_externs where
  "plain_masker_externs = \<lparr>aho_build = (\<lambda>ps. Some (scan_matcher ps)),
     base64_standard = base64_encode True, base64_no_pad = base64_encode False\<rparr>"

lemma ord_base64_digit: "ord (base64_digit n) < 128"
  by (simp add: base64_digit_def of_char_of) linarith

lemma base64_encode_ascii: "\<forall>c \<in> set (base64_encode pad s). ord c < 128"
  by (induction pad s rule: base64_encode.induct) (auto simp: ord_base64_digit)

interpretation plain: masker_env plain_masker_externs
proof
  fix ps ac s
  assume "aho_build plain_masker_externs ps = Some ac"
  then have "ac = scan_matcher ps" by (simp add: plain_masker_externs_def)
  then show "set (ac s) = {(j, j + length p) | p j. p \<in> set ps \<and> occurs_at p s j}"
    unfolding scan_matcher_def using occurs_at_def [of _ s]
    by (auto simp del: upt_Suc simp: image_iff less_Suc_eq_le)
qed (simp_all add: plain_masker_externs_def base64_encode_ascii)

subsection \<open>Claims\<close>

text \<open>
  C1. After any sequence of registrations the masker's output is the redaction of its input: every
  character inside an occurrence of a registered pattern is gone, overlapping and adjacent
  occurrences leave one \<open>***\<close>, and every other character is kept in order.
\<close>

theorem mask_is_redaction:
  assumes "masker_env X" and "\<forall>op \<in> set ops. \<forall>v \<in> set (op_values op). valid_utf8 v" and "valid_utf8 input"
    and "m = register X ops new_masker" and "automaton m \<noteq> None"
  shows "mask m input = redact (patterns m) input"
proof -
  have "masker_ok X new_masker" by (simp add: masker_ok_def patterns_ok_def new_masker_def)
  then have "masker_ok X m" using masker_env.register_ok assms by blast
  then show ?thesis using masker_env.mask_redact assms by blast
qed

theorem mask_is_redaction_witness:
  "let m = register plain_masker_externs [Add_mask ''abc'', Add_mask ''xab''] new_masker
   in mask m ''xabc-cab'' = redact (patterns m) ''xabc-cab'' \<and> redact (patterns m) ''xabc-cab'' = ''***-cab''"
proof -
  let ?ops = "[Add_mask ''abc'', Add_mask ''xab'']"
  let ?m = "register plain_masker_externs ?ops new_masker"
  have "\<forall>op \<in> set ?ops. \<forall>v \<in> set (op_values op). valid_utf8 v" "valid_utf8 ''xabc-cab''" by code_simp+
  moreover have "trim ''abc'' = ''abc''" "trim ''xab'' = ''xab''" by code_simp+
  then have "automaton ?m \<noteq> None"
    by (simp add: register_def add_mask_def rebuild_automaton_def plain_masker_externs_def)
  ultimately have "mask ?m ''xabc-cab'' = redact (patterns ?m) ''xabc-cab''"
    by (intro mask_is_redaction [OF plain.masker_env_axioms]) auto
  moreover have "redact (patterns ?m) ''xabc-cab'' = ''***-cab''" by code_simp
  ultimately show ?thesis by (simp add: Let_def)
qed

definition secret_forms :: "masker_externs \<Rightarrow> string \<Rightarrow> string list" where
  "secret_forms X v = v # json_escape v # filter (\<lambda>w. MIN_SECRET_LEN \<le> length w)
     [base64_standard X v, base64_no_pad X v, hex_encode v False, hex_encode v True,
      percent_encode v True, percent_encode v False]"

lemma add_pattern_forms: "set (secret_forms X v) \<subseteq> set (add_pattern X v ps)"
  by (auto simp: secret_forms_def add_pattern_def Let_def insert_variant_def)

text \<open>
  C29. Once a secret of at least four bytes is registered, every form in which it can appear in a log
  line, its trimmed text and its JSON, base64, hexadecimal and percent encodings, stays covered
  whatever is registered later.
\<close>

theorem registered_secret_stays_covered:
  assumes "MIN_SECRET_LEN \<le> length (trim v)" and "form \<in> set (secret_forms X (trim v))"
    and "occurs_at form input j" and "j \<le> i" and "i < j + length form"
  shows "covered (patterns (register X later (add_secret X v m))) input i"
proof -
  have "form \<in> set (patterns (add_secret X v m))"
    using assms(1,2) add_pattern_forms [of X "trim v" "patterns m"] insert_secret_patterns_superset [of v X "patterns m"]
    by (auto simp: add_secret_def rebuild_automaton_def)
  then have "form \<in> set (patterns (register X later (add_secret X v m)))"
    using register_mono by blast
  with assms show ?thesis unfolding covered_iff by blast
qed

theorem registered_secret_stays_covered_witness:
  "covered (patterns (register plain_masker_externs [Add_mask ''q''] (add_secret plain_masker_externs '' hunter2 '' new_masker)))
     ''user:aHVudGVyMg=='' 7"
proof (rule registered_secret_stays_covered [where form = "''aHVudGVyMg==''" and j = 5])
  show "MIN_SECRET_LEN \<le> length (trim '' hunter2 '')"
    "''aHVudGVyMg=='' \<in> set (secret_forms plain_masker_externs (trim '' hunter2 ''))"
    "occurs_at ''aHVudGVyMg=='' ''user:aHVudGVyMg=='' 5" by code_simp+
qed simp_all

subsection \<open>The replace loop\<close>

lemma sublist_across:
  assumes "sublist q (a @ c # b)" "c \<notin> set q"
  shows "sublist q a \<or> sublist q b"
proof -
  from assms obtain u v where "a @ c # b = u @ q @ v" by (auto simp: sublist_def)
  then consider w where "a = u @ w" "w @ c # b = q @ v" | w where "u = a @ w" "c # b = w @ q @ v"
    by (auto simp: append_eq_append_conv2)
  then show ?thesis
  proof cases
    case (1 w)
    then obtain w' where "w = q @ w'" using assms(2) by (auto simp: append_eq_append_conv2 Cons_eq_append_conv)
    with 1 show ?thesis by auto
  next
    case (2 w)
    then have "w \<noteq> [] \<or> q = []" using assms(2) by (auto simp: append_eq_Cons_conv Cons_eq_append_conv)
    with 2 show ?thesis by (cases w) auto
  qed
qed

lemma sublist_stars:
  assumes "sublist q (a @ ''***'' @ b)" "CHR ''*'' \<notin> set q" "q \<noteq> []"
  shows "sublist q a \<or> sublist q b"
  using sublist_across [of q a "CHR ''*''" "''**'' @ b"] sublist_across [of q "[]" "CHR ''*''" "''*'' @ b"]
    sublist_across [of q "[]" "CHR ''*''" b] assms by auto

lemma find_str_first_block:
  assumes "find_str p s = Some i" "p \<noteq> []"
  shows "\<not> sublist p (take i s)"
proof
  assume "sublist p (take i s)"
  then obtain a b where ab: "take i s = a @ p @ b" by (auto simp: sublist_def)
  then have "length a < i" using assms(2) by (metis length_append length_take add_less_cancel_left length_greater_0_conv
        less_add_same_cancel1 min.strict_boundedE not_less_iff_gr_or_eq trans_less_add1 add.assoc le_add1 le_neq_implies_less min.bounded_iff)
  moreover have "s = a @ p @ b @ drop i s" using ab by (metis append_take_drop_id append.assoc)
  then have "take (length p) (drop (length a) s) = p" by (metis append_eq_conv_conj)
  ultimately show False using find_str_least [OF assms(1)] by blast
qed

lemma replace_all_no_pattern:
  assumes "CHR ''*'' \<notin> set p" "p \<noteq> []"
  shows "\<not> sublist p (replace_all p ''***'' s)"
proof (induction s rule: length_induct)
  case (1 s)
  show ?case
  proof (cases "find_str p s")
    case None
    then show ?thesis using contains_block_sublist [of s p] by (simp add: replace_all.simps contains_block_def)
  next
    case (Some i)
    have "length (drop (i + length p) s) < length s"
      using find_str_Some [OF Some] assms(2) by (cases p) auto
    with 1 Some find_str_first_block [OF Some assms(2)] assms show ?thesis
      using sublist_stars [of p "take i s" "replace_all p ''***'' (drop (i + length p) s)"]
      by (subst replace_all.simps) auto
  qed
qed

lemma replace_all_keeps_absent:
  assumes "CHR ''*'' \<notin> set q" "q \<noteq> []"
  shows "\<not> sublist q s \<Longrightarrow> \<not> sublist q (replace_all p ''***'' s)"
proof (induction s rule: length_induct)
  case (1 s)
  show ?case
  proof (cases "find_str p s = None \<or> p = []")
    case True
    then show ?thesis using "1.prems" by (subst replace_all.simps) (auto split: option.splits)
  next
    case False
    then obtain i where i: "find_str p s = Some i" and p: "p \<noteq> []" by auto
    have "length (drop (i + length p) s) < length s"
      using find_str_Some [OF i] p by (cases p) auto
    moreover have "\<not> sublist q (take i s)" "\<not> sublist q (drop (i + length p) s)"
      using "1.prems" sublist_order.order.trans sublist_take sublist_drop by blast+
    ultimately show ?thesis
      using "1.IH" i p assms sublist_stars [of q "take i s" "replace_all p ''***'' (drop (i + length p) s)"]
      by (subst replace_all.simps) auto
  qed
qed

text \<open>
  The fallback for a failed automaton build hides every pattern too: when no pattern contains an
  asterisk, the output contains none of the registered patterns.
\<close>

theorem fallback_leaves_no_pattern:
  assumes "automaton m = None" and "\<forall>p \<in> set (patterns m). p \<noteq> [] \<and> CHR ''*'' \<notin> set p"
    and "p \<in> set (patterns m)"
  shows "\<not> sublist p (mask m input)"
proof -
  have keep: "\<not> sublist q (fold (\<lambda>p s. replace_all p ''***'' s) ps s)"
    if "\<not> sublist q s" "q \<noteq> []" "CHR ''*'' \<notin> set q" for q ps s
    using that by (induction ps arbitrary: s) (auto simp: replace_all_keeps_absent)
  have "\<not> sublist q (fold (\<lambda>p s. replace_all p ''***'' s) ps s)"
    if "q \<in> set ps" "q \<noteq> []" "CHR ''*'' \<notin> set q" for q ps s
    using that
  proof (induction ps arbitrary: s)
    case (Cons p ps)
    then show ?case using keep [OF replace_all_no_pattern] by (cases "q = p") auto
  qed simp
  with assms show ?thesis by (auto simp: mask_def mask_with_replace_loop_def)
qed

theorem fallback_leaves_no_pattern_witness:
  "\<not> sublist ''abc'' (mask \<lparr>patterns = [''abcd'', ''abc''], automaton = None\<rparr> ''xabcdabcabc'')"
  by (rule fallback_leaves_no_pattern) auto

text \<open>
  The pattern list stays sorted longest first and free of duplicates under every registration,
  the precondition of \<open>partition_point\<close> and of the fallback.
\<close>

theorem patterns_stay_sorted:
  assumes "masker_env X" and "\<forall>op \<in> set ops. \<forall>v \<in> set (op_values op). valid_utf8 v"
  shows "masker_ok X (register X ops new_masker)"
  using assms masker_env.register_ok [of X new_masker ops]
  by (simp add: masker_ok_def patterns_ok_def new_masker_def)

theorem patterns_stay_sorted_witness:
  "masker_ok plain_masker_externs (register plain_masker_externs [Add_secret ''password'', Add_mask ''x''] new_masker)"
proof (rule patterns_stay_sorted [OF plain.masker_env_axioms])
  show "\<forall>op \<in> set [Add_secret ''password'', Add_mask ''x'']. \<forall>v \<in> set (op_values op). valid_utf8 v" by code_simp
qed

end
