(* ===== verification/Command_Parser.thy ===== *)
theory Command_Parser
  imports Utf8 Complex_Main
begin

text \<open>
  \<open>crates/execution/src/execution/command_parser.rs\<close> (workflow commands on a step's output) and the
  escape rules of \<open>command_dispatch.rs\<close>. Property tables are maps, 32-bit integers are integers whose
  range \<open>parse_i32\<close> checks.
\<close>

subsection \<open>Commands\<close>

datatype workflow_command =
    Error string "string option" "int option" "int option" "int option" "int option" "string option"
  | Warning string "string option" "int option" "int option" "int option" "int option" "string option"
  | Notice string "string option" "int option" "int option" "int option" "int option" "string option"
  | AddMatcher string
  | RemoveMatcher "string option" string
  | Debug string
  | Group string
  | EndGroup
  | SetOutput string string
  | AddMask string
  | SaveState string string
  | AddPath string
  | SetEnv string string
  | Echo bool
  | StopCommands string
  | ResumeCommands string

datatype annotation_kind = Kind_Error | Kind_Warning | Kind_Notice

type_synonym props = "string \<rightharpoonup> string"

text \<open>\<open>str::parse::<i32>\<close>: an optional sign, at least one digit, in range.\<close>

definition parse_digits :: "string \<Rightarrow> nat option" where
  "parse_digits s = (if s \<noteq> [] \<and> list_all is_ascii_digit s then Some (digits_val 0 s) else None)"

definition parse_i32 :: "string \<Rightarrow> int option" where
  "parse_i32 s =
     (let (neg, ds) = (case s of c # r \<Rightarrow> if c = CHR ''-'' then (True, r) else if c = CHR ''+'' then (False, r) else (False, s)
                       | [] \<Rightarrow> (False, []))
      in case parse_digits ds of
           None \<Rightarrow> None
         | Some n \<Rightarrow> let i = (if neg then - int n else int n)
                     in if - (2 ^ 31) \<le> i \<and> i < 2 ^ 31 then Some i else None)"

text \<open>\<open>str::split_once\<close> at a string.\<close>

definition split_once_str :: "string \<Rightarrow> string \<Rightarrow> (string \<times> string) option" where
  "split_once_str p s = map_option (\<lambda>i. (take i s, drop (i + length p) s)) (find_str p s)"

definition parse_props :: "string \<Rightarrow> props" where
  "parse_props s = fold (\<lambda>pair m. case split_once_char (CHR ''='') pair of
       Some (key, value) \<Rightarrow> m(trim key \<mapsto> trim value)
     | None \<Rightarrow> m) (split_char (CHR '','') s) Map.empty"

definition split_command_and_props :: "string \<Rightarrow> string \<times> props" where
  "split_command_and_props head =
     (case find_str '' '' head of
        Some i \<Rightarrow> (take i head, parse_props (drop (i + 1) head))
      | None \<Rightarrow> (head, Map.empty))"

definition bind_parse :: "string option \<Rightarrow> int option" where
  "bind_parse raw = (case raw of Some v \<Rightarrow> parse_i32 v | None \<Rightarrow> None)"

definition option_or :: "'a option \<Rightarrow> 'a option \<Rightarrow> 'a option" where
  "option_or a b = (case a of Some _ \<Rightarrow> a | None \<Rightarrow> b)"

definition zip_backwards :: "int option \<Rightarrow> int option \<Rightarrow> bool" where
  "zip_backwards a b = (case (a, b) of (Some s, Some e) \<Rightarrow> e < s | _ \<Rightarrow> False)"

text \<open>The same sequence of adjustments, one \<open>let\<close> per assignment.\<close>

definition normalized_range :: "props \<Rightarrow> int option \<times> int option \<times> int option \<times> int option" where
  "normalized_range props =
     (let start_line_raw = props ''line'';
          end_line_raw = props ''endLine'';
          line = bind_parse start_line_raw;
          end_line = bind_parse end_line_raw;
          col = bind_parse (props ''col'');
          end_column = bind_parse (props ''endColumn'');
          line = (if end_line \<noteq> None \<and> line = None then end_line else line);
          col = (if end_column \<noteq> None \<and> col = None then end_column else col);
          (col, end_column) = (if line = None then (None, None) else (col, end_column));
          effective_start_raw = (if bind_parse start_line_raw \<noteq> None then start_line_raw else end_line_raw);
          (col, end_column) =
            (if end_line \<noteq> None \<and> effective_start_raw \<noteq> end_line_raw \<and> col \<noteq> None then (None, None) else (col, end_column));
          (line, end_line) = (if zip_backwards line end_line then (None, None) else (line, end_line));
          (col, end_column) = (if zip_backwards col end_column then (None, None) else (col, end_column));
          end_line = option_or end_line line;
          end_column = option_or end_column col
      in (line, col, end_line, end_column))"

definition build_annotation :: "string \<Rightarrow> props \<Rightarrow> annotation_kind \<Rightarrow> workflow_command" where
  "build_annotation message props kind =
     (let file = props ''file'';
          (line, col, end_line, end_column) = normalized_range props;
          title = props ''title''
      in case kind of
           Kind_Error \<Rightarrow> Error message file line col end_line end_column title
         | Kind_Warning \<Rightarrow> Warning message file line col end_line end_column title
         | Kind_Notice \<Rightarrow> Notice message file line col end_line end_column title)"

definition unwrap_or_default :: "string option \<Rightarrow> string" where
  "unwrap_or_default x = (case x of Some v \<Rightarrow> v | None \<Rightarrow> [])"

text \<open>The \<open>match command\<close> of \<open>parse_command\<close>.\<close>

definition command_of :: "string \<Rightarrow> props \<Rightarrow> string \<Rightarrow> workflow_command option" where
  "command_of command props value =
     (if command = ''error'' then Some (build_annotation value props Kind_Error)
      else if command = ''warning'' then Some (build_annotation value props Kind_Warning)
      else if command = ''notice'' then Some (build_annotation value props Kind_Notice)
      else if command = ''add-matcher'' then Some (AddMatcher value)
      else if command = ''remove-matcher'' then Some (RemoveMatcher (props ''owner'') value)
      else if command = ''debug'' then Some (Debug value)
      else if command = ''group'' then Some (Group value)
      else if command = ''endgroup'' then Some EndGroup
      else if command = ''set-output'' then Some (SetOutput (unwrap_or_default (props ''name'')) value)
      else if command = ''add-mask'' then Some (AddMask value)
      else if command = ''save-state'' then Some (SaveState (unwrap_or_default (props ''name'')) value)
      else if command = ''add-path'' then Some (AddPath value)
      else if command = ''set-env'' then Some (SetEnv (unwrap_or_default (props ''name'')) value)
      else if command = ''echo'' then Some (Echo (eq_ignore_ascii_case (trim value) ''on''))
      else if command = ''stop-commands'' then Some (StopCommands value)
      else None)"

definition parse_command :: "string \<Rightarrow> workflow_command option" where
  "parse_command line =
     Option.bind (strip_prefix_str ''::'' line) (\<lambda>rest.
     Option.bind (split_once_str ''::'' rest) (\<lambda>(head, value).
       let (command, props) = split_command_and_props head
       in command_of command props value))"

subsection \<open>Escapes\<close>

definition to_ascii_upper :: "char \<Rightarrow> char" where
  "to_ascii_upper c = (if is_ascii_lowercase c then char_of (ord c - 32) else c)"

definition decode_data_escape :: "string \<Rightarrow> char option" where
  "decode_data_escape slice =
     (let u = map to_ascii_upper slice
      in if u = ''25'' then Some (CHR ''%'')
         else if u = ''0D'' then Some (CHR 0x0D)
         else if u = ''0A'' then Some (CHR 0x0A)
         else None)"

definition decode_property_escape :: "string \<Rightarrow> char option" where
  "decode_property_escape slice =
     (let u = map to_ascii_upper slice
      in if u = ''3A'' then Some (CHR '':'')
         else if u = ''2C'' then Some (CHR '','')
         else decode_data_escape slice)"

text \<open>
  The scan. The source copies an unrecognised character with all its bytes; copying the leading byte
  and going on is the same, since a continuation byte is never a percent sign.
\<close>

function unescape_loop :: "(string \<Rightarrow> char option) \<Rightarrow> string \<Rightarrow> string" where
  "unescape_loop decode [] = []"
| "unescape_loop decode (c # s) =
     (case (if c = CHR ''%'' then Option.bind (str_get s 0 2) decode else None) of
        Some r \<Rightarrow> r # unescape_loop decode (drop 2 s)
      | None \<Rightarrow> c # unescape_loop decode s)"
  by pat_completeness auto
termination by (relation "measure (\<lambda>(decode, s). length s)") auto

definition unescape_with :: "(string \<Rightarrow> char option) \<Rightarrow> string \<Rightarrow> string" where
  "unescape_with decode value = (if CHR ''%'' \<in> set value then unescape_loop decode value else value)"

definition unescape_data :: "string \<Rightarrow> string" where
  "unescape_data value = unescape_with decode_data_escape value"

definition unescape_property :: "string \<Rightarrow> string" where
  "unescape_property value = unescape_with decode_property_escape value"

subsection \<open>Stop tokens\<close>

definition reserved_stop_tokens :: "string list" where
  "reserved_stop_tokens = [''error'', ''warning'', ''notice'', ''debug'', ''group'', ''endgroup'', ''set-output'',
     ''add-mask'', ''save-state'', ''add-path'', ''set-env'', ''echo'', ''stop-commands'', ''pause-logging'',
     ''add-matcher'', ''remove-matcher'']"

definition is_reserved_stop_token :: "string \<Rightarrow> bool" where
  "is_reserved_stop_token token \<longleftrightarrow> list_ex (\<lambda>r. eq_ignore_ascii_case token r) reserved_stop_tokens"

definition validated_stop_token :: "string \<Rightarrow> string option" where
  "validated_stop_token token = (if token = [] \<or> is_reserved_stop_token token then None else Some token)"

definition strip_suffix_str :: "string \<Rightarrow> string \<Rightarrow> string option" where
  "strip_suffix_str p s = (if ends_with s p then Some (take (length s - length p) s) else None)"

definition is_resume_marker :: "string \<Rightarrow> string \<Rightarrow> bool" where
  "is_resume_marker line token =
     (case strip_prefix_str ''::'' (trim line) of
        None \<Rightarrow> False
      | Some inner \<Rightarrow> (case strip_suffix_str ''::'' inner of None \<Rightarrow> False | Some inner \<Rightarrow> inner = token))"

subsection \<open>Normalised ranges\<close>

definition in_i32 :: "int option \<Rightarrow> bool" where
  "in_i32 x \<longleftrightarrow> (case x of Some i \<Rightarrow> - (2 ^ 31) \<le> i \<and> i < 2 ^ 31 | None \<Rightarrow> True)"

definition range_consistent :: "int option \<times> int option \<times> int option \<times> int option \<Rightarrow> bool" where
  "range_consistent r \<longleftrightarrow> (case r of (line, col, end_line, end_column) \<Rightarrow>
     in_i32 line \<and> in_i32 col \<and> in_i32 end_line \<and> in_i32 end_column
     \<and> (case (line, end_line) of (None, None) \<Rightarrow> True | (Some l, Some e) \<Rightarrow> l \<le> e | _ \<Rightarrow> False)
     \<and> (case (col, end_column) of (None, None) \<Rightarrow> True | (Some c, Some e) \<Rightarrow> c \<le> e \<and> line \<noteq> None \<and> line = end_line | _ \<Rightarrow> False))"

lemma bind_parse_range: "in_i32 (bind_parse raw)"
  by (auto simp: in_i32_def bind_parse_def parse_i32_def Let_def split: option.splits if_splits list.splits prod.splits)

text \<open>
  The line and column range of an annotation is always consistent: every coordinate fits 32 bits,
  the end never precedes the start, start and end are present together, and columns are only
  reported for a range within a single line.
\<close>

theorem normalized_range_consistent: "range_consistent (normalized_range props)"
proof -
  note in_range = bind_parse_range [of "props ''line''"] bind_parse_range [of "props ''endLine''"]
    bind_parse_range [of "props ''col''"] bind_parse_range [of "props ''endColumn''"]
  show ?thesis
    using in_range
    by (cases "bind_parse (props ''line'')"; cases "bind_parse (props ''endLine'')"; cases "bind_parse (props ''col'')";
        cases "bind_parse (props ''endColumn'')")
       (simp_all add: normalized_range_def Let_def range_consistent_def option_or_def zip_backwards_def in_i32_def, auto)
qed

subsection \<open>Issued commands\<close>

text \<open>
  The writer's side of the protocol, as the workflow toolkit documents it: percent, carriage return
  and line feed are escaped in data, and the delimiters of properties in property values too.
\<close>

definition escape_data :: "string \<Rightarrow> string" where
  "escape_data s = concat (map (\<lambda>c. if c = CHR ''%'' then ''%25'' else if c = CHR 0x0D then ''%0D''
     else if c = CHR 0x0A then ''%0A'' else [c]) s)"

definition escape_property :: "string \<Rightarrow> string" where
  "escape_property s = concat (map (\<lambda>c. if c = CHR ''%'' then ''%25'' else if c = CHR 0x0D then ''%0D''
     else if c = CHR 0x0A then ''%0A'' else if c = CHR '':'' then ''%3A'' else if c = CHR '','' then ''%2C'' else [c]) s)"

definition issue_command :: "string \<Rightarrow> (string \<times> string) list \<Rightarrow> string \<Rightarrow> string" where
  "issue_command name kvs message =
     ''::'' @ name @ (if kvs = [] then [] else '' '' @ join_str '','' (map (\<lambda>(k, v). k @ ''='' @ escape_property v) kvs))
     @ ''::'' @ escape_data message"

definition boundary_safe :: "string \<Rightarrow> bool" where
  "boundary_safe s \<longleftrightarrow> (\<forall>a c b. s = a @ c # b \<and> ord c < 128 \<longrightarrow> b = [] \<or> \<not> utf8_cont (ord (hd b)))"

lemma valid_boundary_safe: "valid_utf8 s \<Longrightarrow> boundary_safe s"
  unfolding boundary_safe_def using valid_utf8_split valid_utf8_hd by blast

lemma boundary_safe_Cons: "boundary_safe (c # s) \<Longrightarrow> boundary_safe s \<and> (ord c < 128 \<longrightarrow> s = [] \<or> \<not> utf8_cont (ord (hd s)))"
  unfolding boundary_safe_def by (metis append_Cons append_Nil)

lemma str_get_two: "s = [] \<or> \<not> utf8_cont (ord (hd s)) \<Longrightarrow> str_get (a # b # s) 0 2 = Some [a, b]"
  by (cases s) (auto simp: str_get_def is_char_boundary_def)

text \<open>An encoder that writes each character as itself or as a recognised escape.\<close>

definition encodes :: "(string \<Rightarrow> char option) \<Rightarrow> (char \<Rightarrow> string) \<Rightarrow> bool" where
  "encodes decode enc \<longleftrightarrow> (\<forall>c. enc c = [c] \<and> c \<noteq> CHR ''%'' \<or> ord c < 128 \<and> (\<exists>a b. enc c = [CHR ''%'', a, b] \<and> decode [a, b] = Some c))"

lemma unescape_encoded:
  assumes "encodes decode enc" "boundary_safe s"
  shows "unescape_loop decode (concat (map enc s)) = s"
  using assms(2)
proof (induction s)
  case (Cons c s)
  have tail: "boundary_safe s" "ord c < 128 \<Longrightarrow> s = [] \<or> \<not> utf8_cont (ord (hd s))"
    using boundary_safe_Cons [OF Cons.prems] by auto
  have hd_ok: "concat (map enc s) = [] \<or> \<not> utf8_cont (ord (hd (concat (map enc s))))"
    if "s = [] \<or> \<not> utf8_cont (ord (hd s))"
  proof (cases s)
    case (Cons d t)
    have "enc d = [d] \<or> (\<exists>a b. enc d = [CHR ''%'', a, b])" using assms(1) unfolding encodes_def by blast
    with that Cons show ?thesis by (auto simp: utf8_cont_def)
  qed simp
  from assms(1) consider "enc c = [c]" "c \<noteq> CHR ''%''"
    | a b where "enc c = [CHR ''%'', a, b]" "decode [a, b] = Some c" "ord c < 128"
    unfolding encodes_def by blast
  then show ?case
  proof cases
    case 1
    with Cons.IH tail show ?thesis by simp
  next
    case (2 a b)
    with tail hd_ok have "str_get (a # b # concat (map enc s)) 0 2 = Some [a, b]" by (intro str_get_two) blast
    with 2 Cons.IH tail show ?thesis by simp
  qed
qed simp

text \<open>Without a percent sign nothing is decoded.\<close>

lemma unescape_loop_plain: "CHR ''%'' \<notin> set s \<Longrightarrow> unescape_loop decode s = s"
  by (induction s) auto

lemma unescape_with_loop: "unescape_with decode s = unescape_loop decode s"
  by (simp add: unescape_with_def unescape_loop_plain)

lemma unescape_data_escape: "valid_utf8 s \<Longrightarrow> unescape_data (escape_data s) = s"
proof -
  let ?enc = "\<lambda>c. if c = CHR ''%'' then ''%25'' else if c = CHR 0x0D then ''%0D''
     else if c = CHR 0x0A then ''%0A'' else [c]"
  have "encodes decode_data_escape ?enc"
    by (auto simp: encodes_def decode_data_escape_def to_ascii_upper_def ascii_simps)
  then show "valid_utf8 s \<Longrightarrow> unescape_data (escape_data s) = s"
    unfolding escape_data_def unescape_data_def unescape_with_loop
    by (rule unescape_encoded [OF _ valid_boundary_safe])
qed

lemma unescape_property_escape: "valid_utf8 s \<Longrightarrow> unescape_property (escape_property s) = s"
proof -
  let ?enc = "\<lambda>c. if c = CHR ''%'' then ''%25'' else if c = CHR 0x0D then ''%0D''
     else if c = CHR 0x0A then ''%0A'' else if c = CHR '':'' then ''%3A'' else if c = CHR '','' then ''%2C'' else [c]"
  have "encodes decode_property_escape ?enc"
    by (auto simp: encodes_def decode_property_escape_def decode_data_escape_def to_ascii_upper_def ascii_simps)
  then show "valid_utf8 s \<Longrightarrow> unescape_property (escape_property s) = s"
    unfolding escape_property_def unescape_property_def unescape_with_loop
    by (rule unescape_encoded [OF _ valid_boundary_safe])
qed

lemma escape_property_delimiters: "CHR '':'' \<notin> set (escape_property s)" "CHR '','' \<notin> set (escape_property s)"
  by (auto simp: escape_property_def split: if_splits)

lemma split_join_char:
  "xs \<noteq> [] \<Longrightarrow> \<forall>x \<in> set xs. c \<notin> set x \<Longrightarrow> split_char c (join_str [c] xs) = xs"
proof (induction "[c]" xs rule: join_str.induct)
  case (2 x)
  then have "c \<notin> set x" by simp
  then show ?case by (induction x) auto
next
  case (3 x y xs)
  have "c \<notin> set x" "split_char c (join_str [c] (y # xs)) = y # xs" using 3 by auto
  then show ?case by (induction x) auto
qed simp

lemma find_str_after:
  "p = c # p' \<Longrightarrow> c \<notin> set a \<Longrightarrow> find_str p (a @ p @ b) = Some (length a)"
proof (induction a)
  case Nil
  then show ?case by (cases b) (auto simp: starts_with_def)
next
  case (Cons x a)
  then show ?case by (auto simp: starts_with_def)
qed

lemma fold_map_update:
  "distinct (map fst kvs) \<Longrightarrow> fold (\<lambda>kv m. m(fst kv \<mapsto> snd kv)) kvs m = m ++ map_of kvs"
proof (induction kvs arbitrary: m)
  case (Cons kv kvs)
  obtain k v where kv: "kv = (k, v)" by force
  then have "k \<notin> dom (map_of kvs)" using Cons.prems by (simp add: dom_map_of_conv_image_fst)
  with Cons kv show ?case by (simp add: map_add_upd_left del: fun_upd_apply)
qed simp
definition plain_key :: "string \<Rightarrow> bool" where
  "plain_key k \<longleftrightarrow> set k \<inter> {CHR ''='', CHR '','', CHR '':''} = {} \<and> trim k = k"

definition plain_props :: "(string \<times> string) list \<Rightarrow> bool" where
  "plain_props kvs \<longleftrightarrow> distinct (map fst kvs) \<and>
     (\<forall>(k, v) \<in> set kvs. plain_key k \<and> valid_utf8 v \<and> trim (escape_property v) = escape_property v)"

lemma parse_props_issued:
  assumes "plain_props kvs" "kvs \<noteq> []"
  shows "parse_props (join_str '','' (map (\<lambda>(k, v). k @ ''='' @ escape_property v) kvs)) =
    map_of (map (\<lambda>(k, v). (k, escape_property v)) kvs)"
proof -
  let ?kv = "\<lambda>(k, v). k @ ''='' @ escape_property v"
  let ?upd = "\<lambda>pair m. case split_once_char (CHR ''='') pair of
       Some (key, value) \<Rightarrow> m(trim key \<mapsto> trim value) | None \<Rightarrow> m"
  have "split_char (CHR '','') (join_str '','' (map ?kv kvs)) = map ?kv kvs"
    using assms by (intro split_join_char) (auto simp: plain_props_def plain_key_def escape_property_delimiters)
  moreover have "fold ?upd (map ?kv kvs) m = fold (\<lambda>kv m. m(fst kv \<mapsto> snd kv)) (map (\<lambda>(k, v). (k, escape_property v)) kvs) m"
    if "plain_props kvs" for m kvs
    using that
  proof (induction kvs arbitrary: m)
    case (Cons kv kvs)
    obtain k v where kv: "kv = (k, v)" by force
    have "split_once_char (CHR ''='') (k @ ''='' @ escape_property v) = Some (k, escape_property v)"
      using Cons.prems kv by (simp add: split_once_char_Some plain_props_def plain_key_def)
    moreover have "trim k = k" "trim (escape_property v) = escape_property v" "plain_props kvs"
      using Cons.prems kv by (auto simp: plain_props_def plain_key_def)
    ultimately show ?case using Cons.IH kv by (simp del: fun_upd_apply)
  qed simp
  moreover have "distinct (map fst (map (\<lambda>(k, v). (k, escape_property v)) kvs))"
    using assms by (simp add: plain_props_def comp_def case_prod_beta)
  ultimately show ?thesis
    using assms by (simp add: parse_props_def fold_map_update)
qed

lemma parse_command_issued:
  assumes "CHR '' '' \<notin> set name" "CHR '':'' \<notin> set name" "plain_props kvs"
  shows "parse_command (issue_command name kvs message) =
    command_of name (map_of (map (\<lambda>(k, v). (k, escape_property v)) kvs)) (escape_data message)"
proof -
  let ?ps = "join_str '','' (map (\<lambda>(k, v). k @ ''='' @ escape_property v) kvs)"
  let ?head = "name @ (if kvs = [] then [] else '' '' @ ?ps)"
  have joined: "CHR '':'' \<notin> set (join_str '','' xs)" if "\<forall>x \<in> set xs. CHR '':'' \<notin> set x" for xs
    using that by (induction "'',''" xs rule: join_str.induct) auto
  have "CHR '':'' \<notin> set ?ps"
    using assms(3) by (intro joined) (auto simp: plain_props_def plain_key_def escape_property_delimiters)
  then have "find_str ''::'' (?head @ ''::'' @ escape_data message) = Some (length ?head)"
    using assms by (intro find_str_after) auto
  then have "split_once_str ''::'' (?head @ ''::'' @ escape_data message) = Some (?head, escape_data message)"
    by (simp add: split_once_str_def)
  moreover have "split_command_and_props ?head = (name, map_of (map (\<lambda>(k, v). (k, escape_property v)) kvs))"
  proof (cases "kvs = []")
    case True
    have "find_str '' '' name = None"
    proof (cases "find_str '' '' name")
      case (Some i)
      then have "take 1 (drop i name) = '' ''" using find_str_Some by fastforce
      then have "CHR '' '' \<in> set (drop i name)" by (metis list.set_intros(1) in_set_takeD)
      with assms(1) show ?thesis by (meson in_set_dropD)
    qed
    with True show ?thesis by (simp add: split_command_and_props_def)
  next
    case False
    have "find_str '' '' (name @ '' '' @ ?ps) = Some (length name)"
      using assms(1) by (intro find_str_after) auto
    with False parse_props_issued [OF assms(3) False] show ?thesis by (simp add: split_command_and_props_def)
  qed
  ultimately show ?thesis
    by (simp add: parse_command_def issue_command_def strip_prefix_str_def)
qed



lemma find_str_no_head: "p = c # p' \<Longrightarrow> c \<notin> set s \<Longrightarrow> find_str p s = None"
  by (induction s) (auto simp: starts_with_def)

text \<open>
  An accepted stop token cannot be confused with a command: its resume marker is not a workflow
  command line, for every token free of the two delimiters of the command syntax.
\<close>

theorem resume_marker_is_no_command:
  assumes "validated_stop_token token = Some t" and "CHR '' '' \<notin> set token" and "CHR '':'' \<notin> set token"
  shows "t = token \<and> parse_command (''::'' @ token @ ''::'') = None"
proof -
  have t: "t = token" "\<not> is_reserved_stop_token token"
    using assms(1) by (auto simp: validated_stop_token_def split: if_splits)
  have "find_str ''::'' (token @ ''::'' @ []) = Some (length token)"
    using assms(3) by (intro find_str_after) auto
  moreover have "find_str '' '' token = None" using assms(2) by (intro find_str_no_head) auto
  ultimately have "parse_command (''::'' @ token @ ''::'') = command_of token Map.empty []"
    by (simp add: parse_command_def strip_prefix_str_def split_once_str_def split_command_and_props_def)
  moreover have "token \<notin> set reserved_stop_tokens"
    using t(2) eq_ignore_ascii_case_refl by (auto simp: is_reserved_stop_token_def list_ex_iff)
  ultimately show ?thesis using t(1) by (simp add: command_of_def reserved_stop_tokens_def)
qed

theorem resume_marker_is_no_command_witness:
  "''pause-7'' = ''pause-7'' \<and> parse_command (''::'' @ ''pause-7'' @ ''::'') = None"
proof (rule resume_marker_is_no_command)
  show "validated_stop_token ''pause-7'' = Some ''pause-7''" by code_simp
qed simp_all

end
