(* ===== verification/Problem_Matcher.thy ===== *)
theory Problem_Matcher
  imports Command_Parser
begin

text \<open>
  Problem matchers: \<open>problem_matcher_model.rs\<close> (validation of matcher documents),
  \<open>problem_matcher.rs\<close> (the job's registry) and \<open>problem_matcher_state.rs\<close> (multi-line matching).

  The \<open>regex\<close> and \<open>serde_json\<close> crates are parameters: a compiled expression is its number of groups and
  its capture function, a document is decoded to raw matchers or to an error position. A definition
  shared through \<open>Arc\<close> carries the identity of its allocation, which the registry hands out.
\<close>

subsection \<open>Definitions\<close>

record regex =
  captures :: "string \<Rightarrow> (nat \<Rightarrow> string option) option"
  captures_len :: nat

record capture_fields =
  cf_file :: "nat option"
  cf_line :: "nat option"
  cf_column :: "nat option"
  cf_severity :: "nat option"
  cf_code :: "nat option"
  cf_message :: "nat option"
  cf_from_path :: "nat option"

record pattern_definition =
  pd_regex :: regex
  pd_captures :: capture_fields
  pd_loop :: bool

record matcher_definition =
  md_ident :: nat
  md_owner_key :: string
  md_severity :: "string option"
  md_from_path :: "string option"
  md_patterns :: "pattern_definition list"

record raw_pattern =
  rp_regexp :: "string option"
  rp_fields :: capture_fields
  rp_loop :: bool

record raw_matcher =
  rm_owner :: "string option"
  rm_severity :: "string option"
  rm_from_path :: "string option"
  rm_pattern :: "raw_pattern list option"

record matcher_externs =
  regex_build :: "nat \<Rightarrow> string \<Rightarrow> regex option"
  matcher_file :: "string \<Rightarrow> (nat \<times> nat, raw_matcher list option) result"
  removal_file :: "string \<Rightarrow> (nat \<times> nat, string option list option) result"

definition MAX_JSON_BYTES :: nat where "MAX_JSON_BYTES = 1024 * 1024"
definition MAX_OWNERS :: nat where "MAX_OWNERS = 64"
definition MAX_PATTERNS :: nat where "MAX_PATTERNS = 32"
definition MAX_REGEX_BYTES :: nat where "MAX_REGEX_BYTES = 16 * 1024"
definition MAX_REGEX_SIZE :: nat where "MAX_REGEX_SIZE = 256 * 1024"
definition MAX_LINE_BYTES :: nat where "MAX_LINE_BYTES = 64 * 1024"

subsection \<open>Validation\<close>

text \<open>The seven fields in the order the source lists them.\<close>

definition field_indices :: "capture_fields \<Rightarrow> nat option list" where
  "field_indices f = [cf_file f, cf_line f, cf_column f, cf_severity f, cf_code f, cf_message f, cf_from_path f]"

definition validate_capture_fields :: "capture_fields \<Rightarrow> nat \<Rightarrow> (string, unit) result" where
  "validate_capture_fields fs n =
     (if list_ex (\<lambda>i. case i of Some i \<Rightarrow> n \<le> i | None \<Rightarrow> False) (field_indices fs)
      then Err ''problem matcher capture index is out of range'' else Ok ())"

text \<open>Returns the updated \<open>assigned_fields\<close>.\<close>

definition validate_field_assignments :: "capture_fields \<Rightarrow> bool list \<Rightarrow> (string, bool list) result" where
  "validate_field_assignments fs assigned_fields =
     (let assigned = map (\<lambda>i. i \<noteq> None) (field_indices fs)
      in if list_ex (\<lambda>(seen, a). seen \<and> a) (zip assigned_fields assigned)
         then Err ''a problem matcher field may only be assigned once''
         else Ok (map (\<lambda>(seen, a). seen \<or> a) (zip assigned_fields assigned)))"

definition validate_severity :: "string option \<Rightarrow> (string, string option) result" where
  "validate_severity severity =
     (case severity of
        None \<Rightarrow> Ok None
      | Some s \<Rightarrow> let normalized = to_ascii_lowercase s
                  in if normalized \<in> {'''', ''error'', ''warning'', ''notice''} then Ok (Some normalized)
                     else Err ''problem matcher severity is invalid'')"

definition parse_pattern :: "matcher_externs \<Rightarrow> raw_pattern \<Rightarrow> bool \<Rightarrow> (string, pattern_definition) result" where
  "parse_pattern X raw is_last =
     (let source = unwrap_or_default (rp_regexp raw)
      in if MAX_REGEX_BYTES < length source
         then Err ''problem matcher regular expression exceeds the size limit''
         else rbind (ok_or ''problem matcher regular expression is unsupported'' (regex_build X MAX_REGEX_SIZE source)) (\<lambda>rx.
              rbind (validate_capture_fields (rp_fields raw) (captures_len rx)) (\<lambda>_.
                if rp_loop raw \<and> \<not> is_last then Err ''only the final problem matcher pattern may loop''
                else if rp_loop raw \<and> cf_message (rp_fields raw) = None
                then Err ''a looping problem matcher pattern must capture a message''
                else Ok \<lparr>pd_regex = rx, pd_captures = rp_fields raw, pd_loop = rp_loop raw\<rparr>)))"

fun parse_pattern_list ::
  "matcher_externs \<Rightarrow> raw_pattern list \<Rightarrow> bool list \<Rightarrow> (string, pattern_definition list) result" where
  "parse_pattern_list X [] assigned = Ok []"
| "parse_pattern_list X (p # ps) assigned =
     rbind (parse_pattern X p (ps = [])) (\<lambda>d.
     rbind (validate_field_assignments (pd_captures d) assigned) (\<lambda>assigned'.
     rbind (parse_pattern_list X ps assigned') (\<lambda>ds. Ok (d # ds))))"

definition parse_matcher :: "matcher_externs \<Rightarrow> nat \<Rightarrow> raw_matcher \<Rightarrow> (string, matcher_definition) result" where
  "parse_matcher X ident raw =
     rbind (ok_or ''problem matcher owner is required''
              (case rm_owner raw of Some v \<Rightarrow> if trim v \<noteq> [] then Some (trim v) else None | None \<Rightarrow> None)) (\<lambda>owner.
     rbind (validate_severity (rm_severity raw)) (\<lambda>severity.
     rbind (ok_or ''problem matcher pattern is required'' (rm_pattern raw)) (\<lambda>patterns.
       if patterns = [] \<or> MAX_PATTERNS < length patterns
       then Err ''problem matcher has an invalid number of patterns''
       else if length patterns = 1 \<and> list_ex rp_loop patterns
       then Err ''a single problem matcher pattern may not loop''
       else rbind (parse_pattern_list X patterns (replicate 7 False)) (\<lambda>definitions.
              if \<not> list_ex (\<lambda>p. cf_message (pd_captures p) \<noteq> None) definitions
              then Err ''a problem matcher pattern must capture a message''
              else Ok \<lparr>md_ident = ident, md_owner_key = to_ascii_lowercase owner, md_severity = severity,
                       md_from_path = rm_from_path raw, md_patterns = definitions\<rparr>))))"

definition json_error :: "nat \<times> nat \<Rightarrow> string" where
  "json_error e = ''invalid problem matcher JSON at '' @ show_nat (fst e) @ '':'' @ show_nat (snd e)"

definition map_err :: "('e \<Rightarrow> 'f) \<Rightarrow> ('e, 'a) result \<Rightarrow> ('f, 'a) result" where
  "map_err f r = (case r of Inl e \<Rightarrow> Err (f e) | Inr a \<Rightarrow> Ok a)"

definition option_list :: "'a list option \<Rightarrow> 'a list" where
  "option_list x = (case x of Some xs \<Rightarrow> xs | None \<Rightarrow> [])"

fun parse_matchers ::
  "matcher_externs \<Rightarrow> nat \<Rightarrow> raw_matcher list \<Rightarrow> string list \<Rightarrow> (string, matcher_definition list) result" where
  "parse_matchers X ident [] owners = Ok []"
| "parse_matchers X ident (m # ms) owners =
     rbind (parse_matcher X ident m) (\<lambda>d.
       if md_owner_key d \<in> set owners then Err ''problem matcher owners must be unique''
       else rbind (parse_matchers X (Suc ident) ms (owners @ [md_owner_key d])) (\<lambda>ds. Ok (d # ds)))"

definition parse_add :: "matcher_externs \<Rightarrow> nat \<Rightarrow> string \<Rightarrow> (string, matcher_definition list) result" where
  "parse_add X ident input =
     (if MAX_JSON_BYTES < length input then Err ''problem matcher JSON exceeds the size limit''
      else rbind (map_err json_error (matcher_file X input)) (\<lambda>file.
             let matchers = option_list file
             in if MAX_OWNERS < length matchers then Err ''problem matcher registry has too many owners''
                else parse_matchers X ident matchers []))"

fun removal_owners :: "string option list \<Rightarrow> string list \<Rightarrow> string list" where
  "removal_owners [] owners = owners"
| "removal_owners (m # ms) owners =
     removal_owners ms
       (case m of None \<Rightarrow> owners
        | Some owner \<Rightarrow> let key = to_ascii_lowercase (trim owner)
                        in if trim owner = [] \<or> key \<in> set owners then owners else owners @ [key])"

definition parse_remove :: "matcher_externs \<Rightarrow> string \<Rightarrow> (string, string list) result" where
  "parse_remove X input =
     (if MAX_JSON_BYTES < length input then Err ''problem matcher JSON exceeds the size limit''
      else rbind (map_err json_error (removal_file X input)) (\<lambda>file. Ok (removal_owners (option_list file) [])))"

subsection \<open>The registry\<close>

record matcher_registry =
  definitions :: "matcher_definition list"
  next_ident :: nat

definition empty_registry :: matcher_registry where
  "empty_registry = \<lparr>definitions = [], next_ident = 0\<rparr>"

definition insert_definition :: "matcher_definition \<Rightarrow> matcher_definition list \<Rightarrow> matcher_definition list" where
  "insert_definition d ds = d # filter (\<lambda>e. md_owner_key e \<noteq> md_owner_key d) ds"

definition add_json :: "matcher_externs \<Rightarrow> string \<Rightarrow> matcher_registry \<Rightarrow> (string, unit) result \<times> matcher_registry" where
  "add_json X input reg =
     (case parse_add X (next_ident reg) input of
        Inl e \<Rightarrow> (Err e, reg)
      | Inr additions \<Rightarrow>
          let ds = fold insert_definition (rev additions) (definitions reg)
          in if MAX_OWNERS < length ds then (Err ''problem matcher registry has too many owners'', reg)
             else (Ok (), reg\<lparr>definitions := ds, next_ident := next_ident reg + length additions\<rparr>))"

definition remove_json :: "matcher_externs \<Rightarrow> string \<Rightarrow> matcher_registry \<Rightarrow> (string, unit) result \<times> matcher_registry" where
  "remove_json X input reg =
     (case parse_remove X input of
        Inl e \<Rightarrow> (Err e, reg)
      | Inr owners \<Rightarrow> (Ok (), reg\<lparr>definitions := filter (\<lambda>d. md_owner_key d \<notin> set owners) (definitions reg)\<rparr>))"

definition remove_owner :: "string \<Rightarrow> matcher_registry \<Rightarrow> matcher_registry" where
  "remove_owner owner reg =
     (let key = to_ascii_lowercase (trim owner)
      in if key = [] then reg else reg\<lparr>definitions := filter (\<lambda>d. md_owner_key d \<noteq> key) (definitions reg)\<rparr>)"

subsection \<open>Matching\<close>

record match_result =
  mr_file :: "string option"
  mr_line :: "string option"
  mr_column :: "string option"
  mr_severity :: "string option"
  mr_code :: "string option"
  mr_message :: "string option"
  mr_from_path :: "string option"

definition default_result :: match_result where
  "default_result = \<lparr>mr_file = None, mr_line = None, mr_column = None, mr_severity = None,
     mr_code = None, mr_message = None, mr_from_path = None\<rparr>"

record active_matcher =
  am_definition :: matcher_definition
  am_states :: "match_result option list"

type_synonym matcher_state = "string \<rightharpoonup> active_matcher"

definition assign :: "string option \<Rightarrow> nat option \<Rightarrow> (nat \<Rightarrow> string option) \<Rightarrow> string option" where
  "assign target index caps =
     (case Option.bind index caps of Some v \<Rightarrow> Some v | None \<Rightarrow> target)"

definition apply_captures :: "match_result \<Rightarrow> capture_fields \<Rightarrow> (nat \<Rightarrow> string option) \<Rightarrow> match_result" where
  "apply_captures r f caps =
     \<lparr>mr_file = assign (mr_file r) (cf_file f) caps, mr_line = assign (mr_line r) (cf_line f) caps,
      mr_column = assign (mr_column r) (cf_column f) caps, mr_severity = assign (mr_severity r) (cf_severity f) caps,
      mr_code = assign (mr_code r) (cf_code f) caps, mr_message = assign (mr_message r) (cf_message f) caps,
      mr_from_path = assign (mr_from_path r) (cf_from_path f) caps\<rparr>"

definition none_or_empty :: "string option \<Rightarrow> bool" where
  "none_or_empty x \<longleftrightarrow> x = None \<or> x = Some []"

definition apply_defaults :: "match_result \<Rightarrow> matcher_definition \<Rightarrow> match_result" where
  "apply_defaults r d =
     r\<lparr>mr_severity := (if none_or_empty (mr_severity r) then md_severity d else mr_severity r),
       mr_from_path := (if none_or_empty (mr_from_path r) then md_from_path d else mr_from_path r)\<rparr>"

definition reset_active :: "active_matcher \<Rightarrow> active_matcher" where
  "reset_active a = a\<lparr>am_states := replicate (length (am_states a)) None\<rparr>"

definition get_state :: "active_matcher \<Rightarrow> nat \<Rightarrow> match_result option" where
  "get_state a i = (if i < length (am_states a) then am_states a ! i else None)"

definition set_state :: "active_matcher \<Rightarrow> nat \<Rightarrow> match_result option \<Rightarrow> active_matcher" where
  "set_state a i v = a\<lparr>am_states := (am_states a)[i := v]\<rparr>"

definition clear_failed_state :: "active_matcher \<Rightarrow> nat \<Rightarrow> nat \<Rightarrow> active_matcher" where
  "clear_failed_state a index last_index =
     (if index = last_index then (if index = 0 then a else set_state a (index - 1) None)
      else set_state a index None)"

definition finish_match :: "active_matcher \<Rightarrow> nat \<Rightarrow> bool \<Rightarrow> active_matcher" where
  "finish_match a last_index loop_pattern =
     (if loop_pattern \<and> 0 < last_index then set_state (reset_active a) (last_index - 1) (get_state a (last_index - 1))
      else reset_active a)"

definition attempt_pattern :: "active_matcher \<Rightarrow> nat \<Rightarrow> nat \<Rightarrow> string \<Rightarrow> active_matcher \<times> match_result option" where
  "attempt_pattern a index last_index line =
     (let prev = (if index = 0 then Some default_result else get_state a (index - 1))
      in case prev of
           None \<Rightarrow> (a, None)
         | Some running \<Rightarrow>
             if length (md_patterns (am_definition a)) \<le> index then (a, None)
             else let pattern = md_patterns (am_definition a) ! index
                  in case captures (pd_regex pattern) line of
                       None \<Rightarrow> (clear_failed_state a index last_index, None)
                     | Some caps \<Rightarrow>
                         let result = apply_captures running (pd_captures pattern) caps
                         in if index \<noteq> last_index then (set_state a index (Some result), None)
                            else (finish_match a last_index (pd_loop pattern), Some (apply_defaults result (am_definition a))))"

text \<open>The loop over \<open>(0..=last_index).rev()\<close>; the second argument counts the indices still to try.\<close>

fun attempt_from :: "active_matcher \<Rightarrow> nat \<Rightarrow> nat \<Rightarrow> string \<Rightarrow> active_matcher \<times> match_result option" where
  "attempt_from a 0 last_index line = (a, None)"
| "attempt_from a (Suc index) last_index line =
     (case attempt_pattern a index last_index line of
        (a', Some r) \<Rightarrow> (a', Some r)
      | (a', None) \<Rightarrow> attempt_from a' index last_index line)"

definition match_active :: "active_matcher \<Rightarrow> string \<Rightarrow> active_matcher \<times> match_result option" where
  "match_active a line =
     (let n = length (md_patterns (am_definition a))
      in if n = 0 then (a, None) else attempt_from a n (n - 1) line)"

definition is_reportable :: "match_result \<Rightarrow> bool" where
  "is_reportable r \<longleftrightarrow>
     (case mr_message r of Some m \<Rightarrow> trim m \<noteq> [] | None \<Rightarrow> False) \<and>
     (case mr_severity r of None \<Rightarrow> True
      | Some s \<Rightarrow> list_ex (eq_ignore_ascii_case s) ['''', ''error'', ''warning'', ''notice''])"

text \<open>\<open>ESC [\<close> starts a control sequence that ends with a byte from \<open>@\<close> to \<open>~\<close>.\<close>

fun skip_control :: "string \<Rightarrow> string" where
  "skip_control [] = []"
| "skip_control (c # s) = (if 64 \<le> ord c \<and> ord c \<le> 126 then s else skip_control s)"

lemma skip_control_length: "length (skip_control s) \<le> length s"
  by (induction s) auto

function strip_ansi :: "string \<Rightarrow> string" where
  "strip_ansi [] = []"
| "strip_ansi (c # s) =
     (if c = CHR 0x1B \<and> s \<noteq> [] \<and> hd s = CHR ''['' then strip_ansi (skip_control (tl s)) else c # strip_ansi s)"
  by pat_completeness auto
termination
proof (relation "measure length")
  fix c and s :: string
  have "length (skip_control (tl s)) \<le> length (tl s)" by (rule skip_control_length)
  also have "\<dots> < length (c # s)" by (simp add: le_imp_less_Suc)
  finally show "(skip_control (tl s), c # s) \<in> measure length" by simp
qed auto

definition new_active :: "matcher_definition \<Rightarrow> active_matcher" where
  "new_active d = \<lparr>am_definition = d, am_states = replicate (length (md_patterns d)) None\<rparr>"

definition sync :: "matcher_registry \<Rightarrow> matcher_state \<Rightarrow> matcher_state" where
  "sync reg st =
     (let kept = (\<lambda>owner. case st owner of
            Some a \<Rightarrow> if list_ex (\<lambda>d. md_owner_key d = owner \<and> md_ident d = md_ident (am_definition a)) (definitions reg)
                      then Some a else None
          | None \<Rightarrow> None)
      in fold (\<lambda>d st. if st (md_owner_key d) = None then st(md_owner_key d \<mapsto> new_active d) else st)
           (definitions reg) kept)"

definition reset_all :: "matcher_state \<Rightarrow> matcher_state" where
  "reset_all st = (\<lambda>owner. map_option reset_active (st owner))"

definition reset_except :: "string \<Rightarrow> matcher_state \<Rightarrow> matcher_state" where
  "reset_except owner st = (\<lambda>k. if k = owner then st k else map_option reset_active (st k))"

fun match_definitions :: "matcher_definition list \<Rightarrow> matcher_state \<Rightarrow> string \<Rightarrow> matcher_state \<times> match_result option" where
  "match_definitions [] st line = (st, None)"
| "match_definitions (d # ds) st line =
     (case st (md_owner_key d) of
        None \<Rightarrow> match_definitions ds st line
      | Some active \<Rightarrow>
          (case match_active active line of
             (active', None) \<Rightarrow> match_definitions ds (st(md_owner_key d \<mapsto> active')) line
           | (active', Some r) \<Rightarrow>
               let st' = reset_except (md_owner_key d) (st(md_owner_key d \<mapsto> active'))
               in if is_reportable r then (st', Some r) else match_definitions ds st' line))"

definition match_line :: "matcher_registry \<Rightarrow> string \<Rightarrow> matcher_state \<Rightarrow> matcher_state \<times> match_result option" where
  "match_line reg line st =
     (let st = sync reg st
      in if definitions reg = [] then (st, None)
         else if MAX_LINE_BYTES < length line then (reset_all st, None)
         else match_definitions (definitions reg) st (strip_ansi line))"

subsection \<open>The registry invariant\<close>

definition pattern_ok :: "bool \<Rightarrow> pattern_definition \<Rightarrow> bool" where
  "pattern_ok is_last p \<longleftrightarrow>
     list_all (\<lambda>i. case i of Some i \<Rightarrow> i < captures_len (pd_regex p) | None \<Rightarrow> True) (field_indices (pd_captures p)) \<and>
     (pd_loop p \<longrightarrow> is_last \<and> cf_message (pd_captures p) \<noteq> None)"

definition definition_ok :: "matcher_definition \<Rightarrow> bool" where
  "definition_ok d \<longleftrightarrow>
     md_patterns d \<noteq> [] \<and> length (md_patterns d) \<le> MAX_PATTERNS \<and> md_owner_key d \<noteq> [] \<and>
     list_all (pattern_ok False) (butlast (md_patterns d)) \<and> pattern_ok True (last (md_patterns d)) \<and>
     list_ex (\<lambda>p. cf_message (pd_captures p) \<noteq> None) (md_patterns d) \<and>
     (md_severity d = None \<or> md_severity d \<in> Some ` {[], ''error'', ''warning'', ''notice''})"

definition registry_ok :: "matcher_registry \<Rightarrow> bool" where
  "registry_ok reg \<longleftrightarrow>
     distinct (map md_owner_key (definitions reg)) \<and> distinct (map md_ident (definitions reg)) \<and>
     length (definitions reg) \<le> MAX_OWNERS \<and>
     (\<forall>d \<in> set (definitions reg). definition_ok d \<and> md_ident d < next_ident reg)"

lemma ok_or_eq_Ok [simp]: "ok_or e x = Inr v \<longleftrightarrow> x = Some v"
  by (cases x) auto

lemma parse_pattern_ok: "parse_pattern X raw is_last = Ok p \<Longrightarrow> pattern_ok is_last p"
  by (auto simp: parse_pattern_def Let_def rbind_eq_Ok validate_capture_fields_def pattern_ok_def list_ex_iff list_all_iff
      not_le split: if_splits option.splits)

lemma parse_pattern_list_ok:
  "parse_pattern_list X raws assigned = Ok ps \<Longrightarrow>
   length ps = length raws \<and> list_all (pattern_ok False) (butlast ps) \<and> (ps \<noteq> [] \<longrightarrow> pattern_ok True (last ps))"
proof (induction X raws assigned arbitrary: ps rule: parse_pattern_list.induct)
  case (2 X r rs assigned)
  then obtain d a ds where d: "parse_pattern X r (rs = []) = Ok d" and
    ds: "parse_pattern_list X rs a = Ok ds" "ps = d # ds" "validate_field_assignments (pd_captures d) assigned = Ok a"
    by (auto simp: rbind_eq_Ok)
  with "2.IH" have "length ds = length rs \<and> list_all (pattern_ok False) (butlast ds) \<and> (ds \<noteq> [] \<longrightarrow> pattern_ok True (last ds))"
    by blast
  with parse_pattern_ok [OF d] ds show ?case by (cases rs) auto
qed simp

lemma parse_matcher_ok: "parse_matcher X ident raw = Ok d \<Longrightarrow> definition_ok d \<and> md_ident d = ident"
  by (auto simp: parse_matcher_def rbind_eq_Ok definition_ok_def validate_severity_def Let_def to_ascii_lowercase_def
      dest!: parse_pattern_list_ok split: if_splits option.splits)

lemma parse_matchers_ok:
  "parse_matchers X ident raws owners = Ok ds \<Longrightarrow>
   distinct (map md_owner_key ds) \<and> set (map md_owner_key ds) \<inter> set owners = {} \<and>
   map md_ident ds = [ident..<ident + length ds] \<and> list_all definition_ok ds"
proof (induction X ident raws owners arbitrary: ds rule: parse_matchers.induct)
  case (2 X ident r rs owners)
  then obtain d ds' where d: "parse_matcher X ident r = Ok d" "md_owner_key d \<notin> set owners" and
    ds: "parse_matchers X (Suc ident) rs (owners @ [md_owner_key d]) = Ok ds'" "ds = d # ds'"
    by (auto simp: rbind_eq_Ok split: if_splits)
  from "2.IH" [OF d ds(1)] parse_matcher_ok [OF d(1)] d ds(2) show ?case
    by (auto simp: upt_conv_Cons simp del: upt_Suc)
qed simp

lemma fold_insert_definition:
  "distinct (map md_owner_key as) \<Longrightarrow>
   fold insert_definition (rev as) ds = as @ filter (\<lambda>e. md_owner_key e \<notin> md_owner_key ` set as) ds"
proof (induction as)
  case (Cons a as)
  have "filter (\<lambda>e. md_owner_key e \<noteq> md_owner_key a) as = as"
    proof (intro filter_True ballI)
    fix x assume "x \<in> set as"
    then have "md_owner_key x \<in> set (map md_owner_key as)" by simp
    then show "md_owner_key x \<noteq> md_owner_key a" using Cons.prems by auto
  qed
  with Cons show ?case by (auto simp: insert_definition_def intro!: filter_cong)
qed simp

lemma parse_add_ok:
  assumes "parse_add X ident input = Ok ds"
  shows "distinct (map md_owner_key ds)" "map md_ident ds = [ident..<ident + length ds]" "list_all definition_ok ds"
  using assms parse_matchers_ok [of X ident _ "[]" ds]
  by (auto simp: parse_add_def rbind_eq_Ok Let_def split: if_splits)

lemma add_json_Ok:
  assumes "add_json X input reg = (Ok u, reg')"
  obtains additions where "parse_add X (next_ident reg) input = Ok additions"
    "definitions reg' = additions @ filter (\<lambda>e. md_owner_key e \<notin> md_owner_key ` set additions) (definitions reg)"
    "length (definitions reg') \<le> MAX_OWNERS" "next_ident reg' = next_ident reg + length additions"
  using assms parse_add_ok(1) [of X "next_ident reg" input]
  by (auto simp: add_json_def Let_def fold_insert_definition split: sum.splits if_splits)

lemma add_json_Err: "add_json X input reg = (Err e, reg') \<Longrightarrow> reg' = reg"
  by (auto simp: add_json_def Let_def split: sum.splits if_splits)

lemma distinct_filter_part: "distinct (map f xs) \<Longrightarrow> distinct (map f (filter P xs))"
  by (induction xs) auto

lemma add_json_registry_ok:
  assumes "registry_ok reg"
  shows "registry_ok (snd (add_json X input reg))"
proof (cases "add_json X input reg")
  case (Pair r reg')
  show ?thesis
  proof (cases r)
    case (Inl e)
    with Pair assms add_json_Err [of X input reg e reg'] show ?thesis by simp
  next
    case (Inr u)
    with Pair obtain as where as: "parse_add X (next_ident reg) input = Ok as"
      "definitions reg' = as @ filter (\<lambda>e. md_owner_key e \<notin> md_owner_key ` set as) (definitions reg)"
      "length (definitions reg') \<le> MAX_OWNERS" "next_ident reg' = next_ident reg + length as"
      using add_json_Ok by metis
    note new = parse_add_ok [OF as(1)]
    have idents: "md_ident ` set as = {next_ident reg..<next_ident reg + length as}"
      using new(2) by (metis set_map set_upt)
    then have fresh: "next_ident reg \<le> md_ident a \<and> md_ident a < next_ident reg'" if "a \<in> set as" for a
      using that as(4) by auto
    have "distinct (map md_ident as)" using new(2) by simp
    moreover have "md_ident a \<noteq> md_ident d" if "a \<in> set as" "d \<in> set (definitions reg)" for a d
      using that fresh [of a] assms unfolding registry_ok_def by fastforce
    ultimately have "distinct (map md_ident (definitions reg'))"
      using assms by (auto simp: as(2) registry_ok_def distinct_filter_part)
    moreover have "distinct (map md_owner_key (definitions reg'))"
      using assms new(1) by (auto simp: as(2) registry_ok_def distinct_filter_part) (metis image_eqI)
    moreover have "definition_ok d \<and> md_ident d < next_ident reg'" if "d \<in> set (definitions reg')" for d
    proof (cases "d \<in> set as")
      case True
      then show ?thesis using new(3) fresh by (simp add: list_all_iff)
    next
      case False
      then show ?thesis using assms that as(2,4) by (auto simp: registry_ok_def)
    qed
    ultimately show ?thesis using as(3) Pair by (simp add: registry_ok_def)
  qed
qed

datatype registry_op = Add_json string | Remove_json string | Remove_owner string

fun apply_registry_op :: "matcher_externs \<Rightarrow> registry_op \<Rightarrow> matcher_registry \<Rightarrow> matcher_registry" where
  "apply_registry_op X (Add_json t) reg = snd (add_json X t reg)"
| "apply_registry_op X (Remove_json t) reg = snd (remove_json X t reg)"
| "apply_registry_op X (Remove_owner owner) reg = remove_owner owner reg"

lemma filter_registry_ok: "registry_ok reg \<Longrightarrow> registry_ok (reg\<lparr>definitions := filter P (definitions reg)\<rparr>)"
  unfolding registry_ok_def by (simp add: distinct_filter_part order_trans [OF length_filter_le])

lemma apply_registry_op_ok: "registry_ok reg \<Longrightarrow> registry_ok (apply_registry_op X op reg)"
  by (cases op) (auto simp: add_json_registry_ok remove_json_def remove_owner_def Let_def filter_registry_ok split: sum.splits)

text \<open>
  Whatever matcher documents a job adds or removes, its registry holds at most 64 owners, each
  owner once, and only validated definitions: a loop only on the last pattern, every capture index
  inside its expression, a message captured by some pattern, a known default severity.
\<close>

theorem registry_stays_valid: "registry_ok (fold (apply_registry_op X) ops empty_registry)"
proof -
  have "registry_ok reg \<Longrightarrow> registry_ok (fold (apply_registry_op X) ops reg)" for reg
    by (induction ops arbitrary: reg) (auto simp: apply_registry_op_ok)
  moreover have "registry_ok empty_registry" by (simp add: registry_ok_def empty_registry_def)
  ultimately show ?thesis .
qed

text \<open>
  C40. Adding a document is atomic and ordered: on an error the registry is unchanged, otherwise the
  document's matchers come first in document order and replace the owners they name.
\<close>

theorem add_json_atomic:
  "case add_json X input reg of
     (Inl e, reg') \<Rightarrow> reg' = reg
   | (Inr _, reg') \<Rightarrow> \<exists>additions. parse_add X (next_ident reg) input = Ok additions \<and>
       definitions reg' = additions @ filter (\<lambda>d. md_owner_key d \<notin> md_owner_key ` set additions) (definitions reg)"
proof (cases "add_json X input reg")
  case (Pair r reg')
  show ?thesis
  proof (cases r)
    case (Inl e)
    with Pair add_json_Err [of X input reg e reg'] show ?thesis by simp
  next
    case (Inr u)
    with Pair have "add_json X input reg = (Ok u, reg')" by simp
    then show ?thesis by (rule add_json_Ok) (auto simp: Pair Inr)
  qed
qed

subsection \<open>Multi-line matching\<close>

definition running :: "active_matcher \<Rightarrow> nat \<Rightarrow> match_result option" where
  "running a i = (if i = 0 then Some default_result else get_state a (i - 1))"

text \<open>Shape kept by every step: the definition and one state slot per pattern.\<close>

definition active_ok :: "active_matcher \<Rightarrow> bool" where
  "active_ok a \<longleftrightarrow> length (am_states a) = length (md_patterns (am_definition a))"

lemma active_simps [simp]:
  "am_definition (set_state a i v) = am_definition a" "am_definition (reset_active a) = am_definition a"
  "length (am_states (set_state a i v)) = length (am_states a)"
  "length (am_states (reset_active a)) = length (am_states a)"
  "get_state (set_state a i v) j = (if i = j \<and> j < length (am_states a) then v else get_state a j)"
  "get_state (reset_active a) j = None"
  by (auto simp: set_state_def reset_active_def get_state_def)

text \<open>Below the last index an attempt reports nothing and touches only its own slot.\<close>

lemma attempt_pattern_below:
  assumes "index < last_index" "attempt_pattern a index last_index line = (a', r)"
  shows "r = None \<and> am_definition a' = am_definition a \<and> length (am_states a') = length (am_states a)
    \<and> (\<forall>j. j \<noteq> index \<longrightarrow> get_state a' j = get_state a j)"
  using assms
  by (auto simp: attempt_pattern_def Let_def clear_failed_state_def split: option.splits if_splits)

lemma attempt_from_below:
  assumes "k \<le> last_index" "attempt_from a k last_index line = (a', r)"
  shows "r = None \<and> am_definition a' = am_definition a \<and> length (am_states a') = length (am_states a)
    \<and> (\<forall>j. k \<le> j \<longrightarrow> get_state a' j = get_state a j)"
  using assms
proof (induction a k last_index line arbitrary: a' r rule: attempt_from.induct)
  case (2 a index last_index line)
  obtain a1 r1 where step: "attempt_pattern a index last_index line = (a1, r1)" by force
  with attempt_pattern_below [OF _ step] "2.prems"(1) have below:
    "r1 = None" "am_definition a1 = am_definition a" "length (am_states a1) = length (am_states a)"
    "\<forall>j. j \<noteq> index \<longrightarrow> get_state a1 j = get_state a j" by auto
  with step "2.prems" have "attempt_from a1 index last_index line = (a', r)" by simp
  with "2.IH" [OF step [symmetric] below(1)] "2.prems"(1) below show ?case by auto
qed simp

lemma attempt_from_skip:
  assumes "i < k" "\<And>j. i \<le> j \<Longrightarrow> get_state a j = None"
  shows "attempt_from a k last_index line = attempt_from a (Suc i) last_index line"
  using assms(1)
proof (induction k)
  case (Suc k)
  show ?case
  proof (cases "i = k")
    case False
    with Suc.prems have "attempt_pattern a k last_index line = (a, None)"
      using assms(2) [of "k - 1"] by (simp add: attempt_pattern_def Let_def)
    with Suc False show ?thesis by simp
  qed simp
qed simp

lemma match_active_step:
  assumes ok: "active_ok a" and i: "i < length (md_patterns (am_definition a))"
    and run: "running a i = Some run" and idle: "\<And>j. i \<le> j \<Longrightarrow> get_state a j = None"
    and caps: "captures (pd_regex (md_patterns (am_definition a) ! i)) line = Some caps"
    and result: "result = apply_captures run (pd_captures (md_patterns (am_definition a) ! i)) caps"
  shows "if Suc i = length (md_patterns (am_definition a))
    then snd (match_active a line) = Some (apply_defaults result (am_definition a))
    else \<exists>a'. match_active a line = (a', None) \<and> active_ok a' \<and> am_definition a' = am_definition a
      \<and> running a' (Suc i) = Some result \<and> (\<forall>j. Suc i \<le> j \<longrightarrow> get_state a' j = None)"
proof -
  let ?n = "length (md_patterns (am_definition a))"
  have reach: "match_active a line = attempt_from a (Suc i) (?n - 1) line"
    using i attempt_from_skip [OF i idle] by (auto simp: match_active_def Let_def)
  show ?thesis
  proof (cases "Suc i = ?n")
    case True
    then have "attempt_pattern a i (?n - 1) line =
        (finish_match a (?n - 1) (pd_loop (md_patterns (am_definition a) ! i)), Some (apply_defaults result (am_definition a)))"
      using run caps result i by (simp add: attempt_pattern_def Let_def running_def split: if_splits)
    then have "snd (attempt_from a (Suc i) (?n - 1) line) = Some (apply_defaults result (am_definition a))" by simp
    then show ?thesis unfolding reach using True by simp
  next
    case False
    then have step: "attempt_pattern a i (?n - 1) line = (set_state a i (Some result), None)"
      using run caps result i by (auto simp: attempt_pattern_def Let_def running_def split: if_splits)
    obtain a' r where rest: "attempt_from (set_state a i (Some result)) i (?n - 1) line = (a', r)" by force
    from False i have "i \<le> ?n - 1" by simp
    note below = attempt_from_below [OF this rest]
    have "i < length (am_states a)" using ok i by (simp add: active_ok_def)
    with below idle have "get_state a' i = Some result" "\<forall>j. Suc i \<le> j \<longrightarrow> get_state a' j = None" by auto
    with below ok reach step rest False show ?thesis by (auto simp: active_ok_def running_def)
  qed
qed

text \<open>Feeding consecutive lines; the result of the last one.\<close>

fun run_lines :: "active_matcher \<Rightarrow> string list \<Rightarrow> active_matcher \<times> match_result option" where
  "run_lines a [] = (a, None)"
| "run_lines a [l] = match_active a l"
| "run_lines a (l # ls) = run_lines (fst (match_active a l)) ls"

text \<open>The captures of consecutive patterns merged in order.\<close>

fun merge_captures :: "match_result \<Rightarrow> (pattern_definition \<times> string) list \<Rightarrow> match_result" where
  "merge_captures r [] = r"
| "merge_captures r ((p, l) # rest) =
     merge_captures (case captures (pd_regex p) l of Some caps \<Rightarrow> apply_captures r (pd_captures p) caps | None \<Rightarrow> r) rest"

lemma run_lines_from:
  assumes "active_ok a" "i < length (md_patterns (am_definition a))" "running a i = Some run"
    "\<And>j. i \<le> j \<Longrightarrow> get_state a j = None"
    "i + length ls = length (md_patterns (am_definition a))"
    "list_all2 (\<lambda>p l. captures (pd_regex p) l \<noteq> None) (drop i (md_patterns (am_definition a))) ls"
  shows "snd (run_lines a ls) =
    Some (apply_defaults (merge_captures run (zip (drop i (md_patterns (am_definition a))) ls)) (am_definition a))"
  using assms
proof (induction ls arbitrary: a i run)
  case (Cons l ls)
  let ?ps = "md_patterns (am_definition a)"
  have ps: "drop i ?ps = ?ps ! i # drop (Suc i) ?ps" using Cons.prems(2) by (simp add: Cons_nth_drop_Suc)
  then obtain caps where caps: "captures (pd_regex (?ps ! i)) l = Some caps"
    and rest: "list_all2 (\<lambda>p l. captures (pd_regex p) l \<noteq> None) (drop (Suc i) ?ps) ls"
    using Cons.prems(6) by auto
  define result where "result = apply_captures run (pd_captures (?ps ! i)) caps"
  note step = match_active_step [OF Cons.prems(1-4) caps result_def]
  show ?case
  proof (cases ls)
    case Nil
    then have "Suc i = length ?ps" using Cons.prems(5) by simp
    with step Nil ps caps show ?thesis by (simp add: result_def)
  next
    case more: (Cons l' ls')
    then have "Suc i \<noteq> length ?ps" "Suc i < length ?ps" using Cons.prems(5) by simp_all
    with step obtain a' where a': "match_active a l = (a', None)" "active_ok a'" "am_definition a' = am_definition a"
      "running a' (Suc i) = Some result" "\<forall>j. Suc i \<le> j \<longrightarrow> get_state a' j = None" by auto
    have "snd (run_lines a' ls) = Some (apply_defaults (merge_captures result (zip (drop (Suc i) ?ps) ls)) (am_definition a))"
      using Cons.IH [of a' "Suc i" result] a' \<open>Suc i < length ?ps\<close> Cons.prems(5) rest by simp
    with a'(1) more ps caps show ?thesis by (simp add: result_def)
  qed
qed simp

text \<open>
  A multi-line matcher recognises its pattern sequence: when consecutive lines match its patterns
  one after the other, the last line reports the captures of all of them merged in order, with the
  matcher's default severity and path filled in.
\<close>

theorem multiline_match_completes:
  assumes "ls \<noteq> []" and "list_all2 (\<lambda>p l. captures (pd_regex p) l \<noteq> None) (md_patterns d) ls"
  shows "snd (run_lines (new_active d) ls) =
    Some (apply_defaults (merge_captures default_result (zip (md_patterns d) ls)) d)"
proof -
  have "length (md_patterns d) = length ls" using assms(2) by (rule list_all2_lengthD)
  then show ?thesis
    using run_lines_from [of "new_active d" 0 default_result ls] assms
    by (auto simp: new_active_def active_ok_def running_def get_state_def)
qed

text \<open>A two-line matcher in the style of compilers that print the file first.\<close>

definition tag_regex :: "char \<Rightarrow> regex" where
  "tag_regex c = \<lparr>captures = (\<lambda>l. case l of x # r \<Rightarrow> if x = c then Some (\<lambda>i. if i = 1 then Some r else None) else None
     | [] \<Rightarrow> None), captures_len = 2\<rparr>"

definition no_fields :: capture_fields where
  "no_fields = \<lparr>cf_file = None, cf_line = None, cf_column = None, cf_severity = None, cf_code = None,
     cf_message = None, cf_from_path = None\<rparr>"

definition two_line_matcher :: matcher_definition where
  "two_line_matcher = \<lparr>md_ident = 0, md_owner_key = ''tsc'', md_severity = Some ''warning'', md_from_path = None,
     md_patterns = [\<lparr>pd_regex = tag_regex (CHR ''F''), pd_captures = no_fields\<lparr>cf_file := Some 1\<rparr>, pd_loop = False\<rparr>,
                    \<lparr>pd_regex = tag_regex (CHR ''M''), pd_captures = no_fields\<lparr>cf_message := Some 1\<rparr>, pd_loop = True\<rparr>]\<rparr>"

theorem multiline_match_completes_witness:
  "snd (run_lines (new_active two_line_matcher) [''Fa.ts'', ''Mbad'']) =
     Some (apply_defaults (merge_captures default_result (zip (md_patterns two_line_matcher) [''Fa.ts'', ''Mbad''])) two_line_matcher)
   \<and> mr_file (merge_captures default_result (zip (md_patterns two_line_matcher) [''Fa.ts'', ''Mbad''])) = Some ''a.ts''"
proof
  show "snd (run_lines (new_active two_line_matcher) [''Fa.ts'', ''Mbad'']) =
     Some (apply_defaults (merge_captures default_result (zip (md_patterns two_line_matcher) [''Fa.ts'', ''Mbad''])) two_line_matcher)"
    by (rule multiline_match_completes) (simp_all add: two_line_matcher_def tag_regex_def)
qed (simp add: two_line_matcher_def tag_regex_def no_fields_def default_result_def apply_captures_def assign_def)

end
