(* ===== verification/Container_Paths.thy ===== *)
theory Container_Paths
  imports Hash_Files
begin

text \<open>
  Host and container paths: \<open>docker/path_translator.rs\<close>, the environment translation of
  \<open>docker/job_container.rs\<close> and the volume check of \<open>docker/container_mounts.rs\<close>. Paths are lists of
  components, as in \<open>Hash_Files\<close>; \<open>path_text\<close> is the text of such a list.
\<close>

subsection \<open>Translation\<close>

type_synonym path_translator = "(path \<times> path) list"

definition path_text :: "path \<Rightarrow> string" where
  "path_text p = (case p of c # r \<Rightarrow> if c = ''/'' then ''/'' @ join_str ''/'' r else join_str ''/'' p | [] \<Rightarrow> [])"

definition strip_path_prefix :: "path \<Rightarrow> path \<Rightarrow> path option" where
  "strip_path_prefix base p = (if take (length base) p = base then Some (drop (length base) p) else None)"

definition new_translator :: "path \<Rightarrow> path \<Rightarrow> path_translator" where
  "new_translator host_workspace host_temp =
     [(host_workspace, [''/'', ''github'', ''workspace'']), (host_temp, [''/'', ''github'', ''runner_temp''])]"

fun to_container :: "path_translator \<Rightarrow> path \<Rightarrow> path" where
  "to_container [] p = p"
| "to_container ((host, container) # ms) p =
     (case strip_path_prefix host p of Some relative \<Rightarrow> container @ relative | None \<Rightarrow> to_container ms p)"

fun to_host :: "path_translator \<Rightarrow> path \<Rightarrow> path" where
  "to_host [] p = p"
| "to_host ((host, container) # ms) p =
     (case strip_path_prefix container p of Some relative \<Rightarrow> host @ relative | None \<Rightarrow> to_host ms p)"

definition path_parent :: "path \<Rightarrow> path option" where
  "path_parent p = (if p = [] \<or> p = [''/''] then None else Some (butlast p))"

definition runner_workspace_to_container :: "path_translator \<Rightarrow> path \<Rightarrow> path" where
  "runner_workspace_to_container ms p =
     (if list_ex (\<lambda>(host, container). container = [''/'', ''github'', ''workspace''] \<and> path_parent host = Some p) ms
      then [''/'', ''github''] else to_container ms p)"

text \<open>\<open>sort_by_key\<close> is stable, as \<open>sort_key\<close> is.\<close>

definition add_mapping :: "path \<Rightarrow> path \<Rightarrow> path_translator \<Rightarrow> path_translator" where
  "add_mapping host container ms =
     sort_key (\<lambda>(h, _). - int (length h)) (filter (\<lambda>(existing, _). existing \<noteq> host) ms @ [(host, container)])"

definition translate_part :: "path_translator \<Rightarrow> string \<Rightarrow> string" where
  "translate_part ms s =
     (if list_ex (\<lambda>(host, _). strip_path_prefix host (components s) \<noteq> None) ms
      then path_text (to_container ms (components s)) else s)"

definition translate_value :: "path_translator \<Rightarrow> string \<Rightarrow> string" where
  "translate_value ms value = join_str '':'' (map (translate_part ms) (split_char (CHR '':'') value))"

definition translate_runner_workspace :: "path_translator \<Rightarrow> string \<Rightarrow> string" where
  "translate_runner_workspace ms value =
     (if list_ex (\<lambda>(host, container). container = [''/'', ''github'', ''workspace''] \<and> path_parent host = Some (components value)) ms
      then ''/github'' else translate_part ms value)"

definition translated_path_variables :: "string list" where
  "translated_path_variables = [''GITHUB_WORKSPACE'', ''GITHUB_ACTION_PATH'', ''GITHUB_EVENT_PATH'', ''GITHUB_ENV'',
     ''GITHUB_OUTPUT'', ''GITHUB_PATH'', ''GITHUB_STATE'', ''GITHUB_STEP_SUMMARY'', ''RUNNER_TEMP'', ''RUNNER_TOOL_CACHE'']"

definition translate_env :: "path_translator \<Rightarrow> string \<Rightarrow> string \<Rightarrow> string" where
  "translate_env ms key value =
     (if key = ''PATH'' then translate_value ms value
      else if key = ''RUNNER_WORKSPACE'' then translate_runner_workspace ms value
      else if key \<in> set translated_path_variables then translate_part ms value
      else value)"

text \<open>What the job context reads of a running job container.\<close>

record job_container =
  jc_id :: string
  jc_network :: string
  jc_image_path :: string
  jc_translator :: path_translator

subsection \<open>Volumes\<close>

datatype volume_error = Bad_volume_syntax | Bad_volume_destination

definition volume_destination :: "string \<Rightarrow> string option" where
  "volume_destination volume =
     (case split_char (CHR '':'') volume of
        [source, destination] \<Rightarrow> if source \<noteq> [] then Some destination else None
      | [source, destination, mode] \<Rightarrow> if source \<noteq> [] \<and> (mode = ''ro'' \<or> mode = ''rw'') then Some destination else None
      | _ \<Rightarrow> None)"

definition validate_volume :: "string \<Rightarrow> (volume_error, unit) result" where
  "validate_volume volume =
     (case volume_destination volume of
        None \<Rightarrow> Err Bad_volume_syntax
      | Some destination \<Rightarrow>
          let p = components destination
          in if \<not> starts_with destination ''/'' \<or> p = [''/''] \<or> strip_path_prefix [''/'', ''github''] p \<noteq> None
                \<or> list_ex (\<lambda>c. c = ''..'') p
             then Err Bad_volume_destination else Ok ())"

subsection \<open>Properties\<close>

lemma strip_path_prefix_Some: "strip_path_prefix base p = Some r \<longleftrightarrow> p = base @ r"
  by (auto simp: strip_path_prefix_def) (metis append_take_drop_id)

lemma strip_path_prefix_None: "strip_path_prefix base p = None \<longleftrightarrow> \<not> prefix base p"
  by (metis not_None_eq prefix_def strip_path_prefix_Some)

text \<open>No container directory lies inside another one.\<close>

definition containers_apart :: "path_translator \<Rightarrow> bool" where
  "containers_apart ms \<longleftrightarrow> sorted_wrt (\<lambda>(_, c) (_, c'). \<not> prefix c c' \<and> \<not> prefix c' c) ms"

lemma apart_extension: "\<not> prefix c c' \<Longrightarrow> \<not> prefix c' c \<Longrightarrow> \<not> prefix c (c' @ r)"
  by (auto simp: prefix_append dest: prefix_same_cases [of c "c' @ r" c'])

lemma to_host_skip:
  "\<forall>(_, c) \<in> set ms. \<not> prefix c p \<Longrightarrow> to_host (ms @ ms') p = to_host ms' p"
  by (induction ms) (auto simp: strip_path_prefix_None [symmetric])

lemma to_container_cases:
  "(\<exists>ms1 h c r ms2. ms = ms1 @ (h, c) # ms2 \<and> p = h @ r \<and> to_container ms p = c @ r \<and> (\<forall>(h', _) \<in> set ms1. \<not> prefix h' p))
   \<or> to_container ms p = p \<and> (\<forall>(h, _) \<in> set ms. \<not> prefix h p)"
proof (induction ms)
  case (Cons m ms)
  obtain h c where m: "m = (h, c)" by force
  show ?case
  proof (cases "strip_path_prefix h p")
    case (Some r)
    then have "p = h @ r" by (simp add: strip_path_prefix_Some)
    with Some m show ?thesis
      by (intro disjI1 exI [of _ "[]"] exI [of _ h] exI [of _ c] exI [of _ r] exI [of _ ms]) auto
  next
    case None
    then have "\<not> prefix h p" by (simp add: strip_path_prefix_None)
    from Cons.IH consider
        ms1 h1 c1 r ms2 where "ms = ms1 @ (h1, c1) # ms2" "p = h1 @ r" "to_container ms p = c1 @ r"
          "\<forall>(h', _) \<in> set ms1. \<not> prefix h' p"
      | "to_container ms p = p" "\<forall>(h, _) \<in> set ms. \<not> prefix h p" by blast
    then show ?thesis
    proof cases
      case (1 ms1 h1 c1 r ms2)
      then show ?thesis using None m \<open>\<not> prefix h p\<close>
        by (intro disjI1 exI [of _ "m # ms1"] exI [of _ h1] exI [of _ c1] exI [of _ r] exI [of _ ms2]) auto
    next
      case 2
      then show ?thesis using None m \<open>\<not> prefix h p\<close> by simp
    qed
  qed
qed simp

text \<open>
  Translating a host path into the container and back returns it: mounts whose container
  directories do not nest lose no path, for every path outside the container's own directories.
\<close>

theorem host_path_roundtrip:
  assumes "containers_apart ms" and "\<forall>(h, c) \<in> set ms. \<not> prefix c p"
  shows "to_host ms (to_container ms p) = p"
proof (cases "\<exists>ms1 h c r ms2. ms = ms1 @ (h, c) # ms2 \<and> p = h @ r \<and> to_container ms p = c @ r")
  case True
  then obtain ms1 h c r ms2 where ms: "ms = ms1 @ (h, c) # ms2" "p = h @ r" "to_container ms p = c @ r" by blast
  have "\<forall>(_, c') \<in> set ms1. \<not> prefix c' (c @ r)"
    using assms(1) apart_extension by (fastforce simp: containers_apart_def ms(1) sorted_wrt_append)
  then have "to_host ms (c @ r) = to_host ((h, c) # ms2) (c @ r)" unfolding ms(1) by (rule to_host_skip)
  also have "\<dots> = h @ r" by (simp add: strip_path_prefix_def)
  finally show ?thesis using ms by simp
next
  case False
  then have "to_container ms p = p" using to_container_cases [of ms p] by blast
  moreover have "to_host ms p = p" using to_host_skip [of ms p "[]"] assms(2) by (auto simp: case_prod_beta)
  ultimately show ?thesis by simp
qed

theorem host_path_roundtrip_witness:
  "let ms = add_mapping [''/'', ''d'', ''_temp'', ''home''] [''/'', ''github'', ''home'']
              (new_translator [''/'', ''d'', ''work''] [''/'', ''d'', ''_temp''])
   in to_host ms (to_container ms [''/'', ''d'', ''_temp'', ''home'', ''x'']) = [''/'', ''d'', ''_temp'', ''home'', ''x'']"
  unfolding Let_def
  by (rule host_path_roundtrip)
     (simp_all add: add_mapping_def new_translator_def containers_apart_def insort_key_def)

text \<open>
  Nested mounts resolve to the innermost one: with the mappings ordered as \<open>add_mapping\<close> keeps them,
  a host path is translated by the mapping with the longest matching host directory.
\<close>

theorem longest_mount_wins:
  assumes "(h, c) \<in> set (add_mapping host container ms)" and "prefix h p"
  shows "\<exists>h' c' r. (h', c') \<in> set (add_mapping host container ms) \<and> p = h' @ r
    \<and> to_container (add_mapping host container ms) p = c' @ r \<and> length h \<le> length h'"
proof -
  let ?ms = "add_mapping host container ms"
  have sorted: "sorted_wrt (\<lambda>(h1, _) (h2, _). length h2 \<le> length h1) ?ms"
    using sorted_sort_key [of "\<lambda>(h, _). - int (length h)"]
    unfolding add_mapping_def sorted_map by (rule sorted_wrt_mono_rel [rotated]) auto
  from to_container_cases [of ?ms p] assms obtain ms1 h' c' r ms2 where
    split: "?ms = ms1 @ (h', c') # ms2" "p = h' @ r" "to_container ?ms p = c' @ r" "\<forall>(g, _) \<in> set ms1. \<not> prefix g p"
    by auto
  with assms have "(h, c) \<in> set ((h', c') # ms2)" by auto
  then have "length h \<le> length h'" using sorted unfolding split(1) by (auto simp: sorted_wrt_append)
  with split show ?thesis by (metis in_set_conv_decomp)
qed

theorem longest_mount_wins_witness:
  "\<exists>h' c' r. (h', c') \<in> set (add_mapping [''/'', ''d'', ''x''] [''/'', ''github'', ''home''] (new_translator [''/'', ''w''] [''/'', ''d'']))
    \<and> [''/'', ''d'', ''x'', ''f''] = h' @ r
    \<and> to_container (add_mapping [''/'', ''d'', ''x''] [''/'', ''github'', ''home''] (new_translator [''/'', ''w''] [''/'', ''d'']))
        [''/'', ''d'', ''x'', ''f''] = c' @ r \<and> length [''/'', ''d''] \<le> length h'"
  by (rule longest_mount_wins [where c = "[''/'', ''github'', ''runner_temp'']"]) (auto simp: add_mapping_def new_translator_def)

text \<open>
  A volume the user may mount cannot hide a directory the runner owns: its destination neither
  contains nor lies inside any of the runner's own mounts below \<open>/github\<close>.
\<close>

theorem accepted_volume_is_apart:
  assumes "validate_volume volume = Ok ()"
  shows "\<exists>destination. volume_destination volume = Some destination
    \<and> \<not> prefix (components destination) ([''/'', ''github''] @ sub)
    \<and> \<not> prefix ([''/'', ''github''] @ sub) (components destination)"
proof -
  from assms obtain destination where d: "volume_destination volume = Some destination" "starts_with destination ''/''"
    "components destination \<noteq> [''/'']" "\<not> prefix [''/'', ''github''] (components destination)"
    by (auto simp: validate_volume_def Let_def strip_path_prefix_None split: option.splits if_splits)
  then obtain rest where "components destination = ''/'' # rest" "rest \<noteq> []" by (auto simp: components_def Let_def)
  with d(4) obtain x xs where "components destination = ''/'' # x # xs" "x \<noteq> ''github''"
    by (cases rest) auto
  with d(1) show ?thesis by auto
qed

theorem accepted_volume_is_apart_witness:
  "\<exists>destination. volume_destination ''/srv/data:/data/in:ro'' = Some destination
    \<and> \<not> prefix (components destination) ([''/'', ''github''] @ [''workspace''])
    \<and> \<not> prefix ([''/'', ''github''] @ [''workspace'']) (components destination)"
proof (rule accepted_volume_is_apart)
  show "validate_volume ''/srv/data:/data/in:ro'' = Ok ()" by code_simp
qed

end
