(* ===== verification/Job_Message.thy ===== *)
theory Job_Message
  imports Number
begin

text \<open>
  The data a job arrives with: template tokens (\<open>crates/shared/src/job_message/template_token.rs\<close>), steps
  (\<open>step.rs\<close>), action manifests (\<open>crates/execution/src/execution/actions/manifest.rs\<close>) and the cleanup
  steps actions register (\<open>step_naming.rs\<close>).

  A hash map of the source is a map, or a list without duplicate names where the source iterates.
\<close>

subsection \<open>Template tokens\<close>

datatype template_token =
  Template_Token (tt_type: int) (tt_lit: "string option") (tt_expr: "string option") (tt_bool: "bool option")
    (tt_num: "f64 option") (tt_d: "(template_token \<times> template_token) list option") (tt_seq: "template_token list option")
    (tt_file: "int option") (tt_line: "int option") (tt_col: "int option")

definition default_token :: template_token where
  "default_token = Template_Token 0 None None None None None None None None None"

definition token_literal :: "string \<Rightarrow> template_token" where
  "token_literal v = Template_Token 0 (Some v) None None None None None None None None"

definition token_expression :: "string \<Rightarrow> template_token" where
  "token_expression e = Template_Token 3 None (Some e) None None None None None None None"

definition token_boolean :: "bool \<Rightarrow> template_token" where
  "token_boolean b = Template_Token 5 None None (Some b) None None None None None None"

definition token_number :: "f64 \<Rightarrow> template_token" where
  "token_number n = Template_Token 6 None None None (Some n) None None None None None"

definition token_null :: template_token where
  "token_null = Template_Token 7 None None None None None None None None None"

definition to_string_value :: "template_token \<Rightarrow> string option" where
  "to_string_value t = (if tt_type t = 0 then tt_lit t else None)"

definition to_expr_string :: "template_token \<Rightarrow> string option" where
  "to_expr_string t = (if tt_type t = 3 then tt_expr t else None)"

definition dict_entries :: "template_token \<Rightarrow> (template_token \<times> template_token) list" where
  "dict_entries t = (case tt_d t of Some es \<Rightarrow> es | None \<Rightarrow> [])"

definition to_map :: "template_token \<Rightarrow> (string \<rightharpoonup> template_token)" where
  "to_map t = fold (\<lambda>(k, v) m. case to_string_value k of Some name \<Rightarrow> m(name \<mapsto> v) | None \<Rightarrow> m) (dict_entries t) Map.empty"

subsection \<open>Steps\<close>

record step_reference =
  ref_type :: "string option"
  ref_image :: "string option"
  ref_name :: "string option"
  ref_git_ref :: "string option"
  ref_repository_type :: "string option"
  ref_path :: "string option"

record action_step =
  as_id :: string
  as_name :: "string option"
  as_type :: "string option"
  as_display_name_token :: "template_token option"
  as_context_name :: "string option"
  as_condition :: "string option"
  as_continue_on_error :: "template_token option"
  as_timeout_in_minutes :: "template_token option"
  as_reference :: step_reference
  as_inputs :: template_token
  as_environment :: "template_token option"

definition script_reference :: step_reference where
  "script_reference = \<lparr>ref_type = Some ''script'', ref_image = None, ref_name = None, ref_git_ref = None,
     ref_repository_type = None, ref_path = None\<rparr>"

definition expression_name :: "action_step \<Rightarrow> string option" where
  "expression_name step =
     (case as_context_name step of Some name \<Rightarrow> if name = [] \<or> starts_with name ''__'' then None else Some name | None \<Rightarrow> None)"

definition is_run_step :: "action_step \<Rightarrow> bool" where
  "is_run_step step \<longleftrightarrow> ref_type (as_reference step) = Some ''script''"

definition set_continue_on_error :: "bool \<Rightarrow> action_step \<Rightarrow> action_step" where
  "set_continue_on_error v step = step\<lparr>as_continue_on_error := Some (token_boolean v)\<rparr>"

definition step_input :: "string \<Rightarrow> action_step \<Rightarrow> string option" where
  "step_input key step = Option.bind (to_map (as_inputs step) key) to_string_value"

text \<open>\<open>ActionStep::script\<close>, the smallest script step.\<close>

definition script_step :: "string \<Rightarrow> string \<Rightarrow> string \<Rightarrow> action_step" where
  "script_step i body cond =
     \<lparr>as_id = i, as_name = None, as_type = Some ''script'', as_display_name_token = None, as_context_name = Some i,
      as_condition = (if cond = [] then None else Some cond), as_continue_on_error = None, as_timeout_in_minutes = None,
      as_reference = script_reference,
      as_inputs = Template_Token 2 None None None None (Some [(token_literal ''script'', token_literal body)]) None None None None,
      as_environment = None\<rparr>"

subsection \<open>Manifests\<close>

record action_input =
  ai_description :: string
  ai_required :: bool
  ai_default :: "string option"

record action_output =
  ao_description :: string
  ao_value :: "string option"

record composite_step =
  cs_id :: "string option"
  cs_name :: "string option"
  cs_run :: "string option"
  cs_shell :: "string option"
  cs_working_directory :: "string option"
  cs_env :: "(string \<times> string) list"
  cs_condition :: "string option"
  cs_uses :: "string option"
  cs_continue_on_error :: "template_token option"
  cs_with :: "(string \<times> string) list"

datatype runs_using = Using_Node nat | Using_Composite | Using_Docker

record action_runs =
  runs_kind :: runs_using
  runs_main :: "string option"
  runs_pre :: "string option"
  runs_post :: "string option"
  runs_pre_if :: "string option"
  runs_post_if :: "string option"
  runs_image :: "string option"
  runs_args :: "string list option"
  runs_env :: "(string \<times> string) list"
  runs_entrypoint :: "string option"
  runs_pre_entrypoint :: "string option"
  runs_post_entrypoint :: "string option"
  runs_steps :: "composite_step list"

record action_definition =
  ad_name :: string
  ad_description :: string
  ad_inputs :: "(string \<times> action_input) list"
  ad_outputs :: "(string \<times> action_output) list"
  ad_runs :: action_runs

subsection \<open>Cleanup steps\<close>

record post_step =
  ps_step :: action_step
  ps_action_name :: string
  ps_step_env :: "string \<rightharpoonup> string"
  ps_report_id :: string
  ps_scope_path :: "string list"
  ps_action_dir :: string
  ps_manifest :: action_definition
  ps_major :: nat
  ps_docker_image :: "string option"
  ps_docker_inputs :: "(string \<rightharpoonup> string) option"
  ps_condition :: "string option"

definition effective_condition :: "post_step \<Rightarrow> string" where
  "effective_condition p = (case ps_condition p of Some c \<Rightarrow> c | None \<Rightarrow> ''always()'')"

text \<open>The queue: \<open>register\<close> pushes at the end, \<open>drain_lifo\<close> empties it, last registered first.\<close>

definition register_post :: "post_step \<Rightarrow> post_step list \<Rightarrow> post_step list" where
  "register_post p posts = posts @ [p]"

definition drain_lifo :: "post_step list \<Rightarrow> post_step list \<times> post_step list" where
  "drain_lifo posts = (rev posts, [])"

end
