(* ===== verification/Execution_Context.thy ===== *)
theory Execution_Context
  imports Expr_Evaluator Secret_Masker Problem_Matcher Container_Paths Job_Message
begin

text \<open>
  The job-wide state of \<open>crates/execution/src/execution/context.rs\<close> and its parts: per-step outputs
  and private action state with composite scopes (\<open>context/state.rs\<close>, \<open>step_state.rs\<close>), the layered
  environment (\<open>context_env.rs\<close>, \<open>context_scopes.rs\<close>, \<open>step_process_env.rs\<close>), job status
  (\<open>job_cancellation.rs\<close>), secrets, service variables (\<open>service_endpoints.rs\<close>), action identity
  (\<open>action_metadata.rs\<close>), the post-step queue (\<open>step_naming.rs\<close>) and the composite depth limit
  (\<open>depth_tracker.rs\<close>).

  Hash maps are maps. The shared \<open>Arc<Mutex<SecretMasker>>\<close> is one field of the context. The process
  environment is a parameter where the source reads it.
\<close>

subsection \<open>State\<close>

datatype conclusion = Con_Success | Con_Failure | Con_Cancelled | Con_Skipped

record step_state =
  ss_outputs :: "string \<rightharpoonup> string"
  ss_outcome :: "conclusion option"
  ss_conclusion :: "conclusion option"

definition default_step_state :: step_state where
  "default_step_state = \<lparr>ss_outputs = Map.empty, ss_outcome = None, ss_conclusion = None\<rparr>"

record service_env =
  se_node :: "(string \<times> string) list"
  se_container :: "(string \<times> string) list"
  se_script :: "(string \<times> string) list"

record step_display =
  sd_initial :: string
  sd_current :: string
  sd_evaluated :: bool

text \<open>\<open>ec_next_ref\<close> is the first array or object identity that no stored value carries.\<close>

record exec_context =
  ec_matchers :: matcher_registry
  ec_env :: "string \<rightharpoonup> string"
  ec_step_env_overlays :: "(string \<rightharpoonup> string) list"
  ec_steps :: "string \<rightharpoonup> step_state"
  ec_scoped_steps :: "string list \<rightharpoonup> (string \<rightharpoonup> step_state)"
  ec_scope_path :: "string list"
  ec_scoped_inputs :: "string list \<rightharpoonup> (string \<rightharpoonup> string)"
  ec_scoped_status :: "string list \<rightharpoonup> job_status"
  ec_scoped_action_paths :: "string list \<rightharpoonup> string"
  ec_action_states :: "string list \<times> string \<rightharpoonup> (string \<rightharpoonup> string)"
  ec_github :: "(string \<times> expr_value) list"
  ec_runner :: "(string \<times> expr_value) list"
  ec_job_status :: job_status
  ec_request_cancelled :: "bool option"
  ec_shutdown :: bool
  ec_secrets :: "string \<rightharpoonup> string"
  ec_vars :: "string \<rightharpoonup> string"
  ec_masker :: secret_masker
  ec_path_additions :: "string list"
  ec_workspace :: "path option"
  ec_container :: "job_container option"
  ec_network_env :: "(string \<times> string) list"
  ec_service_env :: service_env
  ec_nested_posts :: "post_step list"
  ec_incoming_contexts :: "(string \<times> expr_value) list"
  ec_services :: "(string \<times> expr_value) list option"
  ec_file_table :: "json list"
  ec_step_displays :: "string \<rightharpoonup> step_display"
  ec_next_step_number :: "nat option"
  ec_docker_setup_count :: nat
  ec_next_ref :: nat

definition new_context :: "secret_masker \<Rightarrow> string \<Rightarrow> string \<Rightarrow> exec_context" where
  "new_context masker os arch =
     \<lparr>ec_matchers = empty_registry, ec_env = Map.empty, ec_step_env_overlays = [], ec_steps = Map.empty,
      ec_scoped_steps = Map.empty, ec_scope_path = [], ec_scoped_inputs = Map.empty, ec_scoped_status = Map.empty,
      ec_scoped_action_paths = Map.empty, ec_action_states = Map.empty, ec_github = [],
      ec_runner = [(''environment'', Str ''self-hosted''), (''os'', Str os), (''arch'', Str arch)],
      ec_job_status = Success, ec_request_cancelled = None, ec_shutdown = False, ec_secrets = Map.empty,
      ec_vars = Map.empty, ec_masker = masker, ec_path_additions = [], ec_workspace = None, ec_container = None, ec_network_env = [],
      ec_service_env = \<lparr>se_node = [], se_container = [], se_script = []\<rparr>, ec_nested_posts = [],
      ec_incoming_contexts = map (\<lambda>name. (name, Null)) [''matrix'', ''strategy'', ''needs'', ''inputs''],
      ec_services = None, ec_file_table = [], ec_step_displays = Map.empty, ec_next_step_number = None,
      ec_docker_setup_count = 0, ec_next_ref = 0\<rparr>"

subsection \<open>Scopes, outputs and private state\<close>

definition enter_step_scope :: "string \<Rightarrow> (string \<rightharpoonup> string) \<Rightarrow> string \<Rightarrow> exec_context \<Rightarrow> exec_context" where
  "enter_step_scope wire_id inputs action_dir ctx =
     (let path = ec_scope_path ctx @ [wire_id]
      in ctx\<lparr>ec_scope_path := path,
             ec_scoped_inputs := (ec_scoped_inputs ctx)(path \<mapsto> inputs),
             ec_scoped_status := (ec_scoped_status ctx)(path \<mapsto> Success),
             ec_scoped_action_paths := (ec_scoped_action_paths ctx)(path \<mapsto> action_dir)\<rparr>)"

definition set_scope_status :: "job_status \<Rightarrow> exec_context \<Rightarrow> exec_context" where
  "set_scope_status status ctx =
     (if ec_scope_path ctx = [] then ctx\<lparr>ec_job_status := status\<rparr>
      else ctx\<lparr>ec_scoped_status := (ec_scoped_status ctx)(ec_scope_path ctx \<mapsto> status)\<rparr>)"

definition restore_step_scope :: "string list \<Rightarrow> exec_context \<Rightarrow> exec_context" where
  "restore_step_scope path ctx = ctx\<lparr>ec_scope_path := path\<rparr>"

definition current_steps :: "exec_context \<Rightarrow> (string \<rightharpoonup> step_state) option" where
  "current_steps ctx = (if ec_scope_path ctx = [] then Some (ec_steps ctx) else ec_scoped_steps ctx (ec_scope_path ctx))"

text \<open>\<open>current_steps_mut().entry(name).or_default()\<close> followed by an update of the entry.\<close>

definition update_step :: "string \<Rightarrow> (step_state \<Rightarrow> step_state) \<Rightarrow> exec_context \<Rightarrow> exec_context" where
  "update_step name f ctx =
     (let upd = (\<lambda>m. m(name \<mapsto> f (case m name of Some s \<Rightarrow> s | None \<Rightarrow> default_step_state)))
      in if ec_scope_path ctx = [] then ctx\<lparr>ec_steps := upd (ec_steps ctx)\<rparr>
         else ctx\<lparr>ec_scoped_steps := (ec_scoped_steps ctx)(ec_scope_path ctx \<mapsto>
                upd (case ec_scoped_steps ctx (ec_scope_path ctx) of Some m \<Rightarrow> m | None \<Rightarrow> Map.empty))\<rparr>)"

definition set_step_output :: "string \<Rightarrow> string \<Rightarrow> string \<Rightarrow> exec_context \<Rightarrow> exec_context" where
  "set_step_output name key value = update_step name (\<lambda>s. s\<lparr>ss_outputs := (ss_outputs s)(key \<mapsto> value)\<rparr>)"

definition set_step_outcome :: "string \<Rightarrow> conclusion \<Rightarrow> exec_context \<Rightarrow> exec_context" where
  "set_step_outcome name c = update_step name (\<lambda>s. s\<lparr>ss_outcome := Some c\<rparr>)"

definition set_step_conclusion :: "string \<Rightarrow> conclusion \<Rightarrow> exec_context \<Rightarrow> exec_context" where
  "set_step_conclusion name c = update_step name (\<lambda>s. s\<lparr>ss_conclusion := Some c\<rparr>)"

definition step_outputs :: "string \<Rightarrow> exec_context \<Rightarrow> (string \<rightharpoonup> string)" where
  "step_outputs name ctx =
     (case Option.bind (current_steps ctx) (\<lambda>m. m name) of Some s \<Rightarrow> ss_outputs s | None \<Rightarrow> Map.empty)"

definition set_step_state :: "string \<Rightarrow> string \<Rightarrow> string \<Rightarrow> exec_context \<Rightarrow> exec_context" where
  "set_step_state step_id key value ctx =
     (let k = (ec_scope_path ctx, step_id)
      in ctx\<lparr>ec_action_states := (ec_action_states ctx)(k \<mapsto>
           (case ec_action_states ctx k of Some m \<Rightarrow> m | None \<Rightarrow> Map.empty)(key \<mapsto> value))\<rparr>)"

definition step_state_of :: "string \<Rightarrow> exec_context \<Rightarrow> (string \<rightharpoonup> string)" where
  "step_state_of step_id ctx =
     (case ec_action_states ctx (ec_scope_path ctx, step_id) of Some m \<Rightarrow> m | None \<Rightarrow> Map.empty)"

definition conclusion_to_string :: "conclusion \<Rightarrow> string" where
  "conclusion_to_string c = (case c of Con_Success \<Rightarrow> ''success'' | Con_Failure \<Rightarrow> ''failure''
     | Con_Cancelled \<Rightarrow> ''cancelled'' | Con_Skipped \<Rightarrow> ''skipped'')"

subsection \<open>Environment\<close>

definition set_env :: "string \<Rightarrow> string \<Rightarrow> exec_context \<Rightarrow> exec_context" where
  "set_env key value ctx = ctx\<lparr>ec_env := (ec_env ctx)(key \<mapsto> value)\<rparr>"

definition prepend_path :: "string \<Rightarrow> exec_context \<Rightarrow> exec_context" where
  "prepend_path dir ctx = ctx\<lparr>ec_path_additions := ec_path_additions ctx @ [dir]\<rparr>"

definition visible_env :: "exec_context \<Rightarrow> (string \<rightharpoonup> string)" where
  "visible_env ctx = fold (\<lambda>overlay env. env ++ overlay) (ec_step_env_overlays ctx) (ec_env ctx)"

definition snapshot_step_env :: "exec_context \<Rightarrow> (string \<rightharpoonup> string)" where
  "snapshot_step_env ctx = fold (\<lambda>overlay env. env ++ overlay) (ec_step_env_overlays ctx) Map.empty"

definition push_step_env :: "(string \<rightharpoonup> string) \<Rightarrow> exec_context \<Rightarrow> exec_context" where
  "push_step_env env ctx = ctx\<lparr>ec_step_env_overlays := ec_step_env_overlays ctx @ [env]\<rparr>"

definition pop_step_env :: "exec_context \<Rightarrow> exec_context" where
  "pop_step_env ctx = ctx\<lparr>ec_step_env_overlays := butlast (ec_step_env_overlays ctx)\<rparr>"

definition env_var :: "string \<Rightarrow> exec_context \<Rightarrow> string option" where
  "env_var key ctx = visible_env ctx key"

definition extend_env :: "(string \<times> string) list \<Rightarrow> (string \<rightharpoonup> string) \<Rightarrow> (string \<rightharpoonup> string)" where
  "extend_env kvs env = fold (\<lambda>kv m. m(fst kv \<mapsto> snd kv)) kvs env"

definition apply_action_service_env :: "exec_context \<Rightarrow> bool \<Rightarrow> (string \<rightharpoonup> string) \<Rightarrow> (string \<rightharpoonup> string)" where
  "apply_action_service_env ctx node env =
     extend_env (if node then se_node (ec_service_env ctx) else se_container (ec_service_env ctx)) env"

definition apply_script_service_env :: "exec_context \<Rightarrow> (string \<rightharpoonup> string) \<Rightarrow> (string \<rightharpoonup> string)" where
  "apply_script_service_env ctx env = extend_env (se_script (ec_service_env ctx)) env"

definition TRACKING_ENV :: string where "TRACKING_ENV = ''RUNNER_TRACKING_ID''"

definition is_runner_private_env_key :: "string \<Rightarrow> bool" where
  "is_runner_private_env_key key =
     (case str_get key 0 13 of Some p \<Rightarrow> eq_ignore_ascii_case p ''TOOLU_RUNNER_'' | None \<Rightarrow> False)"

definition safe_process_env_vars :: "(string \<times> string) list \<Rightarrow> (string \<times> string) list" where
  "safe_process_env_vars vars = filter (\<lambda>(k, _). \<not> is_runner_private_env_key k \<and> k \<noteq> TRACKING_ENV) vars"

definition inherited_process_env :: "(string \<times> string) list \<Rightarrow> exec_context \<Rightarrow> (string \<rightharpoonup> string)" where
  "inherited_process_env vars ctx = extend_env (ec_network_env ctx) (extend_env (safe_process_env_vars vars) Map.empty)"

text \<open>The last argument but one is the runner's own \<open>PATH\<close>.\<close>

definition merge_step_env_with_paths ::
  "string option \<Rightarrow> (string \<rightharpoonup> string) \<Rightarrow> (string \<rightharpoonup> string) \<Rightarrow> string list \<Rightarrow> (string \<rightharpoonup> string)" where
  "merge_step_env_with_paths process_path result step_env path_additions =
     (let result = result ++ step_env
      in if path_additions = [] then result
         else let existing = unwrap_or_default (option_or (result ''PATH'') process_path);
                  new_path = rev path_additions @ (if existing \<noteq> [] then [existing] else [])
              in result(''PATH'' \<mapsto> join_str '':'' new_path))"

definition github_context :: "string \<Rightarrow> exec_context \<Rightarrow> string option" where
  "github_context key ctx = (case map_of (ec_github ctx) key of Some (Str s) \<Rightarrow> Some s | _ \<Rightarrow> None)"

definition set_github_context :: "string \<Rightarrow> string \<Rightarrow> exec_context \<Rightarrow> exec_context" where
  "set_github_context key value ctx = ctx\<lparr>ec_github := index_insert key (Str value) (ec_github ctx)\<rparr>"

definition set_github_context_value :: "string \<Rightarrow> expr_value \<Rightarrow> exec_context \<Rightarrow> exec_context" where
  "set_github_context_value key value ctx = ctx\<lparr>ec_github := index_insert key value (ec_github ctx)\<rparr>"

definition metadata_keys :: "string list" where
  "metadata_keys = [''action'', ''action_repository'', ''action_ref'']"

definition capture_metadata :: "exec_context \<Rightarrow> expr_value list" where
  "capture_metadata ctx = map (\<lambda>key. case map_of (ec_github ctx) key of Some v \<Rightarrow> v | None \<Rightarrow> Null) metadata_keys"

definition restore_metadata :: "expr_value list \<Rightarrow> exec_context \<Rightarrow> exec_context" where
  "restore_metadata saved ctx =
     fold (\<lambda>kv ctx. set_github_context_value (fst kv) (snd kv) ctx) (zip metadata_keys saved) ctx"

definition clear_repository :: "exec_context \<Rightarrow> exec_context" where
  "clear_repository ctx = set_github_context ''action_ref'' [] (set_github_context ''action_repository'' [] ctx)"

definition export_metadata :: "exec_context \<Rightarrow> (string \<rightharpoonup> string) \<Rightarrow> (string \<rightharpoonup> string)" where
  "export_metadata ctx env =
     (fold (\<lambda>key env. env(''GITHUB_'' @ map to_ascii_upper key \<mapsto> unwrap_or_default (github_context key ctx)))
        metadata_keys env)(''RUNNER_ENVIRONMENT'' \<mapsto> ''self-hosted'')"

definition or_insert :: "string \<Rightarrow> string \<Rightarrow> (string \<rightharpoonup> string) \<Rightarrow> (string \<rightharpoonup> string)" where
  "or_insert key value env = (if env key = None then env(key \<mapsto> value) else env)"

definition build_step_env :: "string option \<Rightarrow> (string \<rightharpoonup> string) \<Rightarrow> exec_context \<Rightarrow> (string \<rightharpoonup> string)" where
  "build_step_env process_path step_env ctx =
     (let base = (case ec_container ctx of
            Some c \<Rightarrow> or_insert ''HOME'' ''/github/home'' (or_insert ''PATH'' (jc_image_path c) (visible_env ctx))
          | None \<Rightarrow> visible_env ctx)
      in export_metadata ctx (merge_step_env_with_paths process_path base step_env (ec_path_additions ctx)))"

definition build_host_step_env :: "string option \<Rightarrow> exec_context \<Rightarrow> (string \<rightharpoonup> string)" where
  "build_host_step_env process_path ctx =
     merge_step_env_with_paths process_path (visible_env ctx) Map.empty
       (map (\<lambda>p. case ec_container ctx of None \<Rightarrow> p | Some c \<Rightarrow> path_text (to_host (jc_translator c) (components p)))
          (ec_path_additions ctx))"

text \<open>\<open>step_process_env::apply\<close>; the third argument is \<open>CI\<close> of the runner's process.\<close>

definition apply_process_flags ::
  "string option \<Rightarrow> string option \<Rightarrow> string option \<Rightarrow> (string \<rightharpoonup> string) \<Rightarrow> (string \<rightharpoonup> string)" where
  "apply_process_flags container_ci tracking process_ci env =
     (let env = (case tracking of
            Some i \<Rightarrow> (if env TRACKING_ENV = None then env(TRACKING_ENV \<mapsto> i) else env) | None \<Rightarrow> env);
          env = env(''GITHUB_ACTIONS'' \<mapsto> ''true'')
      in if env ''CI'' = None
         then env(''CI'' \<mapsto> (case option_or container_ci process_ci of Some v \<Rightarrow> v | None \<Rightarrow> ''true''))
         else env)"

subsection \<open>Status\<close>

text \<open>\<open>JobCancellation::status\<close>; \<open>None\<close> is a context without a cancellation controller.\<close>

definition cancellation_status :: "bool \<Rightarrow> bool \<Rightarrow> job_status \<Rightarrow> job_status" where
  "cancellation_status shutdown request prior = (if shutdown then Failure else if request then Cancelled else prior)"

definition live_job_status :: "exec_context \<Rightarrow> job_status" where
  "live_job_status ctx = (case ec_request_cancelled ctx of
       None \<Rightarrow> ec_job_status ctx
     | Some request \<Rightarrow> cancellation_status (ec_shutdown ctx) request (ec_job_status ctx))"

definition record_step_failure :: "exec_context \<Rightarrow> exec_context" where
  "record_step_failure ctx = (if live_job_status ctx \<noteq> Cancelled then ctx\<lparr>ec_job_status := Failure\<rparr> else ctx)"

definition record_job_cancelled :: "exec_context \<Rightarrow> exec_context" where
  "record_job_cancelled ctx = ctx\<lparr>ec_job_status := Cancelled\<rparr>"

definition scoped_job_status :: "exec_context \<Rightarrow> job_status" where
  "scoped_job_status ctx =
     (if live_job_status ctx = Cancelled then Cancelled
      else case ec_scoped_status ctx (ec_scope_path ctx) of Some s \<Rightarrow> s | None \<Rightarrow> live_job_status ctx)"

definition literal_status_condition :: "exec_context \<Rightarrow> string \<Rightarrow> bool option" where
  "literal_status_condition ctx cond =
     (let c = trim cond
      in if c = ''success()'' then Some (live_job_status ctx = Success)
         else if c = ''always()'' then Some True
         else if c = ''failure()'' then Some (live_job_status ctx = Failure)
         else if c = ''cancelled()'' then Some (live_job_status ctx = Cancelled)
         else None)"

subsection \<open>Secrets and services\<close>

definition register_secret :: "masker_externs \<Rightarrow> string \<Rightarrow> string \<Rightarrow> exec_context \<Rightarrow> exec_context" where
  "register_secret X key value ctx =
     ctx\<lparr>ec_secrets := (ec_secrets ctx)(key \<mapsto> value), ec_masker := add_secret X value (ec_masker ctx)\<rparr>"

definition register_secrets :: "masker_externs \<Rightarrow> (string \<times> string) list \<Rightarrow> exec_context \<Rightarrow> exec_context" where
  "register_secrets X kvs ctx =
     ctx\<lparr>ec_secrets := extend_env kvs (ec_secrets ctx), ec_masker := add_secrets X (map snd kvs) (ec_masker ctx)\<rparr>"

definition context_add_mask :: "masker_externs \<Rightarrow> string \<Rightarrow> exec_context \<Rightarrow> exec_context" where
  "context_add_mask X value ctx = ctx\<lparr>ec_masker := add_secret X value (ec_masker ctx)\<rparr>"

definition context_add_masks :: "masker_externs \<Rightarrow> string list \<Rightarrow> exec_context \<Rightarrow> exec_context" where
  "context_add_masks X values ctx = ctx\<lparr>ec_masker := add_secrets X values (ec_masker ctx)\<rparr>"

definition set_action :: "string \<Rightarrow> string \<Rightarrow> service_env \<Rightarrow> service_env" where
  "set_action key value s =
     s\<lparr>se_node := filter (\<lambda>(k, _). k \<noteq> key) (se_node s) @ [(key, value)],
       se_container := filter (\<lambda>(k, _). k \<noteq> key) (se_container s) @ [(key, value)]\<rparr>"

definition set_node :: "string \<Rightarrow> string \<Rightarrow> service_env \<Rightarrow> service_env" where
  "set_node key value s = s\<lparr>se_node := filter (\<lambda>(k, _). k \<noteq> key) (se_node s) @ [(key, value)]\<rparr>"

definition service_tokens :: "service_env \<Rightarrow> string list" where
  "service_tokens s = map snd (filter (\<lambda>(k, _). ends_with k ''_TOKEN'') (se_node s @ se_container s @ se_script s))"

definition set_service_env :: "masker_externs \<Rightarrow> service_env \<Rightarrow> exec_context \<Rightarrow> exec_context" where
  "set_service_env X s ctx = (context_add_masks X (service_tokens s) ctx)\<lparr>ec_service_env := s\<rparr>"

record service_urls =
  su_results_url :: "string option"
  su_runtime_url :: "string option"
  su_cache_url :: "string option"
  su_cache_service_v2 :: bool
  su_cache_mode :: "string option"
  su_id_token_request_url :: "string option"
  su_runtime_token :: string
  su_orchestration_id :: "string option"

definition push_url :: "string \<Rightarrow> string option \<Rightarrow> (string \<times> string) list" where
  "push_url var value = (case value of Some v \<Rightarrow> [(var, v)] | None \<Rightarrow> [])"

definition forward_service_env :: "service_urls \<Rightarrow> service_env" where
  "forward_service_env u =
     (if su_runtime_token u = [] then \<lparr>se_node = [], se_container = [], se_script = []\<rparr>
      else let action = push_url ''ACTIONS_RESULTS_URL'' (su_results_url u)
                 @ push_url ''ACTIONS_RUNTIME_URL'' (su_runtime_url u)
                 @ push_url ''ACTIONS_CACHE_URL'' (su_cache_url u)
                 @ [(''ACTIONS_RUNTIME_TOKEN'', su_runtime_token u)];
               oidc = (case su_id_token_request_url u of
                   Some url \<Rightarrow> [(''ACTIONS_ID_TOKEN_REQUEST_URL'', url), (''ACTIONS_ID_TOKEN_REQUEST_TOKEN'', su_runtime_token u)]
                 | None \<Rightarrow> []);
               action = action @ oidc @ push_url ''ACTIONS_CACHE_MODE'' (su_cache_mode u);
               node = action @ (if su_cache_service_v2 u then [(''ACTIONS_CACHE_SERVICE_V2'', ''True'')] else [])
           in \<lparr>se_node = node, se_container = action, se_script = oidc\<rparr>)"

definition forward_env :: "service_urls \<Rightarrow> service_env" where
  "forward_env u =
     (let env = forward_service_env u
      in env\<lparr>se_script := se_script env @ push_url ''ACTIONS_ORCHESTRATION_ID'' (su_orchestration_id u)\<rparr>)"

subsection \<open>Keyed stores\<close>

text \<open>
  The contract every keyed table of the context keeps: a write is read back, and leaves every other
  key alone. What a sequence of writes leaves behind follows once for all of them.
\<close>

locale keyed_store =
  fixes put :: "'k \<Rightarrow> 'v \<Rightarrow> 's \<Rightarrow> 's" and get :: "'s \<Rightarrow> 'k \<Rightarrow> 'v option"
  assumes get_put: "get (put k v s) k' = (if k' = k then Some v else get s k')"
begin

lemma get_puts:
  "get (fold (\<lambda>kv. put (fst kv) (snd kv)) kvs s) k =
     (case map_of (rev kvs) k of Some v \<Rightarrow> Some v | None \<Rightarrow> get s k)"
proof (induction kvs arbitrary: s)
  case (Cons kv kvs)
  then show ?case by (cases kv) (auto simp: get_put map_add_def split: option.splits)
qed simp

lemma get_puts_other: "k \<notin> fst ` set kvs \<Longrightarrow> get (fold (\<lambda>kv. put (fst kv) (snd kv)) kvs s) k = get s k"
proof -
  assume "k \<notin> fst ` set kvs"
  then have "map_of (rev kvs) k = None" by (simp add: map_of_eq_None_iff)
  then show ?thesis by (simp add: get_puts)
qed

end

lemma update_step_scope [simp]: "ec_scope_path (update_step n f ctx) = ec_scope_path ctx"
  by (simp add: update_step_def Let_def)

interpretation output_store: keyed_store
  "\<lambda>k. set_step_output (fst k) (snd k)" "\<lambda>ctx k. step_outputs (fst k) ctx (snd k)"
  by unfold_locales
     (auto simp: set_step_output_def step_outputs_def current_steps_def update_step_def Let_def default_step_state_def
       split: option.splits)

interpretation state_store: keyed_store
  "\<lambda>k. set_step_state (fst k) (snd k)" "\<lambda>ctx k. step_state_of (fst k) ctx (snd k)"
  by unfold_locales
     (auto simp: set_step_state_def step_state_of_def Let_def split: option.splits)

interpretation env_store: keyed_store set_env ec_env
  by unfold_locales (simp add: set_env_def)

interpretation map_store: keyed_store "\<lambda>k v m. m(k \<mapsto> v)" "\<lambda>m k. m k"
  by unfold_locales simp

lemma extend_env_lookup:
  "extend_env kvs m k = (case map_of (rev kvs) k of Some v \<Rightarrow> Some v | None \<Rightarrow> m k)"
  unfolding extend_env_def by (rule map_store.get_puts)

subsection \<open>Composite scopes\<close>

datatype scope_write =
    W_Output string string string
  | W_State string string string
  | W_Outcome string conclusion
  | W_Conclusion string conclusion
  | W_Status job_status

fun apply_write :: "scope_write \<Rightarrow> exec_context \<Rightarrow> exec_context" where
  "apply_write (W_Output n k v) = set_step_output n k v"
| "apply_write (W_State i k v) = set_step_state i k v"
| "apply_write (W_Outcome n c) = set_step_outcome n c"
| "apply_write (W_Conclusion n c) = set_step_conclusion n c"
| "apply_write (W_Status s) = set_scope_status s"

text \<open>What every scope but \<open>p\<close> can see of a context.\<close>

definition same_outside :: "string list \<Rightarrow> exec_context \<Rightarrow> exec_context \<Rightarrow> bool" where
  "same_outside p a b \<longleftrightarrow>
     ec_scope_path a = p \<and> ec_scope_path b = p \<and> ec_steps a = ec_steps b \<and>
     ec_job_status a = ec_job_status b \<and> ec_env a = ec_env b \<and> ec_step_env_overlays a = ec_step_env_overlays b \<and>
     ec_request_cancelled a = ec_request_cancelled b \<and> ec_shutdown a = ec_shutdown b \<and>
     (\<forall>q. q \<noteq> p \<longrightarrow> ec_scoped_steps a q = ec_scoped_steps b q \<and> ec_scoped_status a q = ec_scoped_status b q) \<and>
     (\<forall>q i. q \<noteq> p \<longrightarrow> ec_action_states a (q, i) = ec_action_states b (q, i))"

lemma apply_write_outside:
  assumes "same_outside p a b" "p \<noteq> []"
  shows "same_outside p (apply_write w a) b"
  using assms
  by (cases w) (auto simp: same_outside_def set_step_output_def set_step_state_def set_step_outcome_def
      set_step_conclusion_def set_scope_status_def update_step_def Let_def)

lemma apply_writes_outside:
  "same_outside p a b \<Longrightarrow> p \<noteq> [] \<Longrightarrow> same_outside p (fold apply_write ws a) b"
  by (induction ws arbitrary: a) (simp_all add: apply_write_outside)

lemma live_job_status_scope [simp]: "live_job_status (ctx\<lparr>ec_scope_path := q\<rparr>) = live_job_status ctx"
  by (simp add: live_job_status_def cong: option.case_cong)

lemma outside_view:
  assumes "same_outside p a b" "q \<noteq> p"
  shows "step_outputs n (restore_step_scope q a) = step_outputs n (restore_step_scope q b)"
    "step_state_of i (restore_step_scope q a) = step_state_of i (restore_step_scope q b)"
    "scoped_job_status (restore_step_scope q a) = scoped_job_status (restore_step_scope q b)"
    "visible_env (restore_step_scope q a) = visible_env (restore_step_scope q b)"
proof -
  have "live_job_status a = live_job_status b"
    using assms by (simp add: same_outside_def live_job_status_def cong: option.case_cong)
  then show "scoped_job_status (restore_step_scope q a) = scoped_job_status (restore_step_scope q b)"
    using assms by (simp add: same_outside_def restore_step_scope_def scoped_job_status_def cong: option.case_cong)
qed (use assms in \<open>simp_all add: same_outside_def restore_step_scope_def step_outputs_def current_steps_def
    step_state_of_def visible_env_def\<close>)

lemma enter_restore_view:
  fixes ctx :: exec_context and w dir :: string and inputs :: "string \<rightharpoonup> string"
  defines "back \<equiv> restore_step_scope (ec_scope_path ctx) (enter_step_scope w inputs dir ctx)"
  shows "step_outputs n back = step_outputs n ctx" "step_state_of i back = step_state_of i ctx"
    "scoped_job_status back = scoped_job_status ctx" "visible_env back = visible_env ctx"
  by (simp_all add: back_def restore_step_scope_def enter_step_scope_def Let_def step_outputs_def current_steps_def
      step_state_of_def scoped_job_status_def live_job_status_def visible_env_def cong: option.case_cong)

text \<open>
  A composite action cannot disturb its caller: whatever outputs, states, results and statuses its
  steps record between entering and leaving its scope, the caller sees the outputs, the private
  state, the status and the environment it had before.
\<close>

theorem composite_scope_is_isolated:
  "let child = enter_step_scope wire_id inputs action_dir ctx;
       finished = restore_step_scope (ec_scope_path ctx) (fold apply_write writes child)
   in step_outputs name finished = step_outputs name ctx
    \<and> step_state_of step_id finished = step_state_of step_id ctx
    \<and> scoped_job_status finished = scoped_job_status ctx
    \<and> visible_env finished = visible_env ctx"
proof -
  let ?child = "enter_step_scope wire_id inputs action_dir ctx"
  let ?p = "ec_scope_path ctx @ [wire_id]"
  have child: "ec_scope_path ?child = ?p" by (simp add: enter_step_scope_def Let_def)
  have "same_outside ?p ?child ?child" by (simp add: same_outside_def child)
  then have "same_outside ?p (fold apply_write writes ?child) ?child" by (rule apply_writes_outside) simp
  from outside_view [OF this, of "ec_scope_path ctx"] show ?thesis
    by (simp add: Let_def enter_restore_view)
qed

subsection \<open>Search path\<close>

lemma split_join_last:
  "\<forall>x \<in> set xs. c \<notin> set x \<Longrightarrow> split_char c (join_str [c] (xs @ [e])) = xs @ split_char c e"
proof (induction xs)
  case (Cons x xs)
  have "split_char c (x @ c # t) = x # split_char c t" if "c \<notin> set x" for t
    using that by (induction x) auto
  moreover have "join_str [c] ((x # xs) @ [e]) = x @ c # join_str [c] (xs @ [e])" by (cases xs) auto
  ultimately show ?case using Cons by simp
qed simp

text \<open>
  The directories of \<open>GITHUB_PATH\<close> precede the inherited search path, the most recent one first.
\<close>

theorem path_additions_come_first:
  assumes "additions \<noteq> []" and "\<forall>d \<in> set additions. CHR '':'' \<notin> set d"
    and "existing = unwrap_or_default (option_or ((result ++ step_env) ''PATH'') process_path)" and "existing \<noteq> []"
  shows "\<exists>path. merge_step_env_with_paths process_path result step_env additions ''PATH'' = Some path
    \<and> split_char (CHR '':'') path = rev additions @ split_char (CHR '':'') existing"
  using assms split_join_last [of "rev additions" "CHR '':''" existing]
  by (simp add: merge_step_env_with_paths_def Let_def)

theorem path_additions_come_first_witness:
  "\<exists>path. merge_step_env_with_paths None [''PATH'' \<mapsto> ''/usr/bin:/bin''] Map.empty [''/a'', ''/b''] ''PATH'' = Some path
    \<and> split_char (CHR '':'') path = rev [''/a'', ''/b''] @ split_char (CHR '':'') ''/usr/bin:/bin''"
  by (rule path_additions_come_first) (simp_all add: unwrap_or_default_def option_or_def)

text \<open>
  No variable of the runner's private namespace reaches a step through the inherited process
  environment, whatever the letter case of its name.
\<close>

theorem private_env_never_inherited:
  assumes "is_runner_private_env_key key" and "key \<notin> fst ` set (ec_network_env ctx)"
  shows "inherited_process_env vars ctx key = None"
proof -
  have "key \<notin> fst ` set (safe_process_env_vars vars)" using assms(1) by (auto simp: safe_process_env_vars_def)
  then show ?thesis
    using assms(2) by (simp add: inherited_process_env_def extend_env_def map_store.get_puts_other)
qed

theorem private_env_never_inherited_witness:
  "inherited_process_env [(''Toolu_Runner_Token'', ''s3cret''), (''HOME'', ''/root'')]
     (new_context new_masker ''Linux'' ''X64'') ''Toolu_Runner_Token'' = None"
proof (rule private_env_never_inherited)
  show "is_runner_private_env_key ''Toolu_Runner_Token''" by code_simp
qed (simp add: new_context_def)

subsection \<open>Service variables\<close>

lemma insert_secret_patterns_trimmed:
  "MIN_SECRET_LEN \<le> length (trim v) \<Longrightarrow> trim v \<in> set (insert_secret_patterns X v ps)"
  using insert_secret_patterns_superset [of v X ps] add_pattern_mono [of "trim v" ps X] by blast

lemma add_secrets_trimmed:
  assumes "v \<in> set vs" "MIN_SECRET_LEN \<le> length (trim v)"
  shows "trim v \<in> set (patterns (add_secrets X vs m))"
proof -
  have "trim v \<in> set (fold (insert_secret_patterns X) vs ps)" for ps
    using assms
  proof (induction vs arbitrary: ps)
    case (Cons w vs)
    then show ?case
      using insert_secret_patterns_trimmed [of v X ps]
        fold_superset [of "insert_secret_patterns X" "insert_secret_patterns X v ps" vs, OF insert_secret_patterns_mono]
      by auto
  qed simp
  then show ?thesis by (simp add: add_secrets_def rebuild_automaton_def)
qed

text \<open>
  Runtime credentials stay where they belong: the environment of a \<open>run:\<close> step never receives the
  runtime token under its service name, a message without a token exports no service variable at
  all, and every token value handed to any kind of step is registered with the masker.
\<close>

theorem service_tokens_are_confined:
  fixes X u ctx
  defines "s \<equiv> forward_env u"
  shows "''ACTIONS_RUNTIME_TOKEN'' \<notin> fst ` set (se_script s)
    \<and> (su_runtime_token u = [] \<longrightarrow> se_node s = [] \<and> se_container s = [])
    \<and> (\<forall>(k, v) \<in> set (se_node s) \<union> set (se_container s) \<union> set (se_script s).
         ends_with k ''_TOKEN'' \<longrightarrow> MIN_SECRET_LEN \<le> length (trim v) \<longrightarrow>
         trim v \<in> set (patterns (ec_masker (set_service_env X s ctx))))"
proof (intro conjI)
  show "''ACTIONS_RUNTIME_TOKEN'' \<notin> fst ` set (se_script s)"
    by (auto simp: s_def forward_env_def forward_service_env_def Let_def push_url_def split: option.splits)
  show "su_runtime_token u = [] \<longrightarrow> se_node s = [] \<and> se_container s = []"
    by (simp add: s_def forward_env_def forward_service_env_def Let_def)
  have tok: "v \<in> set (service_tokens s)" if "(k, v) \<in> set (se_node s) \<union> set (se_container s) \<union> set (se_script s)"
    "ends_with k ''_TOKEN''" for k v
    using that by (force simp: service_tokens_def)
  show "\<forall>(k, v) \<in> set (se_node s) \<union> set (se_container s) \<union> set (se_script s).
      ends_with k ''_TOKEN'' \<longrightarrow> MIN_SECRET_LEN \<le> length (trim v) \<longrightarrow>
      trim v \<in> set (patterns (ec_masker (set_service_env X s ctx)))"
    using tok add_secrets_trimmed [of _ "service_tokens s" X "ec_masker ctx"]
    by (auto simp: set_service_env_def context_add_masks_def)
qed

theorem service_tokens_are_confined_witness:
  "trim ''gho_abcdef'' \<in> set (patterns (ec_masker (set_service_env plain_masker_externs
     (forward_env \<lparr>su_results_url = None, su_runtime_url = Some ''https://p'', su_cache_url = None, su_cache_service_v2 = True,
        su_cache_mode = None, su_id_token_request_url = None, su_runtime_token = ''gho_abcdef'', su_orchestration_id = None\<rparr>)
     (new_context new_masker ''Linux'' ''X64''))))"
proof -
  let ?u = "\<lparr>su_results_url = None, su_runtime_url = Some ''https://p'', su_cache_url = None, su_cache_service_v2 = True,
        su_cache_mode = None, su_id_token_request_url = None, su_runtime_token = ''gho_abcdef'', su_orchestration_id = None\<rparr>"
  have "(''ACTIONS_RUNTIME_TOKEN'', ''gho_abcdef'') \<in> set (se_container (forward_env ?u))" by code_simp
  moreover have "ends_with ''ACTIONS_RUNTIME_TOKEN'' ''_TOKEN''" "MIN_SECRET_LEN \<le> length (trim ''gho_abcdef'')" by code_simp+
  ultimately show ?thesis
    using service_tokens_are_confined [of ?u plain_masker_externs "new_context new_masker ''Linux'' ''X64''"] by blast
qed

subsection \<open>Status conditions\<close>

text \<open>
  The shortcut for the four status conditions agrees with the expression evaluator: whenever the
  shortcut answers, parsing, validating and evaluating the condition in a context with the same job
  status gives the same Boolean.
\<close>

theorem status_shortcut_agrees_with_evaluator:
  assumes "literal_status_condition ctx cond = Some b" and "job_status ectx = live_job_status ctx"
  shows "evaluate X ectx (trim cond) nxt = Ok (Bool b, nxt)"
proof -
  have parse: "parse ''success()'' = Ok (FunctionCall ''success'' [])" "parse ''always()'' = Ok (FunctionCall ''always'' [])"
    "parse ''failure()'' = Ok (FunctionCall ''failure'' [])" "parse ''cancelled()'' = Ok (FunctionCall ''cancelled'' [])"
    by code_simp+
  have call: "evaluate X ectx s nxt = call_function X name [] ectx nxt"
    if "parse s = Ok (FunctionCall name [])" "validate_arity name 0 = Ok ()"
      "\<not> eq_ignore_ascii_case name ''case''" "\<not> eq_ignore_ascii_case name ''format''" for s name
    using that by (simp add: evaluate_def)
  have names: "to_ascii_lowercase n = n \<and> validate_arity n 0 = Ok () \<and> \<not> eq_ignore_ascii_case n ''case''
      \<and> \<not> eq_ignore_ascii_case n ''format''"
    if "n \<in> {''success'', ''always'', ''failure'', ''cancelled''}" for n
    using that by (elim insertE emptyE) (simp only:, code_simp)+
  from assms show ?thesis
    by (auto simp: literal_status_condition_def Let_def call [OF parse(1)] call [OF parse(2)] call [OF parse(3)]
        call [OF parse(4)] names call_function_def split: if_splits)
qed

theorem status_shortcut_agrees_with_evaluator_witness:
  "literal_status_condition (new_context new_masker ''Linux'' ''X64'') '' failure() '' = Some False
   \<and> evaluate plain_externs plain_context (trim '' failure() '') 3 = Ok (Bool False, 3)"
proof -
  have t: "trim '' failure() '' = ''failure()''" by code_simp
  then have "literal_status_condition (new_context new_masker ''Linux'' ''X64'') '' failure() '' = Some False"
    by (simp add: literal_status_condition_def Let_def live_job_status_def new_context_def)
  with status_shortcut_agrees_with_evaluator [OF this, of plain_context plain_externs 3] show ?thesis
    by (simp add: live_job_status_def new_context_def plain_context_def)
qed

text \<open>Cancellation is final: no later step result turns a cancelled job into a failed one.\<close>

lemma cancelled_stays_cancelled: "live_job_status ctx = Cancelled \<Longrightarrow> live_job_status (record_step_failure ctx) = Cancelled"
  by (simp add: record_step_failure_def)

subsection \<open>Composite depth\<close>

record depth_tracker =
  dt_current :: nat
  dt_max :: nat

definition MAX_COMPOSITE_DEPTH :: nat where "MAX_COMPOSITE_DEPTH = 10"

definition new_tracker :: depth_tracker where
  "new_tracker = \<lparr>dt_current = 0, dt_max = MAX_COMPOSITE_DEPTH\<rparr>"

definition enter_depth :: "depth_tracker \<Rightarrow> (string, unit) result \<times> depth_tracker" where
  "enter_depth t =
     (let t' = t\<lparr>dt_current := dt_current t + 1\<rparr>
      in if dt_max t' < dt_current t'
         then (Err (''composite action depth limit exceeded (max '' @ show_nat (dt_max t') @ '')''), t')
         else (Ok (), t'))"

definition exit_depth :: "depth_tracker \<Rightarrow> depth_tracker" where
  "exit_depth t = t\<lparr>dt_current := dt_current t - 1\<rparr>"

text \<open>\<open>run_composite_action\<close>: the guard that exits the level exists only once \<open>enter\<close> has succeeded.\<close>

definition run_composite_action ::
  "(depth_tracker \<Rightarrow> (string, 'a) result \<times> depth_tracker) \<Rightarrow> depth_tracker \<Rightarrow> (string, 'a) result \<times> depth_tracker" where
  "run_composite_action inner t =
     (case enter_depth t of
        (Inl e, t') \<Rightarrow> (Err e, t')
      | (Inr _, t') \<Rightarrow> (case inner t' of (r, t'') \<Rightarrow> (r, exit_depth t'')))"

text \<open>A chain of \<open>n\<close> composite actions, each using the next.\<close>

fun nested_composites :: "nat \<Rightarrow> depth_tracker \<Rightarrow> (string, unit) result \<times> depth_tracker" where
  "nested_composites 0 t = (Ok (), t)"
| "nested_composites (Suc n) t = run_composite_action (nested_composites n) t"

lemma nested_composites_within:
  "dt_current t + n \<le> dt_max t \<Longrightarrow> nested_composites n t = (Ok (), t)"
  by (induction n arbitrary: t) (auto simp: run_composite_action_def enter_depth_def exit_depth_def Let_def)

lemma nested_composites_beyond:
  "dt_current t \<le> dt_max t \<Longrightarrow> dt_max t < dt_current t + n \<Longrightarrow>
   \<exists>e. nested_composites n t = (Err e, t\<lparr>dt_current := dt_current t + 1\<rparr>)"
proof (induction n arbitrary: t)
  case (Suc n)
  show ?case
  proof (cases "dt_current t = dt_max t")
    case True
    then show ?thesis by (simp add: run_composite_action_def enter_depth_def Let_def)
  next
    case False
    let ?t = "t\<lparr>dt_current := dt_current t + 1\<rparr>"
    from False Suc obtain e where "nested_composites n ?t = (Err e, ?t\<lparr>dt_current := dt_current ?t + 1\<rparr>)"
      using Suc.IH [of ?t] by auto
    with False Suc.prems show ?thesis by (simp add: run_composite_action_def enter_depth_def exit_depth_def Let_def)
  qed
qed simp

text \<open>The tracker after a step whose composite actions nest eleven deep.\<close>

definition exceed_limit :: "depth_tracker \<Rightarrow> depth_tracker" where
  "exceed_limit t = snd (nested_composites 11 t)"

text \<open>
  A chain of composite actions within the limit leaves the depth tracker as it found it, but a
  chain that exceeds the limit fails and leaves the tracker one level deeper: a job whose steps
  exceed the limit ten times can no longer run any composite action.
\<close>

theorem depth_limit_leaks_a_level:
  "(\<forall>n \<le> 10. nested_composites n new_tracker = (Ok (), new_tracker))
   \<and> (\<forall>k \<le> 10. dt_current ((exceed_limit ^^ k) new_tracker) = k)
   \<and> (\<exists>e. fst (nested_composites 1 ((exceed_limit ^^ 10) new_tracker)) = Err e)"
proof -
  have shape: "(exceed_limit ^^ k) new_tracker = new_tracker\<lparr>dt_current := k\<rparr>" if "k \<le> 10" for k
    using that
  proof (induction k)
    case (Suc k)
    then have "(exceed_limit ^^ Suc k) new_tracker = exceed_limit (new_tracker\<lparr>dt_current := k\<rparr>)" by simp
    moreover have "exceed_limit (new_tracker\<lparr>dt_current := k\<rparr>) = new_tracker\<lparr>dt_current := Suc k\<rparr>"
      using Suc.prems nested_composites_beyond [of "new_tracker\<lparr>dt_current := k\<rparr>" 11]
      by (auto simp: exceed_limit_def new_tracker_def MAX_COMPOSITE_DEPTH_def)
    ultimately show ?case by simp
  qed (simp add: new_tracker_def)
  have "\<forall>n \<le> 10. nested_composites n new_tracker = (Ok (), new_tracker)"
    using nested_composites_within [of new_tracker] by (simp add: new_tracker_def MAX_COMPOSITE_DEPTH_def)
  moreover have "\<exists>e. fst (nested_composites 1 (new_tracker\<lparr>dt_current := 10\<rparr>)) = Err e"
    using nested_composites_beyond [of "new_tracker\<lparr>dt_current := 10\<rparr>" 1]
    by (auto simp: new_tracker_def MAX_COMPOSITE_DEPTH_def)
  ultimately show ?thesis using shape by simp
qed

theorem depth_limit_leaks_a_level_witness:
  "nested_composites 3 new_tracker = (Ok (), new_tracker) \<and> dt_current (exceed_limit new_tracker) = 1"
  using depth_limit_leaks_a_level spec [of "\<lambda>k. k \<le> 10 \<longrightarrow> dt_current ((exceed_limit ^^ k) new_tracker) = k" 1]
  by auto

end
