(* ===== verification/Command_Dispatch.thy ===== *)
theory Command_Dispatch
  imports Execution_Context
begin

text \<open>
  \<open>command_dispatch.rs\<close>, \<open>matcher_dispatch.rs\<close>, \<open>problem_matcher_path.rs\<close> and \<open>process_dispatch.rs\<close>: the
  consumer of a step's output lines. Each line is a command that changes the job context or a
  plain line that is matched and logged. The dispatcher and the context are passed explicitly; the
  masker both share is the context's. File access and URL parsing are parameters.
\<close>

subsection \<open>Events\<close>

datatype log_stream = Stdout | Stderr

datatype ann_level = Level_Notice | Level_Warning | Level_Error

datatype runner_event =
    StepSummary string string
  | JobStarted string string
  | StepStarted string string nat
  | StepCompleted string conclusion "(string \<times> string) list"
  | StepSkipped string string
  | Log string string log_stream
  | LogGroup string string bool
  | Annotation string ann_level string "string option" "int option" "int option" "int option" "int option" "string option"
  | JobCompleted string conclusion "(string \<times> string) list" "string option"
  | StepMetadata string string "string option" "string option"
  | InfrastructureError string string string

subsection \<open>Files and paths\<close>

record file_probe =
  fp_is_file :: bool
  fp_len :: nat
  fp_text :: "(string, string) result"

record dispatch_externs =
  dx_masker :: masker_externs
  dx_matcher :: matcher_externs
  dx_is_file :: "path \<Rightarrow> bool"
  dx_open :: "path \<Rightarrow> (string, file_probe) result"
  dx_url_host :: "string \<Rightarrow> string option"

definition MAX_FILE_BYTES :: nat where "MAX_FILE_BYTES = 1024 * 1024"

definition path_join :: "path \<Rightarrow> path \<Rightarrow> path" where
  "path_join base rel = (if rel \<noteq> [] \<and> hd rel = ''/'' then rel else if base = [] then rel
     else base @ filter (\<lambda>c. c \<noteq> ''.'') rel)"

definition workspace_path :: "exec_context \<Rightarrow> path" where
  "workspace_path ctx = (case ec_workspace ctx of Some p \<Rightarrow> p
     | None \<Rightarrow> components (case github_context ''workspace'' ctx of Some s \<Rightarrow> s | None \<Rightarrow> ''.''))"

definition command_path :: "string \<Rightarrow> exec_context \<Rightarrow> path" where
  "command_path p ctx =
     path_join (workspace_path ctx)
       (case ec_container ctx of None \<Rightarrow> components p | Some c \<Rightarrow> to_host (jc_translator c) (components p))"

definition read_regular :: "dispatch_externs \<Rightarrow> path \<Rightarrow> (string, string) result" where
  "read_regular X p =
     rbind (dx_open X p) (\<lambda>f.
       if \<not> fp_is_file f \<or> MAX_FILE_BYTES < fp_len f then Err ''expected a regular file of at most 1 MiB''
       else rbind (fp_text f) (\<lambda>t. if MAX_FILE_BYTES < length t then Err ''file exceeds 1 MiB'' else Ok t))"

definition read_matcher :: "dispatch_externs \<Rightarrow> string \<Rightarrow> exec_context \<Rightarrow> (string, string) result" where
  "read_matcher X p ctx =
     (let full = command_path p ctx
      in map_err (\<lambda>e. ''unable to load problem matcher '' @ path_text full @ '': '' @ e) (read_regular X full))"

definition is_relative_path :: "path \<Rightarrow> bool" where
  "is_relative_path p \<longleftrightarrow> p = [] \<or> hd p \<noteq> ''/''"

fun normalize_path :: "path \<Rightarrow> path \<Rightarrow> path" where
  "normalize_path out [] = out"
| "normalize_path out (c # p) =
     (if c = ''.'' then normalize_path out p
      else if c = ''..'' then normalize_path (if out = [''/''] then out else butlast out) p
      else normalize_path (out @ [c]) p)"

text \<open>\<open>str::lines\<close>: separated by line feeds, without a trailing carriage return.\<close>

definition str_lines :: "string \<Rightarrow> string list" where
  "str_lines s =
     (let parts = split_char (CHR 0x0A) s;
          parts = (if last parts = [] then butlast parts else parts)
      in map (\<lambda>l. if l \<noteq> [] \<and> last l = CHR 0x0D then butlast l else l) parts)"

fun checkout_root :: "dispatch_externs \<Rightarrow> string \<Rightarrow> string \<Rightarrow> path list \<Rightarrow> path option" where
  "checkout_root X https ssh [] = None"
| "checkout_root X https ssh (d # ds) =
     (let config = d @ [''.git'', ''config'']
      in if \<not> dx_is_file X config then checkout_root X https ssh ds
         else case read_regular X config of
                Inl _ \<Rightarrow> None
              | Inr t \<Rightarrow> if list_ex (\<lambda>l. eq_ignore_ascii_case (trim l) https \<or> eq_ignore_ascii_case (trim l) ssh) (str_lines t)
                          then Some d else None)"

text \<open>\<open>Path::ancestors\<close> after the path itself, longest first.\<close>

definition proper_ancestors :: "path \<Rightarrow> path list" where
  "proper_ancestors p = map (\<lambda>n. take n p) (rev [(if is_relative_path p then 0 else 1)..<length p])"

definition annotation_path :: "dispatch_externs \<Rightarrow> string option \<Rightarrow> string option \<Rightarrow> exec_context \<Rightarrow> string option" where
  "annotation_path X file from_path ctx =
     (case file of None \<Rightarrow> None | Some f \<Rightarrow>
        if trim f = [] then None
        else let p = components f;
                 p = (if is_relative_path p then
                        (case from_path of Some v \<Rightarrow>
                           if trim v \<noteq> [] then (case path_parent (components v) of Some par \<Rightarrow> path_join par p | None \<Rightarrow> p) else p
                         | None \<Rightarrow> p) else p);
                 p = (if is_relative_path p then path_join (workspace_path ctx) p
                      else case ec_container ctx of Some c \<Rightarrow> to_host (jc_translator c) p | None \<Rightarrow> p);
                 p = normalize_path [] p
             in if \<not> dx_is_file X p then None
                else case github_context ''repository'' ctx of None \<Rightarrow> None | Some repository \<Rightarrow>
                  let server = (case github_context ''server_url'' ctx of
                        Some v \<Rightarrow> if v \<noteq> [] then v else ''https://github.com'' | None \<Rightarrow> ''https://github.com'')
                  in (case dx_url_host X server of None \<Rightarrow> None | Some host \<Rightarrow>
                        (case checkout_root X (''url = '' @ server @ ''/'' @ repository)
                               (''url = git@'' @ host @ '':'' @ repository @ ''.git'')
                               (take 51 (proper_ancestors p)) of
                           None \<Rightarrow> None
                         | Some d \<Rightarrow> Some (join_str ''/'' (drop (length d) p)))))"

subsection \<open>The dispatcher\<close>

record dispatcher =
  cd_step_id :: string
  cd_output_context_name :: "string option"
  cd_log_step_id :: string
  cd_echo_on :: bool
  cd_stop_token :: "string option"
  cd_group_depth :: nat
  cd_pending :: "runner_event list"
  cd_set_outputs :: "(string \<times> string) list"
  cd_matcher_stdout :: matcher_state
  cd_matcher_stderr :: matcher_state
  cd_output_stream :: log_stream
  cd_failed :: bool
  cd_long_line_warned :: bool

datatype line_disposition = Consumed | PassThrough string

definition new_dispatcher :: "string \<Rightarrow> string \<Rightarrow> string option \<Rightarrow> dispatcher" where
  "new_dispatcher step_id log_step_id output_context_name =
     \<lparr>cd_step_id = step_id, cd_output_context_name = output_context_name, cd_log_step_id = log_step_id,
      cd_echo_on = False, cd_stop_token = None, cd_group_depth = 0, cd_pending = [], cd_set_outputs = [],
      cd_matcher_stdout = Map.empty, cd_matcher_stderr = Map.empty, cd_output_stream = Stdout, cd_failed = False,
      cd_long_line_warned = False\<rparr>"

definition push_event :: "runner_event \<Rightarrow> dispatcher \<Rightarrow> dispatcher" where
  "push_event e d = d\<lparr>cd_pending := cd_pending d @ [e]\<rparr>"

definition take_events :: "dispatcher \<Rightarrow> runner_event list \<times> dispatcher" where
  "take_events d = (cd_pending d, d\<lparr>cd_pending := []\<rparr>)"

definition take_set_outputs :: "dispatcher \<Rightarrow> (string \<times> string) list \<times> dispatcher" where
  "take_set_outputs d = (cd_set_outputs d, d\<lparr>cd_set_outputs := []\<rparr>)"

definition u32_max :: nat where "u32_max = 2 ^ 32 - 1"

definition annotation_level :: "workflow_command \<Rightarrow> ann_level option" where
  "annotation_level c = (case c of Error _ _ _ _ _ _ _ \<Rightarrow> Some Level_Error | Warning _ _ _ _ _ _ _ \<Rightarrow> Some Level_Warning
     | Notice _ _ _ _ _ _ _ \<Rightarrow> Some Level_Notice | _ \<Rightarrow> None)"

fun annotation_fields :: "workflow_command \<Rightarrow>
    (string \<times> string option \<times> int option \<times> int option \<times> int option \<times> int option \<times> string option) option" where
  "annotation_fields (Error m f l c el ec t) = Some (m, f, l, c, el, ec, t)"
| "annotation_fields (Warning m f l c el ec t) = Some (m, f, l, c, el, ec, t)"
| "annotation_fields (Notice m f l c el ec t) = Some (m, f, l, c, el, ec, t)"
| "annotation_fields _ = None"

definition push_annotation :: "workflow_command \<Rightarrow> exec_context \<Rightarrow> dispatcher \<Rightarrow> dispatcher" where
  "push_annotation annotation ctx d =
     (case (annotation_level annotation, annotation_fields annotation) of
        (Some level, Some (msg, file, line, col, end_line, end_column, title)) \<Rightarrow>
          let m = ec_masker ctx; message = mask m (unescape_data msg)
          in if trim message = [] then d
             else push_event (Annotation (cd_log_step_id d) level message
                    (case map_option (\<lambda>v. mask m (unescape_property v)) file of
                       Some v \<Rightarrow> if trim v \<noteq> [] then Some v else None | None \<Rightarrow> None)
                    line end_line col end_column
                    (map_option (\<lambda>v. mask m (unescape_property v)) title)) d
      | _ \<Rightarrow> d)"

definition apply_set_output :: "string \<Rightarrow> string \<Rightarrow> dispatcher \<times> exec_context \<Rightarrow> dispatcher \<times> exec_context" where
  "apply_set_output name value dc =
     (if name = [] then dc
      else let (d, ctx) = dc; n = unescape_data name; v = unescape_data value
           in (d\<lparr>cd_set_outputs := cd_set_outputs d @ [(n, v)]\<rparr>,
               case cd_output_context_name d of Some c \<Rightarrow> set_step_output c n v ctx | None \<Rightarrow> ctx))"

definition apply_save_state :: "string \<Rightarrow> string \<Rightarrow> dispatcher \<Rightarrow> exec_context \<Rightarrow> exec_context" where
  "apply_save_state name value d ctx =
     (if name = [] then ctx else set_step_state (cd_step_id d) (unescape_data name) (unescape_data value) ctx)"

definition warn_disabled_stdout_command :: "string \<Rightarrow> string \<Rightarrow> exec_context \<Rightarrow> dispatcher \<Rightarrow> dispatcher" where
  "warn_disabled_stdout_command command file_var ctx d =
     push_annotation (Warning (''the `::'' @ command @ ''::` stdout command is disabled for security; use $'' @ file_var)
       None None None None None None) ctx d"

definition apply_add_mask :: "dispatch_externs \<Rightarrow> string \<Rightarrow> exec_context \<Rightarrow> exec_context" where
  "apply_add_mask X value ctx = ctx\<lparr>ec_masker := add_mask (dx_masker X) (unescape_data value) (ec_masker ctx)\<rparr>"

definition apply_group :: "string \<Rightarrow> exec_context \<Rightarrow> dispatcher \<Rightarrow> dispatcher" where
  "apply_group title ctx d =
     push_event (LogGroup (cd_log_step_id d) (mask (ec_masker ctx) (unescape_data title)) True)
       (d\<lparr>cd_group_depth := min u32_max (cd_group_depth d + 1)\<rparr>)"

definition apply_endgroup :: "dispatcher \<Rightarrow> dispatcher" where
  "apply_endgroup d = push_event (LogGroup (cd_log_step_id d) [] False) (d\<lparr>cd_group_depth := cd_group_depth d - 1\<rparr>)"

definition matcher_diagnostic :: "ann_level \<Rightarrow> string \<Rightarrow> exec_context \<Rightarrow> dispatcher \<Rightarrow> dispatcher" where
  "matcher_diagnostic level message ctx d =
     push_event (Annotation (cd_log_step_id d) level (mask (ec_masker ctx) message) None None None None None None) d"

definition matcher_failure :: "string \<Rightarrow> exec_context \<Rightarrow> dispatcher \<Rightarrow> dispatcher" where
  "matcher_failure message ctx d = matcher_diagnostic Level_Error message ctx (d\<lparr>cd_failed := True\<rparr>)"

definition add_matcher :: "dispatch_externs \<Rightarrow> string \<Rightarrow> dispatcher \<times> exec_context \<Rightarrow> dispatcher \<times> exec_context" where
  "add_matcher X p dc =
     (let (d, ctx) = dc; p = unescape_data p
      in if p = [] then (matcher_diagnostic Level_Warning ''add-matcher requires a file path'' ctx d, ctx)
         else case read_matcher X p ctx of
                Inl e \<Rightarrow> (matcher_failure e ctx d, ctx)
              | Inr t \<Rightarrow> (case add_json (dx_matcher X) t (ec_matchers ctx) of
                  (Inl e, _) \<Rightarrow> (matcher_failure e ctx d, ctx)
                | (Inr _, reg) \<Rightarrow> (d, ctx\<lparr>ec_matchers := reg\<rparr>)))"

definition remove_matcher ::
  "dispatch_externs \<Rightarrow> string option \<Rightarrow> string \<Rightarrow> dispatcher \<times> exec_context \<Rightarrow> dispatcher \<times> exec_context" where
  "remove_matcher X owner p dc =
     (let (d, ctx) = dc; p = unescape_data p;
          owner = (case map_option unescape_property owner of Some v \<Rightarrow> if v \<noteq> [] then Some v else None | None \<Rightarrow> None)
      in case owner of
           Some v \<Rightarrow>
             if p = [] then (d, ctx\<lparr>ec_matchers := remove_owner v (ec_matchers ctx)\<rparr>)
             else (matcher_diagnostic Level_Warning ''remove-matcher requires either owner or a file path, not both'' ctx d, ctx)
         | None \<Rightarrow>
             if p \<noteq> [] then
               (case read_matcher X p ctx of
                  Inl e \<Rightarrow> (matcher_failure e ctx d, ctx)
                | Inr t \<Rightarrow> (case remove_json (dx_matcher X) t (ec_matchers ctx) of
                    (Inl e, _) \<Rightarrow> (matcher_failure e ctx d, ctx)
                  | (Inr _, reg) \<Rightarrow> (d, ctx\<lparr>ec_matchers := reg\<rparr>)))
             else (matcher_diagnostic Level_Warning ''remove-matcher requires either owner or a file path, not both'' ctx d, ctx))"

text \<open>\<open>coordinate\<close> of a captured field.\<close>

definition coordinate :: "string option \<Rightarrow> int option" where
  "coordinate value = (case value of Some v \<Rightarrow> if v \<noteq> [] \<and> list_all is_ascii_digit v then parse_i32 v else None | None \<Rightarrow> None)"

definition match_output :: "dispatch_externs \<Rightarrow> string \<Rightarrow> dispatcher \<Rightarrow> exec_context \<Rightarrow> dispatcher \<times> line_disposition" where
  "match_output X line d ctx =
     (let (st, result) = match_line (ec_matchers ctx) line
            (case cd_output_stream d of Stdout \<Rightarrow> cd_matcher_stdout d | Stderr \<Rightarrow> cd_matcher_stderr d);
          d = (case cd_output_stream d of Stdout \<Rightarrow> d\<lparr>cd_matcher_stdout := st\<rparr> | Stderr \<Rightarrow> d\<lparr>cd_matcher_stderr := st\<rparr>);
          d = (if 64 * 1024 < length line \<and> \<not> cd_long_line_warned d \<and> definitions (ec_matchers ctx) \<noteq> []
               then matcher_diagnostic Level_Warning ''problem matching skipped output over 64 KiB; original log retained''
                      ctx (d\<lparr>cd_long_line_warned := True\<rparr>) else d);
          d = (case result of None \<Rightarrow> d
               | Some r \<Rightarrow>
                   let severity = to_ascii_lowercase (unwrap_or_default (mr_severity r));
                       level = (if severity = ''warning'' then Level_Warning else if severity = ''notice'' then Level_Notice
                                else Level_Error);
                       ln = coordinate (mr_line r); col = coordinate (mr_column r)
                   in push_event (Annotation (cd_log_step_id d) level
                        (mask (ec_masker ctx) (unwrap_or_default (mr_message r)))
                        (map_option (mask (ec_masker ctx)) (annotation_path X (mr_file r) (mr_from_path r) ctx))
                        ln ln col col None) d)
      in (d, PassThrough line))"

definition apply_command ::
  "dispatch_externs \<Rightarrow> workflow_command \<Rightarrow> dispatcher \<times> exec_context \<Rightarrow> dispatcher \<times> exec_context" where
  "apply_command X command dc =
     (let (d, ctx) = dc
      in case command of
           SetOutput name value \<Rightarrow> apply_set_output name value dc
         | SaveState name value \<Rightarrow> (d, apply_save_state name value d ctx)
         | AddMask value \<Rightarrow> (d, apply_add_mask X value ctx)
         | AddMatcher p \<Rightarrow> add_matcher X p dc
         | RemoveMatcher owner p \<Rightarrow> remove_matcher X owner p dc
         | AddPath _ \<Rightarrow> (warn_disabled_stdout_command ''add-path'' ''GITHUB_PATH'' ctx d, ctx)
         | SetEnv _ _ \<Rightarrow> (warn_disabled_stdout_command ''set-env'' ''GITHUB_ENV'' ctx d, ctx)
         | Group title \<Rightarrow> (apply_group title ctx d, ctx)
         | EndGroup \<Rightarrow> (apply_endgroup d, ctx)
         | Error _ _ _ _ _ _ _ \<Rightarrow> (push_annotation command ctx d, ctx)
         | Warning _ _ _ _ _ _ _ \<Rightarrow> (push_annotation command ctx d, ctx)
         | Notice _ _ _ _ _ _ _ \<Rightarrow> (push_annotation command ctx d, ctx)
         | Debug _ \<Rightarrow> dc
         | Echo on \<Rightarrow> (d\<lparr>cd_echo_on := on\<rparr>, ctx)
         | StopCommands token \<Rightarrow> (d\<lparr>cd_stop_token := validated_stop_token token\<rparr>, ctx)
         | ResumeCommands _ \<Rightarrow> dc)"

definition on_output_line ::
  "dispatch_externs \<Rightarrow> string \<Rightarrow> log_stream \<Rightarrow> dispatcher \<times> exec_context \<Rightarrow> line_disposition \<times> dispatcher \<times> exec_context" where
  "on_output_line X line stream dc =
     (let (d, ctx) = dc; d = d\<lparr>cd_output_stream := stream\<rparr>
      in case cd_stop_token d of
           Some token \<Rightarrow>
             if is_resume_marker line token then (Consumed, d\<lparr>cd_stop_token := None\<rparr>, ctx)
             else (case match_output X line d ctx of (d', disp) \<Rightarrow> (disp, d', ctx))
         | None \<Rightarrow>
             (case parse_command line of
                None \<Rightarrow> (case match_output X line d ctx of (d', disp) \<Rightarrow> (disp, d', ctx))
              | Some command \<Rightarrow>
                  let d = (if cd_echo_on d then push_event (Log (cd_log_step_id d) line (cd_output_stream d)) d else d)
                  in (Consumed, apply_command X command (d, ctx))))"

subsection \<open>Streams\<close>

text \<open>
  \<open>stream_process\<close> on the lines in the order the two channels deliver them: the events sent for a
  line are the dispatcher's pending ones, then the line itself when it passes through.
\<close>

fun stream_process :: "dispatch_externs \<Rightarrow> (string \<times> log_stream) list \<Rightarrow> dispatcher \<times> exec_context
    \<Rightarrow> runner_event list \<times> dispatcher \<times> exec_context" where
  "stream_process X [] dc = ([], dc)"
| "stream_process X ((line, stream) # rest) dc =
     (case on_output_line X line stream dc of
        (disp, d, ctx) \<Rightarrow>
          (case take_events d of (events, d') \<Rightarrow>
             let own = (case disp of PassThrough l \<Rightarrow> [Log (cd_log_step_id d') l stream] | Consumed \<Rightarrow> []);
                 (more, dc') = stream_process X rest (d', ctx)
             in (events @ own @ more, dc')))"

definition merge_command_result :: "conclusion \<Rightarrow> bool \<Rightarrow> conclusion" where
  "merge_command_result c failed = (if failed \<and> c = Con_Success then Con_Failure else c)"

text \<open>The step's outputs: collecting the emission order into a map keeps the last value.\<close>

definition process_outputs :: "dispatcher \<Rightarrow> (string \<rightharpoonup> string)" where
  "process_outputs d = extend_env (fst (take_set_outputs d)) Map.empty"

subsection \<open>A concrete environment\<close>

definition plain_dispatch_externs :: dispatch_externs where
  "plain_dispatch_externs = \<lparr>dx_masker = plain_masker_externs,
     dx_matcher = \<lparr>regex_build = (\<lambda>_ _. None), matcher_file = (\<lambda>_. Ok None), removal_file = (\<lambda>_. Ok None)\<rparr>,
     dx_is_file = (\<lambda>_. False), dx_open = (\<lambda>_. Err ''not found''), dx_url_host = (\<lambda>_. None)\<rparr>"

definition plain_job :: exec_context where
  "plain_job = new_context new_masker ''Linux'' ''X64''"

subsection \<open>What a line may change\<close>

text \<open>The parts of the context a step's output can reach: outputs, private state, masks and matchers.\<close>

definition output_frame :: "exec_context \<Rightarrow> exec_context \<Rightarrow> bool" where
  "output_frame ctx ctx' \<longleftrightarrow>
     ctx' = ctx\<lparr>ec_steps := ec_steps ctx', ec_scoped_steps := ec_scoped_steps ctx', ec_action_states := ec_action_states ctx',
                ec_masker := ec_masker ctx', ec_matchers := ec_matchers ctx'\<rparr>"

lemma output_frame_refl [simp]: "output_frame ctx ctx"
  by (simp add: output_frame_def)

lemma output_frame_trans: "output_frame a b \<Longrightarrow> output_frame b c \<Longrightarrow> output_frame a c"
  unfolding output_frame_def by (cases a; cases b; cases c) simp

lemma set_step_output_frame: "output_frame ctx (set_step_output n k v ctx)"
  by (simp add: output_frame_def set_step_output_def update_step_def Let_def)

lemma set_step_state_frame: "output_frame ctx (set_step_state i k v ctx)"
  by (simp add: output_frame_def set_step_state_def Let_def)

lemma apply_command_frame: "output_frame ctx (snd (apply_command X c (d, ctx)))"
proof (cases c)
  case (SetOutput n v)
  then show ?thesis
    by (auto simp: apply_command_def apply_set_output_def Let_def set_step_output_frame split: option.splits)
next
  case (SaveState n v)
  then show ?thesis by (simp add: apply_command_def apply_save_state_def set_step_state_frame)
next
  case (AddMatcher p)
  then show ?thesis
    by (auto simp: apply_command_def add_matcher_def Let_def output_frame_def split: sum.splits prod.splits)
next
  case (RemoveMatcher o' p)
  then show ?thesis
    by (auto simp: apply_command_def remove_matcher_def Let_def output_frame_def split: sum.splits prod.splits option.splits)
qed (simp_all add: apply_command_def apply_add_mask_def output_frame_def)

lemma on_output_line_frame: "output_frame ctx (snd (snd (on_output_line X line s (d, ctx))))"
proof -
  have "snd (snd (let (d', disp) = match_output X line d' ctx in (disp, d', ctx))) = ctx" for d'
    by (simp add: case_prod_beta)
  then show ?thesis
    by (auto simp: on_output_line_def Let_def case_prod_beta apply_command_frame split: option.splits)
qed

lemma stream_process_frame: "output_frame ctx (snd (snd (stream_process X lines (d, ctx))))"
proof (induction lines arbitrary: d ctx)
  case (Cons l lines)
  obtain line s where l: "l = (line, s)" by force
  obtain disp d' ctx' where step: "on_output_line X line s (d, ctx) = (disp, d', ctx')" by (metis prod_cases3)
  have "output_frame ctx ctx'" using on_output_line_frame [of ctx X line s d] step by simp
  with Cons.IH [of ctx' "d'\<lparr>cd_pending := []\<rparr>"] show ?case
    by (auto simp: l step take_events_def Let_def case_prod_beta intro: output_frame_trans)
qed simp

text \<open>
  C25. Nothing a step prints can change the environment of later steps: whatever lines and commands its
  output contains, the job's variables, search path, secrets, status and scope are the same
  afterwards, and so is the environment built for every later step.
\<close>

theorem output_cannot_change_environment:
  "let ctx' = snd (snd (stream_process X lines (d, ctx)))
   in build_step_env process_path step_env ctx' = build_step_env process_path step_env ctx
    \<and> ec_env ctx' = ec_env ctx \<and> ec_path_additions ctx' = ec_path_additions ctx \<and> ec_secrets ctx' = ec_secrets ctx
    \<and> live_job_status ctx' = live_job_status ctx \<and> ec_scope_path ctx' = ec_scope_path ctx"
proof -
  define ctx' where "ctx' = snd (snd (stream_process X lines (d, ctx)))"
  have "output_frame ctx ctx'" unfolding ctx'_def by (rule stream_process_frame)
  then obtain a b c e f where "ctx' = ctx\<lparr>ec_steps := a, ec_scoped_steps := b, ec_action_states := c, ec_masker := e, ec_matchers := f\<rparr>"
    unfolding output_frame_def by metis
  then show ?thesis
    unfolding ctx'_def [symmetric] Let_def
    by (simp add: build_step_env_def Let_def visible_env_def export_metadata_def github_context_def live_job_status_def
        cong: option.case_cong)
qed

subsection \<open>Suspended commands\<close>

lemma push_event_simps [simp]:
  "cd_stop_token (push_event e d) = cd_stop_token d" "cd_set_outputs (push_event e d) = cd_set_outputs d"
  "cd_log_step_id (push_event e d) = cd_log_step_id d" "cd_pending (push_event e d) = cd_pending d @ [e]"
  "cd_output_context_name (push_event e d) = cd_output_context_name d"
  by (simp_all add: push_event_def)

fun is_log :: "runner_event \<Rightarrow> bool" where
  "is_log (Log _ _ _) = True"
| "is_log _ = False"

lemma match_output_effect:
  assumes "match_output X line d ctx = (d', disp)"
  shows "disp = PassThrough line" "cd_stop_token d' = cd_stop_token d" "cd_set_outputs d' = cd_set_outputs d"
    "cd_log_step_id d' = cd_log_step_id d" "cd_output_context_name d' = cd_output_context_name d"
    "\<exists>es. cd_pending d' = cd_pending d @ es \<and> (\<forall>e \<in> set es. \<not> is_log e)"
  using assms
  by (auto simp: match_output_def Let_def matcher_diagnostic_def split: prod.splits option.splits log_stream.splits if_splits)

text \<open>
  While commands are stopped, output is only text: every line up to the resume marker leaves the
  job context and the step's outputs unchanged and is logged as it was printed, in order.
\<close>

theorem stopped_lines_have_no_effect:
  assumes "cd_stop_token d = Some token" and "cd_pending d = []"
    and "\<forall>(line, stream) \<in> set lines. \<not> is_resume_marker line token"
  shows "\<exists>events d'. stream_process X lines (d, ctx) = (events, d', ctx)
    \<and> cd_stop_token d' = Some token \<and> cd_set_outputs d' = cd_set_outputs d
    \<and> filter is_log events = map (\<lambda>(line, stream). Log (cd_log_step_id d) line stream) lines"
  using assms
proof (induction lines arbitrary: d)
  case (Cons l lines)
  obtain line s where l: "l = (line, s)" by force
  let ?d = "d\<lparr>cd_output_stream := s\<rparr>"
  obtain d1 disp where m: "match_output X line ?d ctx = (d1, disp)" by force
  note eff = match_output_effect [OF m]
  have step: "on_output_line X line s (d, ctx) = (PassThrough line, d1, ctx)"
    using Cons.prems l m eff(1) by (simp add: on_output_line_def Let_def)
  from eff(6) Cons.prems(2) have quiet: "filter is_log (cd_pending d1) = []"
    by (auto simp: filter_empty_conv)
  let ?d2 = "d1\<lparr>cd_pending := []\<rparr>"
  obtain events d' where "stream_process X lines (?d2, ctx) = (events, d', ctx)" "cd_stop_token d' = Some token"
    "cd_set_outputs d' = cd_set_outputs d" "filter is_log events = map (\<lambda>(line, stream). Log (cd_log_step_id d) line stream) lines"
    using Cons.IH [of ?d2] Cons.prems eff(2-4) by auto
  with step l quiet eff(4) show ?case
    by (simp add: take_events_def Let_def)
qed simp

theorem stopped_lines_have_no_effect_witness:
  "\<exists>events d'. stream_process plain_dispatch_externs [(''::set-env name=PATH::/evil'', Stdout)] (new_dispatcher ''s'' ''s'' None\<lparr>cd_stop_token := Some ''tok''\<rparr>, plain_job)
      = (events, d', plain_job)
    \<and> cd_stop_token d' = Some ''tok'' \<and> cd_set_outputs d' = cd_set_outputs (new_dispatcher ''s'' ''s'' None\<lparr>cd_stop_token := Some ''tok''\<rparr>)
    \<and> filter is_log events = map (\<lambda>(line, stream). Log (cd_log_step_id (new_dispatcher ''s'' ''s'' None\<lparr>cd_stop_token := Some ''tok''\<rparr>)) line stream)
        [(''::set-env name=PATH::/evil'', Stdout)]"
proof (rule stopped_lines_have_no_effect)
  have "\<not> is_resume_marker ''::set-env name=PATH::/evil'' ''tok''" by code_simp
  then show "\<forall>(line, stream) \<in> set [(''::set-env name=PATH::/evil'', Stdout)]. \<not> is_resume_marker line ''tok''" by simp
qed (simp_all add: new_dispatcher_def)

subsection \<open>Outputs\<close>

lemma apply_command_other_outputs:
  assumes "\<nexists>n v. c = SetOutput n v" "apply_command X c (d, ctx) = (d', ctx')"
  shows "cd_set_outputs d' = cd_set_outputs d \<and> cd_output_context_name d' = cd_output_context_name d
    \<and> (\<forall>n. step_outputs n ctx' = step_outputs n ctx)"
  using assms
  by (cases c)
     (auto simp: apply_command_def Let_def apply_save_state_def set_step_state_def apply_add_mask_def add_matcher_def
       remove_matcher_def warn_disabled_stdout_command_def push_annotation_def apply_group_def apply_endgroup_def
       matcher_diagnostic_def matcher_failure_def step_outputs_def current_steps_def
       split: option.splits sum.splits prod.splits if_splits)

text \<open>The outputs a dispatcher has recorded, on top of those the context had.\<close>

definition outputs_agree :: "string \<Rightarrow> exec_context \<Rightarrow> dispatcher \<Rightarrow> exec_context \<Rightarrow> bool" where
  "outputs_agree name ctx0 d ctx \<longleftrightarrow> cd_output_context_name d = Some name \<and>
     (\<forall>k. step_outputs name ctx k =
        (case map_of (rev (cd_set_outputs d)) k of Some v \<Rightarrow> Some v | None \<Rightarrow> step_outputs name ctx0 k)) \<and>
     (\<forall>n k. n \<noteq> name \<longrightarrow> step_outputs n ctx k = step_outputs n ctx0 k)"

lemma step_outputs_set:
  "step_outputs n' (set_step_output n k v ctx) k' = (if n' = n \<and> k' = k then Some v else step_outputs n' ctx k')"
  using output_store.get_put [where k = "(n, k)" and k' = "(n', k')" and v = v and s = ctx] by simp

lemma apply_command_outputs:
  assumes "outputs_agree name ctx0 d ctx" "apply_command X c (d, ctx) = (d', ctx')"
  shows "outputs_agree name ctx0 d' ctx'"
proof (cases "\<exists>n v. c = SetOutput n v")
  case True
  then obtain n v where "c = SetOutput n v" by blast
  with assms show ?thesis
    by (auto simp: apply_command_def apply_set_output_def Let_def outputs_agree_def step_outputs_set split: if_splits)
next
  case False
  with apply_command_other_outputs [OF _ assms(2)] assms(1) show ?thesis by (simp add: outputs_agree_def)
qed

lemma on_output_line_outputs:
  assumes "outputs_agree name ctx0 d ctx" "on_output_line X line s (d, ctx) = (disp, d', ctx')"
  shows "outputs_agree name ctx0 d' ctx'"
proof -
  have quiet: "outputs_agree name ctx0 d1 ctx" if "cd_set_outputs d1 = cd_set_outputs d"
    "cd_output_context_name d1 = cd_output_context_name d" for d1
    using that assms(1) by (simp add: outputs_agree_def)
  let ?d = "d\<lparr>cd_output_stream := s\<rparr>"
  have matched: ?thesis if "(case match_output X line ?d ctx of (d', disp) \<Rightarrow> (disp, d', ctx)) = (disp, d', ctx')"
  proof -
    from that have "match_output X line ?d ctx = (d', disp)" "ctx' = ctx" by (auto split: prod.splits)
    with match_output_effect(3,5) [OF this(1)] show ?thesis by (simp add: quiet)
  qed
  show ?thesis
  proof (cases "cd_stop_token d")
    case (Some token)
    show ?thesis
    proof (cases "is_resume_marker line token")
      case True
      with Some assms(2) have "d' = ?d\<lparr>cd_stop_token := None\<rparr>" "ctx' = ctx"
        by (simp_all add: on_output_line_def Let_def)
      then show ?thesis by (simp add: quiet)
    next
      case False
      with Some assms(2) show ?thesis by (intro matched) (simp add: on_output_line_def Let_def)
    qed
  next
    case live: None
    show ?thesis
    proof (cases "parse_command line")
      case None
      with live assms(2) show ?thesis by (intro matched) (simp add: on_output_line_def Let_def)
    next
      case (Some c)
      let ?e = "if cd_echo_on ?d then push_event (Log (cd_log_step_id ?d) line (cd_output_stream ?d)) ?d else ?d"
      have "apply_command X c (?e, ctx) = (d', ctx')"
        using live Some assms(2) by (simp add: on_output_line_def Let_def)
      moreover have "outputs_agree name ctx0 ?e ctx" by (rule quiet) simp_all
      ultimately show ?thesis by (rule apply_command_outputs [rotated])
    qed
  qed
qed

lemma stream_process_outputs:
  "outputs_agree name ctx0 d ctx \<Longrightarrow> stream_process X lines (d, ctx) = (events, d', ctx') \<Longrightarrow> outputs_agree name ctx0 d' ctx'"
proof (induction lines arbitrary: d ctx events)
  case (Cons l lines)
  obtain line s where l: "l = (line, s)" by force
  obtain disp d1 ctx1 where step: "on_output_line X line s (d, ctx) = (disp, d1, ctx1)" by (metis prod_cases3)
  have "outputs_agree name ctx0 (d1\<lparr>cd_pending := []\<rparr>) ctx1"
    using on_output_line_outputs [OF Cons.prems(1) step] by (simp add: outputs_agree_def)
  moreover obtain more where "stream_process X lines (d1\<lparr>cd_pending := []\<rparr>, ctx1) = (more, d', ctx')"
    using Cons.prems(2) step l by (auto simp: take_events_def Let_def split: prod.splits)
  ultimately show ?case by (rule Cons.IH)
qed simp

text \<open>
  The outputs a step reports and the outputs later expressions see are the same: after its output
  is processed, the context holds the last value set for every name, names it did not set keep
  their value, and no other step's outputs change.
\<close>

theorem step_outputs_are_last_writes:
  assumes "stream_process X lines (new_dispatcher step_id log_id (Some name), ctx) = (events, d, ctx')"
  shows "step_outputs name ctx' k = (case process_outputs d k of Some v \<Rightarrow> Some v | None \<Rightarrow> step_outputs name ctx k)
    \<and> (\<forall>other. other \<noteq> name \<longrightarrow> step_outputs other ctx' = step_outputs other ctx)"
proof -
  have "outputs_agree name ctx (new_dispatcher step_id log_id (Some name)) ctx"
    by (simp add: outputs_agree_def new_dispatcher_def)
  from stream_process_outputs [OF this assms] show ?thesis
    by (auto simp: outputs_agree_def process_outputs_def take_set_outputs_def extend_env_lookup split: option.splits)
qed

theorem step_outputs_are_last_writes_witness:
  "\<exists>events d ctx'. stream_process plain_dispatch_externs [(''::set-output name=k::1'', Stdout), (''::set-output name=k::2'', Stdout)]
       (new_dispatcher ''s'' ''s'' (Some ''build''), plain_job) = (events, d, ctx')
     \<and> step_outputs ''build'' ctx' ''k'' = (case process_outputs d ''k'' of Some v \<Rightarrow> Some v | None \<Rightarrow> step_outputs ''build'' plain_job ''k'')
     \<and> (\<forall>other. other \<noteq> ''build'' \<longrightarrow> step_outputs other ctx' = step_outputs other plain_job)"
proof -
  obtain events d ctx' where run: "stream_process plain_dispatch_externs
      [(''::set-output name=k::1'', Stdout), (''::set-output name=k::2'', Stdout)]
      (new_dispatcher ''s'' ''s'' (Some ''build''), plain_job) = (events, d, ctx')"
    by (metis prod_cases3)
  with step_outputs_are_last_writes [OF run, of "''k''"] show ?thesis by blast
qed

subsection \<open>Masked events\<close>

text \<open>A string that went through a masker knowing at least the patterns \<open>ps\<close>.\<close>

definition masked_by :: "string set \<Rightarrow> string \<Rightarrow> bool" where
  "masked_by ps s \<longleftrightarrow> s = [] \<or> (\<exists>m x. s = mask m x \<and> ps \<subseteq> set (patterns m))"

definition masked_option :: "string set \<Rightarrow> string option \<Rightarrow> bool" where
  "masked_option ps s \<longleftrightarrow> (case s of Some t \<Rightarrow> masked_by ps t | None \<Rightarrow> True)"

fun masked_event :: "string set \<Rightarrow> runner_event \<Rightarrow> bool" where
  "masked_event ps (Annotation _ _ m f _ _ _ _ t) \<longleftrightarrow> masked_by ps m \<and> masked_option ps f \<and> masked_option ps t"
| "masked_event ps (LogGroup _ t _) \<longleftrightarrow> masked_by ps t"
| "masked_event ps (Log _ _ _) \<longleftrightarrow> True"
| "masked_event ps _ \<longleftrightarrow> False"

lemma masked_by_mask [simp]: "ps \<subseteq> set (patterns m) \<Longrightarrow> masked_by ps (mask m x)"
  unfolding masked_by_def by blast

lemma masked_by_Nil [simp]: "masked_by ps []"
  by (simp add: masked_by_def)

definition pending_masked :: "string set \<Rightarrow> dispatcher \<Rightarrow> exec_context \<Rightarrow> bool" where
  "pending_masked ps d ctx \<longleftrightarrow> ps \<subseteq> set (patterns (ec_masker ctx)) \<and> (\<forall>e \<in> set (cd_pending d). masked_event ps e)"

lemma push_event_masked:
  "pending_masked ps d ctx \<Longrightarrow> masked_event ps e \<Longrightarrow> pending_masked ps (push_event e d) ctx"
  by (simp add: pending_masked_def)

lemma pending_masked_cong:
  "cd_pending d' = cd_pending d \<Longrightarrow> ec_masker ctx' = ec_masker ctx \<Longrightarrow> pending_masked ps d ctx \<Longrightarrow> pending_masked ps d' ctx'"
  by (simp add: pending_masked_def)

lemma matcher_diagnostic_masked:
  "pending_masked ps d ctx \<Longrightarrow> pending_masked ps (matcher_diagnostic lv m ctx d) ctx"
  unfolding matcher_diagnostic_def
  by (rule push_event_masked) (auto simp: pending_masked_def masked_option_def)

lemma matcher_failure_masked: "pending_masked ps d ctx \<Longrightarrow> pending_masked ps (matcher_failure m ctx d) ctx"
  unfolding matcher_failure_def by (rule matcher_diagnostic_masked) (simp add: pending_masked_def)

lemma push_annotation_masked: "pending_masked ps d ctx \<Longrightarrow> pending_masked ps (push_annotation a ctx d) ctx"
  unfolding push_annotation_def
  by (auto simp: Let_def pending_masked_def masked_option_def split: option.splits)

lemma match_output_masked:
  assumes "pending_masked ps d ctx" "match_output X line d ctx = (d', disp)"
  shows "pending_masked ps d' ctx"
proof -
  have sub: "ps \<subseteq> set (patterns (ec_masker ctx))" using assms(1) by (simp add: pending_masked_def)
  then have ann: "masked_event ps (Annotation i lv (mask (ec_masker ctx) m) (map_option (mask (ec_masker ctx)) f) l el c ec None)"
    for i lv m f l el c ec by (cases f) (simp_all add: masked_option_def)
  show ?thesis
    using assms(2) unfolding match_output_def Let_def
    by (auto split: prod.splits option.splits log_stream.splits if_splits
        intro!: push_event_masked ann matcher_diagnostic_masked intro: pending_masked_cong [OF _ _ assms(1)])
qed

lemma apply_command_masked:
  assumes "pending_masked ps d ctx" "apply_command X c (d, ctx) = (d', ctx')"
  shows "pending_masked ps d' ctx'"
proof (cases c)
  case (SetOutput n v)
  with assms show ?thesis
    by (auto simp: apply_command_def apply_set_output_def Let_def pending_masked_def set_step_output_def update_step_def
        split: option.splits if_splits)
next
  case (SaveState n v)
  with assms show ?thesis
    by (auto simp: apply_command_def apply_save_state_def set_step_state_def Let_def pending_masked_def)
next
  case (AddMask v)
  with assms apply_op_mono [of "ec_masker ctx" "dx_masker X" "masker_op.Add_mask (unescape_data v)"] show ?thesis
    by (auto simp: apply_command_def apply_add_mask_def pending_masked_def)
next
  case (AddMatcher p)
  with assms show ?thesis
    by (auto simp: apply_command_def add_matcher_def Let_def matcher_diagnostic_masked matcher_failure_masked
        split: sum.splits prod.splits if_splits intro: pending_masked_cong [OF _ _ assms(1)])
next
  case (RemoveMatcher o' p)
  with assms show ?thesis
    by (auto simp: apply_command_def remove_matcher_def Let_def matcher_diagnostic_masked matcher_failure_masked
        split: sum.splits prod.splits if_splits option.splits intro: pending_masked_cong [OF _ _ assms(1)])
next
  case (Group t)
  with assms show ?thesis by (auto simp: apply_command_def apply_group_def pending_masked_def)
next
  case EndGroup
  with assms show ?thesis by (auto simp: apply_command_def apply_endgroup_def pending_masked_def)
qed (use assms in \<open>auto simp: apply_command_def Let_def warn_disabled_stdout_command_def push_annotation_masked
    intro: pending_masked_cong\<close>)

lemma on_output_line_masked:
  assumes "pending_masked ps d ctx" "on_output_line X line s (d, ctx) = (disp, d', ctx')"
  shows "pending_masked ps d' ctx'"
proof -
  let ?d = "d\<lparr>cd_output_stream := s\<rparr>"
  have start: "pending_masked ps ?d ctx" using assms(1) by (simp add: pending_masked_def)
  have matched: ?thesis if "(case match_output X line ?d ctx of (d', disp) \<Rightarrow> (disp, d', ctx)) = (disp, d', ctx')"
    using that match_output_masked [OF start] by (auto split: prod.splits)
  show ?thesis
  proof (cases "cd_stop_token d")
    case (Some token)
    with assms(2) matched start show ?thesis
      by (cases "is_resume_marker line token") (auto simp: on_output_line_def Let_def pending_masked_def)
  next
    case live: None
    show ?thesis
    proof (cases "parse_command line")
      case None
      with live assms(2) show ?thesis by (intro matched) (simp add: on_output_line_def Let_def)
    next
      case (Some c)
      let ?e = "if cd_echo_on ?d then push_event (Log (cd_log_step_id ?d) line (cd_output_stream ?d)) ?d else ?d"
      have "apply_command X c (?e, ctx) = (d', ctx')"
        using live Some assms(2) by (simp add: on_output_line_def Let_def)
      moreover have "pending_masked ps ?e ctx" using start by (simp add: push_event_masked)
      ultimately show ?thesis by (rule apply_command_masked [rotated])
    qed
  qed
qed

lemma stream_process_masked:
  "ps \<subseteq> set (patterns (ec_masker ctx)) \<Longrightarrow> cd_pending d = [] \<Longrightarrow>
   stream_process X lines (d, ctx) = (events, d', ctx') \<Longrightarrow>
   (\<forall>e \<in> set events. masked_event ps e) \<and> ps \<subseteq> set (patterns (ec_masker ctx'))"
proof (induction lines arbitrary: d ctx events)
  case (Cons l lines)
  obtain line s where l: "l = (line, s)" by force
  obtain disp d1 ctx1 where step: "on_output_line X line s (d, ctx) = (disp, d1, ctx1)" by (metis prod_cases3)
  obtain more where rest: "stream_process X lines (d1\<lparr>cd_pending := []\<rparr>, ctx1) = (more, d', ctx')"
    and events: "events = cd_pending d1 @ (case disp of PassThrough l \<Rightarrow> [Log (cd_log_step_id d1) l s] | Consumed \<Rightarrow> []) @ more"
    using Cons.prems(3) step l
    by (auto simp: take_events_def Let_def split: prod.splits cong: line_disposition.case_cong)
  have "pending_masked ps d ctx" using Cons.prems by (simp add: pending_masked_def)
  from on_output_line_masked [OF this step] have "ps \<subseteq> set (patterns (ec_masker ctx1))" "\<forall>e \<in> set (cd_pending d1). masked_event ps e"
    by (simp_all add: pending_masked_def)
  with Cons.IH [OF _ _ rest] show ?case by (auto simp: events split: line_disposition.splits)
qed simp

text \<open>
  Every annotation and log group a step produces is masked before it leaves the dispatcher, with a
  masker that knows at least the secrets registered when the step started: messages, file names and
  titles, from commands, matchers and diagnostics alike. Only plain log lines leave unmasked.
\<close>

theorem annotations_leave_masked:
  assumes "stream_process X lines (new_dispatcher step_id log_id output_name, ctx) = (events, d, ctx')"
    and "event \<in> set events"
  shows "masked_event (set (patterns (ec_masker ctx))) event"
  using stream_process_masked [OF order_refl _ assms(1)] assms(2) by (simp add: new_dispatcher_def)

theorem annotations_leave_masked_witness:
  "\<exists>event events d ctx'. stream_process plain_dispatch_externs [(''::notice::hello'', Stdout)]
      (new_dispatcher ''s'' ''s'' None, plain_job) = (events, d, ctx')
    \<and> event \<in> set events \<and> masked_event (set (patterns (ec_masker plain_job))) event"
proof -
  obtain events d ctx' where run: "stream_process plain_dispatch_externs [(''::notice::hello'', Stdout)]
      (new_dispatcher ''s'' ''s'' None, plain_job) = (events, d, ctx')"
    by (metis prod_cases3)
  moreover have "fst (stream_process plain_dispatch_externs [(''::notice::hello'', Stdout)]
      (new_dispatcher ''s'' ''s'' None, plain_job)) \<noteq> []"
    by code_simp
  ultimately obtain event where "event \<in> set events" by (cases events) auto
  with annotations_leave_masked [OF run] run show ?thesis by blast
qed

text \<open>
  A mask requested by a step takes effect at once: after the line that issues \<open>add-mask\<close> for a value,
  with whatever characters escaped, the value and each of its encoded forms is covered in every later
  line, and the line itself is not logged by the dispatcher.
\<close>

theorem issued_mask_takes_effect:
  assumes "cd_stop_token d = None" and "\<not> cd_echo_on d" and "valid_utf8 v" and "trim v \<noteq> []"
    and "on_output_line X (issue_command ''add-mask'' [] v) s (d, ctx) = (disp, d', ctx')"
    and "form \<in> set (secret_forms (dx_masker X) v)" and "occurs_at form input j" and "j \<le> i" and "i < j + length form"
  shows "disp = Consumed \<and> cd_pending d' = cd_pending d \<and> covered (patterns (ec_masker ctx')) input i"
proof -
  have "parse_command (issue_command ''add-mask'' [] v) = Some (AddMask (escape_data v))"
    using parse_command_issued [of "''add-mask''" "[]" v] by (simp add: plain_props_def command_of_def)
  with assms(1,2,5) unescape_data_escape [OF assms(3)]
  have res: "disp = Consumed" "cd_pending d' = cd_pending d" "ctx' = ctx\<lparr>ec_masker := add_mask (dx_masker X) v (ec_masker ctx)\<rparr>"
    by (auto simp: on_output_line_def Let_def apply_command_def apply_add_mask_def)
  moreover have "form \<in> set (patterns (ec_masker ctx'))"
    using add_mask_superset [OF assms(4)] add_pattern_forms assms(6) res(3) by fastforce
  ultimately show ?thesis unfolding covered_iff using assms(7-9) by blast
qed

theorem issued_mask_takes_effect_witness:
  "\<exists>d' ctx'. on_output_line plain_dispatch_externs (issue_command ''add-mask'' [] ''p%w'') Stdout
       (new_dispatcher ''s'' ''s'' None, plain_job) = (Consumed, d', ctx')
     \<and> covered (patterns (ec_masker ctx')) ''log p%w end'' 5"
proof -
  obtain disp d' ctx' where run: "on_output_line plain_dispatch_externs (issue_command ''add-mask'' [] ''p%w'') Stdout
       (new_dispatcher ''s'' ''s'' None, plain_job) = (disp, d', ctx')" by (metis prod_cases3)
  have "valid_utf8 ''p%w''" "trim ''p%w'' \<noteq> []" "occurs_at ''p%w'' ''log p%w end'' 4" by code_simp+
  moreover have "''p%w'' \<in> set (secret_forms (dx_masker plain_dispatch_externs) ''p%w'')" by (simp add: secret_forms_def)
  ultimately show ?thesis
    using issued_mask_takes_effect [OF _ _ _ _ run, of "''p%w''" "''log p%w end''" 4 5] run
    by (auto simp: new_dispatcher_def)
qed

text \<open>
  Property escapes in an output name are not decoded: the name \<open>a:b\<close>, written as the toolkit writes it, is
  stored with its escape.
\<close>

theorem output_name_keeps_property_escape:
  "let (disp, d, ctx) = on_output_line plain_dispatch_externs (issue_command ''set-output'' [(''name'', ''a:b'')] ''v'') Stdout
         (new_dispatcher ''s'' ''s'' (Some ''build''), plain_job)
   in step_outputs ''build'' ctx ''a%3Ab'' = Some ''v'' \<and> step_outputs ''build'' ctx ''a:b'' = None"
  by code_simp

end
