(* ===== verification/File_Commands.thy ===== *)
theory File_Commands
  imports Command_Dispatch
begin

text \<open>
  The files a step writes for the runner (\<open>crates/execution/src/execution/file_commands.rs\<close>) and what
  the runner applies from them (\<open>step_env.rs\<close>): \<open>GITHUB_ENV\<close>, \<open>GITHUB_OUTPUT\<close>, \<open>GITHUB_STATE\<close>,
  \<open>GITHUB_PATH\<close>.

  A file system read is a parameter that returns the bytes of a file, says that it does not exist, or
  gives the operating system's message. Hash maps are association lists without duplicate names; every
  use of them is independent of their order. The index of \<open>Lines\<close> is the text that remains to be read.
\<close>

subsection \<open>Reading\<close>

definition in_quotes :: "string \<Rightarrow> string" where
  "in_quotes s = [CHR 0x27] @ s @ [CHR 0x27]"

text \<open>
  \<open>String::from_utf8_lossy\<close>: every maximal prefix of an ill-formed sequence becomes one replacement
  character. \<open>utf8_step\<close> gives the length of the next character, or of the ill-formed prefix.
\<close>

fun utf8_step :: "nat list \<Rightarrow> bool \<times> nat" where
  "utf8_step [] = (True, 0)"
| "utf8_step (b0 # r) =
     (if b0 < 128 then (True, 1)
      else if 194 \<le> b0 \<and> b0 \<le> 223
      then (case r of b1 # _ \<Rightarrow> if utf8_cont b1 then (True, 2) else (False, 1) | [] \<Rightarrow> (False, 1))
      else if 224 \<le> b0 \<and> b0 \<le> 239
      then (case r of [] \<Rightarrow> (False, 1)
            | b1 # r1 \<Rightarrow>
                if \<not> utf8_cont b1 \<or> b0 = 224 \<and> b1 < 160 \<or> b0 = 237 \<and> 159 < b1 then (False, 1)
                else (case r1 of b2 # _ \<Rightarrow> if utf8_cont b2 then (True, 3) else (False, 2) | [] \<Rightarrow> (False, 2)))
      else if 240 \<le> b0 \<and> b0 \<le> 244
      then (case r of [] \<Rightarrow> (False, 1)
            | b1 # r1 \<Rightarrow>
                if \<not> utf8_cont b1 \<or> b0 = 240 \<and> b1 < 144 \<or> b0 = 244 \<and> 143 < b1 then (False, 1)
                else (case r1 of [] \<Rightarrow> (False, 2)
                      | b2 # r2 \<Rightarrow>
                          if \<not> utf8_cont b2 then (False, 2)
                          else (case r2 of b3 # _ \<Rightarrow> if utf8_cont b3 then (True, 4) else (False, 3) | [] \<Rightarrow> (False, 3))))
      else (False, 1))"

lemma utf8_step_pos: "bs \<noteq> [] \<Longrightarrow> 0 < snd (utf8_step bs)"
  by (cases bs) (auto split: list.splits)

function utf8_lossy :: "nat list \<Rightarrow> nat list" where
  "utf8_lossy bs =
     (if bs = [] then []
      else case utf8_step bs of (ok, n) \<Rightarrow>
        (if ok then take n bs else [239, 191, 189]) @ utf8_lossy (drop n bs))"
  by pat_completeness auto
termination
  using utf8_step_pos by (relation "measure length") (auto, metis diff_less length_greater_0_conv snd_conv)

declare utf8_lossy.simps [simp del]

definition from_utf8_lossy :: "string \<Rightarrow> string" where
  "from_utf8_lossy s = map char_of (utf8_lossy (map of_char s))"

datatype file_read = File_Bytes string | File_Not_Found | File_Io_Error string

definition utf8_bom :: string where "utf8_bom = map char_of [239, 187, 191 :: nat]"

definition read_command_file :: "(string \<Rightarrow> file_read) \<Rightarrow> string \<Rightarrow> (string, string) result" where
  "read_command_file fs p =
     (case fs p of
        File_Bytes bytes \<Rightarrow> Ok (from_utf8_lossy (case strip_prefix_str utf8_bom bytes of Some body \<Rightarrow> body | None \<Rightarrow> bytes))
      | File_Not_Found \<Rightarrow> Ok []
      | File_Io_Error e \<Rightarrow> Err (''Unable to read file command file '' @ in_quotes p @ '': '' @ e))"

subsection \<open>Parsing\<close>

definition parse_path_file :: "string \<Rightarrow> string list" where
  "parse_path_file content = filter (\<lambda>l. l \<noteq> []) (map (trim_end_char (CHR 0x0D)) (str_lines content))"

record kv_file =
  kv_pairs :: "(string \<times> string) list"
  kv_error :: "string option"

text \<open>\<open>Lines::next_line\<close>: the line, whether an LF ended it, and the text after it.\<close>

definition next_line :: "string \<Rightarrow> (string \<times> bool \<times> string) option" where
  "next_line rest =
     (if rest = [] then None
      else case split_once_char (CHR 0x0A) rest of
             Some (line, rest') \<Rightarrow> Some (line, True, rest')
           | None \<Rightarrow> Some (rest, False, []))"

lemma next_line_shorter: "next_line rest = Some (line, ended, rest') \<Longrightarrow> length rest' < length rest"
  by (auto simp: next_line_def split_once_char_Some split: if_splits option.splits)

text \<open>The two characters of the heredoc marker; \<open>str::split_once\<close> on a string.\<close>

definition split_once_str :: "string \<Rightarrow> string \<Rightarrow> (string \<times> string) option" where
  "split_once_str p s = map_option (\<lambda>i. (take i s, drop (i + length p) s)) (find_str p s)"

function heredoc_lines :: "string \<Rightarrow> string \<Rightarrow> string list \<Rightarrow> (string, string list \<times> string) result" where
  "heredoc_lines delimiter rest acc =
     (case next_line rest of
        None \<Rightarrow> Err (''Invalid value. Matching delimiter not found '' @ in_quotes delimiter)
      | Some (line, ended, rest') \<Rightarrow>
          if line = delimiter then Ok (acc, rest')
          else if \<not> ended then Err ''Invalid value. EOF marker missing new line.''
          else heredoc_lines delimiter rest' (acc @ [line]))"
  by pat_completeness auto
termination by (relation "measure (\<lambda>(_, rest, _). length rest)") (auto dest: next_line_shorter)

declare heredoc_lines.simps [simp del]

definition parse_heredoc :: "string \<Rightarrow> string \<Rightarrow> string \<Rightarrow> string \<Rightarrow> (string, (string \<times> string) \<times> string) result" where
  "parse_heredoc line key delimiter rest =
     (if key = [] \<or> delimiter = []
      then Err (''Invalid format '' @ in_quotes line @ ''. Name must not be empty and delimiter must not be empty'')
      else rbind (heredoc_lines delimiter rest []) (\<lambda>(value, rest'). Ok ((key, join_str [CHR 0x0A] value), rest')))"

definition parse_entry :: "string \<Rightarrow> string \<Rightarrow> (string, (string \<times> string) \<times> string) result" where
  "parse_entry line rest =
     (let plain = split_once_char (CHR ''='') line;
          as_plain = (case plain of
              None \<Rightarrow> Err (''Invalid format '' @ in_quotes line)
            | Some (key, value) \<Rightarrow>
                if key = [] then Err (''Invalid format '' @ in_quotes line @ ''. Name must not be empty'')
                else Ok ((key, value), rest))
      in case split_once_str ''<<'' line of
           Some (key, delimiter) \<Rightarrow>
             if (case plain of None \<Rightarrow> True | Some (name, _) \<Rightarrow> length key < length name)
             then parse_heredoc line key delimiter rest else as_plain
         | None \<Rightarrow> as_plain)"

lemma heredoc_lines_rest: "heredoc_lines delimiter rest acc = Inr (v, rest') \<Longrightarrow> length rest' \<le> length rest"
proof (induction delimiter rest acc rule: heredoc_lines.induct)
  case (1 delimiter rest acc)
  from "1.prems" obtain line ended r where n: "next_line rest = Some (line, ended, r)"
    by (subst (asm) heredoc_lines.simps) (auto split: option.splits)
  then have "length r < length rest" by (rule next_line_shorter)
  moreover from "1.prems" n have "r = rest' \<or> heredoc_lines delimiter r (acc @ [line]) = Inr (v, rest') \<and> line \<noteq> delimiter \<and> ended"
    by (subst (asm) heredoc_lines.simps) (auto split: if_splits)
  ultimately show ?case using "1.IH" [OF n refl refl] by fastforce
qed

lemma parse_entry_rest: "parse_entry line rest = Inr (kv, rest') \<Longrightarrow> length rest' \<le> length rest"
  by (auto simp: parse_entry_def parse_heredoc_def Let_def rbind_eq_Ok split: option.splits if_splits
      dest: heredoc_lines_rest)

text \<open>The loop of \<open>parse_kv_file\<close>; the accumulator is the file read so far.\<close>

function parse_kv_from :: "string \<Rightarrow> (string \<times> string) list \<Rightarrow> kv_file" where
  "parse_kv_from rest pairs =
     (case next_line rest of
        None \<Rightarrow> \<lparr>kv_pairs = pairs, kv_error = None\<rparr>
      | Some (line, _, rest') \<Rightarrow>
          if line = [] then parse_kv_from rest' pairs
          else (case parse_entry line rest' of
                  Inr ((key, value), rest'') \<Rightarrow> parse_kv_from rest'' (index_insert key value pairs)
                | Inl message \<Rightarrow> \<lparr>kv_pairs = pairs, kv_error = Some message\<rparr>))"
  by pat_completeness auto
termination
  by (relation "measure (\<lambda>(rest, _). length rest)") (auto dest: next_line_shorter parse_entry_rest le_less_trans)

declare parse_kv_from.simps [simp del]

definition parse_kv_file :: "string \<Rightarrow> kv_file" where
  "parse_kv_file content = parse_kv_from content []"

subsection \<open>Processing\<close>

record file_externs =
  fx_read :: "string \<Rightarrow> file_read"
  fx_join_error :: "string option"

record file_command_manager =
  env_path :: string
  output_path :: string
  path_path :: string
  state_path :: string
  summary_path :: string

definition create_manager :: "string \<Rightarrow> file_command_manager \<times> (string \<times> string) list" where
  "create_manager temp_dir =
     (let mgr = \<lparr>env_path = temp_dir @ ''/github_env'', output_path = temp_dir @ ''/github_output'',
                 path_path = temp_dir @ ''/github_path'', state_path = temp_dir @ ''/github_state'',
                 summary_path = temp_dir @ ''/github_step_summary''\<rparr>
      in (mgr, [(''GITHUB_ENV'', env_path mgr), (''GITHUB_OUTPUT'', output_path mgr), (''GITHUB_PATH'', path_path mgr),
                (''GITHUB_STATE'', state_path mgr), (''GITHUB_STEP_SUMMARY'', summary_path mgr)]))"

record file_command_failure =
  fcf_command :: string
  fcf_message :: string

definition failure_summary :: "file_command_failure \<Rightarrow> string" where
  "failure_summary f = ''Unable to process file command '' @ in_quotes (fcf_command f) @ '' successfully.''"

record file_command_results =
  fr_env_vars :: "(string \<times> string) list"
  fr_outputs :: "(string \<times> string) list"
  fr_path_additions :: "string list"
  fr_state :: "(string \<times> string) list"
  fr_failures :: "file_command_failure list"
  fr_blocked_env :: nat

definition BLOCKED_ENV_MESSAGE :: string where
  "BLOCKED_ENV_MESSAGE = ''Can'' @ [CHR 0x27] @ ''t store NODE_OPTIONS output parameter using '' @ in_quotes ''$GITHUB_ENV'' @ '' command.''"

definition blocked_env_name :: "string \<Rightarrow> bool" where
  "blocked_env_name k \<longleftrightarrow> eq_ignore_ascii_case k ''NODE_OPTIONS''"

definition strip_blocked_env :: "(string \<times> string) list \<Rightarrow> (string \<times> string) list \<times> nat" where
  "strip_blocked_env env =
     (let kept = filter (\<lambda>(k, _). \<not> blocked_env_name k) env in (kept, length env - length kept))"

definition read_command_files :: "file_externs \<Rightarrow> string list \<Rightarrow> (string, string) result list" where
  "read_command_files F paths =
     (case fx_join_error F of
        None \<Rightarrow> map (read_command_file (fx_read F)) paths
      | Some e \<Rightarrow> map (\<lambda>_. Err (''file-command file read task failed: '' @ e)) paths)"

definition parse_kv_command :: "string \<Rightarrow> (string, string) result \<Rightarrow> file_command_failure list
    \<Rightarrow> (string \<times> string) list \<times> file_command_failure list" where
  "parse_kv_command command read failures =
     (let (pairs, error) = (case read of
            Inr content \<Rightarrow> let f = parse_kv_file content in (kv_pairs f, kv_error f)
          | Inl message \<Rightarrow> ([], Some message))
      in (pairs, failures @ (case error of Some m \<Rightarrow> [\<lparr>fcf_command = command, fcf_message = m\<rparr>] | None \<Rightarrow> [])))"

definition process :: "file_externs \<Rightarrow> file_command_manager \<Rightarrow> file_command_results" where
  "process F mgr =
     (let reads = read_command_files F [path_path mgr, env_path mgr, state_path mgr, output_path mgr];
          (path_additions, failures) = (case reads ! 0 of
             Inr content \<Rightarrow> (parse_path_file content, [])
           | Inl message \<Rightarrow> ([], [\<lparr>fcf_command = ''path'', fcf_message = message\<rparr>]));
          (env_vars, failures) = parse_kv_command ''env'' (reads ! 1) failures;
          (env_vars, blocked_env) = strip_blocked_env env_vars;
          (state, failures) = parse_kv_command ''state'' (reads ! 2) failures;
          (outputs, failures) = parse_kv_command ''output'' (reads ! 3) failures
      in \<lparr>fr_env_vars = env_vars, fr_outputs = outputs, fr_path_additions = path_additions, fr_state = state,
          fr_failures = failures, fr_blocked_env = blocked_env\<rparr>)"

text \<open>\<open>reset\<close>: the five files are empty afterwards.\<close>

definition reset_files :: "file_command_manager \<Rightarrow> (string \<Rightarrow> file_read) \<Rightarrow> (string \<Rightarrow> file_read)" where
  "reset_files mgr fs =
     fold (\<lambda>p fs. fs(p := File_Bytes [])) [env_path mgr, output_path mgr, path_path mgr, state_path mgr, summary_path mgr] fs"

subsection \<open>Application to the job\<close>

record file_command_scope =
  fs_step_id :: string
  fs_expression_name :: "string option"
  fs_state_id :: "string option"
  fs_report_id :: string

definition emit_error_issue :: "string \<Rightarrow> string \<Rightarrow> exec_context \<Rightarrow> runner_event list" where
  "emit_error_issue report_id message ctx =
     (let message = mask (ec_masker ctx) message
      in [Log report_id (''##[error]'' @ message) Stdout,
          Annotation report_id Level_Error message None None None None None None])"

definition report_file_command_issues ::
  "file_command_failure list \<Rightarrow> nat \<Rightarrow> string \<Rightarrow> exec_context \<Rightarrow> runner_event list \<times> bool" where
  "report_file_command_issues failures blocked_env report_id ctx =
     (concat (replicate blocked_env (emit_error_issue report_id BLOCKED_ENV_MESSAGE ctx))
      @ concat (map (\<lambda>f. emit_error_issue report_id (failure_summary f) ctx
                          @ emit_error_issue report_id (fcf_message f) ctx) failures),
      failures \<noteq> [])"

definition apply_file_commands ::
  "file_externs \<Rightarrow> file_command_scope \<Rightarrow> file_command_manager \<Rightarrow> exec_context
     \<Rightarrow> (string \<times> string) list \<times> bool \<times> runner_event list \<times> exec_context" where
  "apply_file_commands F scope mgr ctx =
     (let results = process F mgr;
          ctx = fold (\<lambda>kv. set_env (fst kv) (snd kv)) (fr_env_vars results) ctx;
          ctx = fold prepend_path (fr_path_additions results) ctx;
          ctx = (if fs_state_id scope \<noteq> None
                 then fold (\<lambda>kv. set_step_state (fs_step_id scope) (fst kv) (snd kv)) (fr_state results) ctx else ctx);
          (events, failed) = report_file_command_issues (fr_failures results) (fr_blocked_env results) (fs_report_id scope) ctx
      in (fr_outputs results, failed, events, ctx))"

definition extend_pairs :: "(string \<times> string) list \<Rightarrow> (string \<times> string) list \<Rightarrow> (string \<times> string) list" where
  "extend_pairs new base = fold (\<lambda>kv m. index_insert (fst kv) (snd kv) m) new base"

definition apply_file_commands_and_merge_outputs ::
  "file_externs \<Rightarrow> file_command_scope \<Rightarrow> (string \<times> string) list \<Rightarrow> file_command_manager \<Rightarrow> exec_context
     \<Rightarrow> (string \<times> string) list \<times> bool \<times> runner_event list \<times> exec_context" where
  "apply_file_commands_and_merge_outputs F scope stdout_outputs mgr ctx =
     (case apply_file_commands F scope mgr ctx of
        (outputs, failed, events, ctx) \<Rightarrow>
          let outputs = extend_pairs stdout_outputs outputs;
              ctx = (case fs_expression_name scope of
                       Some name \<Rightarrow> fold (\<lambda>kv. set_step_output name (fst kv) (snd kv)) outputs ctx
                     | None \<Rightarrow> ctx)
          in (outputs, failed, events, ctx))"

subsection \<open>The file format\<close>

text \<open>What a step may write: a plain entry, or a heredoc entry whose val may span lines.\<close>

datatype kv_entry = Plain string string | Heredoc string string string

fun entry_text :: "kv_entry \<Rightarrow> string" where
  "entry_text (Plain name val) = name @ ''='' @ val @ [CHR 0x0A]"
| "entry_text (Heredoc name delimiter val) =
     name @ ''<<'' @ delimiter @ [CHR 0x0A] @ val @ [CHR 0x0A] @ delimiter @ [CHR 0x0A]"

fun entry_pair :: "kv_entry \<Rightarrow> string \<times> string" where
  "entry_pair (Plain name val) = (name, val)"
| "entry_pair (Heredoc name delimiter val) = (name, val)"

definition good_name :: "string \<Rightarrow> bool" where
  "good_name name \<longleftrightarrow> name \<noteq> [] \<and> CHR 0x0A \<notin> set name \<and> CHR ''='' \<notin> set name \<and> CHR ''<'' \<notin> set name"

fun good_entry :: "kv_entry \<Rightarrow> bool" where
  "good_entry (Plain name val) \<longleftrightarrow> good_name name \<and> CHR 0x0A \<notin> set val"
| "good_entry (Heredoc name delimiter val) \<longleftrightarrow>
     good_name name \<and> delimiter \<noteq> [] \<and> CHR 0x0A \<notin> set delimiter \<and> delimiter \<notin> set (split_char (CHR 0x0A) val)"

lemma split_once_char_at: "c \<notin> set a \<Longrightarrow> split_once_char c (a @ c # b) = Some (a, b)"
  by (simp add: split_once_char_Some)

lemma next_line_cons: "CHR 0x0A \<notin> set line \<Longrightarrow> next_line (line @ CHR 0x0A # rest) = Some (line, True, rest)"
  by (simp add: next_line_def split_once_char_at)

lemma find_str_at: "hd p \<notin> set a \<Longrightarrow> p \<noteq> [] \<Longrightarrow> find_str p (a @ p @ b) = Some (length a)"
proof (induction a)
  case Nil
  then show ?case by (cases p) (auto simp: starts_with_def)
next
  case (Cons c a)
  then show ?case by (cases p) (auto simp: starts_with_def)
qed

lemma split_once_str_at: "hd p \<notin> set a \<Longrightarrow> p \<noteq> [] \<Longrightarrow> split_once_str p (a @ p @ b) = Some (a, b)"
  by (simp add: split_once_str_def find_str_at)

lemma lines_of_value: "val @ [CHR 0x0A] = concat (map (\<lambda>l. l @ [CHR 0x0A]) (split_char (CHR 0x0A) val))"
proof -
  have "xs \<noteq> [] \<Longrightarrow> join_str [c] xs @ [c] = concat (map (\<lambda>l. l @ [c]) xs)" for xs :: "string list" and c
    by (induction "[c]" xs rule: join_str.induct) auto
  from this [of "split_char (CHR 0x0A) val" "CHR 0x0A"] show ?thesis by (simp add: join_split_char)
qed

lemma heredoc_lines_value:
  assumes "\<forall>l \<in> set ls. CHR 0x0A \<notin> set l \<and> l \<noteq> d" "CHR 0x0A \<notin> set d"
  shows "heredoc_lines d (concat (map (\<lambda>l. l @ [CHR 0x0A]) ls) @ d @ CHR 0x0A # rest) acc = Ok (acc @ ls, rest)"
  using assms(1)
proof (induction ls arbitrary: acc)
  case Nil
  then show ?case by (subst heredoc_lines.simps) (simp add: next_line_cons assms(2))
next
  case (Cons l ls)
  then show ?case by (subst heredoc_lines.simps) (simp add: next_line_cons)
qed

lemma take_two_nth: "take 2 (drop i s) = [x, y] \<Longrightarrow> s ! i = x"
  by (cases "drop i s") (auto simp: nth_via_drop)

lemma parse_plain:
  assumes "good_name name"
  shows "parse_entry (name @ ''='' @ val) rest = Ok ((name, val), rest)"
proof -
  have plain: "split_once_char (CHR ''='') (name @ ''='' @ val) = Some (name, val)"
    using assms by (simp add: good_name_def split_once_char_at)
  have "length name \<le> length key" if "split_once_str ''<<'' (name @ ''='' @ val) = Some (key, delimiter)" for key delimiter
  proof (rule ccontr)
    assume short: "\<not> length name \<le> length key"
    from that obtain i where i: "find_str ''<<'' (name @ ''='' @ val) = Some i" "key = take i (name @ ''='' @ val)"
      by (auto simp: split_once_str_def)
    from find_str_Some [OF i(1)] have "i + 2 \<le> length (name @ ''='' @ val)" "take 2 (drop i (name @ ''='' @ val)) = ''<<''"
      by (simp_all add: numeral_2_eq_2)
    moreover from this short i(2) have "i < length name" by simp
    ultimately have "name ! i = CHR ''<''" using take_two_nth [of i "name @ ''='' @ val"] by (simp add: nth_append)
    with \<open>i < length name\<close> assms show False by (metis good_name_def nth_mem)
  qed
  then show ?thesis
    using assms plain by (auto simp: parse_entry_def Let_def good_name_def split: option.splits)
qed

lemma parse_heredoc_entry:
  assumes "good_entry (Heredoc name delimiter val)"
  shows "parse_entry (name @ ''<<'' @ delimiter) (val @ [CHR 0x0A] @ delimiter @ [CHR 0x0A] @ rest) = Ok ((name, val), rest)"
proof -
  let ?line = "name @ ''<<'' @ delimiter"
  have heredoc: "split_once_str ''<<'' ?line = Some (name, delimiter)"
    using assms split_once_str_at [of "''<<''" name delimiter] by (simp add: good_name_def)
  have first: "length name < length n" if "split_once_char (CHR ''='') ?line = Some (n, v)" for n v
  proof -
    from that have "?line = n @ CHR ''='' # v" by (simp add: split_once_char_Some)
    with assms show ?thesis by (auto simp: append_eq_append_conv2 good_name_def Cons_eq_append_conv append_eq_Cons_conv)
  qed
  have "heredoc_lines delimiter (val @ [CHR 0x0A] @ delimiter @ [CHR 0x0A] @ rest) []
      = Ok (split_char (CHR 0x0A) val, rest)"
    using assms heredoc_lines_value [of "split_char (CHR 0x0A) val" delimiter rest "[]"]
    unfolding append_assoc [of val "[CHR 0x0A]", symmetric] lines_of_value [of val] by (auto dest: split_char_no_sep)
  with assms heredoc first show ?thesis
    by (auto simp: parse_entry_def parse_heredoc_def Let_def good_name_def join_split_char split: option.splits)
qed

lemma parse_kv_from_entry:
  assumes "good_entry e"
  shows "parse_kv_from (entry_text e @ rest) pairs = parse_kv_from rest (index_insert (fst (entry_pair e)) (snd (entry_pair e)) pairs)"
proof (cases e)
  case (Plain name val)
  then have "next_line (entry_text e @ rest) = Some (name @ ''='' @ val, True, rest)"
    using assms next_line_cons [of "name @ ''='' @ val" rest] by (simp add: good_name_def)
  then show ?thesis
    using Plain assms parse_plain [of name val rest] by (subst parse_kv_from.simps) simp
next
  case (Heredoc name delimiter val)
  then have "next_line (entry_text e @ rest)
      = Some (name @ ''<<'' @ delimiter, True, val @ [CHR 0x0A] @ delimiter @ [CHR 0x0A] @ rest)"
    using assms next_line_cons [of "name @ ''<<'' @ delimiter" "val @ [CHR 0x0A] @ delimiter @ [CHR 0x0A] @ rest"]
    by (simp add: good_name_def)
  then show ?thesis
    using Heredoc assms parse_heredoc_entry [of name delimiter val rest] by (subst parse_kv_from.simps) simp
qed

lemma parse_kv_from_entries:
  assumes "\<forall>e \<in> set es. good_entry e"
  shows "parse_kv_from (concat (map entry_text es) @ rest) pairs = parse_kv_from rest (extend_pairs (map entry_pair es) pairs)"
  using assms
proof (induction es arbitrary: pairs)
  case (Cons e es)
  then show ?case by (simp add: parse_kv_from_entry extend_pairs_def)
qed (simp add: extend_pairs_def)

lemma map_of_extend_pairs: "map_of (extend_pairs kvs m) = map_of m ++ map_of (rev kvs)"
proof (rule ext)
  fix k
  show "map_of (extend_pairs kvs m) k = (map_of m ++ map_of (rev kvs)) k"
    unfolding extend_pairs_def
  proof (induction kvs arbitrary: m)
    case (Cons kv kvs)
    then show ?case by (cases kv) (auto simp: map_add_def split: option.splits)
  qed simp
qed

lemma parse_kv_from_pairs:
  "map_of (kv_pairs (parse_kv_from rest pairs)) = map_of pairs ++ map_of (kv_pairs (parse_kv_from rest []))
   \<and> kv_error (parse_kv_from rest pairs) = kv_error (parse_kv_from rest [])"
proof (induction rest arbitrary: pairs rule: measure_induct_rule [of length])
  case (less rest)
  show ?case
  proof (cases "next_line rest")
    case None
    then show ?thesis by (simp add: parse_kv_from.simps)
  next
    case (Some l)
    then obtain line ended r where l: "next_line rest = Some (line, ended, r)" by (cases l) auto
    note shorter = next_line_shorter [OF l]
    show ?thesis
    proof (cases "line = []")
      case True
      with l less.IH [OF shorter, of pairs] show ?thesis by (simp add: parse_kv_from.simps [of rest])
    next
      case False
      show ?thesis
      proof (cases "parse_entry line r")
        case (Inl e)
        with l False show ?thesis by (simp add: parse_kv_from.simps [of rest])
      next
        case (Inr kr)
        then obtain k v r' where kr: "parse_entry line r = Inr ((k, v), r')" by (metis prod.exhaust)
        then have "length r' < length rest" using parse_entry_rest [OF kr] shorter by simp
        note IH = less.IH [OF this]
        from IH [of "index_insert k v pairs"] IH [of "[(k, v)]"] l False kr show ?thesis
          by (simp add: parse_kv_from.simps [of rest] fun_upd_def map_add_def fun_eq_iff split: option.splits)
      qed
    qed
  qed
qed

text \<open>
  C35. The command files are read as they were written: plain and multi-line entries come back with their
  names and exact values, a repeated name with its last value, whatever text follows them; an error in
  that text is reported without losing an entry before it.
\<close>

theorem kv_file_roundtrip:
  assumes "\<forall>e \<in> set es. good_entry e"
  shows "map_of (kv_pairs (parse_kv_file (concat (map entry_text es) @ rest)))
           = map_of (rev (map entry_pair es)) ++ map_of (kv_pairs (parse_kv_file rest))
    \<and> kv_error (parse_kv_file (concat (map entry_text es) @ rest)) = kv_error (parse_kv_file rest)"
  using parse_kv_from_entries [OF assms, of rest "[]"] parse_kv_from_pairs [of rest "extend_pairs (map entry_pair es) []"]
  by (simp add: parse_kv_file_def map_of_extend_pairs)

theorem kv_file_roundtrip_witness:
  "let es = [Plain ''A'' ''1=2'', Heredoc ''B'' ''EOF'' [CHR ''x'', CHR 0x0A, CHR ''y'']]
   in (\<forall>e \<in> set es. good_entry e)
    \<and> map_of (kv_pairs (parse_kv_file (concat (map entry_text es) @ ''bad''))) ''B'' = Some [CHR ''x'', CHR 0x0A, CHR ''y'']
    \<and> kv_error (parse_kv_file (concat (map entry_text es) @ ''bad'')) \<noteq> None"
proof -
  let ?es = "[Plain ''A'' ''1=2'', Heredoc ''B'' ''EOF'' [CHR ''x'', CHR 0x0A, CHR ''y'']]"
  have good: "\<forall>e \<in> set ?es. good_entry e" by (simp add: good_name_def)
  have bad: "kv_pairs (parse_kv_file ''bad'') = []" "kv_error (parse_kv_file ''bad'') \<noteq> None" by code_simp+
  from kv_file_roundtrip [OF good, of "''bad''"] good bad show ?thesis
    by (simp add: Let_def)
qed

subsection \<open>Effect on the job\<close>

text \<open>Bytes that are valid text and do not start with a byte order mark are read as they are.\<close>

definition clean_text :: "string \<Rightarrow> bool" where
  "clean_text s \<longleftrightarrow> valid_utf8 s \<and> strip_prefix_str utf8_bom s = None"

lemma utf8_step_valid:
  assumes "utf8_decode_bytes (b0 # r0) \<noteq> None"
  shows "\<exists>n. utf8_step (b0 # r0) = (True, n) \<and> utf8_decode_bytes (drop n (b0 # r0)) \<noteq> None"
proof -
  note step = utf8_decode_bytes.simps(2) [of b0]
  show ?thesis
  proof (cases "b0 < 128")
    case True
    with assms show ?thesis by (simp add: step)
  next
    case ge: False
    then obtain b1 r1 where r0: "r0 = b1 # r1" "utf8_cont b1"
      using assms by (auto simp: step split: list.splits if_splits)
    show ?thesis
    proof (cases "194 \<le> b0 \<and> b0 \<le> 223")
      case True
      with assms ge r0 show ?thesis by (simp add: step)
    next
      case no2: False
      then obtain b2 r2 where r1: "r1 = b2 # r2" "utf8_cont b2"
        using assms ge r0 by (auto simp: step split: list.splits if_splits)
      show ?thesis
      proof (cases "224 \<le> b0 \<and> b0 \<le> 239")
        case True
        with assms ge r0 no2 r1 show ?thesis by (auto simp: step split: if_splits)
      next
        case no3: False
        then obtain b3 r3 where "r2 = b3 # r3" "utf8_cont b3"
          using assms ge r0 no2 r1 by (auto simp: step split: list.splits if_splits)
        with assms ge r0 no2 r1 no3 show ?thesis by (auto simp: step split: if_splits)
      qed
    qed
  qed
qed

lemma utf8_lossy_valid: "utf8_decode_bytes bs \<noteq> None \<Longrightarrow> utf8_lossy bs = bs"
proof (induction bs rule: utf8_lossy.induct)
  case (1 bs)
  show ?case
  proof (cases bs)
    case Nil
    then show ?thesis by (simp add: utf8_lossy.simps)
  next
    case (Cons b0 r0)
    with 1 obtain n where n: "utf8_step bs = (True, n)" "utf8_decode_bytes (drop n bs) \<noteq> None"
      using utf8_step_valid by metis
    from Cons n 1(1) [OF _ n(1) [symmetric] n(2)] show ?thesis by (subst utf8_lossy.simps) simp
  qed
qed

lemma read_command_file_clean:
  "fs p = File_Bytes s \<Longrightarrow> clean_text s \<Longrightarrow> read_command_file fs p = Ok s"
  by (simp add: read_command_file_def clean_text_def from_utf8_lossy_def valid_utf8_def utf8_decode_def utf8_lossy_valid comp_def)

lemma parse_kv_from_distinct: "distinct (map fst pairs) \<Longrightarrow> distinct (map fst (kv_pairs (parse_kv_from rest pairs)))"
proof (induction rest pairs rule: parse_kv_from.induct)
  case (1 rest pairs)
  then show ?case
    by (subst parse_kv_from.simps) (auto simp: distinct_index_insert split: option.splits sum.splits)
qed

lemma map_of_rev_distinct: "distinct (map fst kvs) \<Longrightarrow> map_of (rev kvs) = map_of kvs"
  by (rule map_of_eqI) (auto simp: rev_map [symmetric])

lemma map_of_unblocked:
  "map_of (filter (\<lambda>(k, _). \<not> blocked_env_name k) kvs) = (\<lambda>k. if blocked_env_name k then None else map_of kvs k)"
  by (induction kvs) auto

lemma prepend_paths [simp]: "fold prepend_path ds ctx = ctx\<lparr>ec_path_additions := ec_path_additions ctx @ ds\<rparr>"
  by (induction ds arbitrary: ctx) (simp_all add: prepend_path_def)

lemma set_envs: "fold (\<lambda>kv. set_env (fst kv) (snd kv)) kvs ctx = ctx\<lparr>ec_env := ec_env ctx ++ map_of (rev kvs)\<rparr>"
  by (induction kvs arbitrary: ctx) (simp_all add: set_env_def)

lemma set_states_frame:
  "ec_env (fold (\<lambda>kv. set_step_state i (fst kv) (snd kv)) kvs ctx) = ec_env ctx"
  "step_outputs n (fold (\<lambda>kv. set_step_state i (fst kv) (snd kv)) kvs ctx) = step_outputs n ctx"
  by (induction kvs arbitrary: ctx)
    (simp_all add: set_step_state_def Let_def step_outputs_def current_steps_def cong: option.case_cong)

lemma set_outputs_result:
  "step_outputs n (fold (\<lambda>kv. set_step_output n (fst kv) (snd kv)) kvs ctx) = step_outputs n ctx ++ map_of (rev kvs)"
  "ec_env (fold (\<lambda>kv. set_step_output n (fst kv) (snd kv)) kvs ctx) = ec_env ctx"
proof -
  have put: "step_outputs n (set_step_output n k v c) = (step_outputs n c)(k \<mapsto> v)" for k v c
    using output_store.get_put [where k = "(n, k)" and k' = "(n, j)" for j] by (auto simp: fun_eq_iff)
  show "step_outputs n (fold (\<lambda>kv. set_step_output n (fst kv) (snd kv)) kvs ctx) = step_outputs n ctx ++ map_of (rev kvs)"
    by (induction kvs arbitrary: ctx) (simp_all add: put)
  show "ec_env (fold (\<lambda>kv. set_step_output n (fst kv) (snd kv)) kvs ctx) = ec_env ctx"
    by (induction kvs arbitrary: ctx) (simp_all add: set_step_output_def update_step_def Let_def)
qed

lemma step_outputs_frame [simp]:
  "step_outputs n (ctx\<lparr>ec_env := e, ec_path_additions := p\<rparr>) = step_outputs n ctx"
  by (simp add: step_outputs_def current_steps_def cong: option.case_cong)

lemma apply_file_commands_effect:
  assumes "apply_file_commands F scope mgr ctx = (outputs, failed, events, ctx')"
  shows "outputs = fr_outputs (process F mgr)" "failed \<longleftrightarrow> fr_failures (process F mgr) \<noteq> []"
    "ec_env ctx' = ec_env ctx ++ map_of (rev (fr_env_vars (process F mgr)))" "step_outputs n ctx' = step_outputs n ctx"
  using assms
  by (auto simp: apply_file_commands_def Let_def report_file_command_issues_def set_envs set_states_frame split: prod.splits if_splits)

lemma parse_kv_command_pairs:
  "fst (parse_kv_command c r fs) = (case r of Inr t \<Rightarrow> kv_pairs (parse_kv_file t) | Inl _ \<Rightarrow> [])"
  by (simp add: parse_kv_command_def Let_def split: sum.splits)

lemma process_pairs:
  assumes "fx_join_error F = None"
  shows "fr_env_vars (process F mgr) = filter (\<lambda>(k, _). \<not> blocked_env_name k)
      (case read_command_file (fx_read F) (env_path mgr) of Inr t \<Rightarrow> kv_pairs (parse_kv_file t) | Inl _ \<Rightarrow> [])"
    "fr_outputs (process F mgr) =
      (case read_command_file (fx_read F) (output_path mgr) of Inr t \<Rightarrow> kv_pairs (parse_kv_file t) | Inl _ \<Rightarrow> [])"
  by (simp_all add: process_def read_command_files_def assms Let_def split_beta strip_blocked_env_def parse_kv_command_pairs
      numeral_2_eq_2 numeral_3_eq_3)

lemma parse_kv_file_distinct: "distinct (map fst (kv_pairs (parse_kv_file content)))"
  by (simp add: parse_kv_file_def parse_kv_from_distinct)

lemma parse_kv_file_entries:
  assumes "\<forall>e \<in> set es. good_entry e"
  shows "map_of (kv_pairs (parse_kv_file (concat (map entry_text es)))) = map_of (rev (map entry_pair es))"
  using parse_kv_from_entries [OF assms, of "[]" "[]"]
  by (simp add: parse_kv_file_def map_of_extend_pairs parse_kv_from.simps [of "[]"] next_line_def)

text \<open>
  C34. What a step writes to its command files reaches the job exactly: the variables of \<open>GITHUB_ENV\<close> are
  set for the later steps with their last values, except \<open>NODE_OPTIONS\<close> in any case, and the step's
  outputs are those of \<open>GITHUB_OUTPUT\<close> with the values printed as commands taking precedence.
\<close>

theorem step_files_reach_job:
  assumes "fx_join_error F = None" and "fs_expression_name scope = Some name"
    and env: "fx_read F (env_path mgr) = File_Bytes (concat (map entry_text es))"
      "clean_text (concat (map entry_text es))" "\<forall>e \<in> set es. good_entry e"
    and out: "fx_read F (output_path mgr) = File_Bytes (concat (map entry_text os))"
      "clean_text (concat (map entry_text os))" "\<forall>e \<in> set os. good_entry e"
    and run: "apply_file_commands_and_merge_outputs F scope stdout_outputs mgr ctx = (outputs, failed, events, ctx')"
  shows "ec_env ctx' = ec_env ctx ++ (\<lambda>k. if blocked_env_name k then None else map_of (rev (map entry_pair es)) k)
    \<and> map_of outputs = map_of (rev (map entry_pair os)) ++ map_of (rev stdout_outputs)
    \<and> step_outputs name ctx' = step_outputs name ctx ++ map_of outputs"
proof -
  let ?r = "process F mgr"
  have vars: "map_of (fr_env_vars ?r) = (\<lambda>k. if blocked_env_name k then None else map_of (rev (map entry_pair es)) k)"
    "distinct (map fst (fr_env_vars ?r))"
    by (simp_all add: process_pairs assms(1) read_command_file_clean [where fs = "fx_read F", OF env(1,2)] map_of_unblocked
        parse_kv_file_entries [OF env(3)] parse_kv_file_distinct distinct_map_filter cong: if_cong)
  have outs: "map_of (fr_outputs ?r) = map_of (rev (map entry_pair os))" "distinct (map fst (fr_outputs ?r))"
    by (simp_all add: process_pairs assms(1) read_command_file_clean [where fs = "fx_read F", OF out(1,2)]
        parse_kv_file_entries [OF out(3)] parse_kv_file_distinct)
  obtain o1 e1 c1 where first: "apply_file_commands F scope mgr ctx = (o1, failed, e1, c1)"
    using run by (auto simp: apply_file_commands_and_merge_outputs_def Let_def split: prod.splits)
  note eff = apply_file_commands_effect [OF first]
  have res: "outputs = extend_pairs stdout_outputs o1"
    "ctx' = fold (\<lambda>kv. set_step_output name (fst kv) (snd kv)) outputs c1"
    using run first assms(2) by (auto simp: apply_file_commands_and_merge_outputs_def Let_def)
  have "distinct (map fst outputs)"
    using outs eff(1) unfolding res(1) extend_pairs_def
    by (induction stdout_outputs rule: rev_induct) (simp_all add: distinct_index_insert)
  then have "map_of (rev outputs) = map_of outputs" by (rule map_of_rev_distinct)
  moreover have "map_of outputs = map_of (rev (map entry_pair os)) ++ map_of (rev stdout_outputs)"
    using outs eff(1) by (simp add: res(1) map_of_extend_pairs)
  moreover have "map_of (rev (fr_env_vars ?r)) = map_of (fr_env_vars ?r)" using vars map_of_rev_distinct by blast
  ultimately show ?thesis using res(2) eff(3,4) vars by (simp add: set_outputs_result)
qed

theorem step_files_reach_job_witness:
  "\<exists>outputs failed events ctx'.
     apply_file_commands_and_merge_outputs
       \<lparr>fx_read = (\<lambda>p. if p = ''t/github_env'' then File_Bytes (concat (map entry_text [Plain ''Node_Options'' ''x'', Plain ''A'' ''1'']))
                  else if p = ''t/github_output'' then File_Bytes (concat (map entry_text [Plain ''o'' ''file'', Plain ''p'' ''file'']))
                  else File_Not_Found), fx_join_error = None\<rparr>
       \<lparr>fs_step_id = ''s'', fs_expression_name = Some ''build'', fs_state_id = None, fs_report_id = ''s''\<rparr>
       [(''o'', ''stdout'')] (fst (create_manager ''t'')) plain_job = (outputs, failed, events, ctx')
     \<and> ec_env ctx' ''A'' = Some ''1'' \<and> ec_env ctx' ''Node_Options'' = None
     \<and> step_outputs ''build'' ctx' ''o'' = Some ''stdout'' \<and> step_outputs ''build'' ctx' ''p'' = Some ''file''"
proof -
  let ?es = "[Plain ''Node_Options'' ''x'', Plain ''A'' ''1'']" and ?os = "[Plain ''o'' ''file'', Plain ''p'' ''file'']"
  let ?F = "\<lparr>fx_read = (\<lambda>p. if p = ''t/github_env'' then File_Bytes (concat (map entry_text ?es))
      else if p = ''t/github_output'' then File_Bytes (concat (map entry_text ?os)) else File_Not_Found), fx_join_error = None\<rparr>"
  let ?scope = "\<lparr>fs_step_id = ''s'', fs_expression_name = Some ''build'', fs_state_id = None, fs_report_id = ''s''\<rparr>"
  let ?mgr = "fst (create_manager ''t'')"
  have paths: "env_path ?mgr = ''t/github_env''" "output_path ?mgr = ''t/github_output''" by (simp_all add: create_manager_def Let_def)
  have reads: "fx_join_error ?F = None" "fx_read ?F (env_path ?mgr) = File_Bytes (concat (map entry_text ?es))"
    "fx_read ?F (output_path ?mgr) = File_Bytes (concat (map entry_text ?os))" "fs_expression_name ?scope = Some ''build''"
    by (simp_all only: paths) simp_all
  have clean: "clean_text (concat (map entry_text ?es))" "clean_text (concat (map entry_text ?os))" by code_simp+
  have good: "\<forall>e \<in> set ?es. good_entry e" "\<forall>e \<in> set ?os. good_entry e" by (simp_all add: good_name_def)
  obtain outputs failed events ctx' where
    run: "apply_file_commands_and_merge_outputs ?F ?scope [(''o'', ''stdout'')] ?mgr plain_job = (outputs, failed, events, ctx')"
    by (rule prod_cases4)
  have blocked: "blocked_env_name ''Node_Options''" "\<not> blocked_env_name ''A''" by code_simp+
  have before: "ec_env plain_job ''Node_Options'' = None" by code_simp
  from step_files_reach_job [OF reads(1,4,2) clean(1) good(1) reads(3) clean(2) good(2) run] blocked before
  have "ec_env ctx' ''A'' = Some ''1'' \<and> ec_env ctx' ''Node_Options'' = None
     \<and> step_outputs ''build'' ctx' ''o'' = Some ''stdout'' \<and> step_outputs ''build'' ctx' ''p'' = Some ''file''"
    by (simp add: map_add_def)
  with run show ?thesis by blast
qed

end
