(* ===== verification/Step_Context.thy ===== *)
theory Step_Context
  imports File_Commands Expr_Display
begin

text \<open>
  What the step loop reads of the job: the expression snapshot of \<open>context_eval.rs\<close> and \<open>step_state.rs\<close>,
  template tokens rendered to text (\<open>step_env.rs\<close>), \<open>timeout-minutes\<close> and \<open>continue-on-error\<close>
  (\<open>step_attrs.rs\<close>), display names (\<open>step_display.rs\<close>) and the job's outputs and defaults (\<open>job_spec.rs\<close>),
  all under \<open>crates/execution/src/execution/\<close>, with the errors of \<open>crates/shared/src/error.rs\<close>.

  Objects built from a hash map list their keys in the map's iteration order, which Rust leaves open: it
  is the parameter \<open>sx_hash_keys\<close>. The text of an expression error is the parameter \<open>sx_error_text\<close>.
  A snapshot carries the next free object identity beside the context.
\<close>

subsection \<open>Errors\<close>

text \<open>\<open>RunnerError::Expression\<close> carries a text: \<open>Expression_Error\<close> is one of the engine's, \<open>Expression_Text\<close> one that
  the runner writes itself.\<close>

datatype action_fetch_kind = ResolveService | ArchiveStatus nat | ArchiveTransport | ArchiveContent

record action_fetch_error =
  af_kind :: action_fetch_kind
  af_message :: string

datatype runner_error =
    Expression_Error expr_error
  | Expression_Text string
  | Step_Execution string
  | Script_Handler string
  | File_Command string
  | Protocol string
  | Action_Resolution string
  | Action_Download string
  | Action_Fetch action_fetch_error
  | Action_Manifest string
  | Node_Runtime string
  | Node_Handler string
  | Docker_Error string
  | Oidc_Error string
  | Artifact_Error string
  | Cache_Error string
  | Reporting_Error string
  | Auth_Error string
  | Network_Error string
  | Session_Conflict string
  | Config_Error string
  | Workspace_Init string string
  | Lock_Held nat string string
  | Job_Cancelled
  | Io_Error string
  | Json_Failure string

record step_externs =
  sx_expr :: externs
  sx_hash_keys :: "(string \<Rightarrow> bool) \<Rightarrow> string list"
  sx_error_text :: "expr_error \<Rightarrow> string"

fun runner_error_text :: "step_externs \<Rightarrow> runner_error \<Rightarrow> string" where
  "runner_error_text X (Expression_Error e) = ''expression evaluation failed: '' @ sx_error_text X e"
| "runner_error_text X (Expression_Text m) = ''expression evaluation failed: '' @ m"
| "runner_error_text X (Step_Execution m) = ''step execution failed: '' @ m"
| "runner_error_text X (Script_Handler m) = ''script handler error: '' @ m"
| "runner_error_text X (File_Command m) = ''file command error: '' @ m"
| "runner_error_text X (Protocol m) = ''protocol error: '' @ m"
| "runner_error_text X (Action_Resolution m) = ''action resolution failed: '' @ m"
| "runner_error_text X (Action_Download m) = ''action download failed: '' @ m"
| "runner_error_text X (Action_Fetch f) = ''action download failed: '' @ af_message f"
| "runner_error_text X (Action_Manifest m) = ''action manifest error: '' @ m"
| "runner_error_text X (Node_Runtime m) = ''node runtime error: '' @ m"
| "runner_error_text X (Node_Handler m) = ''node handler error: '' @ m"
| "runner_error_text X (Docker_Error m) = ''docker error: '' @ m"
| "runner_error_text X (Oidc_Error m) = ''OIDC error: '' @ m"
| "runner_error_text X (Artifact_Error m) = ''artifact service error: '' @ m"
| "runner_error_text X (Cache_Error m) = ''cache service error: '' @ m"
| "runner_error_text X (Reporting_Error m) = ''reporting error: '' @ m"
| "runner_error_text X (Auth_Error m) = ''auth error: '' @ m"
| "runner_error_text X (Network_Error m) = ''network error: '' @ m"
| "runner_error_text X (Session_Conflict m) = ''another runner session is active for this registration: '' @ m"
| "runner_error_text X (Config_Error m) = ''config error: '' @ m"
| "runner_error_text X (Workspace_Init p m) = ''workspace init failed at '' @ p @ '': '' @ m"
| "runner_error_text X (Lock_Held pid started _) =
     ''runner is already running as PID '' @ show_nat pid @ '' (started '' @ started @ '') '' @ map char_of [226, 128, 148 :: nat] @ '' exiting''"
| "runner_error_text X Job_Cancelled = ''job cancelled''"
| "runner_error_text X (Io_Error m) = ''IO error: '' @ m"
| "runner_error_text X (Json_Failure m) = ''JSON error: '' @ m"

definition infrastructure_category :: "action_fetch_error \<Rightarrow> string option" where
  "infrastructure_category f = (case af_kind f of
       ResolveService \<Rightarrow> Some ''resolve_action''
     | ArchiveStatus code \<Rightarrow> if code = 403 then None else Some ''error_download_action''
     | ArchiveTransport \<Rightarrow> Some ''error_download_action''
     | ArchiveContent \<Rightarrow> Some ''invalid_action_download'')"

subsection \<open>Expression snapshots\<close>

type_synonym snapshot = "eval_context \<times> nat"

definition job_status_str :: "job_status \<Rightarrow> string" where
  "job_status_str s = (case s of Success \<Rightarrow> ''success'' | Failure \<Rightarrow> ''failure'' | Cancelled \<Rightarrow> ''cancelled'')"

definition string_map_to_obj :: "step_externs \<Rightarrow> (string \<rightharpoonup> string) \<Rightarrow> (string \<times> expr_value) list" where
  "string_map_to_obj X m = map (\<lambda>k. (k, Str (the (m k)))) (sx_hash_keys X (\<lambda>k. m k \<noteq> None))"

definition build_steps_context :: "step_externs \<Rightarrow> nat \<Rightarrow> (string \<rightharpoonup> step_state) \<Rightarrow> expr_value \<times> nat" where
  "build_steps_context X n steps =
     (let result = (\<lambda>c. Str (case c of Some c \<Rightarrow> conclusion_to_string c | None \<Rightarrow> []));
          (objs, n) = fold (\<lambda>k (objs, n).
             let state = the (steps k)
             in (objs @ [(k, Object (n + 1) [(''outputs'', Object n (string_map_to_obj X (ss_outputs state))),
                   (''outcome'', result (ss_outcome state)), (''conclusion'', result (ss_conclusion state))])], n + 2))
            (sx_hash_keys X (\<lambda>k. steps k \<noteq> None)) ([], n)
      in (Object n objs, n + 1))"

definition steps_context :: "step_externs \<Rightarrow> nat \<Rightarrow> exec_context \<Rightarrow> expr_value \<times> nat" where
  "steps_context X n ctx =
     (case current_steps ctx of Some steps \<Rightarrow> build_steps_context X n steps | None \<Rightarrow> (Object n [], n + 1))"

definition scoped_github_context :: "exec_context \<Rightarrow> (string \<times> expr_value) list" where
  "scoped_github_context ctx =
     (let github = ec_github ctx;
          github = (case ec_scoped_action_paths ctx (ec_scope_path ctx) of
              Some p \<Rightarrow> index_insert ''action_path'' (Str p) github | None \<Rightarrow> github)
      in case ec_scoped_status ctx (ec_scope_path ctx) of
           Some status \<Rightarrow> index_insert ''action_status'' (Str (job_status_str status)) github | None \<Rightarrow> github)"

definition github_expression_context :: "exec_context \<Rightarrow> (string \<times> expr_value) list" where
  "github_expression_context ctx =
     (case ec_container ctx of
        None \<Rightarrow> scoped_github_context ctx
      | Some c \<Rightarrow> map (\<lambda>(k, v). if k = ''workspace'' \<or> k = ''action_path''
                   then (k, case v of Str s \<Rightarrow> Str (translate_value (jc_translator c) s) | _ \<Rightarrow> v) else (k, v))
                 (scoped_github_context ctx))"

definition env_expression_context :: "step_externs \<Rightarrow> exec_context \<Rightarrow> (string \<times> expr_value) list" where
  "env_expression_context X ctx =
     (let env = visible_env ctx
      in map (\<lambda>k. (k, Str (case ec_container ctx of None \<Rightarrow> the (env k)
                             | Some c \<Rightarrow> translate_env (jc_translator c) k (the (env k)))))
           (sx_hash_keys X (\<lambda>k. env k \<noteq> None)))"

definition job_context :: "nat \<Rightarrow> exec_context \<Rightarrow> expr_value \<times> nat" where
  "job_context n ctx =
     (Object (n + 2)
        [(''status'', Str (job_status_str (live_job_status ctx))),
         (''container'', (case ec_container ctx of None \<Rightarrow> Null
            | Some c \<Rightarrow> Object n [(''id'', Str (jc_id c)), (''network'', Str (jc_network c))])),
         (''services'', Object (n + 1) (case ec_services ctx of Some s \<Rightarrow> s | None \<Rightarrow> []))],
      n + 3)"

definition take_snapshot :: "step_externs \<Rightarrow> exec_context \<Rightarrow> snapshot" where
  "take_snapshot X ctx =
     (let n = ec_next_ref ctx;
          cs = ec_incoming_contexts ctx;
          cs = (case ec_scoped_inputs ctx (ec_scope_path ctx) of
                  Some inputs \<Rightarrow> index_insert ''inputs'' (Object n (string_map_to_obj X inputs)) cs | None \<Rightarrow> cs);
          cs = index_insert ''github'' (Object (n + 1) (github_expression_context ctx)) cs;
          cs = index_insert ''env'' (Object (n + 2) (env_expression_context X ctx)) cs;
          cs = index_insert ''runner'' (Object (n + 3) (ec_runner ctx)) cs;
          cs = index_insert ''secrets'' (Object (n + 4) (string_map_to_obj X (ec_secrets ctx))) cs;
          cs = index_insert ''vars'' (Object (n + 5) (string_map_to_obj X (ec_vars ctx))) cs;
          (steps, n) = steps_context X (n + 6) ctx;
          cs = index_insert ''steps'' steps cs;
          (job, n) = job_context n ctx;
          cs = index_insert ''job'' job cs
      in (\<lparr>contexts = cs, job_status = scoped_job_status ctx, workspace = map_option path_text (ec_workspace ctx)\<rparr>, n))"

definition evaluate_with :: "step_externs \<Rightarrow> snapshot \<Rightarrow> string \<Rightarrow> (runner_error, expr_value) result" where
  "evaluate_with X snap e =
     (case evaluate (sx_expr X) (fst snap) e (snd snap) of Inr (v, _) \<Rightarrow> Ok v | Inl err \<Rightarrow> Err (Expression_Error err))"

definition evaluate_expression :: "step_externs \<Rightarrow> exec_context \<Rightarrow> string \<Rightarrow> (runner_error, expr_value) result" where
  "evaluate_expression X ctx e = evaluate_with X (take_snapshot X ctx) e"

definition interpolate_with :: "step_externs \<Rightarrow> snapshot \<Rightarrow> string \<Rightarrow> (runner_error, string) result" where
  "interpolate_with X snap input =
     (if \<not> contains_block input ''${{'' then Ok input
      else case interpolate (sx_expr X) (fst snap) input (snd snap) of
             Inr (s, _) \<Rightarrow> Ok s | Inl err \<Rightarrow> Err (Expression_Error err))"

subsection \<open>Tokens as text\<close>

definition env_token_to_string :: "step_externs \<Rightarrow> snapshot \<Rightarrow> template_token \<Rightarrow> (runner_error, string) result" where
  "env_token_to_string X snap t =
     (if tt_type t = 0 then interpolate_with X snap (case tt_lit t of Some s \<Rightarrow> s | None \<Rightarrow> [])
         else if tt_type t = 3
         then rbind (evaluate_with X snap (case tt_expr t of Some s \<Rightarrow> s | None \<Rightarrow> [])) (\<lambda>v. Ok (coerce_to_string v))
         else if tt_type t = 5 then Ok (coerce_to_string (Bool (case tt_bool t of Some b \<Rightarrow> b | None \<Rightarrow> False)))
         else if tt_type t = 6 then Ok (coerce_to_string (Num (case tt_num t of Some n \<Rightarrow> n | None \<Rightarrow> f64_zero)))
         else Ok [])"

fun resolve_env_entries ::
  "step_externs \<Rightarrow> snapshot \<Rightarrow> (template_token \<times> template_token) list \<Rightarrow> (string \<rightharpoonup> string) \<Rightarrow> (runner_error, string \<rightharpoonup> string) result" where
  "resolve_env_entries X snap [] env = Ok env"
| "resolve_env_entries X snap ((k, v) # es) env =
     (case to_string_value k of
        None \<Rightarrow> resolve_env_entries X snap es env
      | Some key \<Rightarrow> rbind (env_token_to_string X snap v) (\<lambda>s. resolve_env_entries X snap es (env(key \<mapsto> s))))"

definition resolve_step_env :: "step_externs \<Rightarrow> action_step \<Rightarrow> snapshot \<Rightarrow> (runner_error, string \<rightharpoonup> string) result" where
  "resolve_step_env X step snap =
     (case as_environment step of
        None \<Rightarrow> Ok Map.empty
      | Some t \<Rightarrow> resolve_env_entries X snap (dict_entries t) Map.empty)"

subsection \<open>Timeouts and continue-on-error\<close>

definition MAX_TIMEOUT_MINUTES :: f64 where "MAX_TIMEOUT_MINUTES = f64_of_int 71582"

datatype step_attr_error =
    Attr_Template "int option" "int option" "int option" string
  | Timeout_Out_Of_Range f64

definition attr_error_at :: "template_token \<Rightarrow> string \<Rightarrow> step_attr_error" where
  "attr_error_at t message = Attr_Template (tt_file t) (tt_line t) (tt_col t) message"

definition show_int :: "int \<Rightarrow> string" where
  "show_int i = (if i < 0 then ''-'' @ show_nat (nat (- i)) else show_nat (nat i))"

fun render_attr_error :: "json list \<Rightarrow> step_attr_error \<Rightarrow> string" where
  "render_attr_error file_table (Attr_Template file line col message) =
     (let name = (case file of
            Some i \<Rightarrow> (if 1 \<le> i \<and> nat (i - 1) < length file_table
                      then (case file_table ! nat (i - 1) of J_String s \<Rightarrow> Some s | _ \<Rightarrow> None) else None)
          | None \<Rightarrow> None);
          pos = (\<lambda>l c. ''(Line: '' @ show_int l @ '', Col: '' @ show_int c @ ''): '');
          prefix = (case (name, line, col) of
              (Some n, Some l, Some c) \<Rightarrow> n @ '' '' @ pos l c
            | (Some n, _, _) \<Rightarrow> n @ '': ''
            | (None, Some l, Some c) \<Rightarrow> pos l c
            | _ \<Rightarrow> [])
      in ''The template is not valid. '' @ prefix @ message)"
| "render_attr_error _ (Timeout_Out_Of_Range minutes) =
     ''The step timeout of '' @ coerce_to_string (Num minutes) @ '' minutes is out of range; the maximum is ''
     @ coerce_to_string (Num MAX_TIMEOUT_MINUTES) @ '' minutes.''"

definition resolve_attr :: "step_externs \<Rightarrow> exec_context \<Rightarrow> template_token \<Rightarrow> (step_attr_error, expr_value) result" where
  "resolve_attr X ctx t =
     (if tt_type t = 0 then Ok (Str (case tt_lit t of Some s \<Rightarrow> s | None \<Rightarrow> []))
      else if tt_type t = 1 then Err (attr_error_at t ''A sequence was not expected'')
      else if tt_type t = 2 then Err (attr_error_at t ''A mapping was not expected'')
      else if tt_type t = 3
      then (case evaluate_expression X ctx (case tt_expr t of Some s \<Rightarrow> s | None \<Rightarrow> []) of
              Inr v \<Rightarrow> Ok v
            | Inl (Expression_Error e) \<Rightarrow> Err (attr_error_at t (sx_error_text X e))
            | Inl e \<Rightarrow> Err (attr_error_at t (runner_error_text X e)))
      else if tt_type t = 5 then Ok (Bool (case tt_bool t of Some b \<Rightarrow> b | None \<Rightarrow> False))
      else if tt_type t = 6 then Ok (Num (case tt_num t of Some n \<Rightarrow> n | None \<Rightarrow> f64_zero))
      else Ok Null)"

definition unexpected_attr :: "template_token \<Rightarrow> expr_value \<Rightarrow> step_attr_error" where
  "unexpected_attr t v = attr_error_at t (case v of
       Array _ _ _ \<Rightarrow> ''A sequence was not expected''
     | Object _ _ \<Rightarrow> ''A mapping was not expected''
     | _ \<Rightarrow> ''Unexpected value '' @ in_quotes (coerce_to_string v))"

text \<open>\<open>f64::trunc\<close>, and the whole number a truncated value is.\<close>

fun f64_trunc :: "f64 \<Rightarrow> f64" where
  "f64_trunc (F_Fin s m e) = (if 0 \<le> e then F_Fin s m e else f64_round s (m div 2 ^ nat (- e)) 1)"
| "f64_trunc n = n"

fun f64_floor_nat :: "f64 \<Rightarrow> nat" where
  "f64_floor_nat (F_Fin s m e) = (if s then 0 else if 0 \<le> e then m * 2 ^ nat e else m div 2 ^ nat (- e))"
| "f64_floor_nat _ = 0"

text \<open>The timeout in seconds.\<close>

definition evaluate_timeout ::
  "step_externs \<Rightarrow> template_token option \<Rightarrow> exec_context \<Rightarrow> (step_attr_error, nat option) result" where
  "evaluate_timeout X token ctx =
     (case token of
        None \<Rightarrow> Ok None
      | Some t \<Rightarrow>
          if tt_type t = 7 then Ok None
          else rbind (resolve_attr X ctx t) (\<lambda>v. case v of
                 Num n \<Rightarrow>
                   let minutes = f64_trunc n
                   in if \<not> is_finite_f64 minutes \<or> partial_cmp minutes MAX_TIMEOUT_MINUTES = Some Greater
                      then Err (Timeout_Out_Of_Range minutes)
                      else Ok (if partial_cmp minutes f64_zero = Some Greater then Some (f64_floor_nat minutes * 60) else None)
               | _ \<Rightarrow> Err (unexpected_attr t v)))"

definition evaluate_continue_on_error ::
  "step_externs \<Rightarrow> template_token option \<Rightarrow> exec_context \<Rightarrow> (step_attr_error, bool) result" where
  "evaluate_continue_on_error X token ctx =
     (case token of
        None \<Rightarrow> Ok False
      | Some t \<Rightarrow>
          if tt_type t = 7 then Ok False
          else rbind (resolve_attr X ctx t) (\<lambda>v. case v of Bool b \<Rightarrow> Ok b | _ \<Rightarrow> Err (unexpected_attr t v)))"

definition TIMEOUT_ERROR_PREFACE :: string where
  "TIMEOUT_ERROR_PREFACE = ''An error occurred when attempting to determine the step timeout.''"

definition CONTINUE_ON_ERROR_PREFACE :: string where
  "CONTINUE_ON_ERROR_PREFACE =
     ''The step failed and an error occurred when attempting to determine whether to continue on error.''"

definition emit_errors :: "string \<Rightarrow> string list \<Rightarrow> runner_event list" where
  "emit_errors step_id lines = map (\<lambda>l. Log step_id (''##[error]'' @ l) Stdout) lines"

definition resolve_timeout ::
  "step_externs \<Rightarrow> string \<Rightarrow> template_token option \<Rightarrow> exec_context \<Rightarrow> nat option \<times> runner_event list" where
  "resolve_timeout X step_id token ctx =
     (case evaluate_timeout X token ctx of
        Inr timeout \<Rightarrow> (timeout, [])
      | Inl e \<Rightarrow> (None, emit_errors step_id [TIMEOUT_ERROR_PREFACE, render_attr_error (ec_file_table ctx) e]))"

definition resolve_continue_on_error ::
  "step_externs \<Rightarrow> string \<Rightarrow> template_token option \<Rightarrow> exec_context \<Rightarrow> bool \<times> runner_event list" where
  "resolve_continue_on_error X step_id token ctx =
     (case evaluate_continue_on_error X token ctx of
        Inr b \<Rightarrow> (b, [])
      | Inl e \<Rightarrow> (False, emit_errors step_id [CONTINUE_ON_ERROR_PREFACE, render_attr_error (ec_file_table ctx) e]))"

subsection \<open>Job outputs and defaults\<close>

record run_defaults =
  rd_shell :: "string option"
  rd_working_directory :: "string option"

fun mapping_keys :: "string \<Rightarrow> (template_token \<times> template_token) list \<Rightarrow> (runner_error, (string \<times> template_token) list) result" where
  "mapping_keys path [] = Ok []"
| "mapping_keys path ((k, v) # es) =
     (case to_string_value k of
        None \<Rightarrow> Err (Protocol (path @ '' key must be literal''))
      | Some name \<Rightarrow> rbind (mapping_keys path es) (\<lambda>r. Ok ((name, v) # r)))"

definition mapping_entries :: "template_token \<Rightarrow> string \<Rightarrow> (runner_error, (string \<times> template_token) list) result" where
  "mapping_entries t path =
     (if tt_type t \<noteq> 2 then Err (Protocol (path @ '' must be a mapping token''))
      else case tt_d t of
             None \<Rightarrow> Err (Protocol (path @ '' mapping has no entries''))
           | Some es \<Rightarrow> mapping_keys path es)"

definition is_scalar_token :: "template_token \<Rightarrow> bool" where
  "is_scalar_token t \<longleftrightarrow> tt_type t \<in> {0, 3, 5, 6, 7}"

definition parse_default_value :: "step_externs \<Rightarrow> snapshot \<Rightarrow> string \<Rightarrow> template_token \<Rightarrow> (runner_error, string option) result" where
  "parse_default_value X snap name t =
     (if \<not> is_scalar_token t then Err (Protocol (''defaults.run.'' @ name @ '' must be a scalar token''))
      else rbind (env_token_to_string X snap t) (\<lambda>v. Ok (if v = [] then None else Some v)))"

fun parse_run_entries ::
  "step_externs \<Rightarrow> snapshot \<Rightarrow> (string \<times> template_token) list \<Rightarrow> run_defaults \<Rightarrow> (runner_error, run_defaults) result" where
  "parse_run_entries X snap [] resolved = Ok resolved"
| "parse_run_entries X snap ((name, t) # es) resolved =
     (if eq_ignore_ascii_case name ''shell''
      then rbind (parse_default_value X snap ''shell'' t) (\<lambda>v. parse_run_entries X snap es (resolved\<lparr>rd_shell := v\<rparr>))
      else if eq_ignore_ascii_case name ''working-directory''
      then rbind (parse_default_value X snap ''working-directory'' t)
             (\<lambda>v. parse_run_entries X snap es (resolved\<lparr>rd_working_directory := v\<rparr>))
      else parse_run_entries X snap es resolved)"

definition no_defaults :: run_defaults where
  "no_defaults = \<lparr>rd_shell = None, rd_working_directory = None\<rparr>"

definition parse_run_mapping :: "step_externs \<Rightarrow> snapshot \<Rightarrow> template_token \<Rightarrow> (runner_error, run_defaults) result" where
  "parse_run_mapping X snap t =
     rbind (mapping_entries t ''defaults.run'') (\<lambda>es. parse_run_entries X snap es no_defaults)"

fun default_layer ::
  "step_externs \<Rightarrow> snapshot \<Rightarrow> (string \<times> template_token) list \<Rightarrow> run_defaults \<Rightarrow> (runner_error, run_defaults) result" where
  "default_layer X snap [] resolved = Ok resolved"
| "default_layer X snap ((name, t) # es) resolved =
     (if eq_ignore_ascii_case name ''run''
      then rbind (parse_run_mapping X snap t) (default_layer X snap es)
      else default_layer X snap es resolved)"

fun default_layers :: "step_externs \<Rightarrow> snapshot \<Rightarrow> template_token list \<Rightarrow> run_defaults \<Rightarrow> (runner_error, run_defaults) result" where
  "default_layers X snap [] resolved = Ok resolved"
| "default_layers X snap (t # ts) resolved =
     rbind (mapping_entries t ''defaults'') (\<lambda>es. rbind (default_layer X snap es resolved) (default_layers X snap ts))"

definition from_message_defaults :: "step_externs \<Rightarrow> template_token list \<Rightarrow> exec_context \<Rightarrow> (runner_error, run_defaults) result" where
  "from_message_defaults X defaults ctx = default_layers X (take_snapshot X ctx) defaults no_defaults"

record acquired_outputs =
  ao_outputs :: "(string \<times> string) list"
  ao_skipped_secret_names :: "string list"
  ao_error :: "runner_error option"

datatype acquired_value = Acq_Empty | Acq_Secret | Acq_Value string

definition evaluate_acquired_value ::
  "step_externs \<Rightarrow> exec_context \<Rightarrow> snapshot \<Rightarrow> string \<Rightarrow> template_token \<Rightarrow> (runner_error, acquired_value) result" where
  "evaluate_acquired_value X ctx snap name t =
     (if \<not> is_scalar_token t then Err (Protocol (''jobOutputs.'' @ name @ '' must be a scalar token''))
      else rbind (env_token_to_string X snap t) (\<lambda>value.
             if value = [] then Ok Acq_Empty
             else if mask (ec_masker ctx) value = value then Ok (Acq_Value value) else Ok Acq_Secret))"

definition insert_output :: "(string \<times> string) list \<Rightarrow> string \<Rightarrow> string \<Rightarrow> (string \<times> string) list" where
  "insert_output outputs name value =
     (case find (\<lambda>(k, _). eq_ignore_ascii_case k name) outputs of
        Some (existing, _) \<Rightarrow> index_insert existing value outputs
      | None \<Rightarrow> index_insert name value outputs)"

fun acquire_outputs ::
  "step_externs \<Rightarrow> exec_context \<Rightarrow> snapshot \<Rightarrow> (string \<times> template_token) list \<Rightarrow> acquired_outputs \<Rightarrow> acquired_outputs" where
  "acquire_outputs X ctx snap [] r = r"
| "acquire_outputs X ctx snap ((name, t) # es) r =
     (if name = [] then acquire_outputs X ctx snap es r
      else case evaluate_acquired_value X ctx snap name t of
             Inr Acq_Empty \<Rightarrow> acquire_outputs X ctx snap es r
           | Inr Acq_Secret \<Rightarrow> acquire_outputs X ctx snap es (r\<lparr>ao_skipped_secret_names := ao_skipped_secret_names r @ [name]\<rparr>)
           | Inr (Acq_Value value) \<Rightarrow> acquire_outputs X ctx snap es (r\<lparr>ao_outputs := insert_output (ao_outputs r) name value\<rparr>)
           | Inl e \<Rightarrow> r\<lparr>ao_error := Some e\<rparr>)"

definition evaluate_acquired_outputs :: "step_externs \<Rightarrow> template_token \<Rightarrow> exec_context \<Rightarrow> acquired_outputs" where
  "evaluate_acquired_outputs X t ctx =
     (let r = \<lparr>ao_outputs = [], ao_skipped_secret_names = [], ao_error = None\<rparr>
      in case mapping_entries t ''jobOutputs'' of
           Inl e \<Rightarrow> r\<lparr>ao_error := Some e\<rparr>
         | Inr es \<Rightarrow> acquire_outputs X ctx (take_snapshot X ctx) es r)"

subsection \<open>Job outputs carry no secret\<close>

text \<open>
  Redaction never adds a character other than an asterisk, and drops every covered one: text that
  redaction leaves alone has no other character in a covered position.
\<close>

lemma collapse_shrinks:
  "length (filter (\<lambda>c. c \<noteq> CHR ''*'') (collapse cov i prev s)) \<le> length (filter (\<lambda>c. c \<noteq> CHR ''*'') s)"
proof (induction s arbitrary: i prev)
  case (Cons c s)
  from Cons.IH [of "Suc i" "cov i"] show ?case by auto
qed simp

lemma collapse_drops_covered:
  "j < length s \<Longrightarrow> cov (i + j) \<Longrightarrow> s ! j \<noteq> CHR ''*'' \<Longrightarrow>
   length (filter (\<lambda>c. c \<noteq> CHR ''*'') (collapse cov i prev s)) < length (filter (\<lambda>c. c \<noteq> CHR ''*'') s)"
proof (induction s arbitrary: i j prev)
  case (Cons c s)
  show ?case
  proof (cases j)
    case 0
    with Cons.prems collapse_shrinks [of cov "Suc i" "cov i" s] show ?thesis by auto
  next
    case (Suc k)
    with Cons.prems Cons.IH [of k "Suc i" "cov i"] show ?thesis by auto
  qed
qed simp

lemma redact_fixpoint:
  assumes "redact ps s = s" "p \<in> set ps" "sublist p s" "c \<in> set p"
  shows "c = CHR ''*''"
proof (rule ccontr)
  assume c: "c \<noteq> CHR ''*''"
  from assms(3) obtain a b where s: "s = a @ p @ b" by (auto simp: sublist_def)
  from assms(4) obtain k where k: "k < length p" "p ! k = c" by (auto simp: in_set_conv_nth)
  let ?j = "length a + k"
  have "occurs_at p s (length a)" by (auto simp: occurs_at_append s)
  then have "covered ps s ?j" using assms(2) k(1) by (auto simp: covered_iff intro!: bexI [of _ p] exI [of _ "length a"])
  moreover have "?j < length s" "s ! ?j = c" using k by (simp_all add: s nth_append)
  ultimately show False
    using collapse_drops_covered [of ?j s "covered ps s" 0 False] c assms(1) by (simp add: redact_def)
qed

lemma insert_output_values:
  assumes "\<forall>kv \<in> set outputs. P (snd kv)" "P v"
  shows "\<forall>kv \<in> set (insert_output outputs name v). P (snd kv)"
proof -
  have "\<forall>kv \<in> set m. P (snd kv) \<Longrightarrow> \<forall>kv \<in> set (index_insert k v m). P (snd kv)" for k and m :: "(string \<times> string) list"
    using assms(2) by (induction m) (fastforce split: if_splits)+
  with assms(1) show ?thesis unfolding insert_output_def by (fastforce split: option.splits)
qed

lemma acquire_outputs_unmasked:
  assumes "\<forall>kv \<in> set (ao_outputs r). mask (ec_masker ctx) (snd kv) = snd kv"
  shows "\<forall>kv \<in> set (ao_outputs (acquire_outputs X ctx snap es r)). mask (ec_masker ctx) (snd kv) = snd kv"
  using assms
proof (induction es arbitrary: r)
  case (Cons e es)
  obtain name t where e: "e = (name, t)" by force
  let ?v = "evaluate_acquired_value X ctx snap name t"
  have accepted: "mask (ec_masker ctx) v = v" if "?v = Inr (Acq_Value v)" for v
    using that by (auto simp: evaluate_acquired_value_def rbind_eq_Ok split: if_splits)
  consider "name = []" | err where "name \<noteq> []" "?v = Inl err" | "name \<noteq> []" "?v = Inr Acq_Empty"
    | "name \<noteq> []" "?v = Inr Acq_Secret" | v where "name \<noteq> []" "?v = Inr (Acq_Value v)"
    by (metis acquired_value.exhaust sum.exhaust)
  then show ?case
  proof cases
    case (5 v)
    have "\<forall>kv \<in> set (insert_output (ao_outputs r) name v). mask (ec_masker ctx) (snd kv) = snd kv"
      using Cons.prems accepted [OF 5(2)] by (rule insert_output_values)
    then show ?thesis
      using Cons.IH [of "r\<lparr>ao_outputs := insert_output (ao_outputs r) name v\<rparr>"] by (simp add: e 5)
  next
    case 4
    then show ?thesis
      using Cons.IH [of "r\<lparr>ao_skipped_secret_names := ao_skipped_secret_names r @ [name]\<rparr>"] Cons.prems by (simp add: e)
  qed (use Cons.prems in \<open>simp_all add: e Cons.IH\<close>)
qed simp

text \<open>
  C32. A job never publishes a secret as an output: whatever its output expressions evaluate to, no
  accepted value contains a registered pattern, patterns made only of asterisks apart.
\<close>

theorem job_outputs_carry_no_secret:
  assumes "masker_env M" and "\<forall>op \<in> set ops. \<forall>v \<in> set (op_values op). valid_utf8 v"
    and "ec_masker ctx = register M ops new_masker" and "automaton (ec_masker ctx) \<noteq> None"
    and "(name, v) \<in> set (ao_outputs (evaluate_acquired_outputs X t ctx))" and "valid_utf8 v"
    and "p \<in> set (patterns (ec_masker ctx))" and "sublist p v"
  shows "set p \<subseteq> {CHR ''*''}"
proof -
  have "masker_ok M new_masker" by (simp add: masker_ok_def patterns_ok_def new_masker_def)
  then have ok: "masker_ok M (ec_masker ctx)" using masker_env.register_ok assms(1,2,3) by metis
  have "\<forall>kv \<in> set (ao_outputs (evaluate_acquired_outputs X t ctx)). mask (ec_masker ctx) (snd kv) = snd kv"
    unfolding evaluate_acquired_outputs_def Let_def
    by (cases "mapping_entries t ''jobOutputs''") (simp, simp only: sum.case, rule acquire_outputs_unmasked, simp)
  then have "mask (ec_masker ctx) v = v" using assms(5) by force
  then have "redact (patterns (ec_masker ctx)) v = v"
    using masker_env.mask_redact [OF assms(1) ok] assms(4,6) by simp
  then show ?thesis using redact_fixpoint assms(7,8) by blast
qed

theorem job_outputs_carry_no_secret_witness:
  "\<exists>ctx v. (''o'', v) \<in> set (ao_outputs (evaluate_acquired_outputs
        \<lparr>sx_expr = plain_externs, sx_hash_keys = (\<lambda>P. filter P []), sx_error_text = (\<lambda>_. [])\<rparr>
        (Template_Token 2 None None None None
           (Some [(token_literal ''o'', token_literal ''ok''), (token_literal ''s'', token_literal ''=pw9'')]) None None None None) ctx))
     \<and> ''pw9'' \<in> set (patterns (ec_masker ctx)) \<and> \<not> sublist ''pw9'' v"
proof -
  let ?X = "\<lparr>sx_expr = plain_externs, sx_hash_keys = (\<lambda>P. filter P []), sx_error_text = (\<lambda>_. [])\<rparr>"
  let ?t = "Template_Token 2 None None None None
     (Some [(token_literal ''o'', token_literal ''ok''), (token_literal ''s'', token_literal ''=pw9'')]) None None None None"
  let ?ctx = "new_context (register plain_masker_externs [Add_mask ''pw9''] new_masker) ''Linux'' ''X64''"
  have acc: "(''o'', ''ok'') \<in> set (ao_outputs (evaluate_acquired_outputs ?X ?t ?ctx))" by code_simp
  have pat: "''pw9'' \<in> set (patterns (ec_masker ?ctx))" by code_simp
  have ops: "\<forall>op \<in> set [Add_mask ''pw9'']. \<forall>v \<in> set (op_values op). valid_utf8 v" "valid_utf8 ''ok''" by code_simp+
  have masker: "ec_masker ?ctx = register plain_masker_externs [Add_mask ''pw9''] new_masker" by (simp add: new_context_def)
  have "trim ''pw9'' = ''pw9''" by code_simp
  then have auto: "automaton (ec_masker ?ctx) \<noteq> None"
    by (simp add: new_context_def register_def add_mask_def rebuild_automaton_def plain_masker_externs_def)
  have "\<not> sublist ''pw9'' ''ok''"
    using job_outputs_carry_no_secret [OF plain.masker_env_axioms ops(1) masker auto acc ops(2) pat] by auto
  with acc pat show ?thesis by blast
qed

end
