(* ===== verification/Step_Display.thy ===== *)
theory Step_Display
  imports Step_Context
begin

text \<open>
  Display names (\<open>crates/execution/src/execution/step_display.rs\<close>): every step is named once from what the
  job message holds, then once more, while still unevaluated, right before its condition.
\<close>

subsection \<open>Generation\<close>

definition FALLBACK_NAME :: string where "FALLBACK_NAME = ''run''"

definition RUN_PREFIX :: string where "RUN_PREFIX = ''Run ''"

definition STEP_CONTEXTS :: "string list" where
  "STEP_CONTEXTS = [''env'', ''steps'', ''runner'', ''secrets'']"

definition WELL_KNOWN_FUNCTIONS :: "string list" where
  "WELL_KNOWN_FUNCTIONS =
     [''case'', ''contains'', ''endsWith'', ''format'', ''fromJSON'', ''join'', ''startsWith'', ''toJSON'']"

definition STEP_FUNCTIONS :: "string list" where
  "STEP_FUNCTIONS = [''always'', ''cancelled'', ''failure'', ''success'', ''hashFiles'']"

datatype generated = Gen_Evaluated string | Gen_Pending string | Gen_Failed string

definition display_failed :: "template_token \<Rightarrow> exec_context \<Rightarrow> string \<Rightarrow> generated" where
  "display_failed t ctx message =
     (let written = (if tt_type t = 3 \<and> tt_expr t \<noteq> None then ''${{ '' @ the (tt_expr t) @ '' }}''
                     else case tt_lit t of Some l \<Rightarrow> l | None \<Rightarrow> [])
      in Gen_Failed (''Encountered an error when evaluating display name '' @ written @ ''. ''
           @ render_attr_error (ec_file_table ctx) (attr_error_at t message)))"

definition error_message :: "step_externs \<Rightarrow> runner_error \<Rightarrow> string" where
  "error_message X e = (case e of Expression_Error err \<Rightarrow> sx_error_text X err | _ \<Rightarrow> runner_error_text X e)"

definition source_token :: "action_step \<Rightarrow> template_token" where
  "source_token step =
     (let opt = (\<lambda>x. case x of Some s \<Rightarrow> s | None \<Rightarrow> []); r = as_reference step
      in if is_run_step step
         then (case to_map (as_inputs step) ''script'' of Some t \<Rightarrow> t | None \<Rightarrow> token_literal [])
         else if (case ref_type r of Some kind \<Rightarrow> eq_ignore_ascii_case kind ''containerRegistry'' | None \<Rightarrow> False)
         then token_literal (opt (ref_image r))
         else
           let name = opt (ref_name r);
               path = (if opt (ref_path r) = [] then [] else if name = [] then opt (ref_path r) else ''/'' @ opt (ref_path r))
           in token_literal (if opt (ref_git_ref r) = [] then name @ path else name @ path @ ''@'' @ opt (ref_git_ref r)))"

definition evaluate_display ::
  "step_externs \<Rightarrow> template_token \<Rightarrow> exec_context \<Rightarrow> snapshot \<Rightarrow> bool \<Rightarrow> generated" where
  "evaluate_display X t ctx snap step_functions =
     (if tt_type t = 0 then Gen_Evaluated (case tt_lit t of Some s \<Rightarrow> s | None \<Rightarrow> [])
      else if tt_type t = 1 then display_failed t ctx ''A sequence was not expected''
      else if tt_type t = 2 then display_failed t ctx ''A mapping was not expected''
      else if tt_type t = 3
      then let expression = (case tt_expr t of Some s \<Rightarrow> s | None \<Rightarrow> [])
           in case references_of expression of
                Inl e \<Rightarrow> display_failed t ctx (sx_error_text X e)
              | Inr found \<Rightarrow>
                  let known = WELL_KNOWN_FUNCTIONS @ (if step_functions then STEP_FUNCTIONS else []);
                      functions_known = list_all (\<lambda>f. list_ex (\<lambda>k. eq_ignore_ascii_case k f) known) (ref_functions found);
                      contexts_present = list_all (\<lambda>c. list_ex (\<lambda>(k, _). eq_ignore_ascii_case k c) (contexts (fst snap)))
                                           (ref_contexts found)
                  in if \<not> (functions_known \<and> contexts_present) then Gen_Pending (display_string expression)
                     else (case evaluate_with X snap expression of
                             Inr (Array _ _ _) \<Rightarrow> display_failed t ctx ''A sequence was not expected''
                           | Inr (Object _ _) \<Rightarrow> display_failed t ctx ''A mapping was not expected''
                           | Inr v \<Rightarrow> Gen_Evaluated (coerce_to_string v)
                           | Inl e \<Rightarrow> display_failed t ctx (error_message X e))
      else if tt_type t = 5 then Gen_Evaluated (coerce_to_string (Bool (case tt_bool t of Some b \<Rightarrow> b | None \<Rightarrow> False)))
      else if tt_type t = 6 then Gen_Evaluated (coerce_to_string (Num (case tt_num t of Some n \<Rightarrow> n | None \<Rightarrow> f64_zero)))
      else Gen_Evaluated [])"

definition format_step_name :: "string \<Rightarrow> string \<Rightarrow> string" where
  "format_step_name lead content = (if content = [] then [] else lead @ first_line content)"

definition or_fallback :: "string \<Rightarrow> string" where
  "or_fallback name = (if name = [] then FALLBACK_NAME else name)"

definition generate :: "step_externs \<Rightarrow> action_step \<Rightarrow> exec_context \<Rightarrow> snapshot \<Rightarrow> bool \<Rightarrow> generated" where
  "generate X step ctx snap step_functions =
     (let (lead, t) = (case as_display_name_token step of Some t \<Rightarrow> ([], t) | None \<Rightarrow> (RUN_PREFIX, source_token step))
      in case evaluate_display X t ctx snap step_functions of
           Gen_Evaluated s \<Rightarrow> Gen_Evaluated (format_step_name lead s)
         | Gen_Pending s \<Rightarrow> Gen_Pending (format_step_name lead s)
         | Gen_Failed m \<Rightarrow> Gen_Failed m)"

definition initial_display :: "step_externs \<Rightarrow> action_step \<Rightarrow> exec_context \<Rightarrow> step_display \<times> string option" where
  "initial_display X step ctx =
     (let snap = take_snapshot X ctx;
          snap = ((fst snap)\<lparr>contexts := filter (\<lambda>(k, _). k \<notin> set STEP_CONTEXTS) (contexts (fst snap))\<rparr>, snd snap);
          (name, evaluated, warning) = (case generate X step ctx snap False of
              Gen_Evaluated name \<Rightarrow> (mask (ec_masker ctx) name, True, None)
            | Gen_Pending name \<Rightarrow> (name, False, None)
            | Gen_Failed w \<Rightarrow> ([], False, Some w));
          name = or_fallback name
      in (\<lparr>sd_initial = name, sd_current = name, sd_evaluated = evaluated\<rparr>, warning))"

definition display_for :: "step_externs \<Rightarrow> action_step \<Rightarrow> exec_context \<Rightarrow> step_display" where
  "display_for X step ctx =
     (case ec_step_displays ctx (as_id step) of Some d \<Rightarrow> d | None \<Rightarrow> fst (initial_display X step ctx))"

definition set_step_display :: "string \<Rightarrow> step_display \<Rightarrow> exec_context \<Rightarrow> exec_context" where
  "set_step_display i d ctx = ctx\<lparr>ec_step_displays := (ec_step_displays ctx)(i \<mapsto> d)\<rparr>"

definition display_warning :: "string \<Rightarrow> string \<Rightarrow> runner_event" where
  "display_warning i w = Log i (''##[warning]'' @ w) Stdout"

definition SETUP_STEP_ID :: string where "SETUP_STEP_ID = ''__toolu_setup_job''"

fun name_at_job_start :: "step_externs \<Rightarrow> action_step list \<Rightarrow> exec_context \<Rightarrow> runner_event list \<times> exec_context" where
  "name_at_job_start X [] ctx = ([], ctx)"
| "name_at_job_start X (step # steps) ctx =
     (let (display, warning) = initial_display X step ctx;
          events = (case warning of Some w \<Rightarrow> [display_warning SETUP_STEP_ID w] | None \<Rightarrow> []);
          (later, ctx') = name_at_job_start X steps (set_step_display (as_id step) display ctx)
      in (events @ later, ctx'))"

definition name_at_main :: "step_externs \<Rightarrow> action_step \<Rightarrow> exec_context \<Rightarrow> string \<times> string option \<times> exec_context" where
  "name_at_main X step ctx =
     (let display = display_for X step ctx;
          (display, warning) =
            (if sd_evaluated display then (display, None)
             else case generate X step ctx (take_snapshot X ctx) True of
                    Gen_Evaluated name \<Rightarrow>
                      (display\<lparr>sd_current := or_fallback (mask (ec_masker ctx) name), sd_evaluated := True\<rparr>, None)
                  | Gen_Pending _ \<Rightarrow> (display, None)
                  | Gen_Failed m \<Rightarrow> (display, Some m))
      in (sd_current display, warning, set_step_display (as_id step) display ctx))"

end
