(* ===== verification/Action_Ref.thy ===== *)
theory Action_Ref
  imports Step_Context
begin

text \<open>
  Action references (\<open>crates/execution/src/execution/actions/resolver.rs\<close>), the \<open>uses:\<close> text rebuilt from
  a step's wire fields (\<open>action_exec.rs\<close>) and the action identity the job context shows
  (\<open>action_metadata.rs\<close>).
\<close>

subsection \<open>References\<close>

datatype action_ref_kind = Remote | Local

record action_ref =
  ar_kind :: action_ref_kind
  ar_owner :: string
  ar_repo :: string
  ar_git_ref :: string
  ar_subpath :: "string option"
  ar_local_path :: "string option"

definition is_valid_repo_component :: "string \<Rightarrow> bool" where
  "is_valid_repo_component v \<longleftrightarrow> v \<notin> {[], ''.'', ''..''}
     \<and> list_all (\<lambda>b. is_ascii_alphanumeric b \<or> b \<in> {CHR ''-'', CHR ''_'', CHR ''.''}) v"

definition is_valid_git_ref :: "string \<Rightarrow> bool" where
  "is_valid_git_ref v \<longleftrightarrow> v \<noteq> [] \<and> list_all (\<lambda>part. part \<notin> {[], ''.'', ''..''}) (split_char (CHR ''/'') v)
     \<and> list_all (\<lambda>b. is_ascii_alphanumeric b \<or> b \<in> {CHR ''-'', CHR ''_'', CHR ''.'', CHR ''/''}) v"

text \<open>A path component that leaves the directory it is joined to: \<open>..\<close> or the root.\<close>

definition path_escapes :: "string \<Rightarrow> bool" where
  "path_escapes p \<longleftrightarrow> ''..'' \<in> set (components p) \<or> ''/'' \<in> set (components p)"

definition parse_subpath :: "string list \<Rightarrow> string \<Rightarrow> (runner_error, string option) result" where
  "parse_subpath parts uses =
     (if length parts \<le> 2 then Ok None
      else let joined = join_str ''/'' (drop 2 parts)
           in if path_escapes joined
              then Err (Action_Resolution (''invalid action ref '' @ in_quotes uses @ '': subpath escapes the action directory''))
              else Ok (Some joined))"

definition local_action_ref :: "string \<Rightarrow> action_ref" where
  "local_action_ref uses =
     \<lparr>ar_kind = Local, ar_owner = [], ar_repo = [], ar_git_ref = [], ar_subpath = None,
      ar_local_path = Some (if ends_with uses ''@'' then butlast uses else uses)\<rparr>"

definition parse_action_ref :: "string \<Rightarrow> (runner_error, action_ref) result" where
  "parse_action_ref uses =
     (if starts_with uses ''./'' then Ok (local_action_ref uses)
      else case split_once_char (CHR ''@'') uses of
             None \<Rightarrow> Err (Action_Resolution (''invalid action ref '' @ in_quotes uses @ '': missing @ref''))
           | Some (path_part, git_ref) \<Rightarrow>
               if \<not> is_valid_git_ref git_ref
               then Err (Action_Resolution (''invalid action ref '' @ in_quotes uses @ '': invalid git ref''))
               else let parts = split_char (CHR ''/'') path_part;
                        owner = (if parts = [] then [] else parts ! 0);
                        repo = (if length parts \<le> 1 then [] else parts ! 1)
                    in if \<not> is_valid_repo_component owner \<or> \<not> is_valid_repo_component repo
                       then Err (Action_Resolution (''invalid action ref '' @ in_quotes uses @ '': invalid owner or repo''))
                       else rbind (parse_subpath parts uses) (\<lambda>subpath.
                              Ok \<lparr>ar_kind = Remote, ar_owner = owner, ar_repo = repo, ar_git_ref = git_ref,
                                  ar_subpath = subpath, ar_local_path = None\<rparr>))"

definition cache_key :: "action_ref \<Rightarrow> string" where
  "cache_key r = ar_owner r @ ''/'' @ ar_repo r @ ''/'' @ ar_git_ref r"

definition tarball_url :: "string \<Rightarrow> action_ref \<Rightarrow> string" where
  "tarball_url api_base r =
     api_base @ ''/repos/'' @ ar_owner r @ ''/'' @ ar_repo r @ ''/tarball/'' @ ar_git_ref r"

definition local_dir :: "path \<Rightarrow> action_ref \<Rightarrow> path option" where
  "local_dir base r =
     Option.bind (ar_local_path r) (\<lambda>p. Option.bind (strip_prefix_str ''./'' p) (\<lambda>rel.
       if ''..'' \<in> set (components rel) then None else Some (path_join base (components rel))))"

definition trim_start_slash :: "string \<Rightarrow> string" where
  "trim_start_slash s = dropWhile (\<lambda>c. c = CHR ''/'') s"

definition SELF_REFERENCE_MESSAGE :: string where
  "SELF_REFERENCE_MESSAGE = ''Unable to resolve self-reference '' @ in_quotes ''$/'' @ ''. This can occur when the server does not ''
     @ ''support this syntax, the feature flag is disabled, or the workflow context (repository/SHA) is unavailable.''"

definition resolve_self_reference :: "string \<Rightarrow> (string \<times> string) option \<Rightarrow> (runner_error, string option) result" where
  "resolve_self_reference uses parent =
     (case strip_prefix_str ''$/'' uses of
        None \<Rightarrow> Ok None
      | Some rest \<Rightarrow>
          let p = trim_start_slash rest
          in if CHR ''@'' \<in> set p
             then Err (Action_Resolution (''Self-repository references do not support an '' @ in_quotes ''@ref''
                    @ '' suffix. Actual '' @ in_quotes uses))
             else case parent of
                    Some (repo, git_ref) \<Rightarrow>
                      (if repo = [] \<or> git_ref = [] then Err (Action_Resolution SELF_REFERENCE_MESSAGE)
                       else let p = trim_end_char (CHR ''/'') p
                            in Ok (Some (if p = [] then repo @ ''@'' @ git_ref else repo @ ''/'' @ p @ ''@'' @ git_ref)))
                  | None \<Rightarrow> Err (Action_Resolution SELF_REFERENCE_MESSAGE))"

definition build_uses_ref :: "step_reference \<Rightarrow> string" where
  "build_uses_ref r =
     (let opt = (\<lambda>x. case x of Some s \<Rightarrow> s | None \<Rightarrow> [])
      in if (case ref_type r of Some kind \<Rightarrow> eq_ignore_ascii_case kind ''containerRegistry'' | None \<Rightarrow> False)
         then (let image = opt (ref_image r) in if starts_with image ''docker://'' then image else ''docker://'' @ image)
         else if ref_repository_type r = Some ''self'' then opt (ref_path r)
         else
           let uses = opt (option_or (ref_name r) (ref_image r));
               with_path = (if opt (ref_path r) = [] then uses else uses @ ''/'' @ opt (ref_path r))
           in if opt (ref_git_ref r) = [] then with_path else with_path @ ''@'' @ opt (ref_git_ref r))"

subsection \<open>Identity in the job context\<close>

definition set_name :: "action_step \<Rightarrow> exec_context \<Rightarrow> exec_context" where
  "set_name step ctx =
     (let nonempty = (\<lambda>x. case x of Some s \<Rightarrow> if s = [] then None else Some s | None \<Rightarrow> None)
      in set_github_context ''action''
           (case option_or (nonempty (as_name step)) (nonempty (as_context_name step)) of Some s \<Rightarrow> s | None \<Rightarrow> []) ctx)"

definition set_reference :: "step_reference \<Rightarrow> exec_context \<Rightarrow> exec_context" where
  "set_reference r ctx =
     (let ctx = clear_repository ctx
      in if ref_type r = Some ''script'' then ctx
         else case parse_action_ref (build_uses_ref r) of
                Inr a \<Rightarrow>
                  (if ar_kind a = Remote
                   then set_github_context ''action_ref'' (ar_git_ref a)
                          (set_github_context ''action_repository'' (ar_owner a @ ''/'' @ ar_repo a) ctx)
                   else ctx)
              | Inl _ \<Rightarrow> ctx)"

subsection \<open>Accepted references\<close>

lemma split_char_at: "c \<notin> set a \<Longrightarrow> split_char c (a @ c # b) = a # split_char c b"
  by (induction a) auto

lemma split_char_plain: "c \<notin> set a \<Longrightarrow> split_char c a = [a]"
  by (induction a) auto

lemma valid_component_no_slash: "is_valid_repo_component v \<Longrightarrow> CHR ''/'' \<notin> set v"
  by (auto simp: is_valid_repo_component_def list_all_iff ascii_simps)

lemma components_plain:
  assumes "list_all (\<lambda>part. part \<notin> {[], ''.'', ''..''}) (split_char (CHR ''/'') v)"
  shows "components v = split_char (CHR ''/'') v"
proof -
  have "hd (split_char (CHR ''/'') v) \<notin> {[], ''.'', ''..''}"
    using assms by (metis (no_types, lifting) list_all_iff hd_in_set split_char_not_Nil)
  moreover from this have "\<not> starts_with v ''/''" by (cases v) (auto simp: starts_with_def)
  moreover have "filter (\<lambda>c. c \<noteq> [] \<and> c \<noteq> ''.'') (split_char (CHR ''/'') v) = split_char (CHR ''/'') v"
    using assms by (auto simp: list_all_iff intro: filter_True)
  ultimately show ?thesis by (simp add: components_def)
qed

lemma parse_remote_ref:
  assumes "parse_action_ref uses = Ok r" "ar_kind r = Remote"
  shows "is_valid_repo_component (ar_owner r)" "is_valid_repo_component (ar_repo r)" "is_valid_git_ref (ar_git_ref r)"
    "ar_subpath r = Some p \<Longrightarrow> \<not> path_escapes p" "ar_local_path r = None"
  using assms
  by (auto simp: parse_action_ref_def local_action_ref_def parse_subpath_def Let_def split: if_splits option.splits)

lemma cache_key_components:
  assumes "parse_action_ref uses = Ok r" "ar_kind r = Remote"
  shows "components (cache_key r) = ar_owner r # ar_repo r # split_char (CHR ''/'') (ar_git_ref r)"
    and "''..'' \<notin> set (components (cache_key r))" "''/'' \<notin> set (components (cache_key r))"
proof -
  note valid = parse_remote_ref [OF assms]
  have split: "split_char (CHR ''/'') (cache_key r) = ar_owner r # ar_repo r # split_char (CHR ''/'') (ar_git_ref r)"
    using valid(1,2) by (simp add: cache_key_def split_char_at valid_component_no_slash)
  moreover have parts: "list_all (\<lambda>part. part \<notin> {[], ''.'', ''..''}) (split_char (CHR ''/'') (cache_key r))"
    unfolding split using valid(1-3) by (simp add: is_valid_repo_component_def is_valid_git_ref_def)
  ultimately show eq: "components (cache_key r) = ar_owner r # ar_repo r # split_char (CHR ''/'') (ar_git_ref r)"
    by (simp add: components_plain)
  show "''..'' \<notin> set (components (cache_key r))" using parts unfolding components_plain [OF parts] by (auto simp: list_all_iff)
  show "''/'' \<notin> set (components (cache_key r))" unfolding components_plain [OF parts] using split_char_no_sep by fastforce
qed

text \<open>A path below a directory: the directory followed by plain components.\<close>

definition below :: "path \<Rightarrow> path \<Rightarrow> bool" where
  "below dir d \<longleftrightarrow> (\<exists>sub. d = dir @ sub \<and> ''..'' \<notin> set sub \<and> ''/'' \<notin> set sub)"

lemma below_join: "''..'' \<notin> set cs \<Longrightarrow> ''/'' \<notin> set cs \<Longrightarrow> below dir (path_join dir cs)"
  unfolding below_def path_join_def by (cases cs) auto

lemma components_relative: "\<not> starts_with v ''/'' \<Longrightarrow> ''/'' \<notin> set (components v)"
  using split_char_no_sep [of "''/''" "CHR ''/''" v] by (auto simp: components_def Let_def)

text \<open>
  An accepted reference to an action names one place and stays inside it: two remote references with
  the same cache key are the same repository at the same revision, neither the key nor the subdirectory
  of a remote reference can leave the directory it is joined to, and a local reference stays below the
  workspace as long as its path does not start with a second slash.
\<close>

theorem action_ref_stays_inside:
  assumes "parse_action_ref uses = Ok r"
  shows "case ar_kind r of
      Remote \<Rightarrow> below dir (path_join dir (components (cache_key r)))
        \<and> (\<forall>p. ar_subpath r = Some p \<longrightarrow> below dir (path_join dir (components p)))
        \<and> (\<forall>uses' r'. parse_action_ref uses' = Ok r' \<and> ar_kind r' = Remote \<and> cache_key r' = cache_key r \<longrightarrow>
             ar_owner r' = ar_owner r \<and> ar_repo r' = ar_repo r \<and> ar_git_ref r' = ar_git_ref r)
    | Local \<Rightarrow> \<not> starts_with uses ''.//'' \<longrightarrow> (\<forall>d. local_dir dir r = Some d \<longrightarrow> below dir d)"
proof (cases "ar_kind r")
  case Remote
  have "ar_owner r' = ar_owner r \<and> ar_repo r' = ar_repo r \<and> ar_git_ref r' = ar_git_ref r"
    if "parse_action_ref uses' = Ok r'" "ar_kind r' = Remote" "cache_key r' = cache_key r" for uses' r'
    using cache_key_components(1) [OF assms Remote] cache_key_components(1) [OF that(1,2)] that(3)
    by (metis join_split_char list.inject)
  with Remote cache_key_components(2,3) [OF assms Remote] parse_remote_ref(4) [OF assms Remote] show ?thesis
    by (auto simp: path_escapes_def below_join)
next
  case Local
  have "below dir d" if apart: "\<not> starts_with uses ''.//''" and d: "local_dir dir r = Some d" for d
  proof -
    from assms Local have u: "starts_with uses ''./''" "r = local_action_ref uses"
      by (auto simp: parse_action_ref_def parse_subpath_def Let_def split: if_splits option.splits)
    then obtain rest where rest: "uses = ''./'' @ rest" unfolding starts_with_def by (metis append_take_drop_id)
    let ?rel = "if ends_with uses ''@'' then butlast rest else rest"
    have "strip_prefix_str ''./'' (if ends_with uses ''@'' then butlast uses else uses) = Some ?rel"
      using rest by (cases rest rule: rev_cases) (auto simp: strip_prefix_str_Some ends_with_def starts_with_def)
    then have d': "''..'' \<notin> set (components ?rel)" "d = path_join dir (components ?rel)"
      using d u(2) by (auto simp: local_dir_def local_action_ref_def split: if_splits)
    have "\<not> starts_with ?rel ''/''" using apart rest by (cases rest) (auto simp: starts_with_def)
    with d' show ?thesis by (simp add: below_join components_relative)
  qed
  with Local show ?thesis by simp
qed

theorem action_ref_stays_inside_witness:
  "\<exists>r. parse_action_ref ''actions/cache/save@v4'' = Ok r \<and> ar_kind r = Remote
    \<and> below [''/'', ''d''] (path_join [''/'', ''d''] (components (cache_key r))) \<and> below [''/'', ''d''] (path_join [''/'', ''d''] (components ''save''))"
proof -
  let ?r = "\<lparr>ar_kind = Remote, ar_owner = ''actions'', ar_repo = ''cache'', ar_git_ref = ''v4'', ar_subpath = Some ''save'', ar_local_path = None\<rparr>"
  have "parse_action_ref ''actions/cache/save@v4'' = Ok ?r" by code_simp
  with action_ref_stays_inside [OF this, of "[''/'', ''d'']"] show ?thesis by (intro exI [of _ ?r]) simp
qed

text \<open>
  The proviso is needed: the guard of \<open>local_dir\<close> looks for \<open>..\<close> only, and joining an absolute path replaces
  the base, so a reference with a second slash names a directory outside the workspace.
\<close>

theorem local_ref_with_two_slashes_escapes:
  "\<exists>r. parse_action_ref ''.//etc/action'' = Ok r \<and> local_dir [''/'', ''work''] r = Some [''/'', ''etc'', ''action'']"
  by (rule exI [of _ "local_action_ref ''.//etc/action''"]) code_simp

end
