(* ===== verification/Steps_Runner.thy ===== *)
theory Steps_Runner
  imports Step_Display Action_Ref
begin

text \<open>
  The step loop of a job: \<open>steps_runner.rs\<close> with \<open>steps_runner/step_reports.rs\<close>,
  \<open>steps_runner/script_support.rs\<close> and \<open>step_errors.rs\<close>, the cleanup drain (\<open>post_drain.rs\<close>), the summary
  reader (\<open>step_summary.rs\<close>) and the cancellation policy (\<open>job_cancellation.rs\<close>), all under
  \<open>crates/execution/src/execution/\<close>.

  Concurrency is a clock: every place where the source reads the cancellation tokens or the deadline
  takes the next reading of \<open>rx_signals\<close>, which may change between any two reads. The child process of a
  script (its output lines in the order the two channels deliver them, its result, the files it leaves)
  is the parameter \<open>rx_child\<close>. The handlers of \<open>uses:\<close> steps and of their cleanup stages are the
  parameters \<open>rx_action\<close> and \<open>rx_post\<close>: they receive and return the whole state. The event channel is
  the list of events sent.
\<close>

subsection \<open>State and environment\<close>

record signals =
  sg_request :: bool
  sg_shutdown :: bool
  sg_deadline :: bool

record run_state =
  rs_ctx :: exec_context
  rs_posts :: "post_step list"
  rs_depth :: depth_tracker
  rs_events :: "runner_event list"
  rs_clock :: nat
  rs_force :: bool

record action_outcome =
  out_conclusion :: conclusion
  out_post :: "post_step option"
  out_outputs :: "(string \<times> string) list"

record script_params =
  sp_script :: string
  sp_shell :: "string option"
  sp_env :: "string \<rightharpoonup> string"
  sp_working_dir :: path
  sp_step_id :: string
  sp_timeout :: "nat option"

datatype process_item = Out_Line string log_stream | Out_Event runner_event

datatype summary_probe =
    Summary_Absent
  | Summary_Unreadable string
  | Summary_Not_Regular
  | Summary_File nat string
  | Summary_Reader_Failed

record script_run =
  sr_items :: "process_item list"
  sr_result :: "(runner_error, conclusion) result"
  sr_files :: file_externs
  sr_summary :: summary_probe

record run_externs =
  rx_step :: step_externs
  rx_dispatch :: dispatch_externs
  rx_signals :: "nat \<Rightarrow> signals"
  rx_process_env :: "(string \<times> string) list"
  rx_process_path :: "string option"
  rx_create_error :: "nat \<Rightarrow> runner_error option"
  rx_child :: "script_params \<Rightarrow> nat \<Rightarrow> script_run"
  rx_action :: "action_step \<Rightarrow> nat option \<Rightarrow> run_state \<Rightarrow> (runner_error, action_outcome) result \<times> run_state"
  rx_post :: "post_step \<Rightarrow> nat option \<Rightarrow> run_state \<Rightarrow> (runner_error, conclusion) result \<times> run_state"

record job_run =
  jr_workspace :: path
  jr_data_dir :: string
  jr_defaults :: run_defaults

definition emit :: "runner_event list \<Rightarrow> run_state \<Rightarrow> run_state" where
  "emit es s = s\<lparr>rs_events := rs_events s @ es\<rparr>"

definition with_ctx :: "(exec_context \<Rightarrow> exec_context) \<Rightarrow> run_state \<Rightarrow> run_state" where
  "with_ctx f s = s\<lparr>rs_ctx := f (rs_ctx s)\<rparr>"

text \<open>One reading of the tokens; the live job status of the context follows it.\<close>

definition poll :: "run_externs \<Rightarrow> run_state \<Rightarrow> run_state" where
  "poll X s =
     (let g = rx_signals X (rs_clock s)
      in s\<lparr>rs_clock := Suc (rs_clock s),
           rs_ctx := (rs_ctx s)\<lparr>ec_request_cancelled := Some (sg_request g), ec_shutdown := sg_shutdown g\<rparr>\<rparr>)"

definition cancel_seen :: "run_state \<Rightarrow> bool" where
  "cancel_seen s \<longleftrightarrow> ec_request_cancelled (rs_ctx s) = Some True"

definition is_forced :: "run_externs \<Rightarrow> run_state \<Rightarrow> bool \<times> run_state" where
  "is_forced X s =
     (let g = rx_signals X (rs_clock s);
          s = poll X s;
          forced = (rs_force s \<or> sg_shutdown g \<or> sg_deadline g)
      in (forced, s\<lparr>rs_force := forced\<rparr>))"

text \<open>What the watcher of a running step decides when the job is cancelled: whether to interrupt it.\<close>

definition watch_interrupts :: "step_externs \<Rightarrow> snapshot \<Rightarrow> string \<Rightarrow> bool" where
  "watch_interrupts X snap cond =
     (let cond = (if trim cond = [] then ''success()'' else cond);
          (c, n) = snap;
          cs = map (\<lambda>(k, v). if k = ''job''
                 then (k, case v of Object i kvs \<Rightarrow> Object i (index_insert ''status'' (Str ''cancelled'') kvs) | _ \<Rightarrow> v)
                 else (k, v)) (contexts c)
      in case evaluate_with X (c\<lparr>contexts := cs, job_status := Cancelled\<rparr>, n) cond of
           Inr v \<Rightarrow> \<not> is_truthy v | Inl _ \<Rightarrow> True)"

subsection \<open>Reports\<close>

record step_title =
  st_name :: string
  st_warning :: "string option"

definition u32_add :: "nat \<Rightarrow> nat \<Rightarrow> nat" where
  "u32_add a b = (if a + b \<le> 2 ^ 32 - 1 then a + b else 2 ^ 32 - 1)"

definition post_number :: "nat \<Rightarrow> nat \<Rightarrow> nat" where
  "post_number first index = u32_add first (min index (2 ^ 32 - 1))"

definition start_step :: "action_step \<Rightarrow> step_title \<Rightarrow> nat \<Rightarrow> runner_event list" where
  "start_step step name number =
     StepStarted (as_id step) (st_name name) number
     # (case st_warning name of Some w \<Rightarrow> [display_warning (as_id step) w] | None \<Rightarrow> [])"

definition complete_step :: "action_step \<Rightarrow> conclusion \<Rightarrow> (string \<times> string) list \<Rightarrow> runner_event list" where
  "complete_step step c outputs = [StepCompleted (as_id step) c outputs]"

definition report_infrastructure_error :: "string \<Rightarrow> runner_error \<Rightarrow> runner_event list" where
  "report_infrastructure_error step_id err =
     (case err of
        Action_Fetch f \<Rightarrow> (case infrastructure_category f of
            Some category \<Rightarrow> [InfrastructureError step_id category (af_message f)] | None \<Rightarrow> [])
      | _ \<Rightarrow> [])"

definition report_step_error :: "step_externs \<Rightarrow> string \<Rightarrow> runner_error \<Rightarrow> runner_event list" where
  "report_step_error X step_id err =
     report_infrastructure_error step_id err @ [Log step_id (''##[error]'' @ runner_error_text X err) Stdout]"

definition report_step_failure :: "step_externs \<Rightarrow> string \<Rightarrow> runner_error \<Rightarrow> runner_event list" where
  "report_step_failure X step_id err = report_step_error X step_id err @ [StepCompleted step_id Con_Failure []]"

definition record_results :: "action_step \<Rightarrow> conclusion \<Rightarrow> exec_context \<Rightarrow> exec_context" where
  "record_results step c ctx =
     (case expression_name step of
        Some name \<Rightarrow> set_step_conclusion name c (set_step_outcome name c ctx) | None \<Rightarrow> ctx)"

definition record_condition_failure ::
  "run_externs \<Rightarrow> action_step \<Rightarrow> step_title \<Rightarrow> nat \<Rightarrow> runner_error \<Rightarrow> run_state \<Rightarrow> run_state" where
  "record_condition_failure X step name number err s =
     (let s = emit (start_step step name number) s;
          s = with_ctx (record_results step Con_Failure) s;
          s = with_ctx record_step_failure (poll X s)
      in emit (report_step_failure (rx_step X) (as_id step) err) s)"

definition report_skipped_step :: "action_step \<Rightarrow> step_title \<Rightarrow> nat \<Rightarrow> run_state \<Rightarrow> run_state" where
  "report_skipped_step step name number s =
     emit (start_step step name number @ [StepSkipped (as_id step) ''condition evaluated to false'']
           @ complete_step step Con_Skipped [])
       (with_ctx (record_results step Con_Skipped) s)"

subsection \<open>Summaries\<close>

definition MAX_SUMMARY_BYTES :: nat where "MAX_SUMMARY_BYTES = 1024 * 1024"

definition normalize_newlines :: "string \<Rightarrow> string" where
  "normalize_newlines s = replace_all [CHR 0x0D] [CHR 0x0A] (replace_all [CHR 0x0D, CHR 0x0A] [CHR 0x0A] s)"

text \<open>\<open>split_terminator\<close>: no empty piece after a final newline.\<close>

definition split_terminator :: "char \<Rightarrow> string \<Rightarrow> string list" where
  "split_terminator c s = (let parts = split_char c s in if last parts = [] then butlast parts else parts)"

definition render_summary :: "string \<Rightarrow> string option" where
  "render_summary bytes =
     (let body = (case strip_prefix_str utf8_bom bytes of Some b \<Rightarrow> b | None \<Rightarrow> bytes);
          content = concat (map (\<lambda>l. l @ [CHR 0x0A]) (split_terminator (CHR 0x0A) (normalize_newlines (from_utf8_lossy body))))
      in if content = [] then None else Some content)"

definition oversized :: "nat \<Rightarrow> string" where
  "oversized len = ''$GITHUB_STEP_SUMMARY upload aborted, supports content up to a size of 1024k, got '' @ show_nat (len div 1024)
     @ ''k. For more information see: https://docs.github.com/actions/using-workflows/workflow-commands-for-github-actions#adding-a-markdown-summary''"

definition read_summary :: "summary_probe \<Rightarrow> (string, string option) result" where
  "read_summary p = (case p of
       Summary_Absent \<Rightarrow> Ok None
     | Summary_Unreadable kind \<Rightarrow> Err (''$GITHUB_STEP_SUMMARY upload aborted: unable to read summary file ('' @ kind @ '')'')
     | Summary_Not_Regular \<Rightarrow> Err ''$GITHUB_STEP_SUMMARY upload aborted: unable to read summary file (not a regular file)''
     | Summary_File len bytes \<Rightarrow>
         if MAX_SUMMARY_BYTES < len then Err (oversized len)
         else let bytes = take (MAX_SUMMARY_BYTES + 1) bytes
              in if MAX_SUMMARY_BYTES < length bytes then Err (oversized (length bytes)) else Ok (render_summary bytes)
     | Summary_Reader_Failed \<Rightarrow> Err ''$GITHUB_STEP_SUMMARY upload aborted: summary reader failed'')"

definition collect_summary :: "summary_probe \<Rightarrow> string \<Rightarrow> string \<Rightarrow> exec_context \<Rightarrow> runner_event list" where
  "collect_summary p report_id summary_id ctx =
     (case read_summary p of
        Inr (Some content) \<Rightarrow> [StepSummary summary_id (mask (ec_masker ctx) content)]
      | Inr None \<Rightarrow> []
      | Inl message \<Rightarrow> [Annotation report_id Level_Error message None None None None None None])"

subsection \<open>Script steps\<close>

record step_render =
  sn_script :: string
  sn_shell :: "string option"
  sn_env :: "string \<rightharpoonup> string"
  sn_file_cmds :: file_command_manager
  sn_working_dir :: path

definition build_step_env_and_file_commands ::
  "run_externs \<Rightarrow> job_run \<Rightarrow> run_state \<Rightarrow> (runner_error, (string \<rightharpoonup> string) \<times> file_command_manager) result" where
  "build_step_env_and_file_commands X J s =
     (let ctx = rs_ctx s;
          env = apply_script_service_env ctx (build_step_env (rx_process_path X) Map.empty ctx)
      in case rx_create_error X (rs_clock s) of
           Some e \<Rightarrow> Err e
         | None \<Rightarrow>
             let (mgr, file_env) = create_manager (jr_data_dir J @ ''/tmp'');
                 env = extend_env file_env env
             in Ok (if ec_container ctx = None then inherited_process_env (rx_process_env X) ctx ++ env else env, mgr))"

definition resolve_working_dir ::
  "step_externs \<Rightarrow> action_step \<Rightarrow> snapshot \<Rightarrow> path \<Rightarrow> run_defaults \<Rightarrow> (runner_error, path) result" where
  "resolve_working_dir X step snap ws defaults =
     (let use = (\<lambda>resolved.
            if resolved = [] then Ok ws
            else if starts_with resolved ''/'' then Ok (components resolved)
            else Ok (path_join ws (components resolved)))
      in case to_map (as_inputs step) ''workingDirectory'' of
           Some t \<Rightarrow> rbind (env_token_to_string X snap t) use
         | None \<Rightarrow> (case rd_working_directory defaults of Some d \<Rightarrow> use d | None \<Rightarrow> Ok ws))"

definition render_scoped_script_step ::
  "run_externs \<Rightarrow> job_run \<Rightarrow> action_step \<Rightarrow> run_state \<Rightarrow> (runner_error, step_render) result" where
  "render_scoped_script_step X J step s =
     (let snap = take_snapshot (rx_step X) (rs_ctx s);
          token = (\<lambda>key. case to_map (as_inputs step) key of
              None \<Rightarrow> Ok None | Some t \<Rightarrow> rbind (env_token_to_string (rx_step X) snap t) (\<lambda>v. Ok (Some v)))
      in rbind (token ''script'') (\<lambda>script.
         rbind (token ''shell'') (\<lambda>shell.
         rbind (build_step_env_and_file_commands X J s) (\<lambda>(env, mgr).
         rbind (resolve_working_dir (rx_step X) step snap (jr_workspace J) (jr_defaults J)) (\<lambda>dir.
           Ok \<lparr>sn_script = (case script of Some t \<Rightarrow> t | None \<Rightarrow> []),
               sn_shell = option_or (case shell of Some v \<Rightarrow> if v = [] then None else Some v | None \<Rightarrow> None) (rd_shell (jr_defaults J)),
               sn_env = env, sn_file_cmds = mgr, sn_working_dir = dir\<rparr>)))))"

definition render_script_step ::
  "run_externs \<Rightarrow> job_run \<Rightarrow> action_step \<Rightarrow> run_state \<Rightarrow> (runner_error, step_render) result \<times> run_state" where
  "render_script_step X J step s =
     (case resolve_step_env (rx_step X) step (take_snapshot (rx_step X) (rs_ctx s)) of
        Inl e \<Rightarrow> (Err e, s)
      | Inr step_env \<Rightarrow>
          let s1 = with_ctx (push_step_env step_env) s
          in (render_scoped_script_step X J step s1, with_ctx pop_step_env s1))"

text \<open>\<open>stream_process\<close> over everything the child's channels deliver; other events are forwarded.\<close>

fun stream_items :: "dispatch_externs \<Rightarrow> process_item list \<Rightarrow> dispatcher \<times> exec_context
    \<Rightarrow> runner_event list \<times> dispatcher \<times> exec_context" where
  "stream_items X [] dc = ([], dc)"
| "stream_items X (Out_Event e # rest) dc = (case stream_items X rest dc of (es, dc') \<Rightarrow> (e # es, dc'))"
| "stream_items X (Out_Line line stream # rest) dc =
     (case stream_process X [(line, stream)] dc of
        (es, dc1) \<Rightarrow> (case stream_items X rest dc1 of (es', dc2) \<Rightarrow> (es @ es', dc2)))"

definition emit_script_header :: "string \<Rightarrow> string \<Rightarrow> runner_event list" where
  "emit_script_header i script = [Log i (''##[group]Run '' @ trim script) Stdout, Log i ''##[endgroup]'' Stdout]"

definition emit_status :: "string \<Rightarrow> conclusion \<Rightarrow> runner_event list" where
  "emit_status i c = [Log i (if c = Con_Success then ''Process completed with exit code 0.''
     else ''Process completed with exit code 1.'') Stdout]"

definition run_and_dispatch_script ::
  "run_externs \<Rightarrow> script_run \<Rightarrow> action_step \<Rightarrow> run_state \<Rightarrow> (runner_error, conclusion \<times> (string \<times> string) list) result \<times> run_state" where
  "run_and_dispatch_script X child step s =
     (case stream_items (rx_dispatch X) (sr_items child)
             (new_dispatcher (as_id step) (as_id step) (expression_name step), rs_ctx s) of
        (es, d, ctx) \<Rightarrow>
          (rbind (sr_result child) (\<lambda>c. Ok (merge_command_result c (cd_failed d), index_collect (fst (take_set_outputs d)))),
           emit es (s\<lparr>rs_ctx := ctx\<rparr>)))"

definition merge_step_outputs ::
  "file_externs \<Rightarrow> file_command_manager \<Rightarrow> action_step \<Rightarrow> (string \<times> string) list \<Rightarrow> run_state
     \<Rightarrow> ((string \<times> string) list \<times> bool) \<times> run_state" where
  "merge_step_outputs F mgr step stdout_outputs s =
     (case apply_file_commands_and_merge_outputs F
             \<lparr>fs_step_id = as_id step, fs_expression_name = expression_name step, fs_state_id = None, fs_report_id = as_id step\<rparr>
             stdout_outputs mgr (rs_ctx s) of
        (outputs, failed, es, ctx) \<Rightarrow> ((outputs, failed), emit es (s\<lparr>rs_ctx := ctx\<rparr>)))"

definition run_script_step ::
  "run_externs \<Rightarrow> job_run \<Rightarrow> action_step \<Rightarrow> nat option \<Rightarrow> run_state
     \<Rightarrow> (runner_error, conclusion \<times> (string \<times> string) list) result \<times> run_state" where
  "run_script_step X J step timeout s =
     (case render_script_step X J step s of
        (Inl e, s) \<Rightarrow> (Err e, s)
      | (Inr r, s) \<Rightarrow>
          let s = emit (emit_script_header (as_id step) (sn_script r)) s;
              child = rx_child X \<lparr>sp_script = sn_script r, sp_shell = sn_shell r, sp_env = sn_env r,
                        sp_working_dir = sn_working_dir r, sp_step_id = as_id step, sp_timeout = timeout\<rparr> (rs_clock s);
              (execution, s) = run_and_dispatch_script X child step s;
              s = emit (collect_summary (sr_summary child) (as_id step) (as_id step) (rs_ctx s)) s
          in case execution of
               Inl e \<Rightarrow> (Err e, s)
             | Inr (result, stdout_outputs) \<Rightarrow>
                 let s = emit (emit_status (as_id step) result) s;
                     ((outputs, failed), s) = merge_step_outputs (sr_files child) (sn_file_cmds r) step stdout_outputs s
                 in (Ok (merge_command_result result failed, outputs), s))"

subsection \<open>Action steps\<close>

definition save_action_result ::
  "action_step \<Rightarrow> action_outcome \<Rightarrow> run_state \<Rightarrow> (conclusion \<times> (string \<times> string) list) \<times> run_state" where
  "save_action_result step out s =
     (let s = (case expression_name step of
                 Some name \<Rightarrow> with_ctx (fold (\<lambda>kv. set_step_output name (fst kv) (snd kv)) (out_outputs out)) s
               | None \<Rightarrow> s);
          s = (case out_post out of Some p \<Rightarrow> s\<lparr>rs_posts := register_post p (rs_posts s)\<rparr> | None \<Rightarrow> s)
      in ((out_conclusion out, out_outputs out), s))"

definition take_nested_posts :: "run_state \<Rightarrow> run_state" where
  "take_nested_posts s =
     s\<lparr>rs_posts := fold register_post (ec_nested_posts (rs_ctx s)) (rs_posts s), rs_ctx := (rs_ctx s)\<lparr>ec_nested_posts := []\<rparr>\<rparr>"

definition run_action_step ::
  "run_externs \<Rightarrow> action_step \<Rightarrow> nat option \<Rightarrow> run_state
     \<Rightarrow> (runner_error, conclusion \<times> (string \<times> string) list) result \<times> run_state" where
  "run_action_step X step timeout s =
     (case rx_action X step timeout s of
        (result, s) \<Rightarrow>
          let s = take_nested_posts s
          in case result of
               Inl Job_Cancelled \<Rightarrow> (Ok (Con_Cancelled, []), s)
             | Inl e \<Rightarrow> (Err e, s)
             | Inr out \<Rightarrow> (case save_action_result step out s of (r, s) \<Rightarrow> (Ok r, s)))"

subsection \<open>One step\<close>

definition execute_step ::
  "run_externs \<Rightarrow> job_run \<Rightarrow> action_step \<Rightarrow> nat option \<Rightarrow> run_state
     \<Rightarrow> (runner_error, conclusion \<times> (string \<times> string) list) result \<times> run_state" where
  "execute_step X J step timeout s =
     (if is_run_step step then run_script_step X J step timeout s else run_action_step X step timeout s)"

definition record_step_result :: "run_externs \<Rightarrow> action_step \<Rightarrow> conclusion \<Rightarrow> run_state \<Rightarrow> conclusion \<times> run_state" where
  "record_step_result X step outcome s =
     (let s = poll X s;
          s = with_ctx (\<lambda>ctx. case expression_name step of Some name \<Rightarrow> set_step_outcome name outcome ctx | None \<Rightarrow> ctx) s;
          (adjusted, es) = (if outcome = Con_Failure
             then resolve_continue_on_error (rx_step X) (as_id step) (as_continue_on_error step) (rs_ctx s) else (False, []));
          s = emit es s;
          conclusion = (if adjusted then Con_Success else outcome);
          s = (if conclusion = Con_Failure then with_ctx record_step_failure s else s)
      in (conclusion, with_ctx (\<lambda>ctx. case expression_name step of Some name \<Rightarrow> set_step_conclusion name conclusion ctx | None \<Rightarrow> ctx) s))"

definition evaluate_condition :: "step_externs \<Rightarrow> action_step \<Rightarrow> exec_context \<Rightarrow> (runner_error, bool) result" where
  "evaluate_condition X step ctx =
     (let cond = (case as_condition step of Some c \<Rightarrow> c | None \<Rightarrow> ''success()'')
      in if trim cond = [] then Ok (case literal_status_condition ctx ''success()'' of Some b \<Rightarrow> b | None \<Rightarrow> False)
         else case literal_status_condition ctx cond of
                Some b \<Rightarrow> Ok b
              | None \<Rightarrow> rbind (evaluate_expression X ctx cond) (\<lambda>v. Ok (is_truthy v)))"

definition execute_started_step ::
  "run_externs \<Rightarrow> job_run \<Rightarrow> action_step \<Rightarrow> run_state \<Rightarrow> (runner_error, conclusion) result \<times> run_state" where
  "execute_started_step X J step s =
     (let s = poll X s;
          (timeout, es) = resolve_timeout (rx_step X) (as_id step) (as_timeout_in_minutes step) (rs_ctx s);
          (result, s) = execute_step X J step timeout (emit es s);
          ((outcome, outputs), s) = (case result of
              Inr r \<Rightarrow> (r, s)
            | Inl err \<Rightarrow> ((Con_Failure, []), emit (report_step_error (rx_step X) (as_id step) err) s));
          (conclusion, s) = record_step_result X step outcome s
      in (Ok conclusion, emit (complete_step step conclusion outputs) s))"

text \<open>Environment, name and condition of a step, evaluated before it starts.\<close>

definition prepare_step ::
  "run_externs \<Rightarrow> action_step \<Rightarrow> step_title \<Rightarrow> run_state \<Rightarrow> (runner_error, bool) result \<times> step_title \<times> run_state" where
  "prepare_step X step name s =
     (let s = poll X s;
          env = resolve_step_env (rx_step X) step (take_snapshot (rx_step X) (rs_ctx s));
          (name, s) = (if is_ok env
             then (case name_at_main (rx_step X) step (rs_ctx s) of
                     (n, w, ctx) \<Rightarrow> (\<lparr>st_name = n, st_warning = w\<rparr>, s\<lparr>rs_ctx := ctx\<rparr>))
             else (name, s))
      in (rbind env (\<lambda>_. evaluate_condition (rx_step X) step (rs_ctx s)), name, s))"

definition run_single_step ::
  "run_externs \<Rightarrow> job_run \<Rightarrow> action_step \<Rightarrow> nat \<Rightarrow> run_state \<Rightarrow> (runner_error, conclusion) result \<times> run_state" where
  "run_single_step X J step number s =
     (let name = \<lparr>st_name = sd_current (display_for (rx_step X) step (rs_ctx s)), st_warning = None\<rparr>;
          (forced, s) = is_forced X s
      in if forced then (Ok Con_Skipped, report_skipped_step step name number s)
         else case prepare_step X step name s of
                (Inl err, name, s) \<Rightarrow> (Ok Con_Failure, record_condition_failure X step name number err s)
              | (Inr False, name, s) \<Rightarrow> (Ok Con_Success, report_skipped_step step name number s)
              | (Inr True, name, s) \<Rightarrow> execute_started_step X J step (emit (start_step step name number) s))"

subsection \<open>Cleanup steps\<close>

definition complete_post :: "string \<Rightarrow> conclusion \<Rightarrow> runner_event list" where
  "complete_post i c = [StepCompleted i c []]"

definition log_post_error :: "step_externs \<Rightarrow> string \<Rightarrow> runner_error \<Rightarrow> runner_event list" where
  "log_post_error X i err = [Log i (''##[error]post-step failed: '' @ runner_error_text X err) Stdout]"

definition report_post_error :: "step_externs \<Rightarrow> string \<Rightarrow> runner_error \<Rightarrow> runner_event list" where
  "report_post_error X i err = log_post_error X i err @ complete_post i Con_Failure"

definition skip_post :: "string \<Rightarrow> string \<Rightarrow> runner_event list" where
  "skip_post i reason = StepSkipped i reason # complete_post i Con_Skipped"

definition post_title :: "string \<Rightarrow> string" where
  "post_title main_name = (if main_name = [] then ''Post'' else ''Post '' @ main_name)"

definition emit_post_header :: "string \<Rightarrow> string \<Rightarrow> nat \<Rightarrow> runner_event list" where
  "emit_post_header i main_name number =
     [StepStarted i (post_title main_name) number, Log i (''##[group]'' @ post_title main_name) Stdout,
      Log i ''##[endgroup]'' Stdout]"

definition action_metadata :: "step_reference \<Rightarrow> runs_using \<Rightarrow> string \<times> string option \<times> string option" where
  "action_metadata r using_kind =
     (if (case ref_type r of Some kind \<Rightarrow> eq_ignore_ascii_case kind ''containerRegistry'' | None \<Rightarrow> False)
      then (''DockerHub'', map_option (\<lambda>image. case strip_prefix_str ''docker://'' image of Some i \<Rightarrow> i | None \<Rightarrow> image) (ref_image r), None)
      else
        let kind = (case using_kind of Using_Node major \<Rightarrow> ''node'' @ show_nat major | Using_Composite \<Rightarrow> ''composite''
                      | Using_Docker \<Rightarrow> ''Dockerfile'')
        in if ref_repository_type r = Some ''self'' then (kind, ref_path r, None)
           else case ref_name r of
                  None \<Rightarrow> (kind, None, ref_git_ref r)
                | Some name \<Rightarrow>
                    (kind, Some (case ref_path r of Some p \<Rightarrow> if p = [] then name else name @ ''/'' @ p | None \<Rightarrow> name), ref_git_ref r))"

definition emit_action_metadata :: "string \<Rightarrow> step_reference \<Rightarrow> runs_using \<Rightarrow> runner_event list" where
  "emit_action_metadata i r using_kind = (case action_metadata r using_kind of (kind, action, git_ref) \<Rightarrow> [StepMetadata i kind action git_ref])"

definition execute_post ::
  "run_externs \<Rightarrow> post_step \<Rightarrow> nat option \<Rightarrow> run_state \<Rightarrow> (runner_error, conclusion) result \<times> run_state" where
  "execute_post X p timeout s =
     (case runs_kind (ad_runs (ps_manifest p)) of
        Using_Composite \<Rightarrow> (Err (Action_Manifest ''composite action cannot register its own post''), s)
      | Using_Docker \<Rightarrow>
          if ps_docker_image p = None then (Err (Action_Manifest ''Docker post has no prepared image''), s)
          else rx_post X p timeout s
      | Using_Node _ \<Rightarrow> rx_post X p timeout s)"

definition run_scoped_post ::
  "run_externs \<Rightarrow> post_step \<Rightarrow> nat \<Rightarrow> run_state \<Rightarrow> (runner_error, conclusion) result \<times> run_state" where
  "run_scoped_post X p number s =
     (let i = ps_report_id p;
          cond = effective_condition p;
          s = emit (emit_post_header i (sd_current (display_for (rx_step X) (ps_step p) (rs_ctx s))) number) s;
          (forced, s) = is_forced X s;
          (c, n) = take_snapshot (rx_step X) (rs_ctx s);
          verdict = (if forced then Ok False
                     else rbind (evaluate_with (rx_step X) (c\<lparr>job_status := live_job_status (rs_ctx s)\<rparr>, n) cond) (\<lambda>v. Ok (is_truthy v)))
      in case verdict of
           Inl e \<Rightarrow> (Err e, s)
         | Inr False \<Rightarrow> (Ok Con_Skipped, emit (skip_post i (''post-if '' @ in_quotes cond @ '' evaluated to false'')) s)
         | Inr True \<Rightarrow>
             let s = emit (emit_action_metadata i (as_reference (ps_step p)) (runs_kind (ad_runs (ps_manifest p)))) s;
                 (timeout, es) = resolve_timeout (rx_step X) i (as_timeout_in_minutes (ps_step p)) (rs_ctx s);
                 (result, s) = execute_post X p timeout (emit es s)
             in case result of
                  Inl Job_Cancelled \<Rightarrow> (Err Job_Cancelled, s)
                | _ \<Rightarrow>
                    let (conclusion, s) = (case result of
                            Inr c \<Rightarrow> (c, s) | Inl e \<Rightarrow> (Con_Failure, emit (log_post_error (rx_step X) i e) s));
                        (adjusted, es) = (if conclusion = Con_Failure
                            then resolve_continue_on_error (rx_step X) i (as_continue_on_error (ps_step p)) (rs_ctx s) else (False, []));
                        conclusion = (if adjusted then Con_Success else conclusion)
                    in (Ok conclusion, emit (es @ complete_post i conclusion) s))"

definition run_one_post ::
  "run_externs \<Rightarrow> post_step \<Rightarrow> nat \<Rightarrow> run_state \<Rightarrow> (runner_error, conclusion) result \<times> run_state" where
  "run_one_post X p number s =
     (let prior_scope = ec_scope_path (rs_ctx s);
          prior_metadata = capture_metadata (rs_ctx s);
          s = with_ctx (\<lambda>ctx. push_step_env (ps_step_env p) (restore_step_scope (ps_scope_path p)
                (set_reference (as_reference (ps_step p)) (set_github_context ''action'' (ps_action_name p) ctx)))) s;
          (result, s) = run_scoped_post X p number s
      in (result, with_ctx (\<lambda>ctx. restore_metadata prior_metadata (restore_step_scope prior_scope (pop_step_env ctx))) s))"

text \<open>The first lines of both loops: a cancellation seen now is recorded before the stage is evaluated.\<close>

definition note_cancellation :: "run_externs \<Rightarrow> run_state \<Rightarrow> run_state" where
  "note_cancellation X s = (let s = poll X s in if cancel_seen s then with_ctx record_job_cancelled s else s)"

text \<open>How the drain ends a post: an error is reported on the post's own record.\<close>

definition settle_post :: "run_externs \<Rightarrow> post_step \<Rightarrow> (runner_error, conclusion) result \<times> run_state \<Rightarrow> conclusion \<times> run_state" where
  "settle_post X p rs =
     (case rs of
        (Inr c, s) \<Rightarrow> (c, s)
      | (Inl e, s) \<Rightarrow>
          if e = Job_Cancelled then (Con_Cancelled, emit (complete_post (ps_report_id p) Con_Cancelled) s)
          else (Con_Failure, emit (report_post_error (rx_step X) (ps_report_id p) e) s))"

text \<open>One iteration of the drain: the result of a post and the aggregate after it.\<close>

definition drain_one :: "run_externs \<Rightarrow> nat \<Rightarrow> post_step \<Rightarrow> conclusion \<Rightarrow> run_state \<Rightarrow> conclusion \<times> run_state" where
  "drain_one X number p aggregate s =
     (let (result, s) = settle_post X p (run_one_post X p number (note_cancellation X s));
          s = poll X s
      in if result = Con_Failure
         then (if aggregate \<noteq> Con_Cancelled then Con_Failure else aggregate, with_ctx record_step_failure s)
         else if result = Con_Cancelled then (Con_Cancelled, with_ctx record_job_cancelled s)
         else (aggregate, s))"

fun drain_from :: "run_externs \<Rightarrow> nat \<Rightarrow> nat \<Rightarrow> post_step list \<Rightarrow> conclusion \<Rightarrow> run_state \<Rightarrow> conclusion \<times> run_state" where
  "drain_from X first index [] aggregate s = (aggregate, s)"
| "drain_from X first index (p # ps) aggregate s =
     (case drain_one X (post_number first index) p aggregate s of
        (aggregate', s') \<Rightarrow> drain_from X first (Suc index) ps aggregate' s')"

definition drain_post_steps :: "run_externs \<Rightarrow> nat \<Rightarrow> run_state \<Rightarrow> conclusion \<times> run_state" where
  "drain_post_steps X first s =
     (case drain_lifo (rs_posts s) of (order, left) \<Rightarrow> drain_from X first 0 order Con_Success (s\<lparr>rs_posts := left\<rparr>))"

subsection \<open>The loop\<close>

text \<open>One iteration of the main loop: the step's result and the state after it.\<close>

definition main_one ::
  "run_externs \<Rightarrow> job_run \<Rightarrow> nat \<Rightarrow> action_step \<Rightarrow> run_state \<Rightarrow> (runner_error, conclusion) result \<times> run_state" where
  "main_one X J index step s =
     (let s = note_cancellation X s;
          number = post_number (u32_add 2 (ec_docker_setup_count (rs_ctx s))) index;
          prior = capture_metadata (rs_ctx s);
          s = with_ctx (\<lambda>ctx. clear_repository (set_name step ctx)) s;
          (result, s) = run_single_step X J step number s;
          s = with_ctx (restore_metadata prior) s
      in (result, if result = Ok Con_Cancelled then with_ctx record_job_cancelled s else s))"

definition merge_main :: "conclusion \<Rightarrow> conclusion \<Rightarrow> conclusion" where
  "merge_main job step =
     (if step = Con_Cancelled then Con_Cancelled
      else if step = Con_Failure \<and> job \<noteq> Con_Cancelled then Con_Failure else job)"

fun run_main_from ::
  "run_externs \<Rightarrow> job_run \<Rightarrow> nat \<Rightarrow> action_step list \<Rightarrow> conclusion \<Rightarrow> run_state \<Rightarrow> (runner_error, conclusion) result \<times> run_state" where
  "run_main_from X J index [] job s = (Ok job, s)"
| "run_main_from X J index (step # steps) job s =
     (case main_one X J index step s of
        (Inl e, s') \<Rightarrow> (Err e, s')
      | (Inr c, s') \<Rightarrow> run_main_from X J (Suc index) steps (merge_main job c) s')"

definition run_main_steps ::
  "run_externs \<Rightarrow> job_run \<Rightarrow> action_step list \<Rightarrow> run_state \<Rightarrow> (runner_error, conclusion) result \<times> run_state" where
  "run_main_steps X J steps s = run_main_from X J 0 steps Con_Success s"

definition merge_job :: "bool \<Rightarrow> bool \<Rightarrow> conclusion \<Rightarrow> conclusion \<Rightarrow> conclusion" where
  "merge_job shutdown cancelled main post =
     (if shutdown then Con_Failure
      else if cancelled then Con_Cancelled
      else if main = Con_Cancelled \<or> post = Con_Cancelled then Con_Cancelled
      else if main = Con_Failure \<or> post = Con_Failure then Con_Failure
      else main)"

definition run_main_and_posts ::
  "run_externs \<Rightarrow> job_run \<Rightarrow> nat \<Rightarrow> action_step list \<Rightarrow> run_state \<Rightarrow> (runner_error, conclusion) result \<times> run_state" where
  "run_main_and_posts X J first_post steps s =
     (let (main_result, s) = run_main_steps X J steps s;
          s = poll X s;
          s = (if is_ok main_result then s else with_ctx record_step_failure s);
          s = (if main_result = Ok Con_Cancelled \<or> cancel_seen s then with_ctx record_job_cancelled s else s);
          s = with_ctx (\<lambda>ctx. ctx\<lparr>ec_next_step_number := Some (post_number first_post (length (rs_posts s)))\<rparr>) s;
          (post_result, s) = drain_post_steps X first_post s;
          s = poll X s;
          s = (if cancel_seen s then with_ctx record_job_cancelled s else s);
          s = poll X s
      in (rbind main_result (\<lambda>main. Ok (merge_job (ec_shutdown (rs_ctx s)) (cancel_seen s) main post_result)), s))"

definition run_steps ::
  "run_externs \<Rightarrow> job_run \<Rightarrow> action_step list \<Rightarrow> exec_context \<Rightarrow> nat \<Rightarrow> (runner_error, conclusion) result \<times> run_state" where
  "run_steps X J steps ctx clock =
     (let first_post = post_number (u32_add 2 (ec_docker_setup_count ctx)) (length steps);
          (es, ctx) = name_at_job_start (rx_step X) steps ctx
      in run_main_and_posts X J first_post steps
           \<lparr>rs_ctx = ctx, rs_posts = [], rs_depth = new_tracker, rs_events = es, rs_clock = clock, rs_force = False\<rparr>)"

subsection \<open>The job's result\<close>

text \<open>The results of the main steps and of the cleanup steps, in order, along a run.\<close>

fun main_results :: "run_externs \<Rightarrow> job_run \<Rightarrow> nat \<Rightarrow> action_step list \<Rightarrow> run_state \<Rightarrow> conclusion list" where
  "main_results X J index [] s = []"
| "main_results X J index (step # steps) s =
     (case main_one X J index step s of
        (Inl e, s') \<Rightarrow> [] | (Inr c, s') \<Rightarrow> c # main_results X J (Suc index) steps s')"

fun main_state :: "run_externs \<Rightarrow> job_run \<Rightarrow> nat \<Rightarrow> action_step list \<Rightarrow> run_state \<Rightarrow> run_state" where
  "main_state X J index [] s = s"
| "main_state X J index (step # steps) s = main_state X J (Suc index) steps (snd (main_one X J index step s))"

definition worst :: "conclusion list \<Rightarrow> conclusion" where
  "worst cs = (if Con_Cancelled \<in> set cs then Con_Cancelled else if Con_Failure \<in> set cs then Con_Failure else Con_Success)"

lemma run_single_step_ok: "\<exists>c. fst (run_single_step X J step number s) = Ok c"
  by (auto simp: run_single_step_def execute_started_step_def Let_def split: prod.splits sum.splits if_splits bool.splits)

lemma main_one_ok: "\<exists>c s'. main_one X J index step s = (Ok c, s')"
proof -
  have "\<exists>c. fst (main_one X J index step s) = Ok c"
    using run_single_step_ok by (simp add: main_one_def Let_def case_prod_beta)
  then show ?thesis by (metis prod.collapse)
qed

lemma run_main_from_trace:
  "run_main_from X J index steps job s =
     (Ok (fold (\<lambda>c job. merge_main job c) (main_results X J index steps s) job), main_state X J index steps s)"
  "length (main_results X J index steps s) = length steps"
proof (induction steps arbitrary: index job s)
  case (Cons step steps)
  {
    case 1
    obtain c s' where "main_one X J index step s = (Ok c, s')" using main_one_ok by blast
    with Cons show ?case by simp
  next
    case 2
    obtain c s' where "main_one X J index step s = (Ok c, s')" using main_one_ok by blast
    with Cons show ?case by simp
  }
qed simp_all

lemma fold_merge_main:
  "fold (\<lambda>c job. merge_main job c) cs job =
     (if job = Con_Cancelled \<or> Con_Cancelled \<in> set cs then Con_Cancelled
      else if Con_Failure \<in> set cs then Con_Failure else job)"
  by (induction cs arbitrary: job) (auto simp: merge_main_def)

lemma worst_merge: "fold (\<lambda>c job. merge_main job c) cs Con_Success = worst cs"
  by (simp add: fold_merge_main worst_def)

text \<open>A cleanup step that ends with an error counts as failed, one that was interrupted as cancelled.\<close>

definition post_verdict :: "(runner_error, conclusion) result \<Rightarrow> conclusion" where
  "post_verdict r = (case r of Inr c \<Rightarrow> c | Inl e \<Rightarrow> if e = Job_Cancelled then Con_Cancelled else Con_Failure)"

fun post_results :: "run_externs \<Rightarrow> nat \<Rightarrow> nat \<Rightarrow> post_step list \<Rightarrow> conclusion \<Rightarrow> run_state \<Rightarrow> conclusion list" where
  "post_results X first index [] aggregate s = []"
| "post_results X first index (p # ps) aggregate s =
     post_verdict (fst (run_one_post X p (post_number first index) (note_cancellation X s)))
     # (case drain_one X (post_number first index) p aggregate s of (a, s') \<Rightarrow> post_results X first (Suc index) ps a s')"

lemma settle_post_verdict: "fst (settle_post X p rs) = post_verdict (fst rs)"
  by (auto simp: settle_post_def post_verdict_def split: prod.splits sum.splits)

lemma drain_one_aggregate:
  "fst (drain_one X number p aggregate s) = merge_main aggregate (post_verdict (fst (run_one_post X p number (note_cancellation X s))))"
  by (simp add: drain_one_def Let_def case_prod_beta merge_main_def settle_post_verdict)

lemma drain_from_trace:
  "fst (drain_from X first index ps aggregate s) = fold (\<lambda>c job. merge_main job c) (post_results X first index ps aggregate s) aggregate"
  "length (post_results X first index ps aggregate s) = length ps"
proof (induction ps arbitrary: index aggregate s)
  case (Cons p ps)
  {
    case 1
    show ?case using Cons(1) drain_one_aggregate [of X "post_number first index" p aggregate s]
      by (auto split: prod.splits)
  next
    case 2
    show ?case using Cons(2) by (auto split: prod.splits)
  }
qed simp_all

text \<open>The states at the end of the main steps, when the cleanup starts, and at the end of the job.\<close>

definition after_main :: "run_externs \<Rightarrow> job_run \<Rightarrow> nat \<Rightarrow> action_step list \<Rightarrow> run_state \<Rightarrow> run_state" where
  "after_main X J first_post steps s =
     (let s' = poll X (main_state X J 0 steps s);
          s' = (if worst (main_results X J 0 steps s) = Con_Cancelled \<or> cancel_seen s' then with_ctx record_job_cancelled s' else s')
      in with_ctx (\<lambda>ctx. ctx\<lparr>ec_next_step_number := Some (post_number first_post (length (rs_posts s')))\<rparr>) s')"

lemma run_main_and_posts_cleanup:
  "run_main_and_posts X J first_post steps s =
     (let (post_result, s') = drain_post_steps X first_post (after_main X J first_post steps s);
          s' = poll X s';
          s' = (if cancel_seen s' then with_ctx record_job_cancelled s' else s');
          s' = poll X s'
      in (Ok (merge_job (ec_shutdown (rs_ctx s')) (cancel_seen s') (worst (main_results X J 0 steps s)) post_result), s'))"
  by (simp add: run_main_and_posts_def after_main_def run_main_steps_def run_main_from_trace worst_merge Let_def)

text \<open>
  C11. A job always ends with a result, and its result is what its steps and cleanup steps gave: failure
  when the runner is shutting down, else cancelled when the job was cancelled or a stage was, else
  failure when a stage failed, else success. Every main step and every registered cleanup step
  contributes exactly one result, whatever failed before it.
\<close>

theorem job_result_is_worst_stage:
  "let cleanup = after_main X J first_post steps s;
       results = main_results X J 0 steps s
         @ post_results X first_post 0 (rev (rs_posts cleanup)) Con_Success (cleanup\<lparr>rs_posts := []\<rparr>);
       (result, final) = run_main_and_posts X J first_post steps s
   in result = Ok (if ec_shutdown (rs_ctx final) then Con_Failure else if cancel_seen final then Con_Cancelled else worst results)
    \<and> length results = length steps + length (rs_posts cleanup)"
proof -
  let ?cleanup = "after_main X J first_post steps s" and ?final = "snd (run_main_and_posts X J first_post steps s)"
  let ?ms = "main_results X J 0 steps s"
  let ?ps = "post_results X first_post 0 (rev (rs_posts ?cleanup)) Con_Success (?cleanup\<lparr>rs_posts := []\<rparr>)"
  have posts: "fst (drain_post_steps X first_post ?cleanup) = worst ?ps"
    by (simp add: drain_post_steps_def drain_lifo_def drain_from_trace worst_merge)
  have "fst (run_main_and_posts X J first_post steps s) =
      Ok (merge_job (ec_shutdown (rs_ctx ?final)) (cancel_seen ?final) (worst ?ms) (worst ?ps))"
    by (simp only: run_main_and_posts_cleanup Let_def case_prod_beta posts fst_conv snd_conv)
  moreover have "merge_job a b (worst xs) (worst ys) = (if a then Con_Failure else if b then Con_Cancelled else worst (xs @ ys))" for a b xs ys
    by (auto simp: merge_job_def worst_def)
  ultimately show ?thesis
    by (simp add: Let_def case_prod_beta run_main_from_trace(2) drain_from_trace(2))
qed

subsection \<open>Reports of every stage\<close>

text \<open>What the loop relies on of the handlers of actions: they only add events.\<close>

definition handlers_append :: "run_externs \<Rightarrow> bool" where
  "handlers_append X \<longleftrightarrow>
     (\<forall>step t s. prefix (rs_events s) (rs_events (snd (rx_action X step t s))))
     \<and> (\<forall>p t s. prefix (rs_events s) (rs_events (snd (rx_post X p t s))))"

lemma events_frame [simp]:
  "rs_events (poll X s) = rs_events s" "rs_events (with_ctx f s) = rs_events s" "rs_events (emit es s) = rs_events s @ es"
  "rs_events (snd (is_forced X s)) = rs_events s" "rs_events (take_nested_posts s) = rs_events s"
  by (simp_all add: poll_def with_ctx_def emit_def is_forced_def take_nested_posts_def Let_def)

lemma prefix_snd: "f = (a, s') \<Longrightarrow> prefix xs (rs_events (snd f)) \<Longrightarrow> prefix xs (rs_events s')" by simp

lemma run_script_step_grows: "prefix (rs_events s) (rs_events (snd (run_script_step X J step timeout s)))"
proof -
  have render: "rs_events (snd (render_script_step X J step s)) = rs_events s" for s
    by (simp add: render_script_step_def Let_def split: sum.splits)
  have dispatch: "prefix (rs_events s) (rs_events (snd (run_and_dispatch_script X child step s)))" for child s
    by (simp add: run_and_dispatch_script_def split: prod.splits)
  have merge: "prefix (rs_events s) (rs_events (snd (merge_step_outputs F mgr step outs s)))" for F mgr outs s
    by (simp add: merge_step_outputs_def split: prod.splits)
  obtain r s1 where r: "render_script_step X J step s = (r, s1)" by force
  then have s1: "rs_events s1 = rs_events s" using render [of s] by simp
  show ?thesis
  proof (cases r)
    case (Inl e)
    then show ?thesis by (simp add: run_script_step_def r s1)
  next
    case (Inr rd)
    let ?s2 = "emit (emit_script_header (as_id step) (sn_script rd)) s1"
    let ?child = "rx_child X \<lparr>sp_script = sn_script rd, sp_shell = sn_shell rd, sp_env = sn_env rd,
                        sp_working_dir = sn_working_dir rd, sp_step_id = as_id step, sp_timeout = timeout\<rparr> (rs_clock ?s2)"
    obtain ex s3 where d: "run_and_dispatch_script X ?child step ?s2 = (ex, s3)" by force
    have s3: "prefix (rs_events s) (rs_events s3)"
      using prefix_snd [OF d dispatch] by (simp add: s1) (metis append_assoc prefix_def)
    let ?s4 = "emit (collect_summary (sr_summary ?child) (as_id step) (as_id step) (rs_ctx s3)) s3"
    show ?thesis
    proof (cases ex)
      case (Inl e)
      with s3 show ?thesis by (simp add: run_script_step_def r Inr d Let_def)
    next
      case (Inr ro)
      obtain res outs where ro: "ro = (res, outs)" by force
      obtain q s5 where m: "merge_step_outputs (sr_files ?child) (sn_file_cmds rd) step outs (emit (emit_status (as_id step) res) ?s4) = (q, s5)"
        by (rule prod.exhaust)
      have "prefix (rs_events s) (rs_events s5)"
        using s3 prefix_snd [OF m merge] by (simp add: prefix_def) (metis append_assoc)
      then show ?thesis using \<open>r = Inr rd\<close> by (simp add: run_script_step_def r Inr ro d m Let_def case_prod_beta)
    qed
  qed
qed

lemma run_action_step_grows:
  assumes "handlers_append X"
  shows "prefix (rs_events s) (rs_events (snd (run_action_step X step timeout s)))"
proof -
  obtain r s1 where r: "rx_action X step timeout s = (r, s1)" by force
  then have s1: "prefix (rs_events s) (rs_events s1)" using assms by (metis handlers_append_def snd_conv)
  have "rs_events (snd (save_action_result step out s)) = rs_events s" for out s
    by (simp add: save_action_result_def Let_def split: option.splits)
  then show ?thesis using s1
    by (auto simp: run_action_step_def r Let_def case_prod_beta split: sum.splits runner_error.split)
qed

lemma execute_step_grows:
  "handlers_append X \<Longrightarrow> prefix (rs_events s) (rs_events (snd (execute_step X J step timeout s)))"
  by (simp add: execute_step_def run_script_step_grows run_action_step_grows)

lemma record_step_result_grows: "prefix (rs_events s) (rs_events (snd (record_step_result X step outcome s)))"
  by (simp add: record_step_result_def Let_def case_prod_beta)

lemma execute_post_grows:
  assumes "handlers_append X"
  shows "prefix (rs_events s) (rs_events (snd (execute_post X p timeout s)))"
  using assms by (simp add: execute_post_def handlers_append_def split: runs_using.splits)

text \<open>A stage's report: it starts, it ends with its conclusion, and everything between is its own.\<close>

definition reported :: "string \<Rightarrow> nat \<Rightarrow> conclusion \<Rightarrow> runner_event list \<Rightarrow> bool" where
  "reported i number c es \<longleftrightarrow> (\<exists>name body outputs. es = StepStarted i name number # body @ [StepCompleted i c outputs])"

lemma execute_started_step_reports:
  assumes "handlers_append X" and run: "execute_started_step X J step s = (Ok c, s')"
  shows "\<exists>body outputs. rs_events s' = rs_events s @ body @ [StepCompleted (as_id step) c outputs]"
proof -
  let ?t = "resolve_timeout (rx_step X) (as_id step) (as_timeout_in_minutes step) (rs_ctx (poll X s))"
  obtain r s1 where e: "execute_step X J step (fst ?t) (emit (snd ?t) (poll X s)) = (r, s1)" by (rule prod.exhaust)
  have s1: "prefix (rs_events s) (rs_events s1)"
    using prefix_snd [OF e execute_step_grows [OF assms(1)]] by (auto simp: prefix_def)
  let ?q = "case r of Inr r \<Rightarrow> (r, s1) | Inl err \<Rightarrow> ((Con_Failure, []), emit (report_step_error (rx_step X) (as_id step) err) s1)"
  have q: "prefix (rs_events s) (rs_events (snd ?q))" using s1 by (auto split: sum.split)
  obtain c' s2 where rec: "record_step_result X step (fst (fst ?q)) (snd ?q) = (c', s2)" by (rule prod.exhaust)
  have s2: "prefix (rs_events s) (rs_events s2)"
    by (rule prefix_order.trans [OF q prefix_snd [OF rec record_step_result_grows]])
  from run have "c = c'" "s' = emit (complete_step step c' (snd (fst ?q))) s2"
    using rec by (cases r; simp add: execute_started_step_def Let_def case_prod_beta e)+
  with s2 show ?thesis by (auto simp: complete_step_def prefix_def)
qed

lemma prepare_step_events: "rs_events (snd (snd (prepare_step X step name s))) = rs_events s"
  by (simp add: prepare_step_def Let_def case_prod_beta)

lemma run_single_step_reports:
  assumes "handlers_append X" and "run_single_step X J step number s = (Ok r, s')"
  shows "\<exists>c es. rs_events s' = rs_events s @ es \<and> reported (as_id step) number c es \<and> (c = r \<or> c = Con_Skipped \<and> r = Con_Success)"
proof -
  have skipped: "\<exists>es. rs_events (report_skipped_step step n number t) = rs_events t @ es \<and> reported (as_id step) number Con_Skipped es" for n t
    by (auto simp: report_skipped_step_def start_step_def complete_step_def reported_def)
  have failed: "\<exists>es. rs_events (record_condition_failure X step n number e t) = rs_events t @ es \<and> reported (as_id step) number Con_Failure es" for n e t
    by (auto simp: record_condition_failure_def report_step_failure_def start_step_def reported_def Let_def)
  have started: "\<exists>es. rs_events s' = rs_events t @ es \<and> reported (as_id step) number c es"
    if "execute_started_step X J step (emit (start_step step n number) t) = (Ok c, s')" for n t c s'
    using execute_started_step_reports [OF assms(1) that] by (fastforce simp: start_step_def reported_def)
  obtain forced s1 where f: "is_forced X s = (forced, s1)" by force
  then have s1: "rs_events s1 = rs_events s" by (metis events_frame(4) snd_conv)
  show ?thesis
  proof (cases forced)
    case True
    with assms(2) skipped [of _ s1] show ?thesis by (auto simp: run_single_step_def f s1)
  next
    case False
    obtain v n s2 where p: "prepare_step X step \<lparr>st_name = sd_current (display_for (rx_step X) step (rs_ctx s)), st_warning = None\<rparr> s1 = (v, n, s2)"
      by (rule prod_cases3)
    then have s2: "rs_events s2 = rs_events s" using s1 by (metis prepare_step_events snd_conv)
    consider e where "v = Inl e" | "v = Inr False" | "v = Inr True" by (metis (full_types) sum.exhaust)
    then show ?thesis
    proof cases
      case (1 e)
      with assms(2) False p failed [of n e s2] s2 show ?thesis by (auto simp: run_single_step_def f)
    next
      case 2
      with assms(2) False p skipped [of n s2] s2 show ?thesis by (auto simp: run_single_step_def f)
    next
      case 3
      with assms(2) False p started [of n s2 r s'] s2 show ?thesis by (auto simp: run_single_step_def f)
    qed
  qed
qed

text \<open>The part of an iteration around the step itself.\<close>

lemma main_one_step:
  assumes "run_single_step X J step (post_number (u32_add 2 (ec_docker_setup_count (rs_ctx (note_cancellation X s)))) index)
      (with_ctx (\<lambda>ctx. clear_repository (set_name step ctx)) (note_cancellation X s)) = (q, u)"
  shows "main_one X J index step s =
    (q, with_ctx (\<lambda>ctx. (if q = Ok Con_Cancelled then record_job_cancelled else id)
          (restore_metadata (capture_metadata (rs_ctx (note_cancellation X s))) ctx)) u)"
  using assms by (simp add: main_one_def Let_def with_ctx_def)

lemma note_cancellation_events [simp]: "rs_events (note_cancellation X s) = rs_events s"
  by (simp add: note_cancellation_def Let_def)

lemma main_one_reports:
  assumes "handlers_append X" and "main_one X J index step s = (Ok r, s')"
  shows "\<exists>c number es. rs_events s' = rs_events s @ es \<and> reported (as_id step) number c es \<and> (c = r \<or> c = Con_Skipped \<and> r = Con_Success)"
proof -
  let ?n = "post_number (u32_add 2 (ec_docker_setup_count (rs_ctx (note_cancellation X s)))) index"
  let ?t = "with_ctx (\<lambda>ctx. clear_repository (set_name step ctx)) (note_cancellation X s)"
  obtain q u where run: "run_single_step X J step ?n ?t = (q, u)" by (rule prod.exhaust)
  from assms(2) main_one_step [OF run] have "q = Ok r" "rs_events s' = rs_events u" by auto
  with run_single_step_reports [OF assms(1), of J step ?n ?t r u] run show ?thesis by auto
qed

text \<open>A cleanup step that fails to be evaluated or is interrupted ends in the drain itself.\<close>

lemma run_scoped_post_reports:
  assumes "handlers_append X" "run_scoped_post X p number s = (r, s')"
  shows "\<exists>name body. rs_events s' = rs_events s @ StepStarted (ps_report_id p) name number # body
    @ (case r of Inr c \<Rightarrow> [StepCompleted (ps_report_id p) c []] | Inl e \<Rightarrow> [])"
proof -
  let ?i = "ps_report_id p"
  let ?h = "emit (emit_post_header ?i (sd_current (display_for (rx_step X) (ps_step p) (rs_ctx s))) number) s"
  obtain name hb where h: "rs_events ?h = rs_events s @ StepStarted ?i name number # hb" by (simp add: emit_post_header_def)
  obtain forced s1 where f: "is_forced X ?h = (forced, s1)" by (rule prod.exhaust)
  have s1: "rs_events s1 = rs_events ?h" using events_frame(4) [of X ?h] unfolding f by simp
  obtain c n where snap: "take_snapshot (rx_step X) (rs_ctx s1) = (c, n)" by (rule prod.exhaust)
  define verdict where "verdict = (if forced then Ok False
    else rbind (evaluate_with (rx_step X) (c\<lparr>job_status := live_job_status (rs_ctx s1)\<rparr>, n) (effective_condition p)) (\<lambda>v. Ok (is_truthy v)))"
  consider e where "verdict = Inl e" | "verdict = Inr False" | "verdict = Inr True" by (metis (full_types) sum.exhaust)
  then show ?thesis
  proof cases
    case (1 e)
    then have "r = Inl e" "s' = s1"
      using assms(2) by (simp_all add: run_scoped_post_def Let_def f snap verdict_def [symmetric])
    with s1 h show ?thesis by auto
  next
    case 2
    then have "r = Inr Con_Skipped" "s' = emit (skip_post ?i (''post-if '' @ in_quotes (effective_condition p) @ '' evaluated to false'')) s1"
      using assms(2) by (simp_all add: run_scoped_post_def Let_def f snap verdict_def [symmetric])
    with s1 h show ?thesis by (auto simp: skip_post_def complete_post_def)
  next
    case 3
    let ?m = "emit (emit_action_metadata ?i (as_reference (ps_step p)) (runs_kind (ad_runs (ps_manifest p)))) s1"
    obtain t es where t: "resolve_timeout (rx_step X) ?i (as_timeout_in_minutes (ps_step p)) (rs_ctx ?m) = (t, es)" by (rule prod.exhaust)
    obtain q s2 where q: "execute_post X p t (emit es ?m) = (q, s2)" by (rule prod.exhaust)
    have "prefix (rs_events s1) (rs_events s2)"
      using prefix_snd [OF q execute_post_grows [OF assms(1)]] by (auto simp: prefix_def)
    then obtain b where s2: "rs_events s2 = rs_events s @ StepStarted ?i name number # hb @ b" using s1 h by (auto simp: prefix_def)
    have "\<exists>cc b'. (q = Inl Job_Cancelled \<and> r = Inl Job_Cancelled \<and> s' = s2)
        \<or> (r = Inr cc \<and> rs_events s' = rs_events s2 @ b' @ [StepCompleted ?i cc []])"
      using assms(2) 3 unfolding run_scoped_post_def Let_def f snap prod.case verdict_def [symmetric]
      by (auto simp: Let_def f snap t q complete_post_def case_prod_beta split: sum.splits runner_error.splits)
    with s2 show ?thesis by auto
  qed
qed

lemma run_one_post_reports:
  assumes "handlers_append X" "run_one_post X p number s = (r, s')"
  shows "\<exists>name body. rs_events s' = rs_events s @ StepStarted (ps_report_id p) name number # body
    @ (case r of Inr c \<Rightarrow> [StepCompleted (ps_report_id p) c []] | Inl e \<Rightarrow> [])"
proof -
  let ?s = "with_ctx (\<lambda>ctx. push_step_env (ps_step_env p) (restore_step_scope (ps_scope_path p)
                (set_reference (as_reference (ps_step p)) (set_github_context ''action'' (ps_action_name p) ctx)))) s"
  obtain q u where run: "run_scoped_post X p number ?s = (q, u)" by (rule prod.exhaust)
  then have "r = q" "rs_events s' = rs_events u" using assms(2) by (auto simp: run_one_post_def Let_def)
  with run_scoped_post_reports [OF assms(1) run] show ?thesis by simp
qed

lemma drain_one_reports:
  assumes "handlers_append X"
  shows "\<exists>es. rs_events (snd (drain_one X number p aggregate s)) = rs_events s @ es
    \<and> reported (ps_report_id p) number (post_verdict (fst (run_one_post X p number (note_cancellation X s)))) es"
proof -
  obtain r s' where run: "run_one_post X p number (note_cancellation X s) = (r, s')" by force
  from run_one_post_reports [OF assms run] obtain name body where
    ev: "rs_events s' = rs_events s @ StepStarted (ps_report_id p) name number # body
      @ (case r of Inr c \<Rightarrow> [StepCompleted (ps_report_id p) c []] | Inl e \<Rightarrow> [])" by auto
  have "rs_events (snd (drain_one X number p aggregate s)) = rs_events (snd (settle_post X p (r, s')))"
    by (simp add: drain_one_def Let_def run case_prod_beta)
  moreover have "\<exists>b. rs_events (snd (settle_post X p (r, s'))) = rs_events s @ StepStarted (ps_report_id p) name number # b
      @ [StepCompleted (ps_report_id p) (post_verdict r) []]"
    using ev by (cases r) (auto simp: settle_post_def post_verdict_def complete_post_def report_post_error_def log_post_error_def)
  ultimately show ?thesis by (auto simp: run reported_def)
qed

lemma drain_from_reports:
  assumes "handlers_append X"
  shows "\<exists>segments. rs_events (snd (drain_from X first index ps aggregate s)) = rs_events s @ concat segments
    \<and> length segments = length ps
    \<and> (\<forall>i < length ps. reported (ps_report_id (ps ! i)) (post_number first (index + i)) (post_results X first index ps aggregate s ! i) (segments ! i))"
proof (induction ps arbitrary: index aggregate s)
  case (Cons p ps)
  obtain a s' where d: "drain_one X (post_number first index) p aggregate s = (a, s')" by force
  from drain_one_reports [OF assms, of "post_number first index" p aggregate s] d obtain es where
    es: "rs_events s' = rs_events s @ es"
      "reported (ps_report_id p) (post_number first index) (post_verdict (fst (run_one_post X p (post_number first index) (note_cancellation X s)))) es"
    by auto
  from Cons.IH [of "Suc index" a s'] obtain segments where
    seg: "rs_events (snd (drain_from X first (Suc index) ps a s')) = rs_events s' @ concat segments" "length segments = length ps"
      "\<forall>i < length ps. reported (ps_report_id (ps ! i)) (post_number first (Suc index + i)) (post_results X first (Suc index) ps a s' ! i) (segments ! i)"
    by blast
  show ?case
  proof (intro exI [of _ "es # segments"] conjI allI impI)
    fix i assume "i < length (p # ps)"
    with es(2) seg(3) d show "reported (ps_report_id ((p # ps) ! i)) (post_number first (index + i))
        (post_results X first index (p # ps) aggregate s ! i) ((es # segments) ! i)"
      by (cases i) auto
  qed (use es(1) seg(1,2) d in simp_all)
qed simp

lemma main_state_reports:
  assumes "handlers_append X"
  shows "\<exists>segments. rs_events (main_state X J index steps s) = rs_events s @ concat segments \<and> length segments = length steps
    \<and> (\<forall>i < length steps. \<exists>number c. reported (as_id (steps ! i)) number c (segments ! i)
         \<and> (c = main_results X J index steps s ! i \<or> c = Con_Skipped \<and> main_results X J index steps s ! i = Con_Success))"
proof (induction steps arbitrary: index s)
  case (Cons step steps)
  obtain r s' where m: "main_one X J index step s = (Ok r, s')" using main_one_ok by blast
  from main_one_reports [OF assms m] obtain c number es where
    es: "rs_events s' = rs_events s @ es" "reported (as_id step) number c es" "c = r \<or> c = Con_Skipped \<and> r = Con_Success" by blast
  from Cons.IH [of "Suc index" s'] obtain segments where
    seg: "rs_events (main_state X J (Suc index) steps s') = rs_events s' @ concat segments" "length segments = length steps"
      "\<forall>i < length steps. \<exists>number c. reported (as_id (steps ! i)) number c (segments ! i)
         \<and> (c = main_results X J (Suc index) steps s' ! i \<or> c = Con_Skipped \<and> main_results X J (Suc index) steps s' ! i = Con_Success)"
    by blast
  show ?case
  proof (intro exI [of _ "es # segments"] conjI allI impI)
    fix i assume "i < length (step # steps)"
    with es(2,3) seg(3) m show "\<exists>number c. reported (as_id ((step # steps) ! i)) number c ((es # segments) ! i)
         \<and> (c = main_results X J index (step # steps) s ! i \<or> c = Con_Skipped \<and> main_results X J index (step # steps) s ! i = Con_Success)"
      by (cases i) auto
  qed (use es(1) seg(1,2) m in simp_all)
qed simp


subsection \<open>A concrete runner\<close>

text \<open>Scripts print their text and succeed unless they are \<open>exit 1\<close>; actions succeed at once.\<close>

definition plain_step_externs :: step_externs where
  "plain_step_externs = \<lparr>sx_expr = plain_externs, sx_hash_keys = (\<lambda>P. []), sx_error_text = (\<lambda>_. ''error'')\<rparr>"

definition plain_run :: run_externs where
  "plain_run =
     \<lparr>rx_step = plain_step_externs, rx_dispatch = plain_dispatch_externs,
      rx_signals = (\<lambda>_. \<lparr>sg_request = False, sg_shutdown = False, sg_deadline = False\<rparr>),
      rx_process_env = [], rx_process_path = None, rx_create_error = (\<lambda>_. None),
      rx_child = (\<lambda>p _. \<lparr>sr_items = [Out_Line (sp_script p) Stdout],
        sr_result = Ok (if sp_script p = ''exit 1'' then Con_Failure else Con_Success),
        sr_files = \<lparr>fx_read = (\<lambda>_. File_Not_Found), fx_join_error = None\<rparr>, sr_summary = Summary_Absent\<rparr>),
      rx_action = (\<lambda>_ _ s. (Ok \<lparr>out_conclusion = Con_Success, out_post = None, out_outputs = []\<rparr>, s)),
      rx_post = (\<lambda>_ _ s. (Ok Con_Success, s))\<rparr>"

definition plain_job_run :: job_run where
  "plain_job_run = \<lparr>jr_workspace = [''/'', ''w''], jr_data_dir = ''/d'', jr_defaults = no_defaults\<rparr>"

definition plain_state :: run_state where
  "plain_state = \<lparr>rs_ctx = plain_job, rs_posts = [], rs_depth = new_tracker, rs_events = [], rs_clock = 0, rs_force = False\<rparr>"


subsection \<open>Steps after a failure\<close>

text \<open>
  What the loop relies on: cancellation and shutdown tokens stay set, and the handler of an action
  neither turns the clock back nor clears a recorded failure.
\<close>

definition tokens_latch :: "run_externs \<Rightarrow> bool" where
  "tokens_latch X \<longleftrightarrow> (\<forall>m n. m \<le> n \<longrightarrow> sg_request (rx_signals X m) \<longrightarrow> sg_request (rx_signals X n))"

definition handlers_keep_failure :: "run_externs \<Rightarrow> bool" where
  "handlers_keep_failure X \<longleftrightarrow> (\<forall>step t s.
     rs_clock s \<le> rs_clock (snd (rx_action X step t s))
     \<and> (ec_job_status (rs_ctx s) \<noteq> Success \<longrightarrow> ec_job_status (rs_ctx (snd (rx_action X step t s))) \<noteq> Success))"

text \<open>A job that cannot succeed any more: a failure is recorded, or it has been cancelled.\<close>

definition doomed :: "run_externs \<Rightarrow> run_state \<Rightarrow> bool" where
  "doomed X s \<longleftrightarrow> ec_job_status (rs_ctx s) \<noteq> Success \<or> (\<forall>n \<ge> rs_clock s. sg_request (rx_signals X n))"

text \<open>Operations that leave the recorded status and the clock alone, or move both forward.\<close>

definition advances :: "run_state \<Rightarrow> run_state \<Rightarrow> bool" where
  "advances s s' \<longleftrightarrow> rs_clock s \<le> rs_clock s' \<and> (ec_job_status (rs_ctx s) \<noteq> Success \<longrightarrow> ec_job_status (rs_ctx s') \<noteq> Success)"

lemma advances_refl [simp, intro]: "advances s s" by (simp add: advances_def)

lemma advances_trans [trans]: "advances s t \<Longrightarrow> advances t u \<Longrightarrow> advances s u" by (auto simp: advances_def)

lemma advances_doomed: "doomed X s \<Longrightarrow> advances s s' \<Longrightarrow> doomed X s'"
  by (auto simp: doomed_def advances_def)

lemma status_frame [simp]:
  "ec_job_status (set_step_outcome n c ctx) = ec_job_status ctx" "ec_job_status (set_step_conclusion n c ctx) = ec_job_status ctx"
  "ec_job_status (set_step_output n k v ctx) = ec_job_status ctx" "ec_job_status (set_step_state i k v ctx) = ec_job_status ctx"
  "ec_job_status (set_env k v ctx) = ec_job_status ctx" "ec_job_status (set_github_context k v ctx) = ec_job_status ctx"
  "ec_job_status (set_github_context_value k x ctx) = ec_job_status ctx"
  "ec_job_status (push_step_env e ctx) = ec_job_status ctx" "ec_job_status (pop_step_env ctx) = ec_job_status ctx"
  "ec_job_status (set_step_display i d ctx) = ec_job_status ctx" "ec_job_status (clear_repository ctx) = ec_job_status ctx"
  "ec_job_status (set_name step ctx) = ec_job_status ctx" "ec_job_status (record_results step c ctx) = ec_job_status ctx"
  by (simp_all add: set_step_outcome_def set_step_conclusion_def set_step_output_def update_step_def set_step_state_def set_env_def
      set_github_context_def set_github_context_value_def push_step_env_def pop_step_env_def set_step_display_def clear_repository_def
      set_name_def record_results_def Let_def split: option.splits)

lemma status_fold:
  assumes "\<And>x ctx. ec_job_status (f x ctx) = ec_job_status ctx"
  shows "ec_job_status (fold f xs ctx) = ec_job_status ctx"
  using assms by (induction xs arbitrary: ctx) simp_all

lemma status_restore [simp]: "ec_job_status (restore_metadata vs ctx) = ec_job_status ctx"
  unfolding restore_metadata_def by (simp add: status_fold case_prod_beta)

lemma status_record [simp]:
  "ec_job_status ctx \<noteq> Success \<Longrightarrow> ec_job_status (record_step_failure ctx) \<noteq> Success"
  "ec_job_status (record_job_cancelled ctx) \<noteq> Success"
  by (simp_all add: record_step_failure_def record_job_cancelled_def)

lemma advances_basic [simp]:
  "advances s (emit es s)" "advances s (poll X s)" "advances s (take_nested_posts s)"
  by (simp_all add: advances_def emit_def poll_def take_nested_posts_def Let_def)

lemma advances_with_ctx: "(\<And>ctx. ec_job_status ctx \<noteq> Success \<Longrightarrow> ec_job_status (f ctx) \<noteq> Success) \<Longrightarrow> advances s (with_ctx f s)"
  by (simp add: advances_def with_ctx_def)

lemma stream_items_status: "ec_job_status (snd (snd (stream_items X items dc))) = ec_job_status (snd dc)"
proof (induction X items dc rule: stream_items.induct)
  case (3 X line stream rest dc)
  obtain d ctx where dc: "dc = (d, ctx)" by force
  obtain es d1 ctx1 where run: "stream_process X [(line, stream)] dc = (es, d1, ctx1)" by (rule prod_cases3)
  have "output_frame ctx ctx1" using stream_process_frame [of ctx X "[(line, stream)]" d] run by (simp add: dc)
  then have "ec_job_status ctx1 = ec_job_status ctx" unfolding output_frame_def by (drule_tac f = ec_job_status in arg_cong) simp
  with 3 [OF run [symmetric]] run show ?case by (simp add: dc case_prod_beta del: stream_process.simps)
qed (simp_all add: case_prod_beta)

lemma file_commands_status:
  assumes "apply_file_commands_and_merge_outputs F scope outs mgr ctx = (a, b, c, ctx')"
  shows "ec_job_status ctx' = ec_job_status ctx"
  using assms
  by (auto simp: apply_file_commands_and_merge_outputs_def apply_file_commands_def Let_def case_prod_beta status_fold prepend_path_def
      split: option.splits if_splits)

lemma advances_ctx: "ec_job_status ctx = ec_job_status (rs_ctx s) \<Longrightarrow> advances s (s\<lparr>rs_ctx := ctx\<rparr>)"
  by (simp add: advances_def)

lemma run_script_step_advances: "advances s (snd (run_script_step X J step timeout s))"
proof -
  have render: "advances s (snd (render_script_step X J step s))" for s
    by (auto simp: render_script_step_def Let_def with_ctx_def advances_def split: sum.splits)
  have dispatch: "advances s (snd (run_and_dispatch_script X child step s))" for child s
  proof -
    let ?d = "new_dispatcher (as_id step) (as_id step) (expression_name step)"
    obtain es d ctx where run: "stream_items (rx_dispatch X) (sr_items child) (?d, rs_ctx s) = (es, d, ctx)" by (rule prod_cases3)
    then have "ec_job_status ctx = ec_job_status (rs_ctx s)" using stream_items_status [of "rx_dispatch X" "sr_items child" "(?d, rs_ctx s)"] by simp
    then show ?thesis by (simp add: run_and_dispatch_script_def run advances_def emit_def)
  qed
  have merge: "advances s (snd (merge_step_outputs F mgr step outs s))" for F mgr outs s
    by (auto simp: merge_step_outputs_def advances_def emit_def dest: file_commands_status split: prod.splits)
  obtain r s1 where r: "render_script_step X J step s = (r, s1)" by force
  have s1: "advances s s1" using render [of s] r by simp
  show ?thesis
  proof (cases r)
    case (Inl e)
    with s1 show ?thesis by (simp add: run_script_step_def r)
  next
    case (Inr rd)
    let ?s2 = "emit (emit_script_header (as_id step) (sn_script rd)) s1"
    let ?child = "rx_child X \<lparr>sp_script = sn_script rd, sp_shell = sn_shell rd, sp_env = sn_env rd,
                        sp_working_dir = sn_working_dir rd, sp_step_id = as_id step, sp_timeout = timeout\<rparr> (rs_clock ?s2)"
    obtain ex s3 where d: "run_and_dispatch_script X ?child step ?s2 = (ex, s3)" by (rule prod.exhaust)
    let ?s4 = "emit (collect_summary (sr_summary ?child) (as_id step) (as_id step) (rs_ctx s3)) s3"
    have "advances ?s2 s3" using dispatch [of ?s2 ?child] d by simp
    then have s4: "advances s ?s4" using s1 by (meson advances_basic(1) advances_trans)
    show ?thesis
    proof (cases ex)
      case (Inl e)
      with s4 \<open>r = Inr rd\<close> show ?thesis by (simp add: run_script_step_def r d Let_def)
    next
      case (Inr ro)
      obtain res outs where ro: "ro = (res, outs)" by force
      obtain q s5 where m: "merge_step_outputs (sr_files ?child) (sn_file_cmds rd) step outs (emit (emit_status (as_id step) res) ?s4) = (q, s5)"
        by (rule prod.exhaust)
      then have "advances (emit (emit_status (as_id step) res) ?s4) s5" using merge by (metis snd_conv)
      then have "advances s s5" using s4 by (meson advances_basic(1) advances_trans)
      then show ?thesis using \<open>r = Inr rd\<close> by (simp add: run_script_step_def r Inr ro d m Let_def case_prod_beta)
    qed
  qed
qed

lemma run_action_step_advances:
  assumes "handlers_keep_failure X"
  shows "advances s (snd (run_action_step X step timeout s))"
proof -
  obtain r s1 where r: "rx_action X step timeout s = (r, s1)" by force
  then have "advances s s1" using assms by (metis advances_def handlers_keep_failure_def snd_conv)
  then have s1: "advances s (take_nested_posts s1)" by (meson advances_basic(3) advances_trans)
  have save: "advances t (snd (save_action_result step out t))" for out t
    by (auto simp: save_action_result_def Let_def advances_def with_ctx_def status_fold split: option.splits)
  show ?thesis
    using s1 advances_trans [OF s1 save]
    by (auto simp: run_action_step_def r Let_def case_prod_beta split: sum.splits runner_error.split)
qed

lemma record_step_result_advances: "advances s (snd (record_step_result X step outcome s))"
  by (auto simp: record_step_result_def Let_def case_prod_beta advances_def with_ctx_def emit_def poll_def split: option.splits)

lemma execute_started_step_advances:
  assumes "handlers_keep_failure X"
  shows "advances s (snd (execute_started_step X J step s))"
proof -
  let ?t = "resolve_timeout (rx_step X) (as_id step) (as_timeout_in_minutes step) (rs_ctx (poll X s))"
  obtain r s1 where e: "execute_step X J step (fst ?t) (emit (snd ?t) (poll X s)) = (r, s1)" by (rule prod.exhaust)
  have "advances (emit (snd ?t) (poll X s)) s1"
    using e run_script_step_advances run_action_step_advances [OF assms] unfolding execute_step_def by (metis snd_conv)
  then have s1: "advances s s1" by (meson advances_basic advances_trans)
  let ?q = "case r of Inr r \<Rightarrow> (r, s1) | Inl err \<Rightarrow> ((Con_Failure, []), emit (report_step_error (rx_step X) (as_id step) err) s1)"
  have "advances s (snd ?q)" using s1 by (auto split: sum.split intro: advances_trans)
  then have "advances s (snd (record_step_result X step (fst (fst ?q)) (snd ?q)))"
    using record_step_result_advances advances_trans by blast
  then have "advances s (emit (complete_step step (fst (record_step_result X step (fst (fst ?q)) (snd ?q))) (snd (fst ?q)))
      (snd (record_step_result X step (fst (fst ?q)) (snd ?q))))" using advances_basic(1) advances_trans by blast
  then show ?thesis by (cases r; simp add: execute_started_step_def Let_def case_prod_beta e)
qed

lemma prepare_step_advances: "advances s (snd (snd (prepare_step X step name s)))"
  by (auto simp: prepare_step_def Let_def case_prod_beta name_at_main_def advances_def poll_def)

lemma is_forced_advances: "advances s (snd (is_forced X s))"
  by (simp add: is_forced_def Let_def advances_def poll_def)

lemma run_single_step_advances:
  assumes "handlers_keep_failure X"
  shows "advances s (snd (run_single_step X J step number s))"
proof -
  have skip: "advances t (report_skipped_step step n number t)" for n t
    by (simp add: report_skipped_step_def advances_def emit_def with_ctx_def)
  have fail: "advances t (record_condition_failure X step n number e t)" for n e t
    by (simp add: record_condition_failure_def advances_def emit_def with_ctx_def poll_def Let_def)
  obtain forced s1 where f: "is_forced X s = (forced, s1)" by force
  then have s1: "advances s s1" using is_forced_advances [of s X] by simp
  let ?n = "\<lparr>st_name = sd_current (display_for (rx_step X) step (rs_ctx s)), st_warning = None\<rparr>"
  obtain v n s2 where p: "prepare_step X step ?n s1 = (v, n, s2)" by (rule prod_cases3)
  then have s2: "advances s s2" using prepare_step_advances [of s1 X step ?n] s1 advances_trans by auto
  have started: "advances s (snd (execute_started_step X J step (emit es s2)))" for es
    using advances_trans [OF s2 advances_trans [OF advances_basic(1) execute_started_step_advances [OF assms]]] .
  consider e where "v = Inl e" | "v = Inr False" | "v = Inr True" by (metis (full_types) sum.exhaust)
  then show ?thesis
    by cases (use f p advances_trans [OF s1 skip] advances_trans [OF s2 skip] advances_trans [OF s2 fail] started in
      \<open>auto simp: run_single_step_def Let_def\<close>)
qed

lemma main_one_advances:
  assumes "handlers_keep_failure X"
  shows "advances s (snd (main_one X J index step s))"
proof -
  let ?t = "with_ctx (\<lambda>ctx. clear_repository (set_name step ctx)) (note_cancellation X s)"
  let ?n = "post_number (u32_add 2 (ec_docker_setup_count (rs_ctx (note_cancellation X s)))) index"
  obtain q u where run: "run_single_step X J step ?n ?t = (q, u)" by (rule prod.exhaust)
  have "advances s ?t" by (simp add: advances_def with_ctx_def note_cancellation_def poll_def Let_def)
  moreover have "advances ?t u" using run_single_step_advances [OF assms, of ?t J step ?n] run by simp
  moreover have "advances u (snd (main_one X J index step s))"
    unfolding main_one_step [OF run] by (simp add: advances_def with_ctx_def)
  ultimately show ?thesis by (meson advances_trans)
qed

lemma failure_dooms:
  assumes "tokens_latch X" and "rs_clock t = rs_clock (poll X s)"
    and "ec_request_cancelled (rs_ctx t) = ec_request_cancelled (rs_ctx (poll X s))" "ec_shutdown (rs_ctx t) = ec_shutdown (rs_ctx (poll X s))"
  shows "doomed X (with_ctx record_step_failure t)"
proof (cases "sg_request (rx_signals X (rs_clock s))")
  case True
  then have "\<forall>n \<ge> rs_clock t. sg_request (rx_signals X n)"
    using assms(1) unfolding assms(2) tokens_latch_def by (simp add: poll_def Let_def) (meson Suc_leD)
  then show ?thesis by (simp add: doomed_def with_ctx_def)
next
  case False
  then show ?thesis using assms(3,4)
    by (auto simp: doomed_def with_ctx_def record_step_failure_def live_job_status_def cancellation_status_def poll_def Let_def split: if_splits)
qed

lemma tokens_frame [simp]:
  "ec_request_cancelled (set_step_outcome n c ctx) = ec_request_cancelled ctx" "ec_shutdown (set_step_outcome n c ctx) = ec_shutdown ctx"
  "ec_request_cancelled (record_results step c ctx) = ec_request_cancelled ctx" "ec_shutdown (record_results step c ctx) = ec_shutdown ctx"
  by (simp_all add: set_step_outcome_def set_step_conclusion_def update_step_def record_results_def Let_def split: option.splits)

lemma doomed_frame [simp]: "doomed X (emit es s) = doomed X s"
  by (simp add: doomed_def emit_def)

lemma doomed_ctx: "doomed X s \<Longrightarrow> (\<And>ctx. ec_job_status (f ctx) = ec_job_status ctx) \<Longrightarrow> doomed X (with_ctx f s)"
  by (simp add: doomed_def with_ctx_def)

lemma record_step_result_dooms:
  assumes "tokens_latch X" "record_step_result X step outcome s = (Con_Failure, s')"
  shows "doomed X s'"
proof -
  let ?u = "with_ctx (\<lambda>ctx. case expression_name step of Some name \<Rightarrow> set_step_outcome name outcome ctx | None \<Rightarrow> ctx) (poll X s)"
  obtain adj es where r: "(if outcome = Con_Failure
      then resolve_continue_on_error (rx_step X) (as_id step) (as_continue_on_error step) (rs_ctx ?u) else (False, [])) = (adj, es)"
    by (rule prod.exhaust)
  have s': "s' = with_ctx (\<lambda>ctx. case expression_name step of Some name \<Rightarrow> set_step_conclusion name Con_Failure ctx | None \<Rightarrow> ctx)
      (with_ctx record_step_failure (emit es ?u))"
    using assms(2) by (auto simp: record_step_result_def Let_def r split: if_splits)
  have "doomed X (with_ctx record_step_failure (emit es ?u))"
    by (rule failure_dooms [OF assms(1), of _ s]) (simp_all add: emit_def with_ctx_def split: option.splits)
  then show ?thesis unfolding s' by (rule doomed_ctx) (simp split: option.splits)
qed

lemma run_single_step_dooms:
  assumes "tokens_latch X" "run_single_step X J step number s = (Ok Con_Failure, s')"
  shows "doomed X s'"
proof -
  have fail: "doomed X (record_condition_failure X step n number e t)" for n e t
  proof -
    let ?t = "with_ctx (record_results step Con_Failure) (emit (start_step step n number) t)"
    have "doomed X (with_ctx record_step_failure (poll X ?t))" by (rule failure_dooms [OF assms(1), of _ ?t]) simp_all
    then show ?thesis by (simp add: record_condition_failure_def Let_def)
  qed
  have started: "doomed X t'" if "execute_started_step X J step t = (Ok Con_Failure, t')" for t t'
    using that record_step_result_dooms [OF assms(1)]
    by (auto simp: execute_started_step_def Let_def split: prod.splits sum.splits)
  show ?thesis
    using assms(2) fail started by (auto simp: run_single_step_def Let_def split: if_splits prod.splits sum.splits bool.splits)
qed

lemma main_one_dooms:
  assumes "tokens_latch X" "main_one X J index step s = (Ok Con_Failure, s')"
  shows "doomed X s'"
proof -
  let ?t = "with_ctx (\<lambda>ctx. clear_repository (set_name step ctx)) (note_cancellation X s)"
  let ?n = "post_number (u32_add 2 (ec_docker_setup_count (rs_ctx (note_cancellation X s)))) index"
  obtain q u where run: "run_single_step X J step ?n ?t = (q, u)" by (rule prod.exhaust)
  from assms(2) main_one_step [OF run] have q: "q = Ok Con_Failure"
    and s': "s' = with_ctx (restore_metadata (capture_metadata (rs_ctx (note_cancellation X s)))) u" by auto
  show ?thesis unfolding s' by (rule doomed_ctx) (use run_single_step_dooms [OF assms(1)] run q in auto)
qed

lemma main_state_advances: "handlers_keep_failure X \<Longrightarrow> advances s (main_state X J index steps s)"
proof (induction steps arbitrary: index s)
  case (Cons step steps)
  then show ?case using main_one_advances advances_trans by (metis main_state.simps(2))
qed simp

lemma posts_frame [simp]:
  "rs_posts (poll X s) = rs_posts s" "rs_posts (with_ctx f s) = rs_posts s" "rs_posts (emit es s) = rs_posts s"
  "rs_posts (snd (is_forced X s)) = rs_posts s" "rs_posts (note_cancellation X s) = rs_posts s"
  "ec_job_status (rs_ctx (snd (is_forced X s))) = ec_job_status (rs_ctx s)"
  by (simp_all add: poll_def with_ctx_def emit_def is_forced_def note_cancellation_def Let_def)

text \<open>The handlers are consulted only for a step that is started.\<close>

lemma handler_frame [simp]:
  "poll (X\<lparr>rx_action := f, rx_child := g\<rparr>) = poll X" "is_forced (X\<lparr>rx_action := f, rx_child := g\<rparr>) = is_forced X"
  "prepare_step (X\<lparr>rx_action := f, rx_child := g\<rparr>) = prepare_step X"
  "note_cancellation (X\<lparr>rx_action := f, rx_child := g\<rparr>) = note_cancellation X"
  "record_condition_failure (X\<lparr>rx_action := f, rx_child := g\<rparr>) = record_condition_failure X"
  by (intro ext, simp add: poll_def is_forced_def prepare_step_def note_cancellation_def record_condition_failure_def cong: if_cong)+

lemma default_condition_false:
  assumes "as_condition step = None" "ec_job_status ctx \<noteq> Success"
  shows "evaluate_condition X step ctx = Ok False"
proof -
  have "live_job_status ctx \<noteq> Success"
    using assms(2) by (auto simp: live_job_status_def cancellation_status_def split: option.splits)
  moreover have "trim ''success()'' = ''success()''" by code_simp
  ultimately show ?thesis by (simp add: evaluate_condition_def assms(1) literal_status_condition_def)
qed

lemma name_at_main_status: "name_at_main X step ctx = (n, w, ctx') \<Longrightarrow> ec_job_status ctx' = ec_job_status ctx"
  by (auto simp: name_at_main_def Let_def case_prod_beta split: if_splits option.splits)

lemma rbind_False [simp]: "rbind e (\<lambda>_. Ok False) \<noteq> Ok True"
  by (cases e) simp_all

lemma prepare_default_step:
  assumes "as_condition step = None" "ec_job_status (rs_ctx s) \<noteq> Success" "prepare_step X step name s = (v, n, s')"
  shows "v \<noteq> Ok True"
  using assms(3) default_condition_false [OF assms(1)] assms(2)
  by (auto simp: prepare_step_def Let_def poll_def split: prod.splits if_splits dest!: name_at_main_status)

text \<open>
  C27. After a step has failed, no later step without a condition of its own runs: whatever the steps in
  between did, its script and its action are not consulted, it registers no cleanup, and it is
  reported as skipped (or as failed, when its environment cannot be evaluated).
\<close>

theorem no_default_step_after_failure:
  assumes "tokens_latch X" "handlers_keep_failure X"
    and failed: "main_one X J i x s = (Ok Con_Failure, s1)"
    and later: "s2 = main_state X J (Suc i) between s1"
    and "as_condition y = None"
  shows "main_one (X\<lparr>rx_action := f, rx_child := g\<rparr>) J k y s2 = main_one X J k y s2
    \<and> (let (r, s3) = main_one X J k y s2
       in rs_posts s3 = rs_posts s2
        \<and> (r = Ok Con_Failure \<or> StepSkipped (as_id y) ''condition evaluated to false'' \<in> set (drop (length (rs_events s2)) (rs_events s3))))"
proof -
  have doomed: "doomed X s2"
    unfolding later using main_one_dooms [OF assms(1) failed] main_state_advances [OF assms(2)] by (rule advances_doomed)
  let ?Y = "X\<lparr>rx_action := f, rx_child := g\<rparr>"
  let ?t = "with_ctx (\<lambda>ctx. clear_repository (set_name y ctx)) (note_cancellation X s2)"
  let ?n = "post_number (u32_add 2 (ec_docker_setup_count (rs_ctx (note_cancellation X s2)))) k"
  have status: "ec_job_status (rs_ctx (note_cancellation X s2)) \<noteq> Success"
    using doomed by (auto simp: note_cancellation_def Let_def doomed_def cancel_seen_def poll_def with_ctx_def)
  obtain q u where run: "run_single_step X J y ?n ?t = (q, u)" by (rule prod.exhaust)
  have single: "run_single_step ?Y J y ?n ?t = (q, u) \<and> rs_posts u = rs_posts s2
      \<and> (q = Ok Con_Failure \<or> (\<exists>es. rs_events u = rs_events s2 @ es \<and> StepSkipped (as_id y) ''condition evaluated to false'' \<in> set es))"
  proof -
    obtain forced t1 where f: "is_forced X ?t = (forced, t1)" by (rule prod.exhaust)
    have t1: "rs_posts t1 = rs_posts s2" "rs_events t1 = rs_events s2" "ec_job_status (rs_ctx t1) \<noteq> Success"
      using status posts_frame(4,6) [of X ?t] events_frame(4) [of X ?t] unfolding f by (simp_all add: with_ctx_def)
    obtain v n t2 where p: "prepare_step X y \<lparr>st_name = sd_current (display_for (rx_step X) y (rs_ctx ?t)), st_warning = None\<rparr> t1 = (v, n, t2)"
      by (rule prod_cases3)
    have t2: "rs_posts t2 = rs_posts s2" "rs_events t2 = rs_events s2"
      using p t1 by (auto simp: prepare_step_def Let_def poll_def split: if_splits prod.splits)
    consider e where "v = Inl e" | "v = Inr False" using prepare_default_step [OF assms(5) t1(3) p] by (cases v) auto
    then show ?thesis
      by cases (use run p t1 t2 in \<open>auto simp: f run_single_step_def Let_def report_skipped_step_def record_condition_failure_def
        split: if_splits\<close>)
  qed
  moreover have "main_one ?Y J k y s2 = main_one X J k y s2"
    using main_one_step [OF run] main_one_step [of ?Y J y s2 k q u] single by simp
  ultimately show ?thesis
    by (auto simp: main_one_step [OF run] Let_def with_ctx_def)
qed

text \<open>A runner whose actions fail, and a workflow of an action between two scripts.\<close>

definition failing_run :: run_externs where
  "failing_run = plain_run\<lparr>rx_action := \<lambda>_ _ s. (Ok \<lparr>out_conclusion = Con_Failure, out_post = None, out_outputs = []\<rparr>, s)\<rparr>"

definition uses_step :: "string \<Rightarrow> action_step" where
  "uses_step i = (script_step i [] [])\<lparr>as_reference := (as_reference (script_step i [] []))\<lparr>ref_type := Some ''repository''\<rparr>, as_environment := None\<rparr>"

lemma failing_signals: "rx_signals failing_run n = \<lparr>sg_request = False, sg_shutdown = False, sg_deadline = False\<rparr>"
  by (simp add: failing_run_def plain_run_def)

lemma plain_live: "live_job_status (rs_ctx (poll failing_run s)) = ec_job_status (rs_ctx s)"
  by (simp add: poll_def failing_signals Let_def live_job_status_def cancellation_status_def)

lemma poll_status [simp]: "ec_job_status (rs_ctx (poll X s)) = ec_job_status (rs_ctx s)" "rs_force (poll X s) = rs_force s"
  by (simp_all add: poll_def Let_def)

lemma name_at_main_live: "live_job_status (snd (snd (name_at_main X step ctx))) = live_job_status ctx"
  by (simp add: name_at_main_def set_step_display_def Let_def case_prod_beta live_job_status_def cong: option.case_cong)

lemma failing_action_fails:
  assumes "ec_job_status (rs_ctx s) = Success" "\<not> rs_force s"
  shows "\<exists>s1. main_one failing_run plain_job_run 0 (uses_step i) s = (Ok Con_Failure, s1)"
proof -
  let ?y = "uses_step i"
  have y: "as_environment ?y = None" "as_condition ?y = None" "\<not> is_run_step ?y" "as_continue_on_error ?y = None" "as_timeout_in_minutes ?y = None"
    by (simp_all add: uses_step_def script_step_def is_run_step_def)
  have trim: "trim ''success()'' = ''success()''" by code_simp
  have started: "fst (execute_started_step failing_run plain_job_run ?y t) = Ok Con_Failure" for t
    by (simp add: execute_started_step_def execute_step_def y run_action_step_def save_action_result_def record_step_result_def Let_def
        failing_run_def resolve_continue_on_error_def evaluate_continue_on_error_def case_prod_beta)
  have "fst (run_single_step failing_run plain_job_run ?y n t) = Ok Con_Failure" if "ec_job_status (rs_ctx t) = Success" "\<not> rs_force t" for n t
    using that started name_at_main_live
    by (simp add: run_single_step_def is_forced_def prepare_step_def Let_def failing_signals resolve_step_env_def y evaluate_condition_def
        literal_status_condition_def trim case_prod_beta plain_live)
  moreover have "ec_job_status (rs_ctx (note_cancellation failing_run s)) = Success" "\<not> rs_force (note_cancellation failing_run s)"
    using assms by (simp_all add: note_cancellation_def poll_def failing_signals cancel_seen_def Let_def)
  ultimately have "fst (main_one failing_run plain_job_run 0 ?y s) = Ok Con_Failure"
    by (simp add: main_one_def Let_def case_prod_beta with_ctx_def)
  then show ?thesis by (metis prod.collapse)
qed

theorem no_default_step_after_failure_witness:
  "tokens_latch failing_run \<and> handlers_keep_failure failing_run
   \<and> (\<exists>s1. main_one failing_run plain_job_run 0 (uses_step ''a'') plain_state = (Ok Con_Failure, s1)
      \<and> (let s2 = main_state failing_run plain_job_run 1 [script_step ''b'' ''make'' ''always()''] s1;
             (r, s3) = main_one failing_run plain_job_run 2 (uses_step ''c'') s2
         in main_one plain_run plain_job_run 2 (uses_step ''c'') s2 = (r, s3) \<and> rs_posts s3 = rs_posts s2
          \<and> (r = Ok Con_Failure
             \<or> StepSkipped ''c'' ''condition evaluated to false'' \<in> set (drop (length (rs_events s2)) (rs_events s3)))))"
proof -
  have laws: "tokens_latch failing_run" "handlers_keep_failure failing_run"
    by (simp_all add: tokens_latch_def handlers_keep_failure_def failing_run_def plain_run_def)
  obtain s1 where "main_one failing_run plain_job_run 0 (uses_step ''a'') plain_state = (Ok Con_Failure, s1)"
    using failing_action_fails [of plain_state "''a''"] by (auto simp: plain_state_def plain_job_def new_context_def)
  moreover have "as_condition (uses_step ''c'') = None" "as_id (uses_step ''c'') = ''c''" by (simp_all add: uses_step_def script_step_def)
  moreover have "failing_run\<lparr>rx_action := rx_action plain_run, rx_child := rx_child plain_run\<rparr> = plain_run" by (simp add: failing_run_def)
  ultimately show ?thesis
    using laws no_default_step_after_failure [where J = plain_job_run and i = 0 and x = "uses_step ''a''" and s = plain_state and k = 2
        and between = "[script_step ''b'' ''make'' ''always()'']" and y = "uses_step ''c''" and f = "rx_action plain_run" and g = "rx_child plain_run",
        OF laws _ refl]
    by (auto simp: Let_def)
qed

end
