(* ===== verification/Composite_Expr.thy ===== *)
theory Composite_Expr
  imports Steps_Runner
begin

text \<open>
  Expressions in the metadata of composite actions (\<open>crates/execution/src/execution/composite_expr.rs\<close>):
  each field of an action's manifest may name its own contexts and functions. A text is checked against the
  policy of its field before the engine renders it.
\<close>

subsection \<open>Field policies\<close>

datatype composite_field = Field_Step | Field_Env | Field_If | Field_Output | Field_Input_Default

text \<open>The live job context with the inputs, and where given the environment, of the action.\<close>

definition composite_eval_context ::
  "step_externs \<Rightarrow> exec_context \<Rightarrow> (string \<rightharpoonup> string) \<Rightarrow> (string \<rightharpoonup> string) option \<Rightarrow> snapshot" where
  "composite_eval_context X ctx inputs env =
     (case take_snapshot X ctx of
        (c, n) \<Rightarrow>
          let c = c\<lparr>contexts := index_insert ''inputs'' (Object n (string_map_to_obj X inputs)) (contexts c)\<rparr>
          in case env of
               None \<Rightarrow> (c, n + 1)
             | Some e \<Rightarrow> (c\<lparr>contexts := index_insert ''env'' (Object (n + 1) (string_map_to_obj X e)) (contexts c)\<rparr>, n + 2))"

definition field_roots :: "composite_field \<Rightarrow> string list" where
  "field_roots field =
     (if field = Field_Input_Default then [''github'', ''strategy'', ''matrix'', ''job'', ''runner'']
      else [''github'', ''inputs'', ''strategy'', ''matrix'', ''steps'', ''job'', ''runner'', ''env''])"

definition validate_root :: "string \<Rightarrow> composite_field \<Rightarrow> (runner_error, unit) result" where
  "validate_root name field =
     (let name = to_ascii_lowercase name
      in if name \<in> set (field_roots field) then Ok ()
         else Err (Expression_Text (''context '' @ in_quotes name @ '' is unavailable in composite metadata'')))"

definition validate_function :: "string \<Rightarrow> composite_field \<Rightarrow> (runner_error, unit) result" where
  "validate_function name field =
     (let lower = to_ascii_lowercase name;
          allowed = (if lower \<in> {''always'', ''failure'', ''cancelled'', ''success''} then field = Field_If
                     else if lower = ''hashfiles'' then field \<noteq> Field_Output
                     else True)
      in if allowed then Ok ()
         else Err (Expression_Text (''function '' @ in_quotes name @ '' is unavailable in this composite field'')))"

fun is_github_root :: "expr \<Rightarrow> bool" where
  "is_github_root (Context name) = eq_ignore_ascii_case name ''github''"
| "is_github_root _ = False"

definition validate_action_path :: "expr \<Rightarrow> string \<Rightarrow> composite_field \<Rightarrow> (runner_error, unit) result" where
  "validate_action_path obj property field =
     (if field \<noteq> Field_Env \<and> eq_ignore_ascii_case property ''action_path'' \<and> is_github_root obj
      then Err (Expression_Text ''github.action_path is available only in composite step env'') else Ok ())"

fun validate_ast :: "composite_field \<Rightarrow> expr \<Rightarrow> (runner_error, unit) result"
and validate_asts :: "composite_field \<Rightarrow> expr list \<Rightarrow> (runner_error, unit) result" where
  "validate_ast field (Literal v) = Ok ()"
| "validate_ast field (Context name) = validate_root name field"
| "validate_ast field (PropertyAccess obj property) =
     rbind (validate_action_path obj property field) (\<lambda>_. validate_ast field obj)"
| "validate_ast field (IndexAccess obj index) =
     rbind (case index of Literal (Str property) \<Rightarrow> validate_action_path obj property field | _ \<Rightarrow> Ok ())
       (\<lambda>_. rbind (validate_ast field obj) (\<lambda>_. validate_ast field index))"
| "validate_ast field (WildcardAccess obj) = validate_ast field obj"
| "validate_ast field (FunctionCall name args) =
     rbind (validate_function name field) (\<lambda>_. validate_asts field args)"
| "validate_ast field (UnaryOp op operand) = validate_ast field operand"
| "validate_ast field (BinaryOp op left right) =
     rbind (validate_ast field left) (\<lambda>_. validate_ast field right)"
| "validate_asts field [] = Ok ()"
| "validate_asts field (a # as) = rbind (validate_ast field a) (\<lambda>_. validate_asts field as)"

definition lift_expr :: "(expr_error, 'a) result \<Rightarrow> (runner_error, 'a) result" where
  "lift_expr r = (case r of Inr v \<Rightarrow> Ok v | Inl e \<Rightarrow> Err (Expression_Error e))"

definition validate_expression :: "string \<Rightarrow> composite_field \<Rightarrow> (runner_error, unit) result" where
  "validate_expression e field = rbind (lift_expr (parse e)) (validate_ast field)"

function validate_template :: "string \<Rightarrow> composite_field \<Rightarrow> (runner_error, unit) result" where
  "validate_template rest field =
     (case find_str ''${{'' rest of
        None \<Rightarrow> Ok ()
      | Some start \<Rightarrow>
          (let after_open = drop (start + 3) rest
           in case expression_end after_open of
                None \<Rightarrow> Err (Expression_Text ''unclosed ${{ expression'')
              | Some e \<Rightarrow>
                  rbind (validate_expression (trim (take e after_open)) field)
                    (\<lambda>_. validate_template (drop (e + 2) after_open) field)))"
  by pat_completeness auto
termination
proof (relation "measure (\<lambda>(rest, field). length rest)", goal_cases)
  case (2 rest field start after_open e x)
  from find_str_Some [OF 2(1)] have "0 < length rest" by auto
  with 2(2) show ?case by auto
qed simp

declare validate_template.simps [simp del]

subsection \<open>Rendering\<close>

definition interpolate_composite_expr ::
  "step_externs \<Rightarrow> string \<Rightarrow> snapshot \<Rightarrow> composite_field \<Rightarrow> (runner_error, string) result" where
  "interpolate_composite_expr X t snap field =
     (if \<not> contains_block t ''${{'' then Ok t
      else rbind (validate_template t field) (\<lambda>_.
             rbind (lift_expr (interpolate (sx_expr X) (fst snap) t (snd snap))) (\<lambda>(s, _). Ok s)))"

text \<open>The expression of a condition: without a condition it is \<open>success()\<close>.\<close>

definition condition_expression :: "string option \<Rightarrow> (runner_error, string) result" where
  "condition_expression cond =
     (let cond = trim (case cond of Some c \<Rightarrow> c | None \<Rightarrow> ''success()'')
      in case strip_prefix_str ''${{'' cond of
           Some inner \<Rightarrow>
             (if ends_with inner ''}}'' then Ok (trim (take (length inner - 2) inner))
              else Err (Expression_Text ''unclosed composite if expression''))
         | None \<Rightarrow> Ok (if cond = [] then ''success()'' else cond))"

definition evaluate_composite_condition :: "step_externs \<Rightarrow> string option \<Rightarrow> snapshot \<Rightarrow> (runner_error, bool) result" where
  "evaluate_composite_condition X cond snap =
     rbind (condition_expression cond) (\<lambda>e.
     rbind (validate_expression e Field_If) (\<lambda>_.
     rbind (evaluate_with X snap e) (\<lambda>v. Ok (is_truthy v))))"

subsection \<open>What an accepted text can read\<close>

text \<open>Two contexts that agree on the named roots, on the status and on the workspace.\<close>

definition agree_on :: "string list \<Rightarrow> eval_context \<Rightarrow> eval_context \<Rightarrow> bool" where
  "agree_on roots c d \<longleftrightarrow> job_status c = job_status d \<and> workspace c = workspace d
     \<and> (\<forall>name. to_ascii_lowercase name \<in> set roots \<longrightarrow>
          resolve_context c name = resolve_context d name
          \<and> list_ex (\<lambda>(key, _). eq_ignore_ascii_case key name) (contexts c) = list_ex (\<lambda>(key, _). eq_ignore_ascii_case key name) (contexts d))"

lemma find_index_insert:
  "(\<And>v. \<not> P (k, v)) \<Longrightarrow> find P (index_insert k v cs) = find P cs"
  by (induction cs) (auto split: if_splits)

lemma list_ex_index_insert: "(\<And>v. \<not> P (k, v)) \<Longrightarrow> list_ex P (index_insert k v cs) = list_ex P cs"
  by (induction cs) (auto split: if_splits)

lemma agree_on_insert:
  assumes "to_ascii_lowercase k \<notin> set roots"
  shows "agree_on roots (c\<lparr>contexts := index_insert k v (contexts c)\<rparr>) c"
proof -
  have "find (\<lambda>(key, _). to_ascii_lowercase key = to_ascii_lowercase name) (index_insert k v (contexts c))
      = find (\<lambda>(key, _). to_ascii_lowercase key = to_ascii_lowercase name) (contexts c)"
    "list_ex (\<lambda>(key, _). eq_ignore_ascii_case key name) (index_insert k v (contexts c))
      = list_ex (\<lambda>(key, _). eq_ignore_ascii_case key name) (contexts c)"
    if "to_ascii_lowercase name \<in> set roots" for name
    using that assms by (intro find_index_insert list_ex_index_insert; force simp: eq_ignore_ascii_case_def)+
  then show ?thesis by (simp add: agree_on_def resolve_context_def)
qed

lemma call_function_agree:
  "agree_on roots c d \<Longrightarrow> call_function X name args c n = call_function X name args d n"
proof -
  assume a: "agree_on roots c d"
  then have h: "fn_hash_files X args c = fn_hash_files X args d" by (simp add: fn_hash_files_def agree_on_def)
  have j: "job_status c = job_status d" using a by (simp add: agree_on_def)
  show ?thesis unfolding call_function_def h j ..
qed

lemma validate_root_Ok: "validate_root name field = Ok () \<longleftrightarrow> to_ascii_lowercase name \<in> set (field_roots field)"
  by (simp add: validate_root_def Let_def)

lemma validate_asts_nth: "validate_asts field as = Ok () \<Longrightarrow> i < length as \<Longrightarrow> validate_ast field (as ! i) = Ok ()"
  by (induction as arbitrary: i) (auto simp: rbind_eq_Ok nth_Cons')

lemma validate_agree:
  "validate_ast field e = Ok () \<Longrightarrow> agree_on (field_roots field) c d \<Longrightarrow> validate c e = validate d e"
  "validate_asts field es = Ok () \<Longrightarrow> agree_on (field_roots field) c d \<Longrightarrow> validate_all c es = validate_all d es"
proof (induction field e and field es rule: validate_ast_validate_asts.induct)
  case (2 field name)
  then show ?case unfolding agree_on_def validate.simps by (auto simp: validate_root_Ok simp del: split_paired_All)
qed (auto simp: rbind_eq_Ok)

lemma eval_agree:
  "validate_ast field e = Ok () \<Longrightarrow> agree_on (field_roots field) c d \<Longrightarrow> eval_expr X c e n1 = eval_expr X d e n1"
  "validate_asts field as = Ok () \<Longrightarrow> agree_on (field_roots field) c d \<Longrightarrow> eval_args X c name evaluated as n2 = eval_args X d name evaluated as n2"
  "validate_asts field bs = Ok () \<Longrightarrow> agree_on (field_roots field) c d \<Longrightarrow> eval_case_pairs X c bs n3 = eval_case_pairs X d bs n3"
  "validate_asts field cs = Ok () \<Longrightarrow> agree_on (field_roots field) c d \<Longrightarrow> eval_format X c cs n4 = eval_format X d cs n4"
proof (induction X c e n1 and X c name evaluated as n2 and X c bs n3 and X c cs n4
    rule: eval_expr_eval_args_eval_case_pairs_eval_format.induct)
  case (2 X ctx name nxt)
  then show ?case by (simp add: agree_on_def validate_root_Ok)
next
  case (6 X ctx name args nxt)
  then show ?case
    by (auto simp: rbind_eq_Ok call_function_agree intro!: rbind_cong)
next
  case (8 X ctx op left right nxt)
  from "8.prems" have l: "eval_expr X ctx left nxt = eval_expr X d left nxt" by (intro "8.IH"(1)) (auto simp: rbind_eq_Ok)
  show ?case
  proof (cases "eval_expr X d left nxt")
    case (Inr x)
    obtain v n where x: "x = (v, n)" by (rule prod.exhaust)
    have "eval_expr X ctx right m = eval_expr X d right m" for m
      using "8.prems" l Inr x by (intro "8.IH"(2)) (auto simp: rbind_eq_Ok)
    then have "eval_expr X ctx right = eval_expr X d right" by (rule ext)
    then show ?thesis using l by simp
  qed (use l in simp)
next
  case (15 X ctx t ps nxt)
  from "15.prems" have l: "eval_expr X ctx t nxt = eval_expr X d t nxt" by (intro "15.IH"(1)) (auto simp: rbind_eq_Ok)
  show ?case
  proof (cases "eval_expr X d t nxt")
    case (Inr x)
    obtain v n where x: "x = (v, n)" by (rule prod.exhaust)
    have "(if i < length ps then eval_expr X ctx (ps ! i) m else Err Missing_argument) = (if i < length ps then eval_expr X d (ps ! i) m else Err Missing_argument)" for i m
      using "15.prems" l Inr x validate_asts_nth [of field ps i] "15.IH"(2) by (auto simp: rbind_eq_Ok)
    then show ?thesis using l by simp
  qed (use l in simp)
qed (auto simp: rbind_eq_Ok intro!: rbind_cong split: expr_value.split)

lemma evaluate_agree:
  assumes "validate_expression e field = Ok ()" "agree_on (field_roots field) c d"
  shows "evaluate X c e n = evaluate X d e n"
proof -
  obtain t where t: "parse e = Ok t" "validate_ast field t = Ok ()"
    using assms(1) by (auto simp: validate_expression_def lift_expr_def rbind_eq_Ok split: sum.splits)
  show ?thesis using validate_agree(1) [OF t(2) assms(2)] eval_agree(1) [OF t(2) assms(2)] by (simp add: evaluate_def t(1))
qed

lemma interpolate_agree:
  assumes "validate_template rest field = Ok ()" "agree_on (field_roots field) c d"
  shows "interpolate_from X c out rest n = interpolate_from X d out rest n"
  using assms
proof (induction rest field arbitrary: out n rule: validate_template.induct)
  case (1 rest field)
  show ?case
  proof (cases "find_str ''${{'' rest")
    case None
    then show ?thesis by (simp add: interpolate_from.simps)
  next
    case (Some start)
    show ?thesis
    proof (cases "expression_end (drop (start + 3) rest)")
      case None
      then show ?thesis using Some by (simp add: interpolate_from.simps)
    next
      case e: (Some e)
      from "1.prems"(1) Some e have v: "validate_expression (trim (take e (drop (start + 3) rest))) field = Ok ()"
        "validate_template (drop (e + 2) (drop (start + 3) rest)) field = Ok ()"
        by (auto simp: validate_template.simps [of rest] rbind_eq_Ok)
      have step: "interpolate_from X c out' (drop (e + 2) (drop (start + 3) rest)) m = interpolate_from X d out' (drop (e + 2) (drop (start + 3) rest)) m" for out' m
        by (rule "1.IH" [OF Some refl e v(1) v(2) "1.prems"(2)])
      show ?thesis
        using evaluate_agree [OF v(1) "1.prems"(2)] step
        by (simp add: interpolate_from.simps [of X _ out rest] Some e Let_def split: sum.split prod.split)
    qed
  qed
qed



end
