(* ===== verification/Composite.thy ===== *)
theory Composite
  imports Composite_Expr
begin

text \<open>
  Composite actions (\<open>crates/execution/src/execution/\<close>): the environment and the file commands of an inner
  step (\<open>composite_env.rs\<close>), the loop over the inner steps (\<open>composite_exec.rs\<close>), inner steps that use
  another action (\<open>composite_uses.rs\<close>), their scripts (\<open>composite_shell.rs\<close>) and the execution of an action
  from its reference to its result (\<open>action_exec.rs\<close>, \<open>action_support.rs\<close>), which a composite action
  enters again for every inner \<open>uses:\<close> step.

  The recursion is bounded by the depth tracker; it takes fuel, and \<open>None\<close> is a nesting the fuel does not
  reach. Scripts, node and Docker stages, files, downloads and the clock are parameters. An absolute time is a
  number of milliseconds, and a boolean says whether the cancellation token in force is the clean-up token, which
  only a forced cancellation fires.
\<close>

subsection \<open>Parameters and state\<close>

record resolved_action =
  rv_image_cache_key :: "string option"
  rv_action_dir :: path
  rv_manifest :: action_definition

text \<open>The stages of an action that run processes: their result, the context they leave, what they send and how
  many readings of the signals they take.\<close>

record stage_run =
  sg_result :: "(runner_error, action_outcome) result"
  sg_ctx :: exec_context
  sg_events :: "runner_event list"
  sg_ticks :: nat

record step_bounds =
  bd_deadline :: "nat option"
  bd_cleanup :: bool

record composite_externs =
  cx_run :: run_externs
  cx_shell :: "bool \<Rightarrow> script_params \<Rightarrow> nat \<Rightarrow> script_run"
  cx_now :: "nat \<Rightarrow> nat"
  cx_job_deadline :: "nat \<Rightarrow> nat option"
  cx_summary_id :: "nat \<Rightarrow> string"
  cx_temp_error :: "nat \<Rightarrow> runner_error option"
  cx_interrupted :: "nat \<Rightarrow> step_bounds \<Rightarrow> (runner_error \<times> nat) option"
  cx_manifest :: "path \<Rightarrow> (runner_error, action_definition) result"
  cx_docker_manifest :: "string \<Rightarrow> (runner_error, action_definition) result"
  cx_ensure_action :: "action_ref \<Rightarrow> nat \<Rightarrow> (runner_error, path) result"
  cx_node :: "action_step \<Rightarrow> resolved_action \<Rightarrow> nat \<Rightarrow> step_bounds \<Rightarrow> string \<Rightarrow> run_state \<Rightarrow> stage_run"
  cx_docker :: "action_step \<Rightarrow> resolved_action \<Rightarrow> step_bounds \<Rightarrow> string \<Rightarrow> run_state \<Rightarrow> stage_run"
  cx_self_repository :: bool
  cx_workflow_identity :: "(string \<times> string) option"

abbreviation cx_step :: "composite_externs \<Rightarrow> step_externs" where "cx_step X \<equiv> rx_step (cx_run X)"

record composite_params =
  cp_manifest :: action_definition
  cp_inputs :: "string \<rightharpoonup> string"
  cp_parent :: string
  cp_action_dir :: path
  cp_bounds :: step_bounds

record composite_result =
  ct_conclusion :: conclusion
  ct_outputs :: "(string \<times> string) list"
  ct_env_additions :: "(string \<times> string) list"
  ct_path_additions :: "string list"

text \<open>The working set of the loop: what \<open>CompositeState\<close> and \<open>CompositeRun\<close> keep beside the context.\<close>

record composite_run =
  cr_state :: run_state
  cr_outputs :: "(string \<times> (string \<times> string) list) list"
  cr_env :: "(string \<times> string) list"
  cr_paths :: "string list"
  cr_cleanup :: bool
  cr_cleanup_deadline :: "nat option"

definition new_composite_run :: "run_state \<Rightarrow> composite_run" where
  "new_composite_run s = \<lparr>cr_state = s, cr_outputs = [], cr_env = [], cr_paths = [], cr_cleanup = False, cr_cleanup_deadline = None\<rparr>"

abbreviation cr_ctx :: "composite_run \<Rightarrow> exec_context" where "cr_ctx r \<equiv> rs_ctx (cr_state r)"

definition in_state :: "(run_state \<Rightarrow> run_state) \<Rightarrow> composite_run \<Rightarrow> composite_run" where
  "in_state f r = r\<lparr>cr_state := f (cr_state r)\<rparr>"

definition in_ctx :: "(exec_context \<Rightarrow> exec_context) \<Rightarrow> composite_run \<Rightarrow> composite_run" where
  "in_ctx f r = in_state (with_ctx f) r"

definition active_bounds :: "composite_params \<Rightarrow> composite_run \<Rightarrow> step_bounds" where
  "active_bounds P r =
     \<lparr>bd_deadline = option_or (cr_cleanup_deadline r) (bd_deadline (cp_bounds P)), bd_cleanup = (cr_cleanup r \<or> bd_cleanup (cp_bounds P))\<rparr>"

subsection \<open>The environment of a script\<close>

text \<open>\<open>split_whitespace\<close>: the words between runs of white space.\<close>

function split_whitespace :: "string \<Rightarrow> string \<Rightarrow> string list" where
  "split_whitespace word [] = (if word = [] then [] else [rev word])"
| "split_whitespace word (c # s) =
     (if ws_width (c # s) = 0 then split_whitespace (c # word) s
      else (if word = [] then [] else [rev word]) @ split_whitespace [] (drop (ws_width (c # s)) (c # s)))"
  by pat_completeness auto
termination by (relation "measure (\<lambda>(w, s). length s)") auto

definition utf8_encode_char :: "nat \<Rightarrow> string" where
  "utf8_encode_char c =
     (if c < 128 then [char_of c]
      else if c < 2048 then [char_of (192 + c div 64), char_of (128 + c mod 64)]
      else if c < 65536 then [char_of (224 + c div 4096), char_of (128 + c div 64 mod 64), char_of (128 + c mod 64)]
      else [char_of (240 + c div 262144), char_of (128 + c div 4096 mod 64), char_of (128 + c div 64 mod 64), char_of (128 + c mod 64)])"

definition str_to_uppercase :: "step_externs \<Rightarrow> string \<Rightarrow> string" where
  "str_to_uppercase X s = concat (map utf8_encode_char (concat (map (to_uppercase (sx_expr X)) (str_chars s))))"

definition input_env_key :: "step_externs \<Rightarrow> string \<Rightarrow> string" where
  "input_env_key X name = ''INPUT_'' @ str_to_uppercase X (join_str ''_'' (split_whitespace [] name))"

definition add_composite_inputs :: "step_externs \<Rightarrow> (string \<rightharpoonup> string) \<Rightarrow> (string \<rightharpoonup> string) \<Rightarrow> (string \<rightharpoonup> string)" where
  "add_composite_inputs X inputs env =
     fold (\<lambda>key env. env(input_env_key X key \<mapsto> the (inputs key))) (sx_hash_keys X (\<lambda>key. inputs key \<noteq> None)) env"

fun render_env_entries ::
  "step_externs \<Rightarrow> snapshot \<Rightarrow> (string \<times> string) list \<Rightarrow> (string \<rightharpoonup> string) \<Rightarrow> (runner_error, string \<rightharpoonup> string) result" where
  "render_env_entries X snap [] env = Ok env"
| "render_env_entries X snap ((key, v) # kvs) env =
     rbind (interpolate_composite_expr X v snap Field_Env) (\<lambda>s. render_env_entries X snap kvs (env(key \<mapsto> s)))"

definition interpolate_step_env ::
  "step_externs \<Rightarrow> (string \<rightharpoonup> string) \<Rightarrow> (string \<times> string) list \<Rightarrow> exec_context \<Rightarrow> (string \<rightharpoonup> string) \<Rightarrow> (runner_error, string \<rightharpoonup> string) result" where
  "interpolate_step_env X inputs step_env ctx env =
     render_env_entries X (composite_eval_context X ctx inputs (Some env)) step_env env"

definition prepend_path_additions :: "string list \<Rightarrow> (string \<rightharpoonup> string) \<Rightarrow> (string \<rightharpoonup> string)" where
  "prepend_path_additions paths env =
     (if paths = [] then env
      else let existing = unwrap_or_default (env ''PATH'')
           in env(''PATH'' \<mapsto> join_str '':'' (paths @ (if existing \<noteq> [] then [existing] else []))))"

definition runner_temp_dir :: "string \<Rightarrow> string" where
  "runner_temp_dir data_dir = data_dir @ ''/_temp''"

definition add_runner_paths :: "path \<Rightarrow> string \<Rightarrow> (string \<rightharpoonup> string) \<Rightarrow> (string \<rightharpoonup> string)" where
  "add_runner_paths ws temp env = env(''GITHUB_WORKSPACE'' \<mapsto> path_text ws, ''RUNNER_TEMP'' \<mapsto> temp)"

definition translate_container_env :: "exec_context \<Rightarrow> (string \<rightharpoonup> string) \<Rightarrow> (string \<rightharpoonup> string)" where
  "translate_container_env ctx env =
     (case ec_container ctx of None \<Rightarrow> env | Some c \<Rightarrow> (\<lambda>k. map_option (translate_env (jc_translator c) k) (env k)))"

definition composite_step_env ::
  "composite_externs \<Rightarrow> job_run \<Rightarrow> composite_params \<Rightarrow> exec_context \<Rightarrow> composite_step \<Rightarrow> (string \<times> string) list \<Rightarrow> string list
     \<Rightarrow> (runner_error, string \<rightharpoonup> string) result" where
  "composite_step_env X J P ctx step extra paths =
     (let env = build_step_env (rx_process_path (cx_run X)) Map.empty ctx;
          env = (if ec_container ctx = None then inherited_process_env (rx_process_env (cx_run X)) ctx ++ env else env);
          env = extend_env extra env;
          env = add_composite_inputs (cx_step X) (cp_inputs P) env;
          env = env(''GITHUB_ACTION_PATH'' \<mapsto> path_text (cp_action_dir P))
      in rbind (interpolate_step_env (cx_step X) (cp_inputs P) (cs_env step) ctx env) (\<lambda>env.
           Ok (translate_container_env ctx
                (export_metadata ctx
                  (add_runner_paths (jr_workspace J) (runner_temp_dir (jr_data_dir J))
                    (prepend_path_additions paths (apply_script_service_env ctx env)))))))"

subsection \<open>File commands\<close>

record file_command_paths =
  fp_output :: string
  fp_env :: string
  fp_path :: string
  fp_summary :: string

definition create_file_command_files :: "string \<Rightarrow> string \<Rightarrow> file_command_paths" where
  "create_file_command_files temp_dir i =
     \<lparr>fp_output = temp_dir @ ''/composite_output_'' @ i, fp_env = temp_dir @ ''/composite_env_'' @ i,
      fp_path = temp_dir @ ''/composite_path_'' @ i, fp_summary = temp_dir @ ''/composite_summary_'' @ i\<rparr>"

definition merge_file_command_env :: "file_command_paths \<Rightarrow> (string \<rightharpoonup> string) \<Rightarrow> (string \<rightharpoonup> string)" where
  "merge_file_command_env fp env =
     env(''GITHUB_STEP_SUMMARY'' \<mapsto> fp_summary fp, ''GITHUB_OUTPUT'' \<mapsto> fp_output fp, ''GITHUB_ENV'' \<mapsto> fp_env fp, ''GITHUB_PATH'' \<mapsto> fp_path fp)"

definition extend_outputs :: "string \<Rightarrow> (string \<times> string) list \<Rightarrow> (string \<times> (string \<times> string) list) list \<Rightarrow> (string \<times> (string \<times> string) list) list" where
  "extend_outputs i kvs m =
     index_insert i (fold (\<lambda>(k, v). index_insert k v) kvs (case map_of m i of Some l \<Rightarrow> l | None \<Rightarrow> [])) m"

text \<open>Path, environment, output: what each file holds is added, and each that cannot be read is a failure.\<close>

definition process_file_commands ::
  "file_externs \<Rightarrow> file_command_paths \<Rightarrow> string \<Rightarrow> composite_run \<Rightarrow> (file_command_failure list \<times> nat) \<times> composite_run" where
  "process_file_commands F fp i r =
     (case read_command_files F [fp_path fp, fp_env fp, fp_output fp] of
        [path_read, env_read, output_read] \<Rightarrow>
          (let (paths, failures) = (case path_read of
                  Inr content \<Rightarrow> (parse_path_file content, [])
                | Inl message \<Rightarrow> ([], [\<lparr>fcf_command = ''path'', fcf_message = message\<rparr>]));
               (parsed, failures) = parse_kv_command ''env'' env_read failures;
               (parsed, blocked) = strip_blocked_env parsed;
               (outputs, failures) = parse_kv_command ''output'' output_read failures
           in ((failures, blocked),
               r\<lparr>cr_paths := cr_paths r @ paths, cr_env := fold (\<lambda>(k, v). index_insert k v) parsed (cr_env r),
                 cr_outputs := (if outputs = [] then cr_outputs r else extend_outputs i outputs (cr_outputs r))\<rparr>))
      | _ \<Rightarrow> (([], 0), r))"

definition apply_run_file_commands :: "string \<Rightarrow> composite_run \<Rightarrow> composite_run" where
  "apply_run_file_commands i r =
     in_ctx (\<lambda>ctx. fold (\<lambda>(k, v). set_env k v) (cr_env r)
        (case map_of (cr_outputs r) i of Some kvs \<Rightarrow> fold (\<lambda>(k, v). set_step_output i k v) kvs ctx | None \<Rightarrow> ctx)) r"

subsection \<open>An inner script\<close>

abbreviation emit_line :: "string \<Rightarrow> string \<Rightarrow> runner_event" where "emit_line i line \<equiv> Log i line Stdout"

definition inner_step_id :: "composite_step \<Rightarrow> nat \<Rightarrow> string" where
  "inner_step_id step idx = (case cs_id step of Some i \<Rightarrow> i | None \<Rightarrow> ''__composite_'' @ show_nat idx)"

definition start_run_step :: "composite_params \<Rightarrow> composite_step \<Rightarrow> string \<Rightarrow> composite_run \<Rightarrow> composite_run" where
  "start_run_step P step script r =
     (let name = (case cs_name step of Some n \<Rightarrow> n
            | None \<Rightarrow> (case str_lines script of [] \<Rightarrow> ''(composite step)'' | l # ls \<Rightarrow> l))
      in in_state (emit [emit_line (cp_parent P) (''##[group]Run '' @ name)]) r)"

definition finish_run_step :: "composite_params \<Rightarrow> file_externs \<Rightarrow> file_command_paths \<Rightarrow> string \<Rightarrow> composite_run \<Rightarrow> bool \<times> composite_run" where
  "finish_run_step P F fp i r =
     (let r = in_state (emit [emit_line (cp_parent P) ''##[endgroup]'']) r;
          ((failures, blocked), r) = process_file_commands F fp i r;
          r = apply_run_file_commands i r;
          (events, failed) = report_file_command_issues failures blocked (cp_parent P) (cr_ctx r)
      in (failed, in_state (emit events) r))"

text \<open>The child's lines go through a dispatcher of the inner step that reports under the parent's id.\<close>

definition execute_composite_script ::
  "composite_externs \<Rightarrow> composite_params \<Rightarrow> script_run \<Rightarrow> string \<Rightarrow> composite_run \<Rightarrow> (runner_error, conclusion) result \<times> composite_run" where
  "execute_composite_script X P child i r =
     (case stream_items (rx_dispatch (cx_run X)) (sr_items child) (new_dispatcher i (cp_parent P) (Some i), cr_ctx r) of
        (events, d, ctx) \<Rightarrow>
          (rbind (sr_result child) (\<lambda>c. Ok (merge_command_result c (cd_failed d))),
           in_state (poll (cx_run X)) (in_state (emit events) (in_ctx (\<lambda>_. ctx)
             (r\<lparr>cr_outputs := extend_outputs i (fst (take_set_outputs d)) (cr_outputs r)\<rparr>)))))"

definition render_run_step ::
  "composite_externs \<Rightarrow> job_run \<Rightarrow> composite_params \<Rightarrow> composite_step \<Rightarrow> string \<Rightarrow> composite_run
     \<Rightarrow> (runner_error, file_command_paths \<times> script_params) result" where
  "render_run_step X J P step script r =
     (let clock = rs_clock (cr_state r); snap = (\<lambda>env. composite_eval_context (cx_step X) (cr_ctx r) (cp_inputs P) (Some env));
          render = (\<lambda>t env. interpolate_composite_expr (cx_step X) t (snap env) Field_Step)
      in rbind (composite_step_env X J P (cr_ctx r) step (cr_env r) (cr_paths r)) (\<lambda>env.
         case rx_create_error (cx_run X) clock of
           Some e \<Rightarrow> Err e
         | None \<Rightarrow>
             (let fp = create_file_command_files (jr_data_dir J @ ''/tmp'') (cx_summary_id X clock)
              in rbind (render script env) (\<lambda>body.
                 rbind (render (case cs_shell step of Some sh \<Rightarrow> sh | None \<Rightarrow> ''bash'') env) (\<lambda>shell.
                 rbind (render (unwrap_or_default (cs_working_directory step)) env) (\<lambda>directory.
                   Ok (fp, \<lparr>sp_script = body, sp_shell = Some shell, sp_env = merge_file_command_env fp env,
                     sp_working_dir = path_join (jr_workspace J) (components directory), sp_step_id = cp_parent P,
                     sp_timeout = map_option (\<lambda>deadline. deadline - cx_now X clock) (bd_deadline (active_bounds P r))\<rparr>)))))))"

definition run_run_step ::
  "composite_externs \<Rightarrow> job_run \<Rightarrow> composite_params \<Rightarrow> composite_step \<Rightarrow> nat \<Rightarrow> string \<Rightarrow> composite_run
     \<Rightarrow> (runner_error, conclusion) result \<times> composite_run" where
  "run_run_step X J P step idx script r =
     (let r = start_run_step P step script r; i = inner_step_id step idx
      in case render_run_step X J P step script r of
           Inl e \<Rightarrow> (Err e, r)
         | Inr (fp, params) \<Rightarrow>
             (let child = cx_shell X (bd_cleanup (active_bounds P r)) params (rs_clock (cr_state r));
                  summary_id = cx_summary_id X (rs_clock (cr_state r));
                  (result, r) = execute_composite_script X P child i r;
                  r = in_state (emit (collect_summary (sr_summary child) (cp_parent P) summary_id (cr_ctx r))) r
              in case result of
                   Inl e \<Rightarrow> (Err e, r)
                 | Inr c \<Rightarrow> (case finish_run_step P (sr_files child) fp i r of
                     (failed, r) \<Rightarrow> (Ok (merge_command_result c failed), r))))"

subsection \<open>An inner action\<close>

type_synonym action_runner =
  "action_step \<Rightarrow> step_bounds \<Rightarrow> string \<Rightarrow> run_state \<Rightarrow> ((runner_error, action_outcome) result \<times> run_state) option"

definition literal_template_token :: "string \<Rightarrow> template_token" where
  "literal_template_token s = Template_Token 0 (Some s) None None None None None None None None"

definition mapping_token :: "(string \<times> string) list \<Rightarrow> template_token" where
  "mapping_token kvs =
     Template_Token 2 None None None None (Some (map (\<lambda>(k, v). (literal_template_token k, literal_template_token v)) kvs)) None None None None"

fun nested_ref_parts :: "action_ref \<Rightarrow> string \<times> string option" where
  "nested_ref_parts a =
     (case ar_kind a of
        Local \<Rightarrow> (unwrap_or_default (ar_local_path a), None)
      | Remote \<Rightarrow> (ar_owner a @ ''/'' @ ar_repo a @ (case ar_subpath a of Some p \<Rightarrow> ''/'' @ p | None \<Rightarrow> []), Some (ar_git_ref a)))"

definition resolve_self_uses :: "composite_externs \<Rightarrow> string \<Rightarrow> exec_context \<Rightarrow> (runner_error, string option) result" where
  "resolve_self_uses X uses ctx =
     (if \<not> cx_self_repository X then resolve_self_reference uses None
      else let enclosing = (case (github_context ''action_repository'' ctx, github_context ''action_ref'' ctx) of
                 (Some repo, Some git_ref) \<Rightarrow> if repo \<noteq> [] \<and> git_ref \<noteq> [] then Some (repo, git_ref) else None
               | _ \<Rightarrow> None)
           in resolve_self_reference uses (option_or enclosing (cx_workflow_identity X)))"

fun render_pairs ::
  "step_externs \<Rightarrow> snapshot \<Rightarrow> composite_field \<Rightarrow> (string \<times> string) list \<Rightarrow> (runner_error, (string \<times> string) list) result" where
  "render_pairs X snap field [] = Ok []"
| "render_pairs X snap field ((k, v) # kvs) =
     rbind (interpolate_composite_expr X v snap field) (\<lambda>s. rbind (render_pairs X snap field kvs) (\<lambda>rest. Ok ((k, s) # rest)))"

text \<open>The inputs are rendered while the nested action's reference is installed; the caller's is put back after.\<close>

definition build_nested_step ::
  "composite_externs \<Rightarrow> (string \<rightharpoonup> string) \<Rightarrow> composite_step \<Rightarrow> nat \<Rightarrow> string \<Rightarrow> exec_context
     \<Rightarrow> (runner_error, action_step) result \<times> exec_context" where
  "build_nested_step X inputs step idx uses ctx =
     (let i = (case cs_id step of Some i \<Rightarrow> i | None \<Rightarrow> ''__composite_uses_'' @ show_nat idx)
      in case rbind (resolve_self_uses X uses ctx) (\<lambda>self.
                let uses = (case self of Some u \<Rightarrow> u | None \<Rightarrow> uses)
                in if starts_with uses ''docker://'' then Ok (uses, None) else rbind (parse_action_ref uses) (\<lambda>a. Ok (nested_ref_parts a))) of
           Inl e \<Rightarrow> (Err e, ctx)
         | Inr (name, git_ref) \<Rightarrow>
             (let reference = \<lparr>ref_type = Some ''repository'', ref_image = None, ref_name = Some name, ref_git_ref = git_ref,
                     ref_repository_type = None, ref_path = None\<rparr>;
                  prior = capture_metadata ctx;
                  ctx = set_reference reference ctx;
                  pairs = render_pairs (cx_step X) (composite_eval_context (cx_step X) ctx inputs None) Field_Step (cs_with step);
                  ctx = restore_metadata prior ctx
              in (rbind pairs (\<lambda>kvs. Ok \<lparr>as_id = i, as_name = None, as_type = Some ''action'', as_display_name_token = None,
                    as_context_name = cs_id step, as_condition = cs_condition step, as_continue_on_error = cs_continue_on_error step,
                    as_timeout_in_minutes = None, as_reference = reference, as_inputs = mapping_token kvs, as_environment = None\<rparr>), ctx)))"

definition record_nested_result :: "action_step \<Rightarrow> action_outcome \<Rightarrow> exec_context \<Rightarrow> exec_context" where
  "record_nested_result step out ctx =
     (case expression_name step of
        None \<Rightarrow> ctx
      | Some name \<Rightarrow>
          set_step_conclusion name (out_conclusion out)
            (set_step_outcome name (out_conclusion out)
              (fold (\<lambda>(k, v). set_step_output name k v) (out_outputs out) ctx)))"

definition register_nested_post :: "post_step option \<Rightarrow> exec_context \<Rightarrow> exec_context" where
  "register_nested_post p ctx = (case p of Some p \<Rightarrow> ctx\<lparr>ec_nested_posts := ec_nested_posts ctx @ [p]\<rparr> | None \<Rightarrow> ctx)"

definition run_nested_uses_step ::
  "composite_externs \<Rightarrow> action_runner \<Rightarrow> composite_params \<Rightarrow> composite_step \<Rightarrow> nat \<Rightarrow> composite_run
     \<Rightarrow> ((runner_error, conclusion \<times> (string \<times> string) list) result \<times> composite_run) option" where
  "run_nested_uses_step X run P step idx r =
     (case cs_uses step of
        None \<Rightarrow> Some (Ok (Con_Success, []), r)
      | Some uses \<Rightarrow>
          (case build_nested_step X (cp_inputs P) step idx uses (cr_ctx r) of
             (Inl e, ctx) \<Rightarrow> Some (Err e, in_ctx (\<lambda>_. ctx) r)
           | (Inr synthetic, ctx) \<Rightarrow>
               (let r = in_ctx (\<lambda>_. ctx) r
                in case render_pairs (cx_step X) (composite_eval_context (cx_step X) ctx (cp_inputs P) None) Field_Env (cs_env step) of
                     Inl e \<Rightarrow> Some (Err e, r)
                   | Inr kvs \<Rightarrow>
                       (let synthetic = synthetic\<lparr>as_environment := Some (mapping_token kvs)\<rparr>
                        in case run synthetic (active_bounds P r) (cp_parent P) (cr_state r) of
                             None \<Rightarrow> None
                           | Some (Inl e, s) \<Rightarrow> Some (Err e, r\<lparr>cr_state := s\<rparr>)
                           | Some (Inr out, s) \<Rightarrow>
                               Some (Ok (out_conclusion out, out_outputs out),
                                 in_ctx (\<lambda>ctx. register_nested_post (out_post out) (record_nested_result synthetic out ctx)) (r\<lparr>cr_state := s\<rparr>))))))"

definition run_uses_step ::
  "composite_externs \<Rightarrow> action_runner \<Rightarrow> composite_params \<Rightarrow> composite_step \<Rightarrow> nat \<Rightarrow> composite_run
     \<Rightarrow> ((runner_error, conclusion) result \<times> composite_run) option" where
  "run_uses_step X run P step idx r =
     map_option (\<lambda>(result, r). case result of
         Inl e \<Rightarrow> (Err e, r)
       | Inr (c, outputs) \<Rightarrow> (Ok c, case cs_id step of
             Some name \<Rightarrow> r\<lparr>cr_outputs := index_insert name outputs (cr_outputs r)\<rparr> | None \<Rightarrow> r))
       (run_nested_uses_step X run P step idx r)"

subsection \<open>The loop\<close>

definition report_composite_step_error :: "composite_externs \<Rightarrow> composite_params \<Rightarrow> runner_error \<Rightarrow> composite_run \<Rightarrow> conclusion \<times> composite_run" where
  "report_composite_step_error X P err r =
     (Con_Failure, in_state (emit (emit_line (cp_parent P) (''##[error]'' @ runner_error_text (cx_step X) err)
        # report_infrastructure_error (cp_parent P) err)) r)"

definition record_inner_result :: "composite_step \<Rightarrow> conclusion \<Rightarrow> conclusion \<Rightarrow> composite_run \<Rightarrow> composite_run" where
  "record_inner_result step outcome c r =
     (case cs_id step of
        None \<Rightarrow> r
      | Some name \<Rightarrow> if name = [] then r else in_ctx (\<lambda>ctx. set_step_conclusion name c (set_step_outcome name outcome ctx)) r)"

text \<open>\<open>None\<close> inside is a step with neither a script nor an action.\<close>

definition run_one_step ::
  "composite_externs \<Rightarrow> job_run \<Rightarrow> action_runner \<Rightarrow> composite_params \<Rightarrow> composite_step \<Rightarrow> nat \<Rightarrow> composite_run
     \<Rightarrow> (conclusion option \<times> composite_run) option" where
  "run_one_step X J run P step idx r =
     (let settle = (\<lambda>(result, r). case result of
            Inr c \<Rightarrow> (Some c, r)
          | Inl e \<Rightarrow> (case report_composite_step_error X P e r of (c, r) \<Rightarrow> (Some c, r)))
      in if cs_uses step \<noteq> None
         then map_option (\<lambda>(result, r). if result = Err Job_Cancelled then (Some Con_Cancelled, r) else settle (result, r))
                (run_uses_step X run P step idx r)
         else case cs_run step of
                None \<Rightarrow> Some (None, r)
              | Some script \<Rightarrow>
                  (let prior = capture_metadata (cr_ctx r);
                       (result, r) = run_run_step X J P step idx script (in_ctx clear_repository r)
                   in Some (settle (result, in_ctx (restore_metadata prior) r))))"

definition CLEANUP_BUDGET :: nat where "CLEANUP_BUDGET = 300000"

definition update_composite_status :: "composite_externs \<Rightarrow> composite_params \<Rightarrow> conclusion \<Rightarrow> conclusion \<Rightarrow> composite_run \<Rightarrow> conclusion \<times> composite_run" where
  "update_composite_status X P c aggregate r =
     (if c = Con_Failure
      then (if aggregate \<noteq> Con_Cancelled then (Con_Failure, in_ctx (set_scope_status Failure) r) else (aggregate, r))
      else if c = Con_Cancelled
      then (Con_Cancelled, (in_ctx (set_scope_status Cancelled) r)
        \<lparr>cr_cleanup := True,
         cr_cleanup_deadline := Some (case option_or (bd_deadline (cp_bounds P)) (cx_job_deadline X (rs_clock (cr_state r))) of
            Some t \<Rightarrow> t | None \<Rightarrow> cx_now X (rs_clock (cr_state r)) + CLEANUP_BUDGET)\<rparr>)
      else (aggregate, r))"

text \<open>The conclusion of a step that ran: a failure may be continued on.\<close>

definition settle_inner_step ::
  "composite_externs \<Rightarrow> composite_params \<Rightarrow> composite_step \<Rightarrow> conclusion \<Rightarrow> conclusion \<Rightarrow> composite_run \<Rightarrow> conclusion \<times> composite_run" where
  "settle_inner_step X P step outcome aggregate r =
     (let (continues, events) = (if outcome = Con_Failure
            then resolve_continue_on_error (cx_step X) (cp_parent P) (cs_continue_on_error step) (cr_ctx r) else (False, []));
          r = in_state (emit events) r;
          c = (if continues then Con_Success else outcome);
          r = record_inner_result step outcome c r
      in update_composite_status X P c aggregate r)"

fun run_composite_steps ::
  "composite_externs \<Rightarrow> job_run \<Rightarrow> action_runner \<Rightarrow> composite_params \<Rightarrow> (nat \<times> composite_step) list \<Rightarrow> conclusion \<Rightarrow> composite_run
     \<Rightarrow> (conclusion \<times> composite_run) option" where
  "run_composite_steps X J run P [] aggregate r = Some (aggregate, r)"
| "run_composite_steps X J run P ((idx, step) # rest) aggregate r =
     (let (forced, s) = is_forced (cx_run X) (cr_state r); r = r\<lparr>cr_state := s\<rparr>
      in if forced then Some (Con_Cancelled, r)
         else case evaluate_composite_condition (cx_step X) (cs_condition step) (composite_eval_context (cx_step X) (cr_ctx r) (cp_inputs P) None) of
                Inr False \<Rightarrow> run_composite_steps X J run P rest aggregate (record_inner_result step Con_Skipped Con_Skipped r)
              | Inl e \<Rightarrow>
                  (let (c, r) = report_composite_step_error X P e r;
                       r = record_inner_result step Con_Failure Con_Failure r
                   in Some (if aggregate \<noteq> Con_Cancelled then Con_Failure else aggregate, r))
              | Inr True \<Rightarrow>
                  (case run_one_step X J run P step idx r of
                     None \<Rightarrow> None
                   | Some (None, r) \<Rightarrow> run_composite_steps X J run P rest aggregate r
                   | Some (Some outcome, r) \<Rightarrow>
                       (let (aggregate, r) = settle_inner_step X P step outcome aggregate r
                        in run_composite_steps X J run P rest aggregate r)))"

fun render_outputs :: "step_externs \<Rightarrow> snapshot \<Rightarrow> (string \<times> action_output) list \<Rightarrow> (runner_error, (string \<times> string) list) result" where
  "render_outputs X snap [] = Ok []"
| "render_outputs X snap ((name, out) # outs) =
     (case ao_value out of
        None \<Rightarrow> render_outputs X snap outs
      | Some v \<Rightarrow> rbind (interpolate_composite_expr X v snap Field_Output) (\<lambda>s.
                    rbind (render_outputs X snap outs) (\<lambda>rest. Ok ((name, s) # rest))))"

definition composite_state_result ::
  "composite_externs \<Rightarrow> composite_params \<Rightarrow> conclusion \<Rightarrow> composite_run \<Rightarrow> (runner_error, composite_result) result" where
  "composite_state_result X P c r =
     rbind (render_outputs (cx_step X) (composite_eval_context (cx_step X) (cr_ctx r) (cp_inputs P) None) (ad_outputs (cp_manifest P)))
       (\<lambda>outputs. Ok \<lparr>ct_conclusion = c, ct_outputs = outputs, ct_env_additions = cr_env r, ct_path_additions = cr_paths r\<rparr>)"

definition execute_composite_action ::
  "composite_externs \<Rightarrow> job_run \<Rightarrow> action_runner \<Rightarrow> composite_params \<Rightarrow> run_state \<Rightarrow> ((runner_error, composite_result) result \<times> run_state) option" where
  "execute_composite_action X J run P s =
     (case cx_temp_error X (rs_clock s) of
        Some e \<Rightarrow> Some (Err e, s)
      | None \<Rightarrow>
          map_option (\<lambda>(aggregate, r). (composite_state_result X P aggregate r, cr_state r))
            (run_composite_steps X J run P (enumerate 0 (runs_steps (ad_runs (cp_manifest P)))) Con_Success (new_composite_run s)))"

subsection \<open>From a reference to a result\<close>

fun collect_step_inputs ::
  "step_externs \<Rightarrow> snapshot \<Rightarrow> (string \<times> template_token) list \<Rightarrow> (string \<rightharpoonup> string) \<Rightarrow> (runner_error, string \<rightharpoonup> string) result" where
  "collect_step_inputs X snap [] m = Ok m"
| "collect_step_inputs X snap ((key, t) # kts) m =
     rbind (if tt_type t = 0 then Ok (unwrap_or_default (tt_lit t)) else env_token_to_string X snap t)
       (\<lambda>v. collect_step_inputs X snap kts (m(key \<mapsto> v)))"

definition step_input_tokens :: "step_externs \<Rightarrow> action_step \<Rightarrow> (string \<times> template_token) list" where
  "step_input_tokens X step = map (\<lambda>k. (k, the (to_map (as_inputs step) k))) (sx_hash_keys X (\<lambda>k. to_map (as_inputs step) k \<noteq> None))"

fun apply_input_defaults ::
  "step_externs \<Rightarrow> snapshot \<Rightarrow> (string \<rightharpoonup> string) \<Rightarrow> (string \<times> action_input) list \<Rightarrow> (string \<rightharpoonup> string) \<Rightarrow> (runner_error, string \<rightharpoonup> string) result" where
  "apply_input_defaults X snap user [] m = Ok m"
| "apply_input_defaults X snap user ((name, input) # rest) m =
     rbind (case user name of
              Some v \<Rightarrow> Ok v
            | None \<Rightarrow> (case ai_default input of Some d \<Rightarrow> interpolate_composite_expr X d snap Field_Input_Default | None \<Rightarrow> Ok []))
       (\<lambda>v. apply_input_defaults X snap user rest (m(name \<mapsto> v)))"

definition build_composite_inputs ::
  "step_externs \<Rightarrow> action_step \<Rightarrow> action_definition \<Rightarrow> exec_context \<Rightarrow> (runner_error, string \<rightharpoonup> string) result" where
  "build_composite_inputs X step manifest ctx =
     rbind (collect_step_inputs X (take_snapshot X ctx) (step_input_tokens X step) Map.empty) (\<lambda>user.
     rbind (apply_input_defaults X (take_snapshot X ctx) user (ad_inputs manifest) Map.empty) (\<lambda>m. Ok (user ++ m)))"

definition resolve_action_dir :: "path \<Rightarrow> string option \<Rightarrow> path" where
  "resolve_action_dir cache_dir subpath =
     (case subpath of Some p \<Rightarrow> if p \<noteq> [] then path_join cache_dir (components p) else cache_dir | None \<Rightarrow> cache_dir)"

definition emit_action_header :: "step_externs \<Rightarrow> string \<Rightarrow> action_step \<Rightarrow> string \<Rightarrow> runner_event list" where
  "emit_action_header X i step uses =
     (let inputs = step_input_tokens X step
      in [emit_line i (''##[group]Run '' @ uses), emit_line i (''  uses: '' @ uses)]
         @ (if inputs = [] then []
            else emit_line i ''  with:'' # map (\<lambda>(k, v). emit_line i (''    '' @ k @ '': ''
                   @ (case to_string_value v of Some s \<Rightarrow> s | None \<Rightarrow> ''<unrenderable>''))) inputs))"

text \<open>The result with the events that resolving sends.\<close>

definition resolve_action ::
  "composite_externs \<Rightarrow> job_run \<Rightarrow> action_step \<Rightarrow> string \<Rightarrow> nat \<Rightarrow> (runner_error, resolved_action) result \<times> runner_event list" where
  "resolve_action X J step i clock =
     (let uses = build_uses_ref (as_reference step); header = emit_action_header (cx_step X) i step uses;
          finish = (\<lambda>key dir manifest. (Ok \<lparr>rv_image_cache_key = key, rv_action_dir = dir, rv_manifest = manifest\<rparr>, header))
      in case strip_prefix_str ''docker://'' uses of
           Some img \<Rightarrow>
             (if trim img = [] then (Err (Action_Manifest ''Docker action registry image is empty''), [])
              else case cx_docker_manifest X uses of Inl e \<Rightarrow> (Err e, []) | Inr m \<Rightarrow> finish None (jr_workspace J) m)
         | None \<Rightarrow>
             (case parse_action_ref uses of
                Inl e \<Rightarrow> (Err e, [])
              | Inr a \<Rightarrow>
                  if ar_kind a = Local
                  then (case local_dir (jr_workspace J) a of
                          None \<Rightarrow> (Err (Action_Resolution (''invalid local action ref '' @ in_quotes uses)), [])
                        | Some dir \<Rightarrow> (case cx_manifest X dir of Inl e \<Rightarrow> (Err e, []) | Inr m \<Rightarrow> finish None dir m))
                  else (let resolving = emit_line i (''Resolving '' @ uses @ ''...'')
                        in case cx_ensure_action X a clock of
                             Inl e \<Rightarrow> (Err e, [resolving])
                           | Inr cache_dir \<Rightarrow>
                               (let dir = resolve_action_dir cache_dir (ar_subpath a)
                                in case cx_manifest X dir of
                                     Inl e \<Rightarrow> (Err e, [resolving])
                                   | Inr m \<Rightarrow> (case finish (Some (path_text dir)) dir m of (r, es) \<Rightarrow> (r, resolving # es))))))"

text \<open>\<open>resolve_within_bounds\<close>: a deadline or a cancellation that comes first drops the resolution after what it had sent.\<close>

definition resolve_within_bounds ::
  "composite_externs \<Rightarrow> nat \<Rightarrow> step_bounds \<Rightarrow> (runner_error, resolved_action) result \<times> runner_event list
     \<Rightarrow> (runner_error, resolved_action) result \<times> runner_event list" where
  "resolve_within_bounds X clock b res =
     (case cx_interrupted X clock b of Some (e, k) \<Rightarrow> (Err e, take k (snd res)) | None \<Rightarrow> res)"

definition run_stage :: "stage_run \<Rightarrow> run_state \<Rightarrow> (runner_error, action_outcome) result \<times> run_state" where
  "run_stage g s =
     (sg_result g, s\<lparr>rs_ctx := sg_ctx g, rs_events := rs_events s @ sg_events g, rs_clock := rs_clock s + sg_ticks g\<rparr>)"

definition run_composite_inner ::
  "composite_externs \<Rightarrow> job_run \<Rightarrow> action_runner \<Rightarrow> action_step \<Rightarrow> resolved_action \<Rightarrow> step_bounds \<Rightarrow> string \<Rightarrow> run_state
     \<Rightarrow> ((runner_error, composite_result) result \<times> run_state) option" where
  "run_composite_inner X J run step rv b i s =
     (case build_composite_inputs (cx_step X) step (rv_manifest rv) (rs_ctx s) of
        Inl e \<Rightarrow> Some (Err e, s)
      | Inr inputs \<Rightarrow>
          (let s = emit [emit_line i ''##[endgroup]''] s;
               P = \<lparr>cp_manifest = rv_manifest rv, cp_inputs = inputs, cp_parent = i, cp_action_dir = rv_action_dir rv, cp_bounds = b\<rparr>;
               prior = ec_scope_path (rs_ctx s);
               s = with_ctx (enter_step_scope (as_id step) inputs (path_text (rv_action_dir rv))) s
           in map_option (\<lambda>(result, s).
                let s = with_ctx (restore_step_scope prior) s
                in case result of
                     Inl e \<Rightarrow> (Err e, s)
                   | Inr res \<Rightarrow> (Ok res, with_ctx (\<lambda>ctx. fold prepend_path (ct_path_additions res)
                                  (fold (\<lambda>(k, v). set_env k v) (ct_env_additions res) ctx)) s))
              (execute_composite_action X J run P s)))"

text \<open>The level is left again once it was entered; a refused entry has already counted it.\<close>

definition enter_composite ::
  "(run_state \<Rightarrow> ((runner_error, composite_result) result \<times> run_state) option) \<Rightarrow> run_state
     \<Rightarrow> ((runner_error, composite_result) result \<times> run_state) option" where
  "enter_composite inner s =
     (case enter_depth (rs_depth s) of
        (Inl m, t) \<Rightarrow> Some (Err (Step_Execution m), s\<lparr>rs_depth := t\<rparr>)
      | (Inr _, t) \<Rightarrow> map_option (\<lambda>(r, s). (r, s\<lparr>rs_depth := exit_depth (rs_depth s)\<rparr>)) (inner (s\<lparr>rs_depth := t\<rparr>)))"

definition dispatch_scoped_action ::
  "composite_externs \<Rightarrow> job_run \<Rightarrow> action_runner \<Rightarrow> action_step \<Rightarrow> resolved_action \<Rightarrow> step_bounds \<Rightarrow> string \<Rightarrow> run_state
     \<Rightarrow> ((runner_error, action_outcome) result \<times> run_state) option" where
  "dispatch_scoped_action X J run step rv b i s =
     (let using_kind = runs_kind (ad_runs (rv_manifest rv));
          s = (if i = as_id step then emit (emit_action_metadata i (as_reference step) using_kind) s else s)
      in case using_kind of
           Using_Node major \<Rightarrow> Some (run_stage (cx_node X step rv major b i s) s)
         | Using_Docker \<Rightarrow> Some (run_stage (cx_docker X step rv b i s) s)
         | Using_Composite \<Rightarrow>
             map_option (\<lambda>(r, s). (rbind r (\<lambda>res. Ok \<lparr>out_conclusion = ct_conclusion res, out_post = None, out_outputs = ct_outputs res\<rparr>), s))
               (enter_composite (run_composite_inner X J run step rv b i) s))"

definition dispatch_action ::
  "composite_externs \<Rightarrow> job_run \<Rightarrow> action_runner \<Rightarrow> action_step \<Rightarrow> resolved_action \<Rightarrow> step_bounds \<Rightarrow> string \<Rightarrow> run_state
     \<Rightarrow> ((runner_error, action_outcome) result \<times> run_state) option" where
  "dispatch_action X J run step rv b i s =
     (let prior = capture_metadata (rs_ctx s)
      in map_option (\<lambda>(r, s). (r, with_ctx (restore_metadata prior) s))
           (dispatch_scoped_action X J run step rv b i (with_ctx (set_reference (as_reference step)) s)))"

fun execute_action :: "composite_externs \<Rightarrow> job_run \<Rightarrow> nat \<Rightarrow> action_runner" where
  "execute_action X J 0 step b i s = None"
| "execute_action X J (Suc fuel) step b i s =
     (case resolve_within_bounds X (rs_clock s) b (resolve_action X J step i (rs_clock s)) of
        (res, events) \<Rightarrow>
          (let s = emit events s
           in case rbind res (\<lambda>rv. rbind (resolve_step_env (cx_step X) step (take_snapshot (cx_step X) (rs_ctx s))) (\<lambda>env. Ok (rv, env))) of
                Inl e \<Rightarrow> Some (Err e, s)
              | Inr (rv, env) \<Rightarrow>
                  map_option (\<lambda>(r, s). (r, with_ctx pop_step_env s))
                    (dispatch_action X J (execute_action X J fuel) step rv b i (with_ctx (push_step_env env) s))))"

subsection \<open>What every action leaves alone\<close>

text \<open>The scope, the overlays of step environments and the limit are the same afterwards, no level is lost and events are
  only added.\<close>

definition context_framed :: "exec_context \<Rightarrow> exec_context \<Rightarrow> bool" where
  "context_framed c d \<longleftrightarrow> ec_scope_path d = ec_scope_path c \<and> ec_step_env_overlays d = ec_step_env_overlays c"

definition framed :: "run_state \<Rightarrow> run_state \<Rightarrow> bool" where
  "framed s t \<longleftrightarrow> context_framed (rs_ctx s) (rs_ctx t) \<and> dt_max (rs_depth t) = dt_max (rs_depth s)
     \<and> dt_current (rs_depth s) \<le> dt_current (rs_depth t) \<and> prefix (rs_events s) (rs_events t)"

text \<open>What is relied on of the node and Docker stages.\<close>

definition stages_keep_scope :: "composite_externs \<Rightarrow> bool" where
  "stages_keep_scope X \<longleftrightarrow>
     (\<forall>step rv major b i s. context_framed (rs_ctx s) (sg_ctx (cx_node X step rv major b i s)))
     \<and> (\<forall>step rv b i s. context_framed (rs_ctx s) (sg_ctx (cx_docker X step rv b i s)))"

lemma context_framed_refl [simp]: "context_framed c c"
  by (simp add: context_framed_def)

lemma context_framed_trans: "context_framed c d \<Longrightarrow> context_framed d e \<Longrightarrow> context_framed c e"
  by (simp add: context_framed_def)

lemma framed_refl [simp]: "framed s s"
  by (simp add: framed_def)

lemma framed_trans: "framed s t \<Longrightarrow> framed t u \<Longrightarrow> framed s u"
  by (auto simp: framed_def intro: context_framed_trans)

lemma context_framed_steps [simp]:
  "context_framed c (set_step_output n k v d) = context_framed c d"
  "context_framed c (set_step_outcome n o' d) = context_framed c d"
  "context_framed c (set_step_conclusion n o' d) = context_framed c d"
  "context_framed c (set_env k v d) = context_framed c d"
  "context_framed c (set_scope_status st d) = context_framed c d"
  "context_framed c (prepend_path p d) = context_framed c d"
  "context_framed c (set_github_context k v d) = context_framed c d"
  "context_framed c (set_github_context_value k w d) = context_framed c d"
  "context_framed c (register_nested_post ps d) = context_framed c d"
  by (simp_all add: context_framed_def set_step_output_def set_step_outcome_def set_step_conclusion_def update_step_def set_env_def
      set_scope_status_def prepend_path_def set_github_context_def set_github_context_value_def register_nested_post_def Let_def split: option.split)

lemma context_framed_fold:
  assumes "\<And>x d. context_framed c (f x d) = context_framed c d"
  shows "context_framed c (fold f xs d) = context_framed c d"
  by (induction xs arbitrary: d) (simp_all add: assms)

lemma context_framed_metadata [simp]:
  "context_framed c (clear_repository d) = context_framed c d"
  "context_framed c (restore_metadata saved d) = context_framed c d"
  "context_framed c (set_reference r d) = context_framed c d"
proof -
  show clear: "context_framed c (clear_repository d) = context_framed c d" for d by (simp add: clear_repository_def)
  show "context_framed c (restore_metadata saved d) = context_framed c d"
    unfolding restore_metadata_def by (rule context_framed_fold) simp
  show "context_framed c (set_reference r d) = context_framed c d"
    by (simp add: set_reference_def Let_def clear split: sum.split)
qed

lemma framed_context:
  "context_framed (rs_ctx s) (f (rs_ctx s)) \<Longrightarrow> framed s (with_ctx f s)"
  by (simp add: framed_def with_ctx_def)

lemma framed_simple [simp]:
  "framed s (emit es s)" "framed s (poll X s)" "framed s (snd (is_forced X s))"
  by (simp_all add: framed_def emit_def poll_def is_forced_def Let_def context_framed_def)

lemma output_frame_framed: "output_frame c d \<Longrightarrow> context_framed c d"
proof -
  assume "output_frame c d"
  then have h: "d = c\<lparr>ec_steps := ec_steps d, ec_scoped_steps := ec_scoped_steps d, ec_action_states := ec_action_states d,
                ec_masker := ec_masker d, ec_matchers := ec_matchers d\<rparr>" by (simp only: output_frame_def)
  show ?thesis using arg_cong [OF h, of ec_scope_path] arg_cong [OF h, of ec_step_env_overlays] by (simp add: context_framed_def)
qed

lemma stream_items_framed: "context_framed c (snd (snd (stream_items X items (d, c))))"
proof (induction items arbitrary: d c)
  case (Cons it items)
  show ?case
  proof (cases it)
    case (Out_Line line stream)
    obtain es d1 c1 where one: "stream_process X [(line, stream)] (d, c) = (es, d1, c1)" by (rule prod_cases3)
    have "context_framed c c1" using output_frame_framed [OF stream_process_frame [of c X "[(line, stream)]" d]] by (simp add: one del: stream_process.simps)
    then show ?thesis using Cons.IH [of c1 d1] context_framed_trans
      by (auto simp: Out_Line one simp del: stream_process.simps split: prod.split)
  next
    case (Out_Event e)
    then show ?thesis using Cons.IH [of c d] by (auto split: prod.split)
  qed
qed simp

abbreviation run_framed :: "composite_run \<Rightarrow> composite_run \<Rightarrow> bool" where
  "run_framed r q \<equiv> framed (cr_state r) (cr_state q)"

lemma in_state_run [simp]:
  "cr_state (in_state f r) = f (cr_state r)" "cr_ctx (in_ctx g r) = g (cr_ctx r)"
  "cr_state (in_ctx g r) = with_ctx g (cr_state r)"
  by (simp_all add: in_state_def in_ctx_def with_ctx_def)

lemma framed_emit: "framed s t \<Longrightarrow> framed s (emit es t)"
  by (erule framed_trans) simp

lemma framed_poll: "framed s t \<Longrightarrow> framed s (poll X t)"
  by (erule framed_trans) simp

lemma framed_with: "framed s t \<Longrightarrow> (\<And>c. context_framed c (f c)) \<Longrightarrow> framed s (with_ctx f t)"
  by (erule framed_trans) (simp add: framed_context)

lemma process_file_commands_state: "cr_state (snd (process_file_commands F fp i r)) = cr_state r"
  by (simp add: process_file_commands_def Let_def case_prod_beta split: list.split)

lemma apply_run_framed: "context_framed c (fold (\<lambda>(k, v). set_env k v) env (fold (\<lambda>(k, v). set_step_output i k v) kvs c))"
  using context_framed_fold [of c "\<lambda>(k, v). set_env k v" env] context_framed_fold [of c "\<lambda>(k, v). set_step_output i k v" kvs]
  by (simp add: split_beta)

lemma finish_run_step_framed: "run_framed r (snd (finish_run_step P F fp i r))"
proof -
  have files: "framed s (cr_state (apply_run_file_commands i q))" if "framed s (cr_state q)" for s q
    unfolding apply_run_file_commands_def in_state_run
    by (rule framed_with [OF that]) (use apply_run_framed [of _ "cr_env q" i] apply_run_framed [of _ "cr_env q" i "[]"] in \<open>auto split: option.split\<close>)
  show ?thesis
    by (auto simp: finish_run_step_def Let_def case_prod_beta intro!: framed_emit files) (simp add: process_file_commands_state framed_emit)
qed

lemma execute_composite_script_framed: "run_framed r (snd (execute_composite_script X P child i r))"
  using stream_items_framed [of "cr_ctx r" "rx_dispatch (cx_run X)" "sr_items child" "new_dispatcher i (cp_parent P) (Some i)"]
  by (auto simp: execute_composite_script_def intro!: framed_poll framed_emit framed_context split: prod.split)

lemma run_run_step_framed: "run_framed r (snd (run_run_step X J P step idx script r))"
proof -
  let ?q = "start_run_step P step script r"
  have q: "run_framed r ?q" by (simp add: start_run_step_def Let_def)
  show ?thesis
  proof (cases "render_run_step X J P step script ?q")
    case (Inl e)
    then show ?thesis using q by (simp add: run_run_step_def Let_def)
  next
    case (Inr fpp)
    obtain fp ps where fpp: "fpp = (fp, ps)" by (rule prod.exhaust)
    let ?child = "cx_shell X (bd_cleanup (active_bounds P ?q)) ps (rs_clock (cr_state ?q))"
    obtain res r1 where ex: "execute_composite_script X P ?child (inner_step_id step idx) ?q = (res, r1)" by (rule prod.exhaust)
    have r1: "run_framed r r1"
      using framed_trans [OF q execute_composite_script_framed [of ?q X P ?child "inner_step_id step idx"]] by (simp add: ex)
    let ?r2 = "in_state (emit (collect_summary (sr_summary ?child) (cp_parent P) (cx_summary_id X (rs_clock (cr_state ?q))) (cr_ctx r1))) r1"
    have r2: "run_framed r ?r2" by (simp add: r1 framed_emit)
    show ?thesis
    proof (cases res)
      case (Inl e)
      then show ?thesis using r2 by (simp add: run_run_step_def Let_def Inr fpp ex)
    next
      case c: (Inr c)
      have "run_framed r (snd (finish_run_step P (sr_files ?child) fp (inner_step_id step idx) ?r2))"
        by (rule framed_trans [OF r2 finish_run_step_framed])
      then show ?thesis by (simp add: run_run_step_def Let_def Inr fpp ex c case_prod_beta)
    qed
  qed
qed

text \<open>A runner of inner actions that returns from every state below the limit, within the frame.\<close>

definition returns_framed :: "nat \<Rightarrow> action_runner \<Rightarrow> bool" where
  "returns_framed fuel run \<longleftrightarrow>
     (\<forall>step b i s. dt_max (rs_depth s) - dt_current (rs_depth s) < fuel \<longrightarrow> (\<exists>r t. run step b i s = Some (r, t) \<and> framed s t))"

lemma framed_room: "framed s t \<Longrightarrow> dt_max (rs_depth t) - dt_current (rs_depth t) \<le> dt_max (rs_depth s) - dt_current (rs_depth s)"
  by (auto simp: framed_def)

abbreviation room :: "composite_run \<Rightarrow> nat" where
  "room r \<equiv> dt_max (rs_depth (cr_state r)) - dt_current (rs_depth (cr_state r))"

lemma build_nested_step_framed: "context_framed c (snd (build_nested_step X inputs step idx uses c))"
  by (auto simp: build_nested_step_def Let_def split: sum.split prod.split)

lemma record_nested_framed: "context_framed c (record_nested_result step out c)"
  using context_framed_fold [of c "\<lambda>(k, v). set_step_output n k v" for n]
  by (auto simp: record_nested_result_def split_beta split: option.split)

lemma run_uses_step_framed:
  assumes "returns_framed fuel run" "room r < fuel"
  shows "\<exists>res q. run_uses_step X run P step idx r = Some (res, q) \<and> run_framed r q"
proof (cases "cs_uses step")
  case None
  then show ?thesis by (auto simp: run_uses_step_def run_nested_uses_step_def split: option.split)
next
  case (Some uses)
  obtain syn c where b: "build_nested_step X (cp_inputs P) step idx uses (cr_ctx r) = (syn, c)" by (rule prod.exhaust)
  let ?r = "in_ctx (\<lambda>_. c) r"
  have c: "context_framed (cr_ctx r) c" using build_nested_step_framed [of "cr_ctx r" X "cp_inputs P" step idx uses] by (simp add: b)
  then have r: "run_framed r ?r" by (simp add: framed_context)
  show ?thesis
  proof (cases syn)
    case (Inl e)
    then show ?thesis using r by (simp add: run_uses_step_def run_nested_uses_step_def Some b)
  next
    case (Inr st)
    show ?thesis
    proof (cases "render_pairs (cx_step X) (composite_eval_context (cx_step X) c (cp_inputs P) None) Field_Env (cs_env step)")
      case (Inl e)
      then show ?thesis using r \<open>syn = Inr st\<close> by (simp add: run_uses_step_def run_nested_uses_step_def Some b Let_def)
    next
      case kvs: (Inr kvs)
      let ?st = "st\<lparr>as_environment := Some (mapping_token kvs)\<rparr>"
      have "room ?r < fuel" using framed_room [OF r] assms(2) by simp
      then obtain res t where run: "run ?st (active_bounds P ?r) (cp_parent P) (cr_state ?r) = Some (res, t)" and t: "framed (cr_state ?r) t"
        using assms(1) unfolding returns_framed_def by blast
      have rt: "framed (cr_state r) t" by (rule framed_trans [OF r t])
      show ?thesis
      proof (cases res)
        case (Inl e)
        then show ?thesis using rt Inr kvs run by (simp add: run_uses_step_def run_nested_uses_step_def Some b Let_def)
      next
        case out: (Inr out)
        have "framed (cr_state r) (with_ctx (\<lambda>ctx. register_nested_post (out_post out) (record_nested_result ?st out ctx)) t)"
          by (rule framed_with [OF rt]) (simp add: record_nested_framed)
        then show ?thesis using Inr kvs run out
          by (simp add: run_uses_step_def run_nested_uses_step_def Some b Let_def split: option.split)
      qed
    qed
  qed
qed

lemma report_error_framed: "run_framed r (snd (report_composite_step_error X P e r))"
  by (simp add: report_composite_step_error_def)

lemma record_inner_framed: "run_framed r (record_inner_result step o' c r)"
  by (simp add: record_inner_result_def framed_context split: option.split)

lemma run_one_step_framed:
  assumes "returns_framed fuel run" "room r < fuel"
  shows "\<exists>res q. run_one_step X J run P step idx r = Some (res, q) \<and> run_framed r q"
proof (cases "cs_uses step = None")
  case True
  show ?thesis
  proof (cases "cs_run step")
    case (Some script)
    let ?r = "in_ctx clear_repository r"
    obtain res q where q: "run_run_step X J P step idx script ?r = (res, q)" by (rule prod.exhaust)
    have "run_framed r ?r" by (simp add: framed_context)
    then have "run_framed r q" using framed_trans run_run_step_framed [of ?r X J P step idx script] by (metis q snd_conv)
    then have f: "run_framed r (in_ctx (restore_metadata prior) q)" for prior by (simp add: framed_with)
    show ?thesis
      using f [of "capture_metadata (cr_ctx r)"] framed_trans [OF f report_error_framed]
      by (cases res) (simp_all add: run_one_step_def True Some q Let_def case_prod_beta)
  qed (simp add: run_one_step_def True)
next
  case False
  obtain res q where q: "run_uses_step X run P step idx r = Some (res, q)" "run_framed r q"
    using run_uses_step_framed [OF assms] by blast
  show ?thesis
    using q(2) framed_trans [OF q(2) report_error_framed]
    by (cases res) (simp_all add: run_one_step_def False q(1) Let_def case_prod_beta)
qed

lemma settle_framed: "run_framed r (snd (settle_inner_step X P step outcome aggregate r))"
proof -
  have status: "run_framed q (snd (update_composite_status X P c a q))" for c a q
    by (simp add: update_composite_status_def framed_context)
  have "run_framed r (snd (update_composite_status X P c a (record_inner_result step o' c' (in_state (emit es) r))))" for c a o' c' es
    by (rule framed_trans [OF framed_trans [OF _ record_inner_framed] status]) (simp add: framed_emit)
  then show ?thesis by (simp add: settle_inner_step_def Let_def case_prod_beta)
qed

lemma run_composite_steps_framed:
  assumes "returns_framed fuel run" "room r < fuel"
  shows "\<exists>c q. run_composite_steps X J run P steps aggregate r = Some (c, q) \<and> run_framed r q"
  using assms(2)
proof (induction steps arbitrary: aggregate r)
  case (Cons istep rest)
  obtain idx step where st: "istep = (idx, step)" by (rule prod.exhaust)
  obtain forced s where f: "is_forced (cx_run X) (cr_state r) = (forced, s)" by (rule prod.exhaust)
  let ?r = "r\<lparr>cr_state := s\<rparr>"
  have r: "run_framed r ?r" using framed_simple(3) [of "cr_state r" "cx_run X"] by (simp add: f)
  have next_step: "\<exists>c q'. run_composite_steps X J run P rest a q = Some (c, q') \<and> run_framed r q'" if "run_framed r q" for a q
    using Cons.IH [of q a] framed_room [OF that] Cons.prems framed_trans [OF that] by fastforce
  show ?case
  proof (cases forced)
    case True
    then show ?thesis using r by (simp add: st f)
  next
    case False
    show ?thesis
    proof (cases "evaluate_composite_condition (cx_step X) (cs_condition step) (composite_eval_context (cx_step X) (cr_ctx ?r) (cp_inputs P) None)")
      case (Inl e)
      have "run_framed r (record_inner_result step Con_Failure Con_Failure (snd (report_composite_step_error X P e ?r)))"
        by (rule framed_trans [OF framed_trans [OF r report_error_framed] record_inner_framed])
      then show ?thesis using Inl False by (simp add: st f case_prod_beta Let_def)
    next
      case (Inr b)
      show ?thesis
      proof (cases b)
        case True
        have "room ?r < fuel" using framed_room [OF r] Cons.prems by simp
        then obtain res q where q: "run_one_step X J run P step idx ?r = Some (res, q)" "run_framed ?r q"
          using run_one_step_framed [OF assms(1)] by blast
        have rq: "run_framed r q" by (rule framed_trans [OF r q(2)])
        show ?thesis
        proof (cases res)
          case None
          then show ?thesis using next_step [OF rq, of aggregate] Inr True False q by (simp add: st f)
        next
          case (Some outcome)
          obtain a q' where s: "settle_inner_step X P step outcome aggregate q = (a, q')" by (rule prod.exhaust)
          have "run_framed r q'" using framed_trans [OF rq settle_framed [of q X P step outcome aggregate]] by (simp add: s)
          then show ?thesis using next_step [of q' a] Inr True False q Some s by (simp add: st f)
        qed
      next
        case b: False
        have "run_framed r (record_inner_result step Con_Skipped Con_Skipped ?r)" by (rule framed_trans [OF r record_inner_framed])
        then show ?thesis using next_step Inr b False by (simp add: st f)
      qed
    qed
  qed
qed simp

lemma run_composite_inner_framed:
  assumes "returns_framed fuel run" "dt_max (rs_depth s) - dt_current (rs_depth s) < fuel"
  shows "\<exists>r t. run_composite_inner X J run step rv b i s = Some (r, t) \<and> framed s t"
proof (cases "build_composite_inputs (cx_step X) step (rv_manifest rv) (rs_ctx s)")
  case (Inr inputs)
  let ?P = "\<lparr>cp_manifest = rv_manifest rv, cp_inputs = inputs, cp_parent = i, cp_action_dir = rv_action_dir rv, cp_bounds = b\<rparr>"
  let ?s = "with_ctx (enter_step_scope (as_id step) inputs (path_text (rv_action_dir rv))) (emit [emit_line i ''##[endgroup]''] s)"
  have ctx: "ec_step_env_overlays (rs_ctx ?s) = ec_step_env_overlays (rs_ctx s)" and rest: "rs_depth ?s = rs_depth s" "prefix (rs_events s) (rs_events ?s)"
    by (simp_all add: with_ctx_def emit_def enter_step_scope_def Let_def)
  let ?out = "\<lambda>t. ec_step_env_overlays (rs_ctx t) = ec_step_env_overlays (rs_ctx s) \<and> dt_max (rs_depth t) = dt_max (rs_depth s)
     \<and> dt_current (rs_depth s) \<le> dt_current (rs_depth t) \<and> prefix (rs_events s) (rs_events t)"
  have out: "?out t" if "framed ?s t" for t
    using that ctx rest by (auto simp: framed_def context_framed_def dest: append_prefixD)
  have "\<exists>r t. execute_composite_action X J run ?P ?s = Some (r, t) \<and> ?out t"
  proof (cases "cx_temp_error X (rs_clock ?s)")
    case None
    obtain c q where "run_composite_steps X J run ?P (enumerate 0 (runs_steps (ad_runs (rv_manifest rv)))) Con_Success (new_composite_run ?s) = Some (c, q)"
      "run_framed (new_composite_run ?s) q"
      using run_composite_steps_framed [OF assms(1), of "new_composite_run ?s"] assms(2) rest by (fastforce simp: new_composite_run_def)
    then show ?thesis using None out [of "cr_state q"] by (simp add: execute_composite_action_def new_composite_run_def)
  qed (simp add: execute_composite_action_def out)
  then obtain r t where run: "execute_composite_action X J run ?P ?s = Some (r, t)" and t: "?out t" by blast
  have restored: "framed s (with_ctx (restore_step_scope (ec_scope_path (rs_ctx s))) t)"
    using t by (simp add: framed_def context_framed_def with_ctx_def restore_step_scope_def)
  have "context_framed c (fold prepend_path ps (fold (\<lambda>(k, v). set_env k v) env c))" for c ps env
    using context_framed_fold [of c "\<lambda>(k, v). set_env k v" env] context_framed_fold [of c prepend_path ps] by (simp add: split_beta)
  then have add: "framed s (with_ctx (\<lambda>ctx. fold prepend_path ps (fold (\<lambda>(k, v). set_env k v) env ctx)) (with_ctx (restore_step_scope (ec_scope_path (rs_ctx s))) t))" for ps env
    by (rule framed_with [OF restored])
  have scope: "ec_scope_path (rs_ctx (emit es s)) = ec_scope_path (rs_ctx s)" for es by (simp add: emit_def)
  show ?thesis using restored add by (cases r) (simp_all add: run_composite_inner_def Inr run Let_def scope)
qed (simp add: run_composite_inner_def)

lemma enter_composite_framed:
  assumes "\<And>t. dt_current (rs_depth s) + 1 \<le> dt_max (rs_depth s) \<Longrightarrow> t = s\<lparr>rs_depth := (rs_depth s)\<lparr>dt_current := dt_current (rs_depth s) + 1\<rparr>\<rparr>
           \<Longrightarrow> \<exists>r u. inner t = Some (r, u) \<and> framed t u"
  shows "\<exists>r t. enter_composite inner s = Some (r, t) \<and> framed s t"
proof (cases "dt_max (rs_depth s) < dt_current (rs_depth s) + 1")
  case True
  then show ?thesis by (simp add: enter_composite_def enter_depth_def Let_def framed_def)
next
  case False
  let ?t = "s\<lparr>rs_depth := (rs_depth s)\<lparr>dt_current := dt_current (rs_depth s) + 1\<rparr>\<rparr>"
  obtain r u where u: "inner ?t = Some (r, u)" "framed ?t u" using assms [of ?t] False by auto
  then have "framed s (u\<lparr>rs_depth := exit_depth (rs_depth u)\<rparr>)" by (auto simp: framed_def exit_depth_def)
  then show ?thesis using False u by (simp add: enter_composite_def enter_depth_def Let_def)
qed

lemma run_stage_framed: "context_framed (rs_ctx s) (sg_ctx g) \<Longrightarrow> framed s (snd (run_stage g s))"
  by (simp add: run_stage_def framed_def)

lemma dispatch_action_framed:
  assumes "returns_framed fuel run" "stages_keep_scope X" "dt_max (rs_depth s) - dt_current (rs_depth s) < Suc fuel"
  shows "\<exists>r t. dispatch_action X J run step rv b i s = Some (r, t) \<and> framed s t"
proof -
  have scoped: "\<exists>r t. dispatch_scoped_action X J run step rv b i s = Some (r, t) \<and> framed s t"
    if room: "dt_max (rs_depth s) - dt_current (rs_depth s) < Suc fuel" for s
  proof -
    let ?k = "runs_kind (ad_runs (rv_manifest rv))"
    define q where "q = (if i = as_id step then emit (emit_action_metadata i (as_reference step) ?k) s else s)"
    have s: "framed s q" by (simp add: q_def)
    have depth: "rs_depth q = rs_depth s" by (simp add: q_def emit_def)
    have disp: "dispatch_scoped_action X J run step rv b i s = (case ?k of
           Using_Node major \<Rightarrow> Some (run_stage (cx_node X step rv major b i q) q)
         | Using_Docker \<Rightarrow> Some (run_stage (cx_docker X step rv b i q) q)
         | Using_Composite \<Rightarrow>
             map_option (\<lambda>(r, s). (rbind r (\<lambda>res. Ok \<lparr>out_conclusion = ct_conclusion res, out_post = None, out_outputs = ct_outputs res\<rparr>), s))
               (enter_composite (run_composite_inner X J run step rv b i) q))"
      unfolding dispatch_scoped_action_def Let_def q_def ..
    show ?thesis
    proof (cases ?k)
      case (Using_Node major)
      have "context_framed (rs_ctx q) (sg_ctx (cx_node X step rv major b i q))" using assms(2) unfolding stages_keep_scope_def by blast
      then have f: "framed s (snd (run_stage (cx_node X step rv major b i q) q))" by (rule framed_trans [OF s run_stage_framed])
      obtain r t where "run_stage (cx_node X step rv major b i q) q = (r, t)" by (rule prod.exhaust)
      then show ?thesis using f by (simp add: disp Using_Node)
    next
      case Using_Docker
      have "context_framed (rs_ctx q) (sg_ctx (cx_docker X step rv b i q))" using assms(2) unfolding stages_keep_scope_def by blast
      then have f: "framed s (snd (run_stage (cx_docker X step rv b i q) q))" by (rule framed_trans [OF s run_stage_framed])
      obtain r t where "run_stage (cx_docker X step rv b i q) q = (r, t)" by (rule prod.exhaust)
      then show ?thesis using f by (simp add: disp Using_Docker)
    next
      case Using_Composite
      have "\<exists>r t. enter_composite (run_composite_inner X J run step rv b i) q = Some (r, t) \<and> framed q t"
      proof (rule enter_composite_framed)
        fix t assume "dt_current (rs_depth q) + 1 \<le> dt_max (rs_depth q)" "t = q\<lparr>rs_depth := (rs_depth q)\<lparr>dt_current := dt_current (rs_depth q) + 1\<rparr>\<rparr>"
        then show "\<exists>r u. run_composite_inner X J run step rv b i t = Some (r, u) \<and> framed t u"
          using room by (intro run_composite_inner_framed [OF assms(1)]) (simp add: depth)
      qed
      then obtain r t where "enter_composite (run_composite_inner X J run step rv b i) q = Some (r, t)" "framed s t"
        using framed_trans [OF s] by blast
      then show ?thesis using Using_Composite by (simp add: disp)
    qed
  qed
  let ?s = "with_ctx (set_reference (as_reference step)) s"
  have s: "framed s ?s" by (simp add: framed_context)
  have "rs_depth ?s = rs_depth s" by (simp add: with_ctx_def)
  then obtain r t where t: "dispatch_scoped_action X J run step rv b i ?s = Some (r, t)" "framed s t"
    using scoped [of ?s] assms(3) framed_trans [OF s] by fastforce
  then have "framed s (with_ctx (restore_metadata saved) t)" for saved by (simp add: framed_with)
  then show ?thesis using t(1) by (simp add: dispatch_action_def Let_def)
qed

lemma pop_push_framed:
  assumes "framed (with_ctx (push_step_env env) s) t"
  shows "framed s (with_ctx pop_step_env t)"
  using assms by (simp add: framed_def context_framed_def with_ctx_def push_step_env_def pop_step_env_def)

lemma execute_action_framed: "stages_keep_scope X \<Longrightarrow> returns_framed fuel (execute_action X J fuel)"
proof (induction fuel)
  case (Suc fuel)
  show ?case unfolding returns_framed_def
  proof (intro allI impI)
    fix step b i and s :: run_state
    assume room: "dt_max (rs_depth s) - dt_current (rs_depth s) < Suc fuel"
    obtain res es where r: "resolve_within_bounds X (rs_clock s) b (resolve_action X J step i (rs_clock s)) = (res, es)" by (rule prod.exhaust)
    let ?s = "emit es s"
    let ?ready = "rbind res (\<lambda>rv. rbind (resolve_step_env (cx_step X) step (take_snapshot (cx_step X) (rs_ctx ?s))) (\<lambda>env. Ok (rv, env)))"
    show "\<exists>r t. execute_action X J (Suc fuel) step b i s = Some (r, t) \<and> framed s t"
    proof (cases ?ready)
      case (Inl e)
      then show ?thesis by (simp add: r)
    next
      case (Inr rve)
      obtain rv env where rve: "rve = (rv, env)" by (rule prod.exhaust)
      have "rs_depth (with_ctx (push_step_env env) ?s) = rs_depth s" by (simp add: with_ctx_def emit_def)
      then obtain q t where t: "dispatch_action X J (execute_action X J fuel) step rv b i (with_ctx (push_step_env env) ?s) = Some (q, t)"
        "framed (with_ctx (push_step_env env) ?s) t"
        using dispatch_action_framed [OF Suc.IH [OF Suc.prems] Suc.prems] room by metis
      have "framed s (with_ctx pop_step_env t)" using framed_trans [OF _ pop_push_framed [OF t(2)]] by simp
      then show ?thesis using t(1) Inr by (simp add: r rve)
    qed
  qed
qed (simp add: returns_framed_def)

text \<open>
  C12. Composite actions end and leave no trace of their scope. However actions use one another, even an action that
  uses itself, the execution of an action returns as soon as the fuel exceeds the levels that the depth limit still
  allows; afterwards the scope, the overlays of step environments and the limit are what they were, no level
  is lost below the one it started from, and events have only been added.
\<close>

theorem composite_nesting_ends:
  assumes "stages_keep_scope X" "dt_max (rs_depth s) - dt_current (rs_depth s) < fuel"
  shows "\<exists>r t. execute_action X J fuel step b i s = Some (r, t)
    \<and> ec_scope_path (rs_ctx t) = ec_scope_path (rs_ctx s) \<and> ec_step_env_overlays (rs_ctx t) = ec_step_env_overlays (rs_ctx s)
    \<and> dt_max (rs_depth t) = dt_max (rs_depth s) \<and> dt_current (rs_depth s) \<le> dt_current (rs_depth t) \<and> prefix (rs_events s) (rs_events t)"
  using execute_action_framed [OF assms(1), of fuel J] assms(2) unfolding returns_framed_def framed_def context_framed_def by blast

text \<open>A workspace whose only action uses itself.\<close>

definition self_step :: composite_step where
  "self_step = \<lparr>cs_id = None, cs_name = None, cs_run = None, cs_shell = None, cs_working_directory = None, cs_env = [], cs_condition = None,
     cs_uses = Some ''./a'', cs_continue_on_error = None, cs_with = []\<rparr>"

definition self_manifest :: action_definition where
  "self_manifest = \<lparr>ad_name = ''a'', ad_description = [], ad_inputs = [], ad_outputs = [],
     ad_runs = \<lparr>runs_kind = Using_Composite, runs_main = None, runs_pre = None, runs_post = None, runs_pre_if = None, runs_post_if = None,
       runs_image = None, runs_args = None, runs_env = [], runs_entrypoint = None, runs_pre_entrypoint = None, runs_post_entrypoint = None,
       runs_steps = [self_step]\<rparr>\<rparr>"

definition plain_stage :: "exec_context \<Rightarrow> stage_run" where
  "plain_stage ctx = \<lparr>sg_result = Ok \<lparr>out_conclusion = Con_Success, out_post = None, out_outputs = []\<rparr>, sg_ctx = ctx, sg_events = [], sg_ticks = 1\<rparr>"

definition plain_composite :: composite_externs where
  "plain_composite = \<lparr>cx_run = plain_run, cx_shell = (\<lambda>_. rx_child plain_run), cx_now = id, cx_job_deadline = (\<lambda>_. None),
     cx_summary_id = (\<lambda>n. ''u''), cx_temp_error = (\<lambda>_. None), cx_interrupted = (\<lambda>_ _. None), cx_manifest = (\<lambda>_. Ok self_manifest),
     cx_docker_manifest = (\<lambda>_. Ok self_manifest), cx_ensure_action = (\<lambda>_ _. Ok [''/'', ''c'']),
     cx_node = (\<lambda>_ _ _ _ _ s. plain_stage (rs_ctx s)), cx_docker = (\<lambda>_ _ _ _ s. plain_stage (rs_ctx s)),
     cx_self_repository = False, cx_workflow_identity = None\<rparr>"

lemma plain_stages: "stages_keep_scope plain_composite"
  by (simp add: stages_keep_scope_def plain_composite_def plain_stage_def)

theorem composite_nesting_ends_witness:
  "\<exists>r t. execute_action plain_composite plain_job_run 11 (\<lparr>as_id = ''s'', as_name = None, as_type = None, as_display_name_token = None,
        as_context_name = None, as_condition = None, as_continue_on_error = None, as_timeout_in_minutes = None,
        as_reference = \<lparr>ref_type = Some ''repository'', ref_image = None, ref_name = Some ''./a'', ref_git_ref = None, ref_repository_type = None, ref_path = None\<rparr>,
        as_inputs = mapping_token [], as_environment = None\<rparr>) \<lparr>bd_deadline = None, bd_cleanup = False\<rparr> ''s'' plain_state = Some (r, t)
     \<and> ec_scope_path (rs_ctx t) = []"
proof -
  have "ec_scope_path (rs_ctx plain_state) = []" by (simp add: plain_state_def plain_job_def new_context_def)
  with composite_nesting_ends [OF plain_stages, of plain_state 11 plain_job_run] show ?thesis
    by (fastforce simp: plain_state_def new_tracker_def MAX_COMPOSITE_DEPTH_def)
qed

subsection \<open>After an inner failure\<close>

lemma condition_default: "condition_expression None = Ok ''success()''"
  by code_simp

lemma parse_success: "parse ''success()'' = Ok (FunctionCall ''success'' [])"
  by code_simp

text \<open>A step without a condition of its own runs when the status of its scope is success.\<close>

lemma default_condition:
  "evaluate_composite_condition X None snap = Ok (job_status (fst snap) = Success)"
proof -
  have n: "to_ascii_lowercase ''success'' = ''success''" "validate_arity ''success'' 0 = Ok ()"
    "\<not> eq_ignore_ascii_case ''success'' ''case''" "\<not> eq_ignore_ascii_case ''success'' ''format''" by code_simp+
  then have e: "eval_expr Y c (FunctionCall ''success'' []) n = Ok (Bool (job_status c = Success), n)"
    "validate c (FunctionCall ''success'' []) = Ok ()" for Y c n
    by (simp_all add: call_function_def)
  have "validate_expression ''success()'' Field_If = Ok ()"
    by (simp add: validate_expression_def parse_success lift_expr_def validate_function_def n)
  then show ?thesis
    by (cases snap) (simp add: evaluate_composite_condition_def condition_default evaluate_with_def evaluate_def parse_success e del: eval_expr.simps validate.simps)
qed

lemma composite_status: "job_status (fst (composite_eval_context X ctx inputs env)) = scoped_job_status ctx"
  by (simp add: composite_eval_context_def take_snapshot_def Let_def case_prod_beta split: option.split)

definition scope_failed :: "composite_run \<Rightarrow> bool" where
  "scope_failed r \<longleftrightarrow> ec_scope_path (cr_ctx r) \<noteq> [] \<and> ec_scoped_status (cr_ctx r) (ec_scope_path (cr_ctx r)) = Some Failure"

lemma scope_failed_status: "scope_failed r \<Longrightarrow> scoped_job_status (cr_ctx r) \<noteq> Success"
  by (simp add: scope_failed_def scoped_job_status_def)

lemma update_step_scoped_status [simp]: "ec_scoped_status (update_step n f ctx) = ec_scoped_status ctx"
  by (simp add: update_step_def Let_def)

lemma rs_ctx_with [simp]: "rs_ctx (with_ctx f s) = f (rs_ctx s)"
  by (simp add: with_ctx_def)

lemma record_inner_keeps [simp]:
  "scope_failed (record_inner_result step o' c r) = scope_failed r"
  "rs_events (cr_state (record_inner_result step o' c r)) = rs_events (cr_state r)"
  by (simp_all add: record_inner_result_def scope_failed_def set_step_outcome_def set_step_conclusion_def split: option.split)

lemma skip_default_steps:
  assumes "scope_failed r" "list_all (\<lambda>(idx, step). cs_condition step = None) rest"
  shows "\<exists>c q. run_composite_steps X J run P rest Con_Failure r = Some (c, q) \<and> c \<in> {Con_Failure, Con_Cancelled}
    \<and> rs_events (cr_state q) = rs_events (cr_state r)"
  using assms
proof (induction rest arbitrary: r)
  case (Cons istep rest)
  obtain idx step where st: "istep = (idx, step)" by (rule prod.exhaust)
  obtain forced s where f: "is_forced (cx_run X) (cr_state r) = (forced, s)" by (rule prod.exhaust)
  let ?r = "r\<lparr>cr_state := s\<rparr>"
  have keep: "scope_failed ?r" "rs_events s = rs_events (cr_state r)"
    using Cons.prems(1) f by (auto simp: scope_failed_def is_forced_def poll_def Let_def)
  show ?case
  proof (cases forced)
    case True
    then show ?thesis using keep by (simp add: st f)
  next
    case False
    have "evaluate_composite_condition (cx_step X) (cs_condition step) (composite_eval_context (cx_step X) (cr_ctx ?r) (cp_inputs P) None) = Ok False"
      using Cons.prems(2) scope_failed_status [OF keep(1)] by (simp add: st default_condition composite_status)
    then show ?thesis
      using Cons.IH [of "record_inner_result step Con_Skipped Con_Skipped ?r"] Cons.prems(2) keep False by (simp add: st f)
  qed
qed simp


definition bad_step :: composite_step where
  "bad_step = self_step\<lparr>cs_uses := Some ''bad''\<rparr>"

definition plain_params :: composite_params where
  "plain_params = \<lparr>cp_manifest = self_manifest, cp_inputs = Map.empty, cp_parent = ''s'', cp_action_dir = [''/'', ''a''],
     cp_bounds = \<lparr>bd_deadline = None, bd_cleanup = False\<rparr>\<rparr>"

definition plain_scope :: run_state where
  "plain_scope = with_ctx (enter_step_scope ''s'' Map.empty ''/a'') plain_state"


subsection \<open>Two divergences\<close>

text \<open>
  The environment of a nested action is rendered twice: the composite renders it under the policy of its field, and
  \<open>execute_action\<close> renders the literal text again, under no policy. A text that an input brings in is so taken for
  an expression, and reads what the policy denies.
\<close>

lemma nested_env_rendered_again:
  "resolve_step_env X (step\<lparr>as_environment := Some (mapping_token [(k, s)])\<rparr>) snap = rbind (interpolate_with X snap s) (\<lambda>v. Ok [k \<mapsto> v])"
  by (simp add: resolve_step_env_def mapping_token_def dict_entries_def literal_template_token_def to_string_value_def env_token_to_string_def)

definition injected_context :: snapshot where
  "injected_context = (plain_context\<lparr>contexts := [(''inputs'', Object 0 [(''t'', Str ''${{ secrets.T }}'')]), (''secrets'', Object 1 [(''T'', Str ''hunter2'')])]\<rparr>, 2)"

theorem input_text_reads_secret:
  "interpolate_composite_expr plain_step_externs ''${{ inputs.t }}'' injected_context Field_Env = Ok ''${{ secrets.T }}''
   \<and> \<not> is_ok (interpolate_composite_expr plain_step_externs ''${{ secrets.T }}'' injected_context Field_Env)
   \<and> resolve_step_env plain_step_externs (step\<lparr>as_environment := Some (mapping_token [(''E'', ''${{ secrets.T }}'')])\<rparr>) injected_context = Ok [''E'' \<mapsto> ''hunter2'']"
proof -
  let ?c = "fst injected_context"
  have p: "parse ''inputs.t'' = Ok (PropertyAccess (Context ''inputs'') ''t'')" "parse ''secrets.T'' = Ok (PropertyAccess (Context ''secrets'') ''T'')"
    by code_simp+
  have a: "find_str ''${{'' ''${{ inputs.t }}'' = Some 0" "expression_end (drop 3 ''${{ inputs.t }}'') = Some 10" "trim (take 10 (drop 3 ''${{ inputs.t }}'')) = ''inputs.t''"
    by code_simp+
  have b: "find_str ''${{'' ''${{ secrets.T }}'' = Some 0" "expression_end (drop 3 ''${{ secrets.T }}'') = Some 11" "trim (take 11 (drop 3 ''${{ secrets.T }}'')) = ''secrets.T''"
    by code_simp+
  have v: "validate_root ''inputs'' Field_Env = Ok ()" "\<not> is_ok (validate_root ''secrets'' Field_Env)" "\<not> eq_ignore_ascii_case ''t'' ''action_path''" by code_simp+
  have r: "resolve_context ?c ''inputs'' = Object 0 [(''t'', Str ''${{ secrets.T }}'')]" "resolve_context ?c ''secrets'' = Object 1 [(''T'', Str ''hunter2'')]"
    "validate ?c (Context ''inputs'') = Ok ()" "validate ?c (Context ''secrets'') = Ok ()" by code_simp+
  have "slice_cmp as as = Equal" for as by (induction as) simp_all
  then have same: "ordinal_compare u k k = Equal" for u k by (simp add: ordinal_compare_def)
  have acc: "access u (Object i [(k, w)]) (Some (Str k)) 2 = (w, 2)" for u i k w
    by (simp add: access_def same)
  have ev: "evaluate plain_externs ?c ''inputs.t'' 2 = Ok (Str ''${{ secrets.T }}'', 2)" "evaluate plain_externs ?c ''secrets.T'' 2 = Ok (Str ''hunter2'', 2)"
    using r acc by (simp_all add: evaluate_def p del: validate.simps(2))
  have tail: "validate_template [] Field_Env = Ok ()" "interpolate_from X c out [] m = Ok (out, m)" for X c out m
    by (simp_all add: validate_template.simps interpolate_from.simps)
  have has: "contains_block ''${{ inputs.t }}'' ''${{''" "contains_block ''${{ secrets.T }}'' ''${{''" by (simp_all only: contains_block_def a(1) b(1)) simp_all
  have n: "snd injected_context = 2" by (simp add: injected_context_def)
  have valid: "validate_template ''${{ inputs.t }}'' Field_Env = Ok ()"
    using v a tail by (simp add: validate_template.simps [of "''${{ inputs.t }}''"] validate_expression_def lift_expr_def p validate_action_path_def Let_def)
  have invalid: "\<not> is_ok (validate_template ''${{ secrets.T }}'' Field_Env)"
    using v b by (simp add: validate_template.simps [of "''${{ secrets.T }}''"] validate_expression_def lift_expr_def p validate_action_path_def Let_def
        split: sum.splits) (cases "validate_root ''secrets'' Field_Env"; simp)
  have "interpolate plain_externs ?c ''${{ inputs.t }}'' 2 = Ok (''${{ secrets.T }}'', 2)"
    using a tail ev by (simp add: interpolate_def interpolate_from.simps [of _ _ _ "''${{ inputs.t }}''"] Let_def)
  moreover have "interpolate plain_externs ?c ''${{ secrets.T }}'' 2 = Ok (''hunter2'', 2)"
    using b tail ev by (simp add: interpolate_def interpolate_from.simps [of _ _ _ "''${{ secrets.T }}''"] Let_def)
  moreover have "sx_expr plain_step_externs = plain_externs" by (simp add: plain_step_externs_def)
  ultimately show ?thesis
    using has n valid invalid
    by (simp add: interpolate_composite_expr_def nested_env_rendered_again interpolate_with_def lift_expr_def)
       (cases "validate_template ''${{ secrets.T }}'' Field_Env"; simp)
qed

text \<open>Inside a composite action the first added directory comes first on the path; everywhere else the last one does.\<close>

theorem composite_path_order_differs:
  "prepend_path_additions [''a'', ''b''] [''PATH'' \<mapsto> ''c''] ''PATH'' = Some ''a:b:c''
   \<and> merge_step_env_with_paths None [''PATH'' \<mapsto> ''c''] Map.empty [''a'', ''b''] ''PATH'' = Some ''b:a:c''"
  by (simp add: prepend_path_additions_def merge_step_env_with_paths_def unwrap_or_default_def option_or_def)

end
