(* ===== verification/Cache_Store.thy ===== *)
theory Cache_Store
  imports Step_Context
begin

text \<open>
  The content-addressed store of the cache service (\<open>crates/cache/src/cas/\<close>: \<open>manifest.rs\<close>, \<open>chunk_io.rs\<close>,
  \<open>chunker.rs\<close>, \<open>store.rs\<close>) and its optional cold tier (\<open>crates/cache/src/tier/l2.rs\<close>).

  A chunk id is the digest of the chunk's content. The files of the store are lists of id and bytes in
  the order a directory listing returns them; a file's path is a function of its id, so the id stands for
  the path. BLAKE3, the FastCDC splitter, the JSON of a manifest and the cold tier are the fields of
  \<open>cas_externs\<close>; \<open>cx_fails\<close> names the file operations that fail and with what error. Temporary files,
  which no operation lists or reads, and the effect of a crash on a file that was not synced are not part
  of the state: a torn chunk is a file whose bytes do not have the digest of its name, and the theorems
  below hold for stores with such files.
\<close>

subsection \<open>Manifests\<close>

type_synonym bytes = string
type_synonym chunk_id = string
type_synonym 'v files = "(string \<times> 'v) list"

record chunk_ref =
  cr_id :: chunk_id
  cr_len :: nat

record manifest =
  mf_chunks :: "chunk_ref list"
  mf_total_size :: nat

abbreviation U64_MAX :: nat where "U64_MAX \<equiv> 2 ^ 64 - 1"
abbreviation U32_MAX :: nat where "U32_MAX \<equiv> 2 ^ 32 - 1"

definition u64_add :: "nat \<Rightarrow> nat \<Rightarrow> nat" where
  "u64_add a b = min (a + b) U64_MAX"

fun locate_from :: "chunk_ref list \<Rightarrow> nat \<Rightarrow> nat \<Rightarrow> nat \<Rightarrow> (nat \<times> nat) option" where
  "locate_from [] idx start offset = None"
| "locate_from (c # cs) idx start offset =
     (let e = u64_add start (cr_len c)
      in if offset < e then Some (idx, offset - start) else locate_from cs (Suc idx) e offset)"

definition locate :: "manifest \<Rightarrow> nat \<Rightarrow> (nat \<times> nat) option" where
  "locate m offset = (if mf_total_size m \<le> offset then None else locate_from (mf_chunks m) 0 0 offset)"

subsection \<open>Files\<close>

datatype blob_kind = Chunk_Kind | Manifest_Kind

datatype file_op =
    Open_Staged string
  | Write_File blob_kind chunk_id
  | Read_File blob_kind chunk_id
  | Remove_File blob_kind chunk_id
  | Probe_File blob_kind chunk_id
  | List_Files blob_kind
  | Join_Task

record l2_tier =
  l2_get :: "blob_kind \<Rightarrow> chunk_id \<Rightarrow> (string, bytes option) result"
  l2_put_error :: "blob_kind \<Rightarrow> chunk_id \<Rightarrow> string option"

record cas_externs =
  cx_hash :: "bytes \<Rightarrow> chunk_id"
  cx_cdc :: "nat \<times> nat \<times> nat \<Rightarrow> bytes \<Rightarrow> (string, bytes) result list"
  cx_manifest_json :: "manifest \<Rightarrow> bytes"
  cx_manifest_parse :: "bytes \<Rightarrow> (string, manifest) result"
  cx_fails :: "file_op \<Rightarrow> string option"
  cx_l2 :: "l2_tier option"

record cas_store =
  st_chunk_avg_bytes :: nat
  st_max_bytes :: nat
  st_fsync_chunks :: bool

record cas_files =
  cf_blobs :: "bytes files"
  cf_manifests :: "bytes files"
  cf_staging :: "bytes files"
  cf_mirrored :: "(blob_kind \<times> chunk_id) list"

definition new_store :: "nat \<Rightarrow> nat \<Rightarrow> cas_store" where
  "new_store avg cap = \<lparr>st_chunk_avg_bytes = avg, st_max_bytes = cap, st_fsync_chunks = False\<rparr>"

definition with_fsync_chunks :: "bool \<Rightarrow> cas_store \<Rightarrow> cas_store" where
  "with_fsync_chunks b st = st\<lparr>st_fsync_chunks := b\<rparr>"

definition io :: "cas_externs \<Rightarrow> file_op \<Rightarrow> (runner_error, unit) result" where
  "io X op = (case cx_fails X op of Some e \<Rightarrow> Err (Io_Error e) | None \<Rightarrow> Ok ())"

definition remove_key :: "string \<Rightarrow> 'v files \<Rightarrow> 'v files" where
  "remove_key k fs = filter (\<lambda>kv. fst kv \<noteq> k) fs"

text \<open>A file that is there is left alone: the name says what it holds.\<close>

definition write_atomic ::
  "cas_externs \<Rightarrow> blob_kind \<Rightarrow> chunk_id \<Rightarrow> bytes \<Rightarrow> bytes files \<Rightarrow> (runner_error, bool) result \<times> bytes files" where
  "write_atomic X kind i content fs =
     (if map_of fs i \<noteq> None then (Ok False, fs)
      else case io X (Write_File kind i) of Inl e \<Rightarrow> (Err e, fs) | Inr _ \<Rightarrow> (Ok True, fs @ [(i, content)]))"

definition verify_bytes :: "cas_externs \<Rightarrow> bytes \<Rightarrow> chunk_id \<Rightarrow> (runner_error, unit) result" where
  "verify_bytes X content i =
     (if cx_hash X content = i then Ok () else Err (Cache_Error (''chunk digest mismatch: expected '' @ i)))"

definition read_file :: "cas_externs \<Rightarrow> blob_kind \<Rightarrow> chunk_id \<Rightarrow> bytes files \<Rightarrow> (runner_error, bytes option) result" where
  "read_file X kind i fs = rbind (io X (Read_File kind i)) (\<lambda>_. Ok (map_of fs i))"

definition read_verified :: "cas_externs \<Rightarrow> blob_kind \<Rightarrow> chunk_id \<Rightarrow> bytes files \<Rightarrow> (runner_error, bytes) result" where
  "read_verified X kind i fs =
     rbind (read_file X kind i fs) (\<lambda>found. case found of
         None \<Rightarrow> Err (Io_Error ''No such file or directory'')
       | Some content \<Rightarrow> rbind (verify_bytes X content i) (\<lambda>_. Ok content))"

text \<open>Removal: a missing file is no error.\<close>

definition remove_blob :: "cas_externs \<Rightarrow> blob_kind \<Rightarrow> chunk_id \<Rightarrow> bytes files \<Rightarrow> (runner_error, bytes files) result" where
  "remove_blob X kind i fs =
     (if map_of fs i = None then Ok fs else rbind (io X (Remove_File kind i)) (\<lambda>_. Ok (remove_key i fs)))"

subsection \<open>Chunking\<close>

definition cdc_sizes :: "nat \<Rightarrow> nat \<times> nat \<times> nat" where
  "cdc_sizes avg = (let a = max avg 4 in (a div 4, a, min (a * 4) U64_MAX))"

fun store_chunks ::
  "cas_externs \<Rightarrow> (string, bytes) result list \<Rightarrow> chunk_ref list \<Rightarrow> nat \<Rightarrow> bytes files
     \<Rightarrow> (runner_error, manifest) result \<times> bytes files" where
  "store_chunks X [] chunks tot fs = (Ok \<lparr>mf_chunks = chunks, mf_total_size = tot\<rparr>, fs)"
| "store_chunks X (Inl e # rest) chunks tot fs = (Err (Cache_Error (''fastcdc error: '' @ e)), fs)"
| "store_chunks X (Inr data # rest) chunks tot fs =
     (let i = cx_hash X data; len = length data
      in if U32_MAX < len then (Err (Cache_Error ''chunk too large: out of range integral type conversion attempted''), fs)
         else case write_atomic X Chunk_Kind i data fs of
                (Inl e, fs') \<Rightarrow> (Err e, fs')
              | (Inr _, fs') \<Rightarrow> store_chunks X rest (chunks @ [\<lparr>cr_id = i, cr_len = len\<rparr>]) (u64_add tot len) fs')"

definition chunk_and_store ::
  "cas_externs \<Rightarrow> nat \<Rightarrow> string \<Rightarrow> cas_files \<Rightarrow> (runner_error, manifest) result \<times> cas_files" where
  "chunk_and_store X avg staged f =
     (case rbind (io X (Open_Staged staged)) (\<lambda>_. ok_or (Io_Error ''No such file or directory'') (map_of (cf_staging f) staged)) of
        Inl e \<Rightarrow> (Err e, f)
      | Inr content \<Rightarrow>
          (case store_chunks X (cx_cdc X (cdc_sizes avg) content) [] 0 (cf_blobs f) of
             (r, blobs) \<Rightarrow> (r, f\<lparr>cf_blobs := blobs\<rparr>)))"

subsection \<open>The cold tier\<close>

definition put_blob :: "l2_tier \<Rightarrow> blob_kind \<Rightarrow> chunk_id \<Rightarrow> cas_files \<Rightarrow> (runner_error, unit) result \<times> cas_files" where
  "put_blob l2 kind i f =
     (case l2_put_error l2 kind i of
        Some e \<Rightarrow> (Err (Cache_Error (''L2 put '' @ i @ '' failed: '' @ e)), f)
      | None \<Rightarrow> (Ok (), f\<lparr>cf_mirrored := cf_mirrored f @ [(kind, i)]\<rparr>))"

definition get_blob :: "l2_tier \<Rightarrow> blob_kind \<Rightarrow> chunk_id \<Rightarrow> (runner_error, bytes option) result" where
  "get_blob l2 kind i =
     (case l2_get l2 kind i of Inr found \<Rightarrow> Ok found | Inl e \<Rightarrow> Err (Cache_Error (''L2 get '' @ i @ '' failed: '' @ e)))"

text \<open>The mirror stops at its first failure and never fails the ingest.\<close>

fun mirror_chunks :: "cas_externs \<Rightarrow> l2_tier \<Rightarrow> chunk_ref list \<Rightarrow> cas_files \<Rightarrow> cas_files" where
  "mirror_chunks X l2 [] f = f"
| "mirror_chunks X l2 (c # cs) f =
     (case read_file X Chunk_Kind (cr_id c) (cf_blobs f) of
        Inr (Some content) \<Rightarrow>
          (case put_blob l2 Chunk_Kind (cr_id c) f of (Inl e, f') \<Rightarrow> f' | (Inr _, f') \<Rightarrow> mirror_chunks X l2 cs f')
      | _ \<Rightarrow> f)"

definition mirror_chunks_to_l2 :: "cas_externs \<Rightarrow> manifest \<Rightarrow> cas_files \<Rightarrow> cas_files" where
  "mirror_chunks_to_l2 X m f = (case cx_l2 X of None \<Rightarrow> f | Some l2 \<Rightarrow> mirror_chunks X l2 (mf_chunks m) f)"

subsection \<open>Ingest and manifests\<close>

definition ingest :: "cas_externs \<Rightarrow> cas_store \<Rightarrow> string \<Rightarrow> cas_files \<Rightarrow> (runner_error, manifest) result \<times> cas_files" where
  "ingest X st staged f =
     (case cx_fails X Join_Task of
        Some e \<Rightarrow> (Err (Cache_Error (''ingest task join failed: '' @ e)), f)
      | None \<Rightarrow>
          (case chunk_and_store X (st_chunk_avg_bytes st) staged f of
             (Inl e, f') \<Rightarrow> (Err e, f')
           | (Inr m, f') \<Rightarrow> (Ok m, mirror_chunks_to_l2 X m f')))"

definition put_manifest :: "cas_externs \<Rightarrow> manifest \<Rightarrow> cas_files \<Rightarrow> (runner_error, chunk_id) result \<times> cas_files" where
  "put_manifest X m f =
     (let json = cx_manifest_json X m; i = cx_hash X json
      in case cx_fails X Join_Task of
           Some e \<Rightarrow> (Err (Cache_Error (''manifest write join failed: '' @ e)), f)
         | None \<Rightarrow>
             (case write_atomic X Manifest_Kind i json (cf_manifests f) of
                (Inl e, ms) \<Rightarrow> (Err e, f\<lparr>cf_manifests := ms\<rparr>)
              | (Inr _, ms) \<Rightarrow>
                  (let f = f\<lparr>cf_manifests := ms\<rparr>
                   in (Ok i, case cx_l2 X of None \<Rightarrow> f | Some l2 \<Rightarrow> snd (put_blob l2 Manifest_Kind i f)))))"

definition get_manifest :: "cas_externs \<Rightarrow> chunk_id \<Rightarrow> cas_files \<Rightarrow> (runner_error, manifest) result" where
  "get_manifest X i f =
     rbind (read_verified X Manifest_Kind i (cf_manifests f)) (\<lambda>json.
       case cx_manifest_parse X json of Inr m \<Rightarrow> Ok m | Inl e \<Rightarrow> Err (Json_Failure e))"

definition has_chunk :: "cas_externs \<Rightarrow> chunk_id \<Rightarrow> cas_files \<Rightarrow> bool" where
  "has_chunk X i f = (case cx_fails X (Probe_File Chunk_Kind i) of Some _ \<Rightarrow> False | None \<Rightarrow> map_of (cf_blobs f) i \<noteq> None)"

definition list_ids_in :: "cas_externs \<Rightarrow> blob_kind \<Rightarrow> bytes files \<Rightarrow> (runner_error, chunk_id list) result" where
  "list_ids_in X kind fs = rbind (io X (List_Files kind)) (\<lambda>_. Ok (map fst fs))"

definition delete_chunk :: "cas_externs \<Rightarrow> chunk_id \<Rightarrow> cas_files \<Rightarrow> (runner_error, cas_files) result" where
  "delete_chunk X i f = rbind (remove_blob X Chunk_Kind i (cf_blobs f)) (\<lambda>fs. Ok (f\<lparr>cf_blobs := fs\<rparr>))"

definition delete_manifest :: "cas_externs \<Rightarrow> chunk_id \<Rightarrow> cas_files \<Rightarrow> (runner_error, cas_files) result" where
  "delete_manifest X i f = rbind (remove_blob X Manifest_Kind i (cf_manifests f)) (\<lambda>fs. Ok (f\<lparr>cf_manifests := fs\<rparr>))"

subsection \<open>Ranged reads\<close>

type_synonym read_step = "chunk_id \<times> nat \<times> nat"

fun plan_from :: "chunk_ref list \<Rightarrow> nat \<Rightarrow> nat \<Rightarrow> read_step list" where
  "plan_from [] skip remaining = []"
| "plan_from (c # cs) skip remaining =
     (if remaining = 0 then []
      else let n = min (cr_len c - skip) remaining in (cr_id c, skip, n) # plan_from cs 0 (remaining - n))"

definition build_plan :: "manifest \<Rightarrow> nat \<Rightarrow> nat \<Rightarrow> read_step list" where
  "build_plan m offset len =
     (case locate m offset of
        None \<Rightarrow> []
      | Some (start_idx, intra) \<Rightarrow>
          plan_from (drop start_idx (mf_chunks m)) intra (min len (mf_total_size m - offset)))"

definition slice_of :: "bytes \<Rightarrow> nat \<Rightarrow> nat \<Rightarrow> (runner_error, bytes) result" where
  "slice_of content skip n =
     (if u64_add skip n \<le> length content then Ok (take (u64_add skip n - skip) (drop skip content))
      else Err (Cache_Error ''chunk slice out of range''))"

definition restore_from_l2 :: "cas_externs \<Rightarrow> chunk_id \<Rightarrow> bytes files \<Rightarrow> (runner_error, bytes) result \<times> bytes files" where
  "restore_from_l2 X i fs =
     (case cx_l2 X of
        None \<Rightarrow> (Err (Cache_Error (''missing chunk '' @ i)), fs)
      | Some l2 \<Rightarrow>
          (case get_blob l2 Chunk_Kind i of
             Inl e \<Rightarrow> (Err e, fs)
           | Inr None \<Rightarrow> (Err (Cache_Error (''missing chunk '' @ i @ '' (absent from L1 and L2)'')), fs)
           | Inr (Some content) \<Rightarrow>
               (case verify_bytes X content i of
                  Inl e \<Rightarrow> (Err e, fs)
                | Inr _ \<Rightarrow>
                    (case cx_fails X Join_Task of
                       Some e \<Rightarrow> (Err (Cache_Error (''L2 restore write join failed: '' @ e)), fs)
                     | None \<Rightarrow>
                         (case write_atomic X Chunk_Kind i content fs of
                            (Inl e, fs') \<Rightarrow> (Err e, fs') | (Inr _, fs') \<Rightarrow> (Ok content, fs'))))))"

text \<open>A chunk that fails its digest is removed; when the removal fails too, the read goes on.\<close>

definition read_chunk_or_restore :: "cas_externs \<Rightarrow> chunk_id \<Rightarrow> bytes files \<Rightarrow> (runner_error, bytes) result \<times> bytes files" where
  "read_chunk_or_restore X i fs =
     (case read_file X Chunk_Kind i fs of
        Inl e \<Rightarrow> (Err e, fs)
      | Inr None \<Rightarrow> restore_from_l2 X i fs
      | Inr (Some content) \<Rightarrow>
          (case verify_bytes X content i of
             Inr _ \<Rightarrow> (Ok content, fs)
           | Inl _ \<Rightarrow>
               restore_from_l2 X i (case io X (Remove_File Chunk_Kind i) of Inr _ \<Rightarrow> remove_key i fs | Inl _ \<Rightarrow> fs)))"

definition read_slice :: "cas_externs \<Rightarrow> read_step \<Rightarrow> bytes files \<Rightarrow> (runner_error, bytes) result \<times> bytes files" where
  "read_slice X step fs =
     (case step of (i, skip, n) \<Rightarrow>
        (case read_chunk_or_restore X i fs of (r, fs') \<Rightarrow> (rbind r (\<lambda>content. slice_of content skip n), fs')))"

text \<open>
  The stream of a ranged read as a response body consumes it: slice by slice, up to the first error. The
  store may change between two slices: \<open>between\<close> is what the rest of the system does to it before each.
\<close>

fun stream_body ::
  "cas_externs \<Rightarrow> (nat \<Rightarrow> bytes files \<Rightarrow> bytes files) \<Rightarrow> nat \<Rightarrow> read_step list \<Rightarrow> bytes files
     \<Rightarrow> (bytes \<times> runner_error option) \<times> bytes files" where
  "stream_body X between n [] fs = (([], None), fs)"
| "stream_body X between n (step # steps) fs =
     (case read_slice X step (between n fs) of
        (Inl e, fs') \<Rightarrow> (([], Some e), fs')
      | (Inr part, fs') \<Rightarrow>
          (case stream_body X between (Suc n) steps fs' of ((rest, e), fs'') \<Rightarrow> ((part @ rest, e), fs'')))"

definition read_range ::
  "cas_externs \<Rightarrow> (nat \<Rightarrow> bytes files \<Rightarrow> bytes files) \<Rightarrow> manifest \<Rightarrow> nat \<Rightarrow> nat \<Rightarrow> bytes files
     \<Rightarrow> (bytes \<times> runner_error option) \<times> bytes files" where
  "read_range X between m offset len fs = stream_body X between 0 (build_plan m offset len) fs"

subsection \<open>What a ranged read returns\<close>

text \<open>The manifest of an archive that was split into given pieces.\<close>

definition ref_of :: "cas_externs \<Rightarrow> bytes \<Rightarrow> chunk_ref" where
  "ref_of X p = \<lparr>cr_id = cx_hash X p, cr_len = length p\<rparr>"

lemma ref_of_simps [simp]: "cr_id (ref_of X p) = cx_hash X p" "cr_len (ref_of X p) = length p"
  by (simp_all add: ref_of_def)

definition manifest_of :: "cas_externs \<Rightarrow> bytes list \<Rightarrow> manifest" where
  "manifest_of X ps = \<lparr>mf_chunks = map (ref_of X) ps, mf_total_size = length (concat ps)\<rparr>"

text \<open>The digest has no second preimage for a set of pieces.\<close>

definition no_collision :: "cas_externs \<Rightarrow> bytes list \<Rightarrow> bool" where
  "no_collision X ps \<longleftrightarrow> (\<forall>p \<in> set ps. \<forall>b. cx_hash X b = cx_hash X p \<longrightarrow> b = p)"

lemma u64_add_small: "a + b \<le> U64_MAX \<Longrightarrow> u64_add a b = a + b"
  by (simp add: u64_add_def)

lemma store_chunks_step:
  assumes "store_chunks X (Inr data # rest) chunks tot fs = (Ok m, fs')"
  shows "\<exists>b fs1. length data \<le> U32_MAX \<and> write_atomic X Chunk_Kind (cx_hash X data) data fs = (Ok b, fs1)
    \<and> store_chunks X rest (chunks @ [ref_of X data]) (u64_add tot (length data)) fs1 = (Ok m, fs')"
proof -
  have len: "\<not> U32_MAX < length data"
  proof
    assume "U32_MAX < length data"
    with assms show False by (simp add: Let_def)
  qed
  obtain r fs1 where w: "write_atomic X Chunk_Kind (cx_hash X data) data fs = (r, fs1)" by force
  obtain b where "r = Inr b" using assms len w by (cases r) (simp_all add: Let_def)
  with assms len w show ?thesis by (simp add: Let_def ref_of_def)
qed

lemma store_chunks_Err [simp]: "store_chunks X (Inl e # rest) chunks tot fs \<noteq> (Ok m, fs')"
  by simp

lemma store_chunks_manifest:
  assumes "store_chunks X items chunks tot fs = (Ok m, fs')" "tot + length (concat (map projr items)) \<le> U64_MAX"
  shows "list_all is_ok items \<and> m = \<lparr>mf_chunks = chunks @ map (ref_of X \<circ> projr) items, mf_total_size = tot + length (concat (map projr items))\<rparr>
    \<and> (\<forall>p \<in> set (map projr items). length p \<le> U32_MAX)"
  using assms
proof (induction items arbitrary: chunks tot fs)
  case (Cons item items)
  then obtain data where item: "item = Inr data" by (cases item) auto
  from store_chunks_step [OF Cons.prems(1) [unfolded item]] obtain b fs1 where len: "length data \<le> U32_MAX"
    and run: "store_chunks X items (chunks @ [ref_of X data]) (u64_add tot (length data)) fs1 = (Ok m, fs')" by blast
  have tot: "u64_add tot (length data) = tot + length data" using Cons.prems(2) by (simp add: u64_add_small item)
  from Cons.prems(2) have "u64_add tot (length data) + length (concat (map projr items)) \<le> U64_MAX" by (simp add: tot item)
  from Cons.IH [OF run this] len show ?case by (simp add: tot item)
qed simp

lemma locate_from_pieces:
  assumes "start \<le> offset" "offset < start + length (concat ps)" "start + length (concat ps) \<le> U64_MAX"
  shows "\<exists>k intra. locate_from (map (ref_of X) ps) idx start offset = Some (idx + k, intra) \<and> k < length ps \<and> intra < length (ps ! k)
    \<and> drop (offset - start) (concat ps) = drop intra (concat (drop k ps))"
  using assms
proof (induction ps arbitrary: idx start)
  case (Cons p ps)
  have e: "u64_add start (length p) = start + length p" using Cons.prems(3) by (simp add: u64_add_small)
  show ?case
  proof (cases "offset < start + length p")
    case True
    with Cons.prems(1) have "offset - start < length p" by simp
    with True show ?thesis by (intro exI [of _ 0] exI [of _ "offset - start"]) (simp add: e)
  next
    case False
    with Cons.prems obtain k intra where k: "locate_from (map (ref_of X) ps) (Suc idx) (start + length p) offset = Some (Suc idx + k, intra)"
      "k < length ps" "intra < length (ps ! k)" "drop (offset - (start + length p)) (concat ps) = drop intra (concat (drop k ps))"
      using Cons.IH [of "start + length p" "Suc idx"] by (auto simp: add.assoc)
    have "drop (offset - start) (concat (p # ps)) = drop (offset - (start + length p)) (concat ps)" using False by simp
    with k False show ?thesis by (intro exI [of _ "Suc k"] exI [of _ intra]) (simp add: e)
  qed
qed simp

lemma read_chunk_exact:
  assumes "no_collision X (p # ps)" "cx_hash Y = cx_hash X" "read_chunk_or_restore Y (cx_hash X p) fs = (Ok content, fs')"
  shows "content = p"
  using assms
  by (auto simp: read_chunk_or_restore_def restore_from_l2_def verify_bytes_def no_collision_def split: sum.splits option.splits if_splits prod.splits)

lemma stream_plan:
  assumes "no_collision X ps" "cx_hash Y = cx_hash X" "\<forall>p \<in> set ps. length p \<le> U32_MAX"
    and "ps \<noteq> [] \<Longrightarrow> skip \<le> length (hd ps)"
    and "stream_body Y between n (plan_from (map (ref_of X) ps) skip remaining) fs = ((bs, e), fs')"
  shows "prefix bs (take remaining (drop skip (concat ps))) \<and> (e = None \<longrightarrow> bs = take remaining (drop skip (concat ps)))"
  using assms
proof (induction ps arbitrary: skip remaining n fs bs e fs')
  case (Cons p ps)
  show ?case
  proof (cases "remaining = 0")
    case False
    let ?n = "min (length p - skip) remaining"
    have skip: "skip \<le> length p" using Cons.prems(4) by simp
    have len: "skip + ?n \<le> length p" using skip by simp
    have add: "u64_add skip ?n = skip + ?n"
      using len Cons.prems(3) by (intro u64_add_small) (auto intro: order_trans)
    have goal: "take remaining (drop skip (concat (p # ps))) = take ?n (drop skip p) @ take (remaining - ?n) (drop 0 (concat ps))"
      using skip by (auto simp: min_def)
    obtain r fs1 where r: "read_chunk_or_restore Y (cx_hash X p) (between n fs) = (r, fs1)" by force
    show ?thesis
    proof (cases r)
      case (Inl err)
      with Cons.prems(5) False r show ?thesis by (auto simp: read_slice_def Let_def)
    next
      case (Inr content)
      then have content: "content = p" using read_chunk_exact [OF Cons.prems(1,2)] r by blast
      obtain rest e1 fs2 where s: "stream_body Y between (Suc n) (plan_from (map (ref_of X) ps) 0 (remaining - ?n)) fs1 = ((rest, e1), fs2)"
        by (metis prod.exhaust)
      have "bs = take ?n (drop skip p) @ rest" "e = e1"
        using Cons.prems(5) False r Inr content s len by (auto simp: read_slice_def Let_def slice_of_def add)
      moreover have "prefix rest (take (remaining - ?n) (drop 0 (concat ps))) \<and> (e1 = None \<longrightarrow> rest = take (remaining - ?n) (drop 0 (concat ps)))"
        by (rule Cons.IH [OF _ Cons.prems(2) _ _ s]) (use Cons.prems(1,3) in \<open>auto simp: no_collision_def\<close>)
      ultimately show ?thesis unfolding goal by simp
    qed
  qed (use Cons.prems(5) in auto)
qed auto

text \<open>
  C10. A restored archive is never wrong: whatever has happened to the store since the archive was saved
  (chunks torn, replaced, collected, brought back from the cold tier, even between two slices of one
  response), a ranged read sends a prefix of exactly the requested range of the saved bytes, and all of
  it unless it ends with an error.
\<close>

theorem restored_range_is_exact:
  assumes "ingest X st staged f = (Ok m, f')" "map_of (cf_staging f) staged = Some archive"
    and "concat (map projr (cx_cdc X (cdc_sizes (st_chunk_avg_bytes st)) archive)) = archive" "length archive \<le> U64_MAX"
    and "no_collision X (map projr (cx_cdc X (cdc_sizes (st_chunk_avg_bytes st)) archive))" "cx_hash Y = cx_hash X"
    and "read_range Y between m offset len fs = ((bs, e), fs')"
  shows "prefix bs (take len (drop offset archive)) \<and> (e = None \<longrightarrow> bs = take len (drop offset archive)) \<and> mf_total_size m = length archive"
proof -
  let ?items = "cx_cdc X (cdc_sizes (st_chunk_avg_bytes st)) archive"
  let ?ps = "map projr ?items"
  from assms(1,2) obtain fs1 where "store_chunks X ?items [] 0 (cf_blobs f) = (Ok m, fs1)"
    by (auto simp: ingest_def chunk_and_store_def io_def split: option.splits prod.splits sum.splits)
  from store_chunks_manifest [OF this] assms(3,4) have m: "m = manifest_of X ?ps" and len: "\<forall>p \<in> set ?ps. length p \<le> U32_MAX"
    by (auto simp: manifest_of_def comp_def)
  have size: "mf_total_size m = length archive" by (simp add: m manifest_of_def assms(3))
  show ?thesis
  proof (cases "offset < length archive")
    case False
    with assms(7) size show ?thesis by (auto simp: read_range_def build_plan_def locate_def)
  next
    case True
    then obtain k intra where k: "locate_from (map (ref_of X) ?ps) 0 0 offset = Some (k, intra)" "k < length ?ps" "intra < length (?ps ! k)"
      "drop offset archive = drop intra (concat (drop k ?ps))"
      using locate_from_pieces [of 0 offset ?ps X 0] assms(3,4) by auto
    let ?r = "min len (length archive - offset)"
    have plan: "build_plan m offset len = plan_from (map (ref_of X) (drop k ?ps)) intra ?r"
      using True k(1) by (simp add: build_plan_def locate_def size) (simp add: m manifest_of_def drop_map assms(3))
    have "prefix bs (take ?r (drop intra (concat (drop k ?ps)))) \<and> (e = None \<longrightarrow> bs = take ?r (drop intra (concat (drop k ?ps))))"
    proof (rule stream_plan [OF _ assms(6) _ _ assms(7) [unfolded read_range_def plan]])
      show "no_collision X (drop k ?ps)" using assms(5) unfolding no_collision_def by (meson in_set_dropD)
      show "\<forall>p \<in> set (drop k ?ps). length p \<le> U32_MAX" using len by (meson in_set_dropD)
      show "intra \<le> length (hd (drop k ?ps))" using k(2,3) by (simp add: hd_drop_conv_nth)
    qed
    moreover have "take ?r (drop offset archive) = take len (drop offset archive)" by (simp add: min_def)
    ultimately show ?thesis using size by (simp add: k(4) [symmetric])
  qed
qed


text \<open>A store in memory whose digest is the content itself and whose archives are split after three bytes.\<close>

definition plain_cas :: cas_externs where
  "plain_cas = \<lparr>cx_hash = (\<lambda>b. b), cx_cdc = (\<lambda>_ b. [Inr (take 3 b), Inr (drop 3 b)]),
     cx_manifest_json = (\<lambda>m. concat (map cr_id (mf_chunks m))), cx_manifest_parse = (\<lambda>_. Inl ''unused''), cx_fails = (\<lambda>_. None), cx_l2 = None\<rparr>"

definition plain_files :: cas_files where
  "plain_files = \<lparr>cf_blobs = [], cf_manifests = [], cf_staging = [(''s'', ''abcdefg'')], cf_mirrored = []\<rparr>"

theorem restored_range_is_exact_witness:
  "\<exists>m f bs. ingest plain_cas (new_store 4 9) ''s'' plain_files = (Ok m, f)
     \<and> read_range plain_cas (\<lambda>_ fs. fs) m 2 3 (cf_blobs f) = ((bs, None), cf_blobs f) \<and> bs = ''cde''"
proof -
  let ?m = "manifest_of plain_cas [''abc'', ''defg'']" and ?f = "plain_files\<lparr>cf_blobs := [(''abc'', ''abc''), (''defg'', ''defg'')]\<rparr>"
  have run: "ingest plain_cas (new_store 4 9) ''s'' plain_files = (Ok ?m, ?f)"
    by (simp add: ingest_def chunk_and_store_def io_def plain_cas_def plain_files_def new_store_def cdc_sizes_def write_atomic_def
        mirror_chunks_to_l2_def manifest_of_def ref_of_def u64_add_def Let_def)
  have range: "read_range plain_cas (\<lambda>_ fs. fs) ?m 2 3 (cf_blobs ?f) = ((''cde'', None), cf_blobs ?f)"
    by (simp add: read_range_def build_plan_def locate_def manifest_of_def ref_of_def u64_add_def Let_def plain_files_def read_slice_def
        read_chunk_or_restore_def read_file_def io_def verify_bytes_def slice_of_def plain_cas_def)
  have "''cde'' = take 3 (drop 2 ''abcdefg'')"
    using restored_range_is_exact [OF run, of "''abcdefg''" plain_cas "\<lambda>_ fs. fs" 2 3 "cf_blobs ?f" "''cde''" None "cf_blobs ?f"] range
    by (simp add: plain_files_def plain_cas_def no_collision_def)
  with run range show ?thesis by blast
qed

end
