(* ===== verification/Cache_Index.thy ===== *)
theory Cache_Index
  imports Cache_Store
begin

text \<open>
  The index of the cache service (\<open>crates/cache/src/cas/index.rs\<close>): one append-only log of JSON lines per
  scope and version, which maps client keys to manifests. The logs are a list of files named by scope
  and version (the encoded path segments are an injective function of them), in the order a listing of
  the directories returns them. The JSON of an entry, and the operations that fail, are the fields of
  \<open>index_externs\<close>; an append that fails leaves as many bytes of its line as \<open>ix_written\<close> says.

  The interface \<open>entry_index\<close> is what the rest of the service relies on: what a reader finds after an
  append and after a rewrite. The logs implement it.
\<close>

subsection \<open>Entries\<close>

record index_entry =
  ie_key :: string
  ie_manifest :: chunk_id
  ie_size_bytes :: nat
  ie_created_at :: int

record index_record =
  ir_scope :: string
  ir_version :: string
  ir_entry :: index_entry

datatype index_op = Append_Log string string | Read_Log string string | Replace_Log string string | List_Logs

record index_externs =
  ix_json :: "index_entry \<Rightarrow> string"
  ix_parse :: "string \<Rightarrow> (string, index_entry) result"
  ix_fails :: "index_op \<Rightarrow> string option"
  ix_written :: "index_entry \<Rightarrow> nat"

type_synonym logs = "((string \<times> string) \<times> bytes) list"

text \<open>\<open>Iterator::max_by_key\<close>: the last of the entries with the greatest time.\<close>

definition newest :: "index_entry list \<Rightarrow> index_entry option" where
  "newest es = fold (\<lambda>e best. case best of None \<Rightarrow> Some e
     | Some b \<Rightarrow> if ie_created_at b \<le> ie_created_at e then Some e else Some b) es None"

text \<open>The complete lines of a log: what comes after the last line feed was torn by a crash.\<close>

definition complete_part :: "bytes \<Rightarrow> bytes" where
  "complete_part content = rev (dropWhile (\<lambda>c. c \<noteq> CHR 0x0A) (rev content))"

definition parse_lines :: "index_externs \<Rightarrow> bytes \<Rightarrow> index_entry list" where
  "parse_lines X content =
     List.map_filter (\<lambda>line. if line = [] then None else case ix_parse X line of Inr e \<Rightarrow> Some e | Inl _ \<Rightarrow> None)
       (str_lines (from_utf8_lossy (complete_part content)))"

definition read_entries :: "index_externs \<Rightarrow> string \<Rightarrow> string \<Rightarrow> logs \<Rightarrow> (runner_error, index_entry list) result" where
  "read_entries X scope version logs =
     (case map_of logs (scope, version) of
        None \<Rightarrow> Ok []
      | Some content \<Rightarrow>
          (case ix_fails X (Read_Log scope version) of
             Some e \<Rightarrow> Err (Io_Error e)
           | None \<Rightarrow> Ok (if CHR 0x0A \<in> set content then parse_lines X content else [])))"

definition index_insert_entry ::
  "index_externs \<Rightarrow> string \<Rightarrow> string \<Rightarrow> index_entry \<Rightarrow> logs \<Rightarrow> (runner_error, unit) result \<times> logs" where
  "index_insert_entry X scope version e logs =
     (let line = ix_json X e @ [CHR 0x0A];
          old = (case map_of logs (scope, version) of Some c \<Rightarrow> c | None \<Rightarrow> [])
      in case ix_fails X (Append_Log scope version) of
           Some err \<Rightarrow> (Err (Io_Error err),
             if ix_written X e = 0 then logs else index_insert (scope, version) (old @ take (ix_written X e) line) logs)
         | None \<Rightarrow> (Ok (), index_insert (scope, version) (old @ line) logs))"

subsection \<open>Lookup\<close>

fun read_ladder_entries ::
  "index_externs \<Rightarrow> string list \<Rightarrow> string \<Rightarrow> logs \<Rightarrow> (runner_error, index_entry list list) result" where
  "read_ladder_entries X [] version logs = Ok []"
| "read_ladder_entries X (scope # ladder) version logs =
     rbind (read_entries X scope version logs) (\<lambda>es.
       rbind (read_ladder_entries X ladder version logs) (\<lambda>rest. Ok (es # rest)))"

fun first_hit :: "(index_entry \<Rightarrow> bool) \<Rightarrow> index_entry list list \<Rightarrow> index_entry option" where
  "first_hit P [] = None"
| "first_hit P (es # rest) = (case newest (filter P es) of Some e \<Rightarrow> Some e | None \<Rightarrow> first_hit P rest)"

fun first_restore :: "string list \<Rightarrow> index_entry list list \<Rightarrow> index_entry option" where
  "first_restore [] per_scope = None"
| "first_restore (k # ks) per_scope =
     (if k = [] then first_restore ks per_scope
      else case first_hit (\<lambda>e. starts_with (ie_key e) k) per_scope of
             Some e \<Rightarrow> Some e | None \<Rightarrow> first_restore ks per_scope)"

definition index_lookup ::
  "index_externs \<Rightarrow> string list \<Rightarrow> string \<Rightarrow> string \<Rightarrow> string list \<Rightarrow> logs
     \<Rightarrow> (runner_error, (string \<times> index_entry) option) result" where
  "index_lookup X ladder version key restore_keys logs =
     rbind (read_ladder_entries X ladder version logs) (\<lambda>per_scope.
       Ok (map_option (\<lambda>e. (ie_key e, e))
         (case first_hit (\<lambda>e. ie_key e = key) per_scope of
            Some e \<Rightarrow> Some e | None \<Rightarrow> first_restore restore_keys per_scope)))"

subsection \<open>Enumeration and rewriting\<close>

fun collect_records :: "index_externs \<Rightarrow> (string \<times> string) list \<Rightarrow> logs \<Rightarrow> (runner_error, index_record list) result" where
  "collect_records X [] logs = Ok []"
| "collect_records X ((scope, version) # ks) logs =
     rbind (read_entries X scope version logs) (\<lambda>es.
       rbind (collect_records X ks logs) (\<lambda>rest.
         Ok (map (\<lambda>e. \<lparr>ir_scope = scope, ir_version = version, ir_entry = e\<rparr>) es @ rest)))"

definition index_records :: "index_externs \<Rightarrow> logs \<Rightarrow> (runner_error, index_record list) result" where
  "index_records X logs =
     (case ix_fails X List_Logs of Some e \<Rightarrow> Err (Io_Error e) | None \<Rightarrow> collect_records X (map fst logs) logs)"

definition log_text :: "index_externs \<Rightarrow> index_entry list \<Rightarrow> bytes" where
  "log_text X es = concat (map (\<lambda>e. ix_json X e @ [CHR 0x0A]) es)"

definition index_rewrite ::
  "index_externs \<Rightarrow> string \<Rightarrow> string \<Rightarrow> index_entry list \<Rightarrow> logs \<Rightarrow> (runner_error, unit) result \<times> logs" where
  "index_rewrite X scope version es logs =
     (if es = [] \<and> map_of logs (scope, version) = None then (Ok (), logs)
      else case ix_fails X (Replace_Log scope version) of
             Some e \<Rightarrow> (Err (Io_Error e), logs)
           | None \<Rightarrow>
               (Ok (), if es = [] then filter (\<lambda>kv. fst kv \<noteq> (scope, version)) logs
                       else index_insert (scope, version) (log_text X es) logs))"

text \<open>The low 53 bits of the first eight bytes of the digest.\<close>

definition entry_id_for :: "chunk_id \<Rightarrow> nat" where
  "entry_id_for i = (if 8 \<le> length i then fold (\<lambda>c n. n * 256 + ord c) (take 8 i) 0 mod 2 ^ 53 else 0)"

subsection \<open>The logs hold what was written\<close>

text \<open>What the logs rely on of the JSON of an entry: it reads back, on one line.\<close>

definition json_lines :: "index_externs \<Rightarrow> bool" where
  "json_lines X \<longleftrightarrow> (\<forall>e. ix_parse X (ix_json X e) = Ok e \<and> ix_json X e \<noteq> [] \<and> valid_utf8 (ix_json X e)
     \<and> CHR 0x0A \<notin> set (ix_json X e) \<and> last (ix_json X e) \<noteq> CHR 0x0D)"

lemma complete_part_lines:
  "CHR 0x0A \<notin> set tail \<Longrightarrow> complete_part (log_text X es @ tail) = log_text X es"
proof -
  assume tail: "CHR 0x0A \<notin> set tail"
  have log: "dropWhile (\<lambda>c. c \<noteq> CHR 0x0A) (rev (log_text X es)) = rev (log_text X es)"
    by (cases es rule: rev_cases) (simp_all add: log_text_def)
  have "dropWhile (\<lambda>c. c \<noteq> CHR 0x0A) (rev tail @ rev (log_text X es)) = dropWhile (\<lambda>c. c \<noteq> CHR 0x0A) (rev (log_text X es))"
    using tail by (intro dropWhile_append2) auto
  then show ?thesis by (simp add: complete_part_def log)
qed

lemma log_text_valid: "json_lines X \<Longrightarrow> valid_utf8 (log_text X es)"
proof (induction es)
  case (Cons e es)
  have "valid_utf8 (ix_json X e @ [CHR 0x0A])"
    using Cons.prems by (simp add: json_lines_def valid_utf8_append valid_utf8_ascii)
  with Cons show ?case by (simp add: log_text_def valid_utf8_append del: append_assoc)
qed (simp add: log_text_def)

lemma split_log_text:
  assumes "json_lines X"
  shows "split_char (CHR 0x0A) (log_text X es) = map (ix_json X) es @ [[]]"
proof (induction es)
  case (Cons e es)
  have "split_char c (a @ c # b) = a # split_char c b" if "c \<notin> set a" for c a b using that by (induction a) auto
  with Cons assms show ?case by (simp add: log_text_def json_lines_def)
qed (simp add: log_text_def)

lemma str_lines_log_text:
  assumes "json_lines X"
  shows "str_lines (log_text X es) = map (ix_json X) es"
  using assms by (simp add: str_lines_def split_log_text Let_def) (simp add: json_lines_def)

lemma parse_lines_log_text:
  assumes "json_lines X" "CHR 0x0A \<notin> set tail"
  shows "parse_lines X (log_text X es @ tail) = es"
proof -
  have "from_utf8_lossy (log_text X es) = log_text X es"
    using log_text_valid [OF assms(1), of es]
    by (simp add: from_utf8_lossy_def valid_utf8_def utf8_decode_def utf8_lossy_valid comp_def)
  moreover have "List.map_filter (\<lambda>line. if line = [] then None else case ix_parse X line of Inr e \<Rightarrow> Some e | Inl _ \<Rightarrow> None)
      (map (ix_json X) es) = es"
    using assms(1) by (induction es) (simp_all add: json_lines_def List.map_filter_simps)
  ultimately show ?thesis
    by (simp add: parse_lines_def complete_part_lines [OF assms(2)] str_lines_log_text [OF assms(1)])
qed

subsection \<open>The interface of the index\<close>

text \<open>
  An index for its clients: what is recorded for a scope and a version, in the order it was recorded.
\<close>

locale entry_index =
  fixes entries :: "'ix \<Rightarrow> string \<times> string \<Rightarrow> index_entry list"
    and add :: "string \<times> string \<Rightarrow> index_entry \<Rightarrow> 'ix \<Rightarrow> 'ix"
    and replace :: "string \<times> string \<Rightarrow> index_entry list \<Rightarrow> 'ix \<Rightarrow> 'ix"
    and well :: "'ix \<Rightarrow> bool"
  assumes well_add: "well ix \<Longrightarrow> well (add k e ix)"
    and well_replace: "well ix \<Longrightarrow> well (replace k es ix)"
    and entries_add: "well ix \<Longrightarrow> entries (add k e ix) = (entries ix)(k := entries ix k @ [e])"
    and entries_replace: "well ix \<Longrightarrow> entries (replace k es ix) = (entries ix)(k := es)"
begin

lemma well_fold_replace: "well ix \<Longrightarrow> well (fold (\<lambda>k. replace k (f k)) ks ix)"
  by (induction ks arbitrary: ix) (simp_all add: well_replace)

text \<open>Rewriting a list of keys leaves the new entries under these keys and the others alone.\<close>

lemma entries_fold_replace:
  "well ix \<Longrightarrow> entries (fold (\<lambda>k. replace k (f k)) ks ix) = (\<lambda>k. if k \<in> set ks then f k else entries ix k)"
  by (induction ks arbitrary: ix) (auto simp: well_replace entries_replace fun_eq_iff)

end

text \<open>What a reader finds in the logs, and logs every line of which is complete.\<close>

definition log_entries :: "index_externs \<Rightarrow> logs \<Rightarrow> string \<times> string \<Rightarrow> index_entry list" where
  "log_entries X logs k =
     (case map_of logs k of None \<Rightarrow> [] | Some c \<Rightarrow> if CHR 0x0A \<in> set c then parse_lines X c else [])"

definition log_add :: "index_externs \<Rightarrow> string \<times> string \<Rightarrow> index_entry \<Rightarrow> logs \<Rightarrow> logs" where
  "log_add X k e logs = snd (index_insert_entry (X\<lparr>ix_fails := \<lambda>_. None\<rparr>) (fst k) (snd k) e logs)"

definition log_replace :: "index_externs \<Rightarrow> string \<times> string \<Rightarrow> index_entry list \<Rightarrow> logs \<Rightarrow> logs" where
  "log_replace X k es logs = snd (index_rewrite (X\<lparr>ix_fails := \<lambda>_. None\<rparr>) (fst k) (snd k) es logs)"

definition whole_logs :: "index_externs \<Rightarrow> logs \<Rightarrow> bool" where
  "whole_logs X logs \<longleftrightarrow> json_lines X \<and> (\<forall>k c. map_of logs k = Some c \<longrightarrow> (\<exists>es. c = log_text X es))"

lemma read_entries_log: "ix_fails X (Read_Log s v) = None \<Longrightarrow> read_entries X s v logs = Ok (log_entries X logs (s, v))"
  by (simp add: read_entries_def log_entries_def split: option.splits)

lemma parse_lines_fails [simp]: "parse_lines (X\<lparr>ix_fails := f\<rparr>) = parse_lines X" "log_text (X\<lparr>ix_fails := f\<rparr>) = log_text X"
  by (simp_all add: fun_eq_iff parse_lines_def log_text_def cong: if_cong)

lemma log_entries_text:
  assumes "json_lines X" "map_of logs k = Some (log_text X es @ tail)" "CHR 0x0A \<notin> set tail"
  shows "log_entries X logs k = es"
  using assms by (cases es) (auto simp: log_entries_def parse_lines_log_text log_text_def [of X "[]"], simp add: log_text_def)

lemma log_text_append: "log_text X (es @ fs) = log_text X es @ log_text X fs"
  by (simp add: log_text_def)

lemma log_add_text: "log_add X k e logs = index_insert k ((case map_of logs k of Some c \<Rightarrow> c | None \<Rightarrow> []) @ log_text X [e]) logs"
  by (simp add: log_add_def index_insert_entry_def Let_def log_text_def)

lemma log_replace_map:
  "map_of (log_replace X k es logs) = (map_of logs)(k := (if es = [] then None else Some (log_text X es)))"
proof -
  have "map_of (filter (\<lambda>kv. fst kv \<noteq> k) logs) = (map_of logs)(k := None)" by (induction logs) (auto simp: fun_eq_iff)
  then show ?thesis by (auto simp: log_replace_def index_rewrite_def fun_eq_iff)
qed

lemma log_text_of: "whole_logs X logs \<Longrightarrow> (case map_of logs k of Some c \<Rightarrow> c | None \<Rightarrow> []) = log_text X (log_entries X logs k)"
proof (cases "map_of logs k")
  case (Some c)
  assume "whole_logs X logs"
  with Some obtain es where "c = log_text X es" "json_lines X" unfolding whole_logs_def by blast
  with Some show ?thesis using log_entries_text [of X logs k es "[]"] by simp
qed (simp add: log_entries_def log_text_def)

interpretation log_index: entry_index "log_entries X" "log_add X" "log_replace X" "whole_logs X" for X
proof unfold_locales
  fix logs k e es
  assume well: "whole_logs X logs"
  then have json: "json_lines X" by (simp add: whole_logs_def)
  have added: "map_of (log_add X k e logs) k = Some (log_text X (log_entries X logs k @ [e]))"
    by (simp add: log_add_text log_text_of [OF well] log_text_append)
  show "whole_logs X (log_add X k e logs)"
    using well added unfolding whole_logs_def by (auto simp: log_add_text split: if_splits)
  show "log_entries X (log_add X k e logs) = (log_entries X logs)(k := log_entries X logs k @ [e])"
  proof
    fix k'
    show "log_entries X (log_add X k e logs) k' = ((log_entries X logs)(k := log_entries X logs k @ [e])) k'"
      using log_entries_text [OF json, of "log_add X k e logs" k _ "[]"] added
      by (cases "k' = k") (simp_all add: log_entries_def log_add_text)
  qed
  show "whole_logs X (log_replace X k es logs)"
    using well unfolding whole_logs_def by (auto simp: log_replace_map split: if_splits)
  show "log_entries X (log_replace X k es logs) = (log_entries X logs)(k := es)"
  proof
    fix k'
    show "log_entries X (log_replace X k es logs) k' = ((log_entries X logs)(k := es)) k'"
      using log_entries_text [OF json, of "log_replace X k es logs" k es "[]"]
      by (cases "k' = k"; cases "es = []") (simp_all add: log_entries_def log_replace_map)
  qed
qed

text \<open>The lookup in terms of what is recorded: nearest scope first, the exact key before the restore keys.\<close>

definition spec_lookup ::
  "(string \<times> string \<Rightarrow> index_entry list) \<Rightarrow> string list \<Rightarrow> string \<Rightarrow> string \<Rightarrow> string list \<Rightarrow> index_entry option" where
  "spec_lookup recorded ladder version key restore_keys =
     (let per_scope = map (\<lambda>s. recorded (s, version)) ladder
      in case first_hit (\<lambda>e. ie_key e = key) per_scope of
           Some e \<Rightarrow> Some e | None \<Rightarrow> first_restore restore_keys per_scope)"

lemma read_ladder_log:
  "\<forall>s v. ix_fails X (Read_Log s v) = None \<Longrightarrow> read_ladder_entries X ladder version logs = Ok (map (\<lambda>s. log_entries X logs (s, version)) ladder)"
  by (induction ladder) (simp_all add: read_entries_log)

lemma index_lookup_spec:
  assumes "\<forall>s v. ix_fails X (Read_Log s v) = None"
  shows "index_lookup X ladder version key restore_keys logs =
    Ok (map_option (\<lambda>e. (ie_key e, e)) (spec_lookup (log_entries X logs) ladder version key restore_keys))"
  by (simp add: index_lookup_def read_ladder_log [OF assms] spec_lookup_def Let_def)

lemma no_failures: "\<forall>op. ix_fails X op = None \<Longrightarrow> X\<lparr>ix_fails := \<lambda>_. None\<rparr> = X"
  by (cases X) auto


text \<open>An encoding of entries on one line: two letters per byte of a string, decimal numbers.\<close>

fun letters :: "string \<Rightarrow> string" where
  "letters [] = []"
| "letters (c # s) = char_of (65 + ord c div 16) # char_of (65 + ord c mod 16) # letters s"

fun unletters :: "string \<Rightarrow> string" where
  "unletters (a # b # s) = char_of ((ord a - 65) * 16 + (ord b - 65)) # unletters s"
| "unletters _ = []"

definition plain_json :: "index_entry \<Rightarrow> string" where
  "plain_json e = letters (ie_key e) @ '';'' @ letters (ie_manifest e) @ '';'' @ show_nat (ie_size_bytes e) @ '';''
     @ show_nat (nat (ie_created_at e)) @ '';'' @ show_nat (nat (- ie_created_at e))"

definition plain_parse :: "string \<Rightarrow> (string, index_entry) result" where
  "plain_parse s = (case split_char (CHR '';'') s of
       [k, m, n, a, b] \<Rightarrow> Ok \<lparr>ie_key = unletters k, ie_manifest = unletters m, ie_size_bytes = digits_val 0 n,
         ie_created_at = int (digits_val 0 a) - int (digits_val 0 b)\<rparr>
     | _ \<Rightarrow> Err ''entry'')"

definition plain_index :: index_externs where
  "plain_index = \<lparr>ix_json = plain_json, ix_parse = plain_parse, ix_fails = (\<lambda>_. None), ix_written = (\<lambda>_. 0)\<rparr>"

lemma unletters_letters: "unletters (letters s) = s"
proof (induction s)
  case (Cons c s)
  have "ord c div 16 < 16" by (simp add: less_mult_imp_div_less)
  then have "(65 + ord c div 16) mod 256 = 65 + ord c div 16" by simp
  with Cons show ?case by (simp add: of_char_of)
qed simp

lemma letters_range: "c \<in> set (letters s) \<Longrightarrow> 65 \<le> ord c \<and> ord c < 81"
proof (induction s)
  case (Cons x s)
  have "ord x div 16 < 16" "ord x mod 16 < 16" by (simp_all add: less_mult_imp_div_less)
  with Cons show ?case by (auto simp: of_char_of)
qed simp

lemma plain_json_chars: "c \<in> set (plain_json e) \<Longrightarrow> 48 \<le> ord c \<and> ord c < 81"
  using letters_range show_nat_digits by (fastforce simp: plain_json_def is_ascii_digit_def)

lemma plain_index_json: "json_lines plain_index"
proof -
  have cut: "split_char c (a @ c # b) = a # split_char c b" if "c \<notin> set a" for c a b using that by (induction a) auto
  have single: "split_char c a = [a]" if "c \<notin> set a" for c a using that by (induction a) auto
  have free: "CHR '';'' \<notin> set (letters s)" "CHR '';'' \<notin> set (show_nat n)" for s n
    using letters_range [of "CHR '';''" s] show_nat_digits [of n] by (auto simp: is_ascii_digit_def)
  have "plain_parse (plain_json e) = Ok e" for e
    by (simp add: plain_parse_def plain_json_def cut single free unletters_letters)
  moreover have nonempty: "plain_json e \<noteq> []" for e by (simp add: plain_json_def)
  moreover have "valid_utf8 (plain_json e)" for e
    using plain_json_chars [of _ e] by (intro valid_utf8_ascii) fastforce
  moreover have "CHR 0x0A \<notin> set (plain_json e)" for e using plain_json_chars [of "CHR 0x0A" e] by auto
  moreover have "last (plain_json e) \<noteq> CHR 0x0D" for e
  proof
    assume "last (plain_json e) = CHR 0x0D"
    then have "CHR 0x0D \<in> set (plain_json e)" using nonempty last_in_set by metis
    then show False using plain_json_chars [of "CHR 0x0D" e] by simp
  qed
  ultimately show ?thesis by (simp add: json_lines_def plain_index_def)
qed

definition plain_entry :: "string \<Rightarrow> int \<Rightarrow> index_entry" where
  "plain_entry k t = \<lparr>ie_key = k, ie_manifest = ''m'', ie_size_bytes = 7, ie_created_at = t\<rparr>"


text \<open>
  An entry appended after a torn line is lost with it: its line starts in the middle of the torn one, and
  the reader skips the whole as unparseable, although the insert reported success.
\<close>

theorem entry_after_torn_line_is_lost:
  "let torn = [((''main'', ''v''), take 3 (ix_json plain_index (plain_entry ''kk'' 1)))];
       (r, logs) = index_insert_entry plain_index ''main'' ''v'' (plain_entry ''k'' 2) torn
   in r = Ok () \<and> index_lookup plain_index [''main''] ''v'' ''k'' [] logs = Ok None"
  by code_simp

end
