(* ===== verification/Cache_Gc.thy ===== *)
theory Cache_Gc
  imports Cache_Index "HOL-Library.Multiset"
begin

text \<open>
  Garbage collection of the cache (\<open>crates/cache/src/cas/gc.rs\<close>): read leases, the retention plan of the
  index (expiry, then eviction of the oldest entries over the size cap), the rewrite of the logs and the
  sweep of manifests and chunks. The maps and sets the source iterates over in hash order are lists here,
  in the order of first occurrence.
\<close>

subsection \<open>Leases\<close>

type_synonym leases = "chunk_id \<rightharpoonup> nat"

definition lease_one :: "chunk_id \<Rightarrow> leases \<Rightarrow> leases" where
  "lease_one i l = l(i \<mapsto> (case l i of Some n \<Rightarrow> n | None \<Rightarrow> 0) + 1)"

definition acquire :: "chunk_id list \<Rightarrow> leases \<Rightarrow> leases" where
  "acquire ids l = fold lease_one ids l"

definition is_leased :: "leases \<Rightarrow> chunk_id \<Rightarrow> bool" where
  "is_leased l i = (case l i of Some n \<Rightarrow> 0 < n | None \<Rightarrow> False)"

definition release_one :: "chunk_id \<Rightarrow> leases \<Rightarrow> leases" where
  "release_one i l = (case l i of None \<Rightarrow> l | Some n \<Rightarrow> if n - 1 = 0 then l(i := None) else l(i \<mapsto> n - 1))"

text \<open>Dropping the guard.\<close>

definition release :: "chunk_id list \<Rightarrow> leases \<Rightarrow> leases" where
  "release ids l = fold release_one ids l"

subsection \<open>Retention\<close>

record gc_report =
  gr_entries_expired :: nat
  gr_entries_evicted :: nat
  gr_chunks_deleted :: nat
  gr_manifests_deleted :: nat

record cache_gc =
  gc_ttl_days :: nat
  gc_max_bytes :: nat

record retention =
  rt_groups :: "((string \<times> string) \<times> index_entry list) list"
  rt_expired :: nat
  rt_evicted :: nat

definition group_insert :: "index_record \<Rightarrow> ((string \<times> string) \<times> index_entry list) list \<Rightarrow> ((string \<times> string) \<times> index_entry list) list" where
  "group_insert r g =
     (let k = (ir_scope r, ir_version r)
      in index_insert k ((case map_of g k of Some es \<Rightarrow> es | None \<Rightarrow> []) @ [ir_entry r]) g)"

fun count_over :: "nat \<Rightarrow> nat \<Rightarrow> index_record list \<Rightarrow> nat" where
  "count_over cap live_size [] = 0"
| "count_over cap live_size (r # rs) = (if cap < live_size then Suc (count_over cap (live_size - ie_size_bytes (ir_entry r)) rs) else 0)"

definition evict_over_cap :: "index_record list \<Rightarrow> nat \<Rightarrow> index_record list \<times> nat" where
  "evict_over_cap alive cap =
     (let live_size = fold (\<lambda>r n. u64_add n (ie_size_bytes (ir_entry r))) alive 0
      in if live_size \<le> cap then (alive, 0)
         else let alive = sort_key (\<lambda>r. ie_created_at (ir_entry r)) alive;
                  cut = count_over cap live_size alive
              in (drop cut alive, cut))"

definition plan_retention :: "index_record list \<Rightarrow> int \<Rightarrow> nat \<Rightarrow> retention" where
  "plan_retention records cutoff cap =
     (let expired = length (filter (\<lambda>r. ie_created_at (ir_entry r) < cutoff) records);
          alive = filter (\<lambda>r. \<not> ie_created_at (ir_entry r) < cutoff) records;
          (alive, evicted) = evict_over_cap alive cap
      in \<lparr>rt_groups = fold group_insert alive [], rt_expired = expired, rt_evicted = evicted\<rparr>)"

definition group_of :: "retention \<Rightarrow> string \<times> string \<Rightarrow> index_entry list" where
  "group_of rt k = (case map_of (rt_groups rt) k of Some es \<Rightarrow> es | None \<Rightarrow> [])"

fun rewrite_keys ::
  "index_externs \<Rightarrow> (string \<times> string) list \<Rightarrow> retention \<Rightarrow> logs \<Rightarrow> (runner_error, unit) result \<times> logs" where
  "rewrite_keys X [] rt logs = (Ok (), logs)"
| "rewrite_keys X ((scope, version) # ks) rt logs =
     (case index_rewrite X scope version (group_of rt (scope, version)) logs of
        (Inl e, logs') \<Rightarrow> (Err e, logs')
      | (Inr _, logs') \<Rightarrow> rewrite_keys X ks rt logs')"

definition rewrite_groups ::
  "index_externs \<Rightarrow> index_record list \<Rightarrow> retention \<Rightarrow> logs \<Rightarrow> (runner_error, unit) result \<times> logs" where
  "rewrite_groups X records rt logs = rewrite_keys X (remdups (map (\<lambda>r. (ir_scope r, ir_version r)) records)) rt logs"

subsection \<open>Sweep\<close>

fun live_chunks :: "cas_externs \<Rightarrow> chunk_id list \<Rightarrow> cas_files \<Rightarrow> (runner_error, chunk_id list) result" where
  "live_chunks X [] f = Ok []"
| "live_chunks X (mid # mids) f =
     rbind (get_manifest X mid f) (\<lambda>m. rbind (live_chunks X mids f) (\<lambda>rest. Ok (map cr_id (mf_chunks m) @ rest)))"

fun sweep_with ::
  "(chunk_id \<Rightarrow> cas_files \<Rightarrow> (runner_error, cas_files) result) \<Rightarrow> (chunk_id \<Rightarrow> bool) \<Rightarrow> chunk_id list \<Rightarrow> nat \<Rightarrow> cas_files
     \<Rightarrow> (runner_error, nat) result \<times> cas_files" where
  "sweep_with delete keep [] n f = (Ok n, f)"
| "sweep_with delete keep (i # ids) n f =
     (if keep i then sweep_with delete keep ids n f
      else case delete i f of Inl e \<Rightarrow> (Err e, f) | Inr f' \<Rightarrow> sweep_with delete keep ids (Suc n) f')"

definition sweep ::
  "cas_externs \<Rightarrow> chunk_id list \<Rightarrow> leases \<Rightarrow> cas_files \<Rightarrow> (runner_error, nat \<times> nat) result \<times> cas_files" where
  "sweep X live_manifests l f =
     (case live_chunks X live_manifests f of
        Inl e \<Rightarrow> (Err e, f)
      | Inr chunks \<Rightarrow>
          (case list_ids_in X Manifest_Kind (cf_manifests f) of
             Inl e \<Rightarrow> (Err e, f)
           | Inr mids \<Rightarrow>
               (case sweep_with (delete_manifest X) (\<lambda>i. i \<in> set live_manifests) mids 0 f of
                  (Inl e, f) \<Rightarrow> (Err e, f)
                | (Inr manifests_deleted, f) \<Rightarrow>
                    (case list_ids_in X Chunk_Kind (cf_blobs f) of
                       Inl e \<Rightarrow> (Err e, f)
                     | Inr cids \<Rightarrow>
                         (case sweep_with (delete_chunk X) (\<lambda>i. i \<in> set chunks \<or> is_leased l i) cids 0 f of
                            (Inl e, f) \<Rightarrow> (Err e, f)
                          | (Inr chunks_deleted, f) \<Rightarrow> (Ok (chunks_deleted, manifests_deleted), f))))))"

subsection \<open>One pass\<close>

text \<open>
  \<open>days_before\<close> is the subtraction of a number of days from a time in the \<open>chrono\<close> library, \<open>None\<close> where it
  panics; the pass then has no result.
\<close>

definition gc_run ::
  "cas_externs \<Rightarrow> index_externs \<Rightarrow> (int \<Rightarrow> nat \<Rightarrow> int option) \<Rightarrow> cache_gc \<Rightarrow> int \<Rightarrow> leases \<Rightarrow> cas_files \<times> logs
     \<Rightarrow> ((runner_error, gc_report) result \<times> cas_files \<times> logs) option" where
  "gc_run X Y days_before gc now l fl =
     (case fl of (f, logs) \<Rightarrow>
        if 2 ^ 63 - 1 < gc_ttl_days gc
        then Some (Err (Cache_Error ''ttl_days overflow: out of range integral type conversion attempted''), f, logs)
        else map_option (\<lambda>cutoff.
          case index_records Y logs of
            Inl e \<Rightarrow> (Err e, f, logs)
          | Inr records \<Rightarrow>
              let rt = plan_retention records cutoff (gc_max_bytes gc)
              in case rewrite_groups Y records rt logs of
                   (Inl e, logs) \<Rightarrow> (Err e, f, logs)
                 | (Inr _, logs) \<Rightarrow>
                     let live = remdups (map ie_manifest (concat (map snd (rt_groups rt))))
                     in case sweep X live l f of
                          (Inl e, f) \<Rightarrow> (Err e, f, logs)
                        | (Inr (chunks, manifests), f) \<Rightarrow>
                            (Ok \<lparr>gr_entries_expired = rt_expired rt, gr_entries_evicted = rt_evicted rt,
                                gr_chunks_deleted = chunks, gr_manifests_deleted = manifests\<rparr>, f, logs))
          (days_before now (gc_ttl_days gc)))"

subsection \<open>What a pass keeps\<close>

lemma map_of_remove_key: "map_of (remove_key k fs) = (map_of fs)(k := None)"
  unfolding remove_key_def by (induction fs) (auto simp: fun_eq_iff)

lemma remove_blob_other: "remove_blob X kind i fs = Ok fs' \<Longrightarrow> j \<noteq> i \<Longrightarrow> map_of fs' j = map_of fs j"
  by (auto simp: remove_blob_def rbind_eq_Ok map_of_remove_key split: if_splits)

text \<open>A sweep relates the stores before and after it as its deletions do.\<close>

lemma sweep_with_rel:
  assumes "reflp R" "transp R" "\<And>i f f'. \<not> keep i \<Longrightarrow> delete i f = Ok f' \<Longrightarrow> R f f'" "sweep_with delete keep ids n f = (r, f')"
  shows "R f f'"
  using assms(4)
proof (induction ids arbitrary: n f)
  case (Cons i ids)
  consider "keep i" | e where "\<not> keep i" "delete i f = Inl e" | f1 where "\<not> keep i" "delete i f = Inr f1"
    by (cases "delete i f") auto
  then show ?case
  proof cases
    case (3 f1)
    with Cons have "R f1 f'" by simp
    with assms(3) [OF 3] show ?thesis using assms(2) by (blast dest: transpD)
  qed (use Cons assms(1) in \<open>auto dest: reflpD\<close>)
qed (use assms(1) in \<open>auto dest: reflpD\<close>)

lemma sweep_manifests_keeps:
  assumes "sweep_with (delete_manifest X) keep ids n f = (r, f')"
  shows "cf_blobs f' = cf_blobs f \<and> (\<forall>j. keep j \<longrightarrow> map_of (cf_manifests f') j = map_of (cf_manifests f) j)"
  by (rule sweep_with_rel [where R = "\<lambda>f f'. cf_blobs f' = cf_blobs f \<and> (\<forall>j. keep j \<longrightarrow> map_of (cf_manifests f') j = map_of (cf_manifests f) j)", OF _ _ _ assms])
    (auto simp: delete_manifest_def rbind_eq_Ok intro!: reflpI transpI, metis remove_blob_other)

lemma sweep_chunks_keeps:
  assumes "sweep_with (delete_chunk X) keep ids n f = (r, f')"
  shows "cf_manifests f' = cf_manifests f \<and> (\<forall>j. keep j \<longrightarrow> map_of (cf_blobs f') j = map_of (cf_blobs f) j)"
  by (rule sweep_with_rel [where R = "\<lambda>f f'. cf_manifests f' = cf_manifests f \<and> (\<forall>j. keep j \<longrightarrow> map_of (cf_blobs f') j = map_of (cf_blobs f) j)", OF _ _ _ assms])
    (auto simp: delete_chunk_def rbind_eq_Ok intro!: reflpI transpI, metis remove_blob_other)

lemma live_chunks_cover:
  "live_chunks X mids f = Ok chunks \<Longrightarrow> mid \<in> set mids \<Longrightarrow>
     \<exists>m. get_manifest X mid f = Ok m \<and> cr_id ` set (mf_chunks m) \<subseteq> set chunks"
  by (induction mids arbitrary: chunks) (fastforce simp: rbind_eq_Ok)+

lemma get_manifest_cong:
  "map_of (cf_manifests f') i = map_of (cf_manifests f) i \<Longrightarrow> get_manifest X i f' = get_manifest X i f"
  by (simp add: get_manifest_def read_verified_def read_file_def)

lemma sweep_keeps:
  assumes "sweep X live l f = (Ok r, f')"
  shows "mid \<in> set live \<Longrightarrow> \<exists>m. get_manifest X mid f = Ok m \<and> get_manifest X mid f' = Ok m
      \<and> (\<forall>c \<in> set (mf_chunks m). map_of (cf_blobs f') (cr_id c) = map_of (cf_blobs f) (cr_id c))"
    and "is_leased l i \<Longrightarrow> map_of (cf_blobs f') i = map_of (cf_blobs f) i"
proof -
  from assms obtain chunks mids f1 n cids k where
    live: "live_chunks X live f = Ok chunks"
    and ms: "sweep_with (delete_manifest X) (\<lambda>i. i \<in> set live) mids 0 f = (Ok n, f1)"
    and cs: "sweep_with (delete_chunk X) (\<lambda>i. i \<in> set chunks \<or> is_leased l i) cids 0 f1 = (Ok k, f')"
    unfolding sweep_def by (auto split: sum.splits prod.splits)
  note keep = sweep_manifests_keeps [OF ms] sweep_chunks_keeps [OF cs]
  show "is_leased l i \<Longrightarrow> map_of (cf_blobs f') i = map_of (cf_blobs f) i" using keep by simp
  assume mid: "mid \<in> set live"
  then have same: "get_manifest X mid f' = get_manifest X mid f" using keep by (intro get_manifest_cong) simp
  from live_chunks_cover [OF live mid] obtain m where "get_manifest X mid f = Ok m" "cr_id ` set (mf_chunks m) \<subseteq> set chunks" by blast
  with same keep show "\<exists>m. get_manifest X mid f = Ok m \<and> get_manifest X mid f' = Ok m
      \<and> (\<forall>c \<in> set (mf_chunks m). map_of (cf_blobs f') (cr_id c) = map_of (cf_blobs f) (cr_id c))" by fastforce
qed

subsection \<open>What the logs hold after a pass\<close>

abbreviation record_key :: "index_record \<Rightarrow> string \<times> string" where "record_key r \<equiv> (ir_scope r, ir_version r)"

lemma read_entries_Ok: "read_entries Y s v logs = Ok es \<Longrightarrow> es = log_entries Y logs (s, v)"
  by (auto simp: read_entries_def log_entries_def split: option.splits)

lemma collect_records_Ok:
  "collect_records Y ks logs = Ok rs \<Longrightarrow>
     r \<in> set rs \<longleftrightarrow> record_key r \<in> set ks \<and> ir_entry r \<in> set (log_entries Y logs (record_key r))"
proof (induction ks arbitrary: rs)
  case (Cons k ks)
  obtain s v where k: "k = (s, v)" by force
  from Cons.prems obtain rest where rest: "collect_records Y ks logs = Ok rest"
    "rs = map (\<lambda>e. \<lparr>ir_scope = s, ir_version = v, ir_entry = e\<rparr>) (log_entries Y logs (s, v)) @ rest"
    by (auto simp: k rbind_eq_Ok dest!: read_entries_Ok)
  show ?case unfolding rest(2) set_append Un_iff Cons.IH [OF rest(1)]
    by (cases r) (auto simp: k image_iff)
qed simp

lemma index_records_Ok:
  assumes "index_records Y logs = Ok rs"
  shows "r \<in> set rs \<longleftrightarrow> ir_entry r \<in> set (log_entries Y logs (record_key r))"
proof -
  have "collect_records Y (map fst logs) logs = Ok rs" using assms by (auto simp: index_records_def split: option.splits)
  moreover have "k \<in> set (map fst logs)" if "e \<in> set (log_entries Y logs k)" for k e
    using that unfolding log_entries_def by (cases "map_of logs k") (simp, metis domI dom_map_of_conv_image_fst set_map)
  ultimately show ?thesis using collect_records_Ok by blast
qed

lemma rewrite_keys_Ok: "rewrite_keys Y ks rt logs = (Ok u, logs') \<Longrightarrow> logs' = fold (\<lambda>k. log_replace Y k (group_of rt k)) ks logs"
proof (induction ks arbitrary: logs)
  case (Cons k ks)
  obtain s v where k: "k = (s, v)" by force
  obtain q logs1 where q: "index_rewrite Y s v (group_of rt k) logs = (q, logs1)" by force
  with Cons.prems have "q = Ok ()" by (cases q) (auto simp: k)
  then have "logs1 = log_replace Y k (group_of rt k) logs"
    using q by (auto simp: k log_replace_def index_rewrite_def split: if_splits option.splits)
  with Cons q \<open>q = Ok ()\<close> show ?case by (simp add: k)
qed simp

lemma group_insert_fold:
  "(case map_of (fold group_insert rs g) k of Some es \<Rightarrow> es | None \<Rightarrow> [])
     = (case map_of g k of Some es \<Rightarrow> es | None \<Rightarrow> []) @ map ir_entry (filter (\<lambda>r. record_key r = k) rs)"
  by (induction rs arbitrary: g) (auto simp: group_insert_def Let_def)

text \<open>The records a retention plan keeps.\<close>

definition kept :: "index_record list \<Rightarrow> int \<Rightarrow> nat \<Rightarrow> index_record list" where
  "kept records cutoff cap = fst (evict_over_cap (filter (\<lambda>r. \<not> ie_created_at (ir_entry r) < cutoff) records) cap)"

lemma group_of_plan:
  "group_of (plan_retention records cutoff cap) k = map ir_entry (filter (\<lambda>r. record_key r = k) (kept records cutoff cap))"
  using group_insert_fold [of "kept records cutoff cap" "[]" k]
  by (simp add: group_of_def plan_retention_def kept_def Let_def case_prod_beta)

lemma kept_subset: "r \<in> set (kept records cutoff cap) \<Longrightarrow> r \<in> set records \<and> cutoff \<le> ie_created_at (ir_entry r)"
  by (auto simp: kept_def evict_over_cap_def Let_def split: if_splits dest!: in_set_dropD)

lemma log_entries_after_rewrite:
  assumes "whole_logs Y logs" "index_records Y logs = Ok records"
    and "rewrite_groups Y records (plan_retention records cutoff cap) logs = (Ok u, logs')"
  shows "log_entries Y logs' k = group_of (plan_retention records cutoff cap) k" "whole_logs Y logs'"
proof -
  let ?rt = "plan_retention records cutoff cap" and ?ks = "remdups (map record_key records)"
  have logs': "logs' = fold (\<lambda>k. log_replace Y k (group_of ?rt k)) ?ks logs"
    using assms(3) unfolding rewrite_groups_def by (rule rewrite_keys_Ok)
  show "whole_logs Y logs'" unfolding logs' using assms(1) by (rule log_index.well_fold_replace)
  have "log_entries Y logs k = []" "group_of ?rt k = []" if "k \<notin> set ?ks"
  proof -
    have "e \<notin> set (log_entries Y logs k)" for e
      using that index_records_Ok [OF assms(2), of "\<lparr>ir_scope = fst k, ir_version = snd k, ir_entry = e\<rparr>"] by (auto simp: image_iff)
    then show "log_entries Y logs k = []" using last_in_set by blast
    show "group_of ?rt k = []" using that kept_subset by (fastforce simp: group_of_plan filter_empty_conv)
  qed
  then show "log_entries Y logs' k = group_of ?rt k"
    unfolding logs' by (simp add: log_index.entries_fold_replace [OF assms(1)])
qed


lemma gc_run_Ok:
  assumes "gc_run X Y days_before gc now l (f, logs) = Some (Ok report, f', logs')"
  shows "\<exists>cutoff records u r. days_before now (gc_ttl_days gc) = Some cutoff \<and> index_records Y logs = Ok records
    \<and> rewrite_groups Y records (plan_retention records cutoff (gc_max_bytes gc)) logs = (Ok u, logs')
    \<and> sweep X (remdups (map ie_manifest (concat (map snd (rt_groups (plan_retention records cutoff (gc_max_bytes gc))))))) l f = (Ok r, f')"
proof -
  from assms obtain cutoff where cutoff: "days_before now (gc_ttl_days gc) = Some cutoff"
    by (auto simp: gc_run_def split: if_splits)
  from assms cutoff obtain records where records: "index_records Y logs = Ok records"
    by (cases "index_records Y logs") (auto simp: gc_run_def split: if_splits)
  let ?rt = "plan_retention records cutoff (gc_max_bytes gc)"
  obtain q logs1 where q: "rewrite_groups Y records ?rt logs = (q, logs1)" by force
  let ?live = "remdups (map ie_manifest (concat (map snd (rt_groups ?rt))))"
  obtain r f1 where r: "sweep X ?live l f = (r, f1)" by force
  have "logs' = logs1 \<and> f' = f1 \<and> (\<exists>u. q = Ok u) \<and> (\<exists>v. r = Ok v)"
    using assms cutoff records q r
    by (cases q; cases r) (auto simp: gc_run_def Let_def split: if_splits)
  with cutoff records q r show ?thesis by blast
qed

text \<open>
  C31. Garbage collection never breaks an archive it keeps: after a successful pass every entry left in the
  index was there before, is not older than the cutoff, and still has its manifest and every chunk of
  it exactly as they were; chunks a restore is reading are never removed.
\<close>

theorem gc_keeps_retained_archives:
  assumes "gc_run X Y days_before gc now l (f, logs) = Some (Ok report, f', logs')" "whole_logs Y logs"
  shows "(\<forall>k. \<forall>e \<in> set (log_entries Y logs' k). e \<in> set (log_entries Y logs k)
        \<and> (\<exists>cutoff. days_before now (gc_ttl_days gc) = Some cutoff \<and> cutoff \<le> ie_created_at e)
        \<and> (\<exists>m. get_manifest X (ie_manifest e) f = Ok m \<and> get_manifest X (ie_manifest e) f' = Ok m
             \<and> (\<forall>c \<in> set (mf_chunks m). map_of (cf_blobs f') (cr_id c) = map_of (cf_blobs f) (cr_id c))))
    \<and> (\<forall>i. is_leased l i \<longrightarrow> map_of (cf_blobs f') i = map_of (cf_blobs f) i)"
proof -
  from gc_run_Ok [OF assms(1)] obtain cutoff records u r where cutoff: "days_before now (gc_ttl_days gc) = Some cutoff"
    and records: "index_records Y logs = Ok records"
    and rewrite: "rewrite_groups Y records (plan_retention records cutoff (gc_max_bytes gc)) logs = (Ok u, logs')"
    and sweep: "sweep X (remdups (map ie_manifest (concat (map snd (rt_groups (plan_retention records cutoff (gc_max_bytes gc))))))) l f = (Ok r, f')"
    by blast
  let ?rt = "plan_retention records cutoff (gc_max_bytes gc)"
  have "e \<in> set (log_entries Y logs k) \<and> cutoff \<le> ie_created_at e \<and> ie_manifest e \<in> set (map ie_manifest (concat (map snd (rt_groups ?rt))))"
    if "e \<in> set (log_entries Y logs' k)" for k e
  proof -
    have e: "e \<in> set (group_of ?rt k)" using that by (simp add: log_entries_after_rewrite [OF assms(2) records rewrite])
    then obtain r where "r \<in> set records" "record_key r = k" "ir_entry r = e" "cutoff \<le> ie_created_at e"
      by (auto simp: group_of_plan dest!: kept_subset)
    then have "e \<in> set (log_entries Y logs k)" "cutoff \<le> ie_created_at e" using index_records_Ok [OF records] by auto
    moreover have "e \<in> set (concat (map snd (rt_groups ?rt)))"
      using e unfolding group_of_def by (cases "map_of (rt_groups ?rt) k") (simp, auto, metis map_of_SomeD snd_conv)
    ultimately show ?thesis by auto
  qed
  with cutoff sweep_keeps [OF sweep] show ?thesis by (metis set_remdups)
qed

text \<open>A pass over a store with an old entry, a fresh one and an orphaned chunk.\<close>

definition gc_example_cas :: cas_externs where
  "gc_example_cas = plain_cas\<lparr>cx_manifest_parse := \<lambda>b. Ok \<lparr>mf_chunks = [\<lparr>cr_id = ''abc'', cr_len = 3\<rparr>], mf_total_size = 3\<rparr>\<rparr>"

definition gc_example_files :: cas_files where
  "gc_example_files = \<lparr>cf_blobs = [(''abc'', ''abc''), (''old'', ''old'')], cf_manifests = [(''m'', ''m'')], cf_staging = [], cf_mirrored = []\<rparr>"

definition gc_example_logs :: logs where
  "gc_example_logs = snd (index_insert_entry plain_index ''main'' ''v'' (plain_entry ''k'' 9) [])"

theorem gc_keeps_retained_archives_witness:
  "whole_logs plain_index gc_example_logs
   \<and> (\<exists>report f' logs'. gc_run gc_example_cas plain_index (\<lambda>now d. Some (now - int d)) \<lparr>gc_ttl_days = 5, gc_max_bytes = 100\<rparr> 10 Map.empty
        (gc_example_files, gc_example_logs) = Some (Ok report, f', logs')
      \<and> (\<forall>k. \<forall>e \<in> set (log_entries plain_index logs' k). \<exists>m. get_manifest gc_example_cas (ie_manifest e) f' = Ok m))"
proof -
  have "whole_logs plain_index []" using plain_index_json by (simp add: whole_logs_def)
  moreover have same: "plain_index\<lparr>ix_fails := \<lambda>_. None\<rparr> = plain_index" by (simp add: plain_index_def)
  ultimately have well: "whole_logs plain_index gc_example_logs"
    using log_index.well_add [of plain_index "[]" "(''main'', ''v'')" "plain_entry ''k'' 9"] by (simp add: gc_example_logs_def log_add_def)
  obtain report f' logs' where run: "gc_run gc_example_cas plain_index (\<lambda>now d. Some (now - int d)) \<lparr>gc_ttl_days = 5, gc_max_bytes = 100\<rparr> 10 Map.empty
        (gc_example_files, gc_example_logs) = Some (Ok report, f', logs')"
  proof -
    have one: "log_entries plain_index gc_example_logs (''main'', ''v'') = [plain_entry ''k'' 9]"
      using log_index.entries_add [OF \<open>whole_logs plain_index []\<close>, of "(''main'', ''v'')" "plain_entry ''k'' 9"] same
      by (simp add: gc_example_logs_def log_add_def log_entries_def)
    have "map fst gc_example_logs = [(''main'', ''v'')]"
      by (simp add: gc_example_logs_def index_insert_entry_def plain_index_def Let_def)
    then have records: "index_records plain_index gc_example_logs = Ok [\<lparr>ir_scope = ''main'', ir_version = ''v'', ir_entry = plain_entry ''k'' 9\<rparr>]"
      using one by (simp add: index_records_def read_entries_log plain_index_def)
    let ?r = "\<lparr>ir_scope = ''main'', ir_version = ''v'', ir_entry = plain_entry ''k'' 9\<rparr>"
    have plan: "plan_retention [?r] 5 100 = \<lparr>rt_groups = [((''main'', ''v''), [plain_entry ''k'' 9])], rt_expired = 0, rt_evicted = 0\<rparr>"
      by (simp add: plan_retention_def evict_over_cap_def group_insert_def plain_entry_def u64_add_def Let_def)
    obtain lg where rewrite: "rewrite_groups plain_index [?r] (plan_retention [?r] 5 100) gc_example_logs = (Ok (), lg)"
      by (simp add: rewrite_groups_def plan group_of_def index_rewrite_def plain_index_def)
    obtain n g where sweep: "sweep gc_example_cas [''m''] Map.empty gc_example_files = (Ok n, g)"
      by (simp add: sweep_def gc_example_cas_def gc_example_files_def plain_cas_def get_manifest_def read_verified_def read_file_def io_def
        verify_bytes_def list_ids_in_def delete_chunk_def delete_manifest_def remove_blob_def is_leased_def)
    have "ie_manifest (plain_entry ''k'' 9) = ''m''" by (simp add: plain_entry_def)
    with sweep rewrite show thesis
      by (cases n) (intro that, simp add: gc_run_def records plan Let_def)
  qed
  from gc_keeps_retained_archives [OF run well] well run show ?thesis by blast
qed

subsection \<open>Which entries are evicted\<close>

abbreviation record_size :: "index_record \<Rightarrow> nat" where "record_size r \<equiv> ie_size_bytes (ir_entry r)"

lemma count_over_fits:
  "count_over cap (sum_list (map record_size rs)) rs = c \<Longrightarrow>
     c \<le> length rs \<and> sum_list (map record_size (drop c rs)) \<le> cap \<and> (0 < c \<longrightarrow> cap < sum_list (map record_size (drop (c - 1) rs)))"
proof (induction rs arbitrary: c)
  case (Cons r rs)
  show ?case
  proof (cases "cap < record_size r + sum_list (map record_size rs)")
    case True
    let ?c = "count_over cap (sum_list (map record_size rs)) rs"
    have c: "c = Suc ?c" using Cons.prems True by simp
    from Cons.IH [OF refl] True show ?thesis by (cases ?c) (auto simp: c)
  qed (use Cons.prems in auto)
qed simp

lemma fold_u64_sum: "n + sum_list (map g rs) \<le> U64_MAX \<Longrightarrow> fold (\<lambda>r n. u64_add n (g r)) rs n = n + sum_list (map g rs)"
  by (induction rs arbitrary: n) (simp_all add: u64_add_small)

lemma drop_before: "0 < c \<Longrightarrow> c \<le> length xs \<Longrightarrow> drop (c - 1) xs = last (take c xs) # drop c xs"
  by (cases c) (simp_all add: take_Suc_conv_app_nth Cons_nth_drop_Suc)

text \<open>
  Eviction is exact: the entries that survive a pass are the unexpired ones minus the oldest, they fit the
  size cap, and none is evicted without need: with the last evicted entry they would exceed the cap.
\<close>

theorem gc_evicts_oldest_first:
  assumes "sum_list (map record_size records) \<le> U64_MAX"
  shows "\<exists>dropped. mset (dropped @ kept records cutoff cap) = mset (filter (\<lambda>r. cutoff \<le> ie_created_at (ir_entry r)) records)
    \<and> (\<forall>a \<in> set dropped. \<forall>b \<in> set (kept records cutoff cap). ie_created_at (ir_entry a) \<le> ie_created_at (ir_entry b))
    \<and> sum_list (map record_size (kept records cutoff cap)) \<le> cap
    \<and> (dropped \<noteq> [] \<longrightarrow> cap < record_size (last dropped) + sum_list (map record_size (kept records cutoff cap)))
    \<and> length dropped = rt_evicted (plan_retention records cutoff cap)"
proof -
  let ?alive = "filter (\<lambda>r. \<not> ie_created_at (ir_entry r) < cutoff) records"
  let ?sorted = "sort_key (\<lambda>r. ie_created_at (ir_entry r)) ?alive"
  have alive: "?alive = filter (\<lambda>r. cutoff \<le> ie_created_at (ir_entry r)) records" by (simp add: not_less)
  have "sum_list (map record_size ?alive) \<le> sum_list (map record_size records)" by (rule sum_list_filter_le_nat)
  with assms have total: "fold (\<lambda>r n. u64_add n (record_size r)) ?alive 0 = sum_list (map record_size ?alive)"
    using fold_u64_sum [of 0 record_size ?alive] by simp
  have evicted: "rt_evicted (plan_retention records cutoff cap) = snd (evict_over_cap ?alive cap)"
    by (simp add: plan_retention_def Let_def case_prod_beta)
  show ?thesis
  proof (cases "sum_list (map record_size ?alive) \<le> cap")
    case True
    then have "evict_over_cap ?alive cap = (?alive, 0)" unfolding evict_over_cap_def total by simp
    with True evicted show ?thesis unfolding kept_def by (intro exI [of _ "[]"]) (simp add: not_less)
  next
    case False
    let ?c = "count_over cap (sum_list (map record_size ?sorted)) ?sorted"
    have same: "sum_list (map record_size ?sorted) = sum_list (map record_size ?alive)"
      unfolding sum_mset_sum_list [symmetric] mset_map mset_sort ..
    have run: "evict_over_cap ?alive cap = (drop ?c ?sorted, ?c)"
      using False unfolding evict_over_cap_def total by (simp add: Let_def same)
    note fits = count_over_fits [OF refl, of cap ?sorted]
    have sorted: "sorted (map (\<lambda>r. ie_created_at (ir_entry r)) (take ?c ?sorted @ drop ?c ?sorted))" by (simp only: append_take_drop_id sorted_sort_key)
    have "mset (take ?c ?sorted @ drop ?c ?sorted) = mset ?alive" by (simp only: append_take_drop_id mset_sort)
    moreover have "\<forall>a \<in> set (take ?c ?sorted). \<forall>b \<in> set (drop ?c ?sorted). ie_created_at (ir_entry a) \<le> ie_created_at (ir_entry b)"
      using sorted unfolding map_append sorted_append by simp
    moreover have "cap < record_size (last (take ?c ?sorted)) + sum_list (map record_size (drop ?c ?sorted))" if "take ?c ?sorted \<noteq> []"
    proof -
      have c: "0 < ?c" "?c \<le> length ?sorted" using that fits by (auto simp: take_eq_Nil)
      from drop_before [OF c] fits c(1) show ?thesis by simp
    qed
    ultimately show ?thesis
      using fits evicted run alive unfolding kept_def run by (intro exI [of _ "take ?c ?sorted"]) (simp del: length_sort)
  qed
qed

theorem gc_evicts_oldest_first_witness:
  "let records = map (\<lambda>t. \<lparr>ir_scope = ''main'', ir_version = ''v'', ir_entry = plain_entry ''k'' t\<rparr>) [3, 1, 2]
   in sum_list (map record_size records) \<le> U64_MAX
    \<and> (\<exists>dropped. mset (dropped @ kept records 0 14) = mset records \<and> sum_list (map record_size (kept records 0 14)) \<le> 14)"
  using gc_evicts_oldest_first [of "map (\<lambda>t. \<lparr>ir_scope = ''main'', ir_version = ''v'', ir_entry = plain_entry ''k'' t\<rparr>) [3, 1, 2]" 0 14]
  by (simp add: plain_entry_def Let_def) blast

end
