(* ===== verification/Cache_Service.thy ===== *)
theory Cache_Service
  imports Cache_Gc
begin

text \<open>
  The cache service of a job (\<open>crates/cache/src/\<close>): scopes and trust (\<open>scope.rs\<close>, \<open>trust.rs\<close>), bearer
  authentication (\<open>twirp/auth.rs\<close>), the token registry and the blob endpoint (\<open>blob.rs\<close>, \<open>blob/\<close>), the
  three Twirp methods (\<open>twirp/handlers/\<close>) and the five REST routes of the older protocol (\<open>v1.rs\<close>,
  \<open>v1/handlers.rs\<close>), over one store, index, registry and lease set.

  A request is a value of \<open>cache_request\<close>, as the router delivers it; its handler maps it to a response
  and a new state. Time, random tokens and names, SHA-256, the XML reader and the staging operations that
  fail are the fields of \<open>service_externs\<close>. A response body that streams chunks is the bytes sent and the
  error that ended them, with the changes the rest of the system makes to the store meanwhile as a
  parameter. The four fixed headers of the blob endpoint and the locks, which no code path poisons, are
  left out.
\<close>

subsection \<open>Scopes and trust\<close>

record cache_scopes =
  cs_write :: string
  cs_read_ladder :: "string list"

definition push_unique :: "string list \<Rightarrow> string \<Rightarrow> string list" where
  "push_unique ladder s = (if s \<in> set ladder then ladder else ladder @ [s])"

definition scopes_for_job :: "string option \<Rightarrow> string option \<Rightarrow> string list \<Rightarrow> cache_scopes" where
  "scopes_for_job own_ref base_ref protected =
     (let ladder = (case own_ref of Some n \<Rightarrow> push_unique [] n | None \<Rightarrow> []);
          ladder = (case base_ref of Some b \<Rightarrow> push_unique ladder b | None \<Rightarrow> ladder);
          ladder = fold (\<lambda>s l. push_unique l s) protected ladder
      in \<lparr>cs_write = (case own_ref of Some n \<Rightarrow> n | None \<Rightarrow> []), cs_read_ladder = ladder\<rparr>)"

datatype trust_level = Trusted | Untrusted

definition is_protected :: "string \<Rightarrow> string list \<Rightarrow> bool" where
  "is_protected branch protected = list_ex (\<lambda>p. p = branch) protected"

definition classify_trust :: "string \<Rightarrow> string \<Rightarrow> string list \<Rightarrow> trust_level" where
  "classify_trust event branch protected =
     (if event \<in> {''push'', ''schedule'', ''workflow_dispatch'', ''release'', ''merge_group''} \<and> is_protected branch protected
      then Trusted else Untrusted)"

definition write_allowed :: "string \<Rightarrow> trust_level \<Rightarrow> string list \<Rightarrow> bool" where
  "write_allowed scope trust protected \<longleftrightarrow> \<not> (is_protected scope protected \<and> trust = Untrusted)"

subsection \<open>State and environment\<close>

datatype blob_target =
    Upload string string string string
  | Download manifest

record reservation =
  rv_key :: string
  rv_version :: string
  rv_staging :: string

record cache_state =
  ca_files :: cas_files
  ca_blocks :: "bytes files files"
  ca_logs :: logs
  ca_registry :: "(blob_target \<times> int) files"
  ca_leases :: leases
  ca_reservations :: "(nat \<times> reservation) list"
  ca_downloads :: "manifest files"
  ca_next_id :: nat
  ca_minted :: nat

record cache_config =
  cc_store :: cas_store
  cc_scopes :: cache_scopes
  cc_trust :: trust_level
  cc_protected :: "string list"
  cc_bearer :: string
  cc_staging_root :: string
  cc_upload_ttl :: int
  cc_download_ttl :: int

datatype xml_event = Xml_Start string | Xml_End | Xml_Text "(string, string) result" | Xml_Other

datatype staging_op = Create_Staging_Dir | Create_Staged string | Write_Staged string | Write_Block string string | Open_Block string string

record service_externs =
  sx_cas :: cas_externs
  sx_index :: index_externs
  sx_token :: "nat \<Rightarrow> string"
  sx_uuid :: "nat \<Rightarrow> string"
  sx_utc_now :: int
  sx_instant :: int
  sx_instant_add :: "int \<Rightarrow> int \<Rightarrow> int option"
  sx_error_text :: "runner_error \<Rightarrow> string"
  sx_sha256 :: "string \<Rightarrow> string"
  sx_xml :: "string \<Rightarrow> (string, xml_event) result list"
  sx_staging_fails :: "staging_op \<Rightarrow> string option"
  sx_between :: "nat \<Rightarrow> bytes files \<Rightarrow> bytes files"

type_synonym headers = "string \<rightharpoonup> string"

datatype response_body =
    No_Body
  | Error_Body runner_error
  | Create_Response bool "string option" "string option"
  | Finalize_Response bool "string option"
  | Download_Response bool "string option" "string option"
  | V1_Hit string string string
  | V1_Reserved nat
  | V1_Ok bool
  | Stream_Body bytes "runner_error option"

record response =
  hr_status :: nat
  hr_length :: "nat option"
  hr_range :: "string option"
  hr_body :: response_body

definition respond :: "nat \<Rightarrow> response_body \<Rightarrow> response" where
  "respond status b = \<lparr>hr_status = status, hr_length = None, hr_range = None, hr_body = b\<rparr>"

subsection \<open>Authentication\<close>

definition constant_time_eq :: "service_externs \<Rightarrow> string \<Rightarrow> string \<Rightarrow> bool" where
  "constant_time_eq X a b = list_all (\<lambda>(x, y). x = y) (zip (sx_sha256 X a) (sx_sha256 X b))"

definition check_bearer :: "service_externs \<Rightarrow> headers \<Rightarrow> string \<Rightarrow> bool" where
  "check_bearer X h bearer =
     (case h ''authorization'' of
        None \<Rightarrow> False
      | Some v \<Rightarrow> (case strip_prefix_str ''Bearer '' v of None \<Rightarrow> False | Some t \<Rightarrow> constant_time_eq X t bearer))"

definition host_from :: "headers \<Rightarrow> string" where
  "host_from h = (case h ''host'' of Some v \<Rightarrow> v | None \<Rightarrow> ''127.0.0.1'')"

subsection \<open>The token registry\<close>

definition OVERFLOW_TTL_CAP :: int where "OVERFLOW_TTL_CAP = 24 * 60 * 60"

definition registry_insert :: "service_externs \<Rightarrow> blob_target \<Rightarrow> int \<Rightarrow> cache_state \<Rightarrow> string \<times> cache_state" where
  "registry_insert X target ttl s =
     (let token = sx_token X (ca_minted s);
          s = s\<lparr>ca_minted := Suc (ca_minted s)\<rparr>;
          expiry = (case sx_instant_add X (sx_instant X) ttl of
              Some t \<Rightarrow> Some t | None \<Rightarrow> sx_instant_add X (sx_instant X) OVERFLOW_TTL_CAP)
      in (token, case expiry of None \<Rightarrow> s | Some t \<Rightarrow> s\<lparr>ca_registry := index_insert token (target, t) (ca_registry s)\<rparr>))"

definition registry_get :: "service_externs \<Rightarrow> string \<Rightarrow> cache_state \<Rightarrow> blob_target option" where
  "registry_get X token s =
     (case map_of (ca_registry s) token of
        None \<Rightarrow> None | Some (target, expiry) \<Rightarrow> if expiry \<le> sx_instant X then None else Some target)"

definition take_upload :: "service_externs \<Rightarrow> string \<Rightarrow> cache_state \<Rightarrow> (string \<times> string \<times> string \<times> string) option \<times> cache_state" where
  "take_upload X token s =
     (case map_of (ca_registry s) token of
        None \<Rightarrow> (None, s)
      | Some (target, expiry) \<Rightarrow>
          (let s = s\<lparr>ca_registry := remove_key token (ca_registry s)\<rparr>
           in (if expiry \<le> sx_instant X then None
               else case target of Upload staging scope key version \<Rightarrow> Some (staging, scope, key, version) | Download _ \<Rightarrow> None, s)))"

definition take_pending_upload ::
  "service_externs \<Rightarrow> string \<Rightarrow> string \<Rightarrow> string \<Rightarrow> cache_state \<Rightarrow> (string \<times> string) option \<times> cache_state" where
  "take_pending_upload X scope key version s =
     (case List.find (\<lambda>(tok, target, expiry). \<not> expiry \<le> sx_instant X
             \<and> (case target of Upload _ sc k v \<Rightarrow> sc = scope \<and> k = key \<and> v = version | Download _ \<Rightarrow> False)) (ca_registry s) of
        None \<Rightarrow> (None, s)
      | Some (tok, target, _) \<Rightarrow>
          (case target of Upload staging _ _ _ \<Rightarrow> Some (tok, staging) | Download _ \<Rightarrow> None,
           s\<lparr>ca_registry := remove_key tok (ca_registry s)\<rparr>))"

subsection \<open>Uploads through the blob endpoint\<close>

definition stage_io :: "service_externs \<Rightarrow> staging_op \<Rightarrow> (runner_error, unit) result" where
  "stage_io X op = (case sx_staging_fails X op of Some e \<Rightarrow> Err (Io_Error e) | None \<Rightarrow> Ok ())"

definition set_staged :: "string \<Rightarrow> bytes \<Rightarrow> cache_state \<Rightarrow> cache_state" where
  "set_staged staging content s = s\<lparr>ca_files := (ca_files s)\<lparr>cf_staging := index_insert staging content (cf_staging (ca_files s))\<rparr>\<rparr>"

definition store_block :: "service_externs \<Rightarrow> string \<Rightarrow> string \<Rightarrow> bytes \<Rightarrow> cache_state \<Rightarrow> (runner_error, unit) result \<times> cache_state" where
  "store_block X staging block_id content s =
     (case rbind (stage_io X Create_Staging_Dir) (\<lambda>_. stage_io X (Write_Block staging block_id)) of
        Inl e \<Rightarrow> (Err e, s)
      | Inr _ \<Rightarrow> (Ok (), s\<lparr>ca_blocks := index_insert staging
          (index_insert block_id content (case map_of (ca_blocks s) staging of Some d \<Rightarrow> d | None \<Rightarrow> [])) (ca_blocks s)\<rparr>))"

definition is_id_element :: "string \<Rightarrow> bool" where
  "is_id_element name \<longleftrightarrow> name \<in> {''Latest'', ''Committed'', ''Uncommitted''}"

text \<open>The events of the XML reader up to the end of the document.\<close>

fun collect_ids :: "(string, xml_event) result list \<Rightarrow> bool \<Rightarrow> string list \<Rightarrow> (runner_error, string list) result" where
  "collect_ids [] capture ids = Ok ids"
| "collect_ids (Inl e # rest) capture ids = Err (Cache_Error (''block list xml: '' @ e))"
| "collect_ids (Inr (Xml_Start name) # rest) capture ids = collect_ids rest (if is_id_element name then True else capture) ids"
| "collect_ids (Inr Xml_End # rest) capture ids = collect_ids rest False ids"
| "collect_ids (Inr (Xml_Text t) # rest) capture ids =
     (if \<not> capture then collect_ids rest capture ids
      else case t of
             Inl e \<Rightarrow> Err (Cache_Error (''block id decode: '' @ e))
           | Inr s \<Rightarrow> collect_ids rest capture (if trim s = [] then ids else ids @ [trim s]))"
| "collect_ids (Inr Xml_Other # rest) capture ids = collect_ids rest capture ids"

definition parse_block_list :: "service_externs \<Rightarrow> bytes \<Rightarrow> (runner_error, string list) result" where
  "parse_block_list X content =
     (if valid_utf8 content then collect_ids (sx_xml X content) False []
      else Err (Cache_Error ''block list not utf8''))"

text \<open>The staged file is truncated first and grows block by block.\<close>

fun copy_blocks :: "service_externs \<Rightarrow> string \<Rightarrow> string list \<Rightarrow> bytes \<Rightarrow> bytes files \<Rightarrow> (runner_error, unit) result \<times> bytes" where
  "copy_blocks X staging [] out dir = (Ok (), out)"
| "copy_blocks X staging (i # ids) out dir =
     (case rbind (stage_io X (Open_Block staging i)) (\<lambda>_. ok_or (Io_Error ''No such file or directory'') (map_of dir i)) of
        Inl e \<Rightarrow> (Err e, out)
      | Inr content \<Rightarrow>
          (case stage_io X (Write_Staged staging) of
             Inl e \<Rightarrow> (Err e, out) | Inr _ \<Rightarrow> copy_blocks X staging ids (out @ content) dir))"

definition assemble :: "service_externs \<Rightarrow> string \<Rightarrow> string list \<Rightarrow> cache_state \<Rightarrow> (runner_error, unit) result \<times> cache_state" where
  "assemble X staging ids s =
     (case rbind (stage_io X Create_Staging_Dir) (\<lambda>_. stage_io X (Create_Staged staging)) of
        Inl e \<Rightarrow> (Err e, s)
      | Inr _ \<Rightarrow>
          (case copy_blocks X staging ids [] (case map_of (ca_blocks s) staging of Some d \<Rightarrow> d | None \<Rightarrow> []) of
             (Inl e, out) \<Rightarrow> (Err e, set_staged staging out s)
           | (Inr _, out) \<Rightarrow> (Ok (), (set_staged staging out s)\<lparr>ca_blocks := remove_key staging (ca_blocks s)\<rparr>)))"

definition commit_block_list :: "service_externs \<Rightarrow> string \<Rightarrow> bytes \<Rightarrow> cache_state \<Rightarrow> (runner_error, unit) result \<times> cache_state" where
  "commit_block_list X staging content s =
     (case parse_block_list X content of Inl e \<Rightarrow> (Err e, s) | Inr ids \<Rightarrow> assemble X staging ids s)"

definition put_whole :: "service_externs \<Rightarrow> string \<Rightarrow> bytes \<Rightarrow> cache_state \<Rightarrow> (runner_error, unit) result \<times> cache_state" where
  "put_whole X staging content s =
     (case rbind (stage_io X Create_Staging_Dir) (\<lambda>_. stage_io X (Write_Staged staging)) of
        Inl e \<Rightarrow> (Err e, s) | Inr _ \<Rightarrow> (Ok (), set_staged staging content s))"

definition put_blob_or_reject ::
  "service_externs \<Rightarrow> string \<Rightarrow> headers \<Rightarrow> bytes \<Rightarrow> cache_state \<Rightarrow> (runner_error, unit) result \<times> cache_state" where
  "put_blob_or_reject X staging h content s =
     (if (case h ''x-ms-blob-type'' of Some v \<Rightarrow> eq_ignore_ascii_case v ''BlockBlob'' | None \<Rightarrow> False)
      then put_whole X staging content s
      else (Err (Cache_Error ''PUT without comp requires x-ms-blob-type: BlockBlob''), s))"

definition put_dispatch ::
  "service_externs \<Rightarrow> string \<Rightarrow> string option \<Rightarrow> string option \<Rightarrow> headers \<Rightarrow> bytes \<Rightarrow> cache_state \<Rightarrow> response \<times> cache_state" where
  "put_dispatch X token operation blockid h content s =
     (case registry_get X token s of
        Some (Upload staging _ _ _) \<Rightarrow>
          (let (r, s) =
             (case operation of
                None \<Rightarrow> put_blob_or_reject X staging h content s
              | Some c \<Rightarrow>
                  if c = ''block''
                  then (case blockid of
                          None \<Rightarrow> (Err (Cache_Error ''put block missing blockid''), s) | Some i \<Rightarrow> store_block X staging i content s)
                  else if c = ''blocklist'' then commit_block_list X staging content s
                  else (Err (Cache_Error (''unsupported comp='' @ c)), s))
           in (case r of Inr _ \<Rightarrow> respond 201 No_Body | Inl e \<Rightarrow> respond 500 (Error_Body e), s))
      | _ \<Rightarrow> (respond 403 No_Body, s))"


subsection \<open>Downloads\<close>

text \<open>\<open>str::parse::<u64>\<close>; the texts of its errors are left out.\<close>

definition parse_u64 :: "string \<Rightarrow> nat option" where
  "parse_u64 s =
     (case parse_digits (case s of c # r \<Rightarrow> if c = CHR ''+'' then r else s | [] \<Rightarrow> []) of
        Some n \<Rightarrow> if n \<le> U64_MAX then Some n else None | None \<Rightarrow> None)"

definition parse_range :: "headers \<Rightarrow> nat \<Rightarrow> (runner_error, (nat \<times> nat) option) result" where
  "parse_range h tot =
     (case h ''range'' of
        None \<Rightarrow> Ok None
      | Some raw \<Rightarrow>
          (case strip_prefix_str ''bytes='' raw of
             None \<Rightarrow> Err (Cache_Error (''unsupported range: '' @ raw))
           | Some spec \<Rightarrow>
               if CHR '','' \<in> set spec then Err (Cache_Error (''multi-range unsupported: '' @ raw))
               else case split_once_char (CHR ''-'') spec of
                      None \<Rightarrow> Err (Cache_Error (''malformed range: '' @ raw))
                    | Some (start_str, end_str) \<Rightarrow>
                        (case parse_u64 (trim start_str) of
                           None \<Rightarrow> Err (Cache_Error ''bad range start'')
                         | Some start \<Rightarrow>
                             rbind (if trim end_str = [] then Ok (tot - 1)
                                    else case parse_u64 (trim end_str) of
                                           None \<Rightarrow> Err (Cache_Error ''bad range end'') | Some e \<Rightarrow> Ok (min e (tot - 1)))
                               (\<lambda>e. if e < start then Err (Cache_Error (''range start '' @ show_nat start @ '' > end '' @ show_nat e))
                                     else Ok (Some (start, e))))))"

text \<open>
  Status, window and \<open>Content-Range\<close> of a download; the length of a range fits 64 bits.
\<close>

definition plan_range :: "headers \<Rightarrow> nat \<Rightarrow> (runner_error, nat \<times> nat \<times> nat \<times> string option) result" where
  "plan_range h tot =
     rbind (parse_range h tot) (\<lambda>parsed. case parsed of
         Some (start, e) \<Rightarrow>
           if U64_MAX < e - start + 1 then Err (Cache_Error ''range length overflow'')
           else Ok (206, start, e - start + 1, Some (''bytes '' @ show_nat start @ ''-'' @ show_nat e @ ''/'' @ show_nat tot))
       | None \<Rightarrow> Ok (200, 0, tot, None))"

definition leased_body ::
  "service_externs \<Rightarrow> manifest \<Rightarrow> nat \<Rightarrow> nat \<Rightarrow> cache_state \<Rightarrow> response_body \<times> cache_state" where
  "leased_body X m offset len s =
     (let ids = map cr_id (mf_chunks m);
          s = s\<lparr>ca_leases := acquire ids (ca_leases s)\<rparr>;
          ((sent, e), blobs) = read_range (sx_cas X) (sx_between X) m offset len (cf_blobs (ca_files s));
          s = s\<lparr>ca_files := (ca_files s)\<lparr>cf_blobs := blobs\<rparr>, ca_leases := release ids (ca_leases s)\<rparr>
      in (Stream_Body sent e, s))"

definition stream_manifest :: "service_externs \<Rightarrow> (runner_error \<Rightarrow> response_body) \<Rightarrow> manifest \<Rightarrow> headers \<Rightarrow> cache_state \<Rightarrow> response \<times> cache_state" where
  "stream_manifest X rejection m h s =
     (case plan_range h (mf_total_size m) of
        Inl e \<Rightarrow> ((respond 416 (rejection e))\<lparr>hr_range := Some (''bytes */'' @ show_nat (mf_total_size m))\<rparr>, s)
      | Inr (status, offset, len, cr) \<Rightarrow>
          (case leased_body X m offset len s of
             (b, s) \<Rightarrow> (\<lparr>hr_status = status, hr_length = Some len, hr_range = cr, hr_body = b\<rparr>, s)))"

definition blob_head :: "service_externs \<Rightarrow> string \<Rightarrow> cache_state \<Rightarrow> response" where
  "blob_head X token s =
     (case registry_get X token s of
        Some (Download m) \<Rightarrow> (respond 200 No_Body)\<lparr>hr_length := Some (mf_total_size m)\<rparr>
      | _ \<Rightarrow> respond 403 No_Body)"

definition blob_get :: "service_externs \<Rightarrow> string \<Rightarrow> headers \<Rightarrow> cache_state \<Rightarrow> response \<times> cache_state" where
  "blob_get X token h s =
     (case registry_get X token s of Some (Download m) \<Rightarrow> stream_manifest X (\<lambda>_. No_Body) m h s | _ \<Rightarrow> (respond 403 No_Body, s))"

subsection \<open>The Twirp methods\<close>

definition entry_exists :: "service_externs \<Rightarrow> cache_config \<Rightarrow> string \<Rightarrow> string \<Rightarrow> cache_state \<Rightarrow> (runner_error, bool) result" where
  "entry_exists X C key version s =
     rbind (index_lookup (sx_index X) [cs_write (cc_scopes C)] version key [] (ca_logs s)) (\<lambda>hit. Ok (hit \<noteq> None))"

definition blob_url :: "string \<Rightarrow> string \<Rightarrow> string" where
  "blob_url host token = ''http://'' @ host @ ''/_toolu/blob/'' @ token"

definition create_cache_entry ::
  "service_externs \<Rightarrow> cache_config \<Rightarrow> headers \<Rightarrow> string \<Rightarrow> string \<Rightarrow> cache_state \<Rightarrow> response \<times> cache_state" where
  "create_cache_entry X C h key version s =
     (let write = cs_write (cc_scopes C)
      in if \<not> check_bearer X h (cc_bearer C) then (respond 401 No_Body, s)
         else if \<not> write_allowed write (cc_trust C) (cc_protected C)
         then (respond 200 (Create_Response False None (Some (''cache write denied: branch '' @ in_quotes write @ '' may not write a protected scope''))), s)
         else case entry_exists X C key version s of
                Inl e \<Rightarrow> (respond 200 (Create_Response False None (Some (''cache create failed: '' @ sx_error_text X e))), s)
              | Inr True \<Rightarrow> (respond 200 (Create_Response False None (Some ''cache entry already exists'')), s)
              | Inr False \<Rightarrow>
                  (let staging = cc_staging_root C @ ''/'' @ sx_uuid X (ca_minted s);
                       (token, s) = registry_insert X (Upload staging write key version) (cc_upload_ttl C) s
                   in (respond 200 (Create_Response True (Some (blob_url (host_from h) token)) None), s)))"

text \<open>Ingest, size check, manifest and index entry, shared by both protocols; the entry's manifest is returned.\<close>

definition ingest_and_index ::
  "service_externs \<Rightarrow> cache_config \<Rightarrow> string \<Rightarrow> string \<Rightarrow> string \<Rightarrow> nat \<Rightarrow> cache_state
     \<Rightarrow> (runner_error, chunk_id option) result \<times> cache_state" where
  "ingest_and_index X C staging key version size_bytes s =
     (case ingest (sx_cas X) (cc_store C) staging (ca_files s) of
        (Inl e, f) \<Rightarrow> (Err e, s\<lparr>ca_files := f\<rparr>)
      | (Inr m, f) \<Rightarrow>
          (let f = f\<lparr>cf_staging := remove_key staging (cf_staging f)\<rparr>
           in if mf_total_size m \<noteq> size_bytes then (Ok None, s\<lparr>ca_files := f\<rparr>)
              else case put_manifest (sx_cas X) m f of
                     (Inl e, f) \<Rightarrow> (Err e, s\<lparr>ca_files := f\<rparr>)
                   | (Inr mid, f) \<Rightarrow>
                       (let (r, logs) = index_insert_entry (sx_index X) (cs_write (cc_scopes C)) version
                              \<lparr>ie_key = key, ie_manifest = mid, ie_size_bytes = size_bytes, ie_created_at = sx_utc_now X\<rparr> (ca_logs s)
                        in (rbind r (\<lambda>_. Ok (Some mid)), s\<lparr>ca_files := f, ca_logs := logs\<rparr>))))"

definition twirp_finalize ::
  "service_externs \<Rightarrow> cache_config \<Rightarrow> string \<Rightarrow> string \<Rightarrow> string \<Rightarrow> cache_state \<Rightarrow> (runner_error, string option) result \<times> cache_state" where
  "twirp_finalize X C key size_text version s =
     (case parse_u64 size_text of
        None \<Rightarrow> (Err (Cache_Error ''bad size_bytes''), s)
      | Some size_bytes \<Rightarrow>
          (case take_pending_upload X (cs_write (cc_scopes C)) key version s of
             (None, s) \<Rightarrow> (Ok None, s)
           | (Some (_, staging), s) \<Rightarrow>
               (case ingest_and_index X C staging key version size_bytes s of
                  (r, s) \<Rightarrow> (rbind r (\<lambda>mid. Ok (map_option (\<lambda>i. show_nat (entry_id_for i)) mid)), s))))"

definition finalize_cache_entry_upload ::
  "service_externs \<Rightarrow> cache_config \<Rightarrow> headers \<Rightarrow> string \<Rightarrow> string \<Rightarrow> string \<Rightarrow> cache_state \<Rightarrow> response \<times> cache_state" where
  "finalize_cache_entry_upload X C h key size_text version s =
     (if \<not> check_bearer X h (cc_bearer C) then (respond 401 No_Body, s)
      else case twirp_finalize X C key size_text version s of
             (Inr (Some i), s) \<Rightarrow> (respond 200 (Finalize_Response True (Some i)), s)
           | (_, s) \<Rightarrow> (respond 200 (Finalize_Response False None), s))"

definition all_chunks_present :: "service_externs \<Rightarrow> manifest \<Rightarrow> cache_state \<Rightarrow> bool" where
  "all_chunks_present X m s = list_all (\<lambda>c. has_chunk (sx_cas X) (cr_id c) (ca_files s)) (mf_chunks m)"

text \<open>The entry a request resolves to, if its manifest can be read and all its chunks are there.\<close>

definition resolve_entry ::
  "service_externs \<Rightarrow> cache_config \<Rightarrow> string \<Rightarrow> string \<Rightarrow> string list \<Rightarrow> cache_state \<Rightarrow> (runner_error, (string \<times> manifest) option) result" where
  "resolve_entry X C version key restore_keys s =
     rbind (index_lookup (sx_index X) (cs_read_ladder (cc_scopes C)) version key restore_keys (ca_logs s)) (\<lambda>hit.
       Ok (case hit of
             None \<Rightarrow> None
           | Some (matched, e) \<Rightarrow>
               (case get_manifest (sx_cas X) (ie_manifest e) (ca_files s) of
                  Inl _ \<Rightarrow> None
                | Inr m \<Rightarrow> if all_chunks_present X m s then Some (matched, m) else None)))"

definition get_cache_entry_download_url ::
  "service_externs \<Rightarrow> cache_config \<Rightarrow> headers \<Rightarrow> string \<Rightarrow> string list \<Rightarrow> string \<Rightarrow> cache_state \<Rightarrow> response \<times> cache_state" where
  "get_cache_entry_download_url X C h key restore_keys version s =
     (if \<not> check_bearer X h (cc_bearer C) then (respond 401 No_Body, s)
      else case resolve_entry X C version key restore_keys s of
             Inr (Some (matched, m)) \<Rightarrow>
               (let (token, s) = registry_insert X (Download m) (cc_download_ttl C) s
                in (respond 200 (Download_Response True (Some (blob_url (host_from h) token)) (Some matched)), s))
           | _ \<Rightarrow> (respond 200 (Download_Response False None None), s))"

subsection \<open>The REST routes\<close>

definition v1_lookup :: "service_externs \<Rightarrow> cache_config \<Rightarrow> headers \<Rightarrow> string \<Rightarrow> string \<Rightarrow> cache_state \<Rightarrow> response \<times> cache_state" where
  "v1_lookup X C h keys version s =
     (if \<not> check_bearer X h (cc_bearer C) then (respond 401 No_Body, s)
      else case filter (\<lambda>k. k \<noteq> []) (map trim (split_char (CHR '','') keys)) of
             [] \<Rightarrow> (respond 204 No_Body, s)
           | primary # restore \<Rightarrow>
               (case resolve_entry X C version primary restore s of
                  Inr (Some (matched, m)) \<Rightarrow>
                    (let token = sx_token X (ca_minted s);
                         s = s\<lparr>ca_minted := Suc (ca_minted s), ca_downloads := index_insert token m (ca_downloads s)\<rparr>
                     in (respond 200 (V1_Hit matched (cs_write (cc_scopes C))
                           (''http://'' @ host_from h @ ''/_apis/artifactcache/download/'' @ token)), s))
                | _ \<Rightarrow> (respond 204 No_Body, s)))"

definition do_reserve :: "service_externs \<Rightarrow> cache_config \<Rightarrow> string \<Rightarrow> string \<Rightarrow> cache_state \<Rightarrow> (runner_error, nat) result \<times> cache_state" where
  "do_reserve X C key version s =
     (case stage_io X Create_Staging_Dir of
        Inl e \<Rightarrow> (Err e, s)
      | Inr _ \<Rightarrow>
          (let i = ca_next_id s;
               s = s\<lparr>ca_next_id := (i + 1) mod 2 ^ 64\<rparr>;
               staging = cc_staging_root C @ ''/'' @ show_nat i
           in case stage_io X (Create_Staged staging) of
                Inl e \<Rightarrow> (Err e, s)
              | Inr _ \<Rightarrow> (Ok i, (set_staged staging [] s)\<lparr>ca_reservations :=
                  index_insert i \<lparr>rv_key = key, rv_version = version, rv_staging = staging\<rparr> (ca_reservations s)\<rparr>)))"

definition v1_reserve :: "service_externs \<Rightarrow> cache_config \<Rightarrow> headers \<Rightarrow> string \<Rightarrow> string \<Rightarrow> cache_state \<Rightarrow> response \<times> cache_state" where
  "v1_reserve X C h key version s =
     (if \<not> check_bearer X h (cc_bearer C) then (respond 401 No_Body, s)
      else if \<not> write_allowed (cs_write (cc_scopes C)) (cc_trust C) (cc_protected C) then (respond 403 No_Body, s)
      else case do_reserve X C key version s of
             (Inr i, s) \<Rightarrow> (respond 200 (V1_Reserved i), s) | (Inl e, s) \<Rightarrow> (respond 500 (Error_Body e), s))"

definition content_range_start :: "headers \<Rightarrow> nat option" where
  "content_range_start h =
     Option.bind (h ''content-range'') (\<lambda>range. Option.bind (strip_prefix_str ''bytes '' range) (\<lambda>after.
       Option.bind (split_once_char (CHR ''-'') after) (\<lambda>(start, _). parse_u64 (trim start))))"

text \<open>A write at an offset: a gap is filled with zero bytes, what lies behind the data stays.\<close>

definition write_at :: "nat \<Rightarrow> bytes \<Rightarrow> bytes \<Rightarrow> bytes" where
  "write_at offset data old =
     (if data = [] then old
      else take offset (old @ replicate (offset - length old) (CHR 0x00)) @ data @ drop (offset + length data) old)"

definition v1_write_chunk :: "service_externs \<Rightarrow> nat \<Rightarrow> nat \<Rightarrow> bytes \<Rightarrow> cache_state \<Rightarrow> (runner_error, unit) result \<times> cache_state" where
  "v1_write_chunk X i offset data s =
     (case map_of (ca_reservations s) i of
        None \<Rightarrow> (Err (Cache_Error (''no reservation for cache id '' @ show_nat i)), s)
      | Some rv \<Rightarrow>
          (case stage_io X (Write_Staged (rv_staging rv)) of
             Inl e \<Rightarrow> (Err e, s)
           | Inr _ \<Rightarrow> (Ok (), set_staged (rv_staging rv) (write_at offset data
               (case map_of (cf_staging (ca_files s)) (rv_staging rv) of Some old \<Rightarrow> old | None \<Rightarrow> [])) s)))"

definition v1_upload_chunk :: "service_externs \<Rightarrow> cache_config \<Rightarrow> headers \<Rightarrow> nat \<Rightarrow> bytes \<Rightarrow> cache_state \<Rightarrow> response \<times> cache_state" where
  "v1_upload_chunk X C h i data s =
     (if \<not> check_bearer X h (cc_bearer C) then (respond 401 No_Body, s)
      else case content_range_start h of
             None \<Rightarrow> (respond 400 (V1_Ok False), s)
           | Some offset \<Rightarrow>
               (case v1_write_chunk X i offset data s of
                  (Inr _, s) \<Rightarrow> (respond 200 (V1_Ok True), s) | (Inl e, s) \<Rightarrow> (respond 500 (Error_Body e), s)))"

definition do_finalize :: "service_externs \<Rightarrow> cache_config \<Rightarrow> nat \<Rightarrow> nat \<Rightarrow> cache_state \<Rightarrow> (runner_error, bool) result \<times> cache_state" where
  "do_finalize X C i size_bytes s =
     (case map_of (ca_reservations s) i of
        None \<Rightarrow> (Ok False, s)
      | Some rv \<Rightarrow>
          (case ingest_and_index X C (rv_staging rv) (rv_key rv) (rv_version rv) size_bytes
                  (s\<lparr>ca_reservations := filter (\<lambda>kv. fst kv \<noteq> i) (ca_reservations s)\<rparr>) of
             (r, s) \<Rightarrow> (rbind r (\<lambda>mid. Ok (mid \<noteq> None)), s)))"

definition v1_finalize :: "service_externs \<Rightarrow> cache_config \<Rightarrow> headers \<Rightarrow> nat \<Rightarrow> nat \<Rightarrow> cache_state \<Rightarrow> response \<times> cache_state" where
  "v1_finalize X C h i size_bytes s =
     (if \<not> check_bearer X h (cc_bearer C) then (respond 401 No_Body, s)
      else if \<not> write_allowed (cs_write (cc_scopes C)) (cc_trust C) (cc_protected C) then (respond 403 No_Body, s)
      else case do_finalize X C i size_bytes s of
             (Inr True, s) \<Rightarrow> (respond 200 (V1_Ok True), s)
           | (Inr False, s) \<Rightarrow> (respond 400 (V1_Ok False), s)
           | (Inl e, s) \<Rightarrow> (respond 500 (Error_Body e), s))"

definition v1_download :: "service_externs \<Rightarrow> string \<Rightarrow> headers \<Rightarrow> cache_state \<Rightarrow> response \<times> cache_state" where
  "v1_download X token h s =
     (case map_of (ca_downloads s) token of None \<Rightarrow> (respond 404 No_Body, s) | Some m \<Rightarrow> stream_manifest X Error_Body m h s)"

subsection \<open>The router\<close>

datatype cache_request =
    Create_Entry headers string string
  | Finalize_Entry headers string string string
  | Download_Url headers string "string list" string
  | Put_Blob string "string option" "string option" headers bytes
  | Head_Blob string
  | Get_Blob string headers
  | V1_Lookup headers string string
  | V1_Reserve headers string string
  | V1_Upload headers nat bytes
  | V1_Finalize headers nat nat
  | V1_Download string headers

definition handle :: "service_externs \<Rightarrow> cache_config \<Rightarrow> cache_request \<Rightarrow> cache_state \<Rightarrow> response \<times> cache_state" where
  "handle X C req s =
     (case req of
        Create_Entry h key version \<Rightarrow> create_cache_entry X C h key version s
      | Finalize_Entry h key size_text version \<Rightarrow> finalize_cache_entry_upload X C h key size_text version s
      | Download_Url h key restore_keys version \<Rightarrow> get_cache_entry_download_url X C h key restore_keys version s
      | Put_Blob token operation blockid h content \<Rightarrow> put_dispatch X token operation blockid h content s
      | Head_Blob token \<Rightarrow> (blob_head X token s, s)
      | Get_Blob token h \<Rightarrow> blob_get X token h s
      | V1_Lookup h keys version \<Rightarrow> v1_lookup X C h keys version s
      | V1_Reserve h key version \<Rightarrow> v1_reserve X C h key version s
      | V1_Upload h i data \<Rightarrow> v1_upload_chunk X C h i data s
      | V1_Finalize h i size_bytes \<Rightarrow> v1_finalize X C h i size_bytes s
      | V1_Download token h \<Rightarrow> v1_download X token h s)"

text \<open>The states a service reaches from a fresh start, under externals that may differ at every request.\<close>

inductive served :: "cache_config \<Rightarrow> cache_state \<Rightarrow> cache_state \<Rightarrow> bool" for C s where
  served_start: "served C s s"
| served_step: "served C s t \<Longrightarrow> served C s (snd (handle X C req t))"

definition fresh_state :: "cas_files \<Rightarrow> logs \<Rightarrow> cache_state" where
  "fresh_state f logs = \<lparr>ca_files = f, ca_blocks = [], ca_logs = logs, ca_registry = [], ca_leases = Map.empty,
     ca_reservations = [], ca_downloads = [], ca_next_id = 1, ca_minted = 0\<rparr>"

subsection \<open>Which logs a job can write\<close>

definition pending_uploads :: "cache_state \<Rightarrow> string set" where
  "pending_uploads s = {tok. \<exists>staging scope key version e. (tok, Upload staging scope key version, e) \<in> set (ca_registry s)}"

text \<open>Requests that neither write a log nor register an upload.\<close>

definition quiet :: "cache_state \<Rightarrow> cache_state \<Rightarrow> bool" where
  "quiet s t \<longleftrightarrow> ca_logs t = ca_logs s \<and> pending_uploads t \<subseteq> pending_uploads s"

lemma quiet_refl [simp, intro]: "quiet s s" by (simp add: quiet_def)

lemma quiet_trans: "quiet s t \<Longrightarrow> quiet t u \<Longrightarrow> quiet s u" by (auto simp: quiet_def)

lemma set_index_insert: "set (index_insert k v m) \<subseteq> insert (k, v) (set m)"
  by (induction m) (auto split: if_splits)

lemma quiet_updates [simp]:
  "quiet s (t\<lparr>ca_files := f\<rparr>) = quiet s t" "quiet s (t\<lparr>ca_blocks := b\<rparr>) = quiet s t" "quiet s (t\<lparr>ca_leases := l\<rparr>) = quiet s t"
  "quiet s (t\<lparr>ca_reservations := r\<rparr>) = quiet s t" "quiet s (t\<lparr>ca_downloads := d\<rparr>) = quiet s t"
  "quiet s (t\<lparr>ca_next_id := n\<rparr>) = quiet s t" "quiet s (t\<lparr>ca_minted := k\<rparr>) = quiet s t"
  by (simp_all add: quiet_def pending_uploads_def)

lemma quiet_remove: "quiet s (s\<lparr>ca_registry := remove_key k (ca_registry s)\<rparr>)"
  by (auto simp: quiet_def pending_uploads_def remove_key_def)

lemma quiet_set_staged [simp]: "quiet s (set_staged staging content t) = quiet s t"
  by (simp add: set_staged_def)

lemma quiet_put: "quiet s (snd (put_dispatch X token operation blockid h content s))"
  by (auto simp: put_dispatch_def put_blob_or_reject_def put_whole_def store_block_def commit_block_list_def assemble_def Let_def
      split: option.splits blob_target.splits sum.splits prod.splits if_splits)

lemma quiet_stream: "quiet s (snd (stream_manifest X rejection m h s))"
  by (auto simp: stream_manifest_def leased_body_def Let_def split: sum.splits prod.splits)

lemma quiet_get: "quiet s (snd (blob_get X token h s))" "quiet s (snd (v1_download X token h s))"
  using quiet_stream by (auto simp: blob_get_def v1_download_def split: option.splits blob_target.splits)

lemma quiet_download_url: "quiet s (snd (get_cache_entry_download_url X C h key restore_keys version s))"
proof -
  have "quiet s (snd (registry_insert X (Download m) ttl s))" for m ttl
    using set_index_insert by (fastforce simp: registry_insert_def Let_def quiet_def pending_uploads_def split: option.splits)
  then show ?thesis
    by (auto simp: get_cache_entry_download_url_def Let_def case_prod_beta split: sum.splits option.splits)
qed

lemma quiet_v1: "quiet s (snd (v1_lookup X C h keys version s))" "quiet s (snd (v1_upload_chunk X C h i data s))"
  "quiet s (snd (v1_reserve X C h key version s))"
  by (auto simp: v1_lookup_def v1_upload_chunk_def v1_write_chunk_def v1_reserve_def do_reserve_def Let_def
      split: sum.splits option.splits list.splits if_splits prod.splits)

text \<open>The two requests that finish an upload write the log of the job's own scope, and no other.\<close>

definition own_writes :: "cache_config \<Rightarrow> cache_state \<Rightarrow> cache_state \<Rightarrow> bool" where
  "own_writes C s t \<longleftrightarrow> pending_uploads t \<subseteq> pending_uploads s
     \<and> (\<forall>scope v. scope \<noteq> cs_write (cc_scopes C) \<longrightarrow> map_of (ca_logs t) (scope, v) = map_of (ca_logs s) (scope, v))"

lemma ingest_own_writes: "own_writes C s (snd (ingest_and_index X C staging key version n s))"
  by (auto simp: ingest_and_index_def own_writes_def index_insert_entry_def pending_uploads_def Let_def
      split: prod.splits sum.splits option.splits if_splits)

lemma quiet_own_writes: "quiet s t \<Longrightarrow> own_writes C s t" by (simp add: quiet_def own_writes_def)

lemma own_writes_trans: "own_writes C s t \<Longrightarrow> own_writes C t u \<Longrightarrow> own_writes C s u" by (auto simp: own_writes_def)

lemma v1_finalize_writes:
  "own_writes C s (snd (v1_finalize X C h i n s))"
  "\<not> write_allowed (cs_write (cc_scopes C)) (cc_trust C) (cc_protected C) \<Longrightarrow> snd (v1_finalize X C h i n s) = s"
proof -
  have run: "own_writes C s (snd (do_finalize X C i n s))"
  proof (cases "map_of (ca_reservations s) i")
    case (Some rv)
    let ?s = "s\<lparr>ca_reservations := filter (\<lambda>kv. fst kv \<noteq> i) (ca_reservations s)\<rparr>"
    have "own_writes C s ?s" by (rule quiet_own_writes) simp
    from own_writes_trans [OF this ingest_own_writes] Some show ?thesis by (simp add: do_finalize_def case_prod_beta)
  qed (simp add: do_finalize_def own_writes_def)
  have "snd (v1_finalize X C h i n s) \<in> {s, snd (do_finalize X C i n s)}"
    unfolding v1_finalize_def by (simp split: prod.split sum.split bool.split)
  with run quiet_own_writes [OF quiet_refl] show "own_writes C s (snd (v1_finalize X C h i n s))" by auto
qed (simp add: v1_finalize_def)

lemma twirp_finalize_writes:
  "own_writes C s (snd (finalize_cache_entry_upload X C h key size_text version s))"
  "pending_uploads s = {} \<Longrightarrow> ca_logs (snd (finalize_cache_entry_upload X C h key size_text version s)) = ca_logs s"
proof -
  obtain r s1 where t: "take_pending_upload X (cs_write (cc_scopes C)) key version s = (r, s1)" by force
  have s1: "own_writes C s s1" "ca_logs s1 = ca_logs s"
    using t quiet_remove [of s] by (auto simp: take_pending_upload_def quiet_def own_writes_def split: option.splits prod.splits)
  have run: "own_writes C s (snd (twirp_finalize X C key size_text version s))"
  proof (cases r)
    case (Some p)
    obtain tok staging where p: "p = (tok, staging)" by force
    show ?thesis using own_writes_trans [OF s1(1) ingest_own_writes] quiet_own_writes [OF quiet_refl]
      by (simp add: twirp_finalize_def t Some p case_prod_beta split: option.split)
  qed (use s1 in \<open>auto simp: twirp_finalize_def t own_writes_def split: option.splits\<close>)
  have final: "snd (finalize_cache_entry_upload X C h key size_text version s) \<in> {s, snd (twirp_finalize X C key size_text version s)}"
    by (auto simp: finalize_cache_entry_upload_def split: prod.splits sum.splits option.splits)
  with run quiet_own_writes [OF quiet_refl] show "own_writes C s (snd (finalize_cache_entry_upload X C h key size_text version s))" by auto
  assume none: "pending_uploads s = {}"
  have "r = None"
  proof (rule ccontr)
    assume "r \<noteq> None"
    with t obtain tok target e where "(tok, target, e) \<in> set (ca_registry s)" "\<exists>a b c d. target = Upload a b c d"
      by (auto simp: take_pending_upload_def find_Some_iff split: option.splits blob_target.splits)
         (metis nth_mem)+
    with none show False by (auto simp: pending_uploads_def)
  qed
  with t s1(2) have "ca_logs (snd (twirp_finalize X C key size_text version s)) = ca_logs s"
    by (auto simp: twirp_finalize_def split: option.splits)
  with final show "ca_logs (snd (finalize_cache_entry_upload X C h key size_text version s)) = ca_logs s" by auto
qed


text \<open>
  C8. The cache cannot be poisoned across scopes: whatever requests a job makes, in any order and under any
  failures, it changes only the log of its own scope, and when that scope is protected and the job is not
  trusted it changes no log at all.
\<close>

theorem cache_writes_stay_in_scope:
  assumes "served C (fresh_state f logs) t" "scope \<noteq> cs_write (cc_scopes C) \<or> is_protected scope (cc_protected C) \<and> cc_trust C = Untrusted"
  shows "map_of (ca_logs t) (scope, v) = map_of logs (scope, v)"
proof -
  let ?allowed = "write_allowed (cs_write (cc_scopes C)) (cc_trust C) (cc_protected C)"
  let ?inv = "\<lambda>t. (\<forall>scope v. scope \<noteq> cs_write (cc_scopes C) \<longrightarrow> map_of (ca_logs t) (scope, v) = map_of logs (scope, v))
     \<and> (\<not> ?allowed \<longrightarrow> ca_logs t = logs \<and> pending_uploads t = {})"
  have "?inv t" using assms(1)
  proof induction
    case served_start
    then show ?case by (simp add: fresh_state_def pending_uploads_def)
  next
    case (served_step t X req)
    let ?t = "snd (handle X C req t)"
    have "own_writes C t ?t \<and> (\<not> ?allowed \<longrightarrow> ca_logs ?t = ca_logs t) \<or> (\<exists>h k v. req = Create_Entry h k v)"
      using served_step.IH quiet_put quiet_get quiet_download_url quiet_v1 v1_finalize_writes twirp_finalize_writes
      by (cases req) (auto simp: handle_def quiet_def own_writes_def)
    then show ?case
    proof
      assume "own_writes C t ?t \<and> (\<not> ?allowed \<longrightarrow> ca_logs ?t = ca_logs t)"
      with served_step.IH show ?thesis by (auto simp: own_writes_def)
    next
      assume "\<exists>h k v. req = Create_Entry h k v"
      then obtain h k v where req: "req = Create_Entry h k v" by blast
      have "ca_logs ?t = ca_logs t" "\<not> ?allowed \<Longrightarrow> ?t = t"
        by (auto simp: req handle_def create_cache_entry_def registry_insert_def Let_def split: sum.splits bool.splits option.splits)
      with served_step.IH show ?thesis by simp
    qed
  qed
  with assms(2) show ?thesis by (cases "scope = cs_write (cc_scopes C)") (simp_all add: write_allowed_def)
qed

subsection \<open>What a download sends\<close>

lemma parse_range_bounds:
  assumes "parse_range h tot = Ok (Some (start, e))" "0 < tot"
  shows "start \<le> e \<and> e < tot"
proof -
  from assms(1) obtain last_byte where e: "start \<le> e" "e = last_byte" "last_byte \<le> tot - 1"
    by (auto simp: parse_range_def rbind_eq_Ok split: option.splits if_splits prod.splits)
  with assms(2) show ?thesis by linarith
qed

text \<open>
  A download sends what its headers promise: for an archive that is not empty, a response that completes
  carries exactly the bytes its \<open>Content-Range\<close> names (the whole archive without one), as many as its
  \<open>Content-Length\<close> says, all of them bytes of the saved archive.
\<close>

theorem download_sends_what_it_promises:
  assumes "ingest X st staged f = (Ok m, f')" "map_of (cf_staging f) staged = Some archive"
    and "concat (map projr (cx_cdc X (cdc_sizes (st_chunk_avg_bytes st)) archive)) = archive" "length archive \<le> U64_MAX"
    and "no_collision X (map projr (cx_cdc X (cdc_sizes (st_chunk_avg_bytes st)) archive))" "cx_hash (sx_cas Y) = cx_hash X"
    and "archive \<noteq> []" "stream_manifest Y rejection m h s = (resp, s')" "hr_status resp \<noteq> 416" "hr_body resp = Stream_Body sent None"
  shows "\<exists>offset len. sent = take len (drop offset archive) \<and> length sent = len \<and> hr_length resp = Some len
    \<and> (case hr_range resp of
         None \<Rightarrow> hr_status resp = 200 \<and> sent = archive
       | Some cr \<Rightarrow> hr_status resp = 206 \<and> 0 < len
           \<and> cr = ''bytes '' @ show_nat offset @ ''-'' @ show_nat (offset + len - 1) @ ''/'' @ show_nat (length archive))"
proof -
  obtain status offset len cr where plan: "plan_range h (mf_total_size m) = Ok (status, offset, len, cr)"
    using assms(8,9) by (cases "plan_range h (mf_total_size m)") (auto simp: stream_manifest_def respond_def)
  obtain bs e fs where run: "read_range (sx_cas Y) (sx_between Y) m offset len (cf_blobs (ca_files s)) = ((bs, e), fs)"
    by (metis prod.exhaust)
  have resp: "resp = \<lparr>hr_status = status, hr_length = Some len, hr_range = cr, hr_body = Stream_Body bs e\<rparr>"
    using assms(8) plan run by (auto simp: stream_manifest_def leased_body_def Let_def)
  then have "bs = sent" "e = None" using assms(10) by auto
  with restored_range_is_exact [OF assms(1-6) run] have sent: "sent = take len (drop offset archive)" and size: "mf_total_size m = length archive" by auto
  have pos: "0 < length archive" using assms(7) by simp
  obtain parsed where parsed: "parse_range h (length archive) = Ok parsed"
    using plan by (auto simp: plan_range_def size rbind_eq_Ok)
  show ?thesis
  proof (cases parsed)
    case None
    with plan parsed have "status = 200" "offset = 0" "len = length archive" "cr = None" by (auto simp: plan_range_def size)
    with sent resp show ?thesis by - (rule exI [of _ 0], rule exI [of _ "length archive"], simp)
  next
    case (Some r)
    obtain a e where r: "r = (a, e)" by force
    have window: "status = 206" "offset = a" "len = e - a + 1" "cr = Some (''bytes '' @ show_nat a @ ''-'' @ show_nat e @ ''/'' @ show_nat (length archive))"
      using plan parsed Some r by (auto simp: plan_range_def size split: if_splits)
    moreover have "a \<le> e \<and> e < length archive" using parse_range_bounds [OF _ pos, of h a e] parsed Some r by simp
    moreover from this window have "len \<le> length archive - offset" by auto
    ultimately show ?thesis using window sent resp by - (rule exI [of _ offset], rule exI [of _ len], simp add: min_absorb2)
  qed
qed

text \<open>
  An empty archive is the exception: every range that starts at 0 is accepted with one byte, and no byte is sent.
\<close>

lemma empty_archive_range_promises_a_byte:
  assumes "parse_u64 (trim end_str) \<noteq> None \<or> trim end_str = []" "CHR '','' \<notin> set end_str"
  shows "\<exists>s'. stream_manifest X rejection \<lparr>mf_chunks = [], mf_total_size = 0\<rparr> (\<lambda>k. if k = ''range'' then Some (''bytes=0-'' @ end_str) else None) s
    = (\<lparr>hr_status = 206, hr_length = Some 1, hr_range = Some ''bytes 0-0/0'', hr_body = Stream_Body [] None\<rparr>, s')"
proof -
  let ?h = "\<lambda>k. if k = ''range'' then Some (''bytes=0-'' @ end_str) else None :: string option"
  have "trim ''0'' = ''0''" by code_simp
  then have zero: "parse_u64 (trim ''0'') = Some 0" by (simp add: parse_u64_def parse_digits_def is_ascii_digit_def)
  have "split_once_char (CHR ''-'') (''0-'' @ end_str) = Some (''0'', end_str)" by (simp add: split_once_char_Some)
  then have "parse_range ?h 0 = Ok (Some (0, 0))"
    using assms by (auto simp: parse_range_def strip_prefix_str_def zero split: option.splits)
  moreover have "show_nat 0 = ''0''" by code_simp
  ultimately have "plan_range ?h 0 = Ok (206, 0, 1, Some ''bytes 0-0/0'')" by (simp add: plan_range_def)
  then show ?thesis by (simp add: stream_manifest_def leased_body_def read_range_def build_plan_def locate_def Let_def)
qed


subsection \<open>Saving and finding an archive\<close>

lemma newest_snoc:
  "newest (es @ [e]) = (case newest es of None \<Rightarrow> Some e | Some b \<Rightarrow> if ie_created_at b \<le> ie_created_at e then Some e else Some b)"
  by (simp add: newest_def)

lemma newest_in: "newest es = Some b \<Longrightarrow> b \<in> set es"
  by (induction es arbitrary: b rule: rev_induct) (auto simp: newest_snoc newest_def split: option.splits if_splits)

lemma newest_latest: "\<forall>b \<in> set es. ie_created_at b \<le> ie_created_at e \<Longrightarrow> newest (es @ [e]) = Some e"
  using newest_in [of es] by (auto simp: newest_snoc split: option.splits)

lemma write_atomic_present: "write_atomic X kind i content fs = (Ok b, fs') \<Longrightarrow> map_of fs' i \<noteq> None \<and> (\<forall>j. map_of fs j \<noteq> None \<longrightarrow> map_of fs' j \<noteq> None)"
  by (auto simp: write_atomic_def map_add_def map_of_append split: if_splits sum.splits option.splits)

lemma store_chunks_present:
  assumes "store_chunks X items chunks tot fs = (Ok m, fs')" "\<forall>c \<in> set chunks. map_of fs (cr_id c) \<noteq> None"
  shows "\<forall>c \<in> set (mf_chunks m). map_of fs' (cr_id c) \<noteq> None"
  using assms
proof (induction items arbitrary: chunks tot fs)
  case (Cons item items)
  then obtain data where item: "item = Inr data" by (cases item) auto
  from store_chunks_step [OF Cons.prems(1) [unfolded item]] obtain b fs1 where
    w: "write_atomic X Chunk_Kind (cx_hash X data) data fs = (Ok b, fs1)"
    and run: "store_chunks X items (chunks @ [ref_of X data]) (u64_add tot (length data)) fs1 = (Ok m, fs')" by blast
  show ?case by (rule Cons.IH [OF run]) (use write_atomic_present [OF w] Cons.prems(2) in auto)
qed auto

lemma mirror_blobs [simp]: "cf_blobs (mirror_chunks_to_l2 X m f) = cf_blobs f" "cf_manifests (mirror_chunks_to_l2 X m f) = cf_manifests f"
proof -
  have "cf_blobs (mirror_chunks X l2 cs f) = cf_blobs f \<and> cf_manifests (mirror_chunks X l2 cs f) = cf_manifests f" for l2 cs f
    by (induction cs arbitrary: f) (auto simp: put_blob_def split: sum.splits option.splits)
  then show "cf_blobs (mirror_chunks_to_l2 X m f) = cf_blobs f" "cf_manifests (mirror_chunks_to_l2 X m f) = cf_manifests f"
    by (simp_all add: mirror_chunks_to_l2_def split: option.splits)
qed

lemma ingest_present:
  assumes "ingest X st staged f = (Ok m, f')"
  shows "\<forall>c \<in> set (mf_chunks m). map_of (cf_blobs f') (cr_id c) \<noteq> None"
proof -
  from assms obtain items blobs where "store_chunks X items [] 0 (cf_blobs f) = (Ok m, blobs)" "cf_blobs f' = blobs"
    by (auto simp: ingest_def chunk_and_store_def split: option.splits prod.splits sum.splits)
  with store_chunks_present show ?thesis by fastforce
qed

text \<open>What saving relies on: no operation fails, a manifest reads back, and no stored manifest is torn.\<close>

definition sound_manifests :: "cas_externs \<Rightarrow> bytes files \<Rightarrow> bool" where
  "sound_manifests X ms \<longleftrightarrow> (\<forall>op. cx_fails X op = None) \<and> (\<forall>i b. map_of ms i = Some b \<longrightarrow> cx_hash X b = i)
     \<and> (\<forall>m. cx_manifest_parse X (cx_manifest_json X m) = Ok m \<and> (\<forall>b. cx_hash X b = cx_hash X (cx_manifest_json X m) \<longrightarrow> b = cx_manifest_json X m))"

lemma put_manifest_found:
  assumes "put_manifest X m f = (Ok mid, f')" "sound_manifests X (cf_manifests f)"
  shows "get_manifest X mid f' = Ok m \<and> cf_blobs f' = cf_blobs f"
proof -
  let ?json = "cx_manifest_json X m"
  obtain r ms where w: "write_atomic X Manifest_Kind (cx_hash X ?json) ?json (cf_manifests f) = (r, ms)" by force
  have fails: "cx_fails X op = None" for op using assms(2) by (simp add: sound_manifests_def)
  have f': "mid = cx_hash X ?json" "cf_manifests f' = ms" "cf_blobs f' = cf_blobs f"
    using assms(1) w by (cases r; auto simp: put_manifest_def Let_def fails put_blob_def split: option.splits)+
  have "map_of ms (cx_hash X ?json) = Some ?json"
  proof (cases "map_of (cf_manifests f) (cx_hash X ?json)")
    case None
    with w show ?thesis by (auto simp: write_atomic_def io_def fails map_of_append map_add_def)
  next
    case (Some b)
    with assms(2) have "b = ?json" unfolding sound_manifests_def by blast
    with Some w show ?thesis by (auto simp: write_atomic_def)
  qed
  moreover have "cx_manifest_parse X ?json = Ok m" using assms(2) by (simp add: sound_manifests_def)
  ultimately show ?thesis
    using f' by (simp add: get_manifest_def read_verified_def read_file_def io_def fails verify_bytes_def)
qed



subsection \<open>A concrete service\<close>

text \<open>The store in memory of \<open>Cache_Store\<close> with a readable text for manifests.\<close>

definition manifest_text :: "manifest \<Rightarrow> bytes" where
  "manifest_text m = concat (map (\<lambda>c. letters (cr_id c) @ '':'' @ show_nat (cr_len c) @ '','') (mf_chunks m)) @ show_nat (mf_total_size m)"

definition text_manifest :: "bytes \<Rightarrow> (string, manifest) result" where
  "text_manifest b =
     (let parts = split_char (CHR '','') b;
          refs = map (\<lambda>p. case split_once_char (CHR '':'') p of
                    Some (i, n) \<Rightarrow> \<lparr>cr_id = unletters i, cr_len = digits_val 0 n\<rparr> | None \<Rightarrow> \<lparr>cr_id = [], cr_len = 0\<rparr>) (butlast parts)
      in Ok \<lparr>mf_chunks = refs, mf_total_size = digits_val 0 (last parts)\<rparr>)"

lemma letters_no: "ord c < 65 \<Longrightarrow> c \<notin> set (letters s)"
  using letters_range [of c s] by auto

lemma show_nat_no: "\<not> is_ascii_digit c \<Longrightarrow> c \<notin> set (show_nat n)"
  using show_nat_digits by blast

lemma split_manifest_text:
  "split_char (CHR '','') (concat (map (\<lambda>c. letters (cr_id c) @ '':'' @ show_nat (cr_len c) @ '','') cs) @ show_nat n)
     = map (\<lambda>c. letters (cr_id c) @ '':'' @ show_nat (cr_len c)) cs @ [show_nat n]"
proof (induction cs)
  case Nil
  have "split_char c a = [a]" if "c \<notin> set a" for c a using that by (induction a) auto
  then show ?case by (simp add: show_nat_no is_ascii_digit_def)
next
  case (Cons c cs)
  have "split_char x (a @ x # b) = a # split_char x b" if "x \<notin> set a" for x a b using that by (induction a) auto
  from this [of "CHR '',''" "letters (cr_id c) @ '':'' @ show_nat (cr_len c)"] Cons show ?case
    by (simp add: letters_no show_nat_no is_ascii_digit_def)
qed

lemma text_manifest_text: "text_manifest (manifest_text m) = Ok m"
proof -
  have "split_once_char (CHR '':'') (letters i @ CHR '':'' # show_nat n) = Some (letters i, show_nat n)" for i n
    by (simp add: split_once_char_Some letters_no)
  then have "map ((\<lambda>p. case split_once_char (CHR '':'') p of Some (i, n) \<Rightarrow> \<lparr>cr_id = unletters i, cr_len = digits_val 0 n\<rparr>
      | None \<Rightarrow> \<lparr>cr_id = [], cr_len = 0\<rparr>) \<circ> (\<lambda>c. letters (cr_id c) @ '':'' @ show_nat (cr_len c))) cs = cs" for cs
    by (induction cs) (simp_all add: unletters_letters)
  then show ?thesis unfolding text_manifest_def manifest_text_def split_manifest_text Let_def by simp
qed

definition plain_service :: service_externs where
  "plain_service = \<lparr>sx_cas = plain_cas\<lparr>cx_manifest_json := manifest_text, cx_manifest_parse := text_manifest\<rparr>, sx_index = plain_index,
     sx_token = (\<lambda>n. ''t'' @ show_nat n), sx_uuid = (\<lambda>n. ''u'' @ show_nat n), sx_utc_now = 5, sx_instant = 0,
     sx_instant_add = (\<lambda>a b. Some (a + b)), sx_error_text = (\<lambda>_. ''error''), sx_sha256 = (\<lambda>t. t), sx_xml = (\<lambda>_. []),
     sx_staging_fails = (\<lambda>_. None), sx_between = (\<lambda>_ fs. fs)\<rparr>"

definition plain_cache :: cache_config where
  "plain_cache = \<lparr>cc_store = new_store 4 9, cc_scopes = scopes_for_job (Some ''main'') None [''main''], cc_trust = Untrusted,
     cc_protected = [''main''], cc_bearer = ''b'', cc_staging_root = ''s'', cc_upload_ttl = 9, cc_download_ttl = 9\<rparr>"

theorem cache_writes_stay_in_scope_witness:
  "let t = snd (handle plain_service plain_cache (Finalize_Entry (\<lambda>k. Some ''Bearer b'') ''k'' ''7'' ''v'') (fresh_state plain_files []))
   in served plain_cache (fresh_state plain_files []) t \<and> map_of (ca_logs t) (''main'', ''v'') = None"
proof -
  let ?t = "snd (handle plain_service plain_cache (Finalize_Entry (\<lambda>k. Some ''Bearer b'') ''k'' ''7'' ''v'') (fresh_state plain_files []))"
  have run: "served plain_cache (fresh_state plain_files []) ?t" by (rule served_step [OF served_start])
  have "''main'' \<noteq> cs_write (cc_scopes plain_cache) \<or> is_protected ''main'' (cc_protected plain_cache) \<and> cc_trust plain_cache = Untrusted"
    by (simp add: plain_cache_def is_protected_def)
  from cache_writes_stay_in_scope [OF run this, of "''v''"] run show ?thesis by (simp add: Let_def)
qed

lemma plain_ingest:
  "ingest (sx_cas plain_service) (new_store 4 9) ''s'' plain_files
     = (Ok (manifest_of plain_cas [''abc'', ''defg'']), plain_files\<lparr>cf_blobs := [(''abc'', ''abc''), (''defg'', ''defg'')]\<rparr>)"
  by (simp add: ingest_def chunk_and_store_def io_def plain_service_def plain_cas_def plain_files_def new_store_def cdc_sizes_def write_atomic_def
      mirror_chunks_to_l2_def manifest_of_def ref_of_def u64_add_def Let_def)


theorem download_sends_what_it_promises_witness:
  "\<exists>m f resp s. ingest (sx_cas plain_service) (new_store 4 9) ''s'' plain_files = (Ok m, f)
     \<and> stream_manifest plain_service Error_Body m (\<lambda>k. None) (fresh_state f []) = (resp, s) \<and> hr_status resp = 200
     \<and> hr_body resp = Stream_Body ''abcdefg'' None \<and> hr_length resp = Some 7"
proof -
  let ?m = "manifest_of plain_cas [''abc'', ''defg'']" and ?f = "plain_files\<lparr>cf_blobs := [(''abc'', ''abc''), (''defg'', ''defg'')]\<rparr>"
  let ?r = "\<lparr>hr_status = 200, hr_length = Some 7, hr_range = None, hr_body = Stream_Body ''abcdefg'' None\<rparr>"
  obtain s where run: "stream_manifest plain_service Error_Body ?m (\<lambda>k. None) (fresh_state ?f []) = (?r, s)"
    by (simp add: stream_manifest_def plan_range_def parse_range_def leased_body_def read_range_def build_plan_def locate_def manifest_of_def ref_of_def
        u64_add_def Let_def fresh_state_def read_slice_def read_chunk_or_restore_def read_file_def io_def verify_bytes_def slice_of_def
        plain_service_def plain_cas_def plain_files_def)
  have "length ''abcdefg'' = 7"
    using download_sends_what_it_promises [OF plain_ingest, of "''abcdefg''" plain_service Error_Body "\<lambda>k. None" "fresh_state ?f []" ?r s "''abcdefg''"] run
    by (simp add: plain_files_def plain_service_def plain_cas_def no_collision_def)
  with plain_ingest run show ?thesis by auto
qed


end
