(* ===== verification/Daemon.thy ===== *)
theory Daemon
  imports Command_Parser "HOL-Library.Multiset"
begin

text \<open>
  The host daemon that runs one container per job (\<open>crates/daemon/src/\<close>): the resource gate (\<open>gate.rs\<close>),
  the registry of creates in flight and reap tombstones (\<open>docker/registry.rs\<close>), the reaper and scheduler
  (\<open>reaper.rs\<close>), adoption after a restart (\<open>adopt.rs\<close>), the container description (\<open>docker/spec.rs\<close>,
  \<open>docker/inventory.rs\<close>), the orchestration (\<open>docker.rs\<close>) and the three routes (\<open>routes/handlers.rs\<close>).

  The maps are lists of key and value. Docker is not part of the state: what it answers to a listing, a
  create, a start and a removal is an argument of the operation. Every critical section of the source,
  the stretch during which it holds its locks, is one operation on the state, and \<open>daemon_step\<close> lets them
  happen in any order.
\<close>

subsection \<open>The resource gate\<close>

abbreviation u32_top :: nat where "u32_top \<equiv> 2 ^ 32 - 1"

record job_size =
  vcpu :: nat
  memory_mb :: nat

definition size_zero :: job_size where "size_zero = \<lparr>vcpu = 0, memory_mb = 0\<rparr>"

definition size_add :: "job_size \<Rightarrow> job_size \<Rightarrow> job_size" where
  "size_add a b = \<lparr>vcpu = min (vcpu a + vcpu b) u32_top, memory_mb = min (memory_mb a + memory_mb b) u32_top\<rparr>"

definition size_sub :: "job_size \<Rightarrow> job_size \<Rightarrow> job_size" where
  "size_sub a b = \<lparr>vcpu = vcpu a - vcpu b, memory_mb = memory_mb a - memory_mb b\<rparr>"

definition fits_within :: "job_size \<Rightarrow> job_size \<Rightarrow> bool" where
  "fits_within a budget \<longleftrightarrow> vcpu a \<le> vcpu budget \<and> memory_mb a \<le> memory_mb budget"

datatype admit_error = Exceeds_Budget | Queue_Full | Duplicate_Job_Id

datatype start_outcome = Started | Deferred

record gate_entry =
  ge_size :: job_size
  ge_running :: bool

record gate =
  gt_budget :: job_size
  gt_queue_max :: nat
  gt_jobs :: "(string \<times> gate_entry) list"

record consumption =
  vcpu_used :: nat
  memory_mb_used :: nat
  queue_depth :: nat

definition new_gate :: "job_size \<Rightarrow> nat \<Rightarrow> gate" where
  "new_gate budget queue_max = \<lparr>gt_budget = budget, gt_queue_max = queue_max, gt_jobs = []\<rparr>"

definition drop_key :: "string \<Rightarrow> (string \<times> 'v) list \<Rightarrow> (string \<times> 'v) list" where
  "drop_key k m = filter (\<lambda>kv. fst kv \<noteq> k) m"

definition gate_used :: "gate \<Rightarrow> job_size" where
  "gate_used g = fold (\<lambda>kv acc. size_add acc (ge_size (snd kv))) (filter (\<lambda>kv. ge_running (snd kv)) (gt_jobs g)) size_zero"

definition admit :: "string \<Rightarrow> job_size \<Rightarrow> gate \<Rightarrow> (admit_error, unit) result \<times> gate" where
  "admit job sz g =
     (if map_of (gt_jobs g) job \<noteq> None then (Err Duplicate_Job_Id, g)
      else if \<not> fits_within sz (gt_budget g) then (Err Exceeds_Budget, g)
      else if gt_queue_max g \<le> min (length (gt_jobs g)) u32_top then (Err Queue_Full, g)
      else (Ok (), g\<lparr>gt_jobs := index_insert job \<lparr>ge_size = sz, ge_running = False\<rparr> (gt_jobs g)\<rparr>))"

definition adopt_running :: "string \<Rightarrow> job_size \<Rightarrow> gate \<Rightarrow> (admit_error, unit) result \<times> gate" where
  "adopt_running job sz g =
     (if map_of (gt_jobs g) job \<noteq> None then (Err Duplicate_Job_Id, g)
      else (Ok (), g\<lparr>gt_jobs := index_insert job \<lparr>ge_size = sz, ge_running = True\<rparr> (gt_jobs g)\<rparr>))"

definition try_start :: "string \<Rightarrow> gate \<Rightarrow> start_outcome option \<times> gate" where
  "try_start job g =
     (case map_of (gt_jobs g) job of
        None \<Rightarrow> (None, g)
      | Some e \<Rightarrow>
          if ge_running e then (Some Started, g)
          else if \<not> fits_within (ge_size e) (size_sub (gt_budget g) (gate_used g)) then (Some Deferred, g)
          else (Some Started, g\<lparr>gt_jobs := index_insert job (e\<lparr>ge_running := True\<rparr>) (gt_jobs g)\<rparr>))"

definition unstart :: "string \<Rightarrow> gate \<Rightarrow> bool \<times> gate" where
  "unstart job g =
     (case map_of (gt_jobs g) job of
        Some e \<Rightarrow> (True, g\<lparr>gt_jobs := index_insert job (e\<lparr>ge_running := False\<rparr>) (gt_jobs g)\<rparr>) | None \<Rightarrow> (False, g))"

definition tracks :: "gate \<Rightarrow> string \<Rightarrow> bool" where
  "tracks g job \<longleftrightarrow> map_of (gt_jobs g) job \<noteq> None"

definition gate_release :: "string \<Rightarrow> gate \<Rightarrow> job_size option \<times> gate" where
  "gate_release job g = (map_option ge_size (map_of (gt_jobs g) job), g\<lparr>gt_jobs := drop_key job (gt_jobs g)\<rparr>)"

definition running_job_ids :: "gate \<Rightarrow> string list" where
  "running_job_ids g = map fst (filter (\<lambda>kv. ge_running (snd kv)) (gt_jobs g))"

definition gate_consumption :: "gate \<Rightarrow> consumption" where
  "gate_consumption g = \<lparr>vcpu_used = vcpu (gate_used g), memory_mb_used = memory_mb (gate_used g),
     queue_depth = min (length (gt_jobs g)) u32_top\<rparr>"

subsection \<open>Creates in flight\<close>

datatype job_state = Creating | Created string | Reaped int

datatype begin_outcome = Proceed | Already_Reaped | Already_Tracked

datatype finish_outcome = Keep | Discard_Reaped

type_synonym job_registry = "(string \<times> job_state) list"

definition TOMBSTONE_TTL :: int where "TOMBSTONE_TTL = 600"

definition prune :: "int \<Rightarrow> job_registry \<Rightarrow> job_registry" where
  "prune now reg = filter (\<lambda>(job, st). case st of Reaped t0 \<Rightarrow> max 0 (now - t0) < TOMBSTONE_TTL | _ \<Rightarrow> True) reg"

definition begin_create :: "string \<Rightarrow> int \<Rightarrow> job_registry \<Rightarrow> begin_outcome \<times> job_registry" where
  "begin_create job now reg =
     (let reg = prune now reg
      in case map_of reg job of
           Some (Reaped _) \<Rightarrow> (Already_Reaped, reg)
         | Some _ \<Rightarrow> (Already_Tracked, reg)
         | None \<Rightarrow> (Proceed, index_insert job Creating reg))"

definition finish_create :: "string \<Rightarrow> string \<Rightarrow> int \<Rightarrow> job_registry \<Rightarrow> finish_outcome \<times> job_registry" where
  "finish_create job container now reg =
     (case map_of reg job of
        Some (Reaped _) \<Rightarrow> (Discard_Reaped, index_insert job (Reaped now) reg)
      | _ \<Rightarrow> (Keep, index_insert job (Created container) reg))"

definition abandon_create :: "string \<Rightarrow> job_registry \<Rightarrow> job_registry" where
  "abandon_create job reg =
     (case map_of reg job of Some Creating \<Rightarrow> drop_key job reg | Some (Created _) \<Rightarrow> drop_key job reg | _ \<Rightarrow> reg)"

definition registry_reap :: "string \<Rightarrow> int \<Rightarrow> job_registry \<Rightarrow> string option \<times> job_registry" where
  "registry_reap job now reg =
     (let reg = prune now reg
      in (case map_of reg job of Some (Created container) \<Rightarrow> Some container | _ \<Rightarrow> None, index_insert job (Reaped now) reg))"

definition registry_forget :: "string \<Rightarrow> job_registry \<Rightarrow> job_registry" where
  "registry_forget job reg = drop_key job reg"

subsection \<open>The daemon's state\<close>

record daemon =
  dn_gate :: gate
  dn_registry :: job_registry
  dn_queue :: "string list"
  dn_created :: "(string \<times> string) list"

definition queue_remove :: "string \<Rightarrow> string list \<Rightarrow> string list" where
  "queue_remove job q = filter (\<lambda>queued. queued \<noteq> job) q"

definition release_job :: "string \<Rightarrow> daemon \<Rightarrow> job_size option \<times> daemon" where
  "release_job job d =
     (case gate_release job (dn_gate d) of
        (released, g) \<Rightarrow> (released, d\<lparr>dn_gate := g, dn_registry := registry_forget job (dn_registry d),
          dn_created := drop_key job (dn_created d), dn_queue := queue_remove job (dn_queue d)\<rparr>))"

subsection \<open>The reaper and scheduler\<close>

record container_snapshot =
  cn_job_id :: string
  cn_container_id :: string
  cn_deadline_ms :: int
  cn_running :: bool

record start_request =
  sq_job_id :: string
  sq_container_id :: string

record tick_outcome =
  tk_remove :: "string list"
  tk_start :: "start_request list"

fun promote :: "string list \<Rightarrow> daemon \<Rightarrow> string list \<times> daemon" where
  "promote [] d = ([], d)"
| "promote (job # pending) d =
     (case try_start job (dn_gate d) of
        (Some Started, g) \<Rightarrow>
          (case promote pending (d\<lparr>dn_gate := g, dn_queue := queue_remove job (dn_queue d)\<rparr>) of (started, d') \<Rightarrow> (job # started, d'))
      | (_, g) \<Rightarrow> promote pending (d\<lparr>dn_gate := g\<rparr>))"

fun reap_snapshot :: "container_snapshot list \<Rightarrow> string list \<Rightarrow> int \<Rightarrow> daemon \<Rightarrow> string list \<times> daemon" where
  "reap_snapshot [] before now d = ([], d)"
| "reap_snapshot (c # cs) before now d =
     (if cn_deadline_ms c \<le> now \<or> \<not> cn_running c \<and> cn_job_id c \<in> set before
      then (case reap_snapshot cs before now (snd (release_job (cn_job_id c) d)) of (r, d') \<Rightarrow> (cn_container_id c # r, d'))
      else reap_snapshot cs before now d)"

definition reconcile :: "container_snapshot list \<Rightarrow> int \<Rightarrow> daemon \<Rightarrow> tick_outcome \<times> daemon" where
  "reconcile snapshot now d =
     (let before = running_job_ids (dn_gate d);
          (remove, d) = reap_snapshot snapshot before now d;
          d = fold (\<lambda>job d. if job \<in> set (map cn_job_id snapshot) then d else snd (release_job job d)) before d;
          (promoted, d) = promote (dn_queue d) d
      in (\<lparr>tk_remove = remove, tk_start = List.map_filter (\<lambda>job. map_option (\<lambda>c. \<lparr>sq_job_id = job, sq_container_id = c\<rparr>)
              (map_of (dn_created d) job)) promoted\<rparr>, d))"

subsection \<open>Adoption after a restart\<close>

datatype container_lifecycle = Life_Created | Life_Running | Life_Finished

record adopted_container =
  ad_job_id :: string
  ad_container_id :: string
  ad_deadline_ms :: int
  ad_size :: job_size
  ad_lifecycle :: container_lifecycle

datatype adoption_action = Resume | Requeue | Remove

record armed_job =
  aj_job_id :: string
  aj_container_id :: string
  aj_deadline_ms :: int

record adoption =
  an_resumed :: "armed_job list"
  an_requeued :: "armed_job list"
  an_remove :: "string list"

definition action_for :: "adopted_container \<Rightarrow> int \<Rightarrow> adoption_action" where
  "action_for c now =
     (if ad_deadline_ms c \<le> now then Remove
      else case ad_lifecycle c of Life_Running \<Rightarrow> Resume | Life_Created \<Rightarrow> Requeue | Life_Finished \<Rightarrow> Remove)"

definition armed :: "adopted_container \<Rightarrow> armed_job" where
  "armed c = \<lparr>aj_job_id = ad_job_id c, aj_container_id = ad_container_id c, aj_deadline_ms = ad_deadline_ms c\<rparr>"

definition resume :: "adopted_container \<Rightarrow> adoption \<times> daemon \<Rightarrow> adoption \<times> daemon" where
  "resume c ad = (case ad of (a, d) \<Rightarrow>
     (case adopt_running (ad_job_id c) (ad_size c) (dn_gate d) of
        (Inr _, g) \<Rightarrow> (a\<lparr>an_resumed := an_resumed a @ [armed c]\<rparr>,
          d\<lparr>dn_gate := g, dn_created := index_insert (ad_job_id c) (ad_container_id c) (dn_created d)\<rparr>)
      | (Inl _, g) \<Rightarrow> (a\<lparr>an_remove := an_remove a @ [ad_container_id c]\<rparr>, d\<lparr>dn_gate := g\<rparr>)))"

definition requeue :: "adopted_container \<Rightarrow> adoption \<times> daemon \<Rightarrow> adoption \<times> daemon" where
  "requeue c ad = (case ad of (a, d) \<Rightarrow>
     (case admit (ad_job_id c) (ad_size c) (dn_gate d) of
        (Inr _, g) \<Rightarrow> (a\<lparr>an_requeued := an_requeued a @ [armed c]\<rparr>,
          d\<lparr>dn_gate := g, dn_created := index_insert (ad_job_id c) (ad_container_id c) (dn_created d), dn_queue := dn_queue d @ [ad_job_id c]\<rparr>)
      | (Inl _, g) \<Rightarrow> (a\<lparr>an_remove := an_remove a @ [ad_container_id c]\<rparr>, d\<lparr>dn_gate := g\<rparr>)))"

definition adopt_one :: "int \<Rightarrow> adopted_container \<Rightarrow> adoption \<times> daemon \<Rightarrow> adoption \<times> daemon" where
  "adopt_one now c ad =
     (case action_for c now of
        Resume \<Rightarrow> resume c ad
      | Requeue \<Rightarrow> requeue c ad
      | Remove \<Rightarrow> (case ad of (a, d) \<Rightarrow> (a\<lparr>an_remove := an_remove a @ [ad_container_id c]\<rparr>, d)))"

definition adopt :: "adopted_container list \<Rightarrow> int \<Rightarrow> daemon \<Rightarrow> adoption \<times> daemon" where
  "adopt containers now d = fold (adopt_one now) containers (\<lparr>an_resumed = [], an_requeued = [], an_remove = []\<rparr>, d)"


subsection \<open>Containers as Docker describes them\<close>

datatype container_state = St_Empty | St_Created | St_Running | St_Paused | St_Restarting | St_Exited | St_Removing | St_Dead

definition LABEL_JOB_ID :: string where "LABEL_JOB_ID = ''sh.toolu.job-id''"
definition LABEL_DEADLINE :: string where "LABEL_DEADLINE = ''sh.toolu.deadline''"

record job_labels =
  jl_job_id :: string
  jl_deadline :: int

datatype label_error = Label_Missing string | Invalid_Deadline string

text \<open>\<open>i64::to_string\<close> and \<open>str::parse::<i64>\<close>.\<close>

definition show_i64 :: "int \<Rightarrow> string" where
  "show_i64 n = (if n < 0 then ''-'' @ show_nat (nat (- n)) else show_nat (nat n))"

definition parse_i64 :: "string \<Rightarrow> int option" where
  "parse_i64 s =
     (let (neg, ds) = (case s of c # r \<Rightarrow> if c = CHR ''-'' then (True, r) else if c = CHR ''+'' then (False, r) else (False, s)
                       | [] \<Rightarrow> (False, []))
      in case parse_digits ds of
           None \<Rightarrow> None
         | Some n \<Rightarrow> let i = (if neg then - int n else int n)
                     in if - (2 ^ 63) \<le> i \<and> i < 2 ^ 63 then Some i else None)"

definition labels_to_map :: "job_labels \<Rightarrow> string \<rightharpoonup> string" where
  "labels_to_map l = Map.empty(LABEL_JOB_ID \<mapsto> jl_job_id l, LABEL_DEADLINE \<mapsto> show_i64 (jl_deadline l))"

definition labels_from_map :: "(string \<rightharpoonup> string) \<Rightarrow> (label_error, job_labels) result" where
  "labels_from_map m =
     rbind (ok_or (Label_Missing LABEL_JOB_ID) (m LABEL_JOB_ID)) (\<lambda>job.
     rbind (ok_or (Label_Missing LABEL_DEADLINE) (m LABEL_DEADLINE)) (\<lambda>raw.
     rbind (ok_or (Invalid_Deadline raw) (parse_i64 raw)) (\<lambda>deadline. Ok \<lparr>jl_job_id = job, jl_deadline = deadline\<rparr>)))"

definition nano_cpus :: "nat \<Rightarrow> int" where "nano_cpus n = int n * 1000000000"
definition memory_bytes :: "nat \<Rightarrow> int" where "memory_bytes n = int n * (1024 * 1024)"

text \<open>Division of machine integers truncates towards zero.\<close>

definition int_quot :: "int \<Rightarrow> int \<Rightarrow> int" where
  "int_quot a b = (if a < 0 then - ((- a) div b) else a div b)"

definition saturating_u32 :: "int \<Rightarrow> nat" where
  "saturating_u32 v = (if v < 0 then 0 else if int u32_top < v then u32_top else nat v)"

definition vcpu_from_nano_cpus :: "int \<Rightarrow> nat" where "vcpu_from_nano_cpus n = saturating_u32 (int_quot n 1000000000)"
definition memory_mb_from_bytes :: "int \<Rightarrow> nat" where "memory_mb_from_bytes b = saturating_u32 (int_quot b (1024 * 1024))"

record create_request =
  rq_job_id :: string
  rq_image :: string
  rq_jit_config :: string
  rq_deadline :: int
  rq_size :: job_size

record container_config =
  cg_image :: string
  cg_env :: "string list"
  cg_labels :: "string \<rightharpoonup> string"
  cg_runtime :: string
  cg_nano_cpus :: int
  cg_memory :: int

definition make_config :: "create_request \<Rightarrow> string \<Rightarrow> container_config" where
  "make_config req runtime =
     \<lparr>cg_image = rq_image req, cg_env = [''TOOLU_JITCONFIG='' @ rq_jit_config req, ''TOOLU_DEADLINE='' @ show_i64 (rq_deadline req)],
      cg_labels = labels_to_map \<lparr>jl_job_id = rq_job_id req, jl_deadline = rq_deadline req\<rparr>, cg_runtime = runtime,
      cg_nano_cpus = nano_cpus (vcpu (rq_size req)), cg_memory = memory_bytes (memory_mb (rq_size req))\<rparr>"

definition lifecycle_of :: "container_state option \<Rightarrow> container_lifecycle" where
  "lifecycle_of st = (case st of
       Some St_Created \<Rightarrow> Life_Created
     | Some St_Running \<Rightarrow> Life_Running | Some St_Paused \<Rightarrow> Life_Running | Some St_Restarting \<Rightarrow> Life_Running
     | _ \<Rightarrow> Life_Finished)"

record container_inspect =
  ci_labels :: "(string \<rightharpoonup> string) option"
  ci_nano_cpus :: "int option"
  ci_memory :: "int option"
  ci_status :: "container_state option"

definition adopted_from_inspect :: "string \<Rightarrow> container_inspect \<Rightarrow> adopted_container option" where
  "adopted_from_inspect container i =
     (case Option.bind (ci_labels i) (\<lambda>m. case labels_from_map m of Inr l \<Rightarrow> Some l | Inl _ \<Rightarrow> None) of
        None \<Rightarrow> None
      | Some l \<Rightarrow> Some \<lparr>ad_job_id = jl_job_id l, ad_container_id = container, ad_deadline_ms = jl_deadline l,
          ad_size = \<lparr>vcpu = vcpu_from_nano_cpus (case ci_nano_cpus i of Some n \<Rightarrow> n | None \<Rightarrow> 0),
            memory_mb = memory_mb_from_bytes (case ci_memory i of Some n \<Rightarrow> n | None \<Rightarrow> 0)\<rparr>,
          ad_lifecycle = lifecycle_of (ci_status i)\<rparr>)"

text \<open>All containers of a listing; one that cannot be inspected is skipped.\<close>

definition existing_jobs ::
  "(string, string option list) result \<Rightarrow> (string \<Rightarrow> (string, container_inspect) result) \<Rightarrow> (string, adopted_container list) result" where
  "existing_jobs listed inspect =
     rbind listed (\<lambda>ids. Ok (List.map_filter (\<lambda>i. Option.bind i (\<lambda>c. case inspect c of
         Inr info \<Rightarrow> adopted_from_inspect c info | Inl _ \<Rightarrow> None)) ids))"

record container_summary =
  sm_id :: "string option"
  sm_labels :: "(string \<rightharpoonup> string) option"
  sm_state :: "container_state option"

definition snapshot_of :: "container_summary \<Rightarrow> container_snapshot option" where
  "snapshot_of c =
     Option.bind (sm_id c) (\<lambda>i. Option.bind (sm_labels c) (\<lambda>m.
       case labels_from_map m of
         Inl _ \<Rightarrow> None
       | Inr l \<Rightarrow> Some \<lparr>cn_job_id = jl_job_id l, cn_container_id = i, cn_deadline_ms = jl_deadline l, cn_running = (sm_state c = Some St_Running)\<rparr>))"

definition daemon_snapshot :: "(string, container_summary list) result \<Rightarrow> container_snapshot list" where
  "daemon_snapshot listed = (case listed of Inr cs \<Rightarrow> List.map_filter snapshot_of cs | Inl _ \<Rightarrow> [])"

subsection \<open>Orchestration\<close>

datatype start_failure = No_Such_Container | Transient string

definition requeue_after_failed_start :: "(daemon \<Rightarrow> daemon) \<Rightarrow> string \<Rightarrow> daemon \<Rightarrow> daemon" where
  "requeue_after_failed_start between job d =
     (case unstart job (dn_gate d) of
        (still_tracked, g) \<Rightarrow>
          (let d = d\<lparr>dn_gate := g\<rparr>
           in if still_tracked then (let d = between d in d\<lparr>dn_queue := dn_queue d @ [job]\<rparr>) else d))"

definition release_vanished :: "string \<Rightarrow> daemon \<Rightarrow> daemon" where
  "release_vanished job d = snd (release_job job d)"

text \<open>\<open>others n\<close> is what the rest of the daemon does while Docker answers the request number \<open>n\<close>.\<close>

fun start_promoted ::
  "(nat \<Rightarrow> string \<Rightarrow> start_failure option) \<Rightarrow> (nat \<Rightarrow> daemon \<Rightarrow> daemon) \<Rightarrow> nat \<Rightarrow> start_request list \<Rightarrow> daemon \<Rightarrow> daemon" where
  "start_promoted start others n [] d = d"
| "start_promoted start others n (r # rs) d =
     (let d = others n d
      in start_promoted start others (n + 2) rs
           (case start n (sq_container_id r) of
              None \<Rightarrow> d
            | Some (Transient _) \<Rightarrow> requeue_after_failed_start (others (n + 1)) (sq_job_id r) d
            | Some No_Such_Container \<Rightarrow> release_vanished (sq_job_id r) d))"

definition daemon_tick ::
  "(string, container_summary list) result \<Rightarrow> (nat \<Rightarrow> string \<Rightarrow> start_failure option) \<Rightarrow> (nat \<Rightarrow> daemon \<Rightarrow> daemon) \<Rightarrow> int \<Rightarrow> daemon
     \<Rightarrow> string list \<times> daemon" where
  "daemon_tick listed start others now d =
     (let snapshot = daemon_snapshot listed;
          (out, d) = reconcile snapshot now (others 0 d)
      in (tk_remove out, start_promoted start others 1 (tk_start out) d))"

datatype create_error = Image_Not_Resident | Create_Other string

record docker_create =
  dc_now_begin :: int
  dc_now_finish :: int
  dc_result :: "(create_error, string) result"
  dc_join_error :: "string option"
  dc_others :: "nat \<Rightarrow> daemon \<Rightarrow> daemon"

definition run_create :: "docker_create \<Rightarrow> string \<Rightarrow> daemon \<Rightarrow> (create_error, string) result \<times> string list \<times> daemon" where
  "run_create D job d =
     (let d = dc_others D 1 d
      in case dc_result D of
           Inl e \<Rightarrow> (Err e, [], d\<lparr>dn_registry := abandon_create job (dn_registry d)\<rparr>)
         | Inr container \<Rightarrow>
             (case finish_create job container (dc_now_finish D) (dn_registry d) of
                (Keep, reg) \<Rightarrow> (Ok container, [], d\<lparr>dn_registry := reg\<rparr>)
              | (Discard_Reaped, reg) \<Rightarrow>
                  (Err (Create_Other (''job '' @ job @ '' was reaped while its container was being created'')), [container], d\<lparr>dn_registry := reg\<rparr>)))"

text \<open>The backend's create; the containers it force-removes are listed. The create runs as a task of its own, which
  may be lost before it settles.\<close>

definition backend_create :: "docker_create \<Rightarrow> string \<Rightarrow> daemon \<Rightarrow> (create_error, string) result \<times> string list \<times> daemon" where
  "backend_create D job d =
     (case begin_create job (dc_now_begin D) (dn_registry d) of
        (Proceed, reg) \<Rightarrow>
          (case dc_join_error D of
             None \<Rightarrow> run_create D job (d\<lparr>dn_registry := reg\<rparr>)
           | Some e \<Rightarrow>
               (let d = dc_others D 1 (d\<lparr>dn_registry := reg\<rparr>)
                in (Err (Create_Other (''create task for job '' @ job @ '' did not finish: '' @ e)), [],
                    d\<lparr>dn_registry := abandon_create job (dn_registry d)\<rparr>)))
      | (Already_Reaped, reg) \<Rightarrow> (Err (Create_Other (''job '' @ job @ '' was reaped before its container was created'')), [], d\<lparr>dn_registry := reg\<rparr>)
      | (Already_Tracked, reg) \<Rightarrow> (Err (Create_Other (''job '' @ job @ '' already has a container being created'')), [], d\<lparr>dn_registry := reg\<rparr>))"

subsection \<open>The routes\<close>

datatype http_reply = Reply_Created string | Reply_Error nat string | Reply_No_Content

definition remember_created :: "string \<Rightarrow> string \<Rightarrow> daemon \<Rightarrow> bool \<times> daemon" where
  "remember_created job container d =
     (if \<not> tracks (dn_gate d) job then (False, d)
      else (True, d\<lparr>dn_created := index_insert job container (dn_created d), dn_queue := dn_queue d @ [job]\<rparr>))"

text \<open>Three critical sections in a row; \<open>others\<close> may act between them.\<close>

definition release_route :: "(nat \<Rightarrow> daemon \<Rightarrow> daemon) \<Rightarrow> string \<Rightarrow> daemon \<Rightarrow> daemon" where
  "release_route others job d =
     (let d = d\<lparr>dn_gate := snd (gate_release job (dn_gate d))\<rparr>;
          d = others 10 d;
          d = d\<lparr>dn_queue := queue_remove job (dn_queue d)\<rparr>;
          d = others 11 d
      in d\<lparr>dn_created := drop_key job (dn_created d)\<rparr>)"

definition create_error_text :: "create_error \<Rightarrow> string" where
  "create_error_text e = (case e of Image_Not_Resident \<Rightarrow> ''pinned image is not resident yet'' | Create_Other m \<Rightarrow> m)"

definition admit_error_text :: "admit_error \<Rightarrow> string" where
  "admit_error_text e = (case e of Exceeds_Budget \<Rightarrow> ''job size exceeds the total budget''
     | Queue_Full \<Rightarrow> ''queue is at its depth ceiling'' | Duplicate_Job_Id \<Rightarrow> ''job id is already tracked'')"

definition run_admitted_create :: "docker_create \<Rightarrow> string \<Rightarrow> daemon \<Rightarrow> http_reply \<times> string list \<times> daemon" where
  "run_admitted_create D job d =
     (case backend_create D job d of
        (Inr container, removed, d) \<Rightarrow>
          (case remember_created job container (dc_others D 2 d) of
             (True, d) \<Rightarrow> (Reply_Created container, removed, d)
           | (False, d) \<Rightarrow> (Reply_Error 503 ''job was released while its container was being created'', removed @ [container], d))
      | (Inl e, removed, d) \<Rightarrow> (Reply_Error 503 (create_error_text e), removed, release_route (dc_others D) job (dc_others D 2 d)))"

definition create_job :: "docker_create \<Rightarrow> string \<Rightarrow> create_request \<Rightarrow> daemon \<Rightarrow> http_reply \<times> string list \<times> daemon" where
  "create_job D pinned req d =
     (if rq_image req \<noteq> pinned
      then (Reply_Error 503 (''image mismatch: this host pins '' @ pinned @ '' (TOOLU_DAEMON_IMAGE) and cannot run '' @ rq_image req), [], d)
      else case admit (rq_job_id req) (rq_size req) (dn_gate d) of
             (Inr _, g) \<Rightarrow> run_admitted_create D (rq_job_id req) (dc_others D 0 (d\<lparr>dn_gate := g\<rparr>))
           | (Inl Duplicate_Job_Id, _) \<Rightarrow>
               (case map_of (dn_created d) (rq_job_id req) of
                  Some container \<Rightarrow> (Reply_Created container, [], d)
                | None \<Rightarrow> (Reply_Error 503 ''job is already being created'', [], d))
           | (Inl e, _) \<Rightarrow> (Reply_Error (if e = Queue_Full then 429 else 500) (admit_error_text e), [], d))"

text \<open>Reaping: the known container and every listed one is removed; \<open>gone\<close> tells whether a removal succeeded.\<close>

definition run_reap ::
  "(string \<Rightarrow> bool) \<Rightarrow> (string, string list) result \<Rightarrow> int \<Rightarrow> string \<Rightarrow> daemon \<Rightarrow> bool \<times> daemon" where
  "run_reap gone labelled now job d =
     (case registry_reap job now (dn_registry d) of
        (known, reg) \<Rightarrow>
          ((case known of Some c \<Rightarrow> gone c | None \<Rightarrow> True) \<and> (case labelled of Inr cs \<Rightarrow> list_all gone cs | Inl _ \<Rightarrow> False),
           d\<lparr>dn_registry := reg\<rparr>))"

definition reap_job ::
  "(nat \<Rightarrow> daemon \<Rightarrow> daemon) \<Rightarrow> (string \<Rightarrow> bool) \<Rightarrow> (string, string list) result \<Rightarrow> int \<Rightarrow> string \<Rightarrow> daemon \<Rightarrow> http_reply \<times> daemon" where
  "reap_job others gone labelled now job d =
     (case run_reap gone labelled now job d of
        (settled, d) \<Rightarrow> (Reply_No_Content, let d = others 0 d in if settled then release_route others job d else d))"

datatype destroy_outcome = Removed "string option" | Not_Found

definition destroy_job ::
  "(nat \<Rightarrow> daemon \<Rightarrow> daemon) \<Rightarrow> (string, destroy_outcome) result \<Rightarrow> daemon \<Rightarrow> http_reply \<times> daemon" where
  "destroy_job others answer d =
     (case answer of
        Inr (Removed job) \<Rightarrow>
          (Reply_No_Content,
           (case job of
              None \<Rightarrow> d
            | Some j \<Rightarrow> release_route others j (others 0 (d\<lparr>dn_registry := registry_forget j (dn_registry d)\<rparr>))))
      | Inr Not_Found \<Rightarrow> (Reply_Error 404 ''container not found'', d)
      | Inl e \<Rightarrow> (Reply_Error 500 e, d))"

subsection \<open>Lists of keys and values\<close>

lemma map_of_drop_key [simp]: "map_of (drop_key k m) = (map_of m)(k := None)"
  by (induction m) (auto simp: drop_key_def fun_eq_iff)

lemma keys_drop_key: "set (map fst (drop_key k m)) = set (map fst m) - {k}"
  by (auto simp: drop_key_def)

lemma distinct_drop_key: "distinct (map fst m) \<Longrightarrow> distinct (map fst (drop_key k m))"
  unfolding drop_key_def by (rule distinct_map_filter)

lemma length_drop_key: "length (drop_key k m) \<le> length m"
  by (simp add: drop_key_def)

text \<open>A measure of the values, summed over the list.\<close>

definition weigh :: "('v \<Rightarrow> nat) \<Rightarrow> (string \<times> 'v) list \<Rightarrow> nat" where
  "weigh f m = sum_list (map (\<lambda>kv. f (snd kv)) m)"

lemma weigh_simps [simp]: "weigh f [] = 0" "weigh f ((k, v) # m) = f v + weigh f m"
  by (simp_all add: weigh_def)

lemma weigh_insert_new: "map_of m k = None \<Longrightarrow> weigh f (index_insert k v m) = weigh f m + f v"
  by (induction k v m rule: index_insert.induct) (auto split: if_splits)

lemma weigh_insert_old: "map_of m k = Some u \<Longrightarrow> weigh f (index_insert k v m) + f u = weigh f m + f v"
  by (induction k v m rule: index_insert.induct) (auto split: if_splits)

lemma weigh_drop: "weigh f (drop_key k m) \<le> weigh f m"
  by (induction m) (auto simp: drop_key_def)

subsection \<open>What the running jobs use\<close>

definition running_weight :: "(job_size \<Rightarrow> nat) \<Rightarrow> gate \<Rightarrow> nat" where
  "running_weight f g = weigh (\<lambda>e. if ge_running e then f (ge_size e) else 0) (gt_jobs g)"

lemma gate_used_fold:
  fixes acc :: job_size
  assumes "vcpu acc \<le> u32_top" "memory_mb acc \<le> u32_top"
  shows "vcpu (fold (\<lambda>kv acc. size_add acc (ge_size (snd kv))) m acc) = min (vcpu acc + weigh (\<lambda>e. vcpu (ge_size e)) m) u32_top
    \<and> memory_mb (fold (\<lambda>kv acc. size_add acc (ge_size (snd kv))) m acc) = min (memory_mb acc + weigh (\<lambda>e. memory_mb (ge_size e)) m) u32_top"
  using assms
proof (induction m arbitrary: acc)
  case (Cons kv m)
  obtain k e where kv: "kv = (k, e)" by (rule prod.exhaust)
  have cut: "min (min (a + x) M + y) M = min (a + (x + y)) M" for a x y M :: nat by simp
  show ?case using Cons.IH [of "size_add acc (ge_size e)"] by (simp add: kv size_add_def cut)
qed simp

lemma weigh_filter: "weigh f (filter (\<lambda>kv. P (snd kv)) m) = weigh (\<lambda>e. if P e then f e else 0) m"
  by (induction m) auto

lemma gate_used_vcpu: "vcpu (gate_used g) = min (running_weight vcpu g) u32_top"
  and gate_used_memory: "memory_mb (gate_used g) = min (running_weight memory_mb g) u32_top"
  using gate_used_fold [of size_zero "filter (\<lambda>kv. ge_running (snd kv)) (gt_jobs g)"]
  by (simp_all add: gate_used_def size_zero_def running_weight_def weigh_filter)

subsection \<open>The gate's invariant\<close>

text \<open>\<open>gate_within budget b q\<close>: at most \<open>b\<close> is used and at most \<open>q\<close> jobs are held, each under its own key.\<close>

definition gate_within :: "job_size \<Rightarrow> job_size \<Rightarrow> nat \<Rightarrow> gate \<Rightarrow> bool" where
  "gate_within budget b q g \<longleftrightarrow> gt_budget g = budget \<and> gt_queue_max g \<le> q \<and> vcpu budget \<le> vcpu b \<and> memory_mb budget \<le> memory_mb b
     \<and> vcpu budget \<le> u32_top \<and> memory_mb budget \<le> u32_top \<and> gt_queue_max g \<le> u32_top
     \<and> running_weight vcpu g \<le> vcpu b \<and> running_weight memory_mb g \<le> memory_mb b
     \<and> length (gt_jobs g) \<le> q \<and> distinct (map fst (gt_jobs g))"

lemma length_index_insert: "length (index_insert k v m) = (if map_of m k = None then Suc (length m) else length m)"
  by (induction k v m rule: index_insert.induct) auto

lemma within_admit: "gate_within budget b q g \<Longrightarrow> gate_within budget b q (snd (admit job sz g))"
  by (auto simp: gate_within_def admit_def running_weight_def weigh_insert_new length_index_insert distinct_index_insert)

lemma fits_remaining:
  assumes "fits_within sz (size_sub budget (gate_used g))" "vcpu budget \<le> u32_top" "memory_mb budget \<le> u32_top"
    "running_weight vcpu g \<le> v" "running_weight memory_mb g \<le> m" "vcpu budget \<le> v" "memory_mb budget \<le> m"
  shows "running_weight vcpu g + vcpu sz \<le> v" "running_weight memory_mb g + memory_mb sz \<le> m"
  using assms by (auto simp: fits_within_def size_sub_def gate_used_vcpu gate_used_memory min_def split: if_splits)

lemma within_try_start:
  assumes "gate_within budget b q g"
  shows "gate_within budget b q (snd (try_start job g))"
proof (cases "\<exists>e. map_of (gt_jobs g) job = Some e \<and> \<not> ge_running e \<and> fits_within (ge_size e) (size_sub (gt_budget g) (gate_used g))")
  case True
  then obtain e where e: "map_of (gt_jobs g) job = Some e" "\<not> ge_running e" "fits_within (ge_size e) (size_sub (gt_budget g) (gate_used g))"
    by blast
  have new: "snd (try_start job g) = g\<lparr>gt_jobs := index_insert job (e\<lparr>ge_running := True\<rparr>) (gt_jobs g)\<rparr>"
    using e by (simp add: try_start_def)
  have w: "running_weight f (snd (try_start job g)) = running_weight f g + f (ge_size e)" for f
    using weigh_insert_old [OF e(1), of "\<lambda>e. if ge_running e then f (ge_size e) else 0" "e\<lparr>ge_running := True\<rparr>"] e(2)
    by (simp add: new running_weight_def)
  show ?thesis
    using assms e fits_remaining [of "ge_size e" budget g "vcpu b" "memory_mb b"]
    by (auto simp: gate_within_def w) (auto simp: new length_index_insert distinct_index_insert)
next
  case False
  then have "snd (try_start job g) = g" by (auto simp: try_start_def split: option.splits)
  then show ?thesis using assms by simp
qed

lemma within_unstart:
  assumes "gate_within budget b q g"
  shows "gate_within budget b q (snd (unstart job g))"
proof (cases "map_of (gt_jobs g) job")
  case None
  then show ?thesis using assms by (simp add: unstart_def)
next
  case (Some e)
  have "running_weight f (snd (unstart job g)) \<le> running_weight f g" for f
    using weigh_insert_old [OF Some, of "\<lambda>e. if ge_running e then f (ge_size e) else 0" "e\<lparr>ge_running := False\<rparr>"]
    by (simp add: unstart_def Some running_weight_def)
  then have "running_weight vcpu (snd (unstart job g)) \<le> running_weight vcpu g"
    "running_weight memory_mb (snd (unstart job g)) \<le> running_weight memory_mb g" by blast+
  then show ?thesis using assms
    by (auto simp: gate_within_def) (auto simp: unstart_def Some length_index_insert distinct_index_insert)
qed

lemma within_release: "gate_within budget b q g \<Longrightarrow> gate_within budget b q (snd (gate_release job g))"
  using weigh_drop [of "\<lambda>e. if ge_running e then vcpu (ge_size e) else 0" job "gt_jobs g"]
    weigh_drop [of "\<lambda>e. if ge_running e then memory_mb (ge_size e) else 0" job "gt_jobs g"] length_drop_key [of job "gt_jobs g"]
  by (auto simp: gate_within_def gate_release_def running_weight_def distinct_drop_key)

lemmas within_ops = within_admit within_try_start within_unstart within_release

subsection \<open>The daemon as interleaved critical sections\<close>

inductive daemon_step :: "daemon \<Rightarrow> daemon \<Rightarrow> bool" where
  step_admit: "daemon_step d (d\<lparr>dn_gate := snd (admit job sz (dn_gate d))\<rparr>)"
| step_begin_create: "daemon_step d (d\<lparr>dn_registry := snd (begin_create job now (dn_registry d))\<rparr>)"
| step_finish_create: "daemon_step d (d\<lparr>dn_registry := snd (finish_create job container now (dn_registry d))\<rparr>)"
| step_abandon_create: "daemon_step d (d\<lparr>dn_registry := abandon_create job (dn_registry d)\<rparr>)"
| step_registry_reap: "daemon_step d (d\<lparr>dn_registry := snd (registry_reap job now (dn_registry d))\<rparr>)"
| step_registry_forget: "daemon_step d (d\<lparr>dn_registry := registry_forget job (dn_registry d)\<rparr>)"
| step_remember_created: "daemon_step d (snd (remember_created job container d))"
| step_gate_release: "daemon_step d (d\<lparr>dn_gate := snd (gate_release job (dn_gate d))\<rparr>)"
| step_queue_remove: "daemon_step d (d\<lparr>dn_queue := queue_remove job (dn_queue d)\<rparr>)"
| step_forget_created: "daemon_step d (d\<lparr>dn_created := drop_key job (dn_created d)\<rparr>)"
| step_release_vanished: "daemon_step d (release_vanished job d)"
| step_unstart: "daemon_step d (d\<lparr>dn_gate := snd (unstart job (dn_gate d))\<rparr>)"
| step_queue_push: "daemon_step d (d\<lparr>dn_queue := dn_queue d @ [job]\<rparr>)"
| step_reconcile: "daemon_step d (snd (reconcile snapshot now d))"

abbreviation daemon_steps :: "daemon \<Rightarrow> daemon \<Rightarrow> bool" where "daemon_steps \<equiv> daemon_step\<^sup>*\<^sup>*"

lemma dn_gate_release_job [simp]: "dn_gate (snd (release_job job d)) = snd (gate_release job (dn_gate d))"
  by (simp add: release_job_def split_beta)

lemma within_reap_snapshot:
  "gate_within budget b q (dn_gate d) \<Longrightarrow> gate_within budget b q (dn_gate (snd (reap_snapshot cs before now d)))"
  by (induction cs before now d rule: reap_snapshot.induct) (auto simp: within_release split: prod.splits)

lemma within_promote: "gate_within budget b q (dn_gate d) \<Longrightarrow> gate_within budget b q (dn_gate (snd (promote pending d)))"
proof (induction pending arbitrary: d)
  case (Cons job pending)
  obtain out g where t: "try_start job (dn_gate d) = (out, g)" by (rule prod.exhaust)
  have g: "gate_within budget b q g" using within_try_start [OF Cons.prems, of job] by (simp add: t)
  show ?case
    using Cons.IH [of "d\<lparr>dn_gate := g, dn_queue := queue_remove job (dn_queue d)\<rparr>"] Cons.IH [of "d\<lparr>dn_gate := g\<rparr>"] g
    by (auto simp: t split: option.splits start_outcome.splits prod.splits)
qed simp

lemma within_release_unseen:
  "gate_within budget b q (dn_gate d) \<Longrightarrow> gate_within budget b q (dn_gate (fold (\<lambda>job d. if P job then d else snd (release_job job d)) jobs d))"
  by (induction jobs arbitrary: d) (auto simp: within_release)

lemma within_reconcile: "gate_within budget b q (dn_gate d) \<Longrightarrow> gate_within budget b q (dn_gate (snd (reconcile snapshot now d)))"
  unfolding reconcile_def Let_def split_beta
  by (simp add: within_promote within_release_unseen within_reap_snapshot)

lemma within_step:
  assumes "daemon_step d d'" "gate_within budget b q (dn_gate d)"
  shows "gate_within budget b q (dn_gate d')"
  using assms
  by (induction rule: daemon_step.induct)
    (simp_all add: within_ops within_reconcile remember_created_def release_vanished_def)

lemma within_steps:
  assumes "daemon_steps d d'" "gate_within budget b q (dn_gate d)"
  shows "gate_within budget b q (dn_gate d')"
  using assms by (induction rule: rtranclp_induct) (auto intro: within_step)

subsection \<open>The handlers are sequences of critical sections\<close>

lemma steps_trans [trans]: "daemon_steps a b \<Longrightarrow> daemon_steps b c \<Longrightarrow> daemon_steps a c"
  by (rule rtranclp_trans)

lemma steps_one: "daemon_step a b \<Longrightarrow> daemon_steps a b"
  by (rule r_into_rtranclp)

lemma steps_then: "daemon_steps a b \<Longrightarrow> daemon_step b c \<Longrightarrow> daemon_steps a c"
  by (rule rtranclp.rtrancl_into_rtrancl)

lemma release_route_steps:
  assumes "\<And>n e. daemon_steps e (others n e)"
  shows "daemon_steps d (release_route others job d)"
proof -
  define d1 where "d1 = d\<lparr>dn_gate := snd (gate_release job (dn_gate d))\<rparr>"
  define d2 where "d2 = others 10 d1"
  define d3 where "d3 = d2\<lparr>dn_queue := queue_remove job (dn_queue d2)\<rparr>"
  define d4 where "d4 = others 11 d3"
  have "daemon_steps d d1" unfolding d1_def by (rule steps_one [OF step_gate_release])
  also have "daemon_steps d1 d2" unfolding d2_def by (rule assms)
  also have "daemon_steps d2 d3" unfolding d3_def by (rule steps_one [OF step_queue_remove])
  also have "daemon_steps d3 d4" unfolding d4_def by (rule assms)
  also have "daemon_steps d4 (d4\<lparr>dn_created := drop_key job (dn_created d4)\<rparr>)" by (rule steps_one [OF step_forget_created])
  finally show ?thesis by (simp add: release_route_def Let_def d1_def d2_def d3_def d4_def)
qed

lemma run_create_steps:
  assumes "\<And>n e. daemon_steps e (dc_others D n e)"
  shows "daemon_steps d (snd (snd (run_create D job d)))"
proof -
  let ?d = "dc_others D 1 d"
  have fin: "daemon_step ?d (?d\<lparr>dn_registry := snd (finish_create job c now (dn_registry ?d))\<rparr>)" for c now
    by (rule step_finish_create)
  have "daemon_step ?d (snd (snd (run_create D job d)))"
    using step_abandon_create [of ?d job] fin
    by (auto simp: run_create_def Let_def split: sum.splits prod.splits finish_outcome.splits) (metis snd_conv)+
  with assms [of d 1] show ?thesis by (rule steps_then)
qed

lemma backend_create_steps:
  assumes "\<And>n e. daemon_steps e (dc_others D n e)"
  shows "daemon_steps d (snd (snd (backend_create D job d)))"
proof -
  obtain out reg where b: "begin_create job (dc_now_begin D) (dn_registry d) = (out, reg)" by (rule prod.exhaust)
  have one: "daemon_steps d (d\<lparr>dn_registry := reg\<rparr>)"
    using steps_one [OF step_begin_create [of d job "dc_now_begin D"]] by (simp add: b)
  have lost: "daemon_steps d (e\<lparr>dn_registry := abandon_create job (dn_registry e)\<rparr>)" if "e = dc_others D 1 (d\<lparr>dn_registry := reg\<rparr>)" for e
    using steps_then [OF steps_trans [OF one assms] step_abandon_create] by (simp add: that)
  show ?thesis
    using one lost steps_trans [OF one run_create_steps [OF assms, of "d\<lparr>dn_registry := reg\<rparr>" job]]
    by (cases out; cases "dc_join_error D") (simp_all add: backend_create_def b Let_def)
qed

lemma run_admitted_create_steps:
  assumes "\<And>n e. daemon_steps e (dc_others D n e)"
  shows "daemon_steps d (snd (snd (run_admitted_create D job d)))"
proof -
  obtain out removed d1 where b: "backend_create D job d = (out, removed, d1)" by (rule prod_cases3)
  have one: "daemon_steps d (dc_others D 2 d1)"
    using steps_trans [OF backend_create_steps [OF assms, of d job] assms [of "snd (snd (backend_create D job d))" 2]] by (simp add: b)
  show ?thesis
  proof (cases out)
    case (Inl e)
    then show ?thesis using steps_trans [OF one release_route_steps [OF assms]] by (simp add: run_admitted_create_def b)
  next
    case (Inr c)
    obtain ok d2 where r: "remember_created job c (dc_others D 2 d1) = (ok, d2)" by (rule prod.exhaust)
    have "daemon_steps d d2" using steps_then [OF one step_remember_created [of _ job c]] by (simp add: r)
    then show ?thesis by (cases ok) (simp_all add: run_admitted_create_def b Inr r)
  qed
qed

lemma create_job_steps:
  assumes "\<And>n e. daemon_steps e (dc_others D n e)"
  shows "daemon_steps d (snd (snd (create_job D pinned req d)))"
proof -
  obtain out g where a: "admit (rq_job_id req) (rq_size req) (dn_gate d) = (out, g)" by (rule prod.exhaust)
  have "daemon_steps d (d\<lparr>dn_gate := g\<rparr>)"
    using steps_one [OF step_admit [of d "rq_job_id req" "rq_size req"]] by (simp add: a)
  then have "daemon_steps d (dc_others D 0 (d\<lparr>dn_gate := g\<rparr>))" by (rule steps_trans) (rule assms)
  then have "daemon_steps d (snd (snd (run_admitted_create D (rq_job_id req) (dc_others D 0 (d\<lparr>dn_gate := g\<rparr>)))))"
    by (rule steps_trans) (rule run_admitted_create_steps [OF assms])
  then show ?thesis
    by (auto simp: create_job_def a split: sum.splits admit_error.splits option.splits)
qed

lemma reap_job_steps:
  assumes "\<And>n e. daemon_steps e (others n e)"
  shows "daemon_steps d (snd (reap_job others gone labelled now job d))"
proof -
  obtain settled d1 where r: "run_reap gone labelled now job d = (settled, d1)" by (rule prod.exhaust)
  have "daemon_steps d d1"
    using steps_one [OF step_registry_reap [of d job now]] r by (auto simp: run_reap_def split_beta)
  then have one: "daemon_steps d (others 0 d1)" by (rule steps_trans) (rule assms)
  show ?thesis using one steps_trans [OF one release_route_steps [OF assms]]
    by (simp add: reap_job_def r Let_def)
qed

lemma destroy_job_steps:
  assumes "\<And>n e. daemon_steps e (others n e)"
  shows "daemon_steps d (snd (destroy_job others answer d))"
proof -
  have "daemon_steps d (release_route others j (others 0 (d\<lparr>dn_registry := registry_forget j (dn_registry d)\<rparr>)))" for j
    by (rule steps_trans [OF steps_one [OF step_registry_forget] steps_trans [OF assms release_route_steps [OF assms]]])
  then show ?thesis by (auto simp: destroy_job_def split: sum.splits destroy_outcome.splits option.splits)
qed

lemma requeue_steps:
  assumes "\<And>e. daemon_steps e (between e)"
  shows "daemon_steps d (requeue_after_failed_start between job d)"
proof -
  let ?d = "d\<lparr>dn_gate := snd (unstart job (dn_gate d))\<rparr>"
  have one: "daemon_steps d ?d" by (rule steps_one [OF step_unstart])
  with steps_then [OF steps_trans [OF one assms] step_queue_push [of "between ?d" job]] show ?thesis
    by (simp add: requeue_after_failed_start_def split_beta Let_def)
qed

lemma start_promoted_steps:
  assumes "\<And>n e. daemon_steps e (others n e)"
  shows "daemon_steps d (start_promoted start others n rs d)"
proof (induction rs arbitrary: n d)
  case (Cons r rs)
  let ?d = "others n d"
  have "daemon_steps ?d (case start n (sq_container_id r) of None \<Rightarrow> ?d
      | Some (Transient _) \<Rightarrow> requeue_after_failed_start (others (n + 1)) (sq_job_id r) ?d
      | Some No_Such_Container \<Rightarrow> release_vanished (sq_job_id r) ?d)"
    by (auto intro: steps_one step_release_vanished requeue_steps assms split: option.splits start_failure.splits)
  from steps_trans [OF steps_trans [OF assms this] Cons.IH] show ?case by (simp add: Let_def)
qed simp

lemma daemon_tick_steps:
  assumes "\<And>n e. daemon_steps e (others n e)"
  shows "daemon_steps d (snd (daemon_tick listed start others now d))"
proof -
  obtain out d1 where r: "reconcile (daemon_snapshot listed) now (others 0 d) = (out, d1)" by (rule prod.exhaust)
  have "daemon_steps d d1"
    using steps_then [OF assms [of d 0] step_reconcile [of _ "daemon_snapshot listed" now]] by (simp add: r)
  then have "daemon_steps d (start_promoted start others 1 (tk_start out) d1)"
    by (rule steps_trans) (rule start_promoted_steps [OF assms])
  then show ?thesis by (simp add: daemon_tick_def Let_def r)
qed

lemmas handler_steps = create_job_steps reap_job_steps destroy_job_steps daemon_tick_steps

subsection \<open>Start-up and service\<close>

definition new_daemon :: "job_size \<Rightarrow> nat \<Rightarrow> daemon" where
  "new_daemon budget queue_max = \<lparr>dn_gate = new_gate budget queue_max, dn_registry = [], dn_queue = [], dn_created = []\<rparr>"

definition adopt_existing_jobs ::
  "(string, string option list) result \<Rightarrow> (string \<Rightarrow> (string, container_inspect) result) \<Rightarrow> int \<Rightarrow> daemon
     \<Rightarrow> (string, string list \<times> daemon) result" where
  "adopt_existing_jobs listed inspect now d =
     rbind (existing_jobs listed inspect) (\<lambda>cs. Ok (an_remove (fst (adopt cs now d)), snd (adopt cs now d)))"

text \<open>What the daemon does once it listens: requests and ticks, each with any steps of the others between its own.\<close>

inductive daemon_serves :: "daemon \<Rightarrow> daemon \<Rightarrow> bool" where
  serve_create: "(\<And>n e. daemon_steps e (dc_others D n e)) \<Longrightarrow> daemon_serves d (snd (snd (create_job D pinned req d)))"
| serve_reap: "(\<And>n e. daemon_steps e (others n e)) \<Longrightarrow> daemon_serves d (snd (reap_job others gone labelled now job d))"
| serve_destroy: "(\<And>n e. daemon_steps e (others n e)) \<Longrightarrow> daemon_serves d (snd (destroy_job others answer d))"
| serve_tick: "(\<And>n e. daemon_steps e (others n e)) \<Longrightarrow> daemon_serves d (snd (daemon_tick listed start others now d))"

lemma daemon_serves_steps: "daemon_serves d d' \<Longrightarrow> daemon_steps d d'"
  by (induction rule: daemon_serves.induct) (rule handler_steps; assumption)+

lemma within_serves:
  assumes "daemon_serves\<^sup>*\<^sup>* d d'" "gate_within budget b q (dn_gate d)"
  shows "gate_within budget b q (dn_gate d')"
  using assms by (induction rule: rtranclp_induct) (auto dest: daemon_serves_steps intro: within_steps)

subsection \<open>Adoption\<close>

definition adopted_ids :: "adoption \<Rightarrow> string list" where
  "adopted_ids a = map aj_job_id (an_resumed a) @ map aj_job_id (an_requeued a)"

definition container_ids :: "adoption \<Rightarrow> string multiset" where
  "container_ids a = mset (map aj_container_id (an_resumed a)) + mset (map aj_container_id (an_requeued a)) + mset (an_remove a)"

text \<open>The daemon holds an adopted job: in the gate, with its container.\<close>

definition holds_job :: "bool \<Rightarrow> daemon \<Rightarrow> armed_job \<Rightarrow> bool" where
  "holds_job is_running d j \<longleftrightarrow>
     (\<exists>sz. map_of (gt_jobs (dn_gate d)) (aj_job_id j) = Some \<lparr>ge_size = sz, ge_running = is_running\<rparr>
        \<and> (\<not> is_running \<longrightarrow> fits_within sz (gt_budget (dn_gate d))))
     \<and> map_of (dn_created d) (aj_job_id j) = Some (aj_container_id j)"

text \<open>What holds of the adoption and the daemon after every container.\<close>

definition adoption_ok :: "job_size \<Rightarrow> nat \<Rightarrow> adoption \<Rightarrow> daemon \<Rightarrow> bool" where
  "adoption_ok budget queue_max a d \<longleftrightarrow>
     gt_budget (dn_gate d) = budget \<and> gt_queue_max (dn_gate d) = queue_max
     \<and> distinct (map fst (gt_jobs (dn_gate d))) \<and> distinct (adopted_ids a)
     \<and> set (map fst (gt_jobs (dn_gate d))) = set (adopted_ids a)
     \<and> dn_queue d = map aj_job_id (an_requeued a)
     \<and> list_all (holds_job True d) (an_resumed a) \<and> list_all (holds_job False d) (an_requeued a)"

definition put_job :: "adopted_container \<Rightarrow> bool \<Rightarrow> string list \<Rightarrow> daemon \<Rightarrow> daemon" where
  "put_job c is_running q d =
     d\<lparr>dn_gate := (dn_gate d)\<lparr>gt_jobs := index_insert (ad_job_id c) \<lparr>ge_size = ad_size c, ge_running = is_running\<rparr> (gt_jobs (dn_gate d))\<rparr>,
       dn_created := index_insert (ad_job_id c) (ad_container_id c) (dn_created d), dn_queue := q\<rparr>"

lemma holds_put_other:
  assumes "list_all (holds_job r d) js" "ad_job_id c \<notin> set (map aj_job_id js)"
  shows "list_all (holds_job r (put_job c r' q d)) js"
  using assms by (induction js) (auto simp: holds_job_def put_job_def)

lemma holds_put_same: "(\<not> r \<longrightarrow> fits_within (ad_size c) (gt_budget (dn_gate d))) \<Longrightarrow> holds_job r (put_job c r q d) (armed c)"
  by (simp add: holds_job_def put_job_def armed_def)

lemma keys_put:
  assumes "map_of (gt_jobs (dn_gate d)) (ad_job_id c) = None"
  shows "map fst (gt_jobs (dn_gate (put_job c r q d))) = map fst (gt_jobs (dn_gate d)) @ [ad_job_id c]"
  using assms by (simp add: put_job_def fst_index_insert map_of_eq_None_iff)

lemma put_job_fields [simp]:
  "gt_budget (dn_gate (put_job c r q d)) = gt_budget (dn_gate d)" "gt_queue_max (dn_gate (put_job c r q d)) = gt_queue_max (dn_gate d)"
  "dn_queue (put_job c r q d) = q"
  by (simp_all add: put_job_def)

lemma adoption_ok_remove [simp]:
  "adoption_ok budget queue_max (a\<lparr>an_remove := r\<rparr>) d = adoption_ok budget queue_max a d"
  "container_ids (a\<lparr>an_remove := an_remove a @ [x]\<rparr>) = container_ids a + {#x#}"
  by (simp_all add: adoption_ok_def adopted_ids_def container_ids_def)

lemma resume_ok:
  assumes ok: "adoption_ok budget queue_max a d" and r: "resume c (a, d) = (a', d')"
  shows "adoption_ok budget queue_max a' d' \<and> container_ids a' = container_ids a + {#ad_container_id c#}"
proof (cases "map_of (gt_jobs (dn_gate d)) (ad_job_id c)")
  case None
  then have new: "ad_job_id c \<notin> set (map fst (gt_jobs (dn_gate d)))" by (simp add: map_of_eq_None_iff)
  then have other: "ad_job_id c \<notin> set (map aj_job_id (an_resumed a))" "ad_job_id c \<notin> set (map aj_job_id (an_requeued a))"
    using ok by (auto simp: adoption_ok_def adopted_ids_def)
  have "a' = a\<lparr>an_resumed := an_resumed a @ [armed c]\<rparr>" "d' = put_job c True (dn_queue d) d"
    using r by (auto simp: resume_def adopt_running_def None put_job_def)
  then show ?thesis using ok new other
    by (simp add: adoption_ok_def keys_put [OF None] holds_put_other holds_put_same adopted_ids_def container_ids_def)
      (simp add: armed_def)
next
  case (Some e)
  then show ?thesis using assms by (auto simp: resume_def adopt_running_def)
qed

lemma requeue_ok:
  assumes ok: "adoption_ok budget queue_max a d" and r: "requeue c (a, d) = (a', d')"
  shows "adoption_ok budget queue_max a' d' \<and> container_ids a' = container_ids a + {#ad_container_id c#}"
proof (cases "fst (admit (ad_job_id c) (ad_size c) (dn_gate d))")
  case (Inl e)
  then have "snd (admit (ad_job_id c) (ad_size c) (dn_gate d)) = dn_gate d" by (auto simp: admit_def split: if_splits)
  with Inl have "admit (ad_job_id c) (ad_size c) (dn_gate d) = (Inl e, dn_gate d)" by (simp add: prod_eq_iff)
  then show ?thesis using assms by (auto simp: requeue_def)
next
  case (Inr u)
  then have None: "map_of (gt_jobs (dn_gate d)) (ad_job_id c) = None" and f: "fits_within (ad_size c) (gt_budget (dn_gate d))"
    and a: "admit (ad_job_id c) (ad_size c) (dn_gate d) =
      (Inr (), (dn_gate d)\<lparr>gt_jobs := index_insert (ad_job_id c) \<lparr>ge_size = ad_size c, ge_running = False\<rparr> (gt_jobs (dn_gate d))\<rparr>)"
    by (auto simp: admit_def split: if_splits)
  then have new: "ad_job_id c \<notin> set (map fst (gt_jobs (dn_gate d)))" by (simp add: map_of_eq_None_iff)
  then have other: "ad_job_id c \<notin> set (map aj_job_id (an_resumed a))" "ad_job_id c \<notin> set (map aj_job_id (an_requeued a))"
    using ok by (auto simp: adoption_ok_def adopted_ids_def)
  have "a' = a\<lparr>an_requeued := an_requeued a @ [armed c]\<rparr>" "d' = put_job c False (dn_queue d @ [ad_job_id c]) d"
    using r by (simp_all add: requeue_def a put_job_def)
  then show ?thesis using ok new other f
    by (simp add: adoption_ok_def keys_put [OF None] holds_put_other holds_put_same adopted_ids_def container_ids_def)
      (simp add: armed_def)
qed

lemma adopt_one_ok:
  assumes "adoption_ok budget queue_max a d" "adopt_one now c (a, d) = (a', d')"
  shows "adoption_ok budget queue_max a' d' \<and> container_ids a' = container_ids a + {#ad_container_id c#}"
  using assms resume_ok [OF assms(1), of c a' d'] requeue_ok [OF assms(1), of c a' d']
  by (cases "action_for c now") (auto simp: adopt_one_def)

lemma adopt_all_ok:
  assumes "adoption_ok budget queue_max a d" "fold (adopt_one now) cs (a, d) = (a', d')"
  shows "adoption_ok budget queue_max a' d' \<and> container_ids a' = container_ids a + mset (map ad_container_id cs)"
  using assms
proof (induction cs arbitrary: a d)
  case (Cons c cs)
  obtain a1 d1 where one: "adopt_one now c (a, d) = (a1, d1)" by (rule prod.exhaust)
  from adopt_one_ok [OF Cons.prems(1) one] Cons.IH [of a1 d1] Cons.prems(2) one show ?case by simp
qed simp

lemma adopt_ok:
  assumes "adopt cs now (new_daemon budget queue_max) = (a, d)"
  shows "adoption_ok budget queue_max a d \<and> container_ids a = mset (map ad_container_id cs)"
proof -
  have "adoption_ok budget queue_max \<lparr>an_resumed = [], an_requeued = [], an_remove = []\<rparr> (new_daemon budget queue_max)"
    by (simp add: adoption_ok_def new_daemon_def new_gate_def adopted_ids_def)
  from adopt_all_ok [OF this] assms show ?thesis by (simp add: adopt_def container_ids_def)
qed

subsection \<open>What one tick changes\<close>

definition reaps :: "string list \<Rightarrow> int \<Rightarrow> container_snapshot \<Rightarrow> bool" where
  "reaps before now c \<longleftrightarrow> cn_deadline_ms c \<le> now \<or> \<not> cn_running c \<and> cn_job_id c \<in> set before"

lemma release_job_maps [simp]:
  "map_of (gt_jobs (snd (gate_release job g))) = (map_of (gt_jobs g))(job := None)"
  "map_of (dn_created (snd (release_job job d))) = (map_of (dn_created d))(job := None)"
  by (simp_all add: release_job_def gate_release_def)

lemma reap_snapshot_effect:
  "reap_snapshot cs before now d = (r, d') \<Longrightarrow>
     r = map cn_container_id (filter (reaps before now) cs)
     \<and> map_of (gt_jobs (dn_gate d')) = (\<lambda>k. if \<exists>c \<in> set cs. reaps before now c \<and> cn_job_id c = k then None else map_of (gt_jobs (dn_gate d)) k)
     \<and> map_of (dn_created d') = (\<lambda>k. if \<exists>c \<in> set cs. reaps before now c \<and> cn_job_id c = k then None else map_of (dn_created d) k)"
proof (induction cs arbitrary: d r d')
  case (Cons c cs)
  show ?case
  proof (cases "reaps before now c")
    case True
    obtain r1 d1 where one: "reap_snapshot cs before now (snd (release_job (cn_job_id c) d)) = (r1, d1)" by (rule prod.exhaust)
    have eq: "r = cn_container_id c # r1" "d' = d1" using Cons.prems True by (simp_all add: reaps_def one)
    show ?thesis unfolding eq using Cons.IH [OF one] True by (auto simp: fun_eq_iff)
  next
    case False
    then have "reap_snapshot cs before now d = (r, d')" using Cons.prems by (auto simp: reaps_def)
    from Cons.IH [OF this] False show ?thesis by (auto simp: fun_eq_iff)
  qed
qed simp

lemma release_unseen_effect:
  assumes "d' = fold (\<lambda>job d. if P job then d else snd (release_job job d)) jobs d"
  shows "map_of (gt_jobs (dn_gate d')) = (\<lambda>k. if k \<in> set jobs \<and> \<not> P k then None else map_of (gt_jobs (dn_gate d)) k)
    \<and> map_of (dn_created d') = (\<lambda>k. if k \<in> set jobs \<and> \<not> P k then None else map_of (dn_created d) k)"
  using assms by (induction jobs arbitrary: d) (auto simp: fun_eq_iff)

lemma try_start_keeps:
  "map_of (gt_jobs g) k = None \<Longrightarrow> map_of (gt_jobs (snd (try_start job g))) k = None"
  "map_of (gt_jobs g) k = Some e \<Longrightarrow> ge_running e \<Longrightarrow> map_of (gt_jobs (snd (try_start job g))) k = Some e"
  by (auto simp: try_start_def split: option.splits)

lemma promote_keeps_all:
  "(map_of (gt_jobs (dn_gate d)) k = None \<longrightarrow> map_of (gt_jobs (dn_gate (snd (promote pending d)))) k = None)
   \<and> (\<forall>e. map_of (gt_jobs (dn_gate d)) k = Some e \<and> ge_running e \<longrightarrow> map_of (gt_jobs (dn_gate (snd (promote pending d)))) k = Some e)
   \<and> dn_created (snd (promote pending d)) = dn_created d"
proof (induction pending arbitrary: d)
  case (Cons job pending)
  obtain out g where t: "try_start job (dn_gate d) = (out, g)" by (rule prod.exhaust)
  let ?s = "d\<lparr>dn_gate := g, dn_queue := queue_remove job (dn_queue d)\<rparr>" and ?w = "d\<lparr>dn_gate := g\<rparr>"
  have p: "snd (promote (job # pending) d) = snd (promote pending ?s) \<or> snd (promote (job # pending) d) = snd (promote pending ?w)"
    by (auto simp: t split: option.splits start_outcome.splits prod.splits)
  have "map_of (gt_jobs (dn_gate d)) k = None \<longrightarrow> map_of (gt_jobs g) k = None"
    "\<forall>e. map_of (gt_jobs (dn_gate d)) k = Some e \<and> ge_running e \<longrightarrow> map_of (gt_jobs g) k = Some e"
    using try_start_keeps(1) [of "dn_gate d" k job] try_start_keeps(2) [of "dn_gate d" k _ job] by (auto simp: t)
  then show ?case using Cons.IH [of ?s] Cons.IH [of ?w] p by (elim disjE) simp_all
qed simp

lemmas promote_keeps = promote_keeps_all [THEN conjunct1, rule_format] promote_keeps_all [THEN conjunct2, THEN conjunct1, rule_format]
  promote_keeps_all [THEN conjunct2, THEN conjunct2]

text \<open>The state of a tick just before it promotes.\<close>

definition before_promote :: "container_snapshot list \<Rightarrow> int \<Rightarrow> daemon \<Rightarrow> daemon" where
  "before_promote snapshot now d =
     (let before = running_job_ids (dn_gate d)
      in fold (\<lambda>job d. if job \<in> set (map cn_job_id snapshot) then d else snd (release_job job d)) before
           (snd (reap_snapshot snapshot before now d)))"

lemma reconcile_parts:
  "snd (reconcile snapshot now d) = snd (promote (dn_queue (before_promote snapshot now d)) (before_promote snapshot now d))"
  "tk_remove (fst (reconcile snapshot now d)) = map cn_container_id (filter (reaps (running_job_ids (dn_gate d)) now) snapshot)"
proof -
  obtain r d1 where one: "reap_snapshot snapshot (running_job_ids (dn_gate d)) now d = (r, d1)" by (rule prod.exhaust)
  show "snd (reconcile snapshot now d) = snd (promote (dn_queue (before_promote snapshot now d)) (before_promote snapshot now d))"
    by (simp add: reconcile_def before_promote_def Let_def split_beta)
  show "tk_remove (fst (reconcile snapshot now d)) = map cn_container_id (filter (reaps (running_job_ids (dn_gate d)) now) snapshot)"
    using reap_snapshot_effect [OF one] by (simp add: reconcile_def one Let_def split_beta)
qed

definition reaped_by :: "container_snapshot list \<Rightarrow> int \<Rightarrow> daemon \<Rightarrow> string \<Rightarrow> bool" where
  "reaped_by snapshot now d job \<longleftrightarrow>
     (\<exists>c \<in> set snapshot. reaps (running_job_ids (dn_gate d)) now c \<and> cn_job_id c = job)
     \<or> job \<in> set (running_job_ids (dn_gate d)) \<and> job \<notin> set (map cn_job_id snapshot)"

lemma before_promote_maps:
  "map_of (gt_jobs (dn_gate (before_promote snapshot now d))) k = (if reaped_by snapshot now d k then None else map_of (gt_jobs (dn_gate d)) k)"
  "map_of (dn_created (before_promote snapshot now d)) k = (if reaped_by snapshot now d k then None else map_of (dn_created d) k)"
proof -
  obtain r d1 where one: "reap_snapshot snapshot (running_job_ids (dn_gate d)) now d = (r, d1)" by (rule prod.exhaust)
  have "before_promote snapshot now d =
      fold (\<lambda>job d. if job \<in> set (map cn_job_id snapshot) then d else snd (release_job job d)) (running_job_ids (dn_gate d)) d1"
    by (simp add: before_promote_def one Let_def)
  note u = release_unseen_effect [OF this]
  show "map_of (gt_jobs (dn_gate (before_promote snapshot now d))) k = (if reaped_by snapshot now d k then None else map_of (gt_jobs (dn_gate d)) k)"
    and "map_of (dn_created (before_promote snapshot now d)) k = (if reaped_by snapshot now d k then None else map_of (dn_created d) k)"
    using u reap_snapshot_effect [OF one] by (auto simp: reaped_by_def)
qed

subsection \<open>Nothing that fits is left waiting\<close>

definition blocked :: "string \<Rightarrow> gate \<Rightarrow> bool" where
  "blocked job g \<longleftrightarrow> (case map_of (gt_jobs g) job of
       None \<Rightarrow> True
     | Some e \<Rightarrow> \<not> ge_running e \<and> \<not> fits_within (ge_size e) (size_sub (gt_budget g) (gate_used g)))"

lemma try_start_used_mono:
  "vcpu (gate_used g) \<le> vcpu (gate_used (snd (try_start job g)))"
  "memory_mb (gate_used g) \<le> memory_mb (gate_used (snd (try_start job g)))"
proof -
  have "running_weight f g \<le> running_weight f (snd (try_start job g))" for f
  proof (cases "map_of (gt_jobs g) job")
    case (Some e)
    show ?thesis
      using weigh_insert_old [OF Some, of "\<lambda>e. if ge_running e then f (ge_size e) else 0" "e\<lparr>ge_running := True\<rparr>"]
      by (auto simp: try_start_def Some running_weight_def)
  qed (simp add: try_start_def)
  then show "vcpu (gate_used g) \<le> vcpu (gate_used (snd (try_start job g)))"
    "memory_mb (gate_used g) \<le> memory_mb (gate_used (snd (try_start job g)))"
    by (simp_all add: gate_used_vcpu gate_used_memory min.coboundedI1)
qed

lemma gt_budget_try_start [simp]: "gt_budget (snd (try_start job g)) = gt_budget g"
  by (auto simp: try_start_def split: option.splits)

lemma blocked_try_start:
  assumes "blocked job g"
  shows "blocked job (snd (try_start j g))" "fst (try_start job g) \<noteq> Some Started"
proof -
  show "fst (try_start job g) \<noteq> Some Started"
    using assms by (auto simp: blocked_def try_start_def split: option.splits)
  show "blocked job (snd (try_start j g))"
  proof (cases "j = job")
    case True
    then show ?thesis using assms by (auto simp: blocked_def try_start_def split: option.splits)
  next
    case False
    have same: "map_of (gt_jobs (snd (try_start j g))) job = map_of (gt_jobs g) job"
      using False by (auto simp: try_start_def split: option.splits)
    show ?thesis using assms try_start_used_mono [of g j]
      unfolding blocked_def same by (auto simp: fits_within_def size_sub_def split: option.splits)
  qed
qed

lemma not_started_blocked: "fst (try_start job g) \<noteq> Some Started \<Longrightarrow> blocked job (snd (try_start job g))"
  by (auto simp: blocked_def try_start_def split: option.splits if_splits)

lemma promote_blocks:
  "promote pending d = (started, d') \<Longrightarrow>
     (\<forall>j. blocked j (dn_gate d) \<longrightarrow> blocked j (dn_gate d'))
     \<and> dn_queue d' = filter (\<lambda>j. j \<notin> set started) (dn_queue d) \<and> (\<forall>j \<in> set pending - set started. blocked j (dn_gate d'))"
proof (induction pending arbitrary: d started d')
  case (Cons job pending)
  obtain out g where t: "try_start job (dn_gate d) = (out, g)" by (rule prod.exhaust)
  have keep: "blocked j g" if "blocked j (dn_gate d)" for j using blocked_try_start(1) [OF that, of job] by (simp add: t)
  show ?case
  proof (cases "out = Some Started")
    case True
    obtain s1 d1 where p: "promote pending (d\<lparr>dn_gate := g, dn_queue := queue_remove job (dn_queue d)\<rparr>) = (s1, d1)" by (rule prod.exhaust)
    have eq: "started = job # s1" "d' = d1" using Cons.prems by (simp_all add: t True p)
    show ?thesis unfolding eq using Cons.IH [OF p] keep by (auto simp: queue_remove_def intro: filter_cong)
  next
    case False
    then have p: "promote pending (d\<lparr>dn_gate := g\<rparr>) = (started, d')"
      using Cons.prems by (auto simp: t split: option.splits start_outcome.splits)
    have "blocked job g" using not_started_blocked [of job "dn_gate d"] False by (simp add: t)
    then show ?thesis using Cons.IH [OF p] keep by auto
  qed
qed simp

subsection \<open>Properties of the daemon\<close>

lemma adopted_gate_within:
  assumes "vcpu budget \<le> u32_top" "memory_mb budget \<le> u32_top" "queue_max \<le> u32_top"
    and d: "d = snd (adopt cs now (new_daemon budget queue_max))"
  shows "gate_within budget \<lparr>vcpu = max (vcpu budget) (running_weight vcpu (dn_gate d)),
      memory_mb = max (memory_mb budget) (running_weight memory_mb (dn_gate d))\<rparr> (max queue_max (length (gt_jobs (dn_gate d)))) (dn_gate d)"
proof -
  have "adoption_ok budget queue_max (fst (adopt cs now (new_daemon budget queue_max))) d"
    using adopt_ok [of cs now budget queue_max] by (simp add: d prod_eq_iff)
  then show ?thesis using assms(1-3) by (simp add: gate_within_def adoption_ok_def)
qed

text \<open>C4. The gate is never overcommitted. After start-up, whatever requests and ticks the daemon serves, in any
  interleaving of their critical sections and whatever Docker answers, the jobs that count as running use no
  more processors and memory than the budget, or than the adopted containers already used when that was more,
  and the gate holds no more jobs than the queue bound, or than were adopted, each under its own identifier.\<close>

theorem gate_never_overcommits:
  assumes "vcpu budget \<le> u32_top" "memory_mb budget \<le> u32_top" "queue_max \<le> u32_top"
    and "d = snd (adopt containers t0 (new_daemon budget queue_max))" and "daemon_serves\<^sup>*\<^sup>* d d'"
  shows "running_weight vcpu (dn_gate d') \<le> max (vcpu budget) (running_weight vcpu (dn_gate d))
    \<and> running_weight memory_mb (dn_gate d') \<le> max (memory_mb budget) (running_weight memory_mb (dn_gate d))
    \<and> length (gt_jobs (dn_gate d')) \<le> max queue_max (length (gt_jobs (dn_gate d)))
    \<and> distinct (map fst (gt_jobs (dn_gate d')))"
  using within_serves [OF assms(5) adopted_gate_within [OF assms(1-4)]] by (simp add: gate_within_def)

definition still_docker :: docker_create where
  "still_docker = \<lparr>dc_now_begin = 0, dc_now_finish = 1, dc_result = Ok ''box'', dc_join_error = None, dc_others = (\<lambda>_ d. d)\<rparr>"

definition plain_request :: "string \<Rightarrow> create_request" where
  "plain_request job = \<lparr>rq_job_id = job, rq_image = ''img'', rq_jit_config = ''jit'', rq_deadline = 100, rq_size = \<lparr>vcpu = 2, memory_mb = 4\<rparr>\<rparr>"

lemma plain_create_served:
  "daemon_serves\<^sup>*\<^sup>* d (snd (snd (create_job still_docker ''img'' (plain_request job) d)))"
  by (rule r_into_rtranclp, rule serve_create) (simp add: still_docker_def)

definition adopted_daemon :: daemon where
  "adopted_daemon = snd (adopt [\<lparr>ad_job_id = ''a'', ad_container_id = ''c1'', ad_deadline_ms = 50, ad_size = \<lparr>vcpu = 3, memory_mb = 1\<rparr>,
     ad_lifecycle = Life_Running\<rparr>] 10 (new_daemon \<lparr>vcpu = 2, memory_mb = 8\<rparr> 5))"

lemma plain_create_admitted:
  "length (gt_jobs (dn_gate (snd (snd (create_job still_docker ''img'' (plain_request ''b'') adopted_daemon))))) = 2"
  by (simp add: adopted_daemon_def adopt_def adopt_one_def action_for_def resume_def adopt_running_def new_daemon_def new_gate_def
      create_job_def plain_request_def admit_def fits_within_def still_docker_def run_admitted_create_def backend_create_def
      begin_create_def prune_def run_create_def finish_create_def remember_created_def tracks_def Let_def)

theorem gate_never_overcommits_witness:
  "let d' = snd (snd (create_job still_docker ''img'' (plain_request ''b'') adopted_daemon))
   in running_weight vcpu (dn_gate d') \<le> max 2 (running_weight vcpu (dn_gate adopted_daemon)) \<and> length (gt_jobs (dn_gate d')) = 2"
  using gate_never_overcommits [OF _ _ _ adopted_daemon_def plain_create_served [of adopted_daemon "''b''"]] plain_create_admitted
  by (simp add: Let_def)


definition one_running_job :: daemon where
  "one_running_job = \<lparr>dn_gate = \<lparr>gt_budget = \<lparr>vcpu = 4, memory_mb = 8\<rparr>, gt_queue_max = 5,
       gt_jobs = [(''a'', \<lparr>ge_size = \<lparr>vcpu = 2, memory_mb = 4\<rparr>, ge_running = True\<rparr>)]\<rparr>,
     dn_registry = [(''a'', Created ''c1'')], dn_queue = [], dn_created = [(''a'', ''c1'')]\<rparr>"


text \<open>No job that would fit is left waiting. After a tick, every job still in the start queue is either no longer
  tracked by the gate or is not running and does not fit in what the budget has left.\<close>

theorem tick_leaves_nothing_that_fits:
  "list_all (\<lambda>job. blocked job (dn_gate (snd (reconcile snapshot now d)))) (dn_queue (snd (reconcile snapshot now d)))"
proof -
  define b where "b = before_promote snapshot now d"
  obtain started d' where p: "promote (dn_queue b) b = (started, d')" by (rule prod.exhaust)
  have "snd (reconcile snapshot now d) = d'" using reconcile_parts(1) [of snapshot now d] p by (simp add: b_def)
  then show ?thesis using promote_blocks [OF p] by (auto simp: list_all_iff)
qed

text \<open>C36. Adoption after a restart accounts for every container. Each container found is exactly once resumed, put
  back in the queue or removed; the gate then holds exactly the resumed jobs, as running, and the requeued
  ones, as waiting within the budget, no two under one identifier, each with the container recorded for it, and
  the queue is the requeued jobs in their order.\<close>

theorem adoption_accounts_for_every_container:
  "case adopt containers now (new_daemon budget queue_max) of (a, d) \<Rightarrow>
     container_ids a = mset (map ad_container_id containers)
     \<and> distinct (adopted_ids a) \<and> set (map fst (gt_jobs (dn_gate d))) = set (adopted_ids a)
     \<and> list_all (holds_job True d) (an_resumed a) \<and> list_all (holds_job False d) (an_requeued a)
     \<and> dn_queue d = map aj_job_id (an_requeued a)"
  using adopt_ok [of containers now budget queue_max] by (auto simp: adoption_ok_def split: prod.split)

text \<open>A listing that fails is read as an empty one, and every running job is then released.\<close>

theorem listing_failure_releases_running_jobs:
  assumes "map_of (gt_jobs (dn_gate d)) job = Some e" "ge_running e"
  shows "map_of (gt_jobs (dn_gate (snd (reconcile (daemon_snapshot (Inl msg)) now d)))) job = None"
proof -
  have "job \<in> set (running_job_ids (dn_gate d))" using map_of_SomeD [OF assms(1)] assms(2) by (force simp: running_job_ids_def)
  then have "map_of (gt_jobs (dn_gate (before_promote [] now d))) job = None" by (simp add: before_promote_maps reaped_by_def)
  then show ?thesis by (simp add: reconcile_parts(1) daemon_snapshot_def promote_keeps(1))
qed

text \<open>A paused container of a running job is ordered removed, although adoption counts paused containers as running.\<close>

theorem paused_container_is_removed:
  assumes "job \<in> set (running_job_ids (dn_gate d))" "labels_from_map m = Ok \<lparr>jl_job_id = job, jl_deadline = t\<rparr>"
  shows "tk_remove (fst (reconcile (daemon_snapshot (Ok [\<lparr>sm_id = Some c, sm_labels = Some m, sm_state = Some St_Paused\<rparr>])) now d)) = [c]
    \<and> lifecycle_of (Some St_Paused) = Life_Running"
  using assms by (simp add: reconcile_parts(2) daemon_snapshot_def snapshot_of_def reaps_def lifecycle_of_def List.map_filter_def)

subsection \<open>A container describes its job\<close>

lemma parse_digits_show_nat: "parse_digits (show_nat n) = Some n"
  using show_nat_digits [of n] by (simp add: parse_digits_def list_all_iff)

lemma show_nat_Cons: "\<exists>c cs. show_nat n = c # cs \<and> is_ascii_digit c"
  using show_nat_digits [of n] show_nat_not_Nil [of n] by (cases "show_nat n") auto

lemma parse_show_i64: "- (2 ^ 63) \<le> n \<Longrightarrow> n < 2 ^ 63 \<Longrightarrow> parse_i64 (show_i64 n) = Some n"
proof -
  assume n: "- (2 ^ 63) \<le> n" "n < 2 ^ 63"
  show ?thesis
  proof (cases "n < 0")
    case True
    then show ?thesis using n by (simp add: parse_i64_def show_i64_def parse_digits_show_nat Let_def)
  next
    case False
    obtain c cs where c: "show_nat (nat n) = c # cs" "is_ascii_digit c" using show_nat_Cons by blast
    then have "c \<noteq> CHR ''-''" "c \<noteq> CHR ''+''" by (auto simp: is_ascii_digit_def)
    then show ?thesis using n False c parse_digits_show_nat [of "nat n"] by (simp add: parse_i64_def show_i64_def Let_def)
  qed
qed

lemma labels_roundtrip:
  assumes "- (2 ^ 63) \<le> jl_deadline l" "jl_deadline l < 2 ^ 63"
  shows "labels_from_map (labels_to_map l) = Ok l"
  using parse_show_i64 [OF assms]
  by (simp add: labels_from_map_def labels_to_map_def LABEL_JOB_ID_def LABEL_DEADLINE_def)

lemma vcpu_roundtrip: "n \<le> u32_top \<Longrightarrow> vcpu_from_nano_cpus (nano_cpus n) = n"
  by (simp add: vcpu_from_nano_cpus_def nano_cpus_def int_quot_def saturating_u32_def)

lemma memory_roundtrip: "n \<le> u32_top \<Longrightarrow> memory_mb_from_bytes (memory_bytes n) = n"
  by (simp add: memory_mb_from_bytes_def memory_bytes_def int_quot_def saturating_u32_def)

definition inspected :: "container_config \<Rightarrow> container_state \<Rightarrow> container_inspect" where
  "inspected cfg st = \<lparr>ci_labels = Some (cg_labels cfg), ci_nano_cpus = Some (cg_nano_cpus cfg), ci_memory = Some (cg_memory cfg), ci_status = Some st\<rparr>"

text \<open>A container carries its job through a restart of the daemon. Inspecting a container that was created from a
  request, in any state, gives back the job's identifier, deadline and size, with the lifecycle of that state.\<close>

theorem container_describes_its_job:
  assumes "- (2 ^ 63) \<le> rq_deadline req" "rq_deadline req < 2 ^ 63" "vcpu (rq_size req) \<le> u32_top" "memory_mb (rq_size req) \<le> u32_top"
  shows "adopted_from_inspect container (inspected (make_config req runtime) st) =
    Some \<lparr>ad_job_id = rq_job_id req, ad_container_id = container, ad_deadline_ms = rq_deadline req, ad_size = rq_size req,
      ad_lifecycle = lifecycle_of (Some st)\<rparr>"
  using labels_roundtrip [of "\<lparr>jl_job_id = rq_job_id req, jl_deadline = rq_deadline req\<rparr>"] assms
  by (simp add: adopted_from_inspect_def inspected_def make_config_def vcpu_roundtrip memory_roundtrip)

theorem container_describes_its_job_witness:
  "adopted_from_inspect ''c1'' (inspected (make_config (plain_request ''a'') ''runsc'') St_Paused) =
    Some \<lparr>ad_job_id = ''a'', ad_container_id = ''c1'', ad_deadline_ms = 100, ad_size = \<lparr>vcpu = 2, memory_mb = 4\<rparr>, ad_lifecycle = Life_Running\<rparr>"
  using container_describes_its_job [of "plain_request ''a''" "''c1''" "''runsc''" St_Paused]
  by (simp add: plain_request_def lifecycle_of_def)

end
