(* ===== verification/Daemon_Host.thy ===== *)
theory Daemon_Host
  imports Daemon Command_Dispatch "HOL-Library.Word"
begin

text \<open>
  What surrounds the daemon's state (\<open>crates/daemon/src/\<close>): its configuration and token file
  (\<open>config.rs\<close>), bearer authentication (\<open>auth.rs\<close>, \<open>routes/auth_middleware.rs\<close>), the pinned image
  (\<open>prepull.rs\<close>, \<open>docker/image.rs\<close>) and the start-up that binds the listener (\<open>main.rs\<close>).

  The environment, the token file's contents and Docker's answers are arguments. Bytes are compared
  as 8-bit words, the way the code accumulates their differences.
\<close>

unbundle bit_operations_syntax

subsection \<open>Configuration\<close>

datatype config_error =
    Missing_Env string
  | Invalid_Env_Encoding string
  | Invalid_Env_Value string string
  | Token_File_Read string
  | Token_File_Empty

definition DEFAULT_QUEUE_MAX :: nat where "DEFAULT_QUEUE_MAX = 32"
definition DEFAULT_RUNTIME :: string where "DEFAULT_RUNTIME = ''sysbox-runc''"

text \<open>\<open>env::var\<close>: unset, not Unicode, or a value.\<close>

datatype env_answer = Env_Unset | Env_Not_Unicode | Env_Value string

type_synonym env_source = "string \<Rightarrow> env_answer"

definition env_lookup :: "env_source \<Rightarrow> string \<Rightarrow> (config_error, string option) result" where
  "env_lookup env var = (case env var of Env_Value v \<Rightarrow> Ok (Some v) | Env_Unset \<Rightarrow> Ok None | Env_Not_Unicode \<Rightarrow> Err (Invalid_Env_Encoding var))"

definition required_env :: "env_source \<Rightarrow> string \<Rightarrow> (config_error, string) result" where
  "required_env env var = rbind (env_lookup env var) (\<lambda>v. ok_or (Missing_Env var) v)"

definition parse_required :: "(string \<Rightarrow> 'a option) \<Rightarrow> env_source \<Rightarrow> string \<Rightarrow> (config_error, 'a) result" where
  "parse_required from_str env var = rbind (required_env env var) (\<lambda>raw. ok_or (Invalid_Env_Value var raw) (from_str raw))"

definition parse_optional :: "(string \<Rightarrow> 'a option) \<Rightarrow> env_source \<Rightarrow> string \<Rightarrow> 'a \<Rightarrow> (config_error, 'a) result" where
  "parse_optional from_str env var dflt =
     rbind (env_lookup env var) (\<lambda>v. case v of
         Some raw \<Rightarrow> ok_or (Invalid_Env_Value var raw) (from_str raw)
       | None \<Rightarrow> Ok dflt)"

text \<open>\<open>u32::from_str\<close>.\<close>

definition parse_u32 :: "string \<Rightarrow> nat option" where
  "parse_u32 s = (case parse_digits (case s of c # r \<Rightarrow> if c = CHR ''+'' then r else s | [] \<Rightarrow> []) of
       Some n \<Rightarrow> if n \<le> u32_top then Some n else None | None \<Rightarrow> None)"

record 'a daemon_config =
  dc_token_file :: string
  dc_bind :: 'a
  dc_vcpu :: nat
  dc_memory_mb :: nat
  dc_queue_max :: nat
  dc_runtime :: string
  dc_image :: string

definition config_from_reader :: "(string \<Rightarrow> 'a option) \<Rightarrow> 'a \<Rightarrow> env_source \<Rightarrow> (config_error, 'a daemon_config) result" where
  "config_from_reader parse_addr default_bind env =
     rbind (required_env env ''TOOLU_DAEMON_TOKEN_FILE'') (\<lambda>token_file.
     rbind (parse_optional parse_addr env ''TOOLU_DAEMON_BIND'' default_bind) (\<lambda>bind.
     rbind (parse_required parse_u32 env ''TOOLU_DAEMON_VCPU'') (\<lambda>v.
     rbind (parse_required parse_u32 env ''TOOLU_DAEMON_MEMORY_MB'') (\<lambda>m.
     rbind (parse_optional parse_u32 env ''TOOLU_DAEMON_QUEUE_MAX'' DEFAULT_QUEUE_MAX) (\<lambda>q.
     rbind (parse_optional Some env ''TOOLU_DAEMON_RUNTIME'' DEFAULT_RUNTIME) (\<lambda>runtime.
     rbind (required_env env ''TOOLU_DAEMON_IMAGE'') (\<lambda>img.
       Ok \<lparr>dc_token_file = token_file, dc_bind = bind, dc_vcpu = v, dc_memory_mb = m, dc_queue_max = q,
           dc_runtime = runtime, dc_image = img\<rparr>)))))))"

record tokens =
  tok_current :: string
  tok_previous :: "string option"

text \<open>\<open>contents\<close> is what reading the token file gives.\<close>

definition read_tokens :: "(string, string) result \<Rightarrow> (config_error, tokens) result" where
  "read_tokens contents =
     (case contents of
        Inl e \<Rightarrow> Err (Token_File_Read e)
      | Inr text \<Rightarrow>
          (let ls = str_lines text; current = trim (case ls of l # _ \<Rightarrow> l | [] \<Rightarrow> [])
           in if current = [] then Err Token_File_Empty
              else Ok \<lparr>tok_current = current,
                       tok_previous = (case ls of _ # l # _ \<Rightarrow> (if trim l = [] then None else Some (trim l)) | _ \<Rightarrow> None)\<rparr>))"

subsection \<open>Bearer authentication\<close>

datatype auth_error = Missing_Header | Invalid_Scheme | Empty_Token | Token_Mismatch | Token_File config_error

definition BEARER_PREFIX :: string where "BEARER_PREFIX = ''Bearer ''"

definition as_bytes :: "string \<Rightarrow> 8 word list" where
  "as_bytes s = map (\<lambda>c. of_nat (ord c)) s"

definition bytes_eq :: "8 word list \<Rightarrow> 8 word list \<Rightarrow> bool" where
  "bytes_eq a b =
     (if length a \<noteq> length b then False else fold (\<lambda>(x, y) diff. diff OR (x XOR y)) (zip a b) 0 = 0)"

definition verify_bearer :: "string option \<Rightarrow> (string, string) result \<Rightarrow> (auth_error, unit) result" where
  "verify_bearer header token_file =
     rbind (ok_or Missing_Header header) (\<lambda>h.
     rbind (ok_or Invalid_Scheme (strip_prefix_str BEARER_PREFIX h)) (\<lambda>token.
       if token = [] then Err Empty_Token
       else case read_tokens token_file of
              Inl e \<Rightarrow> Err (Token_File e)
            | Inr toks \<Rightarrow>
                if bytes_eq (as_bytes token) (as_bytes (tok_current toks))
                   \<or> (case tok_previous toks of Some p \<Rightarrow> bytes_eq (as_bytes token) (as_bytes p) | None \<Rightarrow> False)
                then Ok () else Err Token_Mismatch))"

definition UNAUTHORIZED_BODY :: string where "UNAUTHORIZED_BODY = ''unauthorized''"

text \<open>The middleware around every route: \<open>next\<close> is the rest of the router.\<close>

definition require_bearer :: "string option \<Rightarrow> (string, string) result \<Rightarrow> ('s \<Rightarrow> http_reply \<times> 's) \<Rightarrow> 's \<Rightarrow> http_reply \<times> 's" where
  "require_bearer header token_file nxt s =
     (case verify_bearer header token_file of Inr _ \<Rightarrow> nxt s | Inl _ \<Rightarrow> (Reply_Error 401 UNAUTHORIZED_BODY, s))"

subsection \<open>The pinned image\<close>

datatype image_presence = Resident | Absent
datatype pull_attempt = Pull_Succeeded | Pull_Failed
datatype pull_outcome = Pulled | Failed_But_Resident | Failed_And_Absent
datatype startup_decision = Bind | Retry | Give_Up
datatype refresh_decision = Keep_Serving | Warn_Missing_Image

fun classify_pull :: "pull_attempt \<Rightarrow> image_presence \<Rightarrow> pull_outcome" where
  "classify_pull Pull_Succeeded Resident = Pulled"
| "classify_pull Pull_Failed Resident = Failed_But_Resident"
| "classify_pull _ Absent = Failed_And_Absent"

definition startup_decide :: "pull_outcome \<Rightarrow> nat \<Rightarrow> startup_decision" where
  "startup_decide out attempts_left =
     (case out of Failed_And_Absent \<Rightarrow> if 0 < attempts_left then Retry else Give_Up | _ \<Rightarrow> Bind)"

definition refresh_decide :: "pull_outcome \<Rightarrow> refresh_decision" where
  "refresh_decide out = (case out of Failed_And_Absent \<Rightarrow> Warn_Missing_Image | _ \<Rightarrow> Keep_Serving)"

definition rsplit_once_char :: "char \<Rightarrow> string \<Rightarrow> (string \<times> string) option" where
  "rsplit_once_char c s = map_option (\<lambda>(a, b). (rev b, rev a)) (split_once_char c (rev s))"

definition DEFAULT_TAG :: string where "DEFAULT_TAG = ''latest''"

definition split_image_ref :: "string \<Rightarrow> string \<times> string" where
  "split_image_ref img =
     (case rsplit_once_char (CHR ''@'') img of
        Some (repository, digest) \<Rightarrow> (repository, digest)
      | None \<Rightarrow>
          (case rsplit_once_char (CHR '':'') img of
             Some (repository, tag) \<Rightarrow> if CHR ''/'' \<notin> set tag then (repository, tag) else (img, DEFAULT_TAG)
           | None \<Rightarrow> (img, DEFAULT_TAG)))"

datatype docker_failure = Docker_Not_Found | Docker_Failed string

definition image_present :: "(docker_failure, unit) result \<Rightarrow> (docker_failure, bool) result" where
  "image_present inspect = (case inspect of Inr _ \<Rightarrow> Ok True | Inl Docker_Not_Found \<Rightarrow> Ok False | Inl e \<Rightarrow> Err e)"

text \<open>\<open>frames repository tag\<close> is the pull's progress, which ends at the first frame that is an error.\<close>

fun drain_frames :: "(docker_failure, unit) result list \<Rightarrow> (docker_failure, unit) result" where
  "drain_frames [] = Ok ()"
| "drain_frames (Inr _ # fs) = drain_frames fs"
| "drain_frames (Inl e # fs) = Err e"

definition pull_image :: "(string \<Rightarrow> string \<Rightarrow> (docker_failure, unit) result list) \<Rightarrow> string \<Rightarrow> (docker_failure, unit) result" where
  "pull_image frames img = (case split_image_ref img of (repository, tag) \<Rightarrow> drain_frames (frames repository tag))"

definition attempt_pull ::
  "(string \<Rightarrow> string \<Rightarrow> (docker_failure, unit) result list) \<Rightarrow> (docker_failure, unit) result \<Rightarrow> string \<Rightarrow> pull_outcome" where
  "attempt_pull frames inspect img =
     classify_pull (case pull_image frames img of Inr _ \<Rightarrow> Pull_Succeeded | Inl _ \<Rightarrow> Pull_Failed)
       (case image_present inspect of Inr True \<Rightarrow> Resident | _ \<Rightarrow> Absent)"

subsection \<open>Start-up\<close>

definition PREPULL_ATTEMPTS :: nat where "PREPULL_ATTEMPTS = 5"

datatype startup_error = Inventory string | Image_Unavailable string nat

text \<open>\<open>frames n\<close> and \<open>inspect n\<close> are Docker's answers to attempt number \<open>n\<close>.\<close>

function pull_from ::
  "(nat \<Rightarrow> string \<Rightarrow> string \<Rightarrow> (docker_failure, unit) result list) \<Rightarrow> (nat \<Rightarrow> (docker_failure, unit) result) \<Rightarrow> string \<Rightarrow> nat
     \<Rightarrow> (startup_error, unit) result" where
  "pull_from frames inspect img attempt =
     (if PREPULL_ATTEMPTS < attempt then Err (Image_Unavailable img PREPULL_ATTEMPTS)
      else case startup_decide (attempt_pull (frames attempt) (inspect attempt) img) (PREPULL_ATTEMPTS - attempt) of
             Bind \<Rightarrow> Ok ()
           | Retry \<Rightarrow> pull_from frames inspect img (attempt + 1)
           | Give_Up \<Rightarrow> Err (Image_Unavailable img PREPULL_ATTEMPTS))"
  by pat_completeness auto
termination by (relation "measure (\<lambda>(_, _, _, attempt). Suc PREPULL_ATTEMPTS - attempt)") auto

declare pull_from.simps [simp del]

definition pull_until_resident where
  "pull_until_resident frames inspect img = pull_from frames inspect img 1"

definition budget_of :: "'a daemon_config \<Rightarrow> job_size" where
  "budget_of c = \<lparr>vcpu = dc_vcpu c, memory_mb = dc_memory_mb c\<rparr>"

text \<open>Everything before the listener is bound: adoption, then the image. The result is the containers to
  remove and the state the router starts with.\<close>

definition start_daemon ::
  "(string, string option list) result \<Rightarrow> (string \<Rightarrow> (string, container_inspect) result)
     \<Rightarrow> (nat \<Rightarrow> string \<Rightarrow> string \<Rightarrow> (docker_failure, unit) result list) \<Rightarrow> (nat \<Rightarrow> (docker_failure, unit) result)
     \<Rightarrow> int \<Rightarrow> 'a daemon_config \<Rightarrow> (startup_error, string list \<times> daemon) result" where
  "start_daemon listed inspect frames inspect_image now c =
     (case adopt_existing_jobs listed inspect now (new_daemon (budget_of c) (dc_queue_max c)) of
        Inl e \<Rightarrow> Err (Inventory e)
      | Inr started \<Rightarrow> rbind (pull_until_resident frames inspect_image (dc_image c)) (\<lambda>_. Ok started))"

subsection \<open>Authentication\<close>

lemma xor_zero_iff: "(x :: 8 word) XOR y = 0 \<longleftrightarrow> x = y"
  by (metis xor.assoc xor.left_neutral xor_self_eq)

lemma or_zero_iff: "(x :: 8 word) OR y = 0 \<longleftrightarrow> x = 0 \<and> y = 0"
  by (auto simp: bit_eq_iff bit_or_iff)

lemma fold_diff_zero:
  "length a = length b \<Longrightarrow> fold (\<lambda>(x, y) diff. diff OR (x XOR y)) (zip a b) (d :: 8 word) = 0 \<longleftrightarrow> d = 0 \<and> a = b"
proof (induction a b arbitrary: d rule: list_induct2)
  case (Cons x xs y ys)
  then show ?case by (auto simp: or_zero_iff xor_zero_iff)
qed simp

lemma bytes_eq_iff: "bytes_eq a b \<longleftrightarrow> a = b"
  by (auto simp: bytes_eq_def fold_diff_zero)

lemma as_bytes_inject: "as_bytes s = as_bytes t \<longleftrightarrow> s = t"
proof -
  have "inj (\<lambda>c. of_nat (of_char c :: nat) :: 8 word)"
  proof (rule injI)
    fix c d :: char
    assume "(of_nat (of_char c :: nat) :: 8 word) = of_nat (of_char d :: nat)"
    then have "take_bit 8 (of_char c :: nat) = take_bit 8 (of_char d :: nat)"
      by (simp add: word_of_nat_eq_iff)
    then have "(of_char c :: nat) = of_char d" by (simp add: take_bit_eq_mod)
    then show "c = d" by simp
  qed
  then show ?thesis unfolding as_bytes_def by (simp add: inj_map_eq_map)
qed

text \<open>The tokens a token file holds.\<close>

definition accepted_tokens :: "(string, string) result \<Rightarrow> string set" where
  "accepted_tokens token_file =
     (case read_tokens token_file of Inr t \<Rightarrow> insert (tok_current t) (set_option (tok_previous t)) | Inl _ \<Rightarrow> {})"

lemma accepted_not_empty: "[] \<notin> accepted_tokens token_file"
  by (auto simp: accepted_tokens_def read_tokens_def Let_def split: sum.splits if_splits list.splits)

lemma verify_bearer_iff:
  "verify_bearer header token_file = Ok () \<longleftrightarrow> (\<exists>token \<in> accepted_tokens token_file. header = Some (BEARER_PREFIX @ token))"
proof (cases header)
  case (Some h)
  show ?thesis
  proof (cases "strip_prefix_str BEARER_PREFIX h")
    case None
    then have "\<nexists>t. h = BEARER_PREFIX @ t" by (metis option.distinct(1) strip_prefix_str_Some)
    then show ?thesis by (auto simp: verify_bearer_def Some None)
  next
    case (Some t)
    then have h: "h = BEARER_PREFIX @ t" by (simp add: strip_prefix_str_Some)
    have "verify_bearer header token_file = Ok () \<longleftrightarrow> t \<noteq> [] \<and> t \<in> accepted_tokens token_file"
      by (auto simp: verify_bearer_def \<open>header = Some h\<close> Some accepted_tokens_def bytes_eq_iff as_bytes_inject split: sum.splits option.splits)
    then show ?thesis using accepted_not_empty [of token_file] by (auto simp: \<open>header = Some h\<close> h)
  qed
qed (simp add: verify_bearer_def)

text \<open>C38. A request reaches a route exactly when its header carries a token of the token file as it is now: the
  current one or the previous one, whole. Every other request changes nothing and is answered 401 with a fixed
  body that does not depend on the token file.\<close>

theorem only_token_holders_are_served:
  "require_bearer header token_file nxt s =
     (if header \<in> (\<lambda>t. Some (''Bearer '' @ t)) ` accepted_tokens token_file then nxt s else (Reply_Error 401 ''unauthorized'', s))"
proof -
  have "verify_bearer header token_file = Ok () \<longleftrightarrow> header \<in> (\<lambda>t. Some (''Bearer '' @ t)) ` accepted_tokens token_file"
    unfolding verify_bearer_iff by (auto simp: BEARER_PREFIX_def)
  then show ?thesis
    by (auto simp: require_bearer_def UNAUTHORIZED_BODY_def split: sum.splits)
qed

subsection \<open>Start-up\<close>

lemma attempt_binds_iff:
  "startup_decide (attempt_pull fr ins img) n = Bind \<longleftrightarrow> ins = Ok ()"
  by (auto simp: startup_decide_def attempt_pull_def image_present_def
      split: sum.splits docker_failure.splits pull_outcome.splits)

lemma attempt_never_gives_up_early: "startup_decide out n \<noteq> Bind \<Longrightarrow> startup_decide out n = (if 0 < n then Retry else Give_Up)"
  by (cases out) (simp_all add: startup_decide_def)

lemma pull_from_iff:
  "pull_from frames ins img a = Ok () \<longleftrightarrow> (\<exists>n. a \<le> n \<and> n \<le> PREPULL_ATTEMPTS \<and> ins n = Ok ())"
proof (induction frames ins img a rule: pull_from.induct)
  case (1 frames ins img a)
  let ?dec = "startup_decide (attempt_pull (frames a) (ins a) img) (PREPULL_ATTEMPTS - a)"
  show ?case
  proof (cases "PREPULL_ATTEMPTS < a")
    case True
    then show ?thesis by (subst pull_from.simps) auto
  next
    case False
    show ?thesis
    proof (cases "ins a = Ok ()")
      case True
      then have "?dec = Bind" by (simp add: attempt_binds_iff)
      then show ?thesis using False True by (subst pull_from.simps) auto
    next
      case no: False
      then have d: "?dec = (if a < PREPULL_ATTEMPTS then Retry else Give_Up)"
        using attempt_binds_iff [of "frames a" "ins a" img] attempt_never_gives_up_early [of "attempt_pull (frames a) (ins a) img" "PREPULL_ATTEMPTS - a"]
        by simp
      show ?thesis
      proof (cases "a < PREPULL_ATTEMPTS")
        case True
        then have "pull_from frames ins img a = pull_from frames ins img (a + 1)" using d False by (subst pull_from.simps) simp
        moreover have "a \<le> n \<and> ins n = Ok () \<longleftrightarrow> a + 1 \<le> n \<and> ins n = Ok ()" for n
          using no by (metis Suc_eq_plus1 Suc_leD le_antisym not_less_eq_eq)
        ultimately show ?thesis using "1.IH" False d True by auto
      next
        case last: False
        then have "n = a" if "a \<le> n" "n \<le> PREPULL_ATTEMPTS" for n using that by simp
        then show ?thesis using d False last no by (subst pull_from.simps) auto
      qed
    qed
  qed
qed

text \<open>The daemon starts to serve only over an image that is there and a gate that knows the box. Start-up
  succeeds exactly when the existing containers could be listed and one of the first five attempts found the
  pinned image resident, and the state it then serves from is the adoption of those containers.\<close>

theorem daemon_starts_with_image_and_adoption:
  "start_daemon listed inspect frames inspect_image now c = Ok (removed, d) \<longleftrightarrow>
     (\<exists>cs n. existing_jobs listed inspect = Ok cs \<and> 1 \<le> n \<and> n \<le> 5 \<and> inspect_image n = Ok ()
        \<and> removed = an_remove (fst (adopt cs now (new_daemon (budget_of c) (dc_queue_max c))))
        \<and> d = snd (adopt cs now (new_daemon (budget_of c) (dc_queue_max c))))"
  (is "_ = ?rhs")
proof (cases "existing_jobs listed inspect")
  case (Inl e)
  then show ?thesis by (simp add: start_daemon_def adopt_existing_jobs_def)
next
  case (Inr cs)
  let ?A = "adopt cs now (new_daemon (budget_of c) (dc_queue_max c))"
  have "start_daemon listed inspect frames inspect_image now c = Ok (removed, d) \<longleftrightarrow>
      pull_until_resident frames inspect_image (dc_image c) = Ok () \<and> an_remove (fst ?A) = removed \<and> snd ?A = d"
    by (cases "pull_until_resident frames inspect_image (dc_image c)") (auto simp: start_daemon_def adopt_existing_jobs_def Inr)
  also have "\<dots> \<longleftrightarrow> ?rhs"
    by (auto simp: pull_until_resident_def pull_from_iff PREPULL_ATTEMPTS_def Inr)
  finally show ?thesis .
qed

end
