(* ===== verification/Listener.thy ===== *)
theory Listener
  imports Step_Context
begin

text \<open>
  The listener's protocol loop (\<open>crates/listener/src/\<close>): what a broker message is (\<open>broker_message.rs\<close>,
  \<open>message_route.rs\<close>), the idle poll and the cancellation watcher that runs beside a job
  (\<open>job_lifecycle.rs\<close>, \<open>job_lifecycle/idle.rs\<close>, \<open>broker_refresh.rs\<close>), bounded retries (\<open>retry.rs\<close>,
  \<open>session_conflict.rs\<close>), the lock renewal with its outage watchdog (\<open>helpers.rs\<close>, \<open>outage.rs\<close>,
  \<open>outage_override.rs\<close>), the completion of a job (\<open>job_lifecycle/completion.rs\<close>) and the always-online run
  loop (\<open>loop_decision.rs\<close> and \<open>run_cmd.rs\<close> of the command line).

  Network answers, the clock, random numbers and cancellation are functions of the turn or attempt
  number. Durations are milliseconds. Loops that wait for the network take fuel, and \<open>None\<close> is a loop
  that is still running.
\<close>

subsection \<open>Broker messages\<close>

datatype message_type =
    Runner_Job_Request | Broker_Migration | Job_Cancellation | Force_Token_Refresh
  | Runner_Refresh | Agent_Refresh | Runner_Refresh_Config | Hosted_Runner_Shutdown
  | Unknown_Type string

definition message_type_of :: "string \<Rightarrow> message_type" where
  "message_type_of s =
     (if s = ''RunnerJobRequest'' then Runner_Job_Request
      else if s = ''BrokerMigration'' then Broker_Migration
      else if s = ''JobCancellation'' then Job_Cancellation
      else if s = ''ForceTokenRefresh'' then Force_Token_Refresh
      else if s = ''RunnerRefresh'' then Runner_Refresh
      else if s = ''AgentRefresh'' then Agent_Refresh
      else if s = ''RunnerRefreshConfig'' then Runner_Refresh_Config
      else if s = ''HostedRunnerShutdown'' then Hosted_Runner_Shutdown
      else Unknown_Type s)"

record broker_message =
  bm_message_id :: int
  bm_message_type :: message_type
  bm_body :: string
  bm_iv :: "string option"

datatype message_route = Acquire_Job | Migrate | Route_Cancel | Refresh_Token | Unsupported_Control | Shutdown | Skip_Unknown

fun route :: "message_type \<Rightarrow> message_route" where
  "route Runner_Job_Request = Acquire_Job"
| "route Broker_Migration = Migrate"
| "route Job_Cancellation = Route_Cancel"
| "route Force_Token_Refresh = Refresh_Token"
| "route Runner_Refresh = Unsupported_Control"
| "route Agent_Refresh = Unsupported_Control"
| "route Runner_Refresh_Config = Unsupported_Control"
| "route Hosted_Runner_Shutdown = Shutdown"
| "route (Unknown_Type _) = Skip_Unknown"

datatype poll_outcome =
    Po_No_Work
  | Po_Migrated string int
  | Po_Job broker_message
  | Po_Cancel broker_message string
  | Po_Refresh_Token int
  | Po_Unsupported_Control int string
  | Po_Shutdown int
  | Po_Unknown int
  | Po_Skip int
  | Po_Network_Error runner_error
  | Po_Cancelled

fun outcome_message_id :: "poll_outcome \<Rightarrow> int option" where
  "outcome_message_id (Po_Migrated url i) = Some i"
| "outcome_message_id (Po_Skip i) = Some i"
| "outcome_message_id (Po_Refresh_Token i) = Some i"
| "outcome_message_id (Po_Unsupported_Control i k) = Some i"
| "outcome_message_id (Po_Shutdown i) = Some i"
| "outcome_message_id (Po_Unknown i) = Some i"
| "outcome_message_id (Po_Job m) = Some (bm_message_id m)"
| "outcome_message_id (Po_Cancel m j) = Some (bm_message_id m)"
| "outcome_message_id Po_No_Work = None"
| "outcome_message_id (Po_Network_Error e) = None"
| "outcome_message_id Po_Cancelled = None"

text \<open>The session's key, decryption and the JSON bodies are library code.\<close>

record broker_externs =
  bx_encrypted :: bool
  bx_decrypt :: "string \<Rightarrow> string \<Rightarrow> (runner_error, string) result"
  bx_migration_url :: "string \<Rightarrow> (string, string) result"
  bx_cancel_job_id :: "string \<Rightarrow> (string, string) result"
  bx_job_request :: "string \<Rightarrow> (string, string \<times> string \<times> string) result"

definition decrypt_body_if_needed :: "broker_externs \<Rightarrow> broker_message \<Rightarrow> (runner_error, broker_message) result" where
  "decrypt_body_if_needed X m =
     (if \<not> bx_encrypted X then Ok m
      else rbind (ok_or (Protocol ''encrypted broker message missing iv'') (bm_iv m)) (\<lambda>iv.
           rbind (bx_decrypt X (bm_body m) iv) (\<lambda>plain.
             if valid_utf8 plain then Ok (m\<lparr>bm_body := plain\<rparr>) else Err (Protocol ''decrypted broker body not UTF-8''))))"

definition classify_message :: "broker_externs \<Rightarrow> broker_message \<Rightarrow> poll_outcome" where
  "classify_message X m =
     (case route (bm_message_type m) of
        Migrate \<Rightarrow> (case bx_migration_url X (bm_body m) of Inr url \<Rightarrow> Po_Migrated url (bm_message_id m) | Inl _ \<Rightarrow> Po_Skip (bm_message_id m))
      | Acquire_Job \<Rightarrow> Po_Job m
      | Refresh_Token \<Rightarrow> Po_Refresh_Token (bm_message_id m)
      | Unsupported_Control \<Rightarrow> Po_Unsupported_Control (bm_message_id m)
          (case bm_message_type m of Runner_Refresh \<Rightarrow> ''RunnerRefresh'' | Agent_Refresh \<Rightarrow> ''AgentRefresh''
             | Runner_Refresh_Config \<Rightarrow> ''RunnerRefreshConfig'' | _ \<Rightarrow> ''known control'')
      | Shutdown \<Rightarrow> Po_Shutdown (bm_message_id m)
      | Skip_Unknown \<Rightarrow> Po_Unknown (bm_message_id m)
      | Route_Cancel \<Rightarrow> (case bx_cancel_job_id X (bm_body m) of Inr job \<Rightarrow> Po_Cancel m job | Inl _ \<Rightarrow> Po_Skip (bm_message_id m)))"

definition classify_received_message :: "broker_externs \<Rightarrow> broker_message \<Rightarrow> poll_outcome" where
  "classify_received_message X m =
     (if route (bm_message_type m) \<in> {Acquire_Job, Migrate, Route_Cancel}
      then (case decrypt_body_if_needed X m of Inr m' \<Rightarrow> classify_message X m' | Inl _ \<Rightarrow> Po_Skip (bm_message_id m))
      else classify_message X m)"

subsection \<open>Backoff and retries\<close>

definition POLL_BACKOFF_START :: nat where "POLL_BACKOFF_START = 1000"
definition POLL_BACKOFF_MAX :: nat where "POLL_BACKOFF_MAX = 60000"
definition BACKOFF_START :: nat where "BACKOFF_START = 1000"
definition BACKOFF_MAX :: nat where "BACKOFF_MAX = 60000"
definition REPORT_RETRY_MAX :: nat where "REPORT_RETRY_MAX = 600000"
definition REFRESH_RETRY_BUDGET :: nat where "REFRESH_RETRY_BUDGET = 30000"

text \<open>\<open>r\<close> is the random number drawn, reduced to the range asked for.\<close>

definition jittered_backoff :: "nat \<Rightarrow> nat \<Rightarrow> nat" where
  "jittered_backoff d r = (let half = min (d div 2) (2 ^ 64 - 1) in if half = 0 then d else half + r mod half)"

text \<open>Attempt number \<open>n\<close>: its result, the time elapsed once it has settled, the random number and whether
  cancellation fires during the sleep after it.\<close>

record 'a retry_world =
  rw_op :: "nat \<Rightarrow> (runner_error, 'a) result"
  rw_elapsed :: "nat \<Rightarrow> nat"
  rw_random :: "nat \<Rightarrow> nat"
  rw_cancelled :: "nat \<Rightarrow> bool"

definition retry_sleep :: "'a retry_world \<Rightarrow> nat \<Rightarrow> nat \<Rightarrow> nat \<Rightarrow> nat" where
  "retry_sleep W budget n backoff = min (jittered_backoff backoff (rw_random W n)) (budget - rw_elapsed W n)"

fun retry_from :: "nat \<Rightarrow> 'a retry_world \<Rightarrow> nat \<Rightarrow> nat \<Rightarrow> nat \<Rightarrow> (runner_error, 'a) result option" where
  "retry_from 0 W budget n backoff = None"
| "retry_from (Suc fuel) W budget n backoff =
     (case rw_op W n of
        Inr v \<Rightarrow> Some (Ok v)
      | Inl (Network_Error m) \<Rightarrow>
          if budget \<le> rw_elapsed W n then Some (Err (Network_Error m))
          else if rw_cancelled W n then Some (Err (Network_Error m))
          else retry_from fuel W budget (Suc n) (min (2 * backoff) BACKOFF_MAX)
      | Inl e \<Rightarrow> Some (Err e))"

definition retry_transient :: "nat \<Rightarrow> 'a retry_world \<Rightarrow> nat \<Rightarrow> (runner_error, 'a) result option" where
  "retry_transient fuel W budget = retry_from fuel W budget 0 BACKOFF_START"

subsection \<open>Session conflicts\<close>

record session_conflict_policy =
  cp_interval :: nat
  cp_max_attempts :: nat

definition default_conflict_policy :: session_conflict_policy where
  "default_conflict_policy = \<lparr>cp_interval = 30000, cp_max_attempts = 8\<rparr>"

function conflict_from ::
  "(nat \<Rightarrow> (runner_error, 'a) result) \<Rightarrow> (nat \<Rightarrow> bool) \<Rightarrow> session_conflict_policy \<Rightarrow> nat \<Rightarrow> (runner_error, 'a option) result" where
  "conflict_from op cancelled policy attempt =
     (case op attempt of
        Inr v \<Rightarrow> Ok (Some v)
      | Inl (Session_Conflict m) \<Rightarrow>
          if cp_max_attempts policy \<le> attempt then Err (Session_Conflict m)
          else if cancelled attempt then Ok None
          else conflict_from op cancelled policy (attempt + 1)
      | Inl e \<Rightarrow> Err e)"
  by pat_completeness auto
termination by (relation "measure (\<lambda>(_, _, policy, attempt). cp_max_attempts policy - attempt)") auto

declare conflict_from.simps [simp del]

text \<open>Attempts count up from one and the policy allows at least one, so the test for the last attempt, an
  equation in the source, is an inequality here.\<close>

definition retry_session_conflict where
  "retry_session_conflict op cancelled policy = conflict_from op cancelled policy 1"

subsection \<open>The session\<close>

record session_ctx =
  sc_token :: string
  sc_broker_url :: string
  sc_cancelled :: bool
  sc_job_acquired :: bool

text \<open>What one turn of a poll loop meets. \<open>pw_stopped n k\<close> and \<open>pw_drained n k\<close> tell whether the process's
  cancellation or the drain has fired at the point \<open>k\<close> of turn \<open>n\<close>; \<open>pw_poll\<close> is the broker's answer to a
  poll with a URL, a token and a cursor; \<open>pw_refresh\<close> is the exchange of the token.\<close>

record poll_world =
  pw_stopped :: "nat \<Rightarrow> nat \<Rightarrow> bool"
  pw_drained :: "nat \<Rightarrow> nat \<Rightarrow> bool"
  pw_poll :: "nat \<Rightarrow> string \<Rightarrow> string \<Rightarrow> int \<Rightarrow> (runner_error, broker_message option) result"
  pw_refresh :: "nat \<Rightarrow> (runner_error, string) result"

definition cancelled_at :: "poll_world \<Rightarrow> nat \<Rightarrow> nat \<Rightarrow> session_ctx \<Rightarrow> bool" where
  "cancelled_at W n k ctx \<longleftrightarrow> sc_cancelled ctx \<or> pw_stopped W n k"

definition poll_once :: "broker_externs \<Rightarrow> poll_world \<Rightarrow> nat \<Rightarrow> session_ctx \<Rightarrow> string \<Rightarrow> int \<Rightarrow> poll_outcome" where
  "poll_once X W n ctx token last_message_id =
     (if cancelled_at W n 0 ctx then Po_Cancelled
      else case pw_poll W n (sc_broker_url ctx) token last_message_id of
             Inr None \<Rightarrow> Po_No_Work
           | Inr (Some m) \<Rightarrow> classify_received_message X m
           | Inl e \<Rightarrow> Po_Network_Error e)"

definition is_redelivery :: "int \<Rightarrow> poll_outcome \<Rightarrow> bool" where
  "is_redelivery last_message_id out = (case outcome_message_id out of Some i \<Rightarrow> i \<le> last_message_id | None \<Rightarrow> False)"

definition next_poll_backoff :: "nat \<Rightarrow> nat" where
  "next_poll_backoff backoff = min (2 * backoff) POLL_BACKOFF_MAX"

text \<open>The doubled backoff, or \<open>None\<close> when cancellation fires during the sleep.\<close>

definition backoff_after_poll_error :: "poll_world \<Rightarrow> nat \<Rightarrow> session_ctx \<Rightarrow> nat \<Rightarrow> nat option" where
  "backoff_after_poll_error W n ctx backoff = (if cancelled_at W n 1 ctx then None else Some (next_poll_backoff backoff))"

definition refresh_access_token :: "poll_world \<Rightarrow> nat \<Rightarrow> session_ctx \<Rightarrow> (runner_error, string) result" where
  "refresh_access_token W n ctx =
     (if cancelled_at W n 2 ctx then Err Job_Cancelled
      else rbind (pw_refresh W n) (\<lambda>token.
             if token = [] then Err (Protocol ''token exchange returned an empty access token'') else Ok token))"

subsection \<open>Idle\<close>

datatype idle_decision = Idle_Continue | Idle_Exit | Idle_Job broker_message

definition refresh_idle_token :: "poll_world \<Rightarrow> nat \<Rightarrow> session_ctx \<Rightarrow> (runner_error, idle_decision) result \<times> session_ctx" where
  "refresh_idle_token W n ctx =
     (case refresh_access_token W n ctx of
        Inr next \<Rightarrow> (Ok Idle_Continue, ctx\<lparr>sc_token := next\<rparr>)
      | Inl Job_Cancelled \<Rightarrow> (Ok Idle_Exit, ctx)
      | Inl e \<Rightarrow> (Err e, ctx))"

fun handle_idle_control :: "poll_world \<Rightarrow> nat \<Rightarrow> session_ctx \<Rightarrow> poll_outcome \<Rightarrow> (runner_error, idle_decision) result \<times> session_ctx" where
  "handle_idle_control W n ctx (Po_Shutdown i) = (Ok Idle_Exit, ctx\<lparr>sc_cancelled := True\<rparr>)"
| "handle_idle_control W n ctx (Po_Refresh_Token i) = refresh_idle_token W n ctx"
| "handle_idle_control W n ctx _ = (Ok Idle_Continue, ctx)"

text \<open>The decision, the session and the next backoff.\<close>

definition handle_idle_outcome ::
  "poll_world \<Rightarrow> nat \<Rightarrow> session_ctx \<Rightarrow> poll_outcome \<Rightarrow> nat \<Rightarrow> (runner_error, idle_decision) result \<times> session_ctx \<times> nat" where
  "handle_idle_outcome W n ctx out backoff =
     (case out of
        Po_Cancelled \<Rightarrow> (Ok Idle_Exit, ctx, backoff)
      | Po_No_Work \<Rightarrow> (Ok Idle_Continue, ctx, POLL_BACKOFF_START)
      | Po_Migrated url i \<Rightarrow> (Ok Idle_Continue, ctx\<lparr>sc_broker_url := url\<rparr>, POLL_BACKOFF_START)
      | Po_Job m \<Rightarrow> (Ok (Idle_Job m), ctx, backoff)
      | Po_Cancel m job \<Rightarrow> (Ok Idle_Exit, ctx\<lparr>sc_cancelled := True\<rparr>, backoff)
      | Po_Network_Error e \<Rightarrow>
          (case backoff_after_poll_error W n ctx backoff of
             Some next \<Rightarrow> (Ok Idle_Continue, ctx, next) | None \<Rightarrow> (Ok Idle_Exit, ctx, backoff))
      | _ \<Rightarrow> (case handle_idle_control W n ctx out of (dec, ctx') \<Rightarrow> (dec, ctx', case dec of Inr _ \<Rightarrow> POLL_BACKOFF_START | Inl _ \<Rightarrow> backoff)))"

record poll_state =
  ps_ctx :: session_ctx
  ps_cursor :: int
  ps_backoff :: nat

datatype 'r turn = Again poll_state | Finished 'r session_ctx

text \<open>Outcomes whose handling waits, so that the drain can fire before it is done.\<close>

fun handling_waits :: "poll_outcome \<Rightarrow> bool" where
  "handling_waits (Po_Network_Error e) = True"
| "handling_waits (Po_Refresh_Token i) = True"
| "handling_waits _ = False"

text \<open>One turn of the idle loop. Where a future loses the race against the drain, its effects are lost with it.\<close>

definition idle_turn :: "broker_externs \<Rightarrow> poll_world \<Rightarrow> nat \<Rightarrow> poll_state \<Rightarrow> (runner_error, broker_message option) result turn" where
  "idle_turn X W n s =
     (if pw_drained W n 0 \<or> pw_drained W n 1 then Finished (Ok None) (ps_ctx s)
      else let out = poll_once X W n (ps_ctx s) (sc_token (ps_ctx s)) (ps_cursor s)
           in if is_redelivery (ps_cursor s) out
              then (if pw_drained W n 2 then Finished (Ok None) (ps_ctx s)
                    else if cancelled_at W n 1 (ps_ctx s) then Finished (Ok None) (ps_ctx s)
                    else Again (s\<lparr>ps_backoff := next_poll_backoff (ps_backoff s)\<rparr>))
              else let cursor = (case outcome_message_id out of Some i \<Rightarrow> i | None \<Rightarrow> ps_cursor s)
                   in if handling_waits out \<and> pw_drained W n 3 then Finished (Ok None) (ps_ctx s)
                      else case handle_idle_outcome W n (ps_ctx s) out (ps_backoff s) of
                             (Inr Idle_Continue, ctx, backoff) \<Rightarrow> Again \<lparr>ps_ctx = ctx, ps_cursor = cursor, ps_backoff = backoff\<rparr>
                           | (Inr Idle_Exit, ctx, _) \<Rightarrow> Finished (Ok None) ctx
                           | (Inr (Idle_Job m), ctx, _) \<Rightarrow> Finished (Ok (Some m)) ctx
                           | (Inl e, ctx, _) \<Rightarrow> Finished (Err e) ctx)"

fun poll_turns :: "(nat \<Rightarrow> poll_state \<Rightarrow> 'r turn) \<Rightarrow> nat \<Rightarrow> nat \<Rightarrow> poll_state \<Rightarrow> ('r \<times> session_ctx) option" where
  "poll_turns step 0 n s = None"
| "poll_turns step (Suc fuel) n s = (case step n s of Again s' \<Rightarrow> poll_turns step fuel (Suc n) s' | Finished r ctx \<Rightarrow> Some (r, ctx))"

definition first_poll :: "session_ctx \<Rightarrow> poll_state" where
  "first_poll ctx = \<lparr>ps_ctx = ctx, ps_cursor = 0, ps_backoff = POLL_BACKOFF_START\<rparr>"

definition poll_until_job where
  "poll_until_job X W fuel ctx = poll_turns (idle_turn X W) fuel 0 (first_poll ctx)"

subsection \<open>Beside a job\<close>

text \<open>The watcher keeps its own token, which it also publishes, and never returns: it goes dormant.\<close>

record watch_signals =
  ws_job_cancelled :: bool
  ws_published :: "string option"

definition refresh_watcher_token ::
  "poll_world \<Rightarrow> nat \<Rightarrow> session_ctx \<Rightarrow> nat \<Rightarrow> watch_signals \<Rightarrow> nat option \<times> session_ctx \<times> watch_signals" where
  "refresh_watcher_token W n ctx backoff sig =
     (case refresh_access_token W n ctx of
        Inr next \<Rightarrow> (Some POLL_BACKOFF_START, ctx\<lparr>sc_token := next\<rparr>, sig\<lparr>ws_published := Some next\<rparr>)
      | Inl Job_Cancelled \<Rightarrow> (None, ctx, sig)
      | Inl e \<Rightarrow> (backoff_after_poll_error W n ctx backoff, ctx, sig))"

fun watch_control_step ::
  "poll_world \<Rightarrow> nat \<Rightarrow> session_ctx \<Rightarrow> poll_outcome \<Rightarrow> nat \<Rightarrow> watch_signals \<Rightarrow> nat option \<times> session_ctx \<times> watch_signals" where
  "watch_control_step W n ctx (Po_Shutdown i) backoff sig = (None, ctx\<lparr>sc_cancelled := True\<rparr>, sig)"
| "watch_control_step W n ctx (Po_Refresh_Token i) backoff sig = refresh_watcher_token W n ctx backoff sig"
| "watch_control_step W n ctx (Po_Cancel m j) backoff sig = (None, ctx, sig)"
| "watch_control_step W n ctx Po_Cancelled backoff sig = (None, ctx, sig)"
| "watch_control_step W n ctx (Po_Network_Error e) backoff sig = (None, ctx, sig)"
| "watch_control_step W n ctx _ backoff sig = (Some POLL_BACKOFF_START, ctx, sig)"

fun watch_step ::
  "poll_world \<Rightarrow> nat \<Rightarrow> session_ctx \<Rightarrow> poll_outcome \<Rightarrow> nat \<Rightarrow> watch_signals \<Rightarrow> nat option \<times> session_ctx \<times> watch_signals" where
  "watch_step W n ctx (Po_Cancel m job) backoff sig = (None, ctx, sig\<lparr>ws_job_cancelled := True\<rparr>)"
| "watch_step W n ctx Po_Cancelled backoff sig = (None, ctx, sig)"
| "watch_step W n ctx (Po_Network_Error e) backoff sig = (backoff_after_poll_error W n ctx backoff, ctx, sig)"
| "watch_step W n ctx out backoff sig = watch_control_step W n ctx out backoff sig"

record watch_state = poll_state +
  wt_signals :: watch_signals

datatype watch_turn = Watch_Again watch_state | Dormant watch_signals session_ctx

definition watch_for_gh_cancel_turn :: "broker_externs \<Rightarrow> poll_world \<Rightarrow> nat \<Rightarrow> watch_state \<Rightarrow> watch_turn" where
  "watch_for_gh_cancel_turn X W n s =
     (let out = poll_once X W n (ps_ctx s) (sc_token (ps_ctx s)) (ps_cursor s)
      in if is_redelivery (ps_cursor s) out
         then (if cancelled_at W n 1 (ps_ctx s) then Dormant (wt_signals s) (ps_ctx s)
               else Watch_Again (s\<lparr>ps_backoff := next_poll_backoff (ps_backoff s)\<rparr>))
         else let cursor = (case outcome_message_id out of Some i \<Rightarrow> i | None \<Rightarrow> ps_cursor s)
              in case watch_step W n (ps_ctx s) out (ps_backoff s) (wt_signals s) of
                   (Some next, ctx, sig) \<Rightarrow>
                     Watch_Again \<lparr>ps_ctx = ctx, ps_cursor = cursor, ps_backoff = next, wt_signals = sig\<rparr>
                 | (None, ctx, sig) \<Rightarrow> Dormant sig ctx)"

text \<open>What the watcher has done when the job finishes after \<open>turns\<close> turns.\<close>

fun watch_for_gh_cancel :: "broker_externs \<Rightarrow> poll_world \<Rightarrow> nat \<Rightarrow> nat \<Rightarrow> watch_state \<Rightarrow> watch_signals \<times> session_ctx" where
  "watch_for_gh_cancel X W 0 n s = (wt_signals s, ps_ctx s)"
| "watch_for_gh_cancel X W (Suc turns) n s =
     (case watch_for_gh_cancel_turn X W n s of
        Watch_Again s' \<Rightarrow> watch_for_gh_cancel X W turns (Suc n) s'
      | Dormant sig ctx \<Rightarrow> (sig, ctx))"

subsection \<open>The lock renewal and the outage watchdog\<close>

definition OUTAGE_THRESHOLD :: nat where "OUTAGE_THRESHOLD = 300000"
definition RENEW_INTERVAL :: nat where "RENEW_INTERVAL = 60000"

record outage_watchdog =
  ow_last_ok :: nat
  ow_threshold :: nat
  ow_tripped :: bool

definition new_watchdog :: "nat \<Rightarrow> nat \<Rightarrow> outage_watchdog" where
  "new_watchdog now threshold = \<lparr>ow_last_ok = now, ow_threshold = threshold, ow_tripped = False\<rparr>"

definition record_ok :: "nat \<Rightarrow> outage_watchdog \<Rightarrow> outage_watchdog" where
  "record_ok now w = w\<lparr>ow_last_ok := now, ow_tripped := False\<rparr>"

definition record_err :: "nat \<Rightarrow> outage_watchdog \<Rightarrow> bool \<times> outage_watchdog" where
  "record_err now w =
     (if ow_tripped w then (False, w)
      else if ow_threshold w < now - ow_last_ok w then (True, w\<lparr>ow_tripped := True\<rparr>)
      else (False, w))"

datatype renewal_loss = No_Loss | Job_Not_Found | Timed_Out

record renewal =
  rn_watchdog :: outage_watchdog
  rn_loss :: renewal_loss
  rn_job_cancelled :: bool
  rn_renewed :: "string list"

definition record_renewal_loss_once :: "renewal_loss \<Rightarrow> renewal \<Rightarrow> renewal" where
  "record_renewal_loss_once reason r = (if rn_loss r = No_Loss then r\<lparr>rn_loss := reason\<rparr> else r)"

text \<open>One answer to a renewal request, with the time it is recorded: renewed until a time, not found, or an error.\<close>

datatype renew_answer = Renewed string | Renew_Not_Found | Renew_Failed runner_error

text \<open>The task's answers until it is cancelled; a job that is not found ends it.\<close>

fun renewal_task :: "(nat \<times> renew_answer) list \<Rightarrow> renewal \<Rightarrow> renewal" where
  "renewal_task [] r = r"
| "renewal_task ((now, Renewed until) # answers) r =
     renewal_task answers (r\<lparr>rn_watchdog := record_ok now (rn_watchdog r), rn_renewed := rn_renewed r @ [until]\<rparr>)"
| "renewal_task ((now, Renew_Not_Found) # answers) r = (record_renewal_loss_once Job_Not_Found r)\<lparr>rn_job_cancelled := True\<rparr>"
| "renewal_task ((now, Renew_Failed e) # answers) r =
     (case record_err now (rn_watchdog r) of
        (trip, w) \<Rightarrow>
          (let r = r\<lparr>rn_watchdog := w\<rparr>
           in renewal_task answers (if trip then (record_renewal_loss_once Timed_Out r)\<lparr>rn_job_cancelled := True\<rparr> else r)))"

definition spawn_renewal :: "nat \<Rightarrow> nat \<Rightarrow> (nat \<times> renew_answer) list \<Rightarrow> renewal" where
  "spawn_renewal start threshold answers =
     renewal_task answers \<lparr>rn_watchdog = new_watchdog start threshold, rn_loss = No_Loss, rn_job_cancelled = False, rn_renewed = []\<rparr>"

definition LOST_CONNECTION_MESSAGE :: string where
  "LOST_CONNECTION_MESSAGE = ''Runner lost connection to GitHub for more than 5 minutes; job was cancelled (lost connection).''"
definition JOB_NOT_FOUND_MESSAGE :: string where
  "JOB_NOT_FOUND_MESSAGE = ''GitHub no longer recognizes this job; job was cancelled (job lock lost).''"

datatype report_level = Report_Notice | Report_Warning | Report_Failure

record report_annotation =
  ra_level :: report_level
  ra_message :: string
  ra_title :: "string option"
  ra_path :: "string option"
  ra_infrastructure :: bool
  ra_start_line :: int
  ra_end_line :: int
  ra_start_column :: int
  ra_end_column :: int
  ra_step_number :: int

definition job_annotation :: "string \<Rightarrow> report_annotation" where
  "job_annotation message = \<lparr>ra_level = Report_Failure, ra_message = message, ra_title = None, ra_path = None, ra_infrastructure = False,
     ra_start_line = 0, ra_end_line = 0, ra_start_column = 0, ra_end_column = 0, ra_step_number = 0\<rparr>"

definition apply_outage_override :: "conclusion \<Rightarrow> renewal_loss \<Rightarrow> conclusion \<times> report_annotation list" where
  "apply_outage_override c loss =
     (if loss = No_Loss then (c, [])
      else if c = Con_Success then (c, [])
      else case loss of
             Job_Not_Found \<Rightarrow> (Con_Failure, [job_annotation JOB_NOT_FOUND_MESSAGE])
           | Timed_Out \<Rightarrow> (Con_Failure, [job_annotation LOST_CONNECTION_MESSAGE])
           | No_Loss \<Rightarrow> (c, []))"

subsection \<open>One lifecycle\<close>

text \<open>\<open>'o\<close> is the outcome of an acquired job: what the completion request is built from.\<close>

record 'o lifecycle_world =
  lw_poll :: poll_world
  lw_acquire :: "string \<Rightarrow> string \<Rightarrow> string \<Rightarrow> (runner_error, 'o) result"
  lw_conclusion :: "'o \<Rightarrow> conclusion"
  lw_refreshed :: "string option"
  lw_complete :: "'o \<Rightarrow> unit retry_world"

definition parse_job_request_body :: "broker_externs \<Rightarrow> broker_message \<Rightarrow> (runner_error, string \<times> string \<times> string) result" where
  "parse_job_request_body X m =
     (case bx_job_request X (bm_body m) of Inr b \<Rightarrow> Ok b | Inl e \<Rightarrow> Err (Protocol (''job request body parse: '' @ e)))"

definition report_completion :: "nat \<Rightarrow> 'o lifecycle_world \<Rightarrow> 'o \<Rightarrow> (runner_error, unit) result option" where
  "report_completion fuel L out = retry_transient fuel (lw_complete L out) REPORT_RETRY_MAX"

definition finish_acquired_job ::
  "nat \<Rightarrow> 'o lifecycle_world \<Rightarrow> 'o \<Rightarrow> session_ctx \<Rightarrow> ((runner_error, conclusion) result \<times> session_ctx) option" where
  "finish_acquired_job fuel L out ctx =
     (let ctx = (case lw_refreshed L of Some token \<Rightarrow> ctx\<lparr>sc_token := token\<rparr> | None \<Rightarrow> ctx)
      in map_option (\<lambda>r. (rbind r (\<lambda>_. Ok (lw_conclusion L out)), ctx)) (report_completion fuel L out))"

definition poll_and_execute ::
  "broker_externs \<Rightarrow> 'o lifecycle_world \<Rightarrow> nat \<Rightarrow> nat \<Rightarrow> session_ctx \<Rightarrow> ((runner_error, conclusion option) result \<times> session_ctx) option" where
  "poll_and_execute X L turns fuel ctx =
     (case poll_until_job X (lw_poll L) turns ctx of
        None \<Rightarrow> None
      | Some (Inl e, ctx) \<Rightarrow> Some (Err e, ctx)
      | Some (Inr None, ctx) \<Rightarrow> Some (Ok None, ctx)
      | Some (Inr (Some m), ctx) \<Rightarrow>
          (case parse_job_request_body X m of
             Inl e \<Rightarrow> Some (Err e, ctx)
           | Inr (request, url, owner) \<Rightarrow>
               (case lw_acquire L request url owner of
                  Inl e \<Rightarrow> Some (Err e, ctx)
                | Inr out \<Rightarrow>
                    map_option (\<lambda>(r, ctx). (rbind r (\<lambda>c. Ok (Some c)), ctx))
                      (finish_acquired_job fuel L out (ctx\<lparr>sc_job_acquired := True\<rparr>)))))"

subsection \<open>The run loop\<close>

definition SESSION_CONFLICT_EXIT_CODE :: nat where "SESSION_CONFLICT_EXIT_CODE = 5"

datatype loop_action = Exit nat | Reregister | Backoff_Retry

definition next_action :: "(runner_error, unit) result \<Rightarrow> bool \<Rightarrow> bool \<Rightarrow> bool \<Rightarrow> loop_action" where
  "next_action out once cancelled pending_remove =
     (if cancelled then Exit 0
      else if once then (case out of Inr _ \<Rightarrow> Exit 0 | Inl (Session_Conflict _) \<Rightarrow> Exit SESSION_CONFLICT_EXIT_CODE | Inl _ \<Rightarrow> Exit 1)
      else if pending_remove then Exit 0
      else case out of
             Inl (Session_Conflict _) \<Rightarrow> Exit SESSION_CONFLICT_EXIT_CODE
           | Inr _ \<Rightarrow> Reregister
           | Inl (Auth_Error _) \<Rightarrow> Reregister
           | Inl _ \<Rightarrow> Backoff_Retry)"

record loop_signals =
  ls_once :: bool
  ls_cancelled :: bool
  ls_pending_remove :: bool

datatype ephemeral_action = Unregister | Eph_Exit nat | Eph_Backoff_Retry

definition next_ephemeral_action :: "(runner_error, conclusion option) result \<Rightarrow> bool \<Rightarrow> loop_signals \<Rightarrow> ephemeral_action" where
  "next_ephemeral_action out job_acquired sig =
     (if job_acquired \<or> (case out of Inr (Some _) \<Rightarrow> True | _ \<Rightarrow> False) then Unregister
      else if ls_cancelled sig then Eph_Exit 0
      else if ls_once sig
      then (case out of Inr _ \<Rightarrow> Eph_Exit 0 | Inl (Session_Conflict _) \<Rightarrow> Eph_Exit SESSION_CONFLICT_EXIT_CODE | Inl _ \<Rightarrow> Eph_Exit 1)
      else if ls_pending_remove sig then Eph_Exit 0
      else case out of
             Inl (Session_Conflict _) \<Rightarrow> Eph_Exit SESSION_CONFLICT_EXIT_CODE
           | Inl (Auth_Error _) \<Rightarrow> Eph_Exit 1
           | _ \<Rightarrow> Eph_Backoff_Retry)"

text \<open>What iteration \<open>n\<close> of the loop meets: a fatal error while it sets up, the mode of the registration, the
  lifecycle's outcome, the signals after it, the re-mint, the unregistration and whether the backoff sleep is
  interrupted.\<close>

datatype remint = Remint_Reset | Remint_Retry

record drive_world =
  dw_setup :: "nat \<Rightarrow> (string, unit) result"
  dw_ephemeral :: "nat \<Rightarrow> bool"
  dw_raw :: "nat \<Rightarrow> (runner_error, conclusion option) result"
  dw_job_acquired :: "nat \<Rightarrow> bool"
  dw_cancelled :: "nat \<Rightarrow> bool"
  dw_pending_remove :: "nat \<Rightarrow> bool"
  dw_remint :: "nat \<Rightarrow> (string, remint) result"
  dw_unregister :: "nat \<Rightarrow> (string, unit) result"
  dw_stopped :: "nat \<Rightarrow> bool"
  dw_error_text :: "runner_error \<Rightarrow> string"

datatype drive_event = Ev_Remint nat | Ev_Unregister nat | Ev_Sleep nat nat

datatype drive_result = Run_Ok | Run_Coded nat string | Run_Failed string

definition finish_run :: "drive_world \<Rightarrow> nat \<Rightarrow> (runner_error, unit) result \<Rightarrow> drive_result" where
  "finish_run W code out =
     (if code = 0 then Run_Ok
      else case out of
             Inl e \<Rightarrow> (case e of Session_Conflict _ \<Rightarrow> (if code = SESSION_CONFLICT_EXIT_CODE then Run_Coded code (''listener: '' @ dw_error_text W e)
                                   else Run_Failed (''listener: '' @ dw_error_text W e))
                        | _ \<Rightarrow> Run_Failed (''listener: '' @ dw_error_text W e))
           | Inr _ \<Rightarrow> Run_Ok)"

definition finish_ephemeral_exit :: "drive_world \<Rightarrow> nat \<Rightarrow> (runner_error, conclusion option) result \<Rightarrow> drive_result" where
  "finish_ephemeral_exit W code out =
     (if code = 0 then Run_Ok
      else Run_Coded code (''listener: '' @ (case out of Inl e \<Rightarrow> dw_error_text W e | Inr _ \<Rightarrow> ''no job'') @ [CHR 0x0A] @
             ''the ephemeral registration was kept '' @ map char_of [226, 128, 148 :: nat] @
             '' if the runner was removed on GitHub, run `toolu-runner remove` to clean it up''))"

definition finish_ephemeral :: "drive_world \<Rightarrow> nat \<Rightarrow> (runner_error, conclusion option) result \<Rightarrow> drive_result" where
  "finish_ephemeral W n out =
     (case dw_unregister W n of
        Inl cleanup \<Rightarrow> Run_Failed (case out of Inr _ \<Rightarrow> cleanup
          | Inl e \<Rightarrow> cleanup @ [CHR 0x0A] @ ''(the job itself ended with: listener: '' @ dw_error_text W e @ '')'')
      | Inr _ \<Rightarrow> (case out of Inr _ \<Rightarrow> Run_Ok
          | Inl e \<Rightarrow> Run_Coded 1 (''listener: '' @ dw_error_text W e @ '' (the job was acquired; its registration was removed)'')))"

text \<open>Sleep, then double: \<open>None\<close> when the sleep was interrupted.\<close>

definition backoff_step :: "drive_world \<Rightarrow> nat \<Rightarrow> nat \<Rightarrow> nat option" where
  "backoff_step W n backoff = (if dw_stopped W n then None else Some (min (2 * backoff) BACKOFF_MAX))"

text \<open>The events so far are accumulated in \<open>ev\<close>.\<close>

fun drive :: "nat \<Rightarrow> drive_world \<Rightarrow> bool \<Rightarrow> nat \<Rightarrow> nat \<Rightarrow> drive_event list \<Rightarrow> (drive_event list \<times> drive_result) option" where
  "drive 0 W once n backoff ev = None"
| "drive (Suc fuel) W once n backoff ev =
     (case dw_setup W n of
        Inl e \<Rightarrow> Some (ev, Run_Failed e)
      | Inr _ \<Rightarrow>
          if dw_ephemeral W n
          then (case next_ephemeral_action (dw_raw W n) (dw_job_acquired W n)
                       \<lparr>ls_once = once, ls_cancelled = dw_cancelled W n, ls_pending_remove = dw_pending_remove W n\<rparr> of
                  Unregister \<Rightarrow> Some (ev @ [Ev_Unregister n], finish_ephemeral W n (dw_raw W n))
                | Eph_Exit code \<Rightarrow> Some (ev, finish_ephemeral_exit W code (dw_raw W n))
                | Eph_Backoff_Retry \<Rightarrow>
                    (case backoff_step W n backoff of
                       None \<Rightarrow> Some (ev @ [Ev_Sleep n backoff], Run_Ok)
                     | Some b \<Rightarrow> drive fuel W once (Suc n) b (ev @ [Ev_Sleep n backoff])))
          else let out = rbind (dw_raw W n) (\<lambda>_. Ok ())
               in case next_action out once (dw_cancelled W n) (dw_pending_remove W n) of
                    Exit code \<Rightarrow> Some (ev, finish_run W code out)
                  | Reregister \<Rightarrow>
                      (let backoff = (if is_ok out then BACKOFF_START else backoff); ev = ev @ [Ev_Remint n]
                       in case dw_remint W n of
                            Inl e \<Rightarrow> Some (ev, Run_Failed e)
                          | Inr Remint_Reset \<Rightarrow> drive fuel W once (Suc n) BACKOFF_START ev
                          | Inr Remint_Retry \<Rightarrow>
                              (case backoff_step W n backoff of
                                 None \<Rightarrow> Some (ev @ [Ev_Sleep n backoff], Run_Ok)
                               | Some b \<Rightarrow> drive fuel W once (Suc n) b (ev @ [Ev_Sleep n backoff])))
                  | Backoff_Retry \<Rightarrow>
                      (case backoff_step W n backoff of
                         None \<Rightarrow> Some (ev @ [Ev_Sleep n backoff], Run_Ok)
                       | Some b \<Rightarrow> drive fuel W once (Suc n) b (ev @ [Ev_Sleep n backoff])))"

subsection \<open>Polling with a cursor\<close>

inductive poll_run :: "(nat \<Rightarrow> 's \<Rightarrow> 's option) \<Rightarrow> nat \<Rightarrow> 's \<Rightarrow> nat \<Rightarrow> 's \<Rightarrow> bool" for nxt where
  run_here: "poll_run nxt n s n s"
| run_turn: "nxt n s = Some s' \<Longrightarrow> poll_run nxt (Suc n) s' m t \<Longrightarrow> poll_run nxt n s m t"

lemma poll_run_later: "poll_run nxt n s m t \<Longrightarrow> n < m \<Longrightarrow> \<exists>s'. nxt n s = Some s' \<and> poll_run nxt (Suc n) s' m t"
  by (cases rule: poll_run.cases) auto

lemma poll_run_le: "poll_run nxt n s m t \<Longrightarrow> n \<le> m"
  by (induction rule: poll_run.induct) auto

text \<open>A loop that handles only messages beyond its cursor and moves the cursor to each one it handles.\<close>

locale cursor_poll =
  fixes nxt :: "nat \<Rightarrow> 's \<Rightarrow> 's option" and cursor :: "'s \<Rightarrow> int" and handled :: "nat \<Rightarrow> 's \<Rightarrow> int option"
  assumes handled_newer: "handled n s = Some a \<Longrightarrow> cursor s < a"
    and handled_moves: "nxt n s = Some s' \<Longrightarrow> handled n s = Some a \<Longrightarrow> cursor s' = a"
    and unhandled_keeps: "nxt n s = Some s' \<Longrightarrow> handled n s = None \<Longrightarrow> cursor s' = cursor s"
begin

lemma cursor_mono: "poll_run nxt n s m t \<Longrightarrow> cursor s \<le> cursor t"
proof (induction rule: poll_run.induct)
  case (run_turn n s s' m t)
  have "cursor s \<le> cursor s'"
    using handled_newer [of n s] handled_moves [OF run_turn.hyps(1)] unhandled_keeps [OF run_turn.hyps(1)]
    by (cases "handled n s") force+
  with run_turn.IH show ?case by simp
qed simp

lemma handled_increase:
  assumes "poll_run nxt n s m t" "n < m" "handled n s = Some a" "handled m t = Some b"
  shows "a < b"
proof -
  obtain s' where turn: "nxt n s = Some s'" and rest: "poll_run nxt (Suc n) s' m t"
    using poll_run_later [OF assms(1,2)] by blast
  have "a \<le> cursor t" using cursor_mono [OF rest] handled_moves [OF turn assms(3)] by simp
  with handled_newer [OF assms(4)] show ?thesis by simp
qed

end

definition idle_next :: "broker_externs \<Rightarrow> poll_world \<Rightarrow> nat \<Rightarrow> poll_state \<Rightarrow> poll_state option" where
  "idle_next X W n s = (case idle_turn X W n s of Again s' \<Rightarrow> Some s' | Finished r ctx \<Rightarrow> None)"

definition watch_next :: "broker_externs \<Rightarrow> poll_world \<Rightarrow> nat \<Rightarrow> watch_state \<Rightarrow> watch_state option" where
  "watch_next X W n s = (case watch_for_gh_cancel_turn X W n s of Watch_Again s' \<Rightarrow> Some s' | Dormant sig ctx \<Rightarrow> None)"

text \<open>The message a turn handles: the one it polls, unless it is behind the cursor.\<close>

definition polled :: "broker_externs \<Rightarrow> poll_world \<Rightarrow> nat \<Rightarrow> ('a) poll_state_scheme \<Rightarrow> poll_outcome" where
  "polled X W n s = poll_once X W n (ps_ctx s) (sc_token (ps_ctx s)) (ps_cursor s)"

definition handles :: "broker_externs \<Rightarrow> poll_world \<Rightarrow> nat \<Rightarrow> ('a) poll_state_scheme \<Rightarrow> int option" where
  "handles X W n s = (if is_redelivery (ps_cursor s) (polled X W n s) then None else outcome_message_id (polled X W n s))"

lemma handles_newer: "handles X W n s = Some a \<Longrightarrow> ps_cursor s < a"
  by (auto simp: handles_def is_redelivery_def split: if_splits)

lemma idle_next_cursor:
  assumes "idle_next X W n s = Some s'"
  shows "ps_cursor s' = (case handles X W n s of Some a \<Rightarrow> a | None \<Rightarrow> ps_cursor s)"
  using assms unfolding idle_next_def idle_turn_def handles_def polled_def Let_def
  by (auto split: if_splits turn.splits prod.splits sum.splits idle_decision.splits)

lemma watch_next_cursor:
  assumes "watch_next X W n s = Some s'"
  shows "ps_cursor s' = (case handles X W n s of Some a \<Rightarrow> a | None \<Rightarrow> ps_cursor s)"
  using assms unfolding watch_next_def watch_for_gh_cancel_turn_def handles_def polled_def Let_def
  by (auto split: if_splits watch_turn.splits prod.splits option.splits)

interpretation idle_loop: cursor_poll "idle_next X W" ps_cursor "handles X W" for X W
  by unfold_locales (auto simp: handles_newer idle_next_cursor)

interpretation watch_loop: cursor_poll "watch_next X W" ps_cursor "handles X W" for X W
  by unfold_locales (auto simp: handles_newer watch_next_cursor)

lemma idle_redelivery:
  assumes "is_redelivery (ps_cursor s) (polled X W n s)"
  shows "case idle_turn X W n s of Again s' \<Rightarrow> ps_ctx s' = ps_ctx s \<and> ps_cursor s' = ps_cursor s | Finished r ctx \<Rightarrow> r = Ok None \<and> ctx = ps_ctx s"
  using assms by (auto simp: idle_turn_def polled_def Let_def)


definition plain_broker :: broker_externs where
  "plain_broker = \<lparr>bx_encrypted = False, bx_decrypt = (\<lambda>_ _. Err (Protocol '''')), bx_migration_url = (\<lambda>b. Ok b), bx_cancel_job_id = (\<lambda>b. Ok b),
     bx_job_request = (\<lambda>b. Ok (b, '''', ''''))\<rparr>"

definition plain_message :: "int \<Rightarrow> message_type \<Rightarrow> broker_message" where
  "plain_message i ty = \<lparr>bm_message_id = i, bm_message_type = ty, bm_body = ''body'', bm_iv = None\<rparr>"

text \<open>A broker that serves a message twice before the next one.\<close>

definition repeating_broker :: poll_world where
  "repeating_broker = \<lparr>pw_stopped = (\<lambda>_ _. False), pw_drained = (\<lambda>_ _. False),
     pw_poll = (\<lambda>n _ _ _. Ok (Some (plain_message (if n < 2 then 4 else 7) Runner_Refresh))), pw_refresh = (\<lambda>_. Ok ''t'')\<rparr>"

definition plain_session :: session_ctx where
  "plain_session = \<lparr>sc_token = ''t'', sc_broker_url = ''u'', sc_cancelled = False, sc_job_acquired = False\<rparr>"

lemma repeating_turns:
  "idle_next plain_broker repeating_broker 0 (first_poll plain_session) = Some \<lparr>ps_ctx = plain_session, ps_cursor = 4, ps_backoff = 1000\<rparr>"
  "idle_next plain_broker repeating_broker 1 \<lparr>ps_ctx = plain_session, ps_cursor = 4, ps_backoff = 1000\<rparr> =
     Some \<lparr>ps_ctx = plain_session, ps_cursor = 4, ps_backoff = 2000\<rparr>"
  by (simp_all add: idle_next_def idle_turn_def first_poll_def plain_session_def plain_broker_def repeating_broker_def poll_once_def
      cancelled_at_def classify_received_message_def classify_message_def plain_message_def is_redelivery_def handle_idle_outcome_def
      POLL_BACKOFF_START_def POLL_BACKOFF_MAX_def next_poll_backoff_def)


subsection \<open>Retries end\<close>

definition backoff_at :: "nat \<Rightarrow> nat" where
  "backoff_at n = min (2 ^ n * BACKOFF_START) BACKOFF_MAX"

lemma backoff_at_Suc: "min (2 * backoff_at n) BACKOFF_MAX = backoff_at (Suc n)"
  by (simp add: backoff_at_def min_def)

lemma backoff_at_0: "BACKOFF_START = backoff_at 0"
  by (simp add: backoff_at_def BACKOFF_START_def BACKOFF_MAX_def)

lemma jittered_backoff_bounds:
  assumes "1000 \<le> d" "d < 2 ^ 64"
  shows "500 \<le> jittered_backoff d r \<and> jittered_backoff d r < d"
proof -
  have h: "min (d div 2) (2 ^ 64 - 1) = d div 2" using assms(2) by simp
  define x where "x = r mod (d div 2)"
  have "x < d div 2" using assms(1) unfolding x_def by simp
  then have "500 \<le> d div 2 + x" "d div 2 + x < d" using assms(1) by linarith+
  moreover have "jittered_backoff d r = d div 2 + x" using assms(1) unfolding jittered_backoff_def h Let_def x_def by auto
  ultimately show ?thesis by simp
qed

lemma backoff_at_bounds: "1000 \<le> backoff_at n" "backoff_at n < 2 ^ 64"
proof -
  have "(1 :: nat) \<le> 2 ^ n" by simp
  then have "1000 \<le> 2 ^ n * (1000 :: nat)" by linarith
  then show "1000 \<le> backoff_at n" by (simp add: backoff_at_def BACKOFF_START_def BACKOFF_MAX_def)
  show "backoff_at n < 2 ^ 64" by (simp add: backoff_at_def BACKOFF_MAX_def min_less_iff_disj)
qed

text \<open>Time passes at least as long as each sleep asks for.\<close>

definition sleeps_pass :: "'a retry_world \<Rightarrow> nat \<Rightarrow> bool" where
  "sleeps_pass W budget \<longleftrightarrow> (\<forall>n. rw_elapsed W n + retry_sleep W budget n (backoff_at n) \<le> rw_elapsed W (Suc n))"

lemma elapsed_grows:
  assumes "sleeps_pass W budget"
  shows "min (500 * n) budget \<le> rw_elapsed W n"
proof (induction n)
  case (Suc n)
  have "500 \<le> jittered_backoff (backoff_at n) (rw_random W n)" using jittered_backoff_bounds backoff_at_bounds by blast
  then have "min 500 (budget - rw_elapsed W n) \<le> retry_sleep W budget n (backoff_at n)" by (auto simp: retry_sleep_def)
  moreover have "rw_elapsed W n + retry_sleep W budget n (backoff_at n) \<le> rw_elapsed W (Suc n)" using assms by (simp add: sleeps_pass_def)
  ultimately show ?case using Suc by (auto simp: min_def split: if_splits)
qed simp

fun is_network_failure :: "(runner_error, 'a) result \<Rightarrow> bool" where
  "is_network_failure (Inl (Network_Error m)) = True"
| "is_network_failure _ = False"

definition retries_after :: "'a retry_world \<Rightarrow> nat \<Rightarrow> nat \<Rightarrow> bool" where
  "retries_after W budget n \<longleftrightarrow> is_network_failure (rw_op W n) \<and> rw_elapsed W n < budget \<and> \<not> rw_cancelled W n"

lemma retry_from_stops:
  assumes "n \<le> k" "k - n < fuel" "\<And>i. n \<le> i \<Longrightarrow> i < k \<Longrightarrow> retries_after W budget i" "\<not> retries_after W budget k"
  shows "retry_from fuel W budget n b = Some (rw_op W k)"
  using assms
proof (induction fuel arbitrary: n b)
  case (Suc fuel)
  show ?case
  proof (cases "n = k")
    case True
    have "\<not> retries_after W budget n" using Suc.prems(4) True by simp
    then show ?thesis unfolding True [symmetric]
      by (cases "rw_op W n") (auto simp: retries_after_def split: runner_error.splits)
  next
    case False
    then have "retries_after W budget n" using Suc.prems(1,3) by simp
    then obtain m where "rw_op W n = Inl (Network_Error m)" "rw_elapsed W n < budget" "\<not> rw_cancelled W n"
      by (auto simp: retries_after_def elim: is_network_failure.elims)
    moreover have "retry_from fuel W budget (Suc n) c = Some (rw_op W k)" for c
      using Suc.prems False by (intro Suc.IH) auto
    ultimately show ?thesis by simp
  qed
qed simp

text \<open>C33. A retried request ends. Whatever the network answers, a call with a retry budget returns after at most one
  attempt per half second of the budget and two more, and what it returns is the answer of the last attempt:
  all before it were network failures within the budget, and it is itself a network failure only when the budget
  is spent or cancellation fired.\<close>

theorem retry_ends_within_budget:
  assumes "sleeps_pass W budget"
  shows "\<exists>k \<le> budget div 500 + 1. retry_transient (budget div 500 + 2) W budget = Some (rw_op W k)
    \<and> (\<forall>i < k. is_network_failure (rw_op W i) \<and> rw_elapsed W i < budget \<and> \<not> rw_cancelled W i)
    \<and> (is_network_failure (rw_op W k) \<longrightarrow> budget \<le> rw_elapsed W k \<or> rw_cancelled W k)"
proof -
  let ?n = "budget div 500 + 1"
  have "budget \<le> 500 * ?n" by (simp add: algebra_simps)
  then have "budget \<le> rw_elapsed W ?n" using elapsed_grows [OF assms, of ?n] by simp
  then have stop: "\<not> retries_after W budget ?n" by (simp add: retries_after_def)
  define k where "k = (LEAST i. \<not> retries_after W budget i)"
  have k: "\<not> retries_after W budget k" unfolding k_def using stop by (rule LeastI)
  have "k \<le> ?n" unfolding k_def using stop by (rule Least_le)
  moreover have before: "retries_after W budget i" if "i < k" for i using not_less_Least that unfolding k_def by blast
  ultimately have "retry_transient (budget div 500 + 2) W budget = Some (rw_op W k)"
    unfolding retry_transient_def using k by (intro retry_from_stops) auto
  then show ?thesis using \<open>k \<le> ?n\<close> before k by (intro exI [of _ k]) (auto simp: retries_after_def not_less)
qed

definition failing_network :: "nat retry_world" where
  "failing_network = \<lparr>rw_op = (\<lambda>n. if n < 2 then Err (Network_Error ''down'') else Ok n), rw_elapsed = (\<lambda>n. 60000 * n),
     rw_random = (\<lambda>_. 0), rw_cancelled = (\<lambda>_. False)\<rparr>"

lemma failing_network_passes: "sleeps_pass failing_network 600000"
proof -
  have "retry_sleep failing_network 600000 n (backoff_at n) \<le> 60000" for n
  proof -
    have "jittered_backoff (backoff_at n) 0 < backoff_at n" using jittered_backoff_bounds backoff_at_bounds by blast
    moreover have "backoff_at n \<le> 60000" by (simp add: backoff_at_def BACKOFF_MAX_def)
    ultimately show ?thesis by (simp add: retry_sleep_def failing_network_def)
  qed
  then show ?thesis unfolding sleeps_pass_def by (auto simp: failing_network_def)
qed

theorem retry_ends_within_budget_witness:
  "retry_transient 1202 failing_network 600000 = Some (Ok 2)"
proof -
  obtain k where k: "retry_transient 1202 failing_network 600000 = Some (rw_op failing_network k)"
    "\<forall>i < k. is_network_failure (rw_op failing_network i)" "is_network_failure (rw_op failing_network k) \<longrightarrow> 600000 \<le> rw_elapsed failing_network k"
    using retry_ends_within_budget [OF failing_network_passes] by (auto simp: failing_network_def)
  have "\<not> 2 < k" using k(2) by (auto simp: failing_network_def)
  moreover have "\<not> k < 2" using k(3) by (auto simp: failing_network_def)
  ultimately have "k = 2" by simp
  then show ?thesis using k(1) by (simp add: failing_network_def)
qed

subsection \<open>A lost lock\<close>

text \<open>The time of the last successful renewal.\<close>

fun last_contact :: "nat \<Rightarrow> (nat \<times> renew_answer) list \<Rightarrow> nat" where
  "last_contact t [] = t"
| "last_contact t ((now, Renewed until) # answers) = last_contact now answers"
| "last_contact t ((now, a) # answers) = last_contact t answers"

definition loses_lock :: "nat \<Rightarrow> nat \<Rightarrow> (nat \<times> renew_answer) list \<Rightarrow> bool" where
  "loses_lock start threshold answers \<longleftrightarrow>
     (\<exists>before now a after. answers = before @ (now, a) # after \<and> (\<forall>t. (t, Renew_Not_Found) \<notin> set before)
        \<and> (a = Renew_Not_Found \<or> (\<exists>e. a = Renew_Failed e) \<and> threshold < now - last_contact start before))"

lemma loses_lock_Nil: "\<not> loses_lock start threshold []"
  by (simp add: loses_lock_def)

lemma loses_lock_Cons:
  "loses_lock start threshold ((now, a) # answers) \<longleftrightarrow>
     a = Renew_Not_Found \<or> (\<exists>e. a = Renew_Failed e \<and> threshold < now - start)
     \<or> a \<noteq> Renew_Not_Found \<and> loses_lock (last_contact start [(now, a)]) threshold answers"
  (is "?l \<longleftrightarrow> ?r")
proof
  assume ?l
  then obtain before t b after where d: "(now, a) # answers = before @ (t, b) # after" "\<forall>u. (u, Renew_Not_Found) \<notin> set before"
    "b = Renew_Not_Found \<or> (\<exists>e. b = Renew_Failed e) \<and> threshold < t - last_contact start before"
    unfolding loses_lock_def by blast
  show ?r
  proof (cases before)
    case Nil
    then show ?thesis using d by auto
  next
    case (Cons x rest)
    then have x: "x = (now, a)" and rest: "answers = rest @ (t, b) # after" using d(1) by simp_all
    have "a \<noteq> Renew_Not_Found" using d(2) Cons x by auto
    moreover have "last_contact start before = last_contact (last_contact start [(now, a)]) rest"
      unfolding Cons x by (cases a) simp_all
    moreover have "\<forall>u. (u, Renew_Not_Found) \<notin> set rest" using d(2) Cons by simp
    ultimately have "loses_lock (last_contact start [(now, a)]) threshold answers" "a \<noteq> Renew_Not_Found"
      using d(3) unfolding loses_lock_def rest by metis+
    then show ?thesis by blast
  qed
next
  assume r: ?r
  show ?l
  proof (cases "a = Renew_Not_Found \<or> (\<exists>e. a = Renew_Failed e \<and> threshold < now - start)")
    case True
    then show ?thesis unfolding loses_lock_def
      by (intro exI [of _ "[]"] exI [of _ now] exI [of _ a] exI [of _ answers]) auto
  next
    case False
    then obtain before t b after where d: "answers = before @ (t, b) # after" "\<forall>u. (u, Renew_Not_Found) \<notin> set before"
      "b = Renew_Not_Found \<or> (\<exists>e. b = Renew_Failed e) \<and> threshold < t - last_contact (last_contact start [(now, a)]) before"
      using r unfolding loses_lock_def by blast
    have "last_contact start ((now, a) # before) = last_contact (last_contact start [(now, a)]) before" by (cases a) simp_all
    then show ?thesis using d False unfolding loses_lock_def
      by (intro exI [of _ "(now, a) # before"] exI [of _ t] exI [of _ b] exI [of _ after]) auto
  qed
qed

text \<open>The watchdog has tripped, or the job was cancelled, only with a reason on record.\<close>

definition renewal_ok :: "renewal \<Rightarrow> bool" where
  "renewal_ok r \<longleftrightarrow> (ow_tripped (rn_watchdog r) \<longrightarrow> rn_loss r \<noteq> No_Loss) \<and> (rn_job_cancelled r \<longleftrightarrow> rn_loss r \<noteq> No_Loss)"

lemma record_loss: "reason \<noteq> No_Loss \<Longrightarrow> rn_loss (record_renewal_loss_once reason r) \<noteq> No_Loss"
  "rn_watchdog (record_renewal_loss_once reason r) = rn_watchdog r"
  by (simp_all add: record_renewal_loss_once_def)

lemma renewal_task_loss:
  assumes "renewal_ok r"
  shows "(rn_loss (renewal_task answers r) \<noteq> No_Loss \<longleftrightarrow>
      rn_loss r \<noteq> No_Loss \<or> loses_lock (ow_last_ok (rn_watchdog r)) (ow_threshold (rn_watchdog r)) answers)
    \<and> (rn_job_cancelled (renewal_task answers r) \<longleftrightarrow> rn_loss (renewal_task answers r) \<noteq> No_Loss)"
  using assms
proof (induction answers arbitrary: r)
  case Nil
  then show ?case by (simp add: loses_lock_Nil renewal_ok_def)
next
  case (Cons na answers)
  obtain now a where na: "na = (now, a)" by (rule prod.exhaust)
  let ?w = "rn_watchdog r"
  show ?case
  proof (cases a)
    case (Renewed until)
    then show ?thesis using Cons.prems
        Cons.IH [of "r\<lparr>rn_watchdog := record_ok now ?w, rn_renewed := rn_renewed r @ [until]\<rparr>"]
      by (simp add: na renewal_ok_def record_ok_def loses_lock_Cons)
  next
    case Renew_Not_Found
    then show ?thesis by (simp add: na loses_lock_Cons record_loss)
  next
    case (Renew_Failed e)
    show ?thesis
    proof (cases "\<not> ow_tripped ?w \<and> ow_threshold ?w < now - ow_last_ok ?w")
      case True
      let ?r = "(record_renewal_loss_once Timed_Out (r\<lparr>rn_watchdog := ?w\<lparr>ow_tripped := True\<rparr>\<rparr>))\<lparr>rn_job_cancelled := True\<rparr>"
      have rec: "record_err now ?w = (True, ?w\<lparr>ow_tripped := True\<rparr>)" using True by (simp add: record_err_def)
      have "renewal_ok ?r" "rn_loss ?r \<noteq> No_Loss" by (simp_all add: renewal_ok_def record_loss)
      then show ?thesis using Cons.IH [of ?r] True by (simp add: na Renew_Failed rec loses_lock_Cons)
    next
      case False
      have rec: "record_err now ?w = (False, ?w)" using False by (auto simp: record_err_def)
      have "ow_tripped ?w \<Longrightarrow> rn_loss r \<noteq> No_Loss" using Cons.prems by (simp add: renewal_ok_def)
      then show ?thesis using Cons.IH [OF Cons.prems] False by (auto simp: na Renew_Failed rec loses_lock_Cons)
    qed
  qed
qed

text \<open>A job whose lock is lost is cancelled and never silently passes for another result. The renewal cancels the
  job exactly when an answer says the job is gone, or a renewal fails more than the threshold after the last
  successful one; then a job that had not succeeded is reported as failed, with one annotation that gives the
  reason, and in every other case the engine's conclusion is reported unchanged.\<close>

theorem lost_lock_fails_the_job:
  "case spawn_renewal start threshold answers of r \<Rightarrow>
     (rn_job_cancelled r \<longleftrightarrow> loses_lock start threshold answers)
     \<and> apply_outage_override c (rn_loss r) =
         (if loses_lock start threshold answers \<and> c \<noteq> Con_Success
          then (Con_Failure, [job_annotation (if rn_loss r = Job_Not_Found then JOB_NOT_FOUND_MESSAGE else LOST_CONNECTION_MESSAGE)])
          else (c, []))"
proof -
  define r where "r = spawn_renewal start threshold answers"
  have "rn_job_cancelled r \<longleftrightarrow> loses_lock start threshold answers" "rn_loss r \<noteq> No_Loss \<longleftrightarrow> loses_lock start threshold answers"
    using renewal_task_loss [of "\<lparr>rn_watchdog = new_watchdog start threshold, rn_loss = No_Loss, rn_job_cancelled = False, rn_renewed = []\<rparr>" answers]
    by (simp_all add: r_def spawn_renewal_def renewal_ok_def new_watchdog_def)
  then show ?thesis unfolding r_def [symmetric]
    by (cases "rn_loss r") (auto simp: apply_outage_override_def)
qed

subsection \<open>The registration\<close>

text \<open>The conditions under which the loop may spend a registration.\<close>

fun spends_rightly :: "drive_world \<Rightarrow> bool \<Rightarrow> drive_event \<Rightarrow> bool" where
  "spends_rightly W once (Ev_Remint n) \<longleftrightarrow>
     \<not> dw_ephemeral W n \<and> \<not> once \<and> \<not> dw_cancelled W n \<and> \<not> dw_pending_remove W n
     \<and> (is_ok (dw_raw W n) \<or> (\<exists>m. dw_raw W n = Err (Auth_Error m)))"
| "spends_rightly W once (Ev_Unregister n) \<longleftrightarrow> dw_ephemeral W n \<and> (dw_job_acquired W n \<or> (\<exists>c. dw_raw W n = Ok (Some c)))"
| "spends_rightly W once (Ev_Sleep n b) \<longleftrightarrow> \<not> once \<and> \<not> dw_cancelled W n \<and> b \<le> BACKOFF_MAX \<and> (dw_ephemeral W n \<longrightarrow> \<not> dw_job_acquired W n)"

lemma next_action_Reregister:
  "next_action out once cancelled pending = Reregister \<Longrightarrow>
     \<not> once \<and> \<not> cancelled \<and> \<not> pending \<and> (is_ok out \<or> (\<exists>m. out = Err (Auth_Error m)))"
  by (auto simp: next_action_def split: if_splits sum.splits runner_error.splits)

lemma next_action_Retry: "next_action out once cancelled pending = Backoff_Retry \<Longrightarrow> \<not> once \<and> \<not> cancelled"
  by (auto simp: next_action_def split: if_splits sum.splits runner_error.splits)

lemma next_ephemeral_Unregister:
  "next_ephemeral_action out acquired sig = Unregister \<Longrightarrow> acquired \<or> (\<exists>c. out = Ok (Some c))"
  by (auto simp: next_ephemeral_action_def split: if_splits sum.splits runner_error.splits option.splits)

lemma next_ephemeral_Retry: "next_ephemeral_action out acquired sig = Eph_Backoff_Retry \<Longrightarrow> \<not> ls_once sig \<and> \<not> ls_cancelled sig \<and> \<not> acquired"
  by (auto simp: next_ephemeral_action_def split: if_splits sum.splits runner_error.splits)

lemma is_ok_unit: "is_ok (rbind r (\<lambda>_. Ok ())) = is_ok r" by (cases r) simp_all

lemma unit_Err: "rbind r (\<lambda>_. Ok ()) = Err e \<longleftrightarrow> r = Err e" by (cases r) simp_all

lemma backoff_step_Some: "backoff_step W n b = Some b' \<Longrightarrow> b' \<le> BACKOFF_MAX"
  by (auto simp: backoff_step_def split: if_splits)

lemma drive_spends_rightly:
  "drive fuel W once n b ev = Some (ev', res) \<Longrightarrow> b \<le> BACKOFF_MAX \<Longrightarrow> list_all (spends_rightly W once) ev \<Longrightarrow>
     list_all (spends_rightly W once) ev'"
proof (induction fuel arbitrary: n b ev)
  case (Suc fuel)
  have start: "BACKOFF_START \<le> BACKOFF_MAX" by (simp add: BACKOFF_START_def BACKOFF_MAX_def)
  let ?out = "rbind (dw_raw W n) (\<lambda>_. Ok ())" and ?b = "if is_ok (rbind (dw_raw W n) (\<lambda>_. Ok ())) then BACKOFF_START else b"
  have retry: "list_all (spends_rightly W once) ev'"
    if "(case backoff_step W n c of None \<Rightarrow> Some (evs @ [Ev_Sleep n c], Run_Ok) | Some d \<Rightarrow> drive fuel W once (Suc n) d (evs @ [Ev_Sleep n c])) = Some (ev', res)"
      "c \<le> BACKOFF_MAX" "list_all (spends_rightly W once) evs" "\<not> once" "\<not> dw_cancelled W n" "dw_ephemeral W n \<longrightarrow> \<not> dw_job_acquired W n" for c evs
    using that Suc.IH backoff_step_Some by (auto split: option.splits)
  show ?case
  proof (cases "dw_setup W n")
    case (Inl e)
    then show ?thesis using Suc.prems by simp
  next
    case (Inr u)
    show ?thesis
    proof (cases "dw_ephemeral W n")
      case True
      let ?act = "next_ephemeral_action (dw_raw W n) (dw_job_acquired W n)
        \<lparr>ls_once = once, ls_cancelled = dw_cancelled W n, ls_pending_remove = dw_pending_remove W n\<rparr>"
      note step = Suc.prems(1) [simplified drive.simps Inr sum.case True if_True Let_def]
      show ?thesis
      proof (cases ?act)
        case Unregister
        then show ?thesis using step Suc.prems(3) next_ephemeral_Unregister [OF Unregister] True by auto
      next
        case (Eph_Exit code)
        then show ?thesis using step Suc.prems(3) by simp
      next
        case Eph_Backoff_Retry
        then show ?thesis
          using step retry [where c = b and evs = ev] Suc.prems(2,3) next_ephemeral_Retry [OF Eph_Backoff_Retry] by simp
      qed
    next
      case False
      note step = Suc.prems(1) [simplified drive.simps Inr sum.case False if_False Let_def]
      show ?thesis
      proof (cases "next_action ?out once (dw_cancelled W n) (dw_pending_remove W n)")
        case (Exit code)
        then show ?thesis using step Suc.prems(3) by simp
      next
        case Reregister
        then have ok: "spends_rightly W once (Ev_Remint n)" and live: "\<not> once" "\<not> dw_cancelled W n"
          using next_action_Reregister [OF Reregister] False by (auto simp: is_ok_unit unit_Err)
        have all: "list_all (spends_rightly W once) (ev @ [Ev_Remint n])" using ok Suc.prems(3) by simp
        have "?b \<le> BACKOFF_MAX" using start Suc.prems(2) by simp
        then show ?thesis using step all live False start retry [where c = ?b and evs = "ev @ [Ev_Remint n]"] Suc.IH [of "Suc n" BACKOFF_START "ev @ [Ev_Remint n]"] Reregister
          by (cases "dw_remint W n") (auto split: remint.splits)
      next
        case Backoff_Retry
        then show ?thesis using step False retry [where c = b and evs = ev] Suc.prems(2,3) next_action_Retry [OF Backoff_Retry] by simp
      qed
    qed
  qed
qed simp


definition busy_runner :: drive_world where
  "busy_runner = \<lparr>dw_setup = (\<lambda>_. Ok ()), dw_ephemeral = (\<lambda>_. False), dw_raw = (\<lambda>n. if n = 0 then Ok (Some Con_Success) else Err (Network_Error ''down'')),
     dw_job_acquired = (\<lambda>n. n = 0), dw_cancelled = (\<lambda>n. n = 2), dw_pending_remove = (\<lambda>_. False), dw_remint = (\<lambda>_. Ok Remint_Reset),
     dw_unregister = (\<lambda>_. Ok ()), dw_stopped = (\<lambda>_. False), dw_error_text = (\<lambda>_. '''')\<rparr>"

lemma busy_runner_runs: "drive 3 busy_runner False 0 BACKOFF_START [] = Some ([Ev_Remint 0, Ev_Sleep 1 1000], Run_Ok)"
  by (simp add: busy_runner_def numeral_3_eq_3 next_action_def finish_run_def backoff_step_def BACKOFF_START_def)


text \<open>A cancellation message that reaches an idle runner cancels the whole process, and the run loop then exits.\<close>

theorem idle_cancellation_stops_the_runner:
  "handle_idle_outcome W n ctx (Po_Cancel m job) backoff = (Ok Idle_Exit, ctx\<lparr>sc_cancelled := True\<rparr>, backoff)
   \<and> next_action out once True pending = Exit 0"
  by (simp add: handle_idle_outcome_def next_action_def)

end
