(* ===== verification/Forwarder.thy ===== *)
theory Forwarder
  imports Listener Step_Display
begin

text \<open>
  How the events of a running job reach GitHub (\<open>crates/listener/src/\<close>): the collector of step results
  (\<open>step_reporter.rs\<close>), the queue of step updates (\<open>step_report_queue.rs\<close>), the event forwarder with its
  log sinks (\<open>execution_loop.rs\<close>, \<open>execution_loop_logs.rs\<close>, \<open>log_spool.rs\<close>, \<open>step_summary.rs\<close>) and the set-up step
  (\<open>setup_forwarding.rs\<close>).

  The forwarder is a function of the list of events it receives, each with what the world does while it is
  handled: the secrets registered by then, the clock, whether the spool accepts a write, what the live feed
  answers and whether the journal still listens. Channels are the lists of what was sent into them.
\<close>

subsection \<open>Collecting step results\<close>

record collected_meta =
  cm_number :: nat
  cm_name :: string
  cm_started_at :: string

record step_result =
  sr_external_id :: string
  sr_number :: nat
  sr_name :: string
  sr_action_name :: "string option"
  sr_git_ref :: "string option"
  sr_kind :: "string option"
  sr_conclusion :: conclusion
  sr_started_at :: "string option"
  sr_completed_at :: string
  sr_log_url :: "string option"
  sr_log_lines :: "nat option"
  sr_annotations :: "report_annotation list"

record collector =
  cl_meta :: "(string \<times> collected_meta) list"
  cl_pending :: "(string \<times> report_annotation list) list"
  cl_identities :: "(string \<times> string \<times> string option \<times> string option) list"
  cl_infrastructure :: "(string \<times> string) list"
  cl_category :: "string option"
  cl_results :: "step_result list"

definition new_collector :: collector where
  "new_collector = \<lparr>cl_meta = [], cl_pending = [], cl_identities = [], cl_infrastructure = [], cl_category = None, cl_results = []\<rparr>"

definition drop_entry :: "string \<Rightarrow> (string \<times> 'v) list \<Rightarrow> (string \<times> 'v) list" where
  "drop_entry k m = filter (\<lambda>kv. fst kv \<noteq> k) m"

definition report_level_of :: "ann_level \<Rightarrow> report_level" where
  "report_level_of l = (case l of Level_Notice \<Rightarrow> Report_Notice | Level_Warning \<Rightarrow> Report_Warning | Level_Error \<Rightarrow> Report_Failure)"

definition or_zero :: "int option \<Rightarrow> int" where
  "or_zero i = (case i of Some n \<Rightarrow> n | None \<Rightarrow> 0)"

fun to_report_annotation :: "runner_event \<Rightarrow> nat option \<Rightarrow> report_annotation option" where
  "to_report_annotation (InfrastructureError sid cat message) number =
     Some \<lparr>ra_level = Report_Failure, ra_message = message, ra_title = None, ra_path = None, ra_infrastructure = True,
       ra_start_line = 0, ra_end_line = 0, ra_start_column = 0, ra_end_column = 0,
       ra_step_number = (case number of Some n \<Rightarrow> int n | None \<Rightarrow> 0)\<rparr>"
| "to_report_annotation (Annotation sid level message file line end_line col end_column title) number =
     Some \<lparr>ra_level = report_level_of level, ra_message = message, ra_title = title, ra_path = file, ra_infrastructure = False,
       ra_start_line = or_zero line, ra_end_line = or_zero end_line, ra_start_column = or_zero col, ra_end_column = or_zero end_column,
       ra_step_number = (case number of Some n \<Rightarrow> int n | None \<Rightarrow> 0)\<rparr>"
| "to_report_annotation _ number = None"

definition find_result :: "string \<Rightarrow> step_result list \<Rightarrow> step_result option" where
  "find_result sid rs = List.find (\<lambda>r. sr_external_id r = sid) rs"

text \<open>Change the first result of a step.\<close>

fun update_result :: "string \<Rightarrow> (step_result \<Rightarrow> step_result) \<Rightarrow> step_result list \<Rightarrow> step_result list" where
  "update_result sid f [] = []"
| "update_result sid f (r # rs) = (if sr_external_id r = sid then f r # rs else r # update_result sid f rs)"

definition record_annotation :: "string \<Rightarrow> runner_event \<Rightarrow> collector \<Rightarrow> collector" where
  "record_annotation sid event c =
     (let number = (case map_of (cl_meta c) sid of Some m \<Rightarrow> Some (cm_number m) | None \<Rightarrow> map_option sr_number (find_result sid (cl_results c)))
      in case to_report_annotation event number of
           None \<Rightarrow> c
         | Some a \<Rightarrow>
             if find_result sid (cl_results c) \<noteq> None
             then c\<lparr>cl_results := update_result sid (\<lambda>r. r\<lparr>sr_annotations := sr_annotations r @ [a]\<rparr>) (cl_results c)\<rparr>
             else c\<lparr>cl_pending := index_insert sid ((case map_of (cl_pending c) sid of Some l \<Rightarrow> l | None \<Rightarrow> []) @ [a]) (cl_pending c)\<rparr>)"

definition record_completion :: "string \<Rightarrow> string \<Rightarrow> conclusion \<Rightarrow> collector \<Rightarrow> collector" where
  "record_completion now sid con c =
     (let meta = map_of (cl_meta c) sid; ident = map_of (cl_identities c) sid
      in c\<lparr>cl_meta := drop_entry sid (cl_meta c),
           cl_pending := drop_entry sid (cl_pending c),
           cl_infrastructure := drop_entry sid (cl_infrastructure c),
           cl_identities := drop_entry sid (cl_identities c),
           cl_category := (if con = Con_Failure \<and> cl_category c = None then map_of (cl_infrastructure c) sid else cl_category c),
           cl_results := cl_results c @
             [\<lparr>sr_external_id = sid,
               sr_number = (case meta of Some m \<Rightarrow> cm_number m | None \<Rightarrow> 0),
               sr_name = (case meta of Some m \<Rightarrow> cm_name m | None \<Rightarrow> []),
               sr_action_name = (case ident of Some (k, a, g) \<Rightarrow> a | None \<Rightarrow> None),
               sr_git_ref = (case ident of Some (k, a, g) \<Rightarrow> g | None \<Rightarrow> None),
               sr_kind = (case ident of Some (k, a, g) \<Rightarrow> Some k | None \<Rightarrow> None),
               sr_conclusion = con,
               sr_started_at = map_option cm_started_at meta,
               sr_completed_at = now, sr_log_url = None, sr_log_lines = None,
               sr_annotations = (case map_of (cl_pending c) sid of Some l \<Rightarrow> l | None \<Rightarrow> [])\<rparr>]\<rparr>)"

fun collector_record :: "string \<Rightarrow> runner_event \<Rightarrow> collector \<Rightarrow> collector" where
  "collector_record now (StepStarted sid name number) c =
     c\<lparr>cl_meta := index_insert sid \<lparr>cm_number = number, cm_name = name, cm_started_at = now\<rparr> (cl_meta c)\<rparr>"
| "collector_record now (StepCompleted sid con outs) c = record_completion now sid con c"
| "collector_record now (Annotation sid level message file line end_line col end_column title) c =
     record_annotation sid (Annotation sid level message file line end_line col end_column title) c"
| "collector_record now (StepMetadata sid kind action git_ref) c =
     c\<lparr>cl_identities := index_insert sid (kind, action, git_ref) (cl_identities c)\<rparr>"
| "collector_record now (InfrastructureError sid cat message) c =
     record_annotation sid (InfrastructureError sid cat message) (c\<lparr>cl_infrastructure := index_insert sid cat (cl_infrastructure c)\<rparr>)"
| "collector_record now _ c = c"

definition set_log_url :: "string \<Rightarrow> string \<Rightarrow> nat \<Rightarrow> collector \<Rightarrow> collector" where
  "set_log_url sid url count c =
     c\<lparr>cl_results := update_result sid (\<lambda>r. r\<lparr>sr_log_url := Some url, sr_log_lines := Some count\<rparr>) (cl_results c)\<rparr>"

definition collected_results :: "collector \<Rightarrow> step_result list" where
  "collected_results c = cl_results c"

subsection \<open>Step updates\<close>

datatype report_status = In_Progress | Status_Completed

record step_update =
  su_external_id :: string
  su_number :: nat
  su_name :: string
  su_status :: report_status
  su_conclusion :: "conclusion option"
  su_started_at :: "string option"
  su_completed_at :: "string option"

type_synonym step_meta_map = "(string \<times> collected_meta) list"

definition entry_for_started :: "string \<Rightarrow> string \<Rightarrow> string \<Rightarrow> nat \<Rightarrow> step_meta_map \<Rightarrow> step_update \<times> step_meta_map" where
  "entry_for_started now sid name number metas =
     (\<lparr>su_external_id = sid, su_number = number, su_name = name, su_status = In_Progress, su_conclusion = None,
       su_started_at = Some now, su_completed_at = None\<rparr>,
      index_insert sid \<lparr>cm_number = number, cm_name = name, cm_started_at = now\<rparr> metas)"

definition entry_for_completed :: "string \<Rightarrow> string \<Rightarrow> conclusion \<Rightarrow> step_meta_map \<Rightarrow> step_update" where
  "entry_for_completed now sid con metas =
     (let m = (case map_of metas sid of Some m \<Rightarrow> m | None \<Rightarrow> \<lparr>cm_number = 0, cm_name = [], cm_started_at = now\<rparr>)
      in \<lparr>su_external_id = sid, su_number = cm_number m, su_name = cm_name m, su_status = Status_Completed, su_conclusion = Some con,
          su_started_at = Some (cm_started_at m), su_completed_at = Some now\<rparr>)"

fun build_step_entry :: "string \<Rightarrow> runner_event \<Rightarrow> step_meta_map \<Rightarrow> step_update option \<times> step_meta_map" where
  "build_step_entry now (StepStarted sid name number) metas =
     (case entry_for_started now sid name number metas of (e, ms) \<Rightarrow> (Some e, ms))"
| "build_step_entry now (StepCompleted sid con outs) metas = (Some (entry_for_completed now sid con metas), metas)"
| "build_step_entry now _ metas = (None, metas)"

record steps_request =
  sq_steps :: "step_update list"
  sq_change_order :: nat

text \<open>The queue task: it takes one entry and whatever else is queued by then. \<open>ready n rest\<close> is how much that is
  at flush \<open>n\<close>; each request counts up, whether or not it succeeds.\<close>

fun run_queue :: "(nat \<Rightarrow> step_update list \<Rightarrow> nat) \<Rightarrow> nat \<Rightarrow> nat \<Rightarrow> step_update list \<Rightarrow> steps_request list" where
  "run_queue ready change_order n [] = []"
| "run_queue ready change_order n (first # rest) =
     (let k = min (ready n rest) (length rest)
      in \<lparr>sq_steps = first # take k rest, sq_change_order = change_order\<rparr> # run_queue ready (change_order + 1) (Suc n) (drop k rest))"

subsection \<open>The forwarder\<close>

datatype live_send = Live_Sent | Live_Full | Live_Closed

text \<open>What the world does while an event is handled.\<close>

record moment =
  mo_masker :: secret_masker
  mo_now :: string
  mo_spool_ok :: bool
  mo_live :: live_send
  mo_journal_open :: bool
  mo_cancelled :: bool

record fwd_config =
  fc_setup_id :: "string option"
  fc_results :: bool
  fc_live :: bool

text \<open>An upload is a step and the lines its uploader was sent; \<open>fo_uploaders\<close> names the upload a step's lines
  still go to.\<close>

record forwarder =
  fo_setup_pending :: bool
  fo_step_meta :: step_meta_map
  fo_step_queue :: "step_update list option"
  fo_summaries :: "(string \<times> string) list option"
  fo_uploads :: "(string \<times> string list) list"
  fo_uploaders :: "(string \<times> nat) list"
  fo_job_log :: "string list option"
  fo_live :: "(string \<times> string) list"
  fo_live_closed :: bool
  fo_conclusion :: "conclusion option"
  fo_outputs :: "(string \<times> string) list"
  fo_environment_url :: "string option"
  fo_collector :: collector
  fo_journal :: "runner_event list"

definition new_forwarder :: "fwd_config \<Rightarrow> string list option \<Rightarrow> forwarder" where
  "new_forwarder cfg job_log =
     \<lparr>fo_setup_pending = (fc_setup_id cfg \<noteq> None), fo_step_meta = [], fo_step_queue = (if fc_results cfg then Some [] else None),
      fo_summaries = (if fc_results cfg then Some [] else None), fo_uploads = [], fo_uploaders = [], fo_job_log = job_log,
      fo_live = [], fo_live_closed = False, fo_conclusion = None, fo_outputs = [], fo_environment_url = None,
      fo_collector = new_collector, fo_journal = []\<rparr>"

text \<open>The combined log exists only with a results service; \<open>opened\<close> tells whether its file could be created.\<close>

definition prepare_job_log :: "bool \<Rightarrow> bool \<Rightarrow> string list option" where
  "prepare_job_log enabled opened = (if enabled \<and> opened then Some [] else None)"

definition mask_line :: "moment \<Rightarrow> string \<Rightarrow> string" where
  "mask_line mo line = mask (mo_masker mo) line"

definition spawn_step_uploader :: "fwd_config \<Rightarrow> string \<Rightarrow> forwarder \<Rightarrow> forwarder" where
  "spawn_step_uploader cfg sid f =
     (if fc_results cfg
      then f\<lparr>fo_uploaders := index_insert sid (length (fo_uploads f)) (fo_uploaders f), fo_uploads := fo_uploads f @ [(sid, [])]\<rparr>
      else f)"

definition forward_live_line :: "fwd_config \<Rightarrow> moment \<Rightarrow> string \<Rightarrow> string \<Rightarrow> forwarder \<Rightarrow> forwarder" where
  "forward_live_line cfg mo sid masked f =
     (if fc_live cfg \<and> \<not> fo_live_closed f
      then (case mo_live mo of
              Live_Sent \<Rightarrow> f\<lparr>fo_live := fo_live f @ [(sid, masked)]\<rparr>
            | Live_Full \<Rightarrow> f
            | Live_Closed \<Rightarrow> f\<lparr>fo_live_closed := True\<rparr>)
      else f)"

definition forward_log_line :: "fwd_config \<Rightarrow> moment \<Rightarrow> string \<Rightarrow> string \<Rightarrow> forwarder \<Rightarrow> forwarder" where
  "forward_log_line cfg mo sid line f =
     (let masked = mask_line mo line;
          f = (case fo_job_log f of
                 None \<Rightarrow> f
               | Some ls \<Rightarrow> if mo_spool_ok mo then f\<lparr>fo_job_log := Some (ls @ [masked])\<rparr> else f\<lparr>fo_job_log := None\<rparr>);
          f = (case map_of (fo_uploaders f) sid of
                 None \<Rightarrow> f
               | Some u \<Rightarrow> f\<lparr>fo_uploads := (fo_uploads f)[u := (fst (fo_uploads f ! u), snd (fo_uploads f ! u) @ [masked])]\<rparr>)
      in forward_live_line cfg mo sid masked f)"

fun handle_event_arm :: "fwd_config \<Rightarrow> moment \<Rightarrow> runner_event \<Rightarrow> forwarder \<Rightarrow> forwarder" where
  "handle_event_arm cfg mo (StepSummary sid content) f =
     (case fo_summaries f of Some q \<Rightarrow> f\<lparr>fo_summaries := Some (q @ [(sid, mask_line mo content)])\<rparr> | None \<Rightarrow> f)"
| "handle_event_arm cfg mo (StepStarted sid name number) f = spawn_step_uploader cfg sid f"
| "handle_event_arm cfg mo (Log sid line stream) f = forward_log_line cfg mo sid line f"
| "handle_event_arm cfg mo (StepCompleted sid con outs) f =
     (if fc_setup_id cfg \<noteq> Some sid then f\<lparr>fo_uploaders := drop_entry sid (fo_uploaders f)\<rparr> else f)"
| "handle_event_arm cfg mo _ f = f"

definition report_step :: "moment \<Rightarrow> runner_event \<Rightarrow> forwarder \<Rightarrow> forwarder" where
  "report_step mo event f =
     (case fo_step_queue f of
        None \<Rightarrow> f
      | Some q \<Rightarrow>
          (case build_step_entry (mo_now mo) event (fo_step_meta f) of
             (None, ms) \<Rightarrow> f\<lparr>fo_step_meta := ms\<rparr>
           | (Some e, ms) \<Rightarrow> f\<lparr>fo_step_meta := ms, fo_step_queue := Some (q @ [e])\<rparr>))"

definition send_journal :: "moment \<Rightarrow> runner_event \<Rightarrow> forwarder \<Rightarrow> forwarder" where
  "send_journal mo event f = (if mo_journal_open mo then f\<lparr>fo_journal := fo_journal f @ [event]\<rparr> else f)"

subsection \<open>The set-up step\<close>

fun is_step_started :: "runner_event \<Rightarrow> bool" where
  "is_step_started (StepStarted sid name number) = True"
| "is_step_started _ = False"

text \<open>The first in-progress update of the set-up step was sent elsewhere: only its metadata is kept.\<close>

definition deliver :: "fwd_config \<Rightarrow> moment \<Rightarrow> runner_event \<Rightarrow> forwarder \<Rightarrow> forwarder" where
  "deliver cfg mo event f =
     (let f = f\<lparr>fo_collector := collector_record (mo_now mo) event (fo_collector f)\<rparr>;
          f = handle_event_arm cfg mo event f;
          f = (if is_step_started event then f\<lparr>fo_step_meta := snd (build_step_entry (mo_now mo) event (fo_step_meta f))\<rparr>
               else report_step mo event f)
      in send_journal mo event f)"

fun deliver_line :: "fwd_config \<Rightarrow> (nat \<Rightarrow> moment) \<Rightarrow> string \<Rightarrow> nat \<times> string \<Rightarrow> forwarder \<Rightarrow> forwarder" where
  "deliver_line cfg mo i (n, line) f = deliver cfg (mo n) (Log i line Stdout) f"

definition setup_start :: "fwd_config \<Rightarrow> (nat \<Rightarrow> moment) \<Rightarrow> string list \<Rightarrow> forwarder \<Rightarrow> forwarder" where
  "setup_start cfg mo setup_lines f =
     (case fc_setup_id cfg of
        None \<Rightarrow> f
      | Some i \<Rightarrow>
          (let f = deliver cfg (mo 0) (StepStarted i ''Set up job'' 1) f;
               f = deliver cfg (mo 1) (StepMetadata i ''runner'' (Some ''setup_job'') None) f
           in fold (deliver_line cfg mo i) (zip [2 ..< length setup_lines + 2] setup_lines) f))"

definition setup_finish :: "fwd_config \<Rightarrow> moment \<Rightarrow> conclusion \<Rightarrow> forwarder \<Rightarrow> forwarder" where
  "setup_finish cfg mo con f =
     (if \<not> fo_setup_pending f then f
      else let f = f\<lparr>fo_setup_pending := False\<rparr>
           in case fc_setup_id cfg of None \<Rightarrow> f | Some i \<Rightarrow> deliver cfg mo (StepCompleted i con []) f)"

text \<open>The event as it goes on: a log line of the preparation is moved to the set-up step.\<close>

fun before_event :: "fwd_config \<Rightarrow> moment \<Rightarrow> runner_event \<Rightarrow> forwarder \<Rightarrow> runner_event \<times> forwarder" where
  "before_event cfg mo (StepStarted sid name number) f =
     (StepStarted sid name number, setup_finish cfg mo (if mo_cancelled mo then Con_Cancelled else Con_Success) f)"
| "before_event cfg mo (JobCompleted job con outs url) f = (JobCompleted job con outs url, setup_finish cfg mo con f)"
| "before_event cfg mo (Log sid line stream) f =
     (case fc_setup_id cfg of
        Some i \<Rightarrow> (Log (if sid = SETUP_STEP_ID \<or> fo_setup_pending f then i else sid) line stream, f)
      | None \<Rightarrow> (Log sid line stream, f))"
| "before_event cfg mo event f = (event, f)"

fun latch_completion :: "runner_event \<Rightarrow> forwarder \<Rightarrow> forwarder" where
  "latch_completion (JobCompleted job con outs url) f = f\<lparr>fo_conclusion := Some con, fo_outputs := outs, fo_environment_url := url\<rparr>"
| "latch_completion event f = f"

fun mask_infrastructure :: "moment \<Rightarrow> runner_event \<Rightarrow> runner_event" where
  "mask_infrastructure mo (InfrastructureError sid cat message) = InfrastructureError sid cat (mask_line mo message)"
| "mask_infrastructure mo event = event"

definition forward_event :: "fwd_config \<Rightarrow> moment \<Rightarrow> runner_event \<Rightarrow> forwarder \<Rightarrow> forwarder" where
  "forward_event cfg mo event f =
     (case before_event cfg mo event f of
        (event, f) \<Rightarrow>
          (let f = latch_completion event f;
               event = mask_infrastructure mo event;
               f = f\<lparr>fo_collector := collector_record (mo_now mo) event (fo_collector f)\<rparr>;
               f = handle_event_arm cfg mo event f;
               f = report_step mo event f
           in send_journal mo event f))"

text \<open>The loop stops when the journal no longer listens.\<close>

fun forward_events :: "fwd_config \<Rightarrow> (moment \<times> runner_event) list \<Rightarrow> forwarder \<Rightarrow> forwarder" where
  "forward_events cfg [] f = f"
| "forward_events cfg ((mo, event) # rest) f =
     (let f = forward_event cfg mo event f in if mo_journal_open mo then forward_events cfg rest f else f)"

subsection \<open>The end of the job\<close>

text \<open>\<open>finished\<close> is what the uploads give back, in the order they end: the step, its log's URL and length.\<close>

fun backfill_log :: "(string \<times> string \<times> nat) option \<Rightarrow> forwarder \<Rightarrow> forwarder" where
  "backfill_log (Some (sid, url, count)) f = f\<lparr>fo_collector := set_log_url sid url count (fo_collector f)\<rparr>"
| "backfill_log None f = f"

definition drain_step_uploads :: "(string \<times> string \<times> nat) option list \<Rightarrow> forwarder \<Rightarrow> forwarder" where
  "drain_step_uploads finished f =
     fold backfill_log finished (f\<lparr>fo_uploaders := []\<rparr>)"

record forwarder_outcome =
  oc_conclusion :: conclusion
  oc_outputs :: "(string \<times> string) list"
  oc_environment_url :: "string option"
  oc_job_log :: "string list option"

definition final_conclusion :: "forwarder \<Rightarrow> conclusion" where
  "final_conclusion f = (case fo_conclusion f of Some c \<Rightarrow> c | None \<Rightarrow> Con_Failure)"

definition finish_forwarder ::
  "fwd_config \<Rightarrow> moment \<Rightarrow> (string \<times> string \<times> nat) option list \<Rightarrow> forwarder \<Rightarrow> forwarder_outcome \<times> forwarder" where
  "finish_forwarder cfg mo finished f =
     (let f = setup_finish cfg mo Con_Failure f;
          f = drain_step_uploads finished f
      in (\<lparr>oc_conclusion = final_conclusion f, oc_outputs = fo_outputs f, oc_environment_url = fo_environment_url f,
           oc_job_log = (if fc_results cfg then fo_job_log f else None)\<rparr>, f))"

definition run_forwarder ::
  "fwd_config \<Rightarrow> bool \<Rightarrow> (nat \<Rightarrow> moment) \<Rightarrow> string list \<Rightarrow> (moment \<times> runner_event) list \<Rightarrow> moment
     \<Rightarrow> (string \<times> string \<times> nat) option list \<Rightarrow> forwarder_outcome \<times> forwarder" where
  "run_forwarder cfg opened first setup_lines events last_moment finished =
     finish_forwarder cfg last_moment finished
       (forward_events cfg events (setup_start cfg first setup_lines (new_forwarder cfg (prepare_job_log (fc_results cfg) opened))))"

record job_execution =
  jx_conclusion :: conclusion
  jx_outputs :: "(string \<times> string) list"
  jx_steps :: "step_result list"
  jx_annotations :: "report_annotation list"
  jx_environment_url :: "string option"
  jx_category :: "string option"

definition build_job_execution :: "forwarder_outcome \<Rightarrow> collector \<Rightarrow> renewal_loss \<Rightarrow> job_execution" where
  "build_job_execution out c loss =
     (case apply_outage_override (oc_conclusion out) loss of
        (con, anns) \<Rightarrow> \<lparr>jx_conclusion = con, jx_outputs = oc_outputs out, jx_steps = collected_results c, jx_annotations = anns,
          jx_environment_url = oc_environment_url out, jx_category = cl_category c\<rparr>)"

subsection \<open>What the parts of the forwarder leave alone\<close>

lemma arm_frame [simp]:
  "fo_collector (handle_event_arm cfg mo ev f) = fo_collector f"
  "fo_setup_pending (handle_event_arm cfg mo ev f) = fo_setup_pending f"
  "fo_conclusion (handle_event_arm cfg mo ev f) = fo_conclusion f"
  by (cases ev; simp add: spawn_step_uploader_def forward_log_line_def forward_live_line_def Let_def split: option.splits live_send.splits)+

lemma report_step_frame [simp]:
  "fo_collector (report_step mo ev f) = fo_collector f"
  "fo_setup_pending (report_step mo ev f) = fo_setup_pending f"
  "fo_conclusion (report_step mo ev f) = fo_conclusion f"
  "fo_job_log (report_step mo ev f) = fo_job_log f"
  "fo_live (report_step mo ev f) = fo_live f"
  "fo_uploads (report_step mo ev f) = fo_uploads f"
  by (simp_all add: report_step_def split: option.splits prod.splits)

lemma send_journal_frame [simp]:
  "fo_collector (send_journal mo ev f) = fo_collector f"
  "fo_setup_pending (send_journal mo ev f) = fo_setup_pending f"
  "fo_conclusion (send_journal mo ev f) = fo_conclusion f"
  "fo_job_log (send_journal mo ev f) = fo_job_log f"
  "fo_live (send_journal mo ev f) = fo_live f"
  "fo_uploads (send_journal mo ev f) = fo_uploads f"
  by (simp_all add: send_journal_def)

lemma latch_frame [simp]:
  "fo_collector (latch_completion ev f) = fo_collector f"
  "fo_setup_pending (latch_completion ev f) = fo_setup_pending f"
  "fo_job_log (latch_completion ev f) = fo_job_log f"
  by (cases ev; simp)+

subsection \<open>Results\<close>

definition result_pairs :: "collector \<Rightarrow> (string \<times> conclusion) list" where
  "result_pairs c = map (\<lambda>r. (sr_external_id r, sr_conclusion r)) (cl_results c)"

fun completions_of :: "runner_event \<Rightarrow> (string \<times> conclusion) list" where
  "completions_of (StepCompleted sid con outs) = [(sid, con)]"
| "completions_of _ = []"

lemma update_result_pairs:
  assumes "\<And>r. sr_external_id (g r) = sr_external_id r" "\<And>r. sr_conclusion (g r) = sr_conclusion r"
  shows "map (\<lambda>r. (sr_external_id r, sr_conclusion r)) (update_result sid g rs) = map (\<lambda>r. (sr_external_id r, sr_conclusion r)) rs"
  using assms by (induction rs) auto

lemma record_annotation_pairs: "result_pairs (record_annotation sid ev c) = result_pairs c"
  by (simp add: record_annotation_def result_pairs_def Let_def update_result_pairs split: option.split)

lemma record_pairs: "result_pairs (collector_record now ev c) = result_pairs c @ completions_of ev"
proof (cases ev)
  case (Annotation)
  then show ?thesis by (simp add: record_annotation_pairs)
next
  case (InfrastructureError)
  then show ?thesis by (simp add: record_annotation_pairs) (simp add: result_pairs_def)
qed (simp_all add: result_pairs_def record_completion_def Let_def)

lemma deliver_pairs [simp]:
  "result_pairs (fo_collector (deliver cfg mo ev f)) = result_pairs (fo_collector f) @ completions_of ev"
  "fo_setup_pending (deliver cfg mo ev f) = fo_setup_pending f"
  "fo_conclusion (deliver cfg mo ev f) = fo_conclusion f"
  by (simp_all add: deliver_def Let_def record_pairs)

lemma setup_finish_pairs:
  assumes "fc_setup_id cfg = Some i"
  shows "result_pairs (fo_collector (setup_finish cfg mo con f)) = result_pairs (fo_collector f) @ (if fo_setup_pending f then [(i, con)] else [])"
    "\<not> fo_setup_pending (setup_finish cfg mo con f)"
    "fo_conclusion (setup_finish cfg mo con f) = fo_conclusion f"
  using assms by (simp_all add: setup_finish_def Let_def)

text \<open>The steps a job reports, from its events alone: the set-up step is closed by the first step or by the end of
  the job, and once more by nothing.\<close>

fun reported_steps :: "string \<Rightarrow> bool \<Rightarrow> (moment \<times> runner_event) list \<Rightarrow> (string \<times> conclusion) list" where
  "reported_steps i pending [] = (if pending then [(i, Con_Failure)] else [])"
| "reported_steps i pending ((mo, StepStarted sid name number) # rest) =
     (if pending then [(i, if mo_cancelled mo then Con_Cancelled else Con_Success)] else []) @ reported_steps i False rest"
| "reported_steps i pending ((mo, JobCompleted job con outs url) # rest) = (if pending then [(i, con)] else []) @ reported_steps i False rest"
| "reported_steps i pending ((mo, StepCompleted sid con outs) # rest) = (sid, con) # reported_steps i pending rest"
| "reported_steps i pending ((mo, ev) # rest) = reported_steps i pending rest"

fun last_verdict :: "conclusion option \<Rightarrow> (moment \<times> runner_event) list \<Rightarrow> conclusion option" where
  "last_verdict c [] = c"
| "last_verdict c ((mo, JobCompleted job con outs url) # rest) = last_verdict (Some con) rest"
| "last_verdict c ((mo, ev) # rest) = last_verdict c rest"

fun closes_setup :: "runner_event \<Rightarrow> bool" where
  "closes_setup (StepStarted sid name number) = True"
| "closes_setup (JobCompleted job con outs url) = True"
| "closes_setup _ = False"

definition setup_verdict :: "moment \<Rightarrow> runner_event \<Rightarrow> conclusion" where
  "setup_verdict mo ev = (case ev of JobCompleted job con outs url \<Rightarrow> con | _ \<Rightarrow> if mo_cancelled mo then Con_Cancelled else Con_Success)"

lemma reported_Cons:
  "reported_steps i pending ((mo, ev) # rest) =
     (if closes_setup ev \<and> pending then [(i, setup_verdict mo ev)] else []) @ completions_of ev @ reported_steps i (pending \<and> \<not> closes_setup ev) rest"
  by (cases ev) (auto simp: setup_verdict_def)

lemma verdict_Cons: "last_verdict c ((mo, ev) # rest) = last_verdict (fo_conclusion (latch_completion ev (f\<lparr>fo_conclusion := c\<rparr>))) rest"
  by (cases ev) simp_all

lemma before_event_state:
  "snd (before_event cfg mo ev f) = (if closes_setup ev then setup_finish cfg mo (setup_verdict mo ev) f else f)"
  by (cases ev) (auto simp: setup_verdict_def split: option.split)

lemma before_event_completions:
  "completions_of (mask_infrastructure mo (fst (before_event cfg mo ev f))) = completions_of ev"
  by (cases ev) (auto split: option.split)

lemma before_event_latch:
  "latch_completion (fst (before_event cfg mo ev f)) g = latch_completion ev g"
  by (cases ev) (auto split: option.split)

lemma forward_event_effect:
  assumes "fc_setup_id cfg = Some i"
  shows "result_pairs (fo_collector (forward_event cfg mo ev f)) =
      result_pairs (fo_collector f) @ (if closes_setup ev \<and> fo_setup_pending f then [(i, setup_verdict mo ev)] else []) @ completions_of ev"
    "fo_setup_pending (forward_event cfg mo ev f) \<longleftrightarrow> fo_setup_pending f \<and> \<not> closes_setup ev"
    "fo_conclusion (forward_event cfg mo ev f) = fo_conclusion (latch_completion ev f)"
proof -
  obtain ev' f' where b: "before_event cfg mo ev f = (ev', f')" by (rule prod.exhaust)
  have f': "f' = (if closes_setup ev then setup_finish cfg mo (setup_verdict mo ev) f else f)" using before_event_state [of cfg mo ev f] by (simp add: b)
  have c: "completions_of (mask_infrastructure mo ev') = completions_of ev" using before_event_completions [of mo cfg ev f] by (simp add: b)
  have l: "latch_completion ev' g = latch_completion ev g" for g using before_event_latch [of cfg mo ev f g] by (simp add: b)
  have same: "fo_conclusion (latch_completion ev f') = fo_conclusion (latch_completion ev f)"
    by (cases ev) (simp_all add: f' setup_finish_pairs [OF assms])
  show "result_pairs (fo_collector (forward_event cfg mo ev f)) =
      result_pairs (fo_collector f) @ (if closes_setup ev \<and> fo_setup_pending f then [(i, setup_verdict mo ev)] else []) @ completions_of ev"
    by (simp add: forward_event_def b Let_def l record_pairs c) (simp add: f' setup_finish_pairs [OF assms])
  show "fo_setup_pending (forward_event cfg mo ev f) \<longleftrightarrow> fo_setup_pending f \<and> \<not> closes_setup ev"
    by (simp add: forward_event_def b Let_def l) (simp add: f' setup_finish_pairs [OF assms])
  show "fo_conclusion (forward_event cfg mo ev f) = fo_conclusion (latch_completion ev f)"
    by (simp add: forward_event_def b Let_def l same)
qed

lemma forward_events_effect:
  assumes "fc_setup_id cfg = Some i" "list_all (\<lambda>(mo, ev). mo_journal_open mo) events"
  shows "result_pairs (fo_collector (forward_events cfg events f)) @ (if fo_setup_pending (forward_events cfg events f) then [(i, Con_Failure)] else []) =
      result_pairs (fo_collector f) @ reported_steps i (fo_setup_pending f) events
    \<and> fo_conclusion (forward_events cfg events f) = last_verdict (fo_conclusion f) events"
  using assms(2)
proof (induction events arbitrary: f)
  case (Cons me rest)
  obtain mo ev where me: "me = (mo, ev)" by (rule prod.exhaust)
  have v: "last_verdict (fo_conclusion f) ((mo, ev) # rest) = last_verdict (fo_conclusion (latch_completion ev f)) rest"
    using verdict_Cons [of "fo_conclusion f" mo ev rest f] by simp
  show ?case using Cons.IH [of "forward_event cfg mo ev f"] Cons.prems
    by (simp add: me Let_def forward_event_effect [OF assms(1)] reported_Cons v)
qed simp

lemma setup_lines_effect:
  "result_pairs (fo_collector (fold (deliver_line cfg mo i) nls f)) = result_pairs (fo_collector f)
   \<and> fo_setup_pending (fold (deliver_line cfg mo i) nls f) = fo_setup_pending f
   \<and> fo_conclusion (fold (deliver_line cfg mo i) nls f) = fo_conclusion f"
proof (induction nls arbitrary: f)
  case (Cons nl nls)
  then show ?case by (cases nl) simp
qed simp

lemma setup_start_effect:
  assumes "fc_setup_id cfg = Some i"
  shows "result_pairs (fo_collector (setup_start cfg mo ls f)) = result_pairs (fo_collector f)"
    "fo_setup_pending (setup_start cfg mo ls f) = fo_setup_pending f" "fo_conclusion (setup_start cfg mo ls f) = fo_conclusion f"
  using assms by (simp_all add: setup_start_def Let_def setup_lines_effect)

lemma backfill_effect:
  "result_pairs (fo_collector (backfill_log r f)) = result_pairs (fo_collector f) \<and> fo_conclusion (backfill_log r f) = fo_conclusion f
   \<and> fo_job_log (backfill_log r f) = fo_job_log f"
  by (cases "(r, f)" rule: backfill_log.cases) (simp_all add: result_pairs_def set_log_url_def update_result_pairs)

lemma drain_effect:
  "result_pairs (fo_collector (drain_step_uploads finished f)) = result_pairs (fo_collector f)
   \<and> fo_conclusion (drain_step_uploads finished f) = fo_conclusion f \<and> fo_job_log (drain_step_uploads finished f) = fo_job_log f"
proof -
  have "result_pairs (fo_collector (fold backfill_log finished g)) = result_pairs (fo_collector g)
    \<and> fo_conclusion (fold backfill_log finished g) = fo_conclusion g \<and> fo_job_log (fold backfill_log finished g) = fo_job_log g" for g
    by (induction finished arbitrary: g) (simp_all add: backfill_effect)
  then show ?thesis by (simp add: drain_step_uploads_def)
qed

text \<open>C6. The forwarder reports the whole job. With a listening journal, the results a job completes with are, in
  order, those of the steps the engine completed, and the set-up step exactly once: closed successfully (or as
  cancelled) by the first step that starts, with the job's conclusion when none does, and as failed when the
  engine ends without a verdict. The conclusion is the engine's last verdict, or failure.\<close>

theorem forwarder_reports_the_job:
  assumes "fc_setup_id cfg = Some i" "list_all (\<lambda>(mo, ev). mo_journal_open mo) events"
    and "run_forwarder cfg opened first setup_lines events last_moment finished = (out, f)"
  shows "map (\<lambda>r. (sr_external_id r, sr_conclusion r)) (collected_results (fo_collector f)) = reported_steps i True events
    \<and> oc_conclusion out = (case last_verdict None events of Some c \<Rightarrow> c | None \<Rightarrow> Con_Failure)"
proof -
  define f0 where "f0 = setup_start cfg first setup_lines (new_forwarder cfg (prepare_job_log (fc_results cfg) opened))"
  have f0: "result_pairs (fo_collector f0) = []" "fo_setup_pending f0" "fo_conclusion f0 = None"
    by (simp_all add: f0_def setup_start_effect [OF assms(1)] new_forwarder_def assms(1)) (simp add: result_pairs_def new_collector_def)
  define f1 where "f1 = forward_events cfg events f0"
  have f1: "result_pairs (fo_collector f1) @ (if fo_setup_pending f1 then [(i, Con_Failure)] else []) = reported_steps i True events"
    "fo_conclusion f1 = last_verdict None events"
    using forward_events_effect [OF assms(1,2), of f0] by (simp_all add: f0 f1_def)
  have f: "f = drain_step_uploads finished (setup_finish cfg last_moment Con_Failure f1)" and out: "oc_conclusion out = final_conclusion f"
    using assms(3) by (auto simp: run_forwarder_def finish_forwarder_def Let_def f0_def f1_def)
  have "result_pairs (fo_collector f) = reported_steps i True events" "fo_conclusion f = last_verdict None events"
    using f1 by (simp_all add: f drain_effect setup_finish_pairs [OF assms(1)])
  then show ?thesis by (simp add: out final_conclusion_def collected_results_def result_pairs_def)
qed

subsection \<open>Logs\<close>

fun log_lines :: "moment \<Rightarrow> runner_event \<Rightarrow> string list" where
  "log_lines mo (Log sid line stream) = [mask (mo_masker mo) line]"
| "log_lines mo _ = []"

text \<open>The job log is the given list of lines, and every line of the live feed and of a step's upload is one of its lines.\<close>

definition sinks_hold :: "string list \<Rightarrow> forwarder \<Rightarrow> bool" where
  "sinks_hold lg f \<longleftrightarrow> fo_job_log f = Some lg \<and> (\<forall>(s, l) \<in> set (fo_live f). l \<in> set lg) \<and> (\<forall>(s, ls) \<in> set (fo_uploads f). set ls \<subseteq> set lg)"

lemma sinks_hold_cong:
  "fo_job_log f = fo_job_log g \<Longrightarrow> fo_live f = fo_live g \<Longrightarrow> fo_uploads f = fo_uploads g \<Longrightarrow> sinks_hold lg f = sinks_hold lg g"
  by (simp add: sinks_hold_def)

lemma upload_line_holds:
  assumes "\<forall>(s, ls) \<in> set us. set ls \<subseteq> A"
  shows "\<forall>(s, ls) \<in> set (us[u := (fst (us ! u), snd (us ! u) @ [l])]). set ls \<subseteq> insert l A"
proof (cases "u < length us")
  case True
  then have "us ! u \<in> set us" by simp
  then have "set (snd (us ! u)) \<subseteq> A" using assms by (auto simp: split_beta)
  then show ?thesis using assms set_update_subset_insert [of us u "(fst (us ! u), snd (us ! u) @ [l])"] by fastforce
next
  case False
  then show ?thesis using assms by (fastforce simp: list_update_beyond)
qed

lemma forward_live_holds: "l \<in> set lg \<Longrightarrow> sinks_hold lg f \<Longrightarrow> sinks_hold lg (forward_live_line cfg mo sid l f)"
  by (auto simp: forward_live_line_def sinks_hold_def split: live_send.split)

lemma forward_log_holds:
  assumes "sinks_hold lg f" "mo_spool_ok mo"
  shows "sinks_hold (lg @ [mask (mo_masker mo) line]) (forward_log_line cfg mo sid line f)"
proof -
  let ?l = "mask (mo_masker mo) line" and ?g = "f\<lparr>fo_job_log := Some (lg @ [mask (mo_masker mo) line])\<rparr>"
  have g: "sinks_hold (lg @ [?l]) ?g" using assms(1) by (auto simp: sinks_hold_def)
  let ?h = "case map_of (fo_uploaders ?g) sid of None \<Rightarrow> ?g
    | Some u \<Rightarrow> ?g\<lparr>fo_uploads := (fo_uploads ?g)[u := (fst (fo_uploads ?g ! u), snd (fo_uploads ?g ! u) @ [?l])]\<rparr>"
  have "sinks_hold (lg @ [?l]) ?h"
    using g upload_line_holds [of "fo_uploads f" "set lg" _ ?l] assms(1)
    by (auto simp: sinks_hold_def split: option.split)
  then have "sinks_hold (lg @ [?l]) (forward_live_line cfg mo sid ?l ?h)" by (intro forward_live_holds) simp
  moreover have "forward_log_line cfg mo sid line f = forward_live_line cfg mo sid ?l ?h"
    using assms by (simp add: forward_log_line_def mask_line_def sinks_hold_def Let_def)
  ultimately show ?thesis by simp
qed

lemma arm_holds:
  assumes "sinks_hold lg f" "mo_spool_ok mo"
  shows "sinks_hold (lg @ log_lines mo ev) (handle_event_arm cfg mo ev f)"
proof (cases ev)
  case (StepSummary sid content)
  then show ?thesis using assms(1) by (auto simp: sinks_hold_def split: option.split)
next
  case (Log sid line stream)
  then show ?thesis using forward_log_holds [OF assms] by simp
next
  case (StepStarted sid name number)
  then show ?thesis using assms(1) by (auto simp: sinks_hold_def spawn_step_uploader_def)
next
  case (StepCompleted sid con outs)
  then show ?thesis using assms(1) by (auto simp: sinks_hold_def)
qed (use assms(1) in simp_all)

lemma report_holds [simp]: "sinks_hold lg (report_step mo ev f) = sinks_hold lg f"
  by (rule sinks_hold_cong) simp_all

lemma journal_holds [simp]: "sinks_hold lg (send_journal mo ev f) = sinks_hold lg f"
  by (rule sinks_hold_cong) simp_all

lemma update_holds [simp]:
  "sinks_hold lg (f\<lparr>fo_collector := c\<rparr>) = sinks_hold lg f" "sinks_hold lg (f\<lparr>fo_step_meta := ms\<rparr>) = sinks_hold lg f"
  "sinks_hold lg (f\<lparr>fo_setup_pending := p\<rparr>) = sinks_hold lg f" "sinks_hold lg (f\<lparr>fo_uploaders := us\<rparr>) = sinks_hold lg f"
  "sinks_hold lg (latch_completion ev f) = sinks_hold lg f"
  by (simp_all add: sinks_hold_def) (cases ev; simp)

lemma deliver_holds: "sinks_hold lg f \<Longrightarrow> mo_spool_ok mo \<Longrightarrow> sinks_hold (lg @ log_lines mo ev) (deliver cfg mo ev f)"
  by (simp add: deliver_def Let_def arm_holds)

lemma setup_finish_holds: "sinks_hold lg f \<Longrightarrow> mo_spool_ok mo \<Longrightarrow> sinks_hold lg (setup_finish cfg mo con f)"
  using deliver_holds [of lg "f\<lparr>fo_setup_pending := False\<rparr>" mo "StepCompleted _ con []" cfg]
  by (auto simp: setup_finish_def Let_def split: option.split)

lemma before_event_lines: "log_lines mo (mask_infrastructure mo (fst (before_event cfg mo ev f))) = log_lines mo ev"
  by (cases ev) (auto split: option.split)

lemma forward_event_holds:
  assumes "sinks_hold lg f" "mo_spool_ok mo"
  shows "sinks_hold (lg @ log_lines mo ev) (forward_event cfg mo ev f)"
proof -
  obtain ev' f' where b: "before_event cfg mo ev f = (ev', f')" by (rule prod.exhaust)
  have "sinks_hold lg f'" using before_event_state [of cfg mo ev f] setup_finish_holds [OF assms] assms(1) by (simp add: b split: if_splits)
  then have "sinks_hold (lg @ log_lines mo (mask_infrastructure mo ev')) (forward_event cfg mo ev f)"
    by (simp add: forward_event_def b Let_def arm_holds assms(2))
  then show ?thesis using before_event_lines [of mo cfg ev f] by (simp add: b)
qed

lemma forward_events_holds:
  assumes "sinks_hold lg f" "list_all (\<lambda>(mo, ev). mo_spool_ok mo \<and> mo_journal_open mo) events"
  shows "sinks_hold (lg @ concat (map (\<lambda>(mo, ev). log_lines mo ev) events)) (forward_events cfg events f)"
  using assms
proof (induction events arbitrary: f lg)
  case (Cons me rest)
  obtain mo ev where me: "me = (mo, ev)" by (rule prod.exhaust)
  have "sinks_hold (lg @ log_lines mo ev) (forward_event cfg mo ev f)" using Cons.prems by (intro forward_event_holds) (simp_all add: me)
  from Cons.IH [OF this] Cons.prems show ?case by (simp add: me Let_def)
qed simp

lemma setup_lines_hold:
  assumes "sinks_hold lg f" "list_all (\<lambda>(n, l). mo_spool_ok (mo n)) nls"
  shows "sinks_hold (lg @ map (\<lambda>(n, l). mask (mo_masker (mo n)) l) nls) (fold (deliver_line cfg mo i) nls f)"
  using assms
proof (induction nls arbitrary: f lg)
  case (Cons nl nls)
  obtain n l where nl: "nl = (n, l)" by (rule prod.exhaust)
  have "sinks_hold (lg @ [mask (mo_masker (mo n)) l]) (deliver_line cfg mo i nl f)"
    using deliver_holds [of lg f "mo n" "Log i l Stdout" cfg] Cons.prems by (simp add: nl)
  from Cons.IH [OF this] Cons.prems show ?case by (simp add: nl)
qed simp

text \<open>C24. The job's log holds every line, masked. While the spool accepts writes and the journal listens, the combined log
  of a job is, line by line and in order, the lines of the set-up step and of the engine, each masked with the
  secrets registered when it was handled; and no line reaches the live feed or a step's log that is not one of
  them.\<close>

theorem job_log_holds_every_line_masked:
  assumes "fc_setup_id cfg = Some i" "fc_results cfg" "\<forall>n. mo_spool_ok (first n)" "mo_spool_ok last_moment"
    "list_all (\<lambda>(mo, ev). mo_spool_ok mo \<and> mo_journal_open mo) events"
    and "run_forwarder cfg True first setup_lines events last_moment finished = (out, f)"
  shows "\<exists>lg. lg = map (\<lambda>(n, l). mask (mo_masker (first n)) l) (zip [2 ..< length setup_lines + 2] setup_lines)
                      @ concat (map (\<lambda>(mo, ev). log_lines mo ev) events)
    \<and> oc_job_log out = Some lg \<and> (\<forall>(s, l) \<in> set (fo_live f). l \<in> set lg) \<and> (\<forall>(s, ls) \<in> set (fo_uploads f). set ls \<subseteq> set lg)"
proof -
  let ?new = "new_forwarder cfg (prepare_job_log (fc_results cfg) True)"
  have "sinks_hold [] ?new" using assms(2) by (simp add: sinks_hold_def new_forwarder_def prepare_job_log_def)
  then have "sinks_hold [] (deliver cfg (first 1) (StepMetadata i ''runner'' (Some ''setup_job'') None) (deliver cfg (first 0) (StepStarted i ''Set up job'' 1) ?new))"
    using deliver_holds [of "[]" _ "first 0" "StepStarted i ''Set up job'' 1" cfg] deliver_holds [of "[]" _ "first 1" "StepMetadata i ''runner'' (Some ''setup_job'') None" cfg]
      assms(3) by simp
  from setup_lines_hold [OF this, of first "zip [2 ..< length setup_lines + 2] setup_lines" cfg i]
  have "sinks_hold (map (\<lambda>(n, l). mask (mo_masker (first n)) l) (zip [2 ..< length setup_lines + 2] setup_lines)) (setup_start cfg first setup_lines ?new)"
    using assms(1,3) by (simp add: setup_start_def Let_def list_all_iff split_beta)
  from setup_finish_holds [OF forward_events_holds [OF this assms(5)] assms(4), of cfg Con_Failure]
  have final: "sinks_hold (map (\<lambda>(n, l). mask (mo_masker (first n)) l) (zip [2 ..< length setup_lines + 2] setup_lines)
      @ concat (map (\<lambda>(mo, ev). log_lines mo ev) events))
      (setup_finish cfg last_moment Con_Failure (forward_events cfg events (setup_start cfg first setup_lines ?new)))" .
  have keep: "sinks_hold lg (drain_step_uploads finished g)" if "sinks_hold lg g" for lg g
  proof -
    have backfill: "sinks_hold lg (backfill_log r h)" if "sinks_hold lg h" for r h
      using that by (cases "(r, h)" rule: backfill_log.cases) simp_all
    have "sinks_hold lg (fold backfill_log finished h)" if "sinks_hold lg h" for h
      using that by (induction finished arbitrary: h) (simp_all add: backfill)
    then show ?thesis using that by (simp add: drain_step_uploads_def)
  qed
  show ?thesis using keep [OF final] assms(2,6)
    by (auto simp: run_forwarder_def finish_forwarder_def Let_def sinks_hold_def)
qed


definition sample_masker :: secret_masker where
  "sample_masker = add_mask plain_masker_externs ''hunter2'' new_masker"

definition sample_moment :: moment where
  "sample_moment = \<lparr>mo_masker = sample_masker, mo_now = ''t'', mo_spool_ok = True, mo_live = Live_Sent, mo_journal_open = True, mo_cancelled = False\<rparr>"

definition sample_events :: "(moment \<times> runner_event) list" where
  "sample_events = map (Pair sample_moment)
     [StepStarted ''a'' ''Build'' 2, Log ''a'' ''x'' Stdout, StepCompleted ''a'' Con_Success [], JobCompleted ''j'' Con_Success [] None]"

definition sample_config :: fwd_config where
  "sample_config = \<lparr>fc_setup_id = Some ''s'', fc_results = True, fc_live = True\<rparr>"

theorem job_log_holds_every_line_masked_witness:
  "oc_job_log (fst (run_forwarder sample_config True (\<lambda>n. sample_moment) [''hello''] sample_events sample_moment []))
     = Some (map (mask sample_masker) [''hello'', ''x''])"
proof -
  obtain out f where r: "run_forwarder sample_config True (\<lambda>n. sample_moment) [''hello''] sample_events sample_moment [] = (out, f)" by (rule prod.exhaust)
  have "\<exists>lg. lg = map (\<lambda>(n, l). mask (mo_masker sample_moment) l) (zip [2 ..< length [''hello''] + 2] [''hello''])
                      @ concat (map (\<lambda>(mo, ev). log_lines mo ev) sample_events)
    \<and> oc_job_log out = Some lg \<and> (\<forall>(s, l) \<in> set (fo_live f). l \<in> set lg) \<and> (\<forall>(s, ls) \<in> set (fo_uploads f). set ls \<subseteq> set lg)"
    by (rule job_log_holds_every_line_masked [where i = "''s''", OF _ _ _ _ _ r]) (simp_all add: sample_config_def sample_moment_def sample_events_def)
  then show ?thesis unfolding r by (simp add: sample_moment_def sample_events_def)
qed

theorem forwarder_reports_the_job_witness:
  "map (\<lambda>r. (sr_external_id r, sr_conclusion r))
     (collected_results (fo_collector (snd (run_forwarder sample_config True (\<lambda>n. sample_moment) [] sample_events sample_moment []))))
     = [(''s'', Con_Success), (''a'', Con_Success)]"
proof -
  obtain out f where r: "run_forwarder sample_config True (\<lambda>n. sample_moment) [] sample_events sample_moment [] = (out, f)" by (rule prod.exhaust)
  have "map (\<lambda>r. (sr_external_id r, sr_conclusion r)) (collected_results (fo_collector f)) = reported_steps ''s'' True sample_events
    \<and> oc_conclusion out = (case last_verdict None sample_events of Some c \<Rightarrow> c | None \<Rightarrow> Con_Failure)"
    by (rule forwarder_reports_the_job [OF _ _ r]) (simp_all add: sample_config_def sample_moment_def sample_events_def)
  then show ?thesis unfolding r by (simp add: sample_moment_def sample_events_def)
qed


end
