(* ===== verification/Workspace.thy ===== *)
theory Workspace
  imports Step_Context "HOL-Library.AList" "HOL-Library.Multiset"
begin

text \<open>
  Job workspaces on a shared work root (\<open>crates/execution/src/execution/\<close>): the tracking files that map a
  repository to its directory (\<open>workspace_tracking.rs\<close>), the leases on them (\<open>workspace_lease.rs\<close>), the
  allocation of a workspace for a job (\<open>workspace_layout.rs\<close>) and the garbage collection of old ones
  (\<open>workspace_gc.rs\<close>).

  The work root is a record: its children, its tracking files, the job lease files, which leases other
  processes hold, which ones are held here, and the clock in nanoseconds. What other processes do between two steps of a
  sweep is the parameter \<open>wx_between\<close>, indexed by the count of steps. A lease is contended when it is still held at the end of the re-check window.
\<close>

subsection \<open>Tracking files and leases\<close>

definition MAPPING_DIR :: string where "MAPPING_DIR = ''_PipelineMapping''"
definition JOB_LEASES_DIR :: string where "JOB_LEASES_DIR = ''_jobs''"

record tracking_config =
  tc_repository_name :: string
  tc_pipeline_directory :: string
  tc_workspace_directory :: string
  tc_repositories :: "(string \<times> string) list"
  tc_last_run_on_unix :: nat
  tc_data_dir :: string

definition new_tracking_config :: "string \<Rightarrow> string \<Rightarrow> string \<Rightarrow> tracking_config" where
  "new_tracking_config full_name name pipeline =
     \<lparr>tc_repository_name = full_name, tc_pipeline_directory = pipeline, tc_workspace_directory = pipeline @ ''/'' @ name,
      tc_repositories = [(full_name, pipeline @ ''/'' @ name)], tc_last_run_on_unix = 0, tc_data_dir = []\<rparr>"

text \<open>Exactly one normal path component.\<close>

definition is_single_component :: "string \<Rightarrow> bool" where
  "is_single_component name \<longleftrightarrow>
     (case components name of [c] \<Rightarrow> c \<noteq> ''/'' \<and> c \<noteq> ''.'' \<and> c \<noteq> ''..'' | _ \<Rightarrow> False)
     \<and> CHR ''/'' \<notin> set name \<and> CHR 0x5C \<notin> set name \<and> CHR 0x00 \<notin> set name"

definition is_usable_for :: "string \<Rightarrow> tracking_config \<Rightarrow> bool" where
  "is_usable_for full_name t \<longleftrightarrow>
     eq_ignore_ascii_case (tc_repository_name t) full_name
     \<and> is_single_component (tc_pipeline_directory t)
     \<and> \<not> eq_ignore_ascii_case (tc_pipeline_directory t) MAPPING_DIR
     \<and> (case strip_path_prefix (components (tc_pipeline_directory t)) (components (tc_workspace_directory t)) of
          Some rest \<Rightarrow> is_single_component (path_text rest) | None \<Rightarrow> False)"

datatype tracking_read = Tracking_Absent | Tracking_Doc tracking_config | Tracking_Io string | Tracking_Json string

fun load_result :: "tracking_read \<Rightarrow> (runner_error, tracking_config option) result" where
  "load_result Tracking_Absent = Ok None"
| "load_result (Tracking_Doc t) = Ok (Some t)"
| "load_result (Tracking_Io e) = Err (Io_Error e)"
| "load_result (Tracking_Json e) = Err (Json_Failure e)"

datatype lease_key = Root_Lease | Repo_Lease string string | Job_Lease string

record work_entry =
  we_is_dir :: "bool option"
  we_mtime :: "nat option"
  we_children :: "(string \<times> bool) list"

record work_root =
  wr_entries :: "(string \<times> work_entry) list"
  wr_tracking :: "((string \<times> string) \<times> tracking_read) list"
  wr_job_leases :: "(string \<times> string option) list"
  wr_held :: "lease_key list"
  wr_mine :: "lease_key list"
  wr_now :: nat
  wr_step :: nat

datatype ws_target = Work_Dir string | Work_Subdir string string | Tracking_File string string | Lease_File string

record workspace_externs =
  wx_root :: path
  wx_between :: "nat \<Rightarrow> work_root \<Rightarrow> work_root"
  wx_listing :: "(runner_error, string option list) result option"
  wx_outputs_error :: "path \<Rightarrow> runner_error option"
  wx_lease_error :: "lease_key \<Rightarrow> runner_error option"
  wx_save_error :: "string \<Rightarrow> string \<Rightarrow> runner_error option"
  wx_body_error :: "string \<Rightarrow> runner_error option"
  wx_remove_error :: "ws_target \<Rightarrow> runner_error option"
  wx_create_error :: "string \<Rightarrow> runner_error option"

definition load_tracking :: "string \<times> string \<Rightarrow> work_root \<Rightarrow> (runner_error, tracking_config option) result" where
  "load_tracking key s = load_result (case map_of (wr_tracking s) key of Some r \<Rightarrow> r | None \<Rightarrow> Tracking_Absent)"

text \<open>Every tracking file but those under the directory of the job leases.\<close>

definition tracking_files :: "work_root \<Rightarrow> (string \<times> string) list" where
  "tracking_files s = filter (\<lambda>(owner, repo). owner \<noteq> JOB_LEASES_DIR) (map fst (wr_tracking s))"

definition now_unix :: "work_root \<Rightarrow> nat" where
  "now_unix s = wr_now s div 1000000000"

definition open_lease :: "lease_key \<Rightarrow> work_root \<Rightarrow> work_root" where
  "open_lease k s =
     (case k of
        Job_Lease name \<Rightarrow> (if map_of (wr_job_leases s) name = None then s\<lparr>wr_job_leases := index_insert name None (wr_job_leases s)\<rparr> else s)
      | _ \<Rightarrow> s)"

text \<open>The lease if it is free, held by nobody else and by no other open file here.\<close>

definition try_acquire :: "workspace_externs \<Rightarrow> lease_key \<Rightarrow> work_root \<Rightarrow> (runner_error, bool) result \<times> work_root" where
  "try_acquire X k s =
     (case wx_lease_error X k of
        Some e \<Rightarrow> (Err e, s)
      | None \<Rightarrow>
          (let s = open_lease k s
           in if k \<in> set (wr_held s) \<or> k \<in> set (wr_mine s) then (Ok False, s) else (Ok True, s\<lparr>wr_mine := k # wr_mine s\<rparr>)))"

definition release :: "lease_key \<Rightarrow> work_root \<Rightarrow> work_root" where
  "release k s = s\<lparr>wr_mine := remove1 k (wr_mine s)\<rparr>"

text \<open>Waiting for the holder: the lease is taken once it is released.\<close>

definition acquire_lease :: "workspace_externs \<Rightarrow> lease_key \<Rightarrow> work_root \<Rightarrow> (runner_error, unit) result \<times> work_root" where
  "acquire_lease X k s =
     (case wx_lease_error X k of
        Some e \<Rightarrow> (Err e, s)
      | None \<Rightarrow> (Ok (), (open_lease k s)\<lparr>wr_held := removeAll k (wr_held s), wr_mine := k # wr_mine s\<rparr>))"

definition save_tracking :: "workspace_externs \<Rightarrow> string \<times> string \<Rightarrow> tracking_config \<Rightarrow> work_root \<Rightarrow> (runner_error, unit) result \<times> work_root" where
  "save_tracking X key t s =
     (case wx_save_error X (fst key) (snd key) of
        Some e \<Rightarrow> (Err e, s)
      | None \<Rightarrow> (Ok (), s\<lparr>wr_tracking := index_insert key (Tracking_Doc t) (wr_tracking s)\<rparr>))"

subsection \<open>Allocation\<close>

definition MAX_SUFFIX :: nat where "MAX_SUFFIX = 1000"

record repository =
  rp_owner :: string
  rp_name :: string

definition parse_repository :: "string \<Rightarrow> repository option" where
  "parse_repository full_name =
     (case split_once_char (CHR ''/'') full_name of
        None \<Rightarrow> None
      | Some (owner, name) \<Rightarrow>
          if is_single_component owner \<and> is_single_component name \<and> \<not> starts_with owner ''_''
          then Some \<lparr>rp_owner = owner, rp_name = name\<rparr> else None)"

definition full_name :: "repository \<Rightarrow> string" where
  "full_name r = rp_owner r @ ''/'' @ rp_name r"

definition repo_key :: "repository \<Rightarrow> string \<times> string" where
  "repo_key r = (rp_owner r, rp_name r)"

datatype workspace_kind = Stable_Workspace | Fresh_Workspace

record prepared_workspace =
  pw_workspace :: path
  pw_pipeline :: path
  pw_kind :: workspace_kind
  pw_pipeline_name :: string
  pw_clean :: "string option"
  pw_job_lease :: "(string \<times> string) option"
  pw_lease :: "lease_key option"

definition init_error :: "path \<Rightarrow> string \<Rightarrow> runner_error" where
  "init_error p m = Workspace_Init (path_text p) m"

definition claimed_directories :: "work_root \<Rightarrow> string list" where
  "claimed_directories s =
     List.map_filter (\<lambda>key. case load_tracking key s of Inr (Some t) \<Rightarrow> Some (to_ascii_lowercase (tc_pipeline_directory t)) | _ \<Rightarrow> None)
       (tracking_files s)"

definition candidate_names :: "string \<Rightarrow> string list" where
  "candidate_names name = name # map (\<lambda>n. name @ ''_'' @ show_nat n) [2 ..< MAX_SUFFIX + 1]"

definition is_free_name :: "work_root \<Rightarrow> string \<Rightarrow> bool" where
  "is_free_name s candidate \<longleftrightarrow>
     to_ascii_lowercase candidate \<noteq> to_ascii_lowercase MAPPING_DIR
     \<and> to_ascii_lowercase candidate \<notin> set (claimed_directories s)
     \<and> map_of (wr_entries s) candidate = None"

definition new_tracking :: "workspace_externs \<Rightarrow> repository \<Rightarrow> work_root \<Rightarrow> (runner_error, tracking_config) result" where
  "new_tracking X r s =
     (case find (is_free_name s) (candidate_names (rp_name r)) of
        Some candidate \<Rightarrow> Ok (new_tracking_config (full_name r) (rp_name r) candidate)
      | None \<Rightarrow> Err (init_error (path_join (wx_root X) (components (rp_name r))) ''no free pipeline directory name''))"

definition current_tracking :: "workspace_externs \<Rightarrow> repository \<Rightarrow> work_root \<Rightarrow> (runner_error, tracking_config) result" where
  "current_tracking X r s =
     (case load_tracking (repo_key r) s of
        Inr (Some t) \<Rightarrow> if is_usable_for (full_name r) t then Ok t else new_tracking X r s
      | _ \<Rightarrow> new_tracking X r s)"

text \<open>\<open>None\<close> is a stable workspace that another job leases. An error drops the leases taken so far.\<close>

definition prepare_stable ::
  "workspace_externs \<Rightarrow> string \<Rightarrow> repository \<Rightarrow> string option \<Rightarrow> work_root \<Rightarrow> (runner_error, prepared_workspace option) result \<times> work_root" where
  "prepare_stable X data_dir r clean s =
     (case acquire_lease X Root_Lease s of
        (Inl e, s) \<Rightarrow> (Err e, s)
      | (Inr _, s) \<Rightarrow>
          (let k = Repo_Lease (rp_owner r) (rp_name r)
           in case try_acquire X k s of
                (Inl e, s) \<Rightarrow> (Err e, release Root_Lease s)
              | (Inr False, s) \<Rightarrow> (Ok None, release Root_Lease s)
              | (Inr True, s) \<Rightarrow>
                  (case current_tracking X r s of
                     Inl e \<Rightarrow> (Err e, release Root_Lease (release k s))
                   | Inr t \<Rightarrow>
                       (let t = t\<lparr>tc_last_run_on_unix := now_unix s, tc_data_dir := data_dir\<rparr>
                        in case save_tracking X (repo_key r) t s of
                             (Inl e, s) \<Rightarrow> (Err e, release Root_Lease (release k s))
                           | (Inr _, s) \<Rightarrow>
                               (Ok (Some \<lparr>pw_workspace = path_join (wx_root X) (components (tc_workspace_directory t)),
                                  pw_pipeline = path_join (wx_root X) (components (tc_pipeline_directory t)), pw_kind = Stable_Workspace,
                                  pw_pipeline_name = tc_pipeline_directory t, pw_clean = clean, pw_job_lease = None, pw_lease = Some k\<rparr>),
                                release Root_Lease s)))))"

definition sanitize_job_id :: "string \<Rightarrow> string" where
  "sanitize_job_id job_id =
     concat (map (\<lambda>c. if c < 128 \<and> (is_ascii_alphanumeric (char_of c) \<or> char_of c \<in> {CHR ''.'', CHR ''_'', CHR ''-''}) then [char_of c] else ''_'')
       (str_chars job_id))"

definition prepare_fresh :: "workspace_externs \<Rightarrow> string \<Rightarrow> string \<Rightarrow> prepared_workspace" where
  "prepare_fresh X data_dir job_id =
     (let job_dir = sanitize_job_id job_id; ws = path_join (wx_root X) (components job_dir)
      in \<lparr>pw_workspace = ws, pw_pipeline = ws, pw_kind = Fresh_Workspace, pw_pipeline_name = job_dir, pw_clean = None,
          pw_job_lease = Some (job_dir, data_dir), pw_lease = None\<rparr>)"

definition prepare_workspace ::
  "workspace_externs \<Rightarrow> bool \<Rightarrow> string \<Rightarrow> string option \<Rightarrow> string option \<Rightarrow> string \<Rightarrow> work_root
     \<Rightarrow> (runner_error, prepared_workspace) result \<times> work_root" where
  "prepare_workspace X stable_mode data_dir github_repository clean job_id s =
     (case (if stable_mode then Option.bind github_repository parse_repository else None) of
        None \<Rightarrow> (Ok (prepare_fresh X data_dir job_id), s)
      | Some r \<Rightarrow>
          (case prepare_stable X data_dir r clean s of
             (Inl e, s) \<Rightarrow> (Err e, s)
           | (Inr (Some p), s) \<Rightarrow> (Ok p, s)
           | (Inr None, s) \<Rightarrow> (Ok (prepare_fresh X data_dir job_id), s)))"

subsection \<open>Creating the directories\<close>

text \<open>The lease of a fresh job and its owner. A lease file whose owner cannot be written is removed again.\<close>

definition take_job_lease :: "workspace_externs \<Rightarrow> string \<Rightarrow> string \<Rightarrow> work_root \<Rightarrow> (runner_error, lease_key) result \<times> work_root" where
  "take_job_lease X name data_dir s =
     (case try_acquire X (Job_Lease name) s of
        (Inl e, s) \<Rightarrow> (Err e, s)
      | (Inr False, s) \<Rightarrow>
          (Err (init_error (wx_root X @ [MAPPING_DIR, JOB_LEASES_DIR, name @ ''.lock'']) ''job workspace lease already held''), s)
      | (Inr True, s) \<Rightarrow>
          (case wx_body_error X name of
             Some e \<Rightarrow>
               (Err e, release (Job_Lease name)
                 (if wx_remove_error X (Lease_File name) = None
                  then s\<lparr>wr_job_leases := AList.delete name (wr_job_leases s)\<rparr>
                  else s\<lparr>wr_job_leases := index_insert name None (wr_job_leases s)\<rparr>))
           | None \<Rightarrow> (Ok (Job_Lease name), s\<lparr>wr_job_leases := index_insert name (Some data_dir) (wr_job_leases s)\<rparr>)))"

text \<open>Where a path lies under the work root: a child of it, or a child of such a child.\<close>

definition under_root :: "workspace_externs \<Rightarrow> path \<Rightarrow> ws_target option" where
  "under_root X p =
     (case strip_path_prefix (wx_root X) p of
        Some [c] \<Rightarrow> if c = ''..'' then None else Some (Work_Dir c)
      | Some [c, d] \<Rightarrow> if c = ''..'' \<or> d = ''..'' then None else Some (Work_Subdir c d)
      | _ \<Rightarrow> None)"

definition delete_entry :: "ws_target \<Rightarrow> work_root \<Rightarrow> work_root" where
  "delete_entry t s =
     (case t of
        Work_Dir c \<Rightarrow> s\<lparr>wr_entries := AList.delete c (wr_entries s)\<rparr>
      | Work_Subdir c d \<Rightarrow>
          (case map_of (wr_entries s) c of
             Some e \<Rightarrow>
               s\<lparr>wr_entries := index_insert c (e\<lparr>we_mtime := Some (wr_now s), we_children := AList.delete d (we_children e)\<rparr>) (wr_entries s)\<rparr>
           | None \<Rightarrow> s)
      | Tracking_File a b \<Rightarrow> s\<lparr>wr_tracking := AList.delete (a, b) (wr_tracking s)\<rparr>
      | Lease_File n \<Rightarrow> s\<lparr>wr_job_leases := AList.delete n (wr_job_leases s)\<rparr>)"

text \<open>A directory that does not exist is as good as removed. What lies outside the work root is not modelled.\<close>

definition remove_dir :: "workspace_externs \<Rightarrow> path \<Rightarrow> work_root \<Rightarrow> (runner_error, unit) result \<times> work_root" where
  "remove_dir X p s =
     (case under_root X p of
        None \<Rightarrow> (Ok (), s)
      | Some t \<Rightarrow> (case wx_remove_error X t of Some e \<Rightarrow> (Err e, s) | None \<Rightarrow> (Ok (), delete_entry t s)))"

fun remove_children :: "workspace_externs \<Rightarrow> path \<Rightarrow> path \<Rightarrow> (string \<times> bool) list \<Rightarrow> work_root \<Rightarrow> (runner_error, unit) result \<times> work_root" where
  "remove_children X pipeline ws [] s = (Ok (), s)"
| "remove_children X pipeline ws ((c, is_dir) # cs) s =
     (if pipeline @ [c] \<noteq> ws \<and> is_dir
      then (case remove_dir X (pipeline @ [c]) s of
              (Inl e, s) \<Rightarrow> (Err e, s)
            | (Inr _, s) \<Rightarrow> remove_children X pipeline ws cs s)
      else remove_children X pipeline ws cs s)"

text \<open>The entries as listed when the directory is opened; one that is missing has nothing to delete.\<close>

definition remove_outputs :: "workspace_externs \<Rightarrow> path \<Rightarrow> path \<Rightarrow> work_root \<Rightarrow> (runner_error, unit) result \<times> work_root" where
  "remove_outputs X pipeline ws s =
     (case under_root X pipeline of
        Some (Work_Dir c) \<Rightarrow>
          (case map_of (wr_entries s) c of
             None \<Rightarrow> (Ok (), s)
           | Some e \<Rightarrow> (case wx_outputs_error X pipeline of Some e \<Rightarrow> (Err e, s) | None \<Rightarrow> remove_children X pipeline ws (we_children e) s))
      | _ \<Rightarrow> (Ok (), s))"

definition create_entry :: "ws_target \<Rightarrow> work_root \<Rightarrow> work_root" where
  "create_entry t s =
     (let fresh = \<lparr>we_is_dir = Some True, we_mtime = Some (wr_now s), we_children = []\<rparr>
      in case t of
        Work_Dir c \<Rightarrow> (if map_of (wr_entries s) c = None then s\<lparr>wr_entries := index_insert c fresh (wr_entries s)\<rparr> else s)
      | Work_Subdir c d \<Rightarrow>
          (let e = (case map_of (wr_entries s) c of Some e \<Rightarrow> e | None \<Rightarrow> fresh)
           in if map_of (we_children e) d = None
              then s\<lparr>wr_entries := index_insert c (e\<lparr>we_mtime := Some (wr_now s), we_children := index_insert d True (we_children e)\<rparr>) (wr_entries s)\<rparr>
              else s)
      | _ \<Rightarrow> s)"

definition apply_clean :: "workspace_externs \<Rightarrow> string option \<Rightarrow> path \<Rightarrow> path \<Rightarrow> work_root \<Rightarrow> (runner_error, unit) result \<times> work_root" where
  "apply_clean X clean pipeline ws s =
     (case (if map_option to_ascii_lowercase clean = Some ''all'' then remove_dir X pipeline s
            else if map_option to_ascii_lowercase clean = Some ''resources'' then remove_dir X ws s
            else if map_option to_ascii_lowercase clean = Some ''outputs'' then remove_outputs X pipeline ws s
            else (Ok (), s)) of
        (Inl e, s) \<Rightarrow> (Err e, s)
      | (Inr _, s) \<Rightarrow>
          (case wx_create_error X (path_text ws) of
             Some e \<Rightarrow> (Err e, s)
           | None \<Rightarrow> (Ok (), case under_root X ws of Some t \<Rightarrow> create_entry t s | None \<Rightarrow> s)))"

definition create_dirs ::
  "workspace_externs \<Rightarrow> prepared_workspace \<Rightarrow> work_root \<Rightarrow> (runner_error, unit) result \<times> prepared_workspace \<times> work_root" where
  "create_dirs X p s =
     (case pw_job_lease p of
        None \<Rightarrow> (case apply_clean X (pw_clean p) (pw_pipeline p) (pw_workspace p) s of (r, s) \<Rightarrow> (r, p, s))
      | Some (name, data_dir) \<Rightarrow>
          (let p = p\<lparr>pw_job_lease := None\<rparr>
           in case take_job_lease X name data_dir s of
                (Inl e, s) \<Rightarrow> (Err e, p, s)
              | (Inr k, s) \<Rightarrow>
                  (let p = p\<lparr>pw_lease := Some k\<rparr>
                   in case apply_clean X (pw_clean p) (pw_pipeline p) (pw_workspace p) s of (r, s) \<Rightarrow> (r, p, s))))"

text \<open>Dropping a prepared workspace releases its lease.\<close>

definition drop_workspace :: "prepared_workspace \<Rightarrow> work_root \<Rightarrow> work_root" where
  "drop_workspace p s = (case pw_lease p of Some k \<Rightarrow> release k s | None \<Rightarrow> s)"

subsection \<open>Garbage collection\<close>

definition MAX_GC_HOURS :: nat where "MAX_GC_HOURS = 100 * 365 * 24"

definition max_age :: "nat \<Rightarrow> nat option" where
  "max_age hours = (if hours > 0 then Some (min hours MAX_GC_HOURS * 3600) else None)"

record gc_policy =
  gp_data_dir :: string
  gp_job_max_age :: "nat option"
  gp_stable_max_age :: "nat option"

definition policy_from_config :: "string \<Rightarrow> nat \<Rightarrow> nat \<Rightarrow> gc_policy option" where
  "policy_from_config data_dir workspace_gc_hours stable_gc_hours =
     (let p = \<lparr>gp_data_dir = data_dir, gp_job_max_age = max_age workspace_gc_hours, gp_stable_max_age = max_age stable_gc_hours\<rparr>
      in if gp_job_max_age p \<noteq> None \<or> gp_stable_max_age p \<noteq> None then Some p else None)"

definition same_path :: "string \<Rightarrow> string \<Rightarrow> bool" where
  "same_path a b \<longleftrightarrow> components a = components b"

text \<open>More than \<open>age\<close> seconds ago; 0 and future times are never stale.\<close>

definition is_stale_unix :: "nat \<Rightarrow> nat \<Rightarrow> work_root \<Rightarrow> bool" where
  "is_stale_unix last_run age s \<longleftrightarrow> last_run > 0 \<and> now_unix s - last_run > age"

definition is_stale_dir :: "nat \<Rightarrow> nat \<Rightarrow> string \<Rightarrow> work_root \<Rightarrow> bool" where
  "is_stale_dir now age name s \<longleftrightarrow>
     (case map_of (wr_entries s) name of
        None \<Rightarrow> False
      | Some e \<Rightarrow> we_is_dir e = Some True
          \<and> (case we_mtime e of Some m \<Rightarrow> m \<le> now \<and> now - m > age * 1000000000 | None \<Rightarrow> False))"

text \<open>A name a repository could have been given: \<open>repo\<close> or \<open>repo_n\<close>, both in lower case.\<close>

definition is_pipeline_name_for :: "string \<Rightarrow> string \<Rightarrow> bool" where
  "is_pipeline_name_for name repo \<longleftrightarrow>
     starts_with name repo
     \<and> (let rest = drop (length repo) name
        in rest = [] \<or> (starts_with rest ''_'' \<and> drop 1 rest \<noteq> [] \<and> list_all is_ascii_digit (drop 1 rest)))"

definition lease_owner :: "string \<Rightarrow> work_root \<Rightarrow> string option" where
  "lease_owner name s = Option.bind (map_of (wr_job_leases s) name) (\<lambda>b. b)"

definition names_owner :: "gc_policy \<Rightarrow> string option \<Rightarrow> bool" where
  "names_owner pol body \<longleftrightarrow> (case body of Some d \<Rightarrow> same_path d (gp_data_dir pol) | None \<Rightarrow> False)"

definition pause :: "workspace_externs \<Rightarrow> work_root \<Rightarrow> work_root" where
  "pause X s = (wx_between X (wr_step s) s)\<lparr>wr_step := Suc (wr_step s)\<rparr>"

text \<open>Each deletion the sweep starts: the child, the lease it is under, the state in which it was judged and the one it starts in.\<close>

record removal =
  rm_name :: string
  rm_lease :: "lease_key option"
  rm_seen :: work_root
  rm_state :: work_root

definition remove_target :: "workspace_externs \<Rightarrow> ws_target \<Rightarrow> work_root \<Rightarrow> bool \<times> work_root" where
  "remove_target X t s = (if wx_remove_error X t = None then (True, delete_entry t s) else (False, s))"

text \<open>A directory and then the file that names it, which stays when the directory does.\<close>

definition remove_both :: "workspace_externs \<Rightarrow> string \<Rightarrow> ws_target \<Rightarrow> work_root \<Rightarrow> bool \<times> work_root" where
  "remove_both X name f s =
     (case remove_target X (Work_Dir name) s of (True, s) \<Rightarrow> remove_target X f (pause X s) | (False, s) \<Rightarrow> (False, s))"

definition stable_eligible :: "gc_policy \<Rightarrow> nat \<Rightarrow> string \<Rightarrow> tracking_config \<Rightarrow> work_root \<Rightarrow> bool" where
  "stable_eligible pol age keep t s \<longleftrightarrow>
     same_path (tc_data_dir t) (gp_data_dir pol) \<and> tc_pipeline_directory t \<noteq> keep
     \<and> is_usable_for (tc_repository_name t) t \<and> is_stale_unix (tc_last_run_on_unix t) age s"

text \<open>The tracking file is read again under the lease: a job may have used the workspace meanwhile.\<close>

definition prune_stable ::
  "workspace_externs \<Rightarrow> gc_policy \<Rightarrow> nat \<Rightarrow> string \<Rightarrow> string \<times> string \<Rightarrow> tracking_config \<Rightarrow> work_root \<Rightarrow> bool \<times> removal list \<times> work_root" where
  "prune_stable X pol age keep key t s =
     (if \<not> stable_eligible pol age keep t s then (False, [], s)
      else (let k = Repo_Lease (fst key) (snd key)
            in case try_acquire X k (pause X s) of
                 (Inr True, s) \<Rightarrow>
                   (let s1 = pause X s
                    in case load_tracking key s1 of
                         Inr (Some t) \<Rightarrow>
                           (if stable_eligible pol age keep t s1
                            then (let s2 = pause X s1; rm = \<lparr>rm_name = tc_pipeline_directory t, rm_lease = Some k, rm_seen = s1, rm_state = s2\<rparr>
                                  in case remove_both X (tc_pipeline_directory t) (Tracking_File (fst key) (snd key)) s2 of
                                       (b, s) \<Rightarrow> (b, [rm], release k s))
                            else (False, [], release k s1))
                       | _ \<Rightarrow> (False, [], release k s1))
               | (_, s) \<Rightarrow> (False, [], s)))"

definition prune_job_dir ::
  "workspace_externs \<Rightarrow> gc_policy \<Rightarrow> nat \<Rightarrow> nat \<Rightarrow> string \<Rightarrow> work_root \<Rightarrow> bool \<times> removal list \<times> work_root" where
  "prune_job_dir X pol now age name s =
     (if map_of (wr_job_leases s) name = None
      then (if is_stale_dir now age name s
            then (let s1 = pause X s
                  in case remove_target X (Work_Dir name) s1 of
                       (b, s') \<Rightarrow> (b, [\<lparr>rm_name = name, rm_lease = None, rm_seen = s, rm_state = s1\<rparr>], s'))
            else (False, [], s))
      else if \<not> names_owner pol (lease_owner name s) then (False, [], s)
      else (case try_acquire X (Job_Lease name) (pause X s) of
              (Inr True, s) \<Rightarrow>
                (let s1 = pause X s
                 in if is_stale_dir now age name s1
                    then (let s2 = pause X s1
                          in case remove_both X name (Lease_File name) s2 of
                               (b, s) \<Rightarrow>
                                 (b, [\<lparr>rm_name = name, rm_lease = Some (Job_Lease name), rm_seen = s1, rm_state = s2\<rparr>], release (Job_Lease name) s))
                    else (False, [], release (Job_Lease name) s1))
            | (_, s) \<Rightarrow> (False, [], s)))"

text \<open>What the pass over the tracking files has found: the names it keeps, the repositories it could not read, the count.\<close>

record sweep =
  sw_claimed :: "string list"
  sw_unreadable :: "string list"
  sw_removed :: nat
  sw_log :: "removal list"

fun sweep_tracked :: "workspace_externs \<Rightarrow> gc_policy \<Rightarrow> string \<Rightarrow> (string \<times> string) list \<Rightarrow> sweep \<Rightarrow> work_root \<Rightarrow> sweep \<times> work_root" where
  "sweep_tracked X pol keep [] w s = (w, s)"
| "sweep_tracked X pol keep (key # keys) w s =
     (let s = pause X s
      in case load_tracking key s of
           Inr (Some t) \<Rightarrow>
             (case (case gp_stable_max_age pol of Some age \<Rightarrow> prune_stable X pol age keep key t s | None \<Rightarrow> (False, [], s)) of
                (pruned, rms, s) \<Rightarrow>
                  sweep_tracked X pol keep keys
                    (if pruned then w\<lparr>sw_removed := Suc (sw_removed w), sw_log := sw_log w @ rms\<rparr>
                     else w\<lparr>sw_claimed := to_ascii_lowercase (tc_pipeline_directory t) # sw_claimed w, sw_log := sw_log w @ rms\<rparr>) s)
         | _ \<Rightarrow> sweep_tracked X pol keep keys (w\<lparr>sw_unreadable := to_ascii_lowercase (snd key) # sw_unreadable w\<rparr>) s)"

definition skips_entry :: "string \<Rightarrow> sweep \<Rightarrow> string \<Rightarrow> bool" where
  "skips_entry keep w name \<longleftrightarrow>
     name = keep \<or> starts_with name ''_'' \<or> to_ascii_lowercase name \<in> set (sw_claimed w)
     \<or> list_ex (is_pipeline_name_for (to_ascii_lowercase name)) (sw_unreadable w)"

fun sweep_entries :: "workspace_externs \<Rightarrow> gc_policy \<Rightarrow> string \<Rightarrow> nat \<Rightarrow> nat \<Rightarrow> string option list \<Rightarrow> sweep \<Rightarrow> work_root \<Rightarrow> sweep \<times> work_root" where
  "sweep_entries X pol keep now age [] w s = (w, s)"
| "sweep_entries X pol keep now age (None # es) w s = sweep_entries X pol keep now age es w s"
| "sweep_entries X pol keep now age (Some name # es) w s =
     (if skips_entry keep w name then sweep_entries X pol keep now age es w s
      else (case prune_job_dir X pol now age name (pause X s) of
              (pruned, rms, s) \<Rightarrow>
                sweep_entries X pol keep now age es
                  (w\<lparr>sw_removed := (if pruned then Suc (sw_removed w) else sw_removed w), sw_log := sw_log w @ rms\<rparr>) s))"

definition gc_workspaces ::
  "workspace_externs \<Rightarrow> gc_policy \<Rightarrow> string \<Rightarrow> work_root \<Rightarrow> (runner_error, nat) result \<times> removal list \<times> work_root" where
  "gc_workspaces X pol keep s =
     (case wx_listing X of
        None \<Rightarrow> (Ok 0, [], s)
      | Some (Inl e) \<Rightarrow> (Err e, [], s)
      | Some (Inr entries) \<Rightarrow>
          (case sweep_tracked X pol keep (tracking_files s) \<lparr>sw_claimed = [], sw_unreadable = [], sw_removed = 0, sw_log = []\<rparr> s of
             (w, s) \<Rightarrow>
               (case gp_job_max_age pol of
                  None \<Rightarrow> (Ok (sw_removed w), sw_log w, s)
                | Some age \<Rightarrow>
                    (case sweep_entries X pol keep (wr_now s) age entries w s of
                       (w, s) \<Rightarrow> (Ok (sw_removed w), sw_log w, s)))))"

subsection \<open>What a sweep removes\<close>

definition leases_apart :: "work_root \<Rightarrow> bool" where
  "leases_apart s \<longleftrightarrow> set (wr_mine s) \<inter> set (wr_held s) = {}"

text \<open>Other processes neither take nor release what is leased here, and leave the files under such a lease alone.\<close>

definition respects_leases :: "workspace_externs \<Rightarrow> bool" where
  "respects_leases X \<longleftrightarrow>
     (\<forall>n s. wr_mine (wx_between X n s) = wr_mine s
        \<and> (leases_apart s \<longrightarrow> leases_apart (wx_between X n s))
        \<and> (\<forall>a b. Repo_Lease a b \<in> set (wr_mine s) \<longrightarrow> map_of (wr_tracking (wx_between X n s)) (a, b) = map_of (wr_tracking s) (a, b))
        \<and> (\<forall>m. Job_Lease m \<in> set (wr_mine s) \<longrightarrow> map_of (wr_job_leases (wx_between X n s)) m = map_of (wr_job_leases s) m))"

text \<open>
  A removal is right when its child is not the one to keep and, for a repository's workspace, its tracking file names this child and
  this registration, is old, and is leased here and by nobody else as the deletion starts; for a job's directory, its lease file names
  this registration and is leased likewise, or there is none; it is old and not reserved.
\<close>

definition rightly_removed :: "gc_policy \<Rightarrow> string \<Rightarrow> removal \<Rightarrow> bool" where
  "rightly_removed pol keep rm \<longleftrightarrow>
     rm_name rm \<noteq> keep
     \<and> (case rm_lease rm of
          Some (Repo_Lease a b) \<Rightarrow>
            Repo_Lease a b \<in> set (wr_mine (rm_state rm)) \<and> Repo_Lease a b \<notin> set (wr_held (rm_state rm))
            \<and> (\<exists>t age. load_tracking (a, b) (rm_state rm) = Ok (Some t) \<and> tc_pipeline_directory t = rm_name rm
                 \<and> is_single_component (rm_name rm) \<and> same_path (tc_data_dir t) (gp_data_dir pol)
                 \<and> gp_stable_max_age pol = Some age \<and> is_stale_unix (tc_last_run_on_unix t) age (rm_seen rm))
        | Some (Job_Lease n) \<Rightarrow>
            n = rm_name rm \<and> \<not> starts_with n ''_'' \<and> Job_Lease n \<in> set (wr_mine (rm_state rm)) \<and> Job_Lease n \<notin> set (wr_held (rm_state rm))
            \<and> (\<exists>now age. gp_job_max_age pol = Some age \<and> is_stale_dir now age n (rm_seen rm))
        | Some Root_Lease \<Rightarrow> False
        | None \<Rightarrow>
            \<not> starts_with (rm_name rm) ''_'' \<and> map_of (wr_job_leases (rm_seen rm)) (rm_name rm) = None
            \<and> (\<exists>now age. gp_job_max_age pol = Some age \<and> is_stale_dir now age (rm_name rm) (rm_seen rm)))"

lemma pause_mine: "respects_leases X \<Longrightarrow> wr_mine (pause X s) = wr_mine s"
  by (simp add: pause_def respects_leases_def)

lemma pause_apart: "respects_leases X \<Longrightarrow> leases_apart s \<Longrightarrow> leases_apart (pause X s)"
  unfolding pause_def respects_leases_def leases_apart_def by (elim allE [of _ "wr_step s"] allE [of _ s], elim conjE) simp

lemma pause_tracking:
  "respects_leases X \<Longrightarrow> Repo_Lease a b \<in> set (wr_mine s) \<Longrightarrow> load_tracking (a, b) (pause X s) = load_tracking (a, b) s"
  unfolding pause_def respects_leases_def load_tracking_def by simp

lemma delete_leases [simp]: "wr_mine (delete_entry t s) = wr_mine s" "wr_held (delete_entry t s) = wr_held s"
  by (auto simp: delete_entry_def split: ws_target.splits option.splits)

lemma remove_target_leases:
  "remove_target X t s = (b, s') \<Longrightarrow> wr_mine s' = wr_mine s \<and> wr_held s' = wr_held s"
  by (auto simp: remove_target_def split: if_splits)

lemma remove_both_leases:
  assumes p: "respects_leases X" and r: "remove_both X n f s = (b, s')" and a: "leases_apart s"
  shows "wr_mine s' = wr_mine s \<and> leases_apart s'"
proof (cases "wx_remove_error X (Work_Dir n) = None")
  case True
  let ?d = "pause X (delete_entry (Work_Dir n) s)"
  have m: "wr_mine ?d = wr_mine s" and l: "leases_apart ?d"
    using pause_mine [OF p] pause_apart [OF p, of "delete_entry (Work_Dir n) s"] a by (simp_all add: leases_apart_def)
  have "remove_target X f ?d = (b, s')"
    using r True by (simp add: remove_both_def remove_target_def)
  from remove_target_leases [OF this] show ?thesis
    using m l by (simp add: leases_apart_def)
next
  case False
  then show ?thesis using r a by (simp add: remove_both_def remove_target_def split: if_splits)
qed

lemma try_acquire_true:
  "try_acquire X k s = (Inr True, s') \<Longrightarrow> wr_mine s' = k # wr_mine s \<and> wr_held s' = wr_held s \<and> k \<notin> set (wr_held s) \<and> k \<notin> set (wr_mine s)
     \<and> wr_tracking s' = wr_tracking s"
  by (auto simp: try_acquire_def open_lease_def Let_def split: option.splits if_splits lease_key.splits)

lemma try_acquire_other:
  "try_acquire X k s = (r, s') \<Longrightarrow> r \<noteq> Inr True \<Longrightarrow> wr_mine s' = wr_mine s \<and> wr_held s' = wr_held s \<and> wr_tracking s' = wr_tracking s"
  by (auto simp: try_acquire_def open_lease_def Let_def split: option.splits if_splits lease_key.splits)

lemma try_acquire_apart:
  "try_acquire X k s = (Inr True, s') \<Longrightarrow> leases_apart s \<Longrightarrow> leases_apart s'"
  using try_acquire_true [of X k s s'] by (auto simp: leases_apart_def)

lemma release_apart: "leases_apart s \<Longrightarrow> leases_apart (release k s)"
  using set_remove1_subset [of k "wr_mine s"] by (auto simp: leases_apart_def release_def)

lemma release_mine [simp]: "wr_mine (release k s) = remove1 k (wr_mine s)" "wr_held (release k s) = wr_held s"
  "wr_tracking (release k s) = wr_tracking s"
  by (simp_all add: release_def)

definition sweeps_rightly :: "gc_policy \<Rightarrow> string \<Rightarrow> work_root \<Rightarrow> removal list \<Rightarrow> work_root \<Rightarrow> bool" where
  "sweeps_rightly pol keep s rms s' \<longleftrightarrow>
     (\<forall>rm \<in> set rms. rightly_removed pol keep rm) \<and> wr_mine s' = wr_mine s \<and> leases_apart s'"

lemma prune_stable_rightly:
  assumes p: "respects_leases X" and a: "leases_apart s" and g: "gp_stable_max_age pol = Some age"
    and r: "prune_stable X pol age keep key t s = (b, rms, s')"
  shows "sweeps_rightly pol keep s rms s'"
proof (cases "stable_eligible pol age keep t s")
  case False
  then show ?thesis using r a by (simp add: prune_stable_def sweeps_rightly_def)
next
  case el: True
  let ?k = "Repo_Lease (fst key) (snd key)"
  obtain q s1 where q: "try_acquire X ?k (pause X s) = (q, s1)"
    by (rule prod.exhaust)
  have pa: "leases_apart (pause X s)" and pm: "wr_mine (pause X s) = wr_mine s"
    by (simp_all add: pause_apart [OF p a] pause_mine [OF p])
  show ?thesis
  proof (cases "q = Inr True")
    case False
    from try_acquire_other [OF q False] have "wr_mine s1 = wr_mine s \<and> leases_apart s1"
      using pa pm by (simp add: leases_apart_def)
    moreover have "rms = [] \<and> s' = s1"
      using r el q False by (simp add: prune_stable_def Let_def split: sum.splits bool.splits)
    ultimately show ?thesis by (simp add: sweeps_rightly_def)
  next
    case True
    note t1 = try_acquire_true [OF q [unfolded True]]
    have a1: "leases_apart s1" by (rule try_acquire_apart [OF q [unfolded True] pa])
    let ?s2 = "pause X s1"
    have a2: "leases_apart ?s2" and m2: "wr_mine ?s2 = ?k # wr_mine s"
      using t1 pm by (simp_all add: pause_apart [OF p a1] pause_mine [OF p])
    show ?thesis
    proof (cases "\<exists>u. load_tracking key ?s2 = Inr (Some u) \<and> stable_eligible pol age keep u ?s2")
      case False
      then have "rms = [] \<and> s' = release ?k ?s2"
        using r el q True by (auto simp: prune_stable_def Let_def split: sum.splits option.splits if_splits)
      then show ?thesis using m2 release_apart [OF a2] by (simp add: sweeps_rightly_def)
    next
      case True
      then obtain u where u: "load_tracking key ?s2 = Inr (Some u)" and eu: "stable_eligible pol age keep u ?s2"
        by blast
      let ?s3 = "pause X ?s2"
      have a3: "leases_apart ?s3" and m3: "wr_mine ?s3 = ?k # wr_mine s"
        using m2 by (simp_all add: pause_apart [OF p a2] pause_mine [OF p])
      have u3: "load_tracking key ?s3 = Inr (Some u)"
        using pause_tracking [OF p, of "fst key" "snd key" ?s2] m2 u by simp
      obtain c s4 where rb: "remove_both X (tc_pipeline_directory u) (Tracking_File (fst key) (snd key)) ?s3 = (c, s4)"
        by (rule prod.exhaust)
      have res: "rms = [\<lparr>rm_name = tc_pipeline_directory u, rm_lease = Some ?k, rm_seen = ?s2, rm_state = ?s3\<rparr>]" "s' = release ?k s4"
        using r el q \<open>q = Inr True\<close> u eu rb by (simp_all add: prune_stable_def Let_def)
      have "wr_mine s4 = ?k # wr_mine s \<and> leases_apart s4"
        using remove_both_leases [OF p rb a3] m3 by simp
      moreover have "?k \<notin> set (wr_held ?s3)"
        using a3 m3 by (auto simp: leases_apart_def)
      ultimately show ?thesis
        using res eu u3 g m3
        by (simp add: sweeps_rightly_def rightly_removed_def stable_eligible_def is_usable_for_def release_apart)
    qed
  qed
qed

lemma prune_job_dir_rightly:
  assumes p: "respects_leases X" and a: "leases_apart s" and g: "gp_job_max_age pol = Some age"
    and n: "name \<noteq> keep" "\<not> starts_with name ''_''"
    and r: "prune_job_dir X pol now age name s = (b, rms, s')"
  shows "sweeps_rightly pol keep s rms s'"
proof -
  consider (legacy) "map_of (wr_job_leases s) name = None"
    | (foreign) "map_of (wr_job_leases s) name \<noteq> None" "\<not> names_owner pol (lease_owner name s)"
    | (owned) "map_of (wr_job_leases s) name \<noteq> None" "names_owner pol (lease_owner name s)"
    by blast
  then show ?thesis
  proof cases
    case legacy
    show ?thesis
    proof (cases "is_stale_dir now age name s")
      case True
      obtain c s1 where rt: "remove_target X (Work_Dir name) (pause X s) = (c, s1)"
        by (rule prod.exhaust)
      have "rms = [\<lparr>rm_name = name, rm_lease = None, rm_seen = s, rm_state = pause X s\<rparr>] \<and> s' = s1"
        using r legacy True rt by (simp add: prune_job_dir_def Let_def)
      then show ?thesis
        using remove_target_leases [OF rt] pause_mine [OF p, of s] pause_apart [OF p a] n g legacy True
        by (auto simp: sweeps_rightly_def rightly_removed_def leases_apart_def)
    next
      case False
      then show ?thesis using r legacy a by (simp add: prune_job_dir_def sweeps_rightly_def)
    qed
  next
    case foreign
    then show ?thesis
      using r [unfolded prune_job_dir_def if_not_P [OF foreign(1)] if_P [OF foreign(2)]] a by (simp add: sweeps_rightly_def)
  next
    case owned
    let ?k = "Job_Lease name"
    obtain q s1 where q: "try_acquire X ?k (pause X s) = (q, s1)"
      by (rule prod.exhaust)
    have pa: "leases_apart (pause X s)" and pm: "wr_mine (pause X s) = wr_mine s"
      by (simp_all add: pause_apart [OF p a] pause_mine [OF p])
    show ?thesis
    proof (cases "q = Inr True")
      case False
      from try_acquire_other [OF q False] have "wr_mine s1 = wr_mine s \<and> leases_apart s1"
        using pa pm by (simp add: leases_apart_def)
      moreover have "rms = [] \<and> s' = s1"
        using r owned q False by (simp add: prune_job_dir_def Let_def split: sum.splits bool.splits)
      ultimately show ?thesis by (simp add: sweeps_rightly_def)
    next
      case True
      note t1 = try_acquire_true [OF q [unfolded True]]
      have a1: "leases_apart s1" by (rule try_acquire_apart [OF q [unfolded True] pa])
      let ?s2 = "pause X s1"
      have a2: "leases_apart ?s2" and m2: "wr_mine ?s2 = ?k # wr_mine s"
        using t1 pm by (simp_all add: pause_apart [OF p a1] pause_mine [OF p])
      show ?thesis
      proof (cases "is_stale_dir now age name ?s2")
        case False
        then have "rms = [] \<and> s' = release ?k ?s2"
          using r owned q True by (simp add: prune_job_dir_def Let_def)
        then show ?thesis using m2 release_apart [OF a2] by (simp add: sweeps_rightly_def)
      next
        case st: True
        let ?s3 = "pause X ?s2"
        have a3: "leases_apart ?s3" and m3: "wr_mine ?s3 = ?k # wr_mine s"
          using m2 by (simp_all add: pause_apart [OF p a2] pause_mine [OF p])
        obtain c s4 where rb: "remove_both X name (Lease_File name) ?s3 = (c, s4)"
          by (rule prod.exhaust)
        have res: "rms = [\<lparr>rm_name = name, rm_lease = Some ?k, rm_seen = ?s2, rm_state = ?s3\<rparr>]" "s' = release ?k s4"
          using r owned q True st rb by (simp_all add: prune_job_dir_def Let_def)
        have "wr_mine s4 = ?k # wr_mine s \<and> leases_apart s4"
          using remove_both_leases [OF p rb a3] m3 by simp
        moreover have "?k \<notin> set (wr_held ?s3)"
          using a3 m3 by (auto simp: leases_apart_def)
        ultimately show ?thesis
          using res st g m3 n by (auto simp: sweeps_rightly_def rightly_removed_def release_apart)
      qed
    qed
  qed
qed

lemma sweeps_rightly_log: "sweeps_rightly pol keep s rms s' \<Longrightarrow> rm \<in> set rms \<Longrightarrow> rightly_removed pol keep rm"
  by (simp add: sweeps_rightly_def)

lemma sweep_tracked_rightly:
  assumes p: "respects_leases X"
  shows "leases_apart s \<Longrightarrow> \<forall>rm \<in> set (sw_log w). rightly_removed pol keep rm
    \<Longrightarrow> sweep_tracked X pol keep keys w s = (w', s') \<Longrightarrow> sweeps_rightly pol keep s (sw_log w') s'"
proof (induction keys arbitrary: w s)
  case Nil
  then show ?case by (simp add: sweeps_rightly_def)
next
  case (Cons key keys)
  let ?s = "pause X s"
  have a: "leases_apart ?s" and m: "wr_mine ?s = wr_mine s"
    by (simp_all add: pause_apart [OF p Cons.prems(1)] pause_mine [OF p])
  show ?case
  proof (cases "\<exists>t. load_tracking key ?s = Inr (Some t)")
    case False
    then have "sweep_tracked X pol keep keys (w\<lparr>sw_unreadable := to_ascii_lowercase (snd key) # sw_unreadable w\<rparr>) ?s = (w', s')"
      using Cons.prems(3) by (auto simp: Let_def split: sum.splits option.splits)
    from Cons.IH [OF a _ this] show ?thesis
      using Cons.prems(2) m by (simp add: sweeps_rightly_def)
  next
    case True
    then obtain t where t: "load_tracking key ?s = Inr (Some t)" by blast
    obtain b rms s1 where r: "(case gp_stable_max_age pol of Some age \<Rightarrow> prune_stable X pol age keep key t ?s | None \<Rightarrow> (False, [], ?s)) = (b, rms, s1)"
      by (metis prod.exhaust)
    have ok: "sweeps_rightly pol keep ?s rms s1"
      using r a by (auto simp: sweeps_rightly_def [of _ _ _ "[]"] split: option.splits intro: prune_stable_rightly [OF p a])
    define w1 where "w1 = (if b then w\<lparr>sw_removed := Suc (sw_removed w), sw_log := sw_log w @ rms\<rparr>
                     else w\<lparr>sw_claimed := to_ascii_lowercase (tc_pipeline_directory t) # sw_claimed w, sw_log := sw_log w @ rms\<rparr>)"
    have l: "sw_log w1 = sw_log w @ rms" by (simp add: w1_def)
    have "sweep_tracked X pol keep keys w1 s1 = (w', s')"
      using Cons.prems(3) t r by (simp add: Let_def w1_def)
    from Cons.IH [OF _ _ this] show ?thesis
      using ok Cons.prems(2) m l by (auto simp: sweeps_rightly_def)
  qed
qed

lemma sweep_entries_rightly:
  assumes p: "respects_leases X" and g: "gp_job_max_age pol = Some age"
  shows "leases_apart s \<Longrightarrow> \<forall>rm \<in> set (sw_log w). rightly_removed pol keep rm
    \<Longrightarrow> sweep_entries X pol keep now age es w s = (w', s') \<Longrightarrow> sweeps_rightly pol keep s (sw_log w') s'"
proof (induction es arbitrary: w s)
  case Nil
  then show ?case by (simp add: sweeps_rightly_def)
next
  case (Cons e es)
  show ?case
  proof (cases "\<exists>name. e = Some name \<and> \<not> skips_entry keep w name")
    case False
    then have "sweep_entries X pol keep now age es w s = (w', s')"
      using Cons.prems(3) by (cases e) auto
    from Cons.IH [OF Cons.prems(1,2) this] show ?thesis .
  next
    case True
    then obtain name where e: "e = Some name" and n: "\<not> skips_entry keep w name" by blast
    have a: "leases_apart (pause X s)" and m: "wr_mine (pause X s) = wr_mine s"
      by (simp_all add: pause_apart [OF p Cons.prems(1)] pause_mine [OF p])
    obtain b rms s1 where r: "prune_job_dir X pol now age name (pause X s) = (b, rms, s1)"
      by (metis prod.exhaust)
    have ok: "sweeps_rightly pol keep (pause X s) rms s1"
      using n by (intro prune_job_dir_rightly [OF p a g _ _ r]) (simp_all add: skips_entry_def)
    have "sweep_entries X pol keep now age es
        (w\<lparr>sw_removed := (if b then Suc (sw_removed w) else sw_removed w), sw_log := sw_log w @ rms\<rparr>) s1 = (w', s')"
      using Cons.prems(3) r e n by simp
    from Cons.IH [OF _ _ this] show ?thesis
      using ok Cons.prems(2) m by (auto simp: sweeps_rightly_def)
  qed
qed


subsection \<open>Jobs beside each other\<close>

text \<open>The steps of the jobs of one host on one work root: claim, create, end, sweep; and the rest of the state as time passes.\<close>

definition quiet :: "workspace_externs \<Rightarrow> bool" where
  "quiet X \<longleftrightarrow> (\<forall>n s. wx_between X n s = s)"

inductive jobs_reach :: "workspace_externs \<Rightarrow> work_root \<Rightarrow> prepared_workspace list \<Rightarrow> bool" for X where
  reach_start: "jobs_reach X \<lparr>wr_entries = es, wr_tracking = [], wr_job_leases = jl, wr_held = [], wr_mine = [], wr_now = n, wr_step = i\<rparr> []"
| reach_prepare:
    "jobs_reach X s js \<Longrightarrow> prepare_workspace X stable_mode data_dir repo clean job_id s = (Ok p, s') \<Longrightarrow> jobs_reach X s' (p # js)"
| reach_refused:
    "jobs_reach X s js \<Longrightarrow> prepare_workspace X stable_mode data_dir repo clean job_id s = (Err e, s') \<Longrightarrow> jobs_reach X s' js"
| reach_create:
    "jobs_reach X s (xs @ p # ys) \<Longrightarrow> create_dirs X p s = (r, p', s') \<Longrightarrow> jobs_reach X s' (xs @ p' # ys)"
| reach_end: "jobs_reach X s (xs @ p # ys) \<Longrightarrow> jobs_reach X (drop_workspace p s) (xs @ ys)"
| reach_sweep: "jobs_reach X s js \<Longrightarrow> gc_workspaces X pol keep s = (r, rms, s') \<Longrightarrow> jobs_reach X s' js"
| reach_damage:
    "jobs_reach X s js \<Longrightarrow> Repo_Lease a b \<notin> set (wr_mine s)
       \<Longrightarrow> jobs_reach X (s\<lparr>wr_tracking := index_insert (a, b) (Tracking_Json e) (wr_tracking s)\<rparr>) js"
| reach_passes: "jobs_reach X s js \<Longrightarrow> jobs_reach X (s\<lparr>wr_entries := es, wr_job_leases := jl, wr_now := n\<rparr>) js"

definition docs_apart :: "work_root \<Rightarrow> bool" where
  "docs_apart s \<longleftrightarrow>
     (\<forall>k k' t t'. k \<noteq> k' \<longrightarrow> fst k \<noteq> JOB_LEASES_DIR \<longrightarrow> fst k' \<noteq> JOB_LEASES_DIR
        \<longrightarrow> load_tracking k s = Ok (Some t) \<longrightarrow> load_tracking k' s = Ok (Some t')
        \<longrightarrow> to_ascii_lowercase (tc_pipeline_directory t) \<noteq> to_ascii_lowercase (tc_pipeline_directory t'))"

definition job_holds :: "work_root \<Rightarrow> prepared_workspace \<Rightarrow> bool" where
  "job_holds s p \<longleftrightarrow>
     (pw_kind p = Stable_Workspace \<longrightarrow>
        pw_job_lease p = None
        \<and> (\<exists>a b t. pw_lease p = Some (Repo_Lease a b) \<and> a \<noteq> JOB_LEASES_DIR \<and> load_tracking (a, b) s = Ok (Some t)
             \<and> tc_pipeline_directory t = pw_pipeline_name p))
     \<and> (pw_job_lease p \<noteq> None \<longrightarrow> pw_lease p = None)"

definition held_by :: "prepared_workspace list \<Rightarrow> lease_key list" where
  "held_by js = List.map_filter pw_lease js"

definition jobs_inv :: "work_root \<Rightarrow> prepared_workspace list \<Rightarrow> bool" where
  "jobs_inv s js \<longleftrightarrow>
     docs_apart s \<and> (\<forall>p \<in> set js. job_holds s p) \<and> wr_held s = [] \<and> Root_Lease \<notin> set (wr_mine s)
     \<and> distinct (wr_mine s) \<and> mset (wr_mine s) = mset (held_by js)"

text \<open>Between two states, a tracking file stays as it is or, when nobody leases it, goes away.\<close>

definition gone_only :: "work_root \<Rightarrow> work_root \<Rightarrow> bool" where
  "gone_only s s' \<longleftrightarrow>
     wr_mine s' = wr_mine s \<and> wr_held s' = wr_held s
     \<and> (\<forall>a b. load_tracking (a, b) s' = load_tracking (a, b) s
          \<or> load_tracking (a, b) s' = Ok None \<and> Repo_Lease a b \<notin> set (wr_mine s))"

lemma gone_only_refl: "wr_mine s' = wr_mine s \<Longrightarrow> wr_held s' = wr_held s \<Longrightarrow> wr_tracking s' = wr_tracking s \<Longrightarrow> gone_only s s'"
  by (simp add: gone_only_def load_tracking_def)

lemma gone_only_trans: "gone_only s s' \<Longrightarrow> gone_only s' s'' \<Longrightarrow> gone_only s s''"
  by (simp add: gone_only_def) metis

lemma gone_only_docs: "gone_only s s' \<Longrightarrow> docs_apart s \<Longrightarrow> docs_apart s'"
  unfolding docs_apart_def gone_only_def by (metis (no_types, opaque_lifting) Inr_inject option.distinct(1) prod.collapse)

lemma gone_only_leased:
  "gone_only s s' \<Longrightarrow> Repo_Lease a b \<in> set (wr_mine s) \<Longrightarrow> load_tracking (a, b) s' = load_tracking (a, b) s"
  by (auto simp: gone_only_def)

lemma job_holds_mono:
  "job_holds s p \<Longrightarrow> pw_lease p \<noteq> Some k
     \<Longrightarrow> (\<And>a b. Repo_Lease a b \<noteq> k \<Longrightarrow> pw_lease p = Some (Repo_Lease a b) \<Longrightarrow> load_tracking (a, b) s' = load_tracking (a, b) s)
     \<Longrightarrow> job_holds s' p"
  unfolding job_holds_def by metis

lemma gone_only_inv: 
  assumes g: "gone_only s s'" and i: "jobs_inv s js"
  shows "jobs_inv s' js"
proof -
  have m: "wr_mine s' = wr_mine s" "wr_held s' = wr_held s" using g by (simp_all add: gone_only_def)
  have "job_holds s' p" if p: "p \<in> set js" for p
  proof -
    have h: "job_holds s p" using i p by (simp add: jobs_inv_def)
    have "pw_lease p = Some k \<Longrightarrow> k \<in> set (wr_mine s)" for k
      using i p mset_eq_setD [of "wr_mine s" "held_by js"] by (force simp: jobs_inv_def held_by_def List.map_filter_def)
    then show ?thesis using h gone_only_leased [OF g] by (auto simp: job_holds_def)
  qed
  then show ?thesis using i m gone_only_docs [OF g] by (simp add: jobs_inv_def)
qed

lemma job_lease_mine: 
  assumes "jobs_inv s js" "p \<in> set js" "pw_lease p = Some k"
  shows "k \<in> set (wr_mine s)"
  using assms mset_eq_setD [of "wr_mine s" "held_by js"] by (force simp: jobs_inv_def held_by_def List.map_filter_def)

lemma doc_is_listed: "load_tracking (a, b) s = Ok (Some t) \<Longrightarrow> a \<noteq> JOB_LEASES_DIR \<Longrightarrow> (a, b) \<in> set (tracking_files s)"
  by (force simp: load_tracking_def tracking_files_def split: option.splits dest: map_of_SomeD)

lemma new_tracking_free:
  assumes "new_tracking X r s = Ok t" "load_tracking (a, b) s = Ok (Some u)" "a \<noteq> JOB_LEASES_DIR"
  shows "to_ascii_lowercase (tc_pipeline_directory t) \<noteq> to_ascii_lowercase (tc_pipeline_directory u)"
proof -
  obtain c where "is_free_name s c" and c: "tc_pipeline_directory t = c"
    using assms(1) by (auto simp: new_tracking_def new_tracking_config_def find_Some_iff split: option.splits)
  moreover have "to_ascii_lowercase (tc_pipeline_directory u) \<in> set (claimed_directories s)"
    using doc_is_listed [OF assms(2,3)] assms(2) by (force simp: claimed_directories_def List.map_filter_def)
  ultimately show ?thesis by (auto simp: is_free_name_def)
qed

lemma parse_owner: "parse_repository n = Some r \<Longrightarrow> rp_owner r \<noteq> JOB_LEASES_DIR"
  by (auto simp: parse_repository_def JOB_LEASES_DIR_def starts_with_def split: option.splits prod.splits if_splits)

lemma acquire_effect:
  "acquire_lease X k s = (q, s') \<Longrightarrow> wr_held s = [] \<Longrightarrow> wr_tracking s' = wr_tracking s \<and> wr_entries s' = wr_entries s \<and> wr_held s' = []
     \<and> (q = Ok () \<and> wr_mine s' = k # wr_mine s \<or> (\<exists>e. q = Err e) \<and> wr_mine s' = wr_mine s)"
  by (auto simp: acquire_lease_def open_lease_def split: option.splits lease_key.splits if_splits)

lemma save_effect:
  "save_tracking X key t s = (q, s') \<Longrightarrow> wr_mine s' = wr_mine s \<and> wr_held s' = wr_held s
     \<and> (q = Ok () \<and> (\<forall>k. load_tracking k s' = (if k = key then Ok (Some t) else load_tracking k s))
        \<or> (\<exists>e. q = Err e) \<and> wr_tracking s' = wr_tracking s)"
  by (auto simp: save_tracking_def load_tracking_def split: option.splits)

lemma try_acquire_cases:
  assumes "try_acquire X k s = (q, s')"
  shows "wr_tracking s' = wr_tracking s \<and> wr_entries s' = wr_entries s \<and> wr_held s' = wr_held s
     \<and> (q = Ok True \<and> wr_mine s' = k # wr_mine s \<and> k \<notin> set (wr_mine s) \<or> q \<noteq> Ok True \<and> wr_mine s' = wr_mine s)"
proof -
  have "wr_entries s' = wr_entries s"
    using assms by (auto simp: try_acquire_def open_lease_def Let_def split: option.splits if_splits lease_key.splits)
  then show ?thesis
    using assms try_acquire_true [of X k s s'] try_acquire_other [OF assms] by (cases "q = Inr True") auto
qed

lemma current_tracking_cong:
  "wr_tracking s' = wr_tracking s \<Longrightarrow> wr_entries s' = wr_entries s \<Longrightarrow> current_tracking X r s' = current_tracking X r s"
proof -
  assume t: "wr_tracking s' = wr_tracking s" and e: "wr_entries s' = wr_entries s"
  have l: "load_tracking k s' = load_tracking k s" for k
    by (simp add: load_tracking_def t)
  have "claimed_directories s' = claimed_directories s"
    by (simp add: claimed_directories_def l tracking_files_def t)
  then have "is_free_name s' = is_free_name s"
    by (intro ext) (simp add: is_free_name_def e)
  then have n: "new_tracking X r s' = new_tracking X r s"
    by (simp add: new_tracking_def)
  show ?thesis
    unfolding current_tracking_def l n ..
qed

lemma prepare_stable_effect:
  assumes p: "prepare_stable X d r clean s = (q, s')" and h: "wr_held s = []" and m: "Root_Lease \<notin> set (wr_mine s)"
  shows "gone_only s s' \<and> (\<forall>w. q \<noteq> Ok (Some w))
     \<or> (\<exists>w t t'. q = Ok (Some w) \<and> pw_kind w = Stable_Workspace \<and> pw_lease w = Some (Repo_Lease (rp_owner r) (rp_name r))
          \<and> pw_job_lease w = None \<and> pw_pipeline_name w = tc_pipeline_directory t
          \<and> current_tracking X r s = Ok t \<and> tc_pipeline_directory t' = tc_pipeline_directory t
          \<and> Repo_Lease (rp_owner r) (rp_name r) \<notin> set (wr_mine s)
          \<and> wr_mine s' = Repo_Lease (rp_owner r) (rp_name r) # wr_mine s \<and> wr_held s' = []
          \<and> (\<forall>k. load_tracking k s' = (if k = repo_key r then Ok (Some t') else load_tracking k s)))"
proof -
  let ?k = "Repo_Lease (rp_owner r) (rp_name r)"
  obtain q1 s1 where a1: "acquire_lease X Root_Lease s = (q1, s1)" by (rule prod.exhaust)
  note e1 = acquire_effect [OF a1 h]
  show ?thesis
  proof (cases q1)
    case (Inl e)
    then show ?thesis using p a1 e1 h by (auto simp: prepare_stable_def gone_only_refl)
  next
    case (Inr u)
    then have m1: "wr_mine s1 = Root_Lease # wr_mine s" using e1 by auto
    obtain q2 s2 where a2: "try_acquire X ?k s1 = (q2, s2)" by (rule prod.exhaust)
    note e2 = try_acquire_cases [OF a2]
    show ?thesis
    proof (cases "q2 = Inr True")
      case False
      then have m2: "wr_mine s2 = Root_Lease # wr_mine s" using e2 m1 by auto
      have "s' = release Root_Lease s2 \<and> (\<forall>w. q \<noteq> Inr (Some w))"
        using p a1 a2 Inr False by (auto simp: prepare_stable_def Let_def split: sum.splits bool.splits)
      moreover have "gone_only s (release Root_Lease s2)"
        by (intro gone_only_refl) (simp_all add: m2 conjunct1 [OF e1] conjunct1 [OF e2] conjunct1 [OF conjunct2 [OF conjunct2 [OF e1]]] conjunct1 [OF conjunct2 [OF conjunct2 [OF e2]]] h)
      ultimately show ?thesis by simp
    next
      case t: True
      have m2: "wr_mine s2 = ?k # Root_Lease # wr_mine s" "?k \<notin> set (wr_mine s)" using e2 m1 t by auto
      have tr: "wr_tracking s2 = wr_tracking s" "wr_entries s2 = wr_entries s" "wr_held s2 = []" using e1 e2 h by auto
      note cc = current_tracking_cong [OF tr(1,2), of X r]
      show ?thesis
      proof (cases "current_tracking X r s")
        case (Inl e)
        have "s' = release Root_Lease (release ?k s2) \<and> (\<forall>w. q \<noteq> Inr (Some w))"
          using p a1 a2 Inr t cc Inl by (auto simp: prepare_stable_def Let_def)
        then show ?thesis using m2 tr h by (simp add: gone_only_refl)
      next
        case c: (Inr t)
        let ?t = "t\<lparr>tc_last_run_on_unix := now_unix s2, tc_data_dir := d\<rparr>"
        obtain q3 s3 where sv: "save_tracking X (repo_key r) ?t s2 = (q3, s3)" by (rule prod.exhaust)
        note e3 = save_effect [OF sv]
        show ?thesis
        proof (cases q3)
          case (Inl e)
          have "s' = release Root_Lease (release ?k s3) \<and> (\<forall>w. q \<noteq> Inr (Some w))"
            using p a1 a2 \<open>q1 = _\<close> t cc c sv Inl by (auto simp: prepare_stable_def Let_def)
          then show ?thesis using e3 Inl m2 tr h by (auto simp: gone_only_refl)
        next
          case (Inr v)
          have q: "q = Ok (Some \<lparr>pw_workspace = path_join (wx_root X) (components (tc_workspace_directory ?t)),
                     pw_pipeline = path_join (wx_root X) (components (tc_pipeline_directory ?t)), pw_kind = Stable_Workspace,
                     pw_pipeline_name = tc_pipeline_directory ?t, pw_clean = clean, pw_job_lease = None, pw_lease = Some ?k\<rparr>)" (is "q = Ok (Some ?w)")
            and s': "s' = release Root_Lease s3"
            using p a1 a2 \<open>q1 = _\<close> t cc c sv Inr by (auto simp: prepare_stable_def Let_def)
          have l: "load_tracking k s' = (if k = repo_key r then Ok (Some ?t) else load_tracking k s)" for k
          proof -
            have "load_tracking k s3 = (if k = repo_key r then Ok (Some ?t) else load_tracking k s2)"
              using e3 Inr by (metis Inr_not_Inl sum.disc(2))
            moreover have "load_tracking k s' = load_tracking k s3" by (simp add: load_tracking_def s')
            moreover have "load_tracking k s2 = load_tracking k s" by (simp add: load_tracking_def tr)
            ultimately show ?thesis by simp
          qed
          have mm: "wr_mine s' = ?k # wr_mine s" using e3 m2 s' by simp
          have hh: "wr_held s' = []" using e3 tr s' by simp
          show ?thesis
            by (rule disjI2, rule exI [of _ ?w], rule exI [of _ t], rule exI [of _ ?t]) (use q c m2(2) mm hh l in simp)
        qed
      qed
    qed
  qed
qed

lemma prepare_stable_inv:
  assumes p: "prepare_stable X d r clean s = (q, s')" and i: "jobs_inv s js" and r: "rp_owner r \<noteq> JOB_LEASES_DIR"
  shows "jobs_inv s' (case q of Inr (Some w) \<Rightarrow> w # js | _ \<Rightarrow> js)"
proof -
  have h: "wr_held s = []" and m: "Root_Lease \<notin> set (wr_mine s)" using i by (simp_all add: jobs_inv_def)
  from prepare_stable_effect [OF p h m] show ?thesis
  proof (elim disjE exE conjE)
    assume "gone_only s s'" "\<forall>w. q \<noteq> Ok (Some w)"
    then show ?thesis using gone_only_inv [OF _ i] by (auto split: sum.splits option.splits)
  next
    fix w t t'
    let ?k = "Repo_Lease (rp_owner r) (rp_name r)"
    assume q: "q = Ok (Some w)" and w: "pw_kind w = Stable_Workspace" "pw_lease w = Some ?k" "pw_job_lease w = None" "pw_pipeline_name w = tc_pipeline_directory t"
      and c: "current_tracking X r s = Ok t" and t': "tc_pipeline_directory t' = tc_pipeline_directory t"
      and k: "?k \<notin> set (wr_mine s)" and mm: "wr_mine s' = ?k # wr_mine s" and hh: "wr_held s' = []"
      and l: "\<forall>k. load_tracking k s' = (if k = repo_key r then Ok (Some t') else load_tracking k s)"
    note lk = l [rule_format]
    have da: "docs_apart s" using i by (simp add: jobs_inv_def)
    have fresh: "to_ascii_lowercase (tc_pipeline_directory t) \<noteq> to_ascii_lowercase (tc_pipeline_directory u)"
      if u: "key \<noteq> repo_key r" "fst key \<noteq> JOB_LEASES_DIR" "load_tracking key s = Ok (Some u)" for key u
    proof (cases "load_tracking (repo_key r) s = Ok (Some t)")
      case True
      have "fst (repo_key r) \<noteq> JOB_LEASES_DIR" using r by (simp add: repo_key_def)
      then show ?thesis using da u True unfolding docs_apart_def by metis
    next
      case False
      then have "new_tracking X r s = Ok t"
        using c by (auto simp: current_tracking_def split: sum.splits option.splits if_splits)
      then show ?thesis using new_tracking_free [of X r s t "fst key" "snd key" u] u by simp
    qed
    have "docs_apart s'"
      unfolding docs_apart_def
    proof (intro allI impI)
      fix k1 k2 t1 t2
      assume a: "k1 \<noteq> k2" "fst k1 \<noteq> JOB_LEASES_DIR" "fst k2 \<noteq> JOB_LEASES_DIR"
        and l1: "load_tracking k1 s' = Ok (Some t1)" and l2: "load_tracking k2 s' = Ok (Some t2)"
      consider "k1 = repo_key r" | "k2 = repo_key r" | "k1 \<noteq> repo_key r" "k2 \<noteq> repo_key r" by blast
      then show "to_ascii_lowercase (tc_pipeline_directory t1) \<noteq> to_ascii_lowercase (tc_pipeline_directory t2)"
      proof cases
        case 1
        then have "t1 = t'" "load_tracking k2 s = Ok (Some t2)" using a l1 l2 lk [of k1] lk [of k2] by auto
        then show ?thesis using fresh [of k2 t2] a 1 t' by simp
      next
        case 2
        then have "t2 = t'" "load_tracking k1 s = Ok (Some t1)" using a l1 l2 lk [of k1] lk [of k2] by auto
        then show ?thesis using fresh [of k1 t1] a 2 t' by simp
      next
        case 3
        then have "load_tracking k1 s = Ok (Some t1)" "load_tracking k2 s = Ok (Some t2)" using l1 l2 lk [of k1] lk [of k2] by simp_all
        then show ?thesis using da a unfolding docs_apart_def by blast
      qed
    qed
    moreover have "job_holds s' p" if pj: "p \<in> set js" for p
    proof -
      have "job_holds s p" using i pj by (simp add: jobs_inv_def)
      moreover have "pw_lease p \<noteq> Some ?k" using job_lease_mine [OF i pj, of ?k] k by auto
      ultimately show ?thesis by (rule job_holds_mono) (auto simp: lk repo_key_def)
    qed
    moreover have "job_holds s' w"
      using w r l t' by (auto simp: job_holds_def repo_key_def)
    ultimately show ?thesis
      using i q w k mm hh by (simp add: jobs_inv_def held_by_def List.map_filter_simps)
  qed
qed

definition same_files :: "work_root \<Rightarrow> work_root \<Rightarrow> bool" where
  "same_files s s' \<longleftrightarrow> wr_tracking s' = wr_tracking s \<and> wr_mine s' = wr_mine s \<and> wr_held s' = wr_held s"

lemma same_files_trans: "same_files s s' \<Longrightarrow> same_files s' s'' \<Longrightarrow> same_files s s''"
  by (simp add: same_files_def)

lemma same_files_gone: "same_files s s' \<Longrightarrow> gone_only s s'"
  by (simp add: same_files_def gone_only_refl)

lemma remove_dir_files: "remove_dir X p s = (q, s') \<Longrightarrow> same_files s s'"
  by (auto simp: remove_dir_def under_root_def delete_entry_def same_files_def split: option.splits list.splits if_splits)

lemma remove_children_files: "remove_children X p w cs s = (q, s') \<Longrightarrow> same_files s s'"
proof (induction X p w cs s rule: remove_children.induct)
  case (1 X pipeline ws s)
  then show ?case by (simp add: same_files_def)
next
  case (2 X pipeline ws c d cs s)
  show ?case
  proof (cases "pipeline @ [c] \<noteq> ws \<and> d")
    case True
    obtain e s1 where r: "remove_dir X (pipeline @ [c]) s = (e, s1)" by (rule prod.exhaust)
    show ?thesis
    proof (cases e)
      case (Inl a)
      then show ?thesis using "2.prems" True r remove_dir_files [OF r] by simp
    next
      case (Inr a)
      then have "same_files s1 s'" using "2.IH"(1) [OF True r [symmetric] Inr] "2.prems" True r by simp
      then show ?thesis using same_files_trans [OF remove_dir_files [OF r]] by simp
    qed
  next
    case False
    then show ?thesis
      using "2.IH"(2) [OF False] "2.prems" [unfolded remove_children.simps if_not_P [OF False]] by simp
  qed
qed

lemma apply_clean_files: 
  assumes "apply_clean X clean p w s = (q, s')" 
  shows "same_files s s'"
proof -
  obtain e s1 where r: "(if map_option to_ascii_lowercase clean = Some ''all'' then remove_dir X p s
            else if map_option to_ascii_lowercase clean = Some ''resources'' then remove_dir X w s
            else if map_option to_ascii_lowercase clean = Some ''outputs'' then remove_outputs X p w s
            else (Ok (), s)) = (e, s1)" by (rule prod.exhaust)
  have s: "same_files s s" by (simp add: same_files_def)
  have "remove_outputs X p w s = (e, s1) \<Longrightarrow> same_files s s1"
    using s remove_children_files [of X p w _ s e s1]
    by (auto simp: remove_outputs_def split: option.splits ws_target.splits)
  then have 1: "same_files s s1"
    using r s remove_dir_files [of X p s e s1] remove_dir_files [of X w s e s1] by (auto split: if_splits)
  have "same_files s1 (create_entry t s1)" for t
    by (auto simp: create_entry_def same_files_def Let_def split: ws_target.splits option.splits)
  then have "same_files s1 s'"
    using assms [unfolded apply_clean_def r] by (auto simp: same_files_def split: sum.splits option.splits)
  then show ?thesis by (rule same_files_trans [OF 1])
qed

lemma take_job_lease_effect:
  assumes "take_job_lease X n d s = (q, s')"
  shows "(\<exists>e. q = Err e) \<and> same_files s s'
     \<or> q = Ok (Job_Lease n) \<and> wr_tracking s' = wr_tracking s \<and> wr_held s' = wr_held s
        \<and> wr_mine s' = Job_Lease n # wr_mine s \<and> Job_Lease n \<notin> set (wr_mine s)"
proof -
  obtain q1 s1 where t: "try_acquire X (Job_Lease n) s = (q1, s1)" by (rule prod.exhaust)
  show ?thesis
  proof (cases "q1 = Inr True")
    case True
    have m: "wr_mine s1 = Job_Lease n # wr_mine s" "Job_Lease n \<notin> set (wr_mine s)" "wr_tracking s1 = wr_tracking s" "wr_held s1 = wr_held s"
      using try_acquire_cases [OF t] True by auto
    show ?thesis
    proof (cases "wx_body_error X n")
      case None
      then show ?thesis using assms t True m by (auto simp: take_job_lease_def)
    next
      case (Some e)
      then show ?thesis using assms t True m
        by (cases "wx_remove_error X (Lease_File n)") (auto simp: take_job_lease_def same_files_def)
    qed
  next
    case False
    then show ?thesis using assms t try_acquire_cases [OF t]
      by (auto simp: take_job_lease_def same_files_def split: sum.splits bool.splits)
  qed
qed

lemma create_dirs_inv:
  assumes c: "create_dirs X p s = (q, p', s')" and i: "jobs_inv s (xs @ p # ys)"
  shows "jobs_inv s' (xs @ p' # ys)"
proof (cases "pw_job_lease p")
  case None
  then have "p' = p \<and> same_files s s'"
    using c apply_clean_files [of X "pw_clean p" "pw_pipeline p" "pw_workspace p" s] by (auto simp: create_dirs_def split: prod.splits)
  then show ?thesis using gone_only_inv [OF same_files_gone i] by simp
next
  case (Some nd)
  obtain n d where nd: "nd = (n, d)" by (rule prod.exhaust)
  let ?p = "p\<lparr>pw_job_lease := None\<rparr>"
  have hp: "job_holds s p" and none: "pw_lease p = None" and k: "pw_kind p \<noteq> Stable_Workspace"
    using i Some by (auto simp: jobs_inv_def job_holds_def)
  obtain q1 s1 where t: "take_job_lease X n d s = (q1, s1)" by (rule prod.exhaust)
  from take_job_lease_effect [OF t] show ?thesis
  proof (elim disjE conjE exE)
    fix e assume e: "q1 = Err e" and s1: "same_files s s1"
    have "p' = ?p \<and> s' = s1" using c Some nd t e by (simp add: create_dirs_def Let_def)
    moreover have "jobs_inv s1 (xs @ ?p # ys)"
      using gone_only_inv [OF same_files_gone [OF s1] i] none k
      by (simp add: jobs_inv_def held_by_def List.map_filter_def job_holds_def)
    ultimately show ?thesis by simp
  next
    assume q1: "q1 = Ok (Job_Lease n)" and s1: "wr_tracking s1 = wr_tracking s" "wr_held s1 = wr_held s"
      "wr_mine s1 = Job_Lease n # wr_mine s" "Job_Lease n \<notin> set (wr_mine s)"
    let ?q = "?p\<lparr>pw_lease := Some (Job_Lease n)\<rparr>"
    have "p' = ?q \<and> same_files s1 s'"
      using c Some nd t q1 apply_clean_files [of X "pw_clean ?q" "pw_pipeline ?q" "pw_workspace ?q" s1]
      by (auto simp: create_dirs_def Let_def split: prod.splits)
    moreover have "jobs_inv s1 (xs @ ?q # ys)"
      using i s1 none k
      by (simp add: jobs_inv_def held_by_def List.map_filter_def job_holds_def docs_apart_def load_tracking_def)
    ultimately show ?thesis using gone_only_inv [OF same_files_gone] by blast
  qed
qed

lemma drop_inv:
  assumes i: "jobs_inv s (xs @ p # ys)"
  shows "jobs_inv (drop_workspace p s) (xs @ ys)"
proof (cases "pw_lease p")
  case None
  then show ?thesis using i by (simp add: drop_workspace_def jobs_inv_def held_by_def List.map_filter_def)
next
  case (Some k)
  have "mset (wr_mine s) = add_mset k (mset (held_by (xs @ ys)))"
    using i Some by (simp add: jobs_inv_def held_by_def List.map_filter_def)
  then have m: "mset (remove1 k (wr_mine s)) = mset (held_by (xs @ ys))" by simp
  have l: "load_tracking key (release k s) = load_tracking key s" for key by (simp add: load_tracking_def)
  have "docs_apart (release k s) = docs_apart s" "job_holds (release k s) = job_holds s"
    by (simp_all add: docs_apart_def job_holds_def [abs_def] l)
  then show ?thesis
    using i Some m unfolding drop_workspace_def jobs_inv_def
    by (auto dest: notin_set_remove1)
qed

lemma quiet_pause [simp]:
  assumes "quiet X"
  shows "wr_mine (pause X s) = wr_mine s" "wr_held (pause X s) = wr_held s" "wr_tracking (pause X s) = wr_tracking s"
    "load_tracking k (pause X s) = load_tracking k s"
  using assms by (simp_all add: quiet_def pause_def load_tracking_def)

lemma remove_both_gone:
  assumes q: "quiet X" and r: "remove_both X n f s = (b, s')"
  shows "wr_mine s' = wr_mine s \<and> wr_held s' = wr_held s
    \<and> (wr_tracking s' = wr_tracking s \<or> (\<exists>a c. f = Tracking_File a c \<and> wr_tracking s' = AList.delete (a, c) (wr_tracking s)))"
proof (cases "wx_remove_error X (Work_Dir n) = None")
  case True
  have "remove_target X f (pause X (delete_entry (Work_Dir n) s)) = (b, s')"
    using r True by (simp add: remove_both_def remove_target_def)
  then show ?thesis
    using q by (auto simp: remove_target_def delete_entry_def split: if_splits ws_target.splits option.splits)
next
  case False
  then show ?thesis using r by (simp add: remove_both_def remove_target_def split: if_splits)
qed

text \<open>What one deletion of the first pass leaves, and that it is not of a leased workspace.\<close>

definition spares :: "work_root \<Rightarrow> removal list \<Rightarrow> bool" where
  "spares s rms \<longleftrightarrow>
     (\<forall>rm \<in> set rms. \<forall>a b t. a \<noteq> JOB_LEASES_DIR \<longrightarrow> Repo_Lease a b \<in> set (wr_mine s) \<longrightarrow> load_tracking (a, b) s = Ok (Some t)
        \<longrightarrow> to_ascii_lowercase (rm_name rm) \<noteq> to_ascii_lowercase (tc_pipeline_directory t))"

lemma prune_stable_gone:
  assumes q: "quiet X" and d: "docs_apart s" and o: "fst key \<noteq> JOB_LEASES_DIR"
    and r: "prune_stable X pol age keep key t s = (b, rms, s')"
  shows "gone_only s s' \<and> spares s rms \<and> (Repo_Lease (fst key) (snd key) \<in> set (wr_mine s) \<longrightarrow> \<not> b)"
proof (cases "stable_eligible pol age keep t s")
  case False
  then show ?thesis using r by (simp add: prune_stable_def gone_only_refl spares_def)
next
  case el: True
  let ?k = "Repo_Lease (fst key) (snd key)"
  obtain e s1 where a: "try_acquire X ?k (pause X s) = (e, s1)" by (rule prod.exhaust)
  note e1 = try_acquire_cases [OF a]
  show ?thesis
  proof (cases "e = Inr True")
    case False
    have "b = False \<and> rms = [] \<and> s' = s1"
      using r el a False by (simp add: prune_stable_def Let_def split: sum.splits bool.splits)
    moreover have "gone_only s s1" using e1 False q by (auto intro: gone_only_refl)
    ultimately show ?thesis by (simp add: spares_def)
  next
    case True
    have m: "wr_mine s1 = ?k # wr_mine s" "?k \<notin> set (wr_mine s)" "wr_held s1 = wr_held s" "wr_tracking s1 = wr_tracking s"
      using e1 True q by auto
    have l: "load_tracking x s1 = load_tracking x s" for x by (simp add: load_tracking_def m)
    let ?s2 = "pause X s1"
    show ?thesis
    proof (cases "\<exists>u. load_tracking key ?s2 = Inr (Some u) \<and> stable_eligible pol age keep u ?s2")
      case False
      then have "b = False \<and> rms = [] \<and> s' = release ?k ?s2"
        using r el a True by (auto simp: prune_stable_def Let_def split: sum.splits option.splits if_splits)
      then show ?thesis using m q by (simp add: gone_only_refl spares_def)
    next
      case u: True
      then obtain u where u: "load_tracking key ?s2 = Inr (Some u)" and eu: "stable_eligible pol age keep u ?s2" by blast
      let ?s3 = "pause X ?s2"
      obtain c s4 where rb: "remove_both X (tc_pipeline_directory u) (Tracking_File (fst key) (snd key)) ?s3 = (c, s4)"
        by (rule prod.exhaust)
      have res: "rms = [\<lparr>rm_name = tc_pipeline_directory u, rm_lease = Some ?k, rm_seen = ?s2, rm_state = ?s3\<rparr>]" "s' = release ?k s4"
        using r el a True u eu rb by (simp_all add: prune_stable_def Let_def)
      note g = remove_both_gone [OF q rb]
      have "wr_mine s4 = ?k # wr_mine s" "wr_held s4 = wr_held s" and tr: "wr_tracking s4 = wr_tracking s \<or> wr_tracking s4 = AList.delete key (wr_tracking s)"
        using g m q by auto
      then have "gone_only s s'"
        using res(2) m(2) by (auto simp: gone_only_def load_tracking_def delete_conv split: if_splits)
      moreover have "load_tracking key s = Inr (Some u)" using u q l by simp
      then have "spares s rms"
        using d o m(2) res(1) unfolding spares_def docs_apart_def by (auto, metis fst_conv snd_conv)
      ultimately show ?thesis using m(2) by simp
    qed
  qed
qed

lemma spares_gone: "gone_only s s' \<Longrightarrow> spares s' rms = spares s rms"
  unfolding spares_def gone_only_def by metis

lemma spares_append: "spares s (xs @ ys) \<longleftrightarrow> spares s xs \<and> spares s ys"
  by (auto simp: spares_def)

definition claims_leased :: "work_root \<Rightarrow> (string \<times> string) list \<Rightarrow> sweep \<Rightarrow> bool" where
  "claims_leased s keys w \<longleftrightarrow>
     (\<forall>(a, b) \<in> set keys. \<forall>t. Repo_Lease a b \<in> set (wr_mine s) \<longrightarrow> load_tracking (a, b) s = Ok (Some t)
        \<longrightarrow> to_ascii_lowercase (tc_pipeline_directory t) \<in> set (sw_claimed w))"

lemma sweep_tracked_claimed: "sweep_tracked X pol keep keys w s = (w', s') \<Longrightarrow> set (sw_claimed w) \<subseteq> set (sw_claimed w')"
proof (induction keys arbitrary: w s)
  case (Cons key keys)
  show ?case
  proof (cases "\<exists>t. load_tracking key (pause X s) = Inr (Some t)")
    case False
    then have "sweep_tracked X pol keep keys (w\<lparr>sw_unreadable := to_ascii_lowercase (snd key) # sw_unreadable w\<rparr>) (pause X s) = (w', s')"
      using Cons.prems by (auto simp: Let_def split: sum.splits option.splits)
    from Cons.IH [OF this] show ?thesis by simp
  next
    case True
    then obtain t where t: "load_tracking key (pause X s) = Inr (Some t)" by blast
    obtain b rms s1 where r: "(case gp_stable_max_age pol of Some age \<Rightarrow> prune_stable X pol age keep key t (pause X s) | None \<Rightarrow> (False, [], pause X s)) = (b, rms, s1)"
      by (metis prod.exhaust)
    have "sweep_tracked X pol keep keys (if b then w\<lparr>sw_removed := Suc (sw_removed w), sw_log := sw_log w @ rms\<rparr>
        else w\<lparr>sw_claimed := to_ascii_lowercase (tc_pipeline_directory t) # sw_claimed w, sw_log := sw_log w @ rms\<rparr>) s1 = (w', s')"
      using Cons.prems t r by (simp add: Let_def)
    from Cons.IH [OF this] show ?thesis by (auto split: if_splits)
  qed
qed simp

lemma sweep_tracked_gone:
  assumes q: "quiet X"
  shows "docs_apart s \<Longrightarrow> \<forall>key \<in> set keys. fst key \<noteq> JOB_LEASES_DIR \<Longrightarrow> spares s (sw_log w)
    \<Longrightarrow> sweep_tracked X pol keep keys w s = (w', s') \<Longrightarrow> gone_only s s' \<and> spares s (sw_log w') \<and> claims_leased s keys w'"
proof (induction keys arbitrary: w s)
  case Nil
  then show ?case by (simp add: gone_only_refl claims_leased_def)
next
  case (Cons key keys)
  let ?s = "pause X s"
  have g0: "gone_only s ?s" using q by (intro gone_only_refl) simp_all
  have ks: "\<forall>key \<in> set keys. fst key \<noteq> JOB_LEASES_DIR" and ko: "fst key \<noteq> JOB_LEASES_DIR" using Cons.prems(2) by simp_all
  show ?case
  proof (cases "\<exists>t. load_tracking key ?s = Inr (Some t)")
    case False
    then have "sweep_tracked X pol keep keys (w\<lparr>sw_unreadable := to_ascii_lowercase (snd key) # sw_unreadable w\<rparr>) ?s = (w', s')"
      using Cons.prems(4) by (auto simp: Let_def split: sum.splits option.splits)
    from Cons.IH [OF gone_only_docs [OF g0 Cons.prems(1)] ks _ this]
    have i: "gone_only ?s s' \<and> spares ?s (sw_log w') \<and> claims_leased ?s keys w'"
      using Cons.prems(3) by (simp add: spares_gone [OF g0])
    have "claims_leased s (key # keys) w'"
      using i False q by (auto simp: claims_leased_def)
    then show ?thesis using i gone_only_trans [OF g0] by (simp add: spares_gone [OF g0])
  next
    case True
    then obtain t where t: "load_tracking key ?s = Inr (Some t)" by blast
    obtain b rms s1 where r: "(case gp_stable_max_age pol of Some age \<Rightarrow> prune_stable X pol age keep key t ?s | None \<Rightarrow> (False, [], ?s)) = (b, rms, s1)"
      by (metis prod.exhaust)
    have p: "gone_only ?s s1 \<and> spares ?s rms \<and> (Repo_Lease (fst key) (snd key) \<in> set (wr_mine ?s) \<longrightarrow> \<not> b)"
    proof (cases "gp_stable_max_age pol")
      case None
      then show ?thesis using r by (simp add: gone_only_refl spares_def)
    next
      case (Some age)
      then show ?thesis
        using r by (intro prune_stable_gone [OF q gone_only_docs [OF g0 Cons.prems(1)] ko]) simp
    qed
    have g1: "gone_only s s1" using gone_only_trans [OF g0] p by blast
    define w1 where "w1 = (if b then w\<lparr>sw_removed := Suc (sw_removed w), sw_log := sw_log w @ rms\<rparr>
        else w\<lparr>sw_claimed := to_ascii_lowercase (tc_pipeline_directory t) # sw_claimed w, sw_log := sw_log w @ rms\<rparr>)"
    have l: "sw_log w1 = sw_log w @ rms" by (simp add: w1_def)
    have sw: "sweep_tracked X pol keep keys w1 s1 = (w', s')"
      using Cons.prems(4) t r by (simp add: Let_def w1_def)
    have "spares s1 (sw_log w1)"
      using Cons.prems(3) p by (simp add: l spares_append spares_gone [OF g1] spares_gone [OF g0])
    from Cons.IH [OF gone_only_docs [OF g1 Cons.prems(1)] ks this sw]
    have i: "gone_only s1 s' \<and> spares s1 (sw_log w') \<and> claims_leased s1 keys w'" .
    have "claims_leased s (key # keys) w'"
      unfolding claims_leased_def
    proof (intro ballI case_prodI2 allI impI)
      fix k a c u
      assume k: "k \<in> set (key # keys)" "k = (a, c)" and m: "Repo_Lease a c \<in> set (wr_mine s)" and u: "load_tracking (a, c) s = Ok (Some u)"
      show "to_ascii_lowercase (tc_pipeline_directory u) \<in> set (sw_claimed w')"
      proof (cases "k = key")
        case True
        then have "u = t" "\<not> b" using k t u q m p by auto
        then have "to_ascii_lowercase (tc_pipeline_directory u) \<in> set (sw_claimed w1)" by (simp add: w1_def)
        then show ?thesis using sweep_tracked_claimed [OF sw] by blast
      next
        case False
        then have "(a, c) \<in> set keys" using k by simp
        moreover have "Repo_Lease a c \<in> set (wr_mine s1)" "load_tracking (a, c) s1 = Ok (Some u)"
          using m u g1 gone_only_leased [OF g1 m] by (simp_all add: gone_only_def)
        ultimately show ?thesis using i by (auto simp: claims_leased_def)
      qed
    qed
    then show ?thesis using i gone_only_trans [OF g1] by (simp add: spares_gone [OF g1])
  qed
qed

lemma prune_job_dir_gone:
  assumes q: "quiet X" and r: "prune_job_dir X pol now age name s = (b, rms, s')"
  shows "gone_only s s' \<and> (\<forall>rm \<in> set rms. rm_name rm = name)"
proof -
  consider (legacy) "map_of (wr_job_leases s) name = None"
    | (foreign) "map_of (wr_job_leases s) name \<noteq> None" "\<not> names_owner pol (lease_owner name s)"
    | (owned) "map_of (wr_job_leases s) name \<noteq> None" "names_owner pol (lease_owner name s)"
    by blast
  then show ?thesis
  proof cases
    case legacy
    obtain c s1 where rt: "remove_target X (Work_Dir name) (pause X s) = (c, s1)"
      by (rule prod.exhaust)
    then have "gone_only s s1" using q
      by (auto simp: remove_target_def delete_entry_def intro!: gone_only_refl split: if_splits)
    then show ?thesis
      using r legacy rt by (cases "is_stale_dir now age name s") (auto simp: prune_job_dir_def Let_def intro: gone_only_refl)
  next
    case foreign
    then show ?thesis
      using r [unfolded prune_job_dir_def if_not_P [OF foreign(1)] if_P [OF foreign(2)]] by (simp add: gone_only_refl)
  next
    case owned
    let ?k = "Job_Lease name"
    obtain e s1 where a: "try_acquire X ?k (pause X s) = (e, s1)" by (rule prod.exhaust)
    note e1 = try_acquire_cases [OF a]
    show ?thesis
    proof (cases "e = Inr True")
      case False
      have "rms = [] \<and> s' = s1"
        using r owned a False by (simp add: prune_job_dir_def Let_def split: sum.splits bool.splits)
      moreover have "gone_only s s1" using e1 False q by (auto intro: gone_only_refl)
      ultimately show ?thesis by simp
    next
      case True
      have m: "wr_mine s1 = ?k # wr_mine s" "wr_held s1 = wr_held s" "wr_tracking s1 = wr_tracking s"
        using e1 True q by auto
      let ?s2 = "pause X s1"
      show ?thesis
      proof (cases "is_stale_dir now age name ?s2")
        case False
        then have "rms = [] \<and> s' = release ?k ?s2"
          using r owned a True by (simp add: prune_job_dir_def Let_def)
        then show ?thesis using m q by (simp add: gone_only_refl)
      next
        case st: True
        obtain c s4 where rb: "remove_both X name (Lease_File name) (pause X ?s2) = (c, s4)"
          by (rule prod.exhaust)
        have res: "\<forall>rm \<in> set rms. rm_name rm = name" "s' = release ?k s4"
          using r owned a True st rb by (auto simp: prune_job_dir_def Let_def)
        have "wr_mine s4 = ?k # wr_mine s" "wr_held s4 = wr_held s" "wr_tracking s4 = wr_tracking s"
          using remove_both_gone [OF q rb] m q by auto
        then show ?thesis using res by (simp add: gone_only_refl)
      qed
    qed
  qed
qed

lemma sweep_entries_gone:
  assumes q: "quiet X"
  shows "\<forall>rm \<in> set (sw_log w). P (to_ascii_lowercase (rm_name rm)) \<Longrightarrow> \<forall>n. n \<notin> set (sw_claimed w) \<longrightarrow> P n
    \<Longrightarrow> sweep_entries X pol keep now age es w s = (w', s')
    \<Longrightarrow> gone_only s s' \<and> (\<forall>rm \<in> set (sw_log w'). P (to_ascii_lowercase (rm_name rm)))"
proof (induction es arbitrary: w s)
  case Nil
  then show ?case by (simp add: gone_only_refl)
next
  case (Cons e es)
  show ?case
  proof (cases "\<exists>name. e = Some name \<and> \<not> skips_entry keep w name")
    case False
    then have "sweep_entries X pol keep now age es w s = (w', s')"
      using Cons.prems(3) by (cases e) auto
    from Cons.IH [OF Cons.prems(1,2) this] show ?thesis .
  next
    case True
    then obtain name where e: "e = Some name" and n: "\<not> skips_entry keep w name" by blast
    obtain b rms s1 where r: "prune_job_dir X pol now age name (pause X s) = (b, rms, s1)"
      by (metis prod.exhaust)
    have g0: "gone_only s (pause X s)" using q by (intro gone_only_refl) simp_all
    have g1: "gone_only s s1" and nm: "\<forall>rm \<in> set rms. rm_name rm = name"
      using prune_job_dir_gone [OF q r] gone_only_trans [OF g0] by blast+
    have pn: "P (to_ascii_lowercase name)" using n Cons.prems(2) by (simp add: skips_entry_def)
    have sw: "sweep_entries X pol keep now age es
        (w\<lparr>sw_removed := (if b then Suc (sw_removed w) else sw_removed w), sw_log := sw_log w @ rms\<rparr>) s1 = (w', s')"
      using Cons.prems(3) r e n by simp
    have "\<forall>rm \<in> set (sw_log w @ rms). P (to_ascii_lowercase (rm_name rm))" using Cons.prems(1) nm pn by auto
    with Cons.IH [OF _ _ sw] have "gone_only s1 s' \<and> (\<forall>rm \<in> set (sw_log w'). P (to_ascii_lowercase (rm_name rm)))"
      using Cons.prems(2) by simp
    then show ?thesis using gone_only_trans [OF g1] by blast
  qed
qed

lemma gc_gone:
  assumes q: "quiet X" and d: "docs_apart s" and r: "gc_workspaces X pol keep s = (c, rms, s')"
  shows "gone_only s s' \<and> spares s rms"
proof (cases "\<exists>es. wx_listing X = Some (Inr es)")
  case False
  then have "rms = [] \<and> s' = s"
    using r by (auto simp: gc_workspaces_def split: option.splits sum.splits)
  then show ?thesis by (simp add: gone_only_refl spares_def)
next
  case True
  then obtain es where es: "wx_listing X = Some (Inr es)" by blast
  let ?w0 = "\<lparr>sw_claimed = [], sw_unreadable = [], sw_removed = 0, sw_log = []\<rparr>"
  obtain w1 s1 where t: "sweep_tracked X pol keep (tracking_files s) ?w0 s = (w1, s1)" by (rule prod.exhaust)
  have tf: "\<forall>key \<in> set (tracking_files s). fst key \<noteq> JOB_LEASES_DIR" by (auto simp: tracking_files_def)
  have 1: "gone_only s s1" "spares s (sw_log w1)" "claims_leased s (tracking_files s) w1"
    using sweep_tracked_gone [OF q d tf _ t] by (simp_all add: spares_def)
  show ?thesis
  proof (cases "gp_job_max_age pol")
    case None
    then show ?thesis using r es t 1 by (simp add: gc_workspaces_def)
  next
    case (Some age)
    obtain w2 s2 where e: "sweep_entries X pol keep (wr_now s1) age es w1 s1 = (w2, s2)" by (rule prod.exhaust)
    have res: "rms = sw_log w2" "s' = s2" using r es t Some e by (simp_all add: gc_workspaces_def)
    define P where "P n \<longleftrightarrow> (\<forall>a b u. a \<noteq> JOB_LEASES_DIR \<longrightarrow> Repo_Lease a b \<in> set (wr_mine s) \<longrightarrow> load_tracking (a, b) s = Ok (Some u)
        \<longrightarrow> n \<noteq> to_ascii_lowercase (tc_pipeline_directory u))" for n
    have "\<forall>rm \<in> set (sw_log w1). P (to_ascii_lowercase (rm_name rm))"
      using 1(2) by (simp add: spares_def P_def)
    moreover have "\<forall>n. n \<notin> set (sw_claimed w1) \<longrightarrow> P n"
      using 1(3) doc_is_listed by (fastforce simp: P_def claims_leased_def)
    ultimately have 2: "gone_only s1 s2" "\<forall>rm \<in> set (sw_log w2). P (to_ascii_lowercase (rm_name rm))"
      using sweep_entries_gone [OF q _ _ e, of P] by simp_all
    show ?thesis using gone_only_trans [OF 1(1) 2(1)] 2(2) res by (simp add: spares_def P_def)
  qed
qed

lemma prepare_inv:
  assumes p: "prepare_workspace X m d repo clean job_id s = (q, s')" and i: "jobs_inv s js"
  shows "jobs_inv s' (case q of Inr w \<Rightarrow> w # js | Inl _ \<Rightarrow> js)"
proof -
  have f: "jobs_inv s'' (prepare_fresh X d job_id # js)" if "jobs_inv s'' js" for s''
    using that by (simp add: jobs_inv_def prepare_fresh_def Let_def job_holds_def held_by_def List.map_filter_simps)
  show ?thesis
  proof (cases "if m then Option.bind repo parse_repository else None")
    case None
    then show ?thesis using p f [OF i] by (auto simp: prepare_workspace_def)
  next
    case (Some r)
    then have o: "rp_owner r \<noteq> JOB_LEASES_DIR" by (auto split: if_splits bind_splits dest: parse_owner)
    obtain e s1 where ps: "prepare_stable X d r clean s = (e, s1)" by (rule prod.exhaust)
    note k = prepare_stable_inv [OF ps i o]
    show ?thesis
      using p [unfolded prepare_workspace_def Some] ps k f [of s1] by (auto split: sum.splits option.splits)
  qed
qed

lemma jobs_reach_inv: "jobs_reach X s js \<Longrightarrow> quiet X \<Longrightarrow> jobs_inv s js"
proof (induction rule: jobs_reach.induct)
  case (reach_start es jl n i)
  show ?case by (simp add: jobs_inv_def docs_apart_def load_tracking_def held_by_def List.map_filter_simps)
next
  case (reach_prepare s js stable_mode data_dir repo clean job_id p s')
  then show ?case using prepare_inv [OF reach_prepare.hyps(2)] by simp
next
  case (reach_refused s js stable_mode data_dir repo clean job_id e s')
  then show ?case using prepare_inv [OF reach_refused.hyps(2)] by simp
next
  case (reach_create s xs p ys r p' s')
  then show ?case using create_dirs_inv by blast
next
  case (reach_end s xs p ys)
  then show ?case using drop_inv by blast
next
  case (reach_sweep s js pol keep r rms s')
  then have i: "jobs_inv s js" by blast
  then have "docs_apart s" by (simp add: jobs_inv_def)
  then show ?case using gc_gone [OF reach_sweep.prems _ reach_sweep.hyps(2)] gone_only_inv [OF _ i] by blast
next
  case (reach_damage s js a b e)
  then have i: "jobs_inv s js" by blast
  let ?s = "s\<lparr>wr_tracking := index_insert (a, b) (Tracking_Json e) (wr_tracking s)\<rparr>"
  have l: "load_tracking k ?s = (if k = (a, b) then Err (Json_Failure e) else load_tracking k s)" for k
    by (simp add: load_tracking_def)
  have "docs_apart ?s" using i unfolding jobs_inv_def docs_apart_def l by (auto split: if_splits)
  moreover have "job_holds ?s p" if p: "p \<in> set js" for p
  proof (rule job_holds_mono)
    show "job_holds s p" using i p by (simp add: jobs_inv_def)
    show "pw_lease p \<noteq> Some (Repo_Lease a b)" using job_lease_mine [OF i p] reach_damage.hyps(2) by blast
  qed (auto simp: l)
  ultimately show ?case using i by (simp add: jobs_inv_def)
next
  case (reach_passes s js es jl n)
  then show ?case by (simp add: jobs_inv_def docs_apart_def job_holds_def load_tracking_def)
qed



definition ws_example_externs :: workspace_externs where
  "ws_example_externs =
     \<lparr>wx_root = [''/'', ''w''], wx_between = \<lambda>_ s. s, wx_listing = Some (Ok [Some ''x'', Some ''old'', Some ''_t'']),
      wx_outputs_error = \<lambda>_. None, wx_lease_error = \<lambda>_. None, wx_save_error = \<lambda>_ _. None, wx_body_error = \<lambda>_. None,
      wx_remove_error = \<lambda>_. None, wx_create_error = \<lambda>_. None\<rparr>"

definition ws_example_root :: "nat \<Rightarrow> work_root" where
  "ws_example_root now =
     \<lparr>wr_entries = [(''old'', \<lparr>we_is_dir = Some True, we_mtime = Some 0, we_children = []\<rparr>)], wr_tracking = [], wr_job_leases = [],
      wr_held = [], wr_mine = [], wr_now = now, wr_step = 0\<rparr>"

definition ws_example_policy :: gc_policy where
  "ws_example_policy = \<lparr>gp_data_dir = ''/d'', gp_job_max_age = Some 3600, gp_stable_max_age = Some 3600\<rparr>"

text \<open>A job of \<open>a/x\<close> and one of \<open>b/x\<close> beside it, and the first one over.\<close>

definition ws_example_first :: "(runner_error, prepared_workspace) result \<times> work_root" where
  "ws_example_first = prepare_workspace ws_example_externs True ''/d'' (Some ''a/x'') None ''j1'' (ws_example_root 1000000000)"

definition ws_example_second :: "(runner_error, prepared_workspace) result \<times> work_root" where
  "ws_example_second = prepare_workspace ws_example_externs True ''/d'' (Some ''b/X'') None ''j2'' (snd ws_example_first)"

lemma new_tracking_unrolled:
  "new_tracking X r s =
     (let n = rp_name r; ok = (\<lambda>c. Ok (new_tracking_config (full_name r) n c))
      in if is_free_name s n then ok n else if is_free_name s (n @ ''_2'') then ok (n @ ''_2'')
         else (case find (is_free_name s) (map (\<lambda>i. n @ ''_'' @ show_nat i) [3 ..< MAX_SUFFIX + 1]) of
                 Some c \<Rightarrow> ok c
               | None \<Rightarrow> Err (init_error (path_join (wx_root X) (components n)) ''no free pipeline directory name'')))"
proof -
  have "[2 ..< MAX_SUFFIX + 1] = 2 # [3 ..< MAX_SUFFIX + 1]"
    unfolding MAX_SUFFIX_def by (subst upt_conv_Cons) simp_all
  moreover have "show_nat 2 = ''2''" by code_simp
  ultimately show ?thesis
    by (simp add: new_tracking_def candidate_names_def Let_def)
qed

lemma ws_example_leaves:
  "parse_repository ''a/x'' = Some \<lparr>rp_owner = ''a'', rp_name = ''x''\<rparr>" "parse_repository ''b/X'' = Some \<lparr>rp_owner = ''b'', rp_name = ''X''\<rparr>"
  "to_ascii_lowercase ''x'' = ''x''" "to_ascii_lowercase ''X'' = ''x''" "to_ascii_lowercase ''X_2'' = ''x_2''"
  "to_ascii_lowercase MAPPING_DIR = ''_pipelinemapping''" "''b'' \<noteq> JOB_LEASES_DIR" "''a'' \<noteq> JOB_LEASES_DIR"
  by code_simp+

lemmas ws_example_defs =
  ws_example_externs_def ws_example_root_def prepare_workspace_def prepare_stable_def acquire_lease_def try_acquire_def open_lease_def release_def
  save_tracking_def current_tracking_def load_tracking_def new_tracking_unrolled is_free_name_def claimed_directories_def tracking_files_def
  new_tracking_config_def repo_key_def Let_def List.map_filter_def ws_example_leaves

lemma ws_example_first:
  "\<exists>p s. ws_example_first = (Ok p, s) \<and> pw_pipeline_name p = ''x'' \<and> pw_kind p = Stable_Workspace
     \<and> (\<exists>t. wr_tracking s = [((''a'', ''x''), Tracking_Doc t)] \<and> tc_pipeline_directory t = ''x'') \<and> wr_held s = []
     \<and> wr_mine s = [Repo_Lease ''a'' ''x''] \<and> wr_entries s = wr_entries (ws_example_root 0)"
  unfolding ws_example_first_def by (simp add: ws_example_defs)

lemma ws_example_second:
  "\<exists>p s. ws_example_second = (Ok p, s) \<and> pw_pipeline_name p = ''X_2'' \<and> pw_kind p = Stable_Workspace"
proof -
  obtain p s t where f: "ws_example_first = (Ok p, s)" "wr_tracking s = [((''a'', ''x''), Tracking_Doc t)]" "tc_pipeline_directory t = ''x''"
    "wr_held s = []" "wr_mine s = [Repo_Lease ''a'' ''x'']" "wr_entries s = wr_entries (ws_example_root 0)"
    using ws_example_first by blast
  show ?thesis unfolding ws_example_second_def by (simp add: ws_example_defs f)
qed

lemma ws_example_quiet: "quiet ws_example_externs"
  by (simp add: quiet_def ws_example_externs_def)

lemma ws_example_reach: "jobs_reach ws_example_externs (snd ws_example_first) [projr (fst ws_example_first)]"
proof -
  obtain p s where f: "ws_example_first = (Ok p, s)" using ws_example_first by blast
  have "jobs_reach ws_example_externs (ws_example_root 1000000000) []"
    unfolding ws_example_root_def by (rule reach_start)
  from reach_prepare [OF this f [unfolded ws_example_first_def]] show ?thesis by (simp add: f)
qed


text \<open>Later: the job of \<open>a/x\<close> still runs, a directory without a lease file has grown old.\<close>

definition ws_example_later :: work_root where
  "ws_example_later = (snd ws_example_first)\<lparr>wr_entries := wr_entries (ws_example_root 0), wr_job_leases := [], wr_now := 10000000000000\<rparr>"

lemmas ws_gc_defs =
  gc_workspaces_def tracking_files_def prune_job_dir_def skips_entry_def starts_with_def pause_def is_stale_dir_def remove_target_def
  delete_entry_def prune_stable_def stable_eligible_def is_stale_unix_def now_unix_def try_acquire_def open_lease_def release_def remove_both_def
  load_tracking_def same_path_def ws_example_externs_def ws_example_root_def ws_example_policy_def

lemma ws_example_leaves2:
  "to_ascii_lowercase ''old'' = ''old''" "to_ascii_lowercase ''_t'' = ''_t''" by code_simp+

lemma ws_example_later_log:
  "map rm_name (fst (snd (gc_workspaces ws_example_externs ws_example_policy ''keep'' ws_example_later))) = [''old'']"
proof -
  obtain p s t where f: "ws_example_first = (Ok p, s)" "wr_tracking s = [((''a'', ''x''), Tracking_Doc t)]" "tc_pipeline_directory t = ''x''"
    "wr_held s = []" "wr_mine s = [Repo_Lease ''a'' ''x'']" "wr_entries s = wr_entries (ws_example_root 0)"
    using ws_example_first by blast
  show ?thesis
    by (simp add: ws_gc_defs ws_example_later_def f ws_example_leaves ws_example_leaves2 Let_def)
qed


text \<open>Later still: the job is over and the workspace of \<open>a/x\<close> is old too.\<close>

definition ws_example_old :: work_root where
  "ws_example_old =
     (ws_example_root 10000000000000)\<lparr>wr_tracking :=
        [((''a'', ''x''), Tracking_Doc ((new_tracking_config ''a/x'' ''x'' ''x'')\<lparr>tc_last_run_on_unix := 1, tc_data_dir := ''/d''\<rparr>))]\<rparr>"

lemma ws_example_usable:
  "is_usable_for ''a/x'' ((new_tracking_config ''a/x'' ''x'' ''x'')\<lparr>tc_last_run_on_unix := n, tc_data_dir := d\<rparr>)"
proof -
  have "is_usable_for ''a/x'' (new_tracking_config ''a/x'' ''x'' ''x'')" by code_simp
  then show ?thesis by (simp add: is_usable_for_def)
qed

lemma ws_example_old_log:
  "map rm_name (fst (snd (gc_workspaces ws_example_externs ws_example_policy ''keep'' ws_example_old))) = [''x'', ''old'']"
  using ws_example_usable [of "''/d''" 1] ws_example_leaves(8)
  by (simp add: ws_gc_defs ws_example_old_def new_tracking_config_def ws_example_leaves ws_example_leaves2 Let_def)


text \<open>A job id of two dots keeps them, so the fresh workspace of such a job would be the parent of the work root.\<close>

lemma fresh_workspace_of_dots: "pw_workspace (prepare_fresh ws_example_externs data_dir ''..'') = [''/'', ''w'', ''..'']"
proof -
  have "path_join [''/'', ''w''] (components (sanitize_job_id ''..'')) = [''/'', ''w'', ''..'']" by code_simp
  then show ?thesis by (simp add: prepare_fresh_def ws_example_externs_def Let_def)
qed

end
