(* ===== verification/Orphan_Cleanup.thy ===== *)
theory Orphan_Cleanup
  imports Step_Context "HOL-Library.Word" "HOL-Library.Multiset"
begin

text \<open>
  The sweep of orphan processes at the end of a job (\<open>crates/execution/src/execution/orphan_cleanup.rs\<close>): what ties a process
  to a job, the scan, the verified kill, the wait for the killed processes and the report.

  The host is a parameter: the process table, the group of a process, the clock and the answer to a signal, at each step, given the signals
  sent so far. Every look at the host is a step. The sweep keeps a snapshot of the table as sysinfo does, refreshed in whole or for some processes.
\<close>

subsection \<open>What ties a process to a job\<close>

type_synonym pid = "32 word"

definition TRACKING_ENV :: string where "TRACKING_ENV = ''RUNNER_TRACKING_ID''"
definition PROCESS_CLEAN_VARIABLE :: string where "PROCESS_CLEAN_VARIABLE = ''process.clean''"
definition START_SLACK_SECS :: nat where "START_SLACK_SECS = 2"
definition ORPHAN_CLEANUP_TIMEOUT :: nat where "ORPHAN_CLEANUP_TIMEOUT = 15"
definition U64_MAX :: nat where "U64_MAX = 2 ^ 64 - 1"

record tracked_group =
  tg_id :: pid
  tg_leader_start :: "nat option"

record process_tracking =
  pt_id :: string
  pt_started :: nat
  pt_groups :: "tracked_group list"

definition process_clean_enabled :: "(string \<times> string) list \<Rightarrow> bool" where
  "process_clean_enabled variables \<longleftrightarrow>
     \<not> list_ex (\<lambda>(key, v). eq_ignore_ascii_case key PROCESS_CLEAN_VARIABLE \<and> eq_ignore_ascii_case (trim v) ''false'') variables"

text \<open>Unix seconds; a clock before the epoch (\<open>None\<close>) lets no process match by its group.\<close>

definition started_secs :: "nat option \<Rightarrow> nat" where
  "started_secs now = (case now of Some t \<Rightarrow> t | None \<Rightarrow> U64_MAX)"

definition tracking_for_job :: "string \<Rightarrow> nat option \<Rightarrow> (string \<times> string) list \<Rightarrow> process_tracking option" where
  "tracking_for_job uuid now variables =
     (if process_clean_enabled variables then Some \<lparr>pt_id = ''github_'' @ uuid, pt_started = started_secs now, pt_groups = []\<rparr> else None)"

text \<open>\<open>envs\<close> are the changes a command makes to its environment, \<open>None\<close> a removal; \<open>start\<close> is the leader's start time if it still runs.\<close>

definition register_group :: "(string \<times> string option) list \<Rightarrow> pid \<Rightarrow> nat option \<Rightarrow> process_tracking \<Rightarrow> process_tracking" where
  "register_group envs grp start t =
     (if list_ex (\<lambda>(key, v). key = TRACKING_ENV \<and> (case v of Some v \<Rightarrow> eq_ignore_ascii_case v (pt_id t) | None \<Rightarrow> False)) envs
      then t\<lparr>pt_groups := pt_groups t @ [\<lparr>tg_id = grp, tg_leader_start = start\<rparr>]\<rparr> else t)"

definition release_if_empty :: "(pid \<Rightarrow> bool) \<Rightarrow> pid \<Rightarrow> process_tracking \<Rightarrow> process_tracking" where
  "release_if_empty group_is_empty grp t =
     (if group_is_empty grp then t\<lparr>pt_groups := filter (\<lambda>g. tg_id g \<noteq> grp) (pt_groups t)\<rparr> else t)"

text \<open>An entry without an equals sign has no key.\<close>

definition entry_carries :: "string \<Rightarrow> string \<Rightarrow> bool" where
  "entry_carries tracking_id entry \<longleftrightarrow>
     (case split_once_char (CHR ''='') entry of
        Some (key, v) \<Rightarrow> key = TRACKING_ENV \<and> eq_ignore_ascii_case v tracking_id
      | None \<Rightarrow> False)"

definition carries_id :: "string list \<Rightarrow> string \<Rightarrow> bool" where
  "carries_id environ tracking_id \<longleftrightarrow> list_ex (entry_carries tracking_id) environ"

subsection \<open>The host\<close>

record os_process =
  op_start :: nat
  op_environ :: "string list"
  op_user :: "string option"
  op_is_thread :: bool
  op_is_zombie :: bool
  op_name :: string

type_synonym process_table = "(pid \<times> os_process) list"

datatype evidence = By_Environment | By_Group

record candidate =
  cd_pid :: pid
  cd_start :: nat
  cd_name :: string
  cd_evidence :: evidence

text \<open>A signal sent, with the step at which its process was looked at, the snapshot then and the group it was found in.\<close>

record kill =
  kl_candidate :: candidate
  kl_step :: nat
  kl_system :: process_table
  kl_group :: "pid option"

record host =
  hs_table :: "nat \<Rightarrow> kill list \<Rightarrow> process_table"
  hs_group :: "nat \<Rightarrow> pid \<Rightarrow> pid option"
  hs_now :: "nat \<Rightarrow> nat"
  hs_signal :: "nat \<Rightarrow> pid \<Rightarrow> bool option"

record sweep_state =
  ss_system :: process_table
  ss_step :: nat
  ss_kills :: "kill list"
  ss_refused :: "pid list"

definition tick :: "sweep_state \<Rightarrow> sweep_state" where
  "tick s = s\<lparr>ss_step := Suc (ss_step s)\<rparr>"

definition clock_now :: "host \<Rightarrow> sweep_state \<Rightarrow> nat \<times> sweep_state" where
  "clock_now H s = (hs_now H (ss_step s), tick s)"

definition refresh_all :: "host \<Rightarrow> sweep_state \<Rightarrow> sweep_state" where
  "refresh_all H s = tick (s\<lparr>ss_system := hs_table H (ss_step s) (ss_kills s)\<rparr>)"

definition refresh_one :: "process_table \<Rightarrow> pid \<Rightarrow> process_table \<Rightarrow> process_table" where
  "refresh_one table pid system =
     (case map_of table pid of Some p \<Rightarrow> (pid, p) # filter (\<lambda>e. fst e \<noteq> pid) system | None \<Rightarrow> filter (\<lambda>e. fst e \<noteq> pid) system)"

definition refresh_some :: "host \<Rightarrow> pid list \<Rightarrow> sweep_state \<Rightarrow> sweep_state" where
  "refresh_some H pids s =
     tick (s\<lparr>ss_system := fold (refresh_one (hs_table H (ss_step s) (ss_kills s))) pids (ss_system s)\<rparr>)"

definition process_group :: "host \<Rightarrow> pid \<Rightarrow> sweep_state \<Rightarrow> pid option \<times> sweep_state" where
  "process_group H pid s = (if uint pid < 2 ^ 31 then (hs_group H (ss_step s) pid, tick s) else (None, s))"

subsection \<open>The scan\<close>

definition group_owned :: "process_table \<Rightarrow> tracked_group \<Rightarrow> bool" where
  "group_owned system g \<longleftrightarrow>
     (case map_of system (tg_id g) of None \<Rightarrow> True | Some leader \<Rightarrow> tg_leader_start g = Some (op_start leader))"

text \<open>The group of the process as it is now, if it is one of the job's.\<close>

definition owned_group_of :: "host \<Rightarrow> pid \<Rightarrow> process_tracking \<Rightarrow> sweep_state \<Rightarrow> pid option \<times> sweep_state" where
  "owned_group_of H pid t s =
     (case process_group H pid s of
        (None, s) \<Rightarrow> (None, s)
      | (Some g, s) \<Rightarrow> (map_option tg_id (find (\<lambda>x. tg_id x = g \<and> group_owned (ss_system s) x) (pt_groups t)), s))"

definition saturating_add :: "nat \<Rightarrow> nat \<Rightarrow> nat" where
  "saturating_add a b = min (a + b) U64_MAX"

definition in_tracked_group ::
  "host \<Rightarrow> pid \<times> os_process \<Rightarrow> process_tracking \<Rightarrow> string option \<Rightarrow> sweep_state \<Rightarrow> bool \<times> sweep_state" where
  "in_tracked_group H pp t own_uid s =
     (if pt_groups t \<noteq> [] \<and> saturating_add (op_start (snd pp)) START_SLACK_SECS \<ge> pt_started t
         \<and> own_uid \<noteq> None \<and> op_user (snd pp) = own_uid
      then (case owned_group_of H (fst pp) t s of (g, s) \<Rightarrow> (g \<noteq> None, s))
      else (False, s))"

definition evidence_of ::
  "host \<Rightarrow> process_tracking \<Rightarrow> string option \<Rightarrow> pid \<times> os_process \<Rightarrow> sweep_state \<Rightarrow> evidence option \<times> sweep_state" where
  "evidence_of H t own_uid pp s =
     (if carries_id (op_environ (snd pp)) (pt_id t) then (Some By_Environment, s)
      else (case in_tracked_group H pp t own_uid s of (b, s) \<Rightarrow> (if b then Some By_Group else None, s)))"

fun scan_processes ::
  "host \<Rightarrow> process_tracking \<Rightarrow> pid \<Rightarrow> string option \<Rightarrow> process_table \<Rightarrow> sweep_state \<Rightarrow> (candidate list \<times> bool) \<times> sweep_state" where
  "scan_processes H t own_pid own_uid [] s = (([], False), s)"
| "scan_processes H t own_pid own_uid ((pid, p) # ps) s =
     (if pid = own_pid
      then (case scan_processes H t own_pid own_uid ps s of ((cs, _), s) \<Rightarrow> ((cs, True), s))
      else if op_is_thread p \<or> op_is_zombie p then scan_processes H t own_pid own_uid ps s
      else (case evidence_of H t own_uid (pid, p) s of
              (None, s) \<Rightarrow> scan_processes H t own_pid own_uid ps s
            | (Some e, s) \<Rightarrow>
                (case scan_processes H t own_pid own_uid ps s of
                   ((cs, seen), s) \<Rightarrow>
                     ((\<lparr>cd_pid = pid, cd_start = op_start p, cd_name = op_name p, cd_evidence = e\<rparr> # cs, seen), s))))"

definition scan_candidates :: "host \<Rightarrow> process_tracking \<Rightarrow> pid \<Rightarrow> sweep_state \<Rightarrow> (candidate list \<times> bool) \<times> sweep_state" where
  "scan_candidates H t own_pid s =
     (let s = refresh_all H s
      in scan_processes H t own_pid (Option.bind (map_of (ss_system s) own_pid) op_user) (ss_system s) s)"

subsection \<open>The verified kill\<close>

datatype kill_outcome = Kill_Sent | Kill_Skipped | Kill_Failed

definition still_tied ::
  "host \<Rightarrow> process_tracking \<Rightarrow> candidate \<Rightarrow> os_process \<Rightarrow> sweep_state \<Rightarrow> (bool \<times> pid option) \<times> sweep_state" where
  "still_tied H t c p s =
     (case cd_evidence c of
        By_Environment \<Rightarrow> ((carries_id (op_environ p) (pt_id t), None), s)
      | By_Group \<Rightarrow> (case owned_group_of H (cd_pid c) t s of (g, s) \<Rightarrow> ((g \<noteq> None, g), s)))"

text \<open>For a match by group the leader of the group is refreshed too.\<close>

definition kill_targets :: "host \<Rightarrow> candidate \<Rightarrow> sweep_state \<Rightarrow> pid list \<times> sweep_state" where
  "kill_targets H c s =
     (if cd_evidence c = By_Group
      then (case process_group H (cd_pid c) s of (g, s) \<Rightarrow> (cd_pid c # (case g of Some g \<Rightarrow> [g] | None \<Rightarrow> []), s))
      else ([cd_pid c], s))"

definition kill_verified :: "host \<Rightarrow> process_tracking \<Rightarrow> candidate \<Rightarrow> sweep_state \<Rightarrow> kill_outcome \<times> sweep_state" where
  "kill_verified H t c s =
     (case kill_targets H c s of
        (targets, s) \<Rightarrow>
          (let looked = ss_step s; s = refresh_some H targets s
           in case map_of (ss_system s) (cd_pid c) of
                None \<Rightarrow> (Kill_Skipped, s)
              | Some p \<Rightarrow>
                  (case still_tied H t c p s of
                     ((tied, g), s) \<Rightarrow>
                       if op_start p \<noteq> cd_start c \<or> \<not> tied then (Kill_Skipped, s)
                       else (case hs_signal H (ss_step s) (cd_pid c) of
                               Some True \<Rightarrow> (Kill_Sent, tick (s\<lparr>ss_kills := ss_kills s @ [\<lparr>kl_candidate = c, kl_step = looked, kl_system = ss_system s, kl_group = g\<rparr>]\<rparr>))
                             | _ \<Rightarrow> (Kill_Failed, tick (s\<lparr>ss_refused := ss_refused s @ [cd_pid c]\<rparr>))))))"

subsection \<open>The sweep\<close>

record attempts =
  at_tried :: "(pid \<times> evidence) list"
  at_done :: "pid list"

fun attempts_fresh :: "candidate list \<Rightarrow> attempts \<Rightarrow> candidate list \<times> attempts" where
  "attempts_fresh [] a = ([], a)"
| "attempts_fresh (c # cs) a =
     (if cd_pid c \<in> set (at_done a) \<or> (cd_pid c, cd_evidence c) \<in> set (at_tried a) then attempts_fresh cs a
      else (case attempts_fresh cs (a\<lparr>at_tried := (cd_pid c, cd_evidence c) # at_tried a\<rparr>) of (fs, a) \<Rightarrow> (c # fs, a)))"

definition attempts_finish :: "pid \<Rightarrow> attempts \<Rightarrow> attempts" where
  "attempts_finish p a = a\<lparr>at_done := p # at_done a\<rparr>"

record cleanup_report =
  cr_terminated :: "pid list"
  cr_survivors :: "pid list"
  cr_timed_out :: bool
  cr_degraded :: bool
  cr_failed :: bool

definition empty_report :: cleanup_report where
  "empty_report = \<lparr>cr_terminated = [], cr_survivors = [], cr_timed_out = False, cr_degraded = False, cr_failed = False\<rparr>"

record progress =
  pg_attempts :: attempts
  pg_killed :: "candidate list"
  pg_report :: cleanup_report

definition out_of_time :: "progress \<Rightarrow> progress" where
  "out_of_time g = g\<lparr>pg_report := (pg_report g)\<lparr>cr_timed_out := True\<rparr>\<rparr>"

definition record_outcome :: "candidate \<Rightarrow> kill_outcome \<Rightarrow> progress \<Rightarrow> progress" where
  "record_outcome c out g =
     (case out of
        Kill_Sent \<Rightarrow> g\<lparr>pg_attempts := attempts_finish (cd_pid c) (pg_attempts g), pg_killed := pg_killed g @ [c]\<rparr>
      | Kill_Skipped \<Rightarrow> g
      | Kill_Failed \<Rightarrow>
          g\<lparr>pg_attempts := attempts_finish (cd_pid c) (pg_attempts g),
            pg_report := (pg_report g)\<lparr>cr_survivors := cr_survivors (pg_report g) @ [cd_pid c]\<rparr>\<rparr>)"

text \<open>The candidates of one pass; true when the deadline stops it.\<close>

fun kill_pass :: "host \<Rightarrow> process_tracking \<Rightarrow> nat \<Rightarrow> candidate list \<Rightarrow> progress \<Rightarrow> sweep_state \<Rightarrow> bool \<times> progress \<times> sweep_state" where
  "kill_pass H t deadline [] g s = (False, g, s)"
| "kill_pass H t deadline (c # cs) g s =
     (case clock_now H s of
        (now, s) \<Rightarrow>
          if now \<ge> deadline then (True, out_of_time g, s)
          else (case kill_verified H t c s of (out, s) \<Rightarrow> kill_pass H t deadline cs (record_outcome c out g) s))"

lemma attempts_fresh_grows:
  "attempts_fresh cs a = (fs, a') \<Longrightarrow> set (at_tried a) \<subseteq> set (at_tried a') \<and> (fs \<noteq> [] \<longrightarrow> set (at_tried a) \<subset> set (at_tried a'))"
  by (induction cs arbitrary: a fs) (fastforce split: if_splits prod.splits)+

lemma kill_pass_tried: "kill_pass H t deadline cs g s = (b, g', s') \<Longrightarrow> at_tried (pg_attempts g') = at_tried (pg_attempts g)"
  by (induction cs arbitrary: g s)
    (auto simp: out_of_time_def record_outcome_def attempts_finish_def split: prod.splits if_splits kill_outcome.splits)

instantiation evidence :: finite
begin

instance
proof
  have "(UNIV :: evidence set) = {By_Environment, By_Group}" using evidence.exhaust by auto
  then show "finite (UNIV :: evidence set)" by (metis finite.emptyI finite.insertI)
qed

end

lemma pass_shrinks:
  assumes f: "attempts_fresh cs (pg_attempts g) = (fresh, a)" and n: "fresh \<noteq> []"
    and k: "kill_pass H t deadline fresh (g\<lparr>pg_attempts := a, pg_report := r\<rparr>) s = (b, g', s')"
  shows "card (UNIV - set (at_tried (pg_attempts g'))) < card (UNIV - set (at_tried (pg_attempts g)))"
proof -
  have "set (at_tried (pg_attempts g)) \<subset> set (at_tried a)" using attempts_fresh_grows [OF f] n by simp
  moreover have "at_tried (pg_attempts g') = at_tried a" using kill_pass_tried [OF k] by simp
  ultimately have "UNIV - set (at_tried (pg_attempts g')) \<subset> UNIV - set (at_tried (pg_attempts g))" by auto
  then show ?thesis by (rule psubset_card_mono [OF finite])
qed

text \<open>Passes until one finds nothing new: there are finitely many processes and kinds of evidence to try.\<close>

function kill_passes :: "host \<Rightarrow> process_tracking \<Rightarrow> pid \<Rightarrow> nat \<Rightarrow> progress \<Rightarrow> sweep_state \<Rightarrow> progress \<times> sweep_state" where
  "kill_passes H t own_pid deadline g s =
     (case clock_now H s of
        (now, s) \<Rightarrow>
          if now \<ge> deadline then (out_of_time g, s)
          else (case scan_candidates H t own_pid s of
                  ((cs, seen), s) \<Rightarrow>
                    (case attempts_fresh cs (pg_attempts g) of
                       (fresh, a) \<Rightarrow>
                         (let g = g\<lparr>pg_attempts := a, pg_report := (pg_report g)\<lparr>cr_degraded := cr_degraded (pg_report g) \<or> \<not> seen\<rparr>\<rparr>
                          in if fresh = [] then (g, s)
                             else (case kill_pass H t deadline fresh g s of
                                     (stop, g, s) \<Rightarrow> if stop then (g, s) else kill_passes H t own_pid deadline g s)))))"
  by pat_completeness auto
termination
  by (relation "measure (\<lambda>(H, t, own_pid, deadline, g, s). card (UNIV - set (at_tried (pg_attempts g))))")
    (simp, hypsubst_thin, simp only: in_measure prod.case, rule pass_shrinks [OF sym _ sym], assumption+)

declare kill_passes.simps [simp del]

definition has_exited :: "host \<Rightarrow> pid \<Rightarrow> nat option \<Rightarrow> sweep_state \<Rightarrow> bool \<times> sweep_state" where
  "has_exited H p start s =
     (let s = refresh_some H [p] s
      in (case map_of (ss_system s) p of
            None \<Rightarrow> True
          | Some q \<Rightarrow> op_is_zombie q \<or> (case start of Some t \<Rightarrow> t \<noteq> op_start q | None \<Rightarrow> False), s))"

text \<open>One poll: those still there, and the report with those that are gone.\<close>

fun poll_exits :: "host \<Rightarrow> candidate list \<Rightarrow> cleanup_report \<Rightarrow> sweep_state \<Rightarrow> candidate list \<times> cleanup_report \<times> sweep_state" where
  "poll_exits H [] r s = ([], r, s)"
| "poll_exits H (c # cs) r s =
     (case has_exited H (cd_pid c) (Some (cd_start c)) s of
        (True, s) \<Rightarrow> poll_exits H cs (r\<lparr>cr_terminated := cr_terminated r @ [cd_pid c]\<rparr>) s
      | (False, s) \<Rightarrow> (case poll_exits H cs r s of (ps, r, s) \<Rightarrow> (c # ps, r, s)))"

text \<open>Polls until all are gone or the deadline has passed; each wait reads the clock again.\<close>

partial_function (option) wait_loop :: "host \<Rightarrow> nat \<Rightarrow> candidate list \<Rightarrow> cleanup_report \<Rightarrow> sweep_state \<Rightarrow> (cleanup_report \<times> sweep_state) option" where
  "wait_loop H deadline pending r s =
     (case poll_exits H pending r s of
        (pending, r, s) \<Rightarrow>
          if pending = [] then Some (r, s)
          else (case clock_now H s of
                  (now, s) \<Rightarrow>
                    if now \<ge> deadline
                    then Some (r\<lparr>cr_timed_out := True, cr_survivors := cr_survivors r @ map cd_pid pending\<rparr>, s)
                    else wait_loop H deadline pending r (snd (clock_now H s))))"

declare wait_loop.simps [code]

text \<open>A last look at the survivors.\<close>

fun settle_survivors :: "host \<Rightarrow> pid list \<Rightarrow> cleanup_report \<Rightarrow> sweep_state \<Rightarrow> cleanup_report \<times> sweep_state" where
  "settle_survivors H [] r s = (r, s)"
| "settle_survivors H (p # ps) r s =
     (case has_exited H p None s of
        (True, s) \<Rightarrow> settle_survivors H ps (r\<lparr>cr_terminated := cr_terminated r @ [p]\<rparr>) s
      | (False, s) \<Rightarrow> settle_survivors H ps (r\<lparr>cr_survivors := cr_survivors r @ [p]\<rparr>) s)"

definition wait_for_exit :: "host \<Rightarrow> nat \<Rightarrow> candidate list \<Rightarrow> cleanup_report \<Rightarrow> sweep_state \<Rightarrow> (cleanup_report \<times> sweep_state) option" where
  "wait_for_exit H deadline pending r s =
     map_option (\<lambda>(r, s). settle_survivors H (cr_survivors r) (r\<lparr>cr_survivors := []\<rparr>) s) (wait_loop H deadline pending r s)"

definition sweep_start :: "nat \<Rightarrow> sweep_state" where
  "sweep_start n = \<lparr>ss_system = [], ss_step = n, ss_kills = [], ss_refused = []\<rparr>"

definition sweep_blocking :: "host \<Rightarrow> process_tracking \<Rightarrow> pid \<Rightarrow> nat \<Rightarrow> nat \<Rightarrow> (cleanup_report \<times> sweep_state) option" where
  "sweep_blocking H t own_pid deadline n =
     (case kill_passes H t own_pid deadline \<lparr>pg_attempts = \<lparr>at_tried = [], at_done = []\<rparr>, pg_killed = [], pg_report = empty_report\<rparr> (sweep_start n) of
        (g, s) \<Rightarrow> wait_for_exit H deadline (pg_killed g) (pg_report g) s)"

subsection \<open>The report\<close>

definition HEADER :: string where "HEADER = ''Cleaning up orphan processes''"

definition show_pids :: "pid list \<Rightarrow> string" where
  "show_pids ps = ''['' @ join_str '', '' (map (show_nat \<circ> unat) ps) @ '']''"

definition report_warnings :: "cleanup_report \<Rightarrow> string list" where
  "report_warnings r =
     (if cr_failed r then [''Orphan process cleanup did not complete; see the runner diagnostics log.''] else [])
     @ (if cr_degraded r then [''Orphan process cleanup could not enumerate processes on this host.''] else [])
     @ (if cr_timed_out r then [''Orphan process cleanup stopped after '' @ show_nat ORPHAN_CLEANUP_TIMEOUT @ ''s.''] else [])
     @ (if cr_survivors r \<noteq> [] then [''Orphan processes still running after cleanup: '' @ show_pids (cr_survivors r)] else [])"

datatype sweep_join = Joined cleanup_report | Join_Failed | Join_Elapsed

text \<open>The lines a sweep puts in the job's log, given the kills made until the thread is joined or the backstop passes.\<close>

definition joined_report :: "sweep_join \<Rightarrow> cleanup_report" where
  "joined_report j =
     (case j of Joined r \<Rightarrow> r | Join_Failed \<Rightarrow> empty_report\<lparr>cr_failed := True\<rparr> | Join_Elapsed \<Rightarrow> empty_report\<lparr>cr_timed_out := True\<rparr>)"

definition sweep_log :: "candidate list \<Rightarrow> sweep_join \<Rightarrow> string list" where
  "sweep_log killed j =
     HEADER
     # map (\<lambda>c. ''Terminate orphan process: pid ('' @ show_nat (unat (cd_pid c)) @ '') ('' @ cd_name c @ '')'') killed
     @ map (\<lambda>w. ''##[warning]'' @ w) (report_warnings (joined_report j))"

subsection \<open>Every signal is verified\<close>

text \<open>
  A signal is right when it is not to the runner itself, and at the step just before it the host had a process of that number, the very
  one the scan found, that carried the id, or that sits in a group of the job whose leader is gone or is the one registered.
\<close>

definition verified_kill :: "host \<Rightarrow> process_tracking \<Rightarrow> kill list \<Rightarrow> kill \<Rightarrow> bool" where
  "verified_kill H t before k \<longleftrightarrow>
     (\<exists>p. map_of (hs_table H (kl_step k) before) (cd_pid (kl_candidate k)) = Some p
        \<and> op_start p = cd_start (kl_candidate k)
        \<and> (case cd_evidence (kl_candidate k) of
             By_Environment \<Rightarrow> carries_id (op_environ p) (pt_id t)
           | By_Group \<Rightarrow> (\<exists>x \<in> set (pt_groups t). kl_group k = Some (tg_id x) \<and> group_owned (kl_system k) x)))"

definition kills_verified :: "host \<Rightarrow> process_tracking \<Rightarrow> pid \<Rightarrow> kill list \<Rightarrow> bool" where
  "kills_verified H t own_pid ks \<longleftrightarrow>
     (\<forall>i < length ks. cd_pid (kl_candidate (ks ! i)) \<noteq> own_pid \<and> verified_kill H t (take i ks) (ks ! i))"

lemma kills_verified_snoc:
  "kills_verified H t o' ks \<Longrightarrow> cd_pid (kl_candidate k) \<noteq> o' \<Longrightarrow> verified_kill H t ks k \<Longrightarrow> kills_verified H t o' (ks @ [k])"
  by (auto simp: kills_verified_def nth_append less_Suc_eq)

lemma refresh_one_lookup: "map_of (refresh_one table p system) q = (if q = p then map_of table p else map_of system q)"
proof -
  have "map_of (filter (\<lambda>e. fst e \<noteq> p) system) q = (if q = p then None else map_of system q)"
    by (induction system) auto
  then show ?thesis by (auto simp: refresh_one_def split: option.splits)
qed

lemma refresh_some_lookup:
  "map_of (fold (refresh_one table) ps system) q = (if q \<in> set ps then map_of table q else map_of system q)"
  by (induction ps arbitrary: system) (auto simp: refresh_one_lookup)

definition quiet_step :: "sweep_state \<Rightarrow> sweep_state \<Rightarrow> bool" where
  "quiet_step s s' \<longleftrightarrow> ss_kills s' = ss_kills s \<and> ss_refused s' = ss_refused s \<and> ss_step s \<le> ss_step s'"

lemma quiet_step_refl [simp]: "quiet_step s s"
  by (simp add: quiet_step_def)

lemma quiet_step_trans: "quiet_step s s' \<Longrightarrow> quiet_step s' s'' \<Longrightarrow> quiet_step s s''"
  by (auto simp: quiet_step_def)

lemma quiet_refresh [simp]: "quiet_step s (refresh_some H ps s)" "quiet_step s (refresh_all H s)"
  by (simp_all add: quiet_step_def refresh_some_def refresh_all_def tick_def)

lemma quiet_clock: "clock_now H s = (n, s') \<Longrightarrow> quiet_step s s' \<and> ss_step s' = Suc (ss_step s) \<and> n = hs_now H (ss_step s)"
  by (auto simp: clock_now_def quiet_step_def tick_def)

lemma quiet_group: "process_group H p s = (g, s') \<Longrightarrow> quiet_step s s' \<and> ss_system s' = ss_system s"
  by (auto simp: process_group_def quiet_step_def tick_def split: if_splits)

lemma owned_group_effect:
  assumes "owned_group_of H p t s = (g, s')"
  shows "quiet_step s s' \<and> ss_system s' = ss_system s \<and> (\<forall>i. g = Some i \<longrightarrow> (\<exists>x \<in> set (pt_groups t). tg_id x = i \<and> group_owned (ss_system s') x))"
proof -
  obtain h s1 where h: "process_group H p s = (h, s1)" by (rule prod.exhaust)
  show ?thesis
    using assms h quiet_group [OF h]
    by (auto simp: owned_group_of_def find_Some_iff split: option.splits) (metis nth_mem)
qed

lemma quiet_evidence: "evidence_of H t u pp s = (e, s') \<Longrightarrow> quiet_step s s'"
  by (auto simp: evidence_of_def in_tracked_group_def split: if_splits prod.splits dest: owned_group_effect)

lemma scan_processes_effect:
  "scan_processes H t own u ps s = ((cs, seen), s')
     \<Longrightarrow> quiet_step s s' \<and> (\<forall>c \<in> set cs. cd_pid c \<noteq> own \<and> cd_pid c \<in> set (map fst ps))
       \<and> (distinct (map fst ps) \<longrightarrow> distinct (map cd_pid cs))"
proof (induction H t own u ps s arbitrary: cs seen s' rule: scan_processes.induct)
  case (1 H t own u s)
  then show ?case by simp
next
  case (2 H t own u p q ps s)
  show ?case
  proof (cases "p = own")
    case True
    then obtain b where "scan_processes H t own u ps s = ((cs, b), s')"
      using "2.prems" by (auto split: prod.splits)
    from "2.IH"(1) [OF True this] show ?thesis by auto
  next
    case False
    show ?thesis
    proof (cases "op_is_thread q \<or> op_is_zombie q")
      case True
      then have "scan_processes H t own u ps s = ((cs, seen), s')"
        using "2.prems" False by auto
      from "2.IH"(2) [OF False True this] show ?thesis by auto
    next
      case n: False
      obtain e s1 where e: "evidence_of H t u (p, q) s = (e, s1)" by (rule prod.exhaust)
      note q1 = quiet_evidence [OF e]
      show ?thesis
      proof (cases e)
        case None
        then have "scan_processes H t own u ps s1 = ((cs, seen), s')"
          using "2.prems" False n e by auto
        from "2.IH"(3) [OF False n e [symmetric] None this] show ?thesis
          using quiet_step_trans [OF q1] by auto
      next
        case (Some ev)
        obtain ds b s2 where r: "scan_processes H t own u ps s1 = ((ds, b), s2)" by (metis prod.exhaust)
        have cs: "cs = \<lparr>cd_pid = p, cd_start = op_start q, cd_name = op_name q, cd_evidence = ev\<rparr> # ds" "s' = s2"
          using "2.prems" False n e Some r by auto
        from "2.IH"(4) [OF False n e [symmetric] Some r] show ?thesis
          using quiet_step_trans [OF q1] False by (auto simp: cs)
      qed
    qed
  qed
qed

definition one_entry_each :: "host \<Rightarrow> bool" where
  "one_entry_each H \<longleftrightarrow> (\<forall>n ks. distinct (map fst (hs_table H n ks)))"

lemma scan_candidates_effect:
  assumes "scan_candidates H t own s = ((cs, seen), s')"
  shows "quiet_step s s' \<and> (\<forall>c \<in> set cs. cd_pid c \<noteq> own) \<and> (one_entry_each H \<longrightarrow> distinct (map cd_pid cs))"
  using scan_processes_effect [OF assms [unfolded scan_candidates_def Let_def]] quiet_step_trans [OF quiet_refresh(2) [of s H]]
  by (auto simp: one_entry_each_def refresh_all_def tick_def)

lemma kill_targets_effect:
  "kill_targets H c s = (ts, s') \<Longrightarrow> quiet_step s s' \<and> cd_pid c \<in> set ts"
  by (auto simp: kill_targets_def split: if_splits prod.splits option.splits dest: quiet_group)

lemma still_tied_effect:
  assumes "still_tied H t c p s = ((b, g), s')"
  shows "quiet_step s s' \<and> ss_system s' = ss_system s
    \<and> (b \<longrightarrow> (case cd_evidence c of By_Environment \<Rightarrow> carries_id (op_environ p) (pt_id t)
           | By_Group \<Rightarrow> (\<exists>x \<in> set (pt_groups t). g = Some (tg_id x) \<and> group_owned (ss_system s') x)))"
proof (cases "cd_evidence c")
  case By_Environment
  then show ?thesis using assms by (simp add: still_tied_def)
next
  case By_Group
  obtain h s1 where h: "owned_group_of H (cd_pid c) t s = (h, s1)" by (rule prod.exhaust)
  show ?thesis using assms By_Group h owned_group_effect [OF h] by (auto simp: still_tied_def)
qed

lemma kill_verified_effect:
  assumes "kill_verified H t c s = (out, s')"
  shows "case out of
      Kill_Sent \<Rightarrow> (\<exists>k. ss_kills s' = ss_kills s @ [k] \<and> kl_candidate k = c \<and> verified_kill H t (ss_kills s) k) \<and> ss_refused s' = ss_refused s
    | Kill_Skipped \<Rightarrow> ss_kills s' = ss_kills s \<and> ss_refused s' = ss_refused s
    | Kill_Failed \<Rightarrow> ss_kills s' = ss_kills s \<and> ss_refused s' = ss_refused s @ [cd_pid c]"
proof -
  obtain ts s1 where ts: "kill_targets H c s = (ts, s1)" by (rule prod.exhaust)
  have q1: "ss_kills s1 = ss_kills s" "ss_refused s1 = ss_refused s" and m: "cd_pid c \<in> set ts"
    using kill_targets_effect [OF ts] by (simp_all add: quiet_step_def)
  let ?s2 = "refresh_some H ts s1"
  have q2: "ss_kills ?s2 = ss_kills s" "ss_refused ?s2 = ss_refused s"
    using q1 by (simp_all add: refresh_some_def tick_def)
  have l: "map_of (ss_system ?s2) (cd_pid c) = map_of (hs_table H (ss_step s1) (ss_kills s)) (cd_pid c)"
    using m q1 by (simp add: refresh_some_def tick_def refresh_some_lookup)
  show ?thesis
  proof (cases "map_of (ss_system ?s2) (cd_pid c)")
    case None
    then show ?thesis using assms ts q2 by (auto simp: kill_verified_def Let_def)
  next
    case (Some p)
    obtain b g s3 where st: "still_tied H t c p ?s2 = ((b, g), s3)" by (metis prod.exhaust)
    note e = still_tied_effect [OF st]
    have q3: "ss_kills s3 = ss_kills s" "ss_refused s3 = ss_refused s" using e q2 by (simp_all add: quiet_step_def)
    show ?thesis
    proof (cases "op_start p \<noteq> cd_start c \<or> \<not> b")
      case True
      then show ?thesis using assms ts Some st q3 by (auto simp: kill_verified_def Let_def)
    next
      case False
      then have "verified_kill H t (ss_kills s) \<lparr>kl_candidate = c, kl_step = ss_step s1, kl_system = ss_system s3, kl_group = g\<rparr>"
      proof -
        have mp: "map_of (hs_table H (ss_step s1) (ss_kills s)) (cd_pid c) = Some p" using l Some by simp
        show ?thesis
          unfolding verified_kill_def by (rule exI [of _ p]) (use mp False e in \<open>cases "cd_evidence c"; simp\<close>)
      qed
      then show ?thesis
        using assms ts Some st q3 False by (auto simp: kill_verified_def Let_def tick_def split: option.splits bool.splits)
    qed
  qed
qed


text \<open>What holds after every step of the passes.\<close>

definition sweep_inv :: "host \<Rightarrow> process_tracking \<Rightarrow> pid \<Rightarrow> progress \<Rightarrow> sweep_state \<Rightarrow> bool" where
  "sweep_inv H t own g s \<longleftrightarrow>
     kills_verified H t own (ss_kills s) \<and> map kl_candidate (ss_kills s) = pg_killed g
     \<and> ss_refused s = cr_survivors (pg_report g) \<and> cr_terminated (pg_report g) = []"

definition attempted_once :: "progress \<Rightarrow> bool" where
  "attempted_once g \<longleftrightarrow>
     distinct (map cd_pid (pg_killed g) @ cr_survivors (pg_report g))
     \<and> set (map cd_pid (pg_killed g) @ cr_survivors (pg_report g)) = set (at_done (pg_attempts g))"

lemma sweep_inv_quiet: "sweep_inv H t own g s \<Longrightarrow> quiet_step s s' \<Longrightarrow> sweep_inv H t own g s'"
  by (simp add: sweep_inv_def quiet_step_def)

lemma out_of_time_inv [simp]:
  "sweep_inv H t own (out_of_time g) s = sweep_inv H t own g s" "attempted_once (out_of_time g) = attempted_once g"
  by (simp_all add: sweep_inv_def attempted_once_def out_of_time_def)

lemma kill_step_inv:
  assumes i: "sweep_inv H t own g s" and k: "kill_verified H t c s = (out, s')" and n: "cd_pid c \<noteq> own"
  shows "sweep_inv H t own (record_outcome c out g) s'"
proof (cases out)
  case Kill_Sent
  obtain k where k: "ss_kills s' = ss_kills s @ [k]" "kl_candidate k = c" "verified_kill H t (ss_kills s) k" "ss_refused s' = ss_refused s"
    using kill_verified_effect [OF k] Kill_Sent by auto
  then have "kills_verified H t own (ss_kills s')"
    using i n by (auto simp: sweep_inv_def intro: kills_verified_snoc)
  then show ?thesis using i k Kill_Sent by (simp add: sweep_inv_def record_outcome_def)
next
  case Kill_Skipped
  then show ?thesis using kill_verified_effect [OF k] i by (simp add: sweep_inv_def record_outcome_def)
next
  case Kill_Failed
  then show ?thesis using kill_verified_effect [OF k] i by (simp add: sweep_inv_def record_outcome_def)
qed

lemma record_outcome_once:
  "attempted_once g \<Longrightarrow> cd_pid c \<notin> set (at_done (pg_attempts g)) \<Longrightarrow> attempted_once (record_outcome c out g)"
  by (cases out) (auto simp: attempted_once_def record_outcome_def attempts_finish_def)

lemma record_outcome_done: "set (at_done (pg_attempts (record_outcome c out g))) \<subseteq> insert (cd_pid c) (set (at_done (pg_attempts g)))"
  by (cases out) (auto simp: record_outcome_def attempts_finish_def)

lemma kill_pass_inv:
  "kill_pass H t deadline cs g s = (b, g', s') \<Longrightarrow> sweep_inv H t own g s \<Longrightarrow> \<forall>c \<in> set cs. cd_pid c \<noteq> own
     \<Longrightarrow> sweep_inv H t own g' s'
       \<and> (attempted_once g \<longrightarrow> distinct (map cd_pid cs) \<longrightarrow> set (map cd_pid cs) \<inter> set (at_done (pg_attempts g)) = {} \<longrightarrow> attempted_once g')"
proof (induction cs arbitrary: g s)
  case Nil
  then show ?case by simp
next
  case (Cons c cs)
  obtain n s1 where c: "clock_now H s = (n, s1)" by (rule prod.exhaust)
  have i1: "sweep_inv H t own g s1" using sweep_inv_quiet [OF Cons.prems(2)] quiet_clock [OF c] by blast
  show ?case
  proof (cases "n \<ge> deadline")
    case True
    then have "g' = out_of_time g" "s' = s1" using Cons.prems(1) c by simp_all
    then show ?thesis using i1 by simp
  next
    case False
    obtain out s2 where k: "kill_verified H t c s1 = (out, s2)" by (rule prod.exhaust)
    have i2: "sweep_inv H t own (record_outcome c out g) s2"
      using kill_step_inv [OF i1 k] Cons.prems(3) by simp
    have p: "kill_pass H t deadline cs (record_outcome c out g) s2 = (b, g', s')"
      using Cons.prems(1) c False k by simp
    have "set (map cd_pid cs) \<inter> set (at_done (pg_attempts (record_outcome c out g))) = {}"
      if "distinct (map cd_pid (c # cs))" "set (map cd_pid (c # cs)) \<inter> set (at_done (pg_attempts g)) = {}"
    proof -
      have "cd_pid c \<notin> set (map cd_pid cs)" "set (map cd_pid cs) \<inter> set (at_done (pg_attempts g)) = {}" using that by auto
      then show ?thesis using record_outcome_done [of c out g] by blast
    qed
    moreover have "sweep_inv H t own g' s'
       \<and> (attempted_once (record_outcome c out g) \<longrightarrow> distinct (map cd_pid cs)
          \<longrightarrow> set (map cd_pid cs) \<inter> set (at_done (pg_attempts (record_outcome c out g))) = {} \<longrightarrow> attempted_once g')"
      using Cons.IH [OF p i2] Cons.prems(3) by simp
    ultimately show ?thesis
      using record_outcome_once [of g c out] by simp
  qed
qed

lemma attempts_fresh_effect:
  "attempts_fresh cs a = (fs, a') \<Longrightarrow> set fs \<subseteq> set cs \<and> at_done a' = at_done a \<and> (\<forall>c \<in> set fs. cd_pid c \<notin> set (at_done a))
     \<and> (distinct (map cd_pid cs) \<longrightarrow> distinct (map cd_pid fs))"
proof (induction cs arbitrary: a fs a')
  case (Cons c cs)
  show ?case
  proof (cases "cd_pid c \<in> set (at_done a) \<or> (cd_pid c, cd_evidence c) \<in> set (at_tried a)")
    case True
    then have "attempts_fresh cs a = (fs, a')" using Cons.prems by auto
    from Cons.IH [OF this] show ?thesis by auto
  next
    case False
    obtain gs b where r: "attempts_fresh cs (a\<lparr>at_tried := (cd_pid c, cd_evidence c) # at_tried a\<rparr>) = (gs, b)" by (rule prod.exhaust)
    have "fs = c # gs" "a' = b" using Cons.prems False r by auto
    then show ?thesis using Cons.IH [OF r] False by auto
  qed
qed simp

lemma kill_passes_inv:
  "kill_passes H t own deadline g s = (g', s') \<Longrightarrow> sweep_inv H t own g s
     \<Longrightarrow> sweep_inv H t own g' s' \<and> (one_entry_each H \<longrightarrow> attempted_once g \<longrightarrow> attempted_once g')"
proof (induction H t own deadline g s rule: kill_passes.induct)
  case (1 H t own deadline g s)
  obtain n s1 where c: "clock_now H s = (n, s1)" by (rule prod.exhaust)
  have i1: "sweep_inv H t own g s1" using sweep_inv_quiet [OF "1.prems"(2)] quiet_clock [OF c] by blast
  show ?case
  proof (cases "n \<ge> deadline")
    case True
    then have "g' = out_of_time g" "s' = s1"
      using "1.prems"(1) c by (simp_all add: kill_passes.simps [of H t own deadline g s])
    then show ?thesis using i1 by simp
  next
    case False
    obtain cs seen s2 where sc: "scan_candidates H t own s1 = ((cs, seen), s2)" by (metis prod.exhaust)
    note se = scan_candidates_effect [OF sc]
    obtain fs a where af: "attempts_fresh cs (pg_attempts g) = (fs, a)" by (rule prod.exhaust)
    note ae = attempts_fresh_effect [OF af]
    define g1 where "g1 = g\<lparr>pg_attempts := a, pg_report := (pg_report g)\<lparr>cr_degraded := cr_degraded (pg_report g) \<or> \<not> seen\<rparr>\<rparr>"
    have i2: "sweep_inv H t own g1 s2" 
    proof -
      have "sweep_inv H t own g s2" by (rule sweep_inv_quiet [OF i1]) (use se in blast)
      then show ?thesis by (simp add: sweep_inv_def g1_def)
    qed
    have o2: "attempted_once g \<Longrightarrow> attempted_once g1" using ae by (simp add: attempted_once_def g1_def)
    show ?thesis
    proof (cases "fs = []")
      case True
      then have "g' = g1" "s' = s2"
        using "1.prems"(1) c False sc af by (simp_all add: kill_passes.simps [of H t own deadline g s] g1_def)
      then show ?thesis using i2 o2 by simp
    next
      case ne: False
      obtain b g2 s3 where kp: "kill_pass H t deadline fs g1 s2 = (b, g2, s3)" by (metis prod.exhaust)
      have nown: "\<forall>c \<in> set fs. cd_pid c \<noteq> own" using se ae by blast
      have i3: "sweep_inv H t own g2 s3" and
        o3: "one_entry_each H \<Longrightarrow> attempted_once g \<Longrightarrow> attempted_once g2"
        using kill_pass_inv [OF kp i2 nown] o2 se ae by (auto simp: g1_def)
      show ?thesis
      proof (cases b)
        case True
        then have "g' = g2" "s' = s3"
          using "1.prems"(1) c False sc af ne kp by (simp_all add: kill_passes.simps [of H t own deadline g s] g1_def)
        then show ?thesis using i3 o3 by simp
      next
        case nb: False
        then have r: "kill_passes H t own deadline g2 s3 = (g', s')"
          using "1.prems"(1) c False sc af ne kp by (simp add: kill_passes.simps [of H t own deadline g s] g1_def)
        from "1.IH" [OF c [symmetric] False sc [symmetric] refl af [symmetric] g1_def ne kp [symmetric] refl nb r i3]
        show ?thesis using o3 by blast
      qed
    qed
  qed
qed

lemma has_exited_quiet: "has_exited H p t s = (b, s') \<Longrightarrow> quiet_step s s'"
  by (auto simp: has_exited_def Let_def)

lemma poll_exits_effect:
  "poll_exits H cs r s = (ps, r', s') \<Longrightarrow> quiet_step s s' \<and> cr_survivors r' = cr_survivors r
     \<and> mset (cr_terminated r' @ map cd_pid ps) = mset (cr_terminated r @ map cd_pid cs)"
proof (induction cs arbitrary: r s ps)
  case Nil
  then show ?case by simp
next
  case (Cons c cs)
  obtain b s1 where h: "has_exited H (cd_pid c) (Some (cd_start c)) s = (b, s1)" by (rule prod.exhaust)
  note q = has_exited_quiet [OF h]
  show ?case
  proof (cases b)
    case True
    then have "poll_exits H cs (r\<lparr>cr_terminated := cr_terminated r @ [cd_pid c]\<rparr>) s1 = (ps, r', s')"
      using Cons.prems h by simp
    from Cons.IH [OF this] show ?thesis using quiet_step_trans [OF q] by simp
  next
    case False
    then obtain qs where "poll_exits H cs r s1 = (qs, r', s')" "ps = c # qs"
      using Cons.prems h by (auto split: prod.splits)
    then show ?thesis using Cons.IH quiet_step_trans [OF q] by fastforce
  qed
qed

lemma settle_effect:
  "settle_survivors H ps r s = (r', s') \<Longrightarrow> quiet_step s s' \<and> mset (cr_terminated r' @ cr_survivors r') = mset (cr_terminated r @ cr_survivors r @ ps)"
proof (induction ps arbitrary: r s)
  case Nil
  then show ?case by simp
next
  case (Cons p ps)
  obtain b s1 where h: "has_exited H p None s = (b, s1)" by (rule prod.exhaust)
  note q = has_exited_quiet [OF h]
  show ?case
  proof (cases b)
    case True
    then have "settle_survivors H ps (r\<lparr>cr_terminated := cr_terminated r @ [p]\<rparr>) s1 = (r', s')"
      using Cons.prems h by simp
    from Cons.IH [OF this] show ?thesis using quiet_step_trans [OF q] by simp
  next
    case False
    then have "settle_survivors H ps (r\<lparr>cr_survivors := cr_survivors r @ [p]\<rparr>) s1 = (r', s')"
      using Cons.prems h by simp
    from Cons.IH [OF this] show ?thesis using quiet_step_trans [OF q] by simp
  qed
qed

lemma wait_loop_effect:
  assumes "wait_loop H deadline pending r s = Some x"
  shows "quiet_step s (snd x) \<and> mset (cr_terminated (fst x) @ cr_survivors (fst x)) = mset (cr_terminated r @ cr_survivors r @ map cd_pid pending)"
proof (rule wait_loop.raw_induct [where P = "\<lambda>H deadline pending r s x. quiet_step s (snd x)
     \<and> mset (cr_terminated (fst x) @ cr_survivors (fst x)) = mset (cr_terminated r @ cr_survivors r @ map cd_pid pending)", OF _ assms], goal_cases)
  case (1 W H deadline pending r s x)
  obtain ps r1 s1 where p: "poll_exits H pending r s = (ps, r1, s1)" by (metis prod.exhaust)
  note pe = poll_exits_effect [OF p]
  show ?case
  proof (cases "ps = []")
    case True
    then have "x = (r1, s1)" using 1(2) p by simp
    then show ?thesis using pe True by simp
  next
    case False
    obtain n s2 where c: "clock_now H s1 = (n, s2)" by (rule prod.exhaust)
    have q2: "quiet_step s s2" using pe quiet_clock [OF c] quiet_step_trans by blast
    show ?thesis
    proof (cases "n \<ge> deadline")
      case True
      then have "x = (r1\<lparr>cr_timed_out := True, cr_survivors := cr_survivors r1 @ map cd_pid ps\<rparr>, s2)"
        using 1(2) p c \<open>ps \<noteq> []\<close> by simp
      then show ?thesis using pe q2 by simp
    next
      case n: False
      obtain n' s3 where c': "clock_now H s2 = (n', s3)" by (rule prod.exhaust)
      have "W H deadline ps r1 s3 = Some x" using 1(2) p c c' False n by simp
      from 1(1) [OF this] show ?thesis
        using pe quiet_step_trans [OF q2, of s3] quiet_step_trans [of s s3 "snd x"] quiet_clock [OF c'] by (simp add: union_assoc)
    qed
  qed
qed

lemma wait_loop_returns:
  assumes t: "\<And>n. n \<ge> m \<Longrightarrow> hs_now H n \<ge> deadline"
  shows "\<exists>x. wait_loop H deadline pending r s = Some x"
proof (induction "m - ss_step s" arbitrary: pending r s rule: less_induct)
  case less
  obtain ps r1 s1 where p: "poll_exits H pending r s = (ps, r1, s1)" by (metis prod.exhaust)
  obtain n s2 where c: "clock_now H s1 = (n, s2)" by (rule prod.exhaust)
  obtain n' s3 where c': "clock_now H s2 = (n', s3)" by (rule prod.exhaust)
  have le: "ss_step s \<le> ss_step s1" using poll_exits_effect [OF p] by (simp add: quiet_step_def)
  note st = quiet_clock [OF c] quiet_clock [OF c']
  show ?case
  proof (cases "ps = [] \<or> n \<ge> deadline")
    case True
    then show ?thesis using p c by (subst wait_loop.simps) auto
  next
    case False
    then have "ss_step s1 < m" using t [of "ss_step s1"] st by (meson not_less)
    then have "m - ss_step s3 < m - ss_step s" using st le by simp
    from less [OF this, of ps r1] show ?thesis using False p c c' by (subst wait_loop.simps) auto
  qed
qed

definition sweep_result :: "host \<Rightarrow> process_tracking \<Rightarrow> pid \<Rightarrow> nat \<Rightarrow> nat \<Rightarrow> progress \<times> sweep_state" where
  "sweep_result H t own deadline n =
     kill_passes H t own deadline \<lparr>pg_attempts = \<lparr>at_tried = [], at_done = []\<rparr>, pg_killed = [], pg_report = empty_report\<rparr> (sweep_start n)"

lemma sweep_facts:
  assumes "sweep_blocking H t own deadline n = Some (r, s')"
  obtains g s where "sweep_inv H t own g s" "one_entry_each H \<Longrightarrow> attempted_once g" "ss_kills s' = ss_kills s" "ss_refused s' = ss_refused s"
    "mset (cr_terminated r @ cr_survivors r) = mset (map cd_pid (pg_killed g) @ cr_survivors (pg_report g))"
proof -
  obtain g s where p: "kill_passes H t own deadline \<lparr>pg_attempts = \<lparr>at_tried = [], at_done = []\<rparr>, pg_killed = [], pg_report = empty_report\<rparr> (sweep_start n) = (g, s)"
    by (rule prod.exhaust)
  have i: "sweep_inv H t own g s" and ao: "one_entry_each H \<Longrightarrow> attempted_once g"
    using kill_passes_inv [OF p] by (simp_all add: sweep_inv_def sweep_start_def kills_verified_def empty_report_def attempted_once_def)
  obtain r1 s1 where w: "wait_loop H deadline (pg_killed g) (pg_report g) s = Some (r1, s1)"
    and st: "settle_survivors H (cr_survivors r1) (r1\<lparr>cr_survivors := []\<rparr>) s1 = (r, s')"
    using assms p by (auto simp: sweep_blocking_def wait_for_exit_def)
  note e = wait_loop_effect [OF w] settle_effect [OF st]
  have "ss_kills s' = ss_kills s" "ss_refused s' = ss_refused s" using e by (simp_all add: quiet_step_def)
  moreover have "mset (cr_terminated r @ cr_survivors r) = mset (map cd_pid (pg_killed g) @ cr_survivors (pg_report g))"
    using e i by (simp add: sweep_inv_def)
  ultimately show ?thesis using that i ao by blast
qed


text \<open>
  C18. The report of a sweep lists each process that was signalled, or could not be, exactly once, as terminated or as a survivor, and no other.
\<close>
theorem report_lists_every_attempt_once:
  assumes "one_entry_each H" "sweep_blocking H t own_pid deadline n = Some (r, s)"
  shows "distinct (cr_terminated r @ cr_survivors r)
    \<and> set (cr_terminated r @ cr_survivors r) = set (map (cd_pid \<circ> kl_candidate) (ss_kills s) @ ss_refused s)"
proof -
  obtain g s0 where i: "sweep_inv H t own_pid g s0" and o: "attempted_once g" and k: "ss_kills s = ss_kills s0" "ss_refused s = ss_refused s0"
    and m: "mset (cr_terminated r @ cr_survivors r) = mset (map cd_pid (pg_killed g) @ cr_survivors (pg_report g))"
    using sweep_facts [OF assms(2)] assms(1) by metis
  have "distinct (cr_terminated r @ cr_survivors r)"
    using o mset_eq_imp_distinct_iff [OF m] by (simp add: attempted_once_def)
  moreover have "set (cr_terminated r @ cr_survivors r) = set (map cd_pid (pg_killed g) @ cr_survivors (pg_report g))"
    by (rule mset_eq_setD [OF m])
  moreover have "map cd_pid (map kl_candidate (ss_kills s)) = map cd_pid (pg_killed g)" and sv: "cr_survivors (pg_report g) = ss_refused s"
    using i k by (simp_all only: sweep_inv_def)
  then have "map cd_pid (pg_killed g) = map (cd_pid \<circ> kl_candidate) (ss_kills s)" by (simp only: map_map)
  note this sv
  ultimately show ?thesis by (simp only:)
qed

text \<open>
  C17. The sweep ends: once the clock has passed the deadline for good it returns a report, whatever the processes do and however the scan goes.
\<close>
theorem sweep_returns:
  assumes "\<And>i. m \<le> i \<Longrightarrow> deadline \<le> hs_now H i"
  shows "sweep_blocking H t own_pid deadline n \<noteq> None"
proof -
  obtain g s where p: "kill_passes H t own_pid deadline \<lparr>pg_attempts = \<lparr>at_tried = [], at_done = []\<rparr>, pg_killed = [], pg_report = empty_report\<rparr> (sweep_start n) = (g, s)"
    by (rule prod.exhaust)
  obtain x where "wait_loop H deadline (pg_killed g) (pg_report g) s = Some x"
    using wait_loop_returns [of m deadline H] assms by blast
  then show ?thesis by (simp add: sweep_blocking_def p wait_for_exit_def)
qed

text \<open>A host with the runner, a process of the job that dies at the signal, and a zombie.\<close>

definition oc_example_host :: host where
  "oc_example_host =
     \<lparr>hs_table = \<lambda>n ks.
        (1, \<lparr>op_start = 1, op_environ = [], op_user = Some ''u'', op_is_thread = False, op_is_zombie = False, op_name = ''runner''\<rparr>)
        # (if ks = [] then [(5, \<lparr>op_start = 3, op_environ = [''A=b'', ''RUNNER_TRACKING_ID=GITHUB_X''], op_user = Some ''u'', op_is_thread = False,
             op_is_zombie = False, op_name = ''sleep''\<rparr>)] else [])
        @ [(6, \<lparr>op_start = 4, op_environ = [], op_user = None, op_is_thread = False, op_is_zombie = True, op_name = ''z''\<rparr>)],
      hs_group = \<lambda>_ _. None, hs_now = \<lambda>n. n, hs_signal = \<lambda>_ _. Some True\<rparr>"

definition oc_example_tracking :: process_tracking where
  "oc_example_tracking = \<lparr>pt_id = ''github_x'', pt_started = 2, pt_groups = []\<rparr>"

lemma oc_example_result:
  "map_option (\<lambda>(r, s). (cr_terminated r, cr_survivors r, map (cd_pid \<circ> kl_candidate) (ss_kills s)))
     (sweep_blocking oc_example_host oc_example_tracking 1 40 0) = Some ([5], [], [5])"
  by code_simp


theorem report_lists_every_attempt_once_witness:
  "distinct (cr_terminated (fst (the (sweep_blocking oc_example_host oc_example_tracking 1 40 0)))
     @ cr_survivors (fst (the (sweep_blocking oc_example_host oc_example_tracking 1 40 0))))"
proof -
  obtain r s where s: "sweep_blocking oc_example_host oc_example_tracking 1 40 0 = Some (r, s)"
    using oc_example_result by auto
  have "one_entry_each oc_example_host" by (simp add: one_entry_each_def oc_example_host_def)
  from report_lists_every_attempt_once [OF this s] show ?thesis by (simp add: s)
qed

theorem sweep_returns_witness: "sweep_blocking oc_example_host oc_example_tracking 1 40 0 \<noteq> None"
  by (rule sweep_returns [of 40]) (simp add: oc_example_host_def)

end
