(* ===== verification/Container_Options.thy ===== *)
theory Container_Options
  imports Step_Context
begin

text \<open>
  The declaration of a job or service container (\<open>crates/execution/src/docker/\<close>): the restricted option string
  (\<open>container_options.rs\<close>), its translation to the fields of the Docker create request (\<open>container_create_options.rs\<close>,
  \<open>container_health_options.rs\<close>), the published ports (\<open>container_ports.rs\<close>) and the evaluated declaration
  (\<open>container_spec.rs\<close>, \<open>service_spec.rs\<close>).

  Splitting a text into words as a shell would (the crate \<open>shlex\<close>) is a parameter. Integers of 64 and 128 bits are \<open>int\<close> and \<open>nat\<close>
  with their checked operations written out.
\<close>

subsection \<open>The option string\<close>

definition options_error :: "string \<Rightarrow> runner_error" where
  "options_error m = Config_Error (''invalid job container options: '' @ m)"

definition quoted :: "string \<Rightarrow> string" where
  "quoted flag = ''`'' @ flag @ ''`''"

definition health_value_flags :: "string list" where
  "health_value_flags =
     [''--health-cmd'', ''--health-interval'', ''--health-timeout'', ''--health-retries'', ''--health-start-period'', ''--health-start-interval'']"

definition plain_value_flags :: "string list" where
  "plain_value_flags =
     [''--cpus'', ''--cpu-shares'', ''--cpu-period'', ''--cpu-quota'', ''--cpuset-cpus'', ''--cpuset-mems'', ''--memory'', ''--memory-reservation'',
      ''--memory-swap'', ''--memory-swappiness'', ''--pids-limit'', ''--ulimit'', ''--user'', ''--group-add'', ''--hostname'', ''--domainname'',
      ''--cap-add'', ''--cap-drop'', ''--security-opt'']"

definition value_flag :: "string \<Rightarrow> bool" where
  "value_flag flag \<longleftrightarrow> flag \<in> set plain_value_flags \<or> flag \<in> set health_value_flags"

definition switch_flag :: "string \<Rightarrow> bool" where
  "switch_flag flag \<longleftrightarrow> flag = ''--privileged'' \<or> flag = ''--read-only'' \<or> flag = ''--no-healthcheck''"

definition reserved_flag :: "string \<Rightarrow> bool" where
  "reserved_flag flag \<longleftrightarrow>
     flag \<in> set [''--name'', ''--network'', ''--net'', ''--entrypoint'', ''--workdir'', ''--volume'', ''--mount'', ''--tmpfs'', ''--env'', ''--env-file'',
       ''-v'', ''-w'', ''-e'']"

definition split_option :: "string \<Rightarrow> string \<times> string option" where
  "split_option word = (case split_once_char (CHR ''='') word of Some (flag, v) \<Rightarrow> (flag, Some v) | None \<Rightarrow> (word, None))"

definition requires_value :: "string \<Rightarrow> runner_error" where
  "requires_value flag = options_error (''option '' @ quoted flag @ '' requires a value'')"

text \<open>The value of an option, inline or the next word, and the words left.\<close>

definition option_value :: "string \<Rightarrow> string option \<Rightarrow> string list \<Rightarrow> (runner_error, string \<times> string list) result" where
  "option_value flag inline words =
     (case inline of
        Some v \<Rightarrow> if v \<noteq> [] then Ok (v, words) else Err (requires_value flag)
      | None \<Rightarrow>
          (case words of
             v # rest \<Rightarrow> if \<not> starts_with v ''--'' then Ok (v, rest) else Err (requires_value flag)
           | [] \<Rightarrow> Err (requires_value flag)))"

definition parse_option :: "string \<Rightarrow> string list \<Rightarrow> (runner_error, string list \<times> string list) result" where
  "parse_option word words =
     (if word = ''--'' \<or> \<not> starts_with word ''-'' \<or> word = ''-'' then Err (options_error ''options must not contain positional arguments'')
      else (case split_option word of
              (flag, inline) \<Rightarrow>
                if reserved_flag flag then Err (options_error (''option '' @ quoted flag @ '' is reserved by the runner''))
                else if value_flag flag then rbind (option_value flag inline words) (\<lambda>(v, rest). Ok ([flag, v], rest))
                else if switch_flag flag \<and> inline = None then Ok ([flag], words)
                else if switch_flag flag then Err (options_error (''option '' @ quoted flag @ '' does not take a value''))
                else Err (options_error (''unsupported container option '' @ quoted flag))))"

lemma parse_option_shorter: "parse_option word words = Inr (argv, rest) \<Longrightarrow> length rest \<le> length words"
  by (auto simp: parse_option_def option_value_def rbind_eq_Ok split: if_splits prod.splits option.splits list.splits)

function parse_words :: "string list \<Rightarrow> (runner_error, string list) result" where
  "parse_words [] = Ok []"
| "parse_words (word # words) =
     (case parse_option word words of
        Inl e \<Rightarrow> Err e
      | Inr (argv, rest) \<Rightarrow> rbind (parse_words rest) (\<lambda>more. Ok (argv @ more)))"
  by pat_completeness auto
termination
  by (relation "measure length") (auto dest: parse_option_shorter simp: le_imp_less_Suc)

definition parse_container_options :: "(string \<Rightarrow> string list option) \<Rightarrow> string \<Rightarrow> (runner_error, string list) result" where
  "parse_container_options shlex_split input =
     (case shlex_split input of
        None \<Rightarrow> Err (options_error ''options contain invalid quoting'')
      | Some words \<Rightarrow> parse_words words)"

subsection \<open>The create request\<close>

record resources_ulimit =
  ul_name :: string
  ul_soft :: int
  ul_hard :: int

record health_config =
  hc_test :: "string list option"
  hc_interval :: "int option"
  hc_timeout :: "int option"
  hc_retries :: "int option"
  hc_start_period :: "int option"
  hc_start_interval :: "int option"

record port_binding =
  pb_host_ip :: string
  pb_host_port :: string

record create_body =
  cb_user :: "string option"
  cb_hostname :: "string option"
  cb_domainname :: "string option"
  cb_privileged :: "bool option"
  cb_readonly_rootfs :: "bool option"
  cb_numbers :: "(string \<times> int) list"
  cb_cpusets :: "(string \<times> string) list"
  cb_lists :: "(string \<times> string list) list"
  cb_ulimits :: "resources_ulimit list option"
  cb_healthcheck :: "health_config option"
  cb_exposed_ports :: "string list option"
  cb_port_bindings :: "(string \<times> port_binding list) list option"

definition checked_i64 :: "int \<Rightarrow> int option" where
  "checked_i64 n = (if - (2 ^ 63) \<le> n \<and> n < 2 ^ 63 then Some n else None)"

definition checked_u128 :: "nat \<Rightarrow> nat option" where
  "checked_u128 n = (if n < 2 ^ 128 then Some n else None)"

text \<open>\<open>str::parse\<close> for \<open>i64\<close>, \<open>u128\<close> and \<open>u16\<close>: an optional sign, digits only, in range.\<close>

definition parse_signed :: "string \<Rightarrow> int option" where
  "parse_signed s =
     (case s of
        [] \<Rightarrow> None
      | c # r \<Rightarrow>
          if c = CHR ''-'' then Option.bind (parse_digits r) (\<lambda>n. checked_i64 (- int n))
          else if c = CHR ''+'' then Option.bind (parse_digits r) (\<lambda>n. checked_i64 (int n))
          else Option.bind (parse_digits s) (\<lambda>n. checked_i64 (int n)))"

definition parse_unsigned :: "string \<Rightarrow> nat option" where
  "parse_unsigned s = parse_digits (case s of c # r \<Rightarrow> if c = CHR ''+'' then r else s | [] \<Rightarrow> [])"

definition parse_option_number :: "string \<Rightarrow> string \<Rightarrow> (runner_error, int) result" where
  "parse_option_number flag v = ok_or (options_error (''option '' @ quoted flag @ '' requires an integer'')) (parse_signed v)"

definition parse_nano_cpus :: "string \<Rightarrow> (runner_error, int) result" where
  "parse_nano_cpus v =
     (case (case split_once_char (CHR ''.'') v of Some parts \<Rightarrow> parts | None \<Rightarrow> (v, [])) of
        (whole, fraction) \<Rightarrow>
          if whole = [] \<or> \<not> list_all is_ascii_digit whole \<or> length fraction > 9 \<or> \<not> list_all is_ascii_digit fraction
          then Err (options_error ''option `--cpus` requires a positive decimal'')
          else rbind (parse_option_number ''--cpus'' whole) (\<lambda>w.
               rbind (parse_option_number ''--cpus'' (fraction @ replicate (9 - length fraction) (CHR ''0''))) (\<lambda>f.
               ok_or (options_error ''option `--cpus` is out of range'')
                 (Option.bind (checked_i64 (w * 1000000000)) (\<lambda>w.
                  Option.bind (checked_i64 (w + f)) (\<lambda>n. if n > 0 then Some n else None))))))"

definition memory_suffix :: "string \<Rightarrow> string \<times> int" where
  "memory_suffix lower =
     (if ends_with lower ''kb'' then (take (length lower - 2) lower, 1024)
      else if ends_with lower ''mb'' then (take (length lower - 2) lower, 1048576)
      else if ends_with lower ''gb'' then (take (length lower - 2) lower, 1073741824)
      else if ends_with lower ''k'' then (take (length lower - 1) lower, 1024)
      else if ends_with lower ''m'' then (take (length lower - 1) lower, 1048576)
      else if ends_with lower ''g'' then (take (length lower - 1) lower, 1073741824)
      else (lower, 1))"

definition parse_memory :: "string \<Rightarrow> string \<Rightarrow> (runner_error, int) result" where
  "parse_memory flag v =
     (case memory_suffix (to_ascii_lowercase v) of
        (number, multiplier) \<Rightarrow>
          rbind (parse_option_number flag number) (\<lambda>n.
            ok_or (options_error (''option '' @ quoted flag @ '' is out of range'')) (checked_i64 (n * multiplier))))"

definition next_value :: "string \<Rightarrow> string list \<Rightarrow> (runner_error, string \<times> string list) result" where
  "next_value flag argv = (case argv of v # rest \<Rightarrow> Ok (v, rest) | [] \<Rightarrow> Err (requires_value flag))"

definition is_health_option :: "string \<Rightarrow> bool" where
  "is_health_option flag \<longleftrightarrow> flag \<in> set health_value_flags \<or> flag = ''--no-healthcheck''"

definition takes_value :: "string \<Rightarrow> bool" where
  "takes_value flag \<longleftrightarrow> flag \<in> set plain_value_flags"

subsection \<open>Durations\<close>

definition duration_units :: "(string \<times> nat) list" where
  "duration_units =
     [(''ns'', 1), (''us'', 1000), ([char_of (194::nat), char_of (181::nat), CHR ''s''], 1000), (''ms'', 1000000), (''s'', 1000000000),
      (''m'', 60000000000), (''h'', 3600000000000)]"

definition duration_unit :: "string \<Rightarrow> (string \<times> nat) option" where
  "duration_unit v = find (\<lambda>(u, _). starts_with v u) duration_units"

definition is_decimal_char :: "char \<Rightarrow> bool" where
  "is_decimal_char c \<longleftrightarrow> is_ascii_digit c \<or> c = CHR ''.''"

definition duration_component :: "string \<Rightarrow> (string \<times> nat \<times> string) option" where
  "duration_component v =
     (let number = takeWhile is_decimal_char v; after = dropWhile is_decimal_char v
      in map_option (\<lambda>(u, multiplier). (number, multiplier, drop (length u) after)) (duration_unit after))"

definition parse_u128 :: "string \<Rightarrow> nat option" where
  "parse_u128 s = Option.bind (parse_unsigned s) checked_u128"

definition checked_power_of_ten :: "nat \<Rightarrow> nat option" where
  "checked_power_of_ten n = fold (\<lambda>_ v. Option.bind v (\<lambda>x. checked_u128 (x * 10))) [0 ..< n] (Some 1)"

definition fraction_nanos :: "string \<Rightarrow> nat \<Rightarrow> nat option" where
  "fraction_nanos fraction unit =
     Option.bind (if fraction = [] then Some 0 else parse_u128 fraction) (\<lambda>numerator.
     Option.bind (checked_power_of_ten (length fraction)) (\<lambda>denominator.
     Option.bind (checked_u128 (numerator * unit)) (\<lambda>n. Some (n div denominator))))"

definition decimal_nanos :: "string \<Rightarrow> nat \<Rightarrow> nat option" where
  "decimal_nanos number unit =
     (case (case split_once_char (CHR ''.'') number of Some parts \<Rightarrow> parts | None \<Rightarrow> (number, [])) of
        (whole, fraction) \<Rightarrow>
          if whole = [] \<and> fraction = [] \<or> length (filter (\<lambda>c. c = CHR ''.'') number) > 1 then None
          else Option.bind (if whole = [] then Some 0 else parse_u128 whole) (\<lambda>w.
               if \<not> list_all is_ascii_digit fraction then None
               else Option.bind (fraction_nanos fraction unit) (\<lambda>f.
                    Option.bind (checked_u128 (w * unit)) (\<lambda>w. checked_u128 (w + f)))))"

definition duration_error :: "string \<Rightarrow> string \<Rightarrow> runner_error" where
  "duration_error flag m = options_error (''option '' @ quoted flag @ m)"

lemma duration_component_shorter: "duration_component v = Some (number, unit, rest) \<Longrightarrow> length rest < length v"
proof -
  assume c: "duration_component v = Some (number, unit, rest)"
  let ?a = "dropWhile is_decimal_char v"
  obtain u where u: "duration_unit ?a = Some (u, unit)" and r: "rest = drop (length u) ?a"
    using c by (auto simp: duration_component_def Let_def)
  have "starts_with ?a u" and "u \<noteq> []"
    using u by (auto simp: duration_unit_def duration_units_def split: if_splits)
  then have "length u \<le> length ?a" "0 < length u" by (auto simp: starts_with_def) (metis length_take min.cobounded1)
  moreover have "length rest = length ?a - length u" "length ?a \<le> length v"
    using r by (simp_all add: length_dropWhile_le)
  ultimately show ?thesis by linarith
qed

function duration_total :: "string \<Rightarrow> string \<Rightarrow> nat \<Rightarrow> (runner_error, nat) result" where
  "duration_total flag rest acc =
     (if rest = [] then Ok acc
      else case duration_component rest of
             None \<Rightarrow> Err (duration_error flag '' requires a Docker duration'')
           | Some (number, unit, following) \<Rightarrow>
               (case decimal_nanos number unit of
                  None \<Rightarrow> Err (duration_error flag '' requires a Docker duration'')
                | Some nanos \<Rightarrow>
                    (case checked_u128 (acc + nanos) of
                       None \<Rightarrow> Err (duration_error flag '' is out of range'')
                     | Some acc \<Rightarrow> duration_total flag following acc)))"
  by pat_completeness auto
termination
  by (relation "measure (\<lambda>(_, rest, _). length rest)") (auto dest: duration_component_shorter)

declare duration_total.simps [simp del]

definition parse_duration :: "string \<Rightarrow> string \<Rightarrow> (runner_error, int) result" where
  "parse_duration flag v =
     (if v = ''0'' then Ok 0
      else if starts_with v ''-'' then Err (duration_error flag '' requires a non-negative Docker duration'')
      else let v = (if starts_with v ''+'' then drop 1 v else v)
           in if v = [] then Err (duration_error flag '' requires a Docker duration'')
              else rbind (duration_total flag v 0) (\<lambda>nanos.
                   rbind (ok_or (duration_error flag '' is out of range'') (checked_i64 (int nanos))) (\<lambda>nanos.
                   if nanos \<noteq> 0 \<and> nanos < 1000000 then Err (duration_error flag '' must be zero or at least 1ms'') else Ok nanos)))"

definition parse_retries :: "string \<Rightarrow> (runner_error, int) result" where
  "parse_retries v =
     ok_or (options_error ''option `--health-retries` requires a non-negative integer'')
       (Option.bind (parse_signed v) (\<lambda>n. if n \<ge> 0 then Some n else None))"

subsection \<open>Applying the options\<close>

definition empty_health :: health_config where
  "empty_health = \<lparr>hc_test = None, hc_interval = None, hc_timeout = None, hc_retries = None, hc_start_period = None, hc_start_interval = None\<rparr>"

definition set_health :: "string \<Rightarrow> string \<Rightarrow> health_config \<Rightarrow> (runner_error, health_config) result" where
  "set_health flag v h =
     (if flag = ''--health-cmd'' then Ok (h\<lparr>hc_test := Some [''CMD-SHELL'', v]\<rparr>)
      else if flag = ''--health-interval'' then rbind (parse_duration flag v) (\<lambda>n. Ok (h\<lparr>hc_interval := Some n\<rparr>))
      else if flag = ''--health-timeout'' then rbind (parse_duration flag v) (\<lambda>n. Ok (h\<lparr>hc_timeout := Some n\<rparr>))
      else if flag = ''--health-retries'' then rbind (parse_retries v) (\<lambda>n. Ok (h\<lparr>hc_retries := Some n\<rparr>))
      else if flag = ''--health-start-period'' then rbind (parse_duration flag v) (\<lambda>n. Ok (h\<lparr>hc_start_period := Some n\<rparr>))
      else if flag = ''--health-start-interval'' then rbind (parse_duration flag v) (\<lambda>n. Ok (h\<lparr>hc_start_interval := Some n\<rparr>))
      else Err (options_error ''unsupported health option''))"

text \<open>The health options among the words: the settings, whether there was one, and whether checks are disabled.\<close>

fun health_options :: "string list \<Rightarrow> health_config \<times> bool \<times> bool \<Rightarrow> (runner_error, health_config \<times> bool \<times> bool) result" where
  "health_options [] a = Ok a"
| "health_options (flag # rest) a =
     (if \<not> is_health_option flag
      then (if takes_value flag then (case rest of [] \<Rightarrow> Err (requires_value flag) | _ # r \<Rightarrow> health_options r a) else health_options rest a)
      else if flag = ''--no-healthcheck'' then health_options rest (fst a, True, True)
      else (case rest of
              [] \<Rightarrow> Err (requires_value flag)
            | v # r \<Rightarrow> rbind (set_health flag v (fst a)) (\<lambda>h. health_options r (h, True, snd (snd a)))))"

definition has_other_settings :: "health_config \<Rightarrow> bool" where
  "has_other_settings h \<longleftrightarrow>
     hc_interval h \<noteq> None \<or> hc_timeout h \<noteq> None \<or> hc_retries h \<noteq> None \<or> hc_start_period h \<noteq> None \<or> hc_start_interval h \<noteq> None \<or> hc_test h \<noteq> None"

definition install_health :: "health_config \<times> bool \<times> bool \<Rightarrow> create_body \<Rightarrow> (runner_error, create_body) result" where
  "install_health a body =
     (case a of
        (h, has, disabled) \<Rightarrow>
          if disabled \<and> has_other_settings h
          then Err (options_error ''option `--no-healthcheck` cannot be combined with other health options'')
          else let h = (if disabled then h\<lparr>hc_test := Some [''NONE'']\<rparr> else h)
               in Ok (if has then body\<lparr>cb_healthcheck := Some h\<rparr> else body))"

definition apply_health_options :: "string list \<Rightarrow> create_body \<Rightarrow> (runner_error, create_body) result" where
  "apply_health_options argv body = rbind (health_options argv (empty_health, False, False)) (\<lambda>a. install_health a body)"

definition set_number :: "string \<Rightarrow> (runner_error, int) result \<Rightarrow> create_body \<Rightarrow> (runner_error, create_body) result" where
  "set_number flag n body = rbind n (\<lambda>n. Ok (body\<lparr>cb_numbers := index_insert flag n (cb_numbers body)\<rparr>))"

definition push_list :: "string \<Rightarrow> string \<Rightarrow> create_body \<Rightarrow> create_body" where
  "push_list flag v body =
     body\<lparr>cb_lists := index_insert flag ((case map_of (cb_lists body) flag of Some vs \<Rightarrow> vs | None \<Rightarrow> []) @ [v]) (cb_lists body)\<rparr>"

definition push_ulimit :: "string \<Rightarrow> create_body \<Rightarrow> (runner_error, create_body) result" where
  "push_ulimit v body =
     (case split_once_char (CHR ''='') v of
        None \<Rightarrow> Err (options_error ''option `--ulimit` must use name=soft:hard'')
      | Some (name, limits) \<Rightarrow>
          (case split_once_char (CHR '':'') limits of
             None \<Rightarrow> Err (options_error ''option `--ulimit` must use name=soft:hard'')
           | Some (soft, hard) \<Rightarrow>
               rbind (parse_option_number ''--ulimit'' soft) (\<lambda>soft.
               rbind (parse_option_number ''--ulimit'' hard) (\<lambda>hard.
               Ok (body\<lparr>cb_ulimits := Some ((case cb_ulimits body of Some ls \<Rightarrow> ls | None \<Rightarrow> []) @ [\<lparr>ul_name = name, ul_soft = soft, ul_hard = hard\<rparr>])\<rparr>)))))"

definition apply_identity :: "string \<Rightarrow> string \<Rightarrow> create_body \<Rightarrow> create_body" where
  "apply_identity flag v body =
     (if flag = ''--user'' then body\<lparr>cb_user := Some v\<rparr>
      else if flag = ''--hostname'' then body\<lparr>cb_hostname := Some v\<rparr>
      else body\<lparr>cb_domainname := Some v\<rparr>)"

definition resource_flags :: "string list" where
  "resource_flags =
     [''--cpus'', ''--cpu-shares'', ''--cpu-period'', ''--cpu-quota'', ''--cpuset-cpus'', ''--cpuset-mems'', ''--memory'', ''--memory-reservation'',
      ''--memory-swap'', ''--memory-swappiness'', ''--pids-limit'']"

definition apply_resource :: "string \<Rightarrow> string \<Rightarrow> create_body \<Rightarrow> (runner_error, create_body) result" where
  "apply_resource flag v body =
     (if flag = ''--cpus'' then set_number flag (parse_nano_cpus v) body
      else if flag \<in> set [''--cpuset-cpus'', ''--cpuset-mems''] then Ok (body\<lparr>cb_cpusets := index_insert flag v (cb_cpusets body)\<rparr>)
      else if flag \<in> set [''--memory'', ''--memory-reservation'', ''--memory-swap''] then set_number flag (parse_memory flag v) body
      else set_number flag (parse_option_number flag v) body)"

definition apply_security :: "string \<Rightarrow> string \<Rightarrow> create_body \<Rightarrow> (runner_error, create_body) result" where
  "apply_security flag v body = (if flag = ''--ulimit'' then push_ulimit v body else Ok (push_list flag v body))"

text \<open>One option that is not about health, and the words left.\<close>

definition apply_option :: "string \<Rightarrow> string list \<Rightarrow> create_body \<Rightarrow> (runner_error, create_body \<times> string list) result" where
  "apply_option flag rest body =
     (if flag = ''--privileged'' then Ok (body\<lparr>cb_privileged := Some True\<rparr>, rest)
      else if flag = ''--read-only'' then Ok (body\<lparr>cb_readonly_rootfs := Some True\<rparr>, rest)
      else if flag \<in> set [''--user'', ''--hostname'', ''--domainname'']
      then rbind (next_value flag rest) (\<lambda>(v, rest). Ok (apply_identity flag v body, rest))
      else if flag \<in> set resource_flags
      then rbind (next_value flag rest) (\<lambda>(v, rest). rbind (apply_resource flag v body) (\<lambda>body. Ok (body, rest)))
      else if flag \<in> set [''--group-add'', ''--cap-add'', ''--cap-drop'', ''--security-opt'', ''--ulimit'']
      then rbind (next_value flag rest) (\<lambda>(v, rest). rbind (apply_security flag v body) (\<lambda>body. Ok (body, rest)))
      else Err (options_error ''unsupported option''))"

lemma apply_option_shorter: "apply_option flag rest body = Inr (b, r) \<Longrightarrow> length r \<le> length rest"
  by (auto simp: apply_option_def next_value_def rbind_eq_Ok split: if_splits list.splits)

function apply_options :: "string list \<Rightarrow> create_body \<Rightarrow> (runner_error, create_body) result" where
  "apply_options [] body = Ok body"
| "apply_options (flag # rest) body =
     (if is_health_option flag
      then (if flag = ''--no-healthcheck'' then apply_options rest body
            else (case rest of [] \<Rightarrow> Err (requires_value flag) | _ # r \<Rightarrow> apply_options r body))
      else (case apply_option flag rest body of
              Inl e \<Rightarrow> Err e
            | Inr (body, r) \<Rightarrow> apply_options r body))"
  by pat_completeness auto
termination
  by (relation "measure (\<lambda>(argv, _). length argv)") (auto dest: apply_option_shorter simp: le_imp_less_Suc)

definition apply_container_options :: "string list \<Rightarrow> create_body \<Rightarrow> (runner_error, create_body) result" where
  "apply_container_options argv body = rbind (apply_health_options argv body) (apply_options argv)"

subsection \<open>Published ports\<close>

definition invalid_port :: runner_error where
  "invalid_port = Docker_Error ''container ports must be [IPv4-address:][host-port:]container-port[/tcp|udp|sctp] with ports 1..65535''"

definition valid_port :: "string \<Rightarrow> bool" where
  "valid_port p \<longleftrightarrow> (case parse_unsigned p of Some n \<Rightarrow> 0 < n \<and> n < 65536 | None \<Rightarrow> False)"

text \<open>\<open>Ipv4Addr\<close>: four decimal numbers up to 255 without leading zeros.\<close>

definition valid_octet :: "string \<Rightarrow> bool" where
  "valid_octet s \<longleftrightarrow>
     length s \<le> 3 \<and> (case parse_digits s of Some n \<Rightarrow> n < 256 | None \<Rightarrow> False) \<and> (s = ''0'' \<or> \<not> starts_with s ''0'')"

definition valid_ipv4 :: "string \<Rightarrow> bool" where
  "valid_ipv4 s \<longleftrightarrow> length (split_char (CHR ''.'') s) = 4 \<and> list_all valid_octet (split_char (CHR ''.'') s)"

definition port_parts :: "string \<Rightarrow> (string \<times> string \<times> string) option" where
  "port_parts mapping =
     (case split_char (CHR '':'') mapping of
        [c] \<Rightarrow> Some ([], [], c)
      | [h, c] \<Rightarrow> Some ([], h, c)
      | [ip, h, c] \<Rightarrow> Some (ip, h, c)
      | _ \<Rightarrow> None)"

definition parse_port :: "string \<Rightarrow> (runner_error, string \<times> port_binding) result" where
  "parse_port port =
     (case (case split_once_char (CHR ''/'') port of Some parts \<Rightarrow> parts | None \<Rightarrow> (port, ''tcp'')) of
        (mapping, protocol) \<Rightarrow>
          if protocol \<notin> set [''tcp'', ''udp'', ''sctp''] then Err invalid_port
          else (case port_parts mapping of
                  None \<Rightarrow> Err invalid_port
                | Some (ip, h, c) \<Rightarrow>
                    if \<not> valid_port c \<or> (h \<noteq> [] \<and> \<not> valid_port h) \<or> (ip \<noteq> [] \<and> \<not> valid_ipv4 ip) then Err invalid_port
                    else Ok (c @ ''/'' @ protocol, \<lparr>pb_host_ip = ip, pb_host_port = h\<rparr>)))"

definition add_binding :: "string \<Rightarrow> port_binding \<Rightarrow> (string \<times> port_binding list) list \<Rightarrow> (string \<times> port_binding list) list" where
  "add_binding key b m = index_insert key ((case map_of m key of Some bs \<Rightarrow> bs | None \<Rightarrow> []) @ [b]) m"

fun collect_ports ::
  "string list \<Rightarrow> string list \<Rightarrow> (string \<times> port_binding list) list \<Rightarrow> (runner_error, string list \<times> (string \<times> port_binding list) list) result" where
  "collect_ports [] exposed bindings = Ok (exposed, bindings)"
| "collect_ports (p # ps) exposed bindings =
     rbind (parse_port p) (\<lambda>(key, b). collect_ports ps (exposed @ [key]) (add_binding key b bindings))"

definition apply_ports :: "string list \<Rightarrow> create_body \<Rightarrow> (runner_error, create_body) result" where
  "apply_ports ports body =
     rbind (collect_ports ports [] []) (\<lambda>(exposed, bindings). Ok (body\<lparr>cb_exposed_ports := Some exposed, cb_port_bindings := Some bindings\<rparr>))"

subsection \<open>The declaration\<close>

record container_credentials =
  cc_username :: string
  cc_password :: string

record container_spec =
  cs_image :: string
  cs_credentials :: "container_credentials option"
  cs_env :: "(string \<times> string) list"
  cs_ports :: "string list"
  cs_volumes :: "string list"
  cs_options :: "string list"

definition spec_error :: "string \<Rightarrow> runner_error" where
  "spec_error m = Config_Error (''invalid job container: '' @ m)"

definition field_type_error :: "string \<Rightarrow> string \<Rightarrow> expr_value \<Rightarrow> runner_error" where
  "field_type_error field expected v =
     spec_error (''container field '' @ quoted field @ '' must be a '' @ expected @ '', got '' @ type_name v)"

text \<open>The fields of an object are a list in the order of its hash map, without duplicate keys.\<close>

type_synonym field_map = "(string \<times> expr_value) list"

definition take_string :: "field_map \<Rightarrow> string \<Rightarrow> (runner_error, string) result" where
  "take_string fs name =
     (case map_of fs name of
        Some (Str v) \<Rightarrow> Ok v
      | None \<Rightarrow> Err (spec_error (''container field '' @ quoted name @ '' is required''))
      | Some Null \<Rightarrow> Ok []
      | Some v \<Rightarrow> Err (field_type_error name ''string'' v))"

definition take_credentials :: "field_map \<Rightarrow> (runner_error, container_credentials option) result" where
  "take_credentials fs =
     (case map_of fs ''credentials'' of
        None \<Rightarrow> Ok None
      | Some Null \<Rightarrow> Ok None
      | Some (Object _ credentials) \<Rightarrow>
          (case find (\<lambda>(key, _). key \<noteq> ''username'' \<and> key \<noteq> ''password'') credentials of
             Some (key, _) \<Rightarrow> Err (spec_error (''unsupported container credentials field '' @ quoted key))
           | None \<Rightarrow>
               rbind (take_string credentials ''username'') (\<lambda>u.
               rbind (take_string credentials ''password'') (\<lambda>p. Ok (Some \<lparr>cc_username = u, cc_password = p\<rparr>))))
      | Some v \<Rightarrow> Err (field_type_error ''credentials'' ''object'' v))"

fun string_entries :: "string \<Rightarrow> field_map \<Rightarrow> (runner_error, (string \<times> string) list) result" where
  "string_entries name [] = Ok []"
| "string_entries name ((key, v) # es) =
     (case v of
        Str s \<Rightarrow> rbind (string_entries name es) (\<lambda>r. Ok ((key, s) # r))
      | _ \<Rightarrow> Err (spec_error (''container field '' @ quoted (name @ ''.'' @ key) @ '' must be a string'')))"

definition take_string_map :: "field_map \<Rightarrow> string \<Rightarrow> (runner_error, (string \<times> string) list) result" where
  "take_string_map fs name =
     (case map_of fs name of
        None \<Rightarrow> Ok []
      | Some Null \<Rightarrow> Ok []
      | Some (Object _ entries) \<Rightarrow> string_entries name entries
      | Some v \<Rightarrow> Err (field_type_error name ''object'' v))"

fun string_items :: "string \<Rightarrow> expr_value list \<Rightarrow> (runner_error, string list) result" where
  "string_items name [] = Ok []"
| "string_items name (v # vs) =
     (case v of
        Str s \<Rightarrow> rbind (string_items name vs) (\<lambda>r. Ok (s # r))
      | _ \<Rightarrow> Err (spec_error (''container field '' @ quoted name @ '' entries must be strings'')))"

definition take_string_list :: "field_map \<Rightarrow> string \<Rightarrow> (runner_error, string list) result" where
  "take_string_list fs name =
     (case map_of fs name of
        None \<Rightarrow> Ok []
      | Some Null \<Rightarrow> Ok []
      | Some (Array _ _ entries) \<Rightarrow> string_items name entries
      | Some v \<Rightarrow> Err (field_type_error name ''array'' v))"

definition spec_fields :: "string list" where
  "spec_fields = [''image'', ''credentials'', ''env'', ''ports'', ''volumes'', ''options'']"

definition take_options :: "(string \<Rightarrow> string list option) \<Rightarrow> field_map \<Rightarrow> (runner_error, string list) result" where
  "take_options shlex_split fs =
     (case map_of fs ''options'' of
        None \<Rightarrow> Ok []
      | Some Null \<Rightarrow> Ok []
      | Some (Str v) \<Rightarrow> parse_container_options shlex_split v
      | Some v \<Rightarrow> Err (field_type_error ''options'' ''string'' v))"

definition empty_image :: runner_error where
  "empty_image = spec_error ''container image must not be empty''"

definition spec_from_image :: "string \<Rightarrow> (runner_error, container_spec) result" where
  "spec_from_image img =
     (if trim img = [] then Err empty_image
      else Ok \<lparr>cs_image = img, cs_credentials = None, cs_env = [], cs_ports = [], cs_volumes = [], cs_options = []\<rparr>)"

definition spec_from_fields :: "(string \<Rightarrow> string list option) \<Rightarrow> field_map \<Rightarrow> (runner_error, container_spec) result" where
  "spec_from_fields shlex_split fs =
     (case find (\<lambda>(key, _). key \<notin> set spec_fields) fs of
        Some (key, _) \<Rightarrow> Err (spec_error (''unsupported container field '' @ quoted key))
      | None \<Rightarrow>
          rbind (take_string fs ''image'') (\<lambda>img.
          if trim img = [] then Err empty_image
          else
            rbind (take_credentials fs) (\<lambda>credentials.
            rbind (take_string_map fs ''env'') (\<lambda>env.
            rbind (take_string_list fs ''ports'') (\<lambda>ports.
            rbind (take_string_list fs ''volumes'') (\<lambda>volumes.
            rbind (take_options shlex_split fs) (\<lambda>options.
            Ok \<lparr>cs_image = img, cs_credentials = credentials, cs_env = env, cs_ports = ports, cs_volumes = volumes, cs_options = options\<rparr>)))))))"

text \<open>A token as a value. New arrays and objects get the identity 0, which nothing here compares.\<close>

definition evaluation_failed :: runner_error where
  "evaluation_failed = spec_error ''container expression evaluation failed''"

function (sequential) evaluate_token :: "step_externs \<Rightarrow> exec_context \<Rightarrow> template_token \<Rightarrow> (runner_error, expr_value) result"
  and evaluate_items :: "step_externs \<Rightarrow> exec_context \<Rightarrow> template_token list \<Rightarrow> (runner_error, expr_value list) result"
  and evaluate_fields :: "step_externs \<Rightarrow> exec_context \<Rightarrow> (template_token \<times> template_token) list \<Rightarrow> field_map \<Rightarrow> (runner_error, field_map) result" where
  "evaluate_token X ctx (Template_Token ty lit ex b n d sq fi li co) =
     (if ty = 0
      then (case interpolate_with X (take_snapshot X ctx) (case lit of Some s \<Rightarrow> s | None \<Rightarrow> []) of
              Inr s \<Rightarrow> Ok (Str s) | Inl _ \<Rightarrow> Err evaluation_failed)
      else if ty = 1 then rbind (case sq of Some ts \<Rightarrow> evaluate_items X ctx ts | None \<Rightarrow> Ok []) (\<lambda>vs. Ok (Array 0 False vs))
      else if ty = 2 then rbind (case d of Some es \<Rightarrow> evaluate_fields X ctx es [] | None \<Rightarrow> Ok []) (\<lambda>fs. Ok (Object 0 fs))
      else if ty = 3
      then (case evaluate_expression X ctx (case ex of Some s \<Rightarrow> s | None \<Rightarrow> []) of Inr v \<Rightarrow> Ok v | Inl _ \<Rightarrow> Err evaluation_failed)
      else if ty = 5 then Ok (Bool (case b of Some v \<Rightarrow> v | None \<Rightarrow> False))
      else if ty = 6 then Ok (Num (case n of Some v \<Rightarrow> v | None \<Rightarrow> f64_zero))
      else if ty = 7 then Ok Null
      else Err (spec_error (''unsupported container token type '' @ (if ty < 0 then ''-'' @ show_nat (nat (- ty)) else show_nat (nat ty)))))"
| "evaluate_items X ctx [] = Ok []"
| "evaluate_items X ctx (t # ts) = rbind (evaluate_token X ctx t) (\<lambda>v. rbind (evaluate_items X ctx ts) (\<lambda>vs. Ok (v # vs)))"
| "evaluate_fields X ctx [] fs = Ok fs"
| "evaluate_fields X ctx ((k, v) # es) fs =
     rbind (evaluate_token X ctx k) (\<lambda>key.
       case key of
         Str key \<Rightarrow> rbind (evaluate_token X ctx v) (\<lambda>v. evaluate_fields X ctx es (index_insert key v fs))
       | _ \<Rightarrow> Err (spec_error ''container object keys must be strings''))"
  by pat_completeness auto
termination
  by (relation "measure (case_sum (\<lambda>(_, _, t). size t) (case_sum (\<lambda>(_, _, ts). size_list size ts) (\<lambda>(_, _, es, _). size_list (size_prod size size) es)))")
    auto

definition evaluate_container ::
  "step_externs \<Rightarrow> (string \<Rightarrow> string list option) \<Rightarrow> exec_context \<Rightarrow> template_token option \<Rightarrow> (runner_error, container_spec option) result" where
  "evaluate_container X shlex_split ctx token =
     (case token of
        None \<Rightarrow> Ok None
      | Some t \<Rightarrow>
          rbind (evaluate_token X ctx t) (\<lambda>v.
            case v of
              Null \<Rightarrow> Ok None
            | Str img \<Rightarrow> rbind (spec_from_image img) (\<lambda>s. Ok (Some s))
            | Object _ fs \<Rightarrow> rbind (spec_from_fields shlex_split fs) (\<lambda>s. Ok (Some s))
            | _ \<Rightarrow> Err (spec_error (''container must be a string or object, got '' @ type_name v))))"

subsection \<open>Services\<close>

record service_spec =
  sv_alias :: string
  sv_container :: container_spec

definition services_error :: "string \<Rightarrow> runner_error" where
  "services_error m = Config_Error (''invalid services: '' @ m)"

fun service_values :: "step_externs \<Rightarrow> exec_context \<Rightarrow> (template_token \<times> template_token) list \<Rightarrow> (runner_error, field_map) result" where
  "service_values X ctx [] = Ok []"
| "service_values X ctx ((k, v) # es) =
     rbind (evaluate_token X ctx k) (\<lambda>key.
       case key of
         Str alias \<Rightarrow> rbind (evaluate_token X ctx v) (\<lambda>v. rbind (service_values X ctx es) (\<lambda>r. Ok ((alias, v) # r)))
       | _ \<Rightarrow> Err (services_error ''service IDs must be strings''))"

definition valid_alias :: "string \<Rightarrow> bool" where
  "valid_alias alias \<longleftrightarrow> alias \<noteq> [] \<and> list_all (\<lambda>c. is_ascii_alphanumeric c \<or> c = CHR ''_'' \<or> c = CHR ''-'') alias"

text \<open>The fields of one service; \<open>None\<close> for one that is left out, as by an empty image.\<close>

definition service_fields :: "expr_value \<Rightarrow> (runner_error, field_map option) result" where
  "service_fields v =
     (case v of
        Null \<Rightarrow> Ok None
      | Str img \<Rightarrow> Ok (Some [(''image'', Str img)])
      | Object _ fs \<Rightarrow> Ok (Some fs)
      | _ \<Rightarrow> Err (services_error ''service must be an image string or container mapping''))"

definition strip_docker_scheme :: "field_map \<Rightarrow> field_map option" where
  "strip_docker_scheme fs =
     (case map_of fs ''image'' of
        Some (Str img) \<Rightarrow>
          (let img = (if starts_with img ''docker://'' then drop 9 img else img)
           in if img = [] then None else Some (index_insert ''image'' (Str img) fs))
      | _ \<Rightarrow> Some fs)"

fun build_services ::
  "(string \<Rightarrow> string list option) \<Rightarrow> string list \<Rightarrow> field_map \<Rightarrow> (runner_error, service_spec list) result" where
  "build_services shlex_split seen [] = Ok []"
| "build_services shlex_split seen ((alias, v) # rest) =
     (if \<not> valid_alias alias then Err (services_error ''service ID must contain only letters, digits, underscores or hyphens'')
      else if alias \<in> set seen then Err (services_error ''duplicate service ID'')
      else rbind (service_fields v) (\<lambda>fs.
           case Option.bind fs strip_docker_scheme of
             None \<Rightarrow> build_services shlex_split (alias # seen) rest
           | Some fs \<Rightarrow>
               rbind (spec_from_fields shlex_split fs) (\<lambda>c.
               rbind (build_services shlex_split (alias # seen) rest) (\<lambda>r. Ok (\<lparr>sv_alias = alias, sv_container = c\<rparr> # r)))))"

text \<open>A literal mapping keeps its order, a computed one is sorted by name.\<close>

definition evaluate_services ::
  "step_externs \<Rightarrow> (string \<Rightarrow> string list option) \<Rightarrow> bool \<Rightarrow> exec_context \<Rightarrow> template_token option \<Rightarrow> (runner_error, service_spec list) result" where
  "evaluate_services X shlex_split linux ctx token =
     (case token of
        None \<Rightarrow> Ok []
      | Some t \<Rightarrow>
          rbind (if tt_type t = 2
                 then (case tt_d t of
                         None \<Rightarrow> Err (services_error ''service mapping has no entries'')
                       | Some es \<Rightarrow> service_values X ctx es)
                 else rbind (evaluate_token X ctx t) (\<lambda>v.
                   case v of
                     Null \<Rightarrow> Ok []
                   | Object _ fs \<Rightarrow> Ok (sort_key fst fs)
                   | _ \<Rightarrow> Err (services_error ''jobServiceContainers must be a mapping'')))
            (\<lambda>values. rbind (build_services shlex_split [] values) (\<lambda>services.
              if services \<noteq> [] \<and> \<not> linux then Err (services_error ''service containers require a Linux runner host'') else Ok services)))"

lemma built_services_apart:
  "build_services S seen vals = Ok services
     \<Longrightarrow> distinct (map sv_alias services) \<and> set (map sv_alias services) \<inter> set seen = {} \<and> list_all valid_alias (map sv_alias services)"
proof (induction S seen vals arbitrary: services rule: build_services.induct)
  case (1 S seen)
  then show ?case by simp
next
  case (2 S seen name v rest)
  have va: "valid_alias name" "name \<notin> set seen" using "2.prems" by (auto split: if_splits)
  obtain fs where fs: "service_fields v = Ok fs" using "2.prems" va by (auto simp: rbind_eq_Ok)
  show ?case
  proof (cases "Option.bind fs strip_docker_scheme")
    case None
    then have "build_services S (name # seen) rest = Ok services" using "2.prems" va fs by simp
    from "2.IH"(1) [OF _ va(2) fs None this] show ?thesis using va(1) by auto
  next
    case (Some gs)
    then obtain c r where "build_services S (name # seen) rest = Ok r" and s: "services = \<lparr>sv_alias = name, sv_container = c\<rparr> # r"
      and sp: "spec_from_fields S gs = Ok c"
      using "2.prems" va fs by (auto simp: rbind_eq_Ok)
    from "2.IH"(2) [OF _ va(2) fs Some sp this(1)] show ?thesis using va by (auto simp: s)
  qed
qed

text \<open>The services that are started have distinct, safe names, each usable as a host name in the job's network.\<close>

lemma services_have_distinct_aliases:
  "evaluate_services X S linux ctx token = Ok services \<Longrightarrow> distinct (map sv_alias services) \<and> list_all valid_alias (map sv_alias services)"
  using built_services_apart [of S "[]" _ services]
  by (auto simp: evaluate_services_def rbind_eq_Ok split: option.splits if_splits)

subsection \<open>The options as a list\<close>

text \<open>
  What the words stand for: options, each with the value it takes. The reference translation goes over the options once for the
  health check and once for the rest; no word is ever read as a value in one pass and as an option in the other.
\<close>

type_synonym container_option = "string \<times> string option"

definition accepted_option :: "container_option \<Rightarrow> bool" where
  "accepted_option opt \<longleftrightarrow> (case snd opt of None \<Rightarrow> switch_flag (fst opt) | Some v \<Rightarrow> value_flag (fst opt))"

definition option_argv :: "container_option \<Rightarrow> string list" where
  "option_argv opt = fst opt # (case snd opt of None \<Rightarrow> [] | Some v \<Rightarrow> [v])"

definition apply_one :: "container_option \<Rightarrow> create_body \<Rightarrow> (runner_error, create_body) result" where
  "apply_one opt body =
     (case opt of
        (flag, None) \<Rightarrow>
          Ok (if flag = ''--privileged'' then body\<lparr>cb_privileged := Some True\<rparr>
              else if flag = ''--read-only'' then body\<lparr>cb_readonly_rootfs := Some True\<rparr> else body)
      | (flag, Some v) \<Rightarrow>
          if flag \<in> set health_value_flags then Ok body
          else if flag \<in> set resource_flags then apply_resource flag v body
          else if flag \<in> set [''--group-add'', ''--cap-add'', ''--cap-drop'', ''--security-opt'', ''--ulimit''] then apply_security flag v body
          else Ok (apply_identity flag v body))"

fun apply_all :: "container_option list \<Rightarrow> create_body \<Rightarrow> (runner_error, create_body) result" where
  "apply_all [] body = Ok body"
| "apply_all (opt # opts) body = rbind (apply_one opt body) (apply_all opts)"

fun health_of :: "container_option list \<Rightarrow> health_config \<times> bool \<times> bool \<Rightarrow> (runner_error, health_config \<times> bool \<times> bool) result" where
  "health_of [] a = Ok a"
| "health_of ((flag, None) # opts) a = health_of opts (if flag = ''--no-healthcheck'' then (fst a, True, True) else a)"
| "health_of ((flag, Some v) # opts) a =
     (if flag \<in> set health_value_flags then rbind (set_health flag v (fst a)) (\<lambda>h. health_of opts (h, True, snd (snd a)))
      else health_of opts a)"

definition apply_option_list :: "container_option list \<Rightarrow> create_body \<Rightarrow> (runner_error, create_body) result" where
  "apply_option_list opts body =
     rbind (rbind (health_of opts (empty_health, False, False)) (\<lambda>a. install_health a body)) (apply_all opts)"

lemma option_argv_simps [simp]: "option_argv (flag, None) = [flag]" "option_argv (flag, Some v) = [flag, v]"
  by (simp_all add: option_argv_def)

lemma parse_option_accepted:
  "parse_option word words = Ok (argv, rest) \<Longrightarrow> \<exists>opt. accepted_option opt \<and> argv = option_argv opt"
  by (auto simp: parse_option_def option_value_def accepted_option_def option_argv_def rbind_eq_Ok starts_with_def
      split: if_splits prod.splits option.splits list.splits intro: exI [of _ "(_, None)"] exI [of _ "(_, Some _)"])

lemma parse_words_accepted:
  "parse_words words = Ok argv \<Longrightarrow> \<exists>opts. list_all accepted_option opts \<and> argv = concat (map option_argv opts)"
proof (induction words arbitrary: argv rule: parse_words.induct)
  case 1
  then show ?case by (intro exI [of _ "[]"]) simp
next
  case (2 word words)
  obtain a rest more where p: "parse_option word words = Inr (a, rest)" and m: "parse_words rest = Inr more" and argv: "argv = a @ more"
    using "2.prems" by (auto simp: rbind_eq_Ok split: sum.splits)
  obtain opt where "accepted_option opt" "a = option_argv opt" using parse_option_accepted [OF p] by blast
  moreover obtain opts where "list_all accepted_option opts" "more = concat (map option_argv opts)"
    using "2.IH" [OF p refl m] by blast
  ultimately show ?case by (intro exI [of _ "opt # opts"]) (simp add: argv)
qed

lemma switch_not_health: "switch_flag flag \<Longrightarrow> is_health_option flag \<Longrightarrow> flag = ''--no-healthcheck''"
  by (auto simp: switch_flag_def is_health_option_def health_value_flags_def)

lemma health_flag_cases: "value_flag flag \<Longrightarrow> flag \<noteq> ''--no-healthcheck''"
  by (auto simp: value_flag_def plain_value_flags_def health_value_flags_def)

lemma switch_plain: "switch_flag flag \<Longrightarrow> \<not> takes_value flag"
  by (auto simp: switch_flag_def takes_value_def plain_value_flags_def)

lemma health_options_list:
  "list_all accepted_option opts \<Longrightarrow> health_options (concat (map option_argv opts)) a = health_of opts a"
proof (induction opts a rule: health_of.induct)
  case (1 a)
  then show ?case by simp
next
  case (2 flag opts a)
  then have f: "switch_flag flag" and IH: "health_options (concat (map option_argv opts)) (if flag = ''--no-healthcheck'' then (fst a, True, True) else a)
      = health_of opts (if flag = ''--no-healthcheck'' then (fst a, True, True) else a)"
    by (simp_all add: accepted_option_def)
  show ?case
  proof (cases "flag = ''--no-healthcheck''")
    case True
    then have "is_health_option flag" by (simp add: is_health_option_def)
    then show ?thesis using IH True by simp
  next
    case False
    then have "\<not> is_health_option flag" "\<not> takes_value flag" using switch_not_health [OF f] switch_plain [OF f] by blast+
    then show ?thesis using IH False by simp
  qed
next
  case (3 flag v opts a)
  have f: "flag \<in> set plain_value_flags \<or> flag \<in> set health_value_flags"
    using "3.prems" by (simp add: accepted_option_def value_flag_def)
  show ?case
  proof (cases "flag \<in> set health_value_flags")
    case True
    then have n: "flag \<noteq> ''--no-healthcheck''" "is_health_option flag" by (auto simp: health_value_flags_def is_health_option_def)
    show ?thesis
      using 3 True n by (cases "set_health flag v (fst a)") auto
  next
    case False
    then have n: "takes_value flag" "\<not> is_health_option flag"
      using f by (auto simp: takes_value_def is_health_option_def plain_value_flags_def)
    show ?thesis using 3 False n by simp
  qed
qed

lemma apply_option_switch:
  assumes "switch_flag flag" "\<not> is_health_option flag"
  shows "apply_option flag rest body = rbind (apply_one (flag, None) body) (\<lambda>b. Ok (b, rest))"
  using assms by (auto simp: switch_flag_def is_health_option_def apply_option_def apply_one_def)

lemma apply_option_value:
  assumes "flag \<in> set plain_value_flags"
  shows "apply_option flag (v # rest) body = rbind (apply_one (flag, Some v) body) (\<lambda>b. Ok (b, rest))"
proof -
  have c: "flag \<in> set [''--user'', ''--hostname'', ''--domainname''] \<or> flag \<in> set resource_flags
    \<or> flag \<in> set [''--group-add'', ''--cap-add'', ''--cap-drop'', ''--security-opt'', ''--ulimit'']"
    using assms by (auto simp: plain_value_flags_def resource_flags_def)
  have d: "flag \<notin> set health_value_flags" "flag \<noteq> ''--privileged''" "flag \<noteq> ''--read-only''"
    using assms by (auto simp: plain_value_flags_def health_value_flags_def)
  from c show ?thesis
  proof (elim disjE)
    assume f: "flag \<in> set [''--user'', ''--hostname'', ''--domainname'']"
    then have "flag \<notin> set resource_flags" "flag \<notin> set [''--group-add'', ''--cap-add'', ''--cap-drop'', ''--security-opt'', ''--ulimit'']"
      by (auto simp: resource_flags_def)
    then show ?thesis unfolding apply_option_def apply_one_def using f d by (simp add: next_value_def del: list.set)
  next
    assume f: "flag \<in> set resource_flags"
    then have "flag \<notin> set [''--user'', ''--hostname'', ''--domainname'']" by (auto simp: resource_flags_def)
    then show ?thesis unfolding apply_option_def apply_one_def using f d by (simp add: next_value_def del: list.set)
  next
    assume f: "flag \<in> set [''--group-add'', ''--cap-add'', ''--cap-drop'', ''--security-opt'', ''--ulimit'']"
    then have "flag \<notin> set [''--user'', ''--hostname'', ''--domainname'']" "flag \<notin> set resource_flags" by (auto simp: resource_flags_def)
    then show ?thesis unfolding apply_option_def apply_one_def using f d by (simp add: next_value_def del: list.set)
  qed
qed

lemma apply_options_list:
  "list_all accepted_option opts \<Longrightarrow> apply_options (concat (map option_argv opts)) body = apply_all opts body"
proof (induction opts arbitrary: body)
  case Nil
  then show ?case by simp
next
  case (Cons opt opts)
  obtain flag v where o: "opt = (flag, v)" by (rule prod.exhaust)
  let ?rest = "concat (map option_argv opts)"
  have a: "accepted_option (flag, v)" and r: "list_all accepted_option opts" using Cons.prems by (simp_all add: o)
  note IH = Cons.IH [OF r]
  show ?case
  proof (cases "is_health_option flag")
    case True
    show ?thesis
    proof (cases v)
      case None
      then have "flag = ''--no-healthcheck''"
        using a True switch_not_health [of flag] by (simp add: accepted_option_def)
      then show ?thesis using IH None by (simp add: o apply_one_def is_health_option_def)
    next
      case (Some w)
      then have "flag \<in> set health_value_flags" "flag \<noteq> ''--no-healthcheck''"
        using a True health_flag_cases [of flag] by (simp_all add: accepted_option_def is_health_option_def)
      then show ?thesis using IH Some True by (simp add: o apply_one_def)
    qed
  next
    case False
    show ?thesis
    proof (cases v)
      case None
      then have "switch_flag flag" using a by (simp add: accepted_option_def)
      from apply_option_switch [OF this False] show ?thesis
        using False IH None by (cases "apply_one (flag, None) body") (simp_all add: o)
    next
      case (Some w)
      then have "flag \<in> set plain_value_flags" using a False by (auto simp: accepted_option_def value_flag_def is_health_option_def)
      from apply_option_value [OF this] show ?thesis
        using False IH Some by (cases "apply_one (flag, Some w) body") (simp_all add: o)
    qed
  qed
qed



subsection \<open>Numbers\<close>

lemma digits_val_shift: "digits_val a y = a * 10 ^ length y + digits_val 0 y"
proof (induction y arbitrary: a)
  case Nil
  then show ?case by simp
next
  case (Cons c y)
  have "digits_val 0 (c # y) = digits_val (digits_val 0 [c]) y" using digits_val_append [of 0 "[c]" y] by simp
  also have "\<dots> = digits_val 0 [c] * 10 ^ length y + digits_val 0 y" by (rule Cons.IH)
  finally have z: "digits_val 0 (c # y) = digits_val 0 [c] * 10 ^ length y + digits_val 0 y" .
  have "digits_val a (c # y) = digits_val a [c] * 10 ^ length y + digits_val 0 y"
    using digits_val_append [of a "[c]" y] Cons.IH [of "digits_val a [c]"] by simp
  then show ?case using z by (simp add: algebra_simps)
qed

lemma digits_val_zeros: "digits_val a (replicate n (CHR ''0'')) = a * 10 ^ n"
  by (induction n arbitrary: a) (simp_all add: algebra_simps)

lemma digits_val_bound: "list_all is_ascii_digit s \<Longrightarrow> digits_val 0 s < 10 ^ length s"
proof (induction s rule: rev_induct)
  case Nil
  then show ?case by simp
next
  case (snoc c s)
  have "ord c - 48 < 10" using snoc.prems by (auto simp: is_ascii_digit_def)
  moreover have "digits_val 0 s < 10 ^ length s" using snoc by simp
  ultimately show ?case by (simp add: digits_val_append)
qed

lemma digit_no_sign: "list_all is_ascii_digit s \<Longrightarrow> s \<noteq> [] \<Longrightarrow> parse_signed s = checked_i64 (int (digits_val 0 s))"
  by (cases s) (auto simp: parse_signed_def parse_digits_def is_ascii_digit_def split: if_splits)

lemma parse_signed_zeros:
  assumes "list_all is_ascii_digit f" "length f \<le> 9"
  shows "parse_signed (f @ replicate (9 - length f) (CHR ''0'')) = Some (int (digits_val 0 f) * 10 ^ (9 - length f))"
proof -
  let ?p = "f @ replicate (9 - length f) (CHR ''0'')"
  have d: "list_all is_ascii_digit ?p" "length ?p = 9"
    using assms by (auto simp: is_ascii_digit_def list_all_iff)
  have v: "digits_val 0 ?p = digits_val 0 f * 10 ^ (9 - length f)"
    by (simp add: digits_val_append digits_val_zeros)
  have "digits_val 0 ?p < 10 ^ 9" using digits_val_bound [OF d(1)] d(2) by simp
  then have "checked_i64 (int (digits_val 0 ?p)) = Some (int (digits_val 0 ?p))" by (simp add: checked_i64_def)
  moreover have "?p \<noteq> []" using d(2) by (metis list.size(3) zero_neq_numeral)
  ultimately show ?thesis using digit_no_sign [OF d(1)] v by simp
qed

text \<open>The parts of a decimal before and after the point.\<close>

definition decimal_parts :: "string \<Rightarrow> string \<times> string" where
  "decimal_parts v = (case split_once_char (CHR ''.'') v of Some parts \<Rightarrow> parts | None \<Rightarrow> (v, []))"

lemma nano_cpus_value:
  assumes p: "decimal_parts v = (w, f)" and w: "w \<noteq> []" "list_all is_ascii_digit w" and f: "length f \<le> 9" "list_all is_ascii_digit f"
  defines "n \<equiv> int (digits_val 0 w) * 10 ^ 9 + int (digits_val 0 f) * 10 ^ (9 - length f)"
  shows "parse_nano_cpus v = Ok m \<longleftrightarrow> m = n \<and> 0 < n \<and> n < 2 ^ 63"
proof -
  let ?w = "int (digits_val 0 w)" and ?f = "int (digits_val 0 f) * 10 ^ (9 - length f)"
  have f0: "0 \<le> ?f" by simp
  have pw: "parse_signed w = checked_i64 ?w" by (rule digit_no_sign [OF w(2,1)])
  have pf: "parse_signed (f @ replicate (9 - length f) (CHR ''0'')) = Some ?f" by (rule parse_signed_zeros [OF f(2,1)])
  have e: "parse_nano_cpus v = rbind (ok_or (options_error (''option '' @ quoted ''--cpus'' @ '' requires an integer'')) (checked_i64 ?w)) (\<lambda>x.
      ok_or (options_error ''option `--cpus` is out of range'')
        (Option.bind (checked_i64 (x * 1000000000)) (\<lambda>y. Option.bind (checked_i64 (y + ?f)) (\<lambda>k. if k > 0 then Some k else None))))"
    using p w f pw pf by (simp add: parse_nano_cpus_def parse_option_number_def decimal_parts_def)
  show ?thesis
  proof (cases "n < 2 ^ 63")
    case True
    have "?w * 1000000000 \<le> n" using f0 by (simp add: n_def)
    moreover have "?w \<le> ?w * 1000000000" by simp
    ultimately have "?w * 1000000000 < 2 ^ 63" "?w < 2 ^ 63" using True by linarith+
    then show ?thesis using True e f0 by (auto simp: checked_i64_def n_def)
  next
    case False
    then have "\<not> (?w < 2 ^ 63 \<and> ?w * 1000000000 < 2 ^ 63 \<and> ?w * 1000000000 + ?f < 2 ^ 63)" by (simp add: n_def)
    then show ?thesis using False e by (auto simp: checked_i64_def rbind_eq_Ok split: if_splits)
  qed
qed

text \<open>
  C21. The value of \<open>--cpus\<close> is read exactly, in billionths of a processor and without overflow: it is accepted just when it is a positive decimal with
  at most nine digits after the point whose billionfold fits in 64 bits, and the result is that number.
\<close>
theorem cpus_are_exact:
  "parse_nano_cpus v = Ok n \<longleftrightarrow>
     (let (w, f) = decimal_parts v
      in w \<noteq> [] \<and> list_all is_ascii_digit (w @ f) \<and> length f \<le> 9
         \<and> n * 10 ^ length f = int (digits_val 0 (w @ f)) * 10 ^ 9 \<and> 0 < n \<and> n < 2 ^ 63)"
proof -
  obtain w f where p: "decimal_parts v = (w, f)" by (rule prod.exhaust)
  show ?thesis
  proof (cases "w \<noteq> [] \<and> list_all is_ascii_digit (w @ f) \<and> length f \<le> 9")
    case False
    then have "parse_nano_cpus v \<noteq> Ok n"
      using p by (auto simp: parse_nano_cpus_def decimal_parts_def)
    then show ?thesis using p False by auto
  next
    case True
    define m where "m = int (digits_val 0 w) * 10 ^ 9 + int (digits_val 0 f) * 10 ^ (9 - length f)"
    have "(10::int) ^ (9 - length f) * 10 ^ length f = 10 ^ 9"
      using True by (simp flip: power_add)
    then have "m * 10 ^ length f = int (digits_val 0 (w @ f)) * 10 ^ 9"
      using digits_val_shift [of "digits_val 0 w" f]
      by (simp add: m_def digits_val_append algebra_simps)
    then have "n * 10 ^ length f = int (digits_val 0 (w @ f)) * 10 ^ 9 \<longleftrightarrow> n = m"
      by (metis mult_cancel_right power_not_zero zero_neq_numeral)
    moreover have "parse_nano_cpus v = Ok n \<longleftrightarrow> n = m \<and> 0 < m \<and> m < 2 ^ 63"
      using nano_cpus_value [OF p] True by (simp add: m_def)
    ultimately show ?thesis using p True by auto
  qed
qed


subsection \<open>Errors tell no value\<close>

text \<open>
  Two declarations that differ in values only: the same fields with values of the same types, in the credentials, the environment, the
  ports and the volumes down to the entries; the image and the option string are the same.
\<close>

definition same_kind :: "expr_value \<Rightarrow> expr_value \<Rightarrow> bool" where
  "same_kind v w \<longleftrightarrow> type_name v = type_name w"

definition same_shape :: "expr_value \<Rightarrow> expr_value \<Rightarrow> bool" where
  "same_shape v w \<longleftrightarrow>
     (case (v, w) of
        (Array _ _ vs, Array _ _ ws) \<Rightarrow> list_all2 same_kind vs ws
      | (Object _ vs, Object _ ws) \<Rightarrow> list_all2 (\<lambda>(k, v) (l, w). k = l \<and> same_kind v w) vs ws
      | _ \<Rightarrow> same_kind v w)"

definition alike_field :: "string \<Rightarrow> expr_value \<Rightarrow> expr_value \<Rightarrow> bool" where
  "alike_field k v w \<longleftrightarrow> (if k = ''image'' \<or> k = ''options'' then v = w else same_shape v w)"

definition alike_fields :: "field_map \<Rightarrow> field_map \<Rightarrow> bool" where
  "alike_fields fs gs \<longleftrightarrow> list_all2 (\<lambda>(k, v) (l, w). k = l \<and> alike_field k v w) fs gs"

definition errors_alike :: "('e, 'a) result \<Rightarrow> ('e, 'b) result \<Rightarrow> bool" where
  "errors_alike r q \<longleftrightarrow> (\<forall>e. r = Inl e \<longleftrightarrow> q = Inl e)"

lemma errors_alike_refl [simp]: "errors_alike r r"
  by (simp add: errors_alike_def)

lemma errors_alike_Inl [simp]: "errors_alike (Inl e) (Inl d) \<longleftrightarrow> e = d"
  by (auto simp: errors_alike_def)

lemma errors_alike_Inr [simp]: "errors_alike (Inr a) (Inr b)" "\<not> errors_alike (Inl e) (Inr b)" "\<not> errors_alike (Inr a) (Inl e)"
  by (auto simp: errors_alike_def)

lemma errors_alike_rbind [intro]:
  "errors_alike r q \<Longrightarrow> (\<And>a b. errors_alike (f a) (g b)) \<Longrightarrow> errors_alike (rbind r f) (rbind q g)"
  by (cases r; cases q) (auto simp: errors_alike_def)

lemma same_kind_cases:
  "same_kind Null w \<longleftrightarrow> w = Null" "same_kind (Str s) w \<longleftrightarrow> (\<exists>t. w = Str t)" "same_kind (Bool b) w \<longleftrightarrow> (\<exists>c. w = Bool c)"
  "same_kind (Num n) w \<longleftrightarrow> (\<exists>m. w = Num m)" "same_kind (Array i t vs) w \<longleftrightarrow> (\<exists>j u ws. w = Array j u ws)"
  "same_kind (Object i fs) w \<longleftrightarrow> (\<exists>j gs. w = Object j gs)"
  by (cases w; simp add: same_kind_def)+

lemma same_shape_kind: "same_shape v w \<Longrightarrow> same_kind v w"
  by (auto simp: same_shape_def same_kind_def split: expr_value.splits)

lemma map_of_alike:
  "list_all2 (\<lambda>(k, v) (l, w). k = l \<and> R k v w) fs gs \<Longrightarrow> rel_option (R k) (map_of fs k) (map_of gs k)"
  by (induction rule: list_all2_induct) auto

lemma find_key_alike:
  "list_all2 (\<lambda>(k, v) (l, w). k = l \<and> R k v w) fs gs
     \<Longrightarrow> map_option fst (find (\<lambda>(k, _). P k) fs) = map_option fst (find (\<lambda>(k, _). P k) gs)"
  by (induction rule: list_all2_induct) auto

lemma take_string_alike:
  assumes "rel_option same_kind (map_of fs name) (map_of gs name)"
  shows "errors_alike (take_string fs name) (take_string gs name)"
  using assms
  by (cases "map_of fs name"; cases "map_of gs name")
    (auto simp: take_string_def field_type_error_def same_kind_def split: expr_value.splits)

lemma string_entries_alike:
  "list_all2 (\<lambda>(k, v) (l, w). k = l \<and> same_kind v w) es ds \<Longrightarrow> errors_alike (string_entries name es) (string_entries name ds)"
  by (induction rule: list_all2_induct) (auto simp: same_kind_cases split: expr_value.splits intro!: errors_alike_rbind)

lemma string_items_alike:
  "list_all2 same_kind vs ws \<Longrightarrow> errors_alike (string_items name vs) (string_items name ws)"
  by (induction rule: list_all2_induct) (auto simp: same_kind_cases split: expr_value.splits intro!: errors_alike_rbind)

lemma take_string_map_alike:
  assumes "rel_option same_shape (map_of fs name) (map_of gs name)"
  shows "errors_alike (take_string_map fs name) (take_string_map gs name)"
  using assms string_entries_alike [of _ _ name]
  by (cases "map_of fs name"; cases "map_of gs name")
    (auto simp: take_string_map_def field_type_error_def same_shape_def same_kind_def split: expr_value.splits)

lemma take_string_list_alike:
  assumes "rel_option same_shape (map_of fs name) (map_of gs name)"
  shows "errors_alike (take_string_list fs name) (take_string_list gs name)"
  using assms string_items_alike [of _ _ name]
  by (cases "map_of fs name"; cases "map_of gs name")
    (auto simp: take_string_list_def field_type_error_def same_shape_def same_kind_def split: expr_value.splits)

lemma credentials_object_alike:
  assumes l: "list_all2 (\<lambda>(k, v) (l, w). k = l \<and> same_kind v w) cs ds"
  shows "errors_alike (take_credentials [(''credentials'', Object i cs)]) (take_credentials [(''credentials'', Object j ds)])"
proof -
  let ?P = "\<lambda>key. key \<noteq> ''username'' \<and> key \<noteq> ''password''"
  have f: "map_option fst (find (\<lambda>(k, _). ?P k) cs) = map_option fst (find (\<lambda>(k, _). ?P k) ds)"
    by (rule find_key_alike [OF l])
  have t: "errors_alike (take_string cs k) (take_string ds k)" for k
    by (rule take_string_alike) (rule map_of_alike [where R = "\<lambda>_. same_kind", OF l])
  show ?thesis
    using f
    by (cases "find (\<lambda>(k, _). ?P k) cs"; cases "find (\<lambda>(k, _). ?P k) ds")
      (auto simp: take_credentials_def intro!: errors_alike_rbind t)
qed

lemma take_credentials_alike:
  assumes "rel_option same_shape (map_of fs ''credentials'') (map_of gs ''credentials'')"
  shows "errors_alike (take_credentials fs) (take_credentials gs)"
proof (cases "\<exists>i cs. map_of fs ''credentials'' = Some (Object i cs)")
  case True
  then obtain i cs where f: "map_of fs ''credentials'' = Some (Object i cs)" by blast
  obtain w where gw: "map_of gs ''credentials'' = Some w" and sw: "same_shape (Object i cs) w"
    using assms unfolding f option_rel_Some1 by blast
  obtain j ds where w: "w = Object j ds" using same_shape_kind [OF sw] by (auto simp: same_kind_cases)
  have g: "map_of gs ''credentials'' = Some (Object j ds)" and l: "list_all2 (\<lambda>(k, v) (l, w). k = l \<and> same_kind v w) cs ds"
    using gw sw w by (simp_all add: same_shape_def)
  have "take_credentials fs = take_credentials [(''credentials'', Object i cs)]" "take_credentials gs = take_credentials [(''credentials'', Object j ds)]"
    by (simp_all add: take_credentials_def f g)
  then show ?thesis using credentials_object_alike [OF l] by simp
next
  case False
  then show ?thesis
    using assms
    by (cases "map_of fs ''credentials''"; cases "map_of gs ''credentials''")
      (auto simp: take_credentials_def field_type_error_def same_shape_def same_kind_def split: expr_value.splits)
qed

text \<open>
  C20. An error about a container declaration tells nothing of its credentials, environment, ports or volumes: whatever their values
  are, a declaration of the same shape fails with the same error.
\<close>
theorem spec_error_tells_no_value:
  assumes "alike_fields fs gs" "spec_from_fields shlex_split fs = Err e"
  shows "spec_from_fields shlex_split gs = Err e"
proof -
  note l = assms(1) [unfolded alike_fields_def]
  have m: "rel_option (alike_field k) (map_of fs k) (map_of gs k)" for k
    by (rule map_of_alike [OF l])
  have s: "rel_option same_shape (map_of fs k) (map_of gs k)" if "k \<noteq> ''image''" "k \<noteq> ''options''" for k
    using m [of k] that by (simp add: alike_field_def [abs_def])
  have e: "map_of gs k = map_of fs k" if "k = ''image'' \<or> k = ''options''" for k
    using m [of k] that by (cases "map_of fs k"; cases "map_of gs k") (auto simp: alike_field_def)
  have f: "map_option fst (find (\<lambda>(k, _). k \<notin> set spec_fields) fs) = map_option fst (find (\<lambda>(k, _). k \<notin> set spec_fields) gs)"
    by (rule find_key_alike [OF l])
  have i: "take_string gs ''image'' = take_string fs ''image''" "take_options shlex_split gs = take_options shlex_split fs"
    by (simp_all add: take_string_def take_options_def e)
  have "errors_alike (spec_from_fields shlex_split fs) (spec_from_fields shlex_split gs)"
  proof (cases "find (\<lambda>(k, _). k \<notin> set spec_fields) fs")
    case None
    then have "find (\<lambda>(k, _). k \<notin> set spec_fields) gs = None" using f by simp
    then show ?thesis
      unfolding spec_from_fields_def None i
      by (cases "take_string fs ''image''")
        (auto intro!: errors_alike_rbind take_credentials_alike take_string_map_alike take_string_list_alike s)
  next
    case (Some kv)
    then obtain kw where "find (\<lambda>(k, _). k \<notin> set spec_fields) gs = Some kw" "fst kw = fst kv"
      using f by (cases "find (\<lambda>(k, _). k \<notin> set spec_fields) gs") simp_all
    then show ?thesis by (simp add: spec_from_fields_def Some case_prod_beta)
  qed
  then show ?thesis using assms(2) unfolding errors_alike_def by blast
qed


text \<open>A text of the options does reach an error: an option that is not known is quoted.\<close>

lemma unknown_option_is_quoted:
  "spec_from_fields (\<lambda>s. Some [s]) [(''image'', Str ''a''), (''options'', Str ''--s3cret'')]
     = Err (Config_Error ''invalid job container options: unsupported container option `--s3cret`'')"
  by code_simp

theorem spec_error_tells_no_value_witness:
  "spec_from_fields (\<lambda>_. None) [(''image'', Str ''a''), (''credentials'', Object 0 [(''username'', Str ''eve''), (''password'', Bool False)])]
     = Err (spec_error (''container field '' @ quoted ''password'' @ '' must be a string, got bool''))"
proof (rule spec_error_tells_no_value)
  show "alike_fields [(''image'', Str ''a''), (''credentials'', Object 0 [(''username'', Str ''u''), (''password'', Bool True)])]
      [(''image'', Str ''a''), (''credentials'', Object 0 [(''username'', Str ''eve''), (''password'', Bool False)])]"
    by (simp add: alike_fields_def alike_field_def same_shape_def same_kind_def)
  show "spec_from_fields (\<lambda>_. None) [(''image'', Str ''a''), (''credentials'', Object 0 [(''username'', Str ''u''), (''password'', Bool True)])]
     = Err (spec_error (''container field '' @ quoted ''password'' @ '' must be a string, got bool''))"
    by code_simp
qed


end
