(* ===== verification/Spec2Isabelle.thy ===== *)
theory Spec2Isabelle
  imports Expr_Display Composite Cache_Service Daemon_Host Forwarder Workspace Orphan_Cleanup Container_Options
begin

text \<open>
  A verification development of toolu-runner, a self-hosted runner for GitHub Actions written in Rust (\<open>src/crates/\<close>).

  \<^bold>\<open>The program.\<close> The command \<open>toolu-runner\<close> runs a loop (\<open>toolu-runner/src/run_cmd.rs\<close>) around a listener session
  (\<open>listener\<close>): it polls GitHub's broker, acquires a job, and hands the job's message to the execution crate, which prepares a
  workspace, runs the steps one after another and reports through events; a forwarder masks the events and sends them on. Steps are
  scripts, JavaScript, Docker or composite actions; their conditions and inputs are written in the expression language
  (\<open>expressions\<close>). Jobs may use a local cache service (\<open>cache\<close>) in place of GitHub's. On a shared host a daemon (\<open>daemon\<close>)
  admits jobs within a budget and runs each in a container of its own.

  \<^bold>\<open>The theories, in the order in which they build on each other.\<close>

  \<^item> \<open>Prelude\<close> (results as sums with the operator \<open>?\<close>, ASCII, splitting, decimal digits, association lists kept by
    insertion), \<open>Utf8\<close> (Rust strings are lists of bytes; decoding and character boundaries) and \<open>Number\<close> (binary64 as a sign,
    an integer mantissa and an exponent, with correctly rounded reading and printing).
  \<^item> The expression language: \<open>Expr_Lexer\<close>, \<open>Expr_Parser\<close>, \<open>Expr_Values\<close>, \<open>Expr_Evaluator\<close>, \<open>Expr_Functions\<close>, \<open>Expr_Format\<close>,
    \<open>Hash_Files\<close> and \<open>Expr_Display\<close> follow the files of \<open>crates/expressions/src/\<close> of those names. The lemmas show that printing and
    parsing are inverse, that comparison is consistent, and that what validation accepts does not fail on a name.
  \<^item> \<open>Secret_Masker\<close> (\<open>shared/src/secret_masker.rs\<close>): registration with its encodings and the masking pass, proved equal to a
    reference redaction.
  \<^item> What a step's output can do: \<open>Command_Parser\<close>, \<open>Problem_Matcher\<close>, \<open>Command_Dispatch\<close>, \<open>File_Commands\<close> and the state they act on,
    \<open>Execution_Context\<close> (\<open>execution/src/execution/\<close>).
  \<^item> What a step is: \<open>Job_Message\<close>, \<open>Action_Ref\<close>, \<open>Step_Display\<close>, \<open>Container_Paths\<close> and \<open>Step_Context\<close> (attributes, environment, the
    snapshot for expressions, the errors of the runner as a datatype).
  \<^item> \<open>Steps_Runner\<close> (\<open>steps_runner.rs\<close> and its parts): the loop over the steps of a job, their conditions and outcomes, post steps,
    cleanup and reports. The state \<open>run_state\<close> is the execution context together with what the loop threads; the events are the output.
  \<^item> \<open>Composite_Expr\<close> and \<open>Composite\<close> (\<open>composite_expr.rs\<close>, \<open>composite_env.rs\<close>, \<open>composite_exec.rs\<close>, \<open>composite_uses.rs\<close>,
    \<open>action_exec.rs\<close>): composite actions inside that loop.
  \<^item> \<open>Container_Options\<close> (\<open>execution/src/docker/\<close>): the declaration of job and service containers and its options.
  \<^item> \<open>Workspace\<close> (\<open>workspace_tracking.rs\<close>, \<open>workspace_lease.rs\<close>, \<open>workspace_layout.rs\<close>, \<open>workspace_gc.rs\<close>): the directories of jobs on a
    shared work root, and their garbage collection beside running jobs.
  \<^item> \<open>Orphan_Cleanup\<close> (\<open>orphan_cleanup.rs\<close>): the sweep of the processes a job leaves behind.
  \<^item> \<open>Listener\<close> (\<open>listener/src/job_lifecycle/\<close>, \<open>retry.rs\<close>, \<open>run_cmd.rs\<close> and others): broker messages, polling, cancellation, the lock
    renewal, completion and the run loop with its exit codes. \<open>Forwarder\<close> (\<open>execution_loop.rs\<close>, \<open>setup_forwarding.rs\<close>, \<open>step_reporter.rs\<close>,
    \<open>step_report_queue.rs\<close>): from the events of a job to its log, its step updates and its result.
  \<^item> The cache: \<open>Cache_Store\<close> (\<open>cas/store.rs\<close> and its parts), \<open>Cache_Index\<close> (\<open>cas/index.rs\<close>, refined to a map from keys to entries),
    \<open>Cache_Gc\<close> (\<open>cas/gc.rs\<close>) and \<open>Cache_Service\<close> (both protocol versions over these, scopes and trust).
  \<^item> The daemon: \<open>Daemon\<close> (gate, registry, reaper, adoption and the routes as interleaved critical sections) and \<open>Daemon_Host\<close>
    (configuration, token, images).

  \<^bold>\<open>How code becomes definitions.\<close> A struct is a record and an enum a datatype, with the names of the source and a prefix on the fields.
  A function that may fail returns a \<open>result\<close>, and every early return is a branch. State is passed explicitly and returned; what is
  emitted is a list of events in order. A hash map is a map, or an association list without duplicate keys where the source iterates.
  Integers are \<open>nat\<close> or \<open>int\<close> with the checked, saturating or bounded operation written out, and machine words where their bits or their
  finite number matter.
  Clocks are natural numbers. Where other processes or threads interleave, the interference is a parameter applied between the
  steps of an operation (\<open>wx_between\<close> in \<open>Workspace\<close>, the process table at each step in \<open>Orphan_Cleanup\<close>) or the operation is split
  into the critical sections of its lock, each a step of an inductive relation (\<open>Daemon\<close>, \<open>jobs_reach\<close> in \<open>Workspace\<close>).

  \<^bold>\<open>Parameters.\<close> Records named \<open>externs\<close> hold what the source takes from elsewhere: the Unicode tables, hashes, JSON and base64 encodings,
  regular expressions, the file system's answers, the Docker engine, HTTP answers, clocks and random identifiers. A theorem needs hypotheses on
  them only where it says so, and its witness instantiates them.

  \<^bold>\<open>Interfaces.\<close> Four contracts are locales: \<open>keyed_store\<close> (the context's stores of outputs, state and environment), \<open>entry_index\<close> (what the
  cache needs of its index), \<open>sub_parser\<close> (a level of the parser) and \<open>cursor_poll\<close> (a loop that reads messages behind a cursor); \<open>masker_env\<close>
  collects the assumptions on the masker's parameters. Each is interpreted on the definitions of the program in the theory that provides them.

  \<^bold>\<open>Termination, fuel and bounds.\<close> Recursion is structural or has a termination proof wherever the source's loop ends by itself. The parser takes
  one more than the number of tokens as fuel; each level of nesting consumes a token, so it never runs out. The execution of an action takes fuel
  for the nesting of composite actions: \<open>composite_nesting_ends\<close> shows that any fuel above the levels left by the depth limit is enough.
  The passes of the process sweep end because there are finitely many processes and kinds of evidence. Its wait is a partial function,
  and \<open>sweep_returns\<close> shows that it returns once the clock stays past the deadline. Retries are bounded by their budget
  (\<open>retry_ends_within_budget\<close>).

  \<^bold>\<open>Not modelled.\<close> Network and Docker requests, TLS, cryptography and serialisation are library work behind parameters. Running a process and
  reading its output, and the node and Docker handlers that prepare one, are parameters of the step loop. The set-up of a job around the
  loop (\<open>job_runner\<close>, hooks, services), the download of actions and node versions, the upload of logs, the configuration files, the setup
  dialogue and the other commands of the command line are input and output with little logic of their own and are left out, as are the
  observability journal and the OIDC and artifact services. The interleaving of the allocation of a workspace with other processes is not split further
  than its lock on the work root; symbolic links and partly deleted directories are not represented.
\<close>

end
